(* ===== verification/Prelude.thy ===== *)
theory Prelude
  imports Complex_Main "HOL-Library.Char_ord" "HOL-Library.List_Lexorder"
    "HOL-Library.Product_Lexorder" "HOL-Library.Multiset"
begin

section \<open>Shared vocabulary of the Coalestra development\<close>

text \<open>
  This theory holds what every component shares: the Python values the code inspects at
  run time, floating-point numbers, validation errors, results, insertion-ordered
  dictionaries, rendering of numbers, the observability log, and the locale of machines
  with an invariant.

  A finite Python float is an exact rational; the two infinities and NaN are explicit, as
  the code tests for them. Rounding of floating-point arithmetic is not modelled. Text is
  a list of characters, and case mapping and white space are those of ASCII.
\<close>

named_theorems res_iff \<open>when a result is a success or a failure\<close>
named_theorems od_simps \<open>laws of insertion-ordered dictionaries\<close>

subsection \<open>Floating-point numbers\<close>

datatype pyfloat = Fin rat | PInf | NInf | NaN

fun flt :: "pyfloat \<Rightarrow> pyfloat \<Rightarrow> bool" where
  "flt (Fin a) (Fin b) = (a < b)"
| "flt (Fin a) PInf = True"
| "flt NInf (Fin b) = True"
| "flt NInf PInf = True"
| "flt _ _ = False"

fun fle :: "pyfloat \<Rightarrow> pyfloat \<Rightarrow> bool" where
  "fle (Fin a) (Fin b) = (a \<le> b)"
| "fle (Fin a) PInf = True"
| "fle NInf (Fin b) = True"
| "fle NInf PInf = True"
| "fle PInf PInf = True"
| "fle NInf NInf = True"
| "fle _ _ = False"

definition isfinite :: "pyfloat \<Rightarrow> bool" where
  "isfinite f = (case f of Fin _ \<Rightarrow> True | _ \<Rightarrow> False)"

definition isnan :: "pyfloat \<Rightarrow> bool" where
  "isnan f = (f = NaN)"

lemma isfinite_simps [simp]:
  "isfinite (Fin a)" "\<not> isfinite PInf" "\<not> isfinite NInf" "\<not> isfinite NaN"
  by (simp_all add: isfinite_def)

lemma isfiniteE: "isfinite f \<Longrightarrow> (\<And>a. f = Fin a \<Longrightarrow> P) \<Longrightarrow> P"
  by (cases f) auto

lemma isnan_simps [simp]: "\<not> isnan (Fin a)" "\<not> isnan PInf" "\<not> isnan NInf" "isnan NaN"
  by (simp_all add: isnan_def)

lemma flt_irrefl [simp]: "\<not> flt a a"
  by (cases a) auto

lemma not_flt_fle: "a \<noteq> NaN \<Longrightarrow> b \<noteq> NaN \<Longrightarrow> \<not> flt a b \<longleftrightarrow> fle b a"
  by (cases a; cases b) auto

lemma fle_trans: "fle a b \<Longrightarrow> fle b c \<Longrightarrow> fle a c"
  by (cases a; cases b; cases c) auto

lemma fle_Fin_not_NaN: "fle a b \<Longrightarrow> a \<noteq> NaN \<and> b \<noteq> NaN"
  by (cases a; cases b) auto

lemma fle_flt_trans: "fle a b \<Longrightarrow> flt b c \<Longrightarrow> flt a c"
  by (cases a; cases b; cases c) auto

subsection \<open>Dynamic values\<close>

datatype pyval =
    PyNone
  | PyBool bool
  | PyInt int
  | PyFloat pyfloat
  | PyStr string
  | PyTuple "pyval list"
  | PyList "pyval list"
  | PyDict "(string \<times> pyval) list"
  | PyObject string nat

text \<open>A number as the annotation \<^verbatim>\<open>float\<close> admits it: an int or a float.\<close>

datatype pynum = NInt int | NFloat pyfloat

text \<open>
  What a constructor raises on a bad argument. \<open>OverflowError\<close> is what converting an int
  beyond the range of a double raises.
\<close>

datatype arg_error = TypeError string | ValueError string | OverflowError

definition double_overflow :: int where
  "double_overflow = 2 ^ 1024 - 2 ^ 970"

fun to_double :: "pynum \<Rightarrow> arg_error + pyfloat" where
  "to_double (NFloat f) = Inr f"
| "to_double (NInt i) =
     (if \<bar>i\<bar> < double_overflow then Inr (Fin (of_int i)) else Inl OverflowError)"

text \<open>
  \<open>as_number v\<close> is the number \<open>v\<close> holds when
  \<^verbatim>\<open>isinstance(v, (int, float)) and not isinstance(v, bool)\<close>.
\<close>

fun as_number :: "pyval \<Rightarrow> pynum option" where
  "as_number (PyInt i) = Some (NInt i)"
| "as_number (PyFloat f) = Some (NFloat f)"
| "as_number _ = None"

text \<open>The integer \<open>v\<close> holds when it is an int and not a bool.\<close>

fun as_int :: "pyval \<Rightarrow> int option" where
  "as_int (PyInt i) = Some i"
| "as_int _ = None"

fun as_bool :: "pyval \<Rightarrow> bool option" where
  "as_bool (PyBool b) = Some b"
| "as_bool _ = None"

fun type_name :: "pyval \<Rightarrow> string" where
  "type_name PyNone = ''NoneType''"
| "type_name (PyBool b) = ''bool''"
| "type_name (PyInt i) = ''int''"
| "type_name (PyFloat f) = ''float''"
| "type_name (PyStr s) = ''str''"
| "type_name (PyTuple xs) = ''tuple''"
| "type_name (PyList xs) = ''list''"
| "type_name (PyDict d) = ''dict''"
| "type_name (PyObject t i) = t"

subsection \<open>Results\<close>

text \<open>A fallible computation returns \<open>Inl\<close> of what it raises or \<open>Inr\<close> of its value.\<close>

definition res_bind :: "'e + 'a \<Rightarrow> ('a \<Rightarrow> 'e + 'b) \<Rightarrow> 'e + 'b" where
  "res_bind m f = (case m of Inl e \<Rightarrow> Inl e | Inr x \<Rightarrow> f x)"

definition raise_if :: "bool \<Rightarrow> 'e \<Rightarrow> 'e + unit" where
  "raise_if b e = (if b then Inl e else Inr ())"

definition require :: "'a option \<Rightarrow> 'e \<Rightarrow> 'e + 'a" where
  "require x e = (case x of None \<Rightarrow> Inl e | Some y \<Rightarrow> Inr y)"

fun res_map :: "('a \<Rightarrow> 'e + 'b) \<Rightarrow> 'a list \<Rightarrow> 'e + 'b list" where
  "res_map f [] = Inr []"
| "res_map f (x # xs) = res_bind (f x) (\<lambda>y. res_bind (res_map f xs) (\<lambda>ys. Inr (y # ys)))"

lemma res_bind_simps [simp]:
  "res_bind (Inl e) f = Inl e" "res_bind (Inr x) f = f x"
  by (simp_all add: res_bind_def)

lemma res_bind_Inr_iff [res_iff]:
  "res_bind m f = Inr y \<longleftrightarrow> (\<exists>x. m = Inr x \<and> f x = Inr y)"
  by (cases m) auto

lemma res_bind_Inl_iff [res_iff]:
  "res_bind m f = Inl e \<longleftrightarrow> m = Inl e \<or> (\<exists>x. m = Inr x \<and> f x = Inl e)"
  by (cases m) auto

lemma raise_if_simps [simp]: "raise_if True e = Inl e" "raise_if False e = Inr ()"
  by (simp_all add: raise_if_def)

lemma raise_if_Inr_iff [res_iff]: "raise_if b e = Inr u \<longleftrightarrow> \<not> b"
  by (simp add: raise_if_def)

lemma raise_if_Inl_iff [res_iff]: "raise_if b e = Inl e' \<longleftrightarrow> b \<and> e' = e"
  by (auto simp: raise_if_def)

lemma require_simps [simp]: "require None e = Inl e" "require (Some y) e = Inr y"
  by (simp_all add: require_def)

lemma require_Inr_iff [res_iff]: "require x e = Inr y \<longleftrightarrow> x = Some y"
  by (cases x) auto

lemma require_Inl_iff [res_iff]: "require x e = Inl e' \<longleftrightarrow> x = None \<and> e' = e"
  by (cases x) auto

lemma res_map_Inr_length: "res_map f xs = Inr ys \<Longrightarrow> length ys = length xs"
  by (induction xs arbitrary: ys) (auto simp: res_iff)

lemma res_map_Inr_conv:
  "res_map f xs = Inr ys \<longleftrightarrow> list_all2 (\<lambda>x y. f x = Inr y) xs ys"
  by (induction xs arbitrary: ys) (auto simp: res_iff list_all2_Cons1)

lemma res_map_Inr_id: "(\<And>x. x \<in> set xs \<Longrightarrow> f x = Inr (g x)) \<Longrightarrow> res_map f xs = Inr (map g xs)"
  by (induction xs) auto

lemma res_map_fst:
  "res_map f xs = Inr ys \<Longrightarrow> (\<And>x y. f x = Inr y \<Longrightarrow> fst y = g x) \<Longrightarrow> map fst ys = map g xs"
  by (induction xs arbitrary: ys) (auto simp: res_iff)

lemma res_map_same: "(\<And>x. x \<in> set xs \<Longrightarrow> f x = Inr x) \<Longrightarrow> res_map f xs = Inr xs"
  by (induction xs) auto

lemma res_map_in: "res_map f xs = Inr ys \<Longrightarrow> y \<in> set ys \<Longrightarrow> \<exists>x \<in> set xs. f x = Inr y"
  by (induction xs arbitrary: ys) (auto simp: res_iff)

lemma length_filter_drop:
  assumes "x \<in> set xs" "P x" "\<not> Q x" "\<And>y. Q y \<Longrightarrow> P y"
  shows "length (filter Q xs) < length (filter P xs)"
proof -
  have "filter Q xs = filter Q (filter P xs)" using assms(4) by (auto intro!: filter_cong)
  moreover have "length (filter Q (filter P xs)) < length (filter P xs)"
    using assms by (intro length_filter_less [of x]) auto
  ultimately show ?thesis by simp
qed

subsection \<open>Insertion-ordered dictionaries\<close>

text \<open>
  \<^verbatim>\<open>dict\<close> and \<^verbatim>\<open>OrderedDict\<close> keep their items in insertion order, and an
  assignment to a present key keeps its place. They are association lists whose keys
  are distinct; \<open>map_of\<close> is \<^verbatim>\<open>get\<close>.
\<close>

type_synonym ('k, 'v) odict = "('k \<times> 'v) list"

abbreviation od_keys :: "('k, 'v) odict \<Rightarrow> 'k list" where
  "od_keys d \<equiv> map fst d"

abbreviation od_ok :: "('k, 'v) odict \<Rightarrow> bool" where
  "od_ok d \<equiv> distinct (map fst d)"

fun od_set :: "'k \<Rightarrow> 'v \<Rightarrow> ('k, 'v) odict \<Rightarrow> ('k, 'v) odict" where
  "od_set k v [] = [(k, v)]"
| "od_set k v (p # d) = (if fst p = k then (k, v) # d else p # od_set k v d)"

definition od_pop :: "'k \<Rightarrow> ('k, 'v) odict \<Rightarrow> ('k, 'v) odict" where
  "od_pop k d = filter (\<lambda>p. fst p \<noteq> k) d"

definition od_move_to_end :: "'k \<Rightarrow> ('k, 'v) odict \<Rightarrow> ('k, 'v) odict" where
  "od_move_to_end k d =
     (case map_of d k of None \<Rightarrow> d | Some v \<Rightarrow> od_pop k d @ [(k, v)])"

definition od_update :: "('k, 'v) odict \<Rightarrow> ('k \<times> 'v) list \<Rightarrow> ('k, 'v) odict" where
  "od_update d xs = foldl (\<lambda>acc p. od_set (fst p) (snd p) acc) d xs"

definition od_of :: "('k \<times> 'v) list \<Rightarrow> ('k, 'v) odict" where
  "od_of xs = od_update [] xs"

text \<open>\<^verbatim>\<open>tuple(dict.fromkeys(xs))\<close>: the first occurrence of every element, in order.\<close>

fun fromkeys :: "'a list \<Rightarrow> 'a list" where
  "fromkeys [] = []"
| "fromkeys (x # xs) = x # removeAll x (fromkeys xs)"

lemma set_fromkeys [simp]: "set (fromkeys xs) = set xs"
  by (induction xs) auto

lemma distinct_fromkeys [simp]: "distinct (fromkeys xs)"
  by (induction xs) (auto simp: distinct_removeAll)

lemma fromkeys_distinct: "distinct xs \<Longrightarrow> fromkeys xs = xs"
  by (induction xs) auto

lemma fromkeys_idem [simp]: "fromkeys (fromkeys xs) = fromkeys xs"
  by (simp add: fromkeys_distinct)

lemma fromkeys_Nil_iff [simp]: "fromkeys xs = [] \<longleftrightarrow> xs = []"
  by (cases xs) auto

lemma length_fromkeys: "length (fromkeys xs) = card (set xs)"
  using distinct_card [of "fromkeys xs"] by simp

lemma map_of_od_set [simp, od_simps]: "map_of (od_set k v d) = (map_of d)(k \<mapsto> v)"
  by (induction d) (auto simp: fun_eq_iff)

lemma od_keys_od_set [od_simps]:
  "od_keys (od_set k v d) = (if k \<in> set (od_keys d) then od_keys d else od_keys d @ [k])"
  by (induction d) auto

lemma od_ok_od_set [simp]: "od_ok d \<Longrightarrow> od_ok (od_set k v d)"
  by (simp add: od_keys_od_set)

lemma set_od_set_subset: "set (od_set k v d) \<subseteq> insert (k, v) (set d)"
  by (induction d) auto

lemma map_of_od_pop [simp, od_simps]: "map_of (od_pop k d) = (map_of d)(k := None)"
  by (induction d) (auto simp: od_pop_def fun_eq_iff)

lemma od_keys_od_pop [od_simps]: "od_keys (od_pop k d) = removeAll k (od_keys d)"
  by (induction d) (auto simp: od_pop_def)

lemma od_ok_od_pop [simp]: "od_ok d \<Longrightarrow> od_ok (od_pop k d)"
  by (simp add: od_keys_od_pop distinct_removeAll)

lemma set_od_pop [simp]: "set (od_pop k d) = {p \<in> set d. fst p \<noteq> k}"
  by (auto simp: od_pop_def)

lemma length_od_pop_le: "length (od_pop k d) \<le> length d"
  by (simp add: od_pop_def)

lemma od_pop_absent: "k \<notin> set (od_keys d) \<Longrightarrow> od_pop k d = d"
  by (induction d) (auto simp: od_pop_def)

lemma map_of_None_keys: "map_of d k = None \<longleftrightarrow> k \<notin> set (od_keys d)"
  by (simp add: map_of_eq_None_iff)

lemma map_of_Some_key: "map_of d k = Some v \<Longrightarrow> k \<in> set (od_keys d)"
  by (force dest: map_of_SomeD)

lemma map_of_rev: "od_ok d \<Longrightarrow> map_of (rev d) = map_of d"
  by (subst map_of_inject_set) (simp_all flip: rev_map)

lemma length_od_pop: "od_ok d \<Longrightarrow> k \<in> set (od_keys d) \<Longrightarrow> Suc (length (od_pop k d)) = length d"
proof (induction d)
  case (Cons p d)
  show ?case
  proof (cases "fst p = k")
    case True
    with Cons.prems have "od_pop k d = d" by (intro od_pop_absent) simp
    with True show ?thesis by (simp add: od_pop_def)
  next
    case False
    with Cons show ?thesis by (auto simp: od_pop_def)
  qed
qed simp

lemma map_of_od_move_to_end [simp, od_simps]:
  "map_of (od_move_to_end k d) = map_of d"
  by (auto simp: od_move_to_end_def fun_eq_iff map_add_def split: option.splits)

lemma od_pop_od_set [simp]: "od_pop k (od_set k v d) = od_pop k d"
  by (induction d) (auto simp: od_pop_def)

lemma od_move_to_end_od_set: "od_move_to_end k (od_set k v d) = od_pop k d @ [(k, v)]"
  by (simp add: od_move_to_end_def)

lemma od_set_absent: "k \<notin> set (od_keys d) \<Longrightarrow> od_set k v d = d @ [(k, v)]"
  by (induction d) auto

lemma od_keys_od_move_to_end [od_simps]:
  "od_keys (od_move_to_end k d) =
     (if k \<in> set (od_keys d) then removeAll k (od_keys d) @ [k] else od_keys d)"
proof (cases "map_of d k")
  case None
  then have "k \<notin> set (od_keys d)" by (simp add: map_of_None_keys)
  with None show ?thesis by (simp add: od_move_to_end_def)
next
  case (Some v)
  then have "k \<in> set (od_keys d)" by (rule map_of_Some_key)
  with Some show ?thesis by (simp add: od_move_to_end_def od_keys_od_pop)
qed

lemma od_ok_od_move_to_end [simp]: "od_ok d \<Longrightarrow> od_ok (od_move_to_end k d)"
  by (simp add: od_keys_od_move_to_end distinct_removeAll)

lemma set_od_move_to_end: "od_ok d \<Longrightarrow> set (od_move_to_end k d) = set d"
proof -
  assume ok: "od_ok d"
  have "set x = set y" if "od_ok x" "od_ok y" "map_of x = map_of y" for x y :: "('a \<times> 'b) list"
    using that by (metis map_of_inject_set)
  from this [OF od_ok_od_move_to_end [OF ok] ok] show ?thesis by simp
qed

lemma length_od_move_to_end: "od_ok d \<Longrightarrow> length (od_move_to_end k d) = length d"
  by (metis distinct_card length_map od_ok_od_move_to_end set_map set_od_move_to_end)

lemma od_ok_od_update [simp]: "od_ok d \<Longrightarrow> od_ok (od_update d xs)"
  by (induction xs arbitrary: d) (auto simp: od_update_def)

lemma map_of_od_update: "map_of (od_update d xs) = map_of d ++ map_of (rev xs)"
  by (induction xs arbitrary: d) (auto simp: od_update_def fun_eq_iff map_add_def split: option.splits)

lemma od_ok_od_of [simp]: "od_ok (od_of xs)"
  by (simp add: od_of_def)

lemma map_of_od_of: "map_of (od_of xs) = map_of (rev xs)"
  by (simp add: od_of_def map_of_od_update)

subsection \<open>Rendering of numbers\<close>

fun nat_str :: "nat \<Rightarrow> string" where
  "nat_str n = (if n < 10 then [char_of (48 + n)]
                else nat_str (n div 10) @ [char_of (48 + n mod 10)])"

declare nat_str.simps [simp del]

definition int_str :: "int \<Rightarrow> string" where
  "int_str i = (if i < 0 then ''-'' @ nat_str (nat (- i)) else nat_str (nat i))"

definition round_half_even :: "rat \<Rightarrow> int" where
  "round_half_even x =
     (let q = \<lfloor>x\<rfloor>; r = x - of_int q
      in if r < 1 / 2 then q else if r > 1 / 2 then q + 1 else if even q then q else q + 1)"

text \<open>\<^verbatim>\<open>f"{x:.nf}"\<close> on a finite value.\<close>

definition fmt_fixed :: "nat \<Rightarrow> rat \<Rightarrow> string" where
  "fmt_fixed n x =
     (let m = nat (round_half_even (\<bar>x\<bar> * 10 ^ n)); ds = nat_str (m mod 10 ^ n)
      in (if x < 0 then ''-'' else '''') @ nat_str (m div 10 ^ n) @
         (if n = 0 then '''' else ''.'' @ replicate (n - length ds) CHR ''0'' @ ds))"

definition str_join :: "string \<Rightarrow> string list \<Rightarrow> string" where
  "str_join sep xs = (case xs of [] \<Rightarrow> '''' | y # ys \<Rightarrow> y @ concat (map (\<lambda>z. sep @ z) ys))"

text \<open>\<^verbatim>\<open>repr\<close> of a string: the quotes it chooses and the escapes it writes.\<close>

definition hex_lower :: "nat \<Rightarrow> char" where
  "hex_lower n = char_of (if n < 10 then 48 + n else 87 + n)"

definition repr_char :: "char \<Rightarrow> char \<Rightarrow> string" where
  "repr_char quote c =
     (let n = of_char c :: nat
      in if c = quote \<or> n = 92 then [char_of (92 :: nat), c]
         else if n = 9 then [char_of (92 :: nat), CHR ''t'']
         else if n = 10 then [char_of (92 :: nat), CHR ''n'']
         else if n = 13 then [char_of (92 :: nat), CHR ''r'']
         else if n < 32 \<or> n = 127 then [char_of (92 :: nat), CHR ''x'', hex_lower (n div 16), hex_lower (n mod 16)]
         else [c])"

definition py_repr :: "string \<Rightarrow> string" where
  "py_repr s =
     (let single = char_of (39 :: nat); double = char_of (34 :: nat);
          quote = (if single \<in> set s \<and> double \<notin> set s then double else single)
      in [quote] @ concat (map (repr_char quote) s) @ [quote])"

subsection \<open>The observability log\<close>

text \<open>
  Every call of a metrics or event sink is one entry of a log kept in the state of the
  component that makes it: the sinks themselves are supplied by the application.
\<close>

datatype obs =
    MetricIncrement string "(string \<times> string) list"
  | MetricObserve string rat "(string \<times> string) list"
  | EventEmit string "(string \<times> pyval) list"

subsection \<open>Machines with an invariant\<close>

text \<open>
  A component whose operations are steps of a machine: \<open>step s l s'\<close> says that the
  operation labelled \<open>l\<close> can take \<open>s\<close> to \<open>s'\<close>. The locale proves once that an invariant
  that every operation keeps holds after every run.
\<close>

inductive run_of :: "('s \<Rightarrow> 'l \<Rightarrow> 's \<Rightarrow> bool) \<Rightarrow> 's \<Rightarrow> 'l list \<Rightarrow> 's \<Rightarrow> bool"
  for step :: "'s \<Rightarrow> 'l \<Rightarrow> 's \<Rightarrow> bool" where
  run_nil: "run_of step s [] s"
| run_cons: "step s l t \<Longrightarrow> run_of step t ls u \<Longrightarrow> run_of step s (l # ls) u"

inductive_cases run_of_NilE [elim!]: "run_of step s [] t"
inductive_cases run_of_ConsE [elim!]: "run_of step s (l # ls) t"

lemma run_of_append:
  "run_of step s ls t \<Longrightarrow> run_of step t ms u \<Longrightarrow> run_of step s (ls @ ms) u"
  by (induction rule: run_of.induct) (auto intro: run_of.intros)

locale machine =
  fixes step :: "'s \<Rightarrow> 'l \<Rightarrow> 's \<Rightarrow> bool"
    and inv :: "'s \<Rightarrow> bool"
  assumes step_inv: "inv s \<Longrightarrow> step s l t \<Longrightarrow> inv t"
begin

lemma run_inv: "run_of step s ls t \<Longrightarrow> inv s \<Longrightarrow> inv t"
  by (induction rule: run_of.induct) (auto intro: step_inv)

end

end
