(* ===== verification/Keys.thy ===== *)
theory Keys
  imports Prelude
begin

section \<open>Resource identity (core/keys.py)\<close>

text \<open>
  \<open>ResourceKey\<close> objects and their normalization. The field \<^verbatim>\<open>_normalizer\<close> is declared
  with \<^verbatim>\<open>compare=False\<close>: it takes no part in equality, hashing or ordering. It is
  therefore not a field of \<open>resource_key\<close> here; the methods that read it take it as their
  first argument. Qualifiers are given as the pairs of strings that \<^verbatim>\<open>str\<close> makes of
  them.
\<close>

subsection \<open>Strings\<close>

definition is_space :: "char \<Rightarrow> bool" where
  "is_space c = (of_char c \<in> {9, 10, 11, 12, 13, 28, 29, 30, 31, 32 :: nat})"

definition strip :: "string \<Rightarrow> string" where
  "strip s = rev (dropWhile is_space (rev (dropWhile is_space s)))"

definition char_lower :: "char \<Rightarrow> char" where
  "char_lower c = (let n = of_char c :: nat in if 65 \<le> n \<and> n \<le> 90 then char_of (n + 32) else c)"

definition char_upper :: "char \<Rightarrow> char" where
  "char_upper c = (let n = of_char c :: nat in if 97 \<le> n \<and> n \<le> 122 then char_of (n - 32) else c)"

definition str_lower :: "string \<Rightarrow> string" where
  "str_lower s = map char_lower (strip s)"

definition str_upper :: "string \<Rightarrow> string" where
  "str_upper s = map char_upper (strip s)"

text \<open>On ASCII text \<^verbatim>\<open>casefold\<close> is \<^verbatim>\<open>lower\<close>.\<close>

definition str_casefold :: "string \<Rightarrow> string" where
  "str_casefold s = map char_lower (strip s)"

subsection \<open>Normalizers\<close>

record key_normalizer =
  nz_namespace :: "string \<Rightarrow> string"
  nz_name :: "string \<Rightarrow> string"
  nz_subject :: "string \<Rightarrow> string"
  nz_qualifier_name :: "string \<Rightarrow> string"
  nz_qualifier_value :: "string \<Rightarrow> string"

definition normalize_qualifier :: "key_normalizer \<Rightarrow> string \<times> string \<Rightarrow> string \<times> string" where
  "normalize_qualifier nz q = (nz_qualifier_name nz (fst q), nz_qualifier_value nz (snd q))"

definition PRESERVE_KEY_NORMALIZER :: key_normalizer where
  "PRESERVE_KEY_NORMALIZER = \<lparr>nz_namespace = strip, nz_name = strip, nz_subject = strip,
     nz_qualifier_name = strip, nz_qualifier_value = strip\<rparr>"

definition LEGACY_KEY_NORMALIZER :: key_normalizer where
  "LEGACY_KEY_NORMALIZER = \<lparr>nz_namespace = str_lower, nz_name = str_lower,
     nz_subject = str_upper, nz_qualifier_name = str_lower, nz_qualifier_value = strip\<rparr>"

definition CASE_INSENSITIVE_KEY_NORMALIZER :: key_normalizer where
  "CASE_INSENSITIVE_KEY_NORMALIZER = \<lparr>nz_namespace = str_casefold, nz_name = str_casefold,
     nz_subject = str_casefold, nz_qualifier_name = str_casefold,
     nz_qualifier_value = str_casefold\<rparr>"

subsection \<open>Keys\<close>

datatype resource_key = ResourceKey
  (rk_namespace: string) (rk_name: string) (rk_subject: string)
  (rk_qualifiers: "(string \<times> string) list")

text \<open>
  \<^verbatim>\<open>@dataclass(order=True)\<close>: keys compare as the tuples of their compared fields.
\<close>

definition key_tuple :: "resource_key \<Rightarrow> string \<times> string \<times> string \<times> (string \<times> string) list" where
  "key_tuple k = (rk_namespace k, rk_name k, rk_subject k, rk_qualifiers k)"

lemma key_tuple_inject: "key_tuple a = key_tuple b \<longleftrightarrow> a = b"
  by (cases a; cases b) (simp add: key_tuple_def)

instantiation resource_key :: linorder
begin

definition less_eq_resource_key :: "resource_key \<Rightarrow> resource_key \<Rightarrow> bool" where
  "less_eq_resource_key a b \<longleftrightarrow> key_tuple a \<le> key_tuple b"

definition less_resource_key :: "resource_key \<Rightarrow> resource_key \<Rightarrow> bool" where
  "less_resource_key a b \<longleftrightarrow> key_tuple a < key_tuple b"

instance
  by standard (auto simp: less_eq_resource_key_def less_resource_key_def
      order.strict_iff_order key_tuple_inject)

end

text \<open>The loop over the raw qualifiers, with its list of names seen so far.\<close>

fun collect_qualifiers ::
  "key_normalizer \<Rightarrow> (string \<times> string) list \<Rightarrow> (string \<times> string) list
    \<Rightarrow> arg_error + (string \<times> string) list" where
  "collect_qualifiers nz acc [] = Inr acc"
| "collect_qualifiers nz acc (raw # rest) =
     (let q = normalize_qualifier nz raw
      in if fst q = '''' then Inl (ValueError ''qualifier name cannot be empty'')
         else if fst q \<in> set (map fst acc)
              then Inl (ValueError (''duplicate qualifier name: '' @ fst q))
         else collect_qualifiers nz (acc @ [q]) rest)"

definition mk_resource_key ::
  "key_normalizer \<Rightarrow> string \<Rightarrow> string \<Rightarrow> string \<Rightarrow> (string \<times> string) list
    \<Rightarrow> arg_error + resource_key" where
  "mk_resource_key nz ns nm sub qs =
     (let ns' = nz_namespace nz ns; nm' = nz_name nz nm; sub' = nz_subject nz sub
      in if ns' = '''' then Inl (ValueError ''namespace cannot be empty'')
         else if nm' = '''' then Inl (ValueError ''name cannot be empty'')
         else res_bind (collect_qualifiers nz [] qs)
                (\<lambda>norm. Inr (ResourceKey ns' nm' sub' (sort norm))))"

definition legacy_key ::
  "string \<Rightarrow> string \<Rightarrow> string \<Rightarrow> (string \<times> string) list \<Rightarrow> arg_error + resource_key" where
  "legacy_key ns nm sub qs = mk_resource_key LEGACY_KEY_NORMALIZER ns nm sub qs"

definition normalized :: "key_normalizer \<Rightarrow> resource_key \<Rightarrow> arg_error + resource_key" where
  "normalized nz k = mk_resource_key nz (rk_namespace k) (rk_name k) (rk_subject k) (rk_qualifiers k)"

definition qualifier :: "key_normalizer \<Rightarrow> resource_key \<Rightarrow> string \<Rightarrow> string option \<Rightarrow> string option" where
  "qualifier nz k nm dflt =
     (let n = nz_qualifier_name nz nm
      in case find (\<lambda>q. fst q = n) (rk_qualifiers k) of
           Some q \<Rightarrow> Some (snd q)
         | None \<Rightarrow> dflt)"

definition with_qualifiers ::
  "key_normalizer \<Rightarrow> resource_key \<Rightarrow> (string \<times> string) list \<Rightarrow> (string \<times> string) list
    \<Rightarrow> arg_error + resource_key" where
  "with_qualifiers nz k qs additional =
     (let merged = od_update (od_update (od_of (rk_qualifiers k)) qs) additional
      in mk_resource_key nz (rk_namespace k) (rk_name k) (rk_subject k) merged)"

definition without_qualifiers ::
  "key_normalizer \<Rightarrow> resource_key \<Rightarrow> string list \<Rightarrow> arg_error + resource_key" where
  "without_qualifiers nz k names =
     (let removed = map (nz_qualifier_name nz) names
      in mk_resource_key nz (rk_namespace k) (rk_name k) (rk_subject k)
           (filter (\<lambda>q. fst q \<notin> set removed) (rk_qualifiers k)))"

subsection \<open>Rendering\<close>

text \<open>\<^verbatim>\<open>urllib.parse.urlencode\<close> of a list of pairs, with \<^verbatim>\<open>quote_plus\<close> on each part.\<close>

definition url_safe :: "char \<Rightarrow> bool" where
  "url_safe c = (let n = of_char c :: nat
     in 48 \<le> n \<and> n \<le> 57 \<or> 65 \<le> n \<and> n \<le> 90 \<or> 97 \<le> n \<and> n \<le> 122 \<or> c \<in> set ''_.-~'')"

definition hex_digit :: "nat \<Rightarrow> char" where
  "hex_digit n = char_of (if n < 10 then 48 + n else 55 + n)"

definition quote_char :: "char \<Rightarrow> string" where
  "quote_char c =
     (if url_safe c then [c] else if c = CHR '' '' then ''+''
      else [CHR ''%'', hex_digit (of_char c div 16), hex_digit (of_char c mod 16)])"

definition quote_plus :: "string \<Rightarrow> string" where
  "quote_plus s = concat (map quote_char s)"

definition urlencode :: "(string \<times> string) list \<Rightarrow> string" where
  "urlencode qs = str_join ''&'' (map (\<lambda>q. quote_plus (fst q) @ ''='' @ quote_plus (snd q)) qs)"

definition key_str :: "resource_key \<Rightarrow> string" where
  "key_str k =
     (let base = rk_namespace k @ '':'' @ rk_name k;
          base = (if rk_subject k \<noteq> '''' then base @ '':'' @ rk_subject k else base)
      in if rk_qualifiers k \<noteq> [] then base @ ''?'' @ urlencode (rk_qualifiers k) else base)"

text \<open>Source names are normalized alike by every component that takes one.\<close>

definition normalize_source :: "string \<Rightarrow> arg_error + string" where
  "normalize_source s =
     (let n = strip s in if n = '''' then Inl (ValueError ''source name cannot be empty'') else Inr n)"

subsection \<open>Lemmas\<close>

definition key_wf :: "resource_key \<Rightarrow> bool" where
  "key_wf k \<longleftrightarrow> rk_namespace k \<noteq> '''' \<and> rk_name k \<noteq> ''''
     \<and> sorted (rk_qualifiers k) \<and> distinct (map fst (rk_qualifiers k))
     \<and> (\<forall>q \<in> set (rk_qualifiers k). fst q \<noteq> '''')"

lemma collect_qualifiers_Inr_iff:
  "collect_qualifiers nz acc qs = Inr r \<longleftrightarrow>
     r = acc @ map (normalize_qualifier nz) qs
     \<and> (\<forall>q \<in> set qs. nz_qualifier_name nz (fst q) \<noteq> '''')
     \<and> distinct (map (nz_qualifier_name nz \<circ> fst) qs)
     \<and> set (map fst acc) \<inter> set (map (nz_qualifier_name nz \<circ> fst) qs) = {}"
proof (induction qs arbitrary: acc)
  case Nil
  then show ?case by auto
next
  case (Cons q qs)
  then show ?case
    by (auto simp: Let_def normalize_qualifier_def comp_def)
qed

lemma map_fst_normalize_qualifier:
  "map fst (map (normalize_qualifier nz) qs) = map (nz_qualifier_name nz \<circ> fst) qs"
  by (simp add: normalize_qualifier_def)

lemma mk_resource_key_Inr_iff:
  "mk_resource_key nz ns nm sub qs = Inr k \<longleftrightarrow>
     nz_namespace nz ns \<noteq> '''' \<and> nz_name nz nm \<noteq> ''''
     \<and> (\<forall>q \<in> set qs. nz_qualifier_name nz (fst q) \<noteq> '''')
     \<and> distinct (map (nz_qualifier_name nz \<circ> fst) qs)
     \<and> k = ResourceKey (nz_namespace nz ns) (nz_name nz nm) (nz_subject nz sub)
             (sort (map (normalize_qualifier nz) qs))"
  by (auto simp: mk_resource_key_def Let_def res_iff collect_qualifiers_Inr_iff)

lemma distinct_map_fst_sort: "distinct (map fst (sort xs)) = distinct (map fst xs)"
  by (rule mset_eq_imp_distinct_iff) simp

lemma mk_resource_key_wf: "mk_resource_key nz ns nm sub qs = Inr k \<Longrightarrow> key_wf k"
  by (auto simp: mk_resource_key_Inr_iff key_wf_def distinct_map_fst_sort normalize_qualifier_def
      comp_def)

lemma dropWhile_idem: "dropWhile P (dropWhile P xs) = dropWhile P xs"
  by (induction xs) auto

lemma dropWhile_hd: "dropWhile P xs \<noteq> [] \<Longrightarrow> \<not> P (hd (dropWhile P xs))"
  by (induction xs) auto

lemma dropWhile_eq_self: "xs = [] \<or> \<not> P (hd xs) \<Longrightarrow> dropWhile P xs = xs"
  by (cases xs) auto

lemma last_dropWhile: "dropWhile P xs \<noteq> [] \<Longrightarrow> last (dropWhile P xs) = last xs"
  by (induction xs) (auto split: if_splits)

lemma strip_clean_ends:
  "strip s = '''' \<or> \<not> is_space (hd (strip s)) \<and> \<not> is_space (last (strip s))"
proof (cases "strip s = ''''")
  case False
  let ?t = "dropWhile is_space s"
  let ?u = "dropWhile is_space (rev ?t)"
  from False have u: "?u \<noteq> []" by (simp add: strip_def)
  then have t: "?t \<noteq> []" by (metis dropWhile.simps(1) rev.simps(1))
  have "hd (strip s) = last ?u" using u by (simp add: strip_def hd_rev)
  also have "\<dots> = hd ?t" using last_dropWhile [OF u] t by (simp add: last_rev)
  finally have "\<not> is_space (hd (strip s))" using dropWhile_hd [OF t] by simp
  moreover have "\<not> is_space (last (strip s))"
    using dropWhile_hd [OF u] u by (simp add: strip_def last_rev)
  ultimately show ?thesis by simp
qed simp

lemma strip_eq_self: "s = '''' \<or> \<not> is_space (hd s) \<and> \<not> is_space (last s) \<Longrightarrow> strip s = s"
  by (auto simp: strip_def dropWhile_eq_self hd_rev)

lemma strip_idem [simp]: "strip (strip s) = strip s"
  using strip_clean_ends by (rule strip_eq_self)

lemma is_space_lower [simp]: "is_space (char_lower c) = is_space c"
  by (auto simp: is_space_def char_lower_def Let_def)

lemma is_space_upper [simp]: "is_space (char_upper c) = is_space c"
  by (auto simp: is_space_def char_upper_def Let_def)

lemma char_lower_idem [simp]: "char_lower (char_lower c) = char_lower c"
  by (auto simp: char_lower_def Let_def)

lemma char_upper_idem [simp]: "char_upper (char_upper c) = char_upper c"
  by (auto simp: char_upper_def Let_def)

lemma strip_map:
  assumes "\<And>c. is_space (f c) = is_space c"
  shows "strip (map f (strip s)) = map f (strip s)"
  using strip_clean_ends [of s] by (intro strip_eq_self) (auto simp: assms hd_map last_map)

lemma str_lower_idem [simp]: "str_lower (str_lower s) = str_lower s"
  by (simp add: str_lower_def strip_map)

lemma str_upper_idem [simp]: "str_upper (str_upper s) = str_upper s"
  by (simp add: str_upper_def strip_map)

lemma str_casefold_idem [simp]: "str_casefold (str_casefold s) = str_casefold s"
  by (simp add: str_casefold_def strip_map)

definition idempotent_normalizer :: "key_normalizer \<Rightarrow> bool" where
  "idempotent_normalizer nz \<longleftrightarrow>
     (\<forall>s. nz_namespace nz (nz_namespace nz s) = nz_namespace nz s)
     \<and> (\<forall>s. nz_name nz (nz_name nz s) = nz_name nz s)
     \<and> (\<forall>s. nz_subject nz (nz_subject nz s) = nz_subject nz s)
     \<and> (\<forall>s. nz_qualifier_name nz (nz_qualifier_name nz s) = nz_qualifier_name nz s)
     \<and> (\<forall>s. nz_qualifier_value nz (nz_qualifier_value nz s) = nz_qualifier_value nz s)"

lemma builtin_normalizers_idempotent:
  "idempotent_normalizer PRESERVE_KEY_NORMALIZER"
  "idempotent_normalizer LEGACY_KEY_NORMALIZER"
  "idempotent_normalizer CASE_INSENSITIVE_KEY_NORMALIZER"
  by (simp_all add: idempotent_normalizer_def PRESERVE_KEY_NORMALIZER_def
      LEGACY_KEY_NORMALIZER_def CASE_INSENSITIVE_KEY_NORMALIZER_def)

lemma sort_eq_if_mset_eq: "mset xs = mset ys \<Longrightarrow> sort xs = (sort ys :: 'a::linorder list)"
  by (metis mset_sort properties_for_sort sorted_sort)

lemma mk_resource_key_mset:
  assumes "mset qs' = mset qs" and "mk_resource_key nz ns nm sub qs = Inr k"
  shows "mk_resource_key nz ns nm sub qs' = Inr k"
proof -
  from assms(1) have "set qs' = set qs" by (rule mset_eq_setD)
  moreover have "mset (map f qs') = mset (map f qs)" for f :: "_ \<Rightarrow> string"
    using assms(1) by simp
  then have "distinct (map f qs') = distinct (map f qs)" for f :: "_ \<Rightarrow> string"
    by (rule mset_eq_imp_distinct_iff)
  moreover have "sort (map f qs') = sort (map f qs)" for f :: "_ \<Rightarrow> string \<times> string"
    using assms(1) by (intro sort_eq_if_mset_eq) simp
  ultimately show ?thesis using assms(2) by (simp add: mk_resource_key_Inr_iff)
qed

text \<open>The normalized fields of a built key are fixed points of an idempotent normalizer.\<close>

lemma mk_resource_key_fixed:
  assumes idem: "idempotent_normalizer nz" and ok: "mk_resource_key nz ns nm sub qs = Inr k"
  shows "nz_namespace nz (rk_namespace k) = rk_namespace k"
    and "nz_name nz (rk_name k) = rk_name k"
    and "nz_subject nz (rk_subject k) = rk_subject k"
    and "q \<in> set (rk_qualifiers k) \<Longrightarrow> normalize_qualifier nz q = q"
  using assms
  by (auto simp: idempotent_normalizer_def mk_resource_key_Inr_iff normalize_qualifier_def)

lemma normalized_same:
  assumes "idempotent_normalizer nz" and "mk_resource_key nz ns nm sub qs = Inr k"
  shows "normalized nz k = Inr k"
proof -
  note fixed = mk_resource_key_fixed [OF assms]
  have wf: "key_wf k" by (rule mk_resource_key_wf [OF assms(2)])
  have "map (normalize_qualifier nz) (rk_qualifiers k) = rk_qualifiers k"
    using fixed(4) by (intro map_idI) auto
  moreover from this have "distinct (map (nz_qualifier_name nz \<circ> fst) (rk_qualifiers k))"
    using wf by (metis key_wf_def map_fst_normalize_qualifier)
  moreover have "nz_qualifier_name nz (fst q) = fst q" if "q \<in> set (rk_qualifiers k)" for q
    using fixed(4) [OF that] by (metis fst_conv normalize_qualifier_def)
  ultimately show ?thesis
    using wf fixed(1-3)
    by (auto simp: normalized_def mk_resource_key_Inr_iff key_wf_def sorted_sort_id
        simp del: map_eq_conv map_map)
qed

lemma find_map_of: "distinct (map fst qs) \<Longrightarrow> find (\<lambda>q. fst q = n) qs = map_option (Pair n) (map_of qs n)"
  by (induction qs) auto

lemma map_of_sort: "distinct (map fst qs) \<Longrightarrow> map_of (sort qs) = map_of qs"
  by (metis distinct_map_fst_sort map_of_inject_set set_sort)

lemma qualifier_map_of:
  "key_wf k \<Longrightarrow> qualifier nz k nm dflt =
     (case map_of (rk_qualifiers k) (nz_qualifier_name nz nm) of Some v \<Rightarrow> Some v | None \<Rightarrow> dflt)"
  by (simp add: qualifier_def key_wf_def find_map_of Let_def split: option.splits)

subsection \<open>Merging and removing qualifiers\<close>

definition canonical_names :: "key_normalizer \<Rightarrow> (string \<times> string) list \<Rightarrow> bool" where
  "canonical_names nz qs \<longleftrightarrow> (\<forall>q \<in> set qs. nz_qualifier_name nz (fst q) = fst q \<and> fst q \<noteq> '''')"

lemma canonical_names_od_update:
  "canonical_names nz d \<Longrightarrow> canonical_names nz qs \<Longrightarrow> canonical_names nz (od_update d qs)"
proof (induction qs arbitrary: d)
  case (Cons q qs)
  have "canonical_names nz (od_set (fst q) (snd q) d)"
    using Cons.prems set_od_set_subset [of "fst q" "snd q" d] by (auto simp: canonical_names_def)
  moreover have "canonical_names nz qs" using Cons.prems(2) by (simp add: canonical_names_def)
  moreover have "od_update d (q # qs) = od_update (od_set (fst q) (snd q) d) qs"
    by (simp add: od_update_def)
  ultimately show ?case using Cons.IH by simp
qed (simp add: od_update_def)

lemma mk_resource_key_canonical:
  assumes "nz_namespace nz ns \<noteq> ''''" "nz_name nz nm \<noteq> ''''"
    and can: "canonical_names nz d" and ok: "od_ok d"
  shows "\<exists>k. mk_resource_key nz ns nm sub d = Inr k
    \<and> rk_namespace k = nz_namespace nz ns \<and> rk_name k = nz_name nz nm
    \<and> rk_subject k = nz_subject nz sub
    \<and> map_of (rk_qualifiers k) = map_option (nz_qualifier_value nz) \<circ> map_of d"
proof -
  have eq: "map (normalize_qualifier nz) d = map (\<lambda>q. (fst q, nz_qualifier_value nz (snd q))) d"
    using can by (auto simp: canonical_names_def normalize_qualifier_def)
  have names: "map (nz_qualifier_name nz \<circ> fst) d = map fst d"
    using can by (auto simp: canonical_names_def)
  have eqn: "distinct (map (nz_qualifier_name nz \<circ> fst) d)" using ok by (simp only: names)
  have "map_of (map (\<lambda>q. (fst q, f (snd q))) d) m = map_option f (map_of d m)"
    for m and f :: "string \<Rightarrow> string"
    by (induction d) auto
  moreover have "distinct (map fst (map (\<lambda>q. (fst q, nz_qualifier_value nz (snd q))) d))"
    using ok by (simp add: comp_def)
  ultimately have "map_of (sort (map (normalize_qualifier nz) d))
      = map_option (nz_qualifier_value nz) \<circ> map_of d"
    by (simp only: eq map_of_sort) (simp add: fun_eq_iff)
  moreover have "\<forall>q \<in> set d. nz_qualifier_name nz (fst q) \<noteq> ''''"
    using can by (auto simp: canonical_names_def)
  ultimately show ?thesis
    using assms(1,2) eqn by (auto simp: mk_resource_key_Inr_iff)
qed

lemma built_key_canonical:
  assumes "idempotent_normalizer nz" and "mk_resource_key nz ns nm sub qs = Inr k"
  shows "canonical_names nz (rk_qualifiers k)"
  using mk_resource_key_fixed(4) [OF assms] mk_resource_key_wf [OF assms(2)]
  by (auto simp: canonical_names_def key_wf_def normalize_qualifier_def)

lemma with_qualifiers_map:
  assumes built: "idempotent_normalizer nz" "mk_resource_key nz ns nm sub qs0 = Inr k"
    and can: "canonical_names nz qs" "canonical_names nz additional"
  shows "\<exists>k'. with_qualifiers nz k qs additional = Inr k'
    \<and> map_of (rk_qualifiers k') = map_option (nz_qualifier_value nz)
        \<circ> (map_of (rk_qualifiers k) ++ map_of (rev qs) ++ map_of (rev additional))"
proof -
  let ?d = "od_update (od_update (od_of (rk_qualifiers k)) qs) additional"
  have wf: "key_wf k" by (rule mk_resource_key_wf [OF built(2)])
  have "canonical_names nz (od_of (rk_qualifiers k))"
    unfolding od_of_def
    by (rule canonical_names_od_update [OF _ built_key_canonical [OF built]])
      (simp add: canonical_names_def)
  then have "canonical_names nz ?d" using can by (blast intro: canonical_names_od_update)
  moreover have "map_of (rev (rk_qualifiers k)) = map_of (rk_qualifiers k)"
    using wf by (simp add: key_wf_def map_of_rev)
  then have "map_of ?d = map_of (rk_qualifiers k) ++ map_of (rev qs) ++ map_of (rev additional)"
    by (simp add: map_of_od_update map_of_od_of)
  ultimately show ?thesis
    using mk_resource_key_canonical [of nz "rk_namespace k" "rk_name k" ?d "rk_subject k"]
      mk_resource_key_fixed [OF built] wf
    by (auto simp: with_qualifiers_def Let_def key_wf_def)
qed

subsection \<open>Rendering is injective on plain keys\<close>

lemma split_at_first:
  "x \<notin> set a \<Longrightarrow> x \<notin> set a' \<Longrightarrow> a @ x # b = a' @ x # b' \<longleftrightarrow> a = a' \<and> b = b'"
proof (induction a arbitrary: a')
  case Nil
  then show ?case by (cases a') auto
next
  case (Cons y a)
  then show ?case by (cases a') auto
qed

lemma str_join_Cons: "str_join sep (x # xs) = (if xs = [] then x else x @ sep @ str_join sep xs)"
  by (cases xs) (auto simp: str_join_def)

lemma str_join_inject:
  assumes "str_join [c] xs = str_join [c] ys" "xs \<noteq> []" "ys \<noteq> []"
    and "\<forall>x \<in> set xs. c \<notin> set x" "\<forall>y \<in> set ys. c \<notin> set y"
  shows "xs = ys"
  using assms
proof (induction xs arbitrary: ys)
  case (Cons x xs)
  then obtain y ys' where ys: "ys = y # ys'" by (cases ys) auto
  have "(xs = []) = (ys' = [])"
    using Cons.prems ys by (auto simp: str_join_Cons split: if_splits)
  with Cons ys show ?case
    by (auto simp: str_join_Cons split_at_first split: if_splits)
qed simp

lemma hex_digit_inject:
  assumes "a < 16" "b < 16" and "hex_digit a = hex_digit b"
  shows "a = b"
proof -
  have code: "of_char (hex_digit n) = (if n < 10 then 48 + n else 55 + n)" if "n < 16" for n
    using that by (auto simp: hex_digit_def)
  from assms(3) have "(of_char (hex_digit a) :: nat) = of_char (hex_digit b)" by simp
  with code [OF assms(1)] code [OF assms(2)] assms(1,2) show ?thesis
    by (auto split: if_splits)
qed

lemma url_safe_not_escape: "url_safe c \<Longrightarrow> c \<noteq> CHR ''+'' \<and> c \<noteq> CHR ''%'' \<and> c \<noteq> CHR ''&'' \<and> c \<noteq> CHR ''=''"
  by (auto simp: url_safe_def Let_def)

lemma hex_digit_url_safe: "n < 16 \<Longrightarrow> url_safe (hex_digit n)"
  by (auto simp: url_safe_def hex_digit_def Let_def)

lemma char_code_inject:
  assumes "(of_char c :: nat) div 16 = of_char d div 16" "(of_char c :: nat) mod 16 = of_char d mod 16"
  shows "c = d"
  by (metis assms div_mult_mod_eq of_char_eq_iff)

lemma char_code_div_less: "(of_char (c :: char) :: nat) div 16 < 16"
proof -
  have "(of_char c :: nat) mod 256 < 256" by (rule mod_less_divisor) simp
  then have "(of_char c :: nat) < 256" by simp
  then show ?thesis by linarith
qed

lemma quote_char_inject:
  assumes "quote_char c @ u = quote_char d @ v"
  shows "c = d \<and> u = v"
proof -
  consider "url_safe c" | "\<not> url_safe c" "c = CHR '' ''" | "\<not> url_safe c" "c \<noteq> CHR '' ''" by blast
  note c = this
  consider "url_safe d" | "\<not> url_safe d" "d = CHR '' ''" | "\<not> url_safe d" "d \<noteq> CHR '' ''" by blast
  then show ?thesis
    using c assms url_safe_not_escape [of c] url_safe_not_escape [of d]
    by cases (auto simp: quote_char_def dest!: hex_digit_inject [OF char_code_div_less char_code_div_less]
        hex_digit_inject [rotated 2] intro: char_code_inject split: if_splits)
qed

lemma quote_plus_inject: "quote_plus s = quote_plus t \<Longrightarrow> s = t"
proof (induction s arbitrary: t)
  case Nil
  then show ?case by (cases t) (auto simp: quote_plus_def quote_char_def split: if_splits)
next
  case (Cons c s)
  show ?case
  proof (cases t)
    case Nil
    with Cons.prems show ?thesis by (auto simp: quote_plus_def quote_char_def split: if_splits)
  next
    case (Cons d t')
    with Cons.prems have "quote_char c @ quote_plus s = quote_char d @ quote_plus t'"
      by (simp add: quote_plus_def)
    then have "c = d \<and> quote_plus s = quote_plus t'" by (rule quote_char_inject)
    with Cons.IH Cons show ?thesis by simp
  qed
qed

lemma quote_plus_chars: "c \<in> set (quote_plus s) \<Longrightarrow> url_safe c \<or> c = CHR ''+'' \<or> c = CHR ''%''"
  using hex_digit_url_safe char_code_div_less
  by (auto simp: quote_plus_def quote_char_def split: if_splits)

lemma quote_plus_no_sep: "CHR ''&'' \<notin> set (quote_plus s)" "CHR ''='' \<notin> set (quote_plus s)"
  using quote_plus_chars [of "CHR ''&''" s] quote_plus_chars [of "CHR ''=''" s]
    url_safe_not_escape by auto

lemma urlencode_inject:
  assumes "urlencode qs = urlencode rs" "qs \<noteq> []" "rs \<noteq> []"
  shows "qs = rs"
proof -
  let ?part = "\<lambda>q. quote_plus (fst q) @ ''='' @ quote_plus (snd q)"
  have "map ?part qs = map ?part rs"
    using assms by (intro str_join_inject [of "CHR ''&''"])
      (auto simp: urlencode_def quote_plus_no_sep)
  moreover have "inj ?part"
    by (rule injI) (auto simp: split_at_first quote_plus_no_sep prod_eq_iff dest: quote_plus_inject)
  ultimately show ?thesis by (simp add: inj_map_eq_map)
qed

definition plain_key :: "resource_key \<Rightarrow> bool" where
  "plain_key k \<longleftrightarrow> CHR '':'' \<notin> set (rk_namespace k) \<union> set (rk_name k)
     \<and> CHR ''?'' \<notin> set (rk_namespace k) \<union> set (rk_name k) \<union> set (rk_subject k)"

definition key_base :: "resource_key \<Rightarrow> string" where
  "key_base k = rk_namespace k @ CHR '':'' # rk_name k
     @ (if rk_subject k \<noteq> '''' then CHR '':'' # rk_subject k else '''')"

lemma key_str_base:
  "key_str k = key_base k @ (if rk_qualifiers k = [] then '''' else CHR ''?'' # urlencode (rk_qualifiers k))"
  by (simp add: key_str_def key_base_def Let_def)

lemma key_base_inject:
  assumes "plain_key a" "plain_key b" "key_base a = key_base b"
  shows "rk_namespace a = rk_namespace b \<and> rk_name a = rk_name b \<and> rk_subject a = rk_subject b"
proof -
  from assms have ns: "rk_namespace a = rk_namespace b"
    and rest: "rk_name a @ (if rk_subject a \<noteq> '''' then CHR '':'' # rk_subject a else '''')
       = rk_name b @ (if rk_subject b \<noteq> '''' then CHR '':'' # rk_subject b else '''')"
    by (auto simp: key_base_def plain_key_def split_at_first)
  have "CHR '':'' \<notin> set (rk_name a)" "CHR '':'' \<notin> set (rk_name b)"
    using assms by (auto simp: plain_key_def)
  with ns rest show ?thesis
    by (auto simp: split_at_first split: if_splits)
      (metis in_set_conv_decomp)+
qed

lemma key_base_no_question: "plain_key k \<Longrightarrow> CHR ''?'' \<notin> set (key_base k)"
  by (auto simp: plain_key_def key_base_def)

lemma key_str_inject:
  assumes "plain_key a" "plain_key b" "key_str a = key_str b"
  shows "a = b"
proof -
  have nq: "CHR ''?'' \<notin> set (key_base a)" "CHR ''?'' \<notin> set (key_base b)"
    using assms(1,2) by (simp_all add: key_base_no_question)
  have "(rk_qualifiers a = []) = (rk_qualifiers b = [])"
    using assms(3) nq
    by (auto simp: key_str_base split: if_splits) (metis in_set_conv_decomp)+
  then have "key_base a = key_base b \<and> rk_qualifiers a = rk_qualifiers b"
    using assms(3) nq by (auto simp: key_str_base split_at_first urlencode_inject split: if_splits)
  with key_base_inject [OF assms(1,2)] show ?thesis by (simp add: resource_key.expand)
qed

subsection \<open>Properties\<close>

text \<open>
  keys are canonical. A key the constructor accepts has a namespace, a name and sorted
  qualifiers with distinct names; the order in which the qualifiers were given does not
  matter; and for the built-in normalizers normalizing the key again returns the same key.
\<close>

lemma resource_key_canonical:
  assumes "mk_resource_key nz ns nm sub qs = Inr k"
  shows "key_wf k
    \<and> (\<forall>qs'. mset qs' = mset qs \<longrightarrow> mk_resource_key nz ns nm sub qs' = Inr k)
    \<and> (nz \<in> {PRESERVE_KEY_NORMALIZER, LEGACY_KEY_NORMALIZER, CASE_INSENSITIVE_KEY_NORMALIZER}
         \<longrightarrow> normalized nz k = Inr k)"
  using assms mk_resource_key_wf mk_resource_key_mset [OF _ assms] builtin_normalizers_idempotent
    normalized_same [OF _ assms] by blast

definition fixture_quals :: "(string \<times> string) list" where
  "fixture_quals = [(''venue'', ''x''), (''depth'', ''5'')]"

lemma resource_key_canonical_witness:
  "\<exists>k. mk_resource_key PRESERVE_KEY_NORMALIZER ''market'' ''book'' '''' fixture_quals = Inr k
     \<and> mk_resource_key PRESERVE_KEY_NORMALIZER ''market'' ''book'' '''' (rev fixture_quals) = Inr k
     \<and> normalized PRESERVE_KEY_NORMALIZER k = Inr k"
proof -
  have "\<exists>k. mk_resource_key PRESERVE_KEY_NORMALIZER ''market'' ''book'' '''' fixture_quals = Inr k"
    by (simp add: mk_resource_key_Inr_iff PRESERVE_KEY_NORMALIZER_def fixture_quals_def strip_def is_space_def)
  then obtain k where k: "mk_resource_key PRESERVE_KEY_NORMALIZER ''market'' ''book'' '''' fixture_quals = Inr k" ..
  from resource_key_canonical [OF k] k show ?thesis by (intro exI [of _ k]) simp
qed

text \<open>
  Extending a key by qualifiers whose names are already normalized yields a key, in
  which a name has the value last given for it and every other name the value it had.
\<close>

lemma with_qualifiers_semantics:
  assumes "mk_resource_key PRESERVE_KEY_NORMALIZER ns nm sub qs0 = Inr k"
    and "canonical_names PRESERVE_KEY_NORMALIZER qs" and "canonical_names PRESERVE_KEY_NORMALIZER additional"
  shows "\<exists>k'. with_qualifiers PRESERVE_KEY_NORMALIZER k qs additional = Inr k' \<and> key_wf k'
    \<and> map_of (rk_qualifiers k') = map_option strip
        \<circ> (map_of (rk_qualifiers k) ++ map_of (rev qs) ++ map_of (rev additional))"
proof -
  from with_qualifiers_map [OF builtin_normalizers_idempotent(1) assms] obtain k' where
    k': "with_qualifiers PRESERVE_KEY_NORMALIZER k qs additional = Inr k'"
    "map_of (rk_qualifiers k') = map_option strip
        \<circ> (map_of (rk_qualifiers k) ++ map_of (rev qs) ++ map_of (rev additional))"
    by (auto simp: PRESERVE_KEY_NORMALIZER_def)
  moreover from k'(1) have "key_wf k'" by (auto simp: with_qualifiers_def Let_def dest: mk_resource_key_wf)
  ultimately show ?thesis by blast
qed

lemma with_qualifiers_semantics_witness:
  "\<exists>k k'. mk_resource_key PRESERVE_KEY_NORMALIZER ''market'' ''book'' '''' fixture_quals = Inr k
     \<and> with_qualifiers PRESERVE_KEY_NORMALIZER k [(''depth'', ''9'')] [] = Inr k'
     \<and> map_of (rk_qualifiers k') ''depth'' = Some ''9''"
proof -
  have "\<exists>k. mk_resource_key PRESERVE_KEY_NORMALIZER ''market'' ''book'' '''' fixture_quals = Inr k"
    by (simp add: mk_resource_key_Inr_iff PRESERVE_KEY_NORMALIZER_def fixture_quals_def strip_def is_space_def)
  then obtain k where k: "mk_resource_key PRESERVE_KEY_NORMALIZER ''market'' ''book'' '''' fixture_quals = Inr k" ..
  have "canonical_names PRESERVE_KEY_NORMALIZER [(''depth'', ''9'')]" "canonical_names PRESERVE_KEY_NORMALIZER []"
    by (simp_all add: canonical_names_def PRESERVE_KEY_NORMALIZER_def strip_def is_space_def)
  from with_qualifiers_semantics [OF k this] obtain k' where
    "with_qualifiers PRESERVE_KEY_NORMALIZER k [(''depth'', ''9'')] [] = Inr k'"
    "map_of (rk_qualifiers k') ''depth'' = Some (strip ''9'')" by auto
  with k show ?thesis by (intro exI [of _ k] exI [of _ k']) (simp add: strip_def is_space_def)
qed

text \<open>
  the text of a key identifies it, provided namespace and name contain neither a colon
  nor a question mark and the subject no question mark: two such keys with the same text
  are the same key, whatever characters their qualifiers contain.
\<close>

lemma key_text_identifies:
  assumes "plain_key a" and "plain_key b" and "key_str a = key_str b"
  shows "a = b"
  using assms by (rule key_str_inject)

lemma key_text_identifies_witness:
  "key_str (ResourceKey ''market'' ''book'' ''btc'' [(''a b'', ''&='')])
     = ''market:book:btc?a+b=%26%3D''
   \<and> key_str (ResourceKey ''market'' ''book'' ''btc'' [(''a b'', ''&='')])
       \<noteq> key_str (ResourceKey ''market'' ''book'' ''eth'' [(''a b'', ''&='')])"
proof
  show "key_str (ResourceKey ''market'' ''book'' ''btc'' [(''a b'', ''&='')]) = ''market:book:btc?a+b=%26%3D''"
    by code_simp
  show "key_str (ResourceKey ''market'' ''book'' ''btc'' [(''a b'', ''&='')])
       \<noteq> key_str (ResourceKey ''market'' ''book'' ''eth'' [(''a b'', ''&='')])"
    using key_text_identifies [of "ResourceKey ''market'' ''book'' ''btc'' [(''a b'', ''&='')]"
        "ResourceKey ''market'' ''book'' ''eth'' [(''a b'', ''&='')]"]
    by (auto simp: plain_key_def)
qed

text \<open>
  Without that proviso the text of a key is ambiguous: two different keys that the
  constructor accepts have the same text. Identities that are derived from the text are
  therefore shared by these keys.
\<close>

lemma key_text_ambiguous:
  "\<exists>a b. mk_resource_key PRESERVE_KEY_NORMALIZER ''a'' ''b:c'' '''' [] = Inr a
     \<and> mk_resource_key PRESERVE_KEY_NORMALIZER ''a'' ''b'' ''c'' [] = Inr b
     \<and> a \<noteq> b \<and> key_str a = key_str b"
proof -
  have "mk_resource_key PRESERVE_KEY_NORMALIZER ''a'' ''b:c'' '''' [] = Inr (ResourceKey ''a'' ''b:c'' '''' [])"
    "mk_resource_key PRESERVE_KEY_NORMALIZER ''a'' ''b'' ''c'' [] = Inr (ResourceKey ''a'' ''b'' ''c'' [])"
    by (simp_all add: mk_resource_key_Inr_iff PRESERVE_KEY_NORMALIZER_def strip_def is_space_def)
  moreover have "key_str (ResourceKey ''a'' ''b:c'' '''' []) = key_str (ResourceKey ''a'' ''b'' ''c'' [])"
    by (simp add: key_str_def)
  ultimately show ?thesis by (intro exI [of _ "ResourceKey ''a'' ''b:c'' '''' []"] exI [of _ "ResourceKey ''a'' ''b'' ''c'' []"]) simp
qed

end
