(* ===== verification/Diagnostics.thy ===== *)
theory Diagnostics
  imports Keys
begin

section \<open>Acquisition diagnostics (core/diagnostics.py)\<close>

text \<open>
  The mutable collector of one session and the immutable report made of it. The report of a
  snapshot repeats the collector's counters; both records list the counters in the order of
  the source. Counts are natural numbers: the code only ever adds to them.
\<close>

record diagnostics_collector =
  dc_started_monotonic :: rat
  dc_requested_keys :: "resource_key list"
  dc_cache_hits :: nat
  dc_cache_misses :: nat
  dc_cache_batch_reads :: nat
  dc_cache_batch_writes :: nat
  dc_stale_values :: nat
  dc_coalesced_requests :: nat
  dc_source_calls :: nat
  dc_batch_calls :: nat
  dc_derived_calls :: nat
  dc_refresh_scheduled :: nat
  dc_refresh_completed :: nat
  dc_refresh_failed :: nat
  dc_support_cache_hits :: nat
  dc_support_cache_misses :: nat
  dc_retries :: nat
  dc_batch_chunks :: nat
  dc_future_timestamp_rejections :: nat
  dc_source_calls_by_source :: "(string, nat) odict"
  dc_source_latency_ms_by_source :: "(string, rat) odict"

definition new_collector :: "rat \<Rightarrow> diagnostics_collector" where
  "new_collector started = \<lparr>dc_started_monotonic = started, dc_requested_keys = [],
     dc_cache_hits = 0, dc_cache_misses = 0, dc_cache_batch_reads = 0, dc_cache_batch_writes = 0,
     dc_stale_values = 0, dc_coalesced_requests = 0, dc_source_calls = 0, dc_batch_calls = 0,
     dc_derived_calls = 0, dc_refresh_scheduled = 0, dc_refresh_completed = 0,
     dc_refresh_failed = 0, dc_support_cache_hits = 0, dc_support_cache_misses = 0,
     dc_retries = 0, dc_batch_chunks = 0, dc_future_timestamp_rejections = 0,
     dc_source_calls_by_source = [], dc_source_latency_ms_by_source = []\<rparr>"

record snapshot_diagnostics =
  sd_duration_ms :: rat
  sd_requested_resources :: nat
  sd_resolved_resources :: nat
  sd_failed_resources :: nat
  sd_counters :: diagnostics_collector
  sd_observation_skew_ms :: rat

text \<open>\<open>sd_counters\<close> holds the counters the report copies from the collector.\<close>

definition record_requested :: "resource_key list \<Rightarrow> diagnostics_collector \<Rightarrow> diagnostics_collector" where
  "record_requested ks d = d\<lparr>dc_requested_keys := fromkeys (dc_requested_keys d @ ks)\<rparr>"

datatype source_kind = SingleKind | BatchKind | DerivedKind

definition record_source_call ::
  "string \<Rightarrow> source_kind \<Rightarrow> diagnostics_collector \<Rightarrow> diagnostics_collector" where
  "record_source_call src kind d =
     (let n = (case map_of (dc_source_calls_by_source d) src of None \<Rightarrow> 0 | Some c \<Rightarrow> c);
          d = d\<lparr>dc_source_calls := dc_source_calls d + 1,
                dc_source_calls_by_source := od_set src (n + 1) (dc_source_calls_by_source d)\<rparr>
      in case kind of
           BatchKind \<Rightarrow> d\<lparr>dc_batch_calls := dc_batch_calls d + 1\<rparr>
         | DerivedKind \<Rightarrow> d\<lparr>dc_derived_calls := dc_derived_calls d + 1\<rparr>
         | SingleKind \<Rightarrow> d)"

definition record_source_latency ::
  "string \<Rightarrow> rat \<Rightarrow> diagnostics_collector \<Rightarrow> diagnostics_collector" where
  "record_source_latency src ms d =
     (let t = (case map_of (dc_source_latency_ms_by_source d) src of None \<Rightarrow> 0 | Some c \<Rightarrow> c)
      in d\<lparr>dc_source_latency_ms_by_source :=
             od_set src (t + max 0 ms) (dc_source_latency_ms_by_source d)\<rparr>)"

definition collector_snapshot ::
  "diagnostics_collector \<Rightarrow> rat \<Rightarrow> nat \<Rightarrow> nat \<Rightarrow> rat list \<Rightarrow> snapshot_diagnostics" where
  "collector_snapshot d now_monotonic resolved failed observed =
     \<lparr>sd_duration_ms = max 0 ((now_monotonic - dc_started_monotonic d) * 1000),
      sd_requested_resources = length (dc_requested_keys d),
      sd_resolved_resources = resolved,
      sd_failed_resources = failed,
      sd_counters = d,
      sd_observation_skew_ms =
        (if length observed > 1
         then max 0 ((Max (set observed) - Min (set observed)) * 1000) else 0)\<rparr>"

subsection \<open>Lemmas\<close>

text \<open>The per-source counters always add up to the total number of source calls.\<close>

definition calls_consistent :: "diagnostics_collector \<Rightarrow> bool" where
  "calls_consistent d \<longleftrightarrow> od_ok (dc_source_calls_by_source d)
     \<and> sum_list (map snd (dc_source_calls_by_source d)) = dc_source_calls d
     \<and> dc_batch_calls d + dc_derived_calls d \<le> dc_source_calls d"

lemma sum_list_od_set:
  "od_ok d \<Longrightarrow> sum_list (map snd (od_set k v d)) + (case map_of d k of None \<Rightarrow> 0 | Some c \<Rightarrow> c)
     = sum_list (map snd d) + (v :: nat)"
proof (induction d)
  case (Cons p d)
  show ?case
  proof (cases "fst p = k")
    case True
    then show ?thesis by (cases p) simp
  next
    case False
    with Cons show ?thesis by (cases p) auto
  qed
qed simp

lemma calls_consistent_new: "calls_consistent (new_collector t)"
  by (simp add: calls_consistent_def new_collector_def)

lemma calls_consistent_record:
  assumes "calls_consistent d"
  shows "calls_consistent (record_source_call src kind d)"
proof -
  let ?c = "case map_of (dc_source_calls_by_source d) src of None \<Rightarrow> 0 | Some c \<Rightarrow> c"
  have "sum_list (map snd (od_set src (?c + 1) (dc_source_calls_by_source d))) + ?c
      = dc_source_calls d + (?c + 1)"
    using assms sum_list_od_set [of "dc_source_calls_by_source d" src "?c + 1"]
    by (simp add: calls_consistent_def)
  then have "sum_list (map snd (od_set src (?c + 1) (dc_source_calls_by_source d)))
      = dc_source_calls d + 1" by linarith
  with assms show ?thesis
    by (cases kind) (simp_all add: calls_consistent_def record_source_call_def Let_def)
qed

lemma distinct_record_requested:
  "distinct (dc_requested_keys (record_requested ks d))"
  by (simp add: record_requested_def)

lemma collector_snapshot_skew_nonneg: "0 \<le> sd_observation_skew_ms (collector_snapshot d n r f obs)"
  by (simp add: collector_snapshot_def)

end
