(* ===== verification/Models.thy ===== *)
theory Models
  imports Diagnostics
begin

section \<open>Data model (core/models.py, core/quality.py)\<close>

text \<open>
  Policies, payloads, snapshot values, lookups and snapshots, with the checks their
  constructors make. A constructor takes its arguments as the caller gives them and returns
  the normalized record or what it raises. Timestamps that passed
  \<open>require_finite_timestamp\<close> are rationals; \<open>ttl_seconds\<close> and \<open>max_stale_seconds\<close> may be
  infinite and stay floats. Metadata is an insertion-ordered dictionary from strings to
  dynamic values.
\<close>

type_synonym metadata = "(string, pyval) odict"

subsection \<open>Timestamps\<close>

definition require_finite_timestamp :: "string \<Rightarrow> pynum \<Rightarrow> arg_error + rat" where
  "require_finite_timestamp nm v =
     (case to_double v of
        Inl _ \<Rightarrow> Inl (ValueError (nm @ '' must be a finite number''))
      | Inr f \<Rightarrow> (case f of Fin t \<Rightarrow> Inr t | _ \<Rightarrow> Inl (ValueError (nm @ '' must be finite''))))"

record observation_policy =
  op_future_tolerance_seconds :: rat
  op_reject_future_observations :: bool

definition mk_observation_policy :: "pynum \<Rightarrow> bool \<Rightarrow> arg_error + observation_policy" where
  "mk_observation_policy tolerance reject =
     res_bind (require_finite_timestamp ''future_tolerance_seconds'' tolerance) (\<lambda>t.
       if t < 0 then Inl (ValueError ''future_tolerance_seconds cannot be negative'')
       else Inr \<lparr>op_future_tolerance_seconds = t, op_reject_future_observations = reject\<rparr>)"

subsection \<open>Freshness\<close>

datatype refresh_mode = BLOCKING | STALE_WHILE_REVALIDATE | REFRESH_AHEAD

record freshness_policy =
  fp_ttl_seconds :: pyfloat
  fp_max_stale_seconds :: pyfloat
  fp_allow_stale_on_error :: bool
  fp_refresh_mode :: refresh_mode
  fp_refresh_ahead_seconds :: pyfloat

text \<open>
  \<open>number_arg\<close> is the check \<^verbatim>\<open>isinstance(value, (int, float)) and not bool\<close> followed
  by the conversion to a double that \<^verbatim>\<open>isnan\<close> and \<^verbatim>\<open>isfinite\<close> make.
\<close>

definition number_arg :: "string \<Rightarrow> pyval \<Rightarrow> arg_error + pyfloat" where
  "number_arg nm v =
     res_bind (require (as_number v) (TypeError (nm @ '' must be a number''))) to_double"

definition non_nan_arg :: "string \<Rightarrow> pyval \<Rightarrow> arg_error + pyfloat" where
  "non_nan_arg nm v =
     res_bind (number_arg nm v) (\<lambda>f.
       if isnan f then Inl (ValueError (nm @ '' cannot be NaN'')) else Inr f)"

definition mk_freshness_policy ::
  "pyval \<Rightarrow> pyval \<Rightarrow> bool \<Rightarrow> refresh_mode \<Rightarrow> pyval \<Rightarrow> arg_error + freshness_policy" where
  "mk_freshness_policy ttl_seconds max_stale_seconds allow mode refresh_ahead_seconds =
     res_bind (non_nan_arg ''ttl_seconds'' ttl_seconds) (\<lambda>ttl.
     res_bind (non_nan_arg ''max_stale_seconds'' max_stale_seconds) (\<lambda>stale.
     res_bind (number_arg ''refresh_ahead_seconds'' refresh_ahead_seconds) (\<lambda>ahead.
       if \<not> isfinite ahead then Inl (ValueError ''refresh_ahead_seconds must be finite'')
       else if flt ttl (Fin 0) then Inl (ValueError ''ttl_seconds cannot be negative'')
       else if flt stale ttl
         then Inl (ValueError ''max_stale_seconds must be greater than or equal to ttl_seconds'')
       else if flt ahead (Fin 0) then Inl (ValueError ''refresh_ahead_seconds cannot be negative'')
       else if mode = REFRESH_AHEAD \<and> isfinite ttl \<and> flt ttl ahead
         then Inl (ValueError ''refresh_ahead_seconds cannot exceed ttl_seconds'')
       else if mode \<noteq> REFRESH_AHEAD \<and> ahead \<noteq> Fin 0
         then Inl (ValueError ''refresh_ahead_seconds is only valid with RefreshMode.REFRESH_AHEAD'')
       else Inr \<lparr>fp_ttl_seconds = ttl, fp_max_stale_seconds = stale,
                 fp_allow_stale_on_error = allow, fp_refresh_mode = mode,
                 fp_refresh_ahead_seconds = ahead\<rparr>)))"

definition should_refresh_ahead :: "freshness_policy \<Rightarrow> rat \<Rightarrow> bool" where
  "should_refresh_ahead p age =
     (if fp_refresh_mode p \<noteq> REFRESH_AHEAD then False
      else case fp_ttl_seconds p of
        Fin ttl \<Rightarrow> (case fp_refresh_ahead_seconds p of
                     Fin ahead \<Rightarrow> max 0 (ttl - ahead) \<le> age
                   | _ \<Rightarrow> False)
      | _ \<Rightarrow> False)"

text \<open>The policy of internal reads that accept every cached value.\<close>

definition all_values_policy :: freshness_policy where
  "all_values_policy = \<lparr>fp_ttl_seconds = PInf, fp_max_stale_seconds = PInf,
     fp_allow_stale_on_error = True, fp_refresh_mode = BLOCKING,
     fp_refresh_ahead_seconds = Fin 0\<rparr>"

definition freshness_wf :: "freshness_policy \<Rightarrow> bool" where
  "freshness_wf p \<longleftrightarrow> fle (Fin 0) (fp_ttl_seconds p)
     \<and> fle (fp_ttl_seconds p) (fp_max_stale_seconds p)
     \<and> isfinite (fp_refresh_ahead_seconds p) \<and> fle (Fin 0) (fp_refresh_ahead_seconds p)
     \<and> (if fp_refresh_mode p = REFRESH_AHEAD
        then fle (fp_refresh_ahead_seconds p) (fp_ttl_seconds p)
        else fp_refresh_ahead_seconds p = Fin 0)"

subsection \<open>Contexts and payloads\<close>

record fetch_context =
  fc_requested_at :: rat
  fc_deadline_at :: "rat option"
  fc_deadline_monotonic :: "rat option"
  fc_metadata :: metadata
  fc_snapshot_id :: string

definition optional_timestamp :: "string \<Rightarrow> pynum option \<Rightarrow> arg_error + rat option" where
  "optional_timestamp nm v =
     (case v of None \<Rightarrow> Inr None
      | Some x \<Rightarrow> res_bind (require_finite_timestamp nm x) (\<lambda>t. Inr (Some t)))"

definition mk_fetch_context ::
  "pynum \<Rightarrow> pynum option \<Rightarrow> pynum option \<Rightarrow> metadata \<Rightarrow> string \<Rightarrow> arg_error + fetch_context" where
  "mk_fetch_context requested deadline_at deadline_monotonic md sid =
     res_bind (require_finite_timestamp ''requested_at'' requested) (\<lambda>r.
     res_bind (optional_timestamp ''deadline_at'' deadline_at) (\<lambda>da.
     res_bind (optional_timestamp ''deadline_monotonic'' deadline_monotonic) (\<lambda>dm.
       Inr \<lparr>fc_requested_at = r, fc_deadline_at = da, fc_deadline_monotonic = dm,
            fc_metadata = od_of md, fc_snapshot_id = sid\<rparr>)))"

record source_payload =
  sp_value :: pyval
  sp_observed_at :: "rat option"
  sp_metadata :: metadata

definition mk_source_payload :: "pyval \<Rightarrow> pynum option \<Rightarrow> metadata \<Rightarrow> arg_error + source_payload" where
  "mk_source_payload v observed md =
     res_bind (optional_timestamp ''observed_at'' observed) (\<lambda>t.
       Inr \<lparr>sp_value = v, sp_observed_at = t, sp_metadata = od_of md\<rparr>)"

subsection \<open>Snapshot values\<close>

record snapshot_value =
  sv_key :: resource_key
  sv_value :: pyval
  sv_source :: string
  sv_observed_at :: rat
  sv_fetched_at :: rat
  sv_age_seconds :: rat
  sv_stale :: bool
  sv_from_cache :: bool
  sv_latency_ms :: rat
  sv_attempts :: nat
  sv_metadata :: metadata
  sv_authority_rank :: int
  sv_version :: string
  sv_dependency_versions :: "(resource_key, string) odict"

fun normalize_dependencies ::
  "(resource_key, string) odict \<Rightarrow> (resource_key \<times> string) list \<Rightarrow> arg_error + (resource_key, string) odict" where
  "normalize_dependencies acc [] = Inr acc"
| "normalize_dependencies acc (d # rest) =
     (let ver = strip (snd d)
      in if ver = '''' then Inl (ValueError (''dependency version for '' @ key_str (fst d) @ '' cannot be empty''))
         else normalize_dependencies (od_set (fst d) ver acc) rest)"

text \<open>
  \<open>mk_snapshot_value observed fetched v\<close>: the constructor applied to the raw timestamps
  \<open>observed\<close> and \<open>fetched\<close> and to the other arguments, which \<open>v\<close> holds.
\<close>

definition mk_snapshot_value :: "pynum \<Rightarrow> pynum \<Rightarrow> snapshot_value \<Rightarrow> arg_error + snapshot_value" where
  "mk_snapshot_value observed fetched v =
     res_bind (require_finite_timestamp ''observed_at'' observed) (\<lambda>o_at.
     res_bind (require_finite_timestamp ''fetched_at'' fetched) (\<lambda>f_at.
       let ver = strip (sv_version v)
       in if ver = '''' then Inl (ValueError ''version cannot be empty'')
          else res_bind (normalize_dependencies [] (sv_dependency_versions v)) (\<lambda>deps.
            Inr (v\<lparr>sv_observed_at := o_at, sv_fetched_at := f_at, sv_version := ver,
                   sv_metadata := od_of (sv_metadata v), sv_dependency_versions := deps\<rparr>))))"

definition sv_wf :: "snapshot_value \<Rightarrow> bool" where
  "sv_wf v \<longleftrightarrow> sv_version v \<noteq> '''' \<and> strip (sv_version v) = sv_version v
     \<and> od_ok (sv_metadata v) \<and> od_ok (sv_dependency_versions v)
     \<and> (\<forall>d \<in> set (sv_dependency_versions v). snd d \<noteq> '''' \<and> strip (snd d) = snd d)"

subsection \<open>Cache results\<close>

datatype cache_write_status = STORED | IGNORED_LOWER_AUTHORITY | IGNORED_OLDER | IGNORED_DUPLICATE

record cache_write_result =
  cw_status :: cache_write_status
  cw_value :: snapshot_value
  cw_previous :: "snapshot_value option"

definition mk_cache_write_result ::
  "cache_write_status \<Rightarrow> snapshot_value \<Rightarrow> snapshot_value option \<Rightarrow> arg_error + cache_write_result" where
  "mk_cache_write_result st v prev =
     (if st \<noteq> STORED \<and> prev = None
      then Inl (ValueError ''ignored cache writes must include the previous value'')
      else Inr \<lparr>cw_status = st, cw_value = v, cw_previous = prev\<rparr>)"

definition cw_stored :: "cache_write_result \<Rightarrow> bool" where
  "cw_stored r = (cw_status r = STORED)"

record cache_lookup =
  cl_value :: "snapshot_value option"
  cl_fresh :: bool
  cl_usable_stale :: bool
  cl_age_seconds :: "rat option"

subsection \<open>Snapshots\<close>

text \<open>\<open>'e\<close> is the type of the exceptions a snapshot carries.\<close>

record 'e snapshot =
  sn_snapshot_id :: string
  sn_created_at :: rat
  sn_resources :: "(resource_key, snapshot_value) odict"
  sn_errors :: "(resource_key, 'e) odict"
  sn_diagnostics :: snapshot_diagnostics

datatype lookup_error = LookupKeyError resource_key | LookupTypeError string

text \<open>A type given at run time: its name and its \<^verbatim>\<open>isinstance\<close> test.\<close>

type_synonym pytype = "string \<times> (pyval \<Rightarrow> bool)"

definition type_mismatch :: "resource_key \<Rightarrow> pyval \<Rightarrow> pytype \<Rightarrow> lookup_error" where
  "type_mismatch k v t = LookupTypeError (''Resource '' @ key_str k @ '' contains '' @ type_name v
     @ '', expected '' @ fst t)"

definition snapshot_getitem :: "'e snapshot \<Rightarrow> resource_key \<Rightarrow> lookup_error + snapshot_value" where
  "snapshot_getitem s k = require (map_of (sn_resources s) k) (LookupKeyError k)"

definition snapshot_typed_value ::
  "'e snapshot \<Rightarrow> resource_key \<Rightarrow> pytype option \<Rightarrow> lookup_error + pyval" where
  "snapshot_typed_value s k expected =
     res_bind (snapshot_getitem s k) (\<lambda>item.
       case expected of
         Some t \<Rightarrow> if snd t (sv_value item) then Inr (sv_value item)
                   else Inl (type_mismatch k (sv_value item) t)
       | None \<Rightarrow> Inr (sv_value item))"

definition snapshot_maybe_value ::
  "'e snapshot \<Rightarrow> resource_key \<Rightarrow> pytype option \<Rightarrow> lookup_error + pyval option" where
  "snapshot_maybe_value s k expected =
     (case map_of (sn_resources s) k of
        None \<Rightarrow> Inr None
      | Some item \<Rightarrow>
          (case expected of
             Some t \<Rightarrow> if snd t (sv_value item) then Inr (Some (sv_value item))
                       else Inl (type_mismatch k (sv_value item) t)
           | None \<Rightarrow> Inr (Some (sv_value item))))"

definition snapshot_error_for :: "'e snapshot \<Rightarrow> resource_key \<Rightarrow> 'e option" where
  "snapshot_error_for s k = map_of (sn_errors s) k"

definition snapshot_stale_keys :: "'e snapshot \<Rightarrow> resource_key list" where
  "snapshot_stale_keys s = map fst (filter (\<lambda>p. sv_stale (snd p)) (sn_resources s))"

definition snapshot_complete :: "'e snapshot \<Rightarrow> bool" where
  "snapshot_complete s = (sn_errors s = [])"

subsection \<open>Lemmas\<close>

lemma number_arg_not_bool: "number_arg nm (PyBool b) = Inl (TypeError (nm @ '' must be a number''))"
  by (simp add: number_arg_def)

lemma non_nan_arg_Inr: "non_nan_arg nm v = Inr f \<Longrightarrow> f \<noteq> NaN"
  by (auto simp: non_nan_arg_def res_iff isnan_def split: if_splits)

lemma mk_freshness_policy_wf:
  assumes "mk_freshness_policy t s allow mode ahead = Inr p"
  shows "freshness_wf p"
proof -
  from assms obtain ttl stale ah where
    t: "non_nan_arg ''ttl_seconds'' t = Inr ttl" and s: "non_nan_arg ''max_stale_seconds'' s = Inr stale"
    and p: "p = \<lparr>fp_ttl_seconds = ttl, fp_max_stale_seconds = stale, fp_allow_stale_on_error = allow,
                 fp_refresh_mode = mode, fp_refresh_ahead_seconds = ah\<rparr>"
    and ah: "isfinite ah" "\<not> flt ttl (Fin 0)" "\<not> flt stale ttl" "\<not> flt ah (Fin 0)"
      "mode = REFRESH_AHEAD \<longrightarrow> \<not> (isfinite ttl \<and> flt ttl ah)"
      "mode \<noteq> REFRESH_AHEAD \<longrightarrow> ah = Fin 0"
    by (auto simp: mk_freshness_policy_def res_iff split: if_splits)
  have "ttl \<noteq> NaN" "stale \<noteq> NaN" using t s by (auto dest: non_nan_arg_Inr)
  with ah show ?thesis
    unfolding freshness_wf_def p
    by (cases ttl; cases stale; cases ah) (auto simp: not_less)
qed

lemma all_values_policy_wf: "freshness_wf all_values_policy"
  by (simp add: freshness_wf_def all_values_policy_def)

lemma normalize_dependencies_wf:
  "normalize_dependencies acc ds = Inr r \<Longrightarrow> od_ok acc
    \<Longrightarrow> \<forall>d \<in> set acc. snd d \<noteq> '''' \<and> strip (snd d) = snd d
    \<Longrightarrow> od_ok r \<and> (\<forall>d \<in> set r. snd d \<noteq> '''' \<and> strip (snd d) = snd d)"
proof (induction ds arbitrary: acc)
  case (Cons d ds)
  from Cons.prems(1) have ver: "strip (snd d) \<noteq> ''''"
    and rest: "normalize_dependencies (od_set (fst d) (strip (snd d)) acc) ds = Inr r"
    by (auto simp: Let_def split: if_splits)
  have "\<forall>x \<in> set (od_set (fst d) (strip (snd d)) acc). snd x \<noteq> '''' \<and> strip (snd x) = snd x"
    using Cons.prems(3) ver set_od_set_subset [of "fst d" "strip (snd d)" acc] by auto
  with Cons.IH [OF rest] Cons.prems(2) show ?case by simp
qed simp

lemma mk_snapshot_value_wf: "mk_snapshot_value ob f v = Inr w \<Longrightarrow> sv_wf w"
  by (auto simp: mk_snapshot_value_def res_iff Let_def sv_wf_def
      dest!: normalize_dependencies_wf split: if_splits)

subsection \<open>Concrete values for witnesses\<close>

definition fixture_key :: "string \<Rightarrow> resource_key" where
  "fixture_key nm = ResourceKey ''market'' nm '''' []"

definition fixture_value :: "string \<Rightarrow> rat \<Rightarrow> int \<Rightarrow> snapshot_value" where
  "fixture_value nm observed rank = \<lparr>sv_key = fixture_key nm, sv_value = PyInt 7,
     sv_source = ''feed'', sv_observed_at = observed, sv_fetched_at = observed,
     sv_age_seconds = 0, sv_stale = False, sv_from_cache = False, sv_latency_ms = 0,
     sv_attempts = 1, sv_metadata = [], sv_authority_rank = rank, sv_version = ''v1'',
     sv_dependency_versions = []\<rparr>"

lemma fixture_key_inject [simp]: "fixture_key a = fixture_key b \<longleftrightarrow> a = b"
  by (simp add: fixture_key_def)

lemma fixture_value_simps [simp]:
  "sv_key (fixture_value nm t r) = fixture_key nm" "sv_observed_at (fixture_value nm t r) = t"
  "sv_authority_rank (fixture_value nm t r) = r" "sv_dependency_versions (fixture_value nm t r) = []"
  "sv_version (fixture_value nm t r) = ''v1''" "sv_stale (fixture_value nm t r) = False"
  "sv_age_seconds (fixture_value nm t r) = 0" "sv_value (fixture_value nm t r) = PyInt 7"
  "sv_source (fixture_value nm t r) = ''feed''"
  by (simp_all add: fixture_value_def)

end
