(* ===== verification/Acceptance.thy ===== *)
theory Acceptance
  imports Models
begin

section \<open>Acceptance policies (core/acceptance.py)\<close>

text \<open>
  Rules on the age, staleness and authority of resolved resources, requirements on how many
  members of a group must be acceptable, and the evaluation of a snapshot candidate.
\<close>

datatype acceptance_reason = STALE | TOO_OLD | INSUFFICIENT_AUTHORITY | REQUIREMENT_UNSATISFIED

subsection \<open>Rules\<close>

record acceptance_rule =
  ar_max_age_seconds :: "rat option"
  ar_allow_stale :: bool
  ar_minimum_authority_rank :: "int option"

definition max_age_arg :: "pyval \<Rightarrow> arg_error + rat option" where
  "max_age_arg v =
     (if v = PyNone then Inr None
      else res_bind (require (as_number v) (TypeError ''max_age_seconds must be a number or None'')) (\<lambda>n.
           res_bind (to_double n) (\<lambda>f.
             case f of
               Fin t \<Rightarrow> if t < 0 then Inl (ValueError ''max_age_seconds cannot be negative'')
                        else Inr (Some t)
             | _ \<Rightarrow> Inl (ValueError ''max_age_seconds must be finite''))))"

definition mk_acceptance_rule :: "pyval \<Rightarrow> pyval \<Rightarrow> pyval \<Rightarrow> arg_error + acceptance_rule" where
  "mk_acceptance_rule max_age allow_stale rank =
     res_bind (max_age_arg max_age) (\<lambda>age.
     res_bind (require (as_bool allow_stale) (TypeError ''allow_stale must be a boolean'')) (\<lambda>allow.
     res_bind (if rank = PyNone then Inr None
               else res_bind (require (as_int rank)
                      (TypeError ''minimum_authority_rank must be an integer or None'')) (\<lambda>i. Inr (Some i))) (\<lambda>r.
       Inr \<lparr>ar_max_age_seconds = age, ar_allow_stale = allow, ar_minimum_authority_rank = r\<rparr>)))"

definition has_constraints :: "acceptance_rule \<Rightarrow> bool" where
  "has_constraints r \<longleftrightarrow>
     ar_max_age_seconds r \<noteq> None \<or> \<not> ar_allow_stale r \<or> ar_minimum_authority_rank r \<noteq> None"

subsection \<open>Requirements\<close>

record requirement =
  rq_keys :: "resource_key list"
  rq_minimum_count :: int
  rq_name :: string

definition mk_requirement :: "resource_key list \<Rightarrow> pyval \<Rightarrow> string \<Rightarrow> arg_error + requirement" where
  "mk_requirement ks minimum_count nm =
     (let keys = fromkeys ks
      in if keys = [] then Inl (ValueError ''snapshot requirement must contain at least one resource key'')
         else res_bind (require (as_int minimum_count) (TypeError ''minimum_count must be an integer'')) (\<lambda>c.
           if c < 1 \<or> int (length keys) < c
           then Inl (ValueError ''minimum_count must be between 1 and the number of keys'')
           else Inr \<lparr>rq_keys = keys, rq_minimum_count = c, rq_name = strip nm\<rparr>))"

definition requirement_all_of :: "resource_key list \<Rightarrow> string \<Rightarrow> arg_error + requirement" where
  "requirement_all_of ks nm =
     (let keys = fromkeys ks in mk_requirement keys (PyInt (int (length keys))) nm)"

definition requirement_any_of :: "resource_key list \<Rightarrow> string \<Rightarrow> arg_error + requirement" where
  "requirement_any_of ks nm = mk_requirement ks (PyInt 1) nm"

definition requirement_at_least :: "pyval \<Rightarrow> resource_key list \<Rightarrow> string \<Rightarrow> arg_error + requirement" where
  "requirement_at_least c ks nm = mk_requirement ks c nm"

subsection \<open>Policies\<close>

record acceptance_policy =
  ap_default_rule :: acceptance_rule
  ap_resource_rules :: "(resource_key, acceptance_rule) odict"
  ap_requirements :: "requirement list"
  ap_include_optional_resources :: bool

definition mk_acceptance_policy ::
  "acceptance_rule \<Rightarrow> (resource_key, acceptance_rule) odict \<Rightarrow> requirement list \<Rightarrow> pyval
    \<Rightarrow> arg_error + acceptance_policy" where
  "mk_acceptance_policy dflt rules requirements include_optional =
     res_bind (require (as_bool include_optional)
                (TypeError ''include_optional_resources must be a boolean'')) (\<lambda>b.
       let normalized = od_of rules
       in if \<not> (has_constraints dflt \<or> list_ex (\<lambda>p. has_constraints (snd p)) normalized
                \<or> requirements \<noteq> [])
          then Inl (ValueError ''snapshot acceptance policy must declare at least one constraint'')
          else Inr \<lparr>ap_default_rule = dflt, ap_resource_rules = normalized,
                    ap_requirements = requirements, ap_include_optional_resources = b\<rparr>)"

definition referenced_keys :: "acceptance_policy \<Rightarrow> resource_key list" where
  "referenced_keys p = fromkeys (od_keys (ap_resource_rules p) @ concat (map rq_keys (ap_requirements p)))"

definition rule_for :: "acceptance_policy \<Rightarrow> resource_key \<Rightarrow> acceptance_rule" where
  "rule_for p k = (case map_of (ap_resource_rules p) k of Some r \<Rightarrow> r | None \<Rightarrow> ap_default_rule p)"

subsection \<open>Evaluation\<close>

record acceptance_violation =
  av_reason :: acceptance_reason
  av_keys :: "resource_key list"
  av_message :: string
  av_key :: "resource_key option"
  av_requirement_name :: string
  av_current_age_seconds :: "rat option"
  av_max_age_seconds :: "rat option"
  av_stale :: "bool option"
  av_authority_rank :: "int option"
  av_minimum_authority_rank :: "int option"
  av_accepted_count :: "int option"
  av_required_count :: "int option"

definition blank_violation :: "acceptance_reason \<Rightarrow> resource_key list \<Rightarrow> string \<Rightarrow> acceptance_violation" where
  "blank_violation r ks msg = \<lparr>av_reason = r, av_keys = ks, av_message = msg, av_key = None,
     av_requirement_name = '''', av_current_age_seconds = None, av_max_age_seconds = None,
     av_stale = None, av_authority_rank = None, av_minimum_authority_rank = None,
     av_accepted_count = None, av_required_count = None\<rparr>"

definition current_age :: "rat \<Rightarrow> snapshot_value \<Rightarrow> rat" where
  "current_age now v = max 0 (max (sv_age_seconds v) (now - sv_observed_at v))"

definition dynamically_stale :: "rat \<Rightarrow> freshness_policy \<Rightarrow> snapshot_value \<Rightarrow> bool" where
  "dynamically_stale now fp v \<longleftrightarrow> sv_stale v \<or> flt (fp_ttl_seconds fp) (Fin (current_age now v))"

definition key_violations ::
  "acceptance_rule \<Rightarrow> rat \<Rightarrow> freshness_policy \<Rightarrow> resource_key \<Rightarrow> snapshot_value
    \<Rightarrow> acceptance_violation list" where
  "key_violations rule now fp k v =
     (let age = current_age now v; stale = dynamically_stale now fp v
      in (if \<not> ar_allow_stale rule \<and> stale
          then [(blank_violation STALE [k]
                  (''resource '' @ key_str k @ '' is stale and the policy does not allow stale values''))
                  \<lparr>av_key := Some k, av_current_age_seconds := Some age, av_stale := Some True\<rparr>]
          else [])
       @ (case ar_max_age_seconds rule of
            Some m \<Rightarrow>
              if m < age
              then [(blank_violation TOO_OLD [k]
                      (''resource '' @ key_str k @ '' age '' @ fmt_fixed 6 age
                        @ ''s exceeds the allowed '' @ fmt_fixed 6 m @ ''s''))
                      \<lparr>av_key := Some k, av_current_age_seconds := Some age,
                       av_max_age_seconds := Some m, av_stale := Some stale\<rparr>]
              else []
          | None \<Rightarrow> [])
       @ (case ar_minimum_authority_rank rule of
            Some r \<Rightarrow>
              if sv_authority_rank v < r
              then [(blank_violation INSUFFICIENT_AUTHORITY [k]
                      (''resource '' @ key_str k @ '' authority rank '' @ int_str (sv_authority_rank v)
                        @ '' is below the required '' @ int_str r))
                      \<lparr>av_key := Some k, av_authority_rank := Some (sv_authority_rank v),
                       av_minimum_authority_rank := Some r\<rparr>]
              else []
          | None \<Rightarrow> []))"

text \<open>The state of the loop over the participating keys.\<close>

record acceptance_scan =
  sc_violations :: "acceptance_violation list"
  sc_resource_violations :: "(resource_key, acceptance_violation list) odict"
  sc_acceptable :: "(resource_key, bool) odict"

definition scan_key ::
  "acceptance_policy \<Rightarrow> rat \<Rightarrow> (resource_key \<Rightarrow> freshness_policy)
    \<Rightarrow> (resource_key, snapshot_value) odict \<Rightarrow> resource_key list
    \<Rightarrow> acceptance_scan \<Rightarrow> resource_key \<Rightarrow> acceptance_scan" where
  "scan_key policy now freshness resources enforced s k =
     (case map_of resources k of
        None \<Rightarrow> s\<lparr>sc_acceptable := od_set k False (sc_acceptable s)\<rparr>
      | Some v \<Rightarrow>
          (let vs = key_violations (rule_for policy k) now (freshness k) k v;
               s = s\<lparr>sc_resource_violations := od_set k vs (sc_resource_violations s),
                     sc_acceptable := od_set k (vs = []) (sc_acceptable s)\<rparr>
           in if k \<in> set enforced then s\<lparr>sc_violations := sc_violations s @ vs\<rparr> else s))"

definition accepted_count :: "(resource_key, bool) odict \<Rightarrow> requirement \<Rightarrow> int" where
  "accepted_count acceptable rq =
     int (length (filter (\<lambda>k. map_of acceptable k = Some True) (rq_keys rq)))"

definition requirement_violation :: "int \<Rightarrow> requirement \<Rightarrow> acceptance_violation" where
  "requirement_violation accepted rq =
     (let label = (if rq_name rq \<noteq> '''' then '' '' @ py_repr (rq_name rq) else '''')
      in (blank_violation REQUIREMENT_UNSATISFIED (rq_keys rq)
           (''snapshot requirement'' @ label @ '' accepted '' @ int_str accepted @ '' of ''
             @ nat_str (length (rq_keys rq)) @ '' resource(s), but requires at least ''
             @ int_str (rq_minimum_count rq)))
           \<lparr>av_requirement_name := rq_name rq, av_accepted_count := Some accepted,
            av_required_count := Some (rq_minimum_count rq)\<rparr>)"

definition scan_requirement ::
  "resource_key list \<Rightarrow> acceptance_scan \<Rightarrow> requirement \<Rightarrow> acceptance_scan" where
  "scan_requirement enforced s rq =
     (let accepted = accepted_count (sc_acceptable s) rq
      in if rq_minimum_count rq \<le> accepted then s
         else s\<lparr>sc_violations := sc_violations s
                  @ concat (map (\<lambda>k. if k \<in> set enforced then []
                                     else (case map_of (sc_resource_violations s) k of
                                             Some vs \<Rightarrow> vs | None \<Rightarrow> [])) (rq_keys rq))
                  @ [requirement_violation accepted rq]\<rparr>)"

definition directly_enforced ::
  "acceptance_policy \<Rightarrow> resource_key list \<Rightarrow> resource_key list \<Rightarrow> resource_key list" where
  "directly_enforced policy required optional =
     fromkeys required
     @ (if ap_include_optional_resources policy then fromkeys optional else [])
     @ od_keys (ap_resource_rules policy)"

definition participating_keys ::
  "acceptance_policy \<Rightarrow> resource_key list \<Rightarrow> resource_key list" where
  "participating_keys policy enforced =
     fromkeys (enforced @ concat (map rq_keys (ap_requirements policy)))"

definition find_snapshot_acceptance_violations ::
  "(resource_key, snapshot_value) odict \<Rightarrow> resource_key list \<Rightarrow> resource_key list
    \<Rightarrow> acceptance_policy \<Rightarrow> pynum \<Rightarrow> (resource_key \<Rightarrow> freshness_policy)
    \<Rightarrow> arg_error + acceptance_violation list" where
  "find_snapshot_acceptance_violations resources required optional policy now freshness =
     res_bind (to_double now) (\<lambda>f.
       case f of
         Fin evaluated_at \<Rightarrow>
           (let enforced = directly_enforced policy required optional;
                empty = \<lparr>sc_violations = [], sc_resource_violations = [], sc_acceptable = []\<rparr>;
                scanned = foldl (scan_key policy evaluated_at freshness resources enforced) empty
                            (participating_keys policy enforced);
                final = foldl (scan_requirement enforced) scanned (ap_requirements policy)
            in Inr (sc_violations final))
       | _ \<Rightarrow> Inl (ValueError ''snapshot acceptance evaluation time must be finite''))"

subsection \<open>The abstract specification\<close>

text \<open>
  A value satisfies a rule when it breaks none of its constraints; a resource is acceptable
  when it is present and its value satisfies the rule of its key.
\<close>

definition satisfies_rule :: "acceptance_rule \<Rightarrow> rat \<Rightarrow> freshness_policy \<Rightarrow> snapshot_value \<Rightarrow> bool" where
  "satisfies_rule rule now fp v \<longleftrightarrow>
     (ar_allow_stale rule \<or> \<not> dynamically_stale now fp v)
     \<and> (\<forall>m. ar_max_age_seconds rule = Some m \<longrightarrow> current_age now v \<le> m)
     \<and> (\<forall>r. ar_minimum_authority_rank rule = Some r \<longrightarrow> r \<le> sv_authority_rank v)"

definition resource_acceptable ::
  "acceptance_policy \<Rightarrow> rat \<Rightarrow> (resource_key \<Rightarrow> freshness_policy)
    \<Rightarrow> (resource_key, snapshot_value) odict \<Rightarrow> resource_key \<Rightarrow> bool" where
  "resource_acceptable policy now freshness resources k \<longleftrightarrow>
     (case map_of resources k of
        None \<Rightarrow> False
      | Some v \<Rightarrow> satisfies_rule (rule_for policy k) now (freshness k) v)"

definition snapshot_acceptable ::
  "(resource_key, snapshot_value) odict \<Rightarrow> resource_key list \<Rightarrow> resource_key list
    \<Rightarrow> acceptance_policy \<Rightarrow> rat \<Rightarrow> (resource_key \<Rightarrow> freshness_policy) \<Rightarrow> bool" where
  "snapshot_acceptable resources required optional policy now freshness \<longleftrightarrow>
     (\<forall>k \<in> set (directly_enforced policy required optional).
        map_of resources k = None \<or> resource_acceptable policy now freshness resources k)
     \<and> (\<forall>rq \<in> set (ap_requirements policy).
          rq_minimum_count rq
            \<le> int (length (filter (resource_acceptable policy now freshness resources) (rq_keys rq))))"

subsection \<open>Lemmas\<close>

lemma key_violations_empty_iff:
  "key_violations rule now fp k v = [] \<longleftrightarrow> satisfies_rule rule now fp v"
  by (auto simp: key_violations_def satisfies_rule_def Let_def not_less split: option.splits)

text \<open>What the loop over the keys has computed after a prefix \<open>done\<close> of them.\<close>

definition scan_inv ::
  "acceptance_policy \<Rightarrow> rat \<Rightarrow> (resource_key \<Rightarrow> freshness_policy)
    \<Rightarrow> (resource_key, snapshot_value) odict \<Rightarrow> resource_key list \<Rightarrow> resource_key list
    \<Rightarrow> acceptance_scan \<Rightarrow> bool" where
  "scan_inv policy now freshness resources enforced finished s \<longleftrightarrow>
     (\<forall>k. map_of (sc_acceptable s) k =
        (if k \<in> set finished then Some (resource_acceptable policy now freshness resources k) else None))
     \<and> (\<forall>k. map_of (sc_resource_violations s) k =
        (if k \<in> set finished
         then map_option (key_violations (rule_for policy k) now (freshness k) k) (map_of resources k)
         else None))
     \<and> sc_violations s = concat (map (\<lambda>k. if k \<in> set enforced
          then (case map_of resources k of None \<Rightarrow> []
                | Some v \<Rightarrow> key_violations (rule_for policy k) now (freshness k) k v)
          else []) finished)"

lemma scan_key_inv:
  assumes "scan_inv policy now freshness resources enforced finished s"
  shows "scan_inv policy now freshness resources enforced (finished @ [k])
    (scan_key policy now freshness resources enforced s k)"
  using assms
  by (auto simp: scan_inv_def scan_key_def Let_def resource_acceptable_def key_violations_empty_iff
      split: option.splits)

lemma scan_keys_inv:
  "scan_inv policy now freshness resources enforced finished s \<Longrightarrow>
    scan_inv policy now freshness resources enforced (finished @ ks)
      (foldl (scan_key policy now freshness resources enforced) s ks)"
proof (induction ks arbitrary: finished s)
  case (Cons k ks)
  from Cons.IH [OF scan_key_inv [OF Cons.prems, of k]] show ?case by simp
qed simp

lemma scan_requirement_keeps:
  "sc_acceptable (scan_requirement enforced s rq) = sc_acceptable s"
  "sc_resource_violations (scan_requirement enforced s rq) = sc_resource_violations s"
  by (simp_all add: scan_requirement_def Let_def)

lemma scan_requirements_empty_iff:
  "sc_violations (foldl (scan_requirement enforced) s rqs) = [] \<longleftrightarrow>
     sc_violations s = [] \<and> (\<forall>rq \<in> set rqs. rq_minimum_count rq \<le> accepted_count (sc_acceptable s) rq)"
proof (induction rqs arbitrary: s)
  case (Cons rq rqs)
  have "sc_violations (scan_requirement enforced s rq) = [] \<longleftrightarrow>
      sc_violations s = [] \<and> rq_minimum_count rq \<le> accepted_count (sc_acceptable s) rq"
    by (simp add: scan_requirement_def Let_def)
  then show ?case by (auto simp: Cons.IH scan_requirement_keeps)
qed simp

lemma length_filter_eq_iff: "length (filter P xs) = length xs \<longleftrightarrow> (\<forall>x \<in> set xs. P x)"
  by (metis filter_True filter_id_conv length_filter_less linorder_neq_iff)

lemma scanned_acceptable:
  assumes "scan_inv policy now freshness resources enforced ks s" "set (rq_keys rq) \<subseteq> set ks"
  shows "accepted_count (sc_acceptable s) rq
    = int (length (filter (resource_acceptable policy now freshness resources) (rq_keys rq)))"
proof -
  have "filter (\<lambda>k. map_of (sc_acceptable s) k = Some True) (rq_keys rq)
      = filter (resource_acceptable policy now freshness resources) (rq_keys rq)"
    using assms by (intro filter_cong) (auto simp: scan_inv_def)
  then show ?thesis by (simp add: accepted_count_def)
qed

lemma scanned_violations_empty:
  assumes "scan_inv policy now freshness resources enforced ks s" "set enforced \<subseteq> set ks"
  shows "sc_violations s = [] \<longleftrightarrow>
    (\<forall>k \<in> set enforced. map_of resources k = None \<or> resource_acceptable policy now freshness resources k)"
proof -
  have "sc_violations s = [] \<longleftrightarrow> (\<forall>k \<in> set ks. k \<in> set enforced \<longrightarrow>
      (case map_of resources k of None \<Rightarrow> []
       | Some v \<Rightarrow> key_violations (rule_for policy k) now (freshness k) k v) = [])"
    using assms(1) by (auto simp: scan_inv_def)
  also have "\<dots> \<longleftrightarrow> (\<forall>k \<in> set enforced. (case map_of resources k of None \<Rightarrow> []
       | Some v \<Rightarrow> key_violations (rule_for policy k) now (freshness k) k v) = [])"
    using assms(2) by blast
  also have "\<dots> \<longleftrightarrow> (\<forall>k \<in> set enforced. map_of resources k = None
      \<or> resource_acceptable policy now freshness resources k)"
    by (intro ball_cong refl)
      (simp add: resource_acceptable_def key_violations_empty_iff split: option.split)
  finally show ?thesis .
qed

subsection \<open>Properties\<close>


text \<open>
  the requirement constructors mean what their names say. A requirement built by
  \<open>all_of\<close> is met exactly when every key of the group is acceptable, one built by
  \<open>any_of\<close> exactly when at least one is.
\<close>

lemma requirement_constructors_meaning:
  assumes "requirement_all_of ks nm = Inr all" and "requirement_any_of ks nm' = Inr any"
  shows "(rq_minimum_count all
            \<le> int (length (filter (resource_acceptable policy now freshness resources) (rq_keys all)))
          \<longleftrightarrow> (\<forall>k \<in> set ks. resource_acceptable policy now freshness resources k))
     \<and> (rq_minimum_count any
            \<le> int (length (filter (resource_acceptable policy now freshness resources) (rq_keys any)))
          \<longleftrightarrow> (\<exists>k \<in> set ks. resource_acceptable policy now freshness resources k))"
proof -
  let ?P = "resource_acceptable policy now freshness resources"
  have all: "rq_keys all = fromkeys ks" "rq_minimum_count all = int (length (fromkeys ks))"
    using assms(1) by (auto simp: requirement_all_of_def mk_requirement_def Let_def res_iff split: if_splits)
  have any: "rq_keys any = fromkeys ks" "rq_minimum_count any = 1"
    using assms(2) by (auto simp: requirement_any_of_def mk_requirement_def Let_def res_iff split: if_splits)
  have "length (fromkeys ks) \<le> length (filter ?P (fromkeys ks)) \<longleftrightarrow> (\<forall>k \<in> set ks. ?P k)"
    using length_filter_eq_iff [of ?P "fromkeys ks"] length_filter_le [of ?P "fromkeys ks"]
    by (metis le_antisym order_refl set_fromkeys)
  moreover have "1 \<le> length (filter ?P (fromkeys ks)) \<longleftrightarrow> (\<exists>k \<in> set ks. ?P k)"
    by (auto simp: Suc_le_eq filter_empty_conv)
  ultimately show ?thesis unfolding all any by linarith
qed

definition fixture_rule :: acceptance_rule where
  "fixture_rule = \<lparr>ar_max_age_seconds = Some 5, ar_allow_stale = False, ar_minimum_authority_rank = None\<rparr>"

definition fixture_policy :: acceptance_policy where
  "fixture_policy = \<lparr>ap_default_rule = fixture_rule, ap_resource_rules = [],
     ap_requirements = [], ap_include_optional_resources = False\<rparr>"

lemma requirement_constructors_meaning_witness:
  "\<exists>all any. requirement_all_of [fixture_key ''a'', fixture_key ''b''] ''q'' = Inr all
     \<and> requirement_any_of [fixture_key ''a'', fixture_key ''b''] ''q'' = Inr any
     \<and> rq_minimum_count any \<le> int (length (filter (resource_acceptable fixture_policy 12
          (\<lambda>_. all_values_policy) [(fixture_key ''a'', fixture_value ''a'' 10 0)]) (rq_keys any)))
     \<and> \<not> rq_minimum_count all \<le> int (length (filter (resource_acceptable fixture_policy 12
          (\<lambda>_. all_values_policy) [(fixture_key ''a'', fixture_value ''a'' 10 0)]) (rq_keys all)))"
proof -
  let ?ks = "[fixture_key ''a'', fixture_key ''b'']"
  let ?P = "resource_acceptable fixture_policy 12 (\<lambda>_. all_values_policy)
      [(fixture_key ''a'', fixture_value ''a'' 10 0)]"
  obtain all where all: "requirement_all_of ?ks ''q'' = Inr all"
    by (simp add: requirement_all_of_def mk_requirement_def Let_def)
  obtain any where any: "requirement_any_of ?ks ''q'' = Inr any"
    by (simp add: requirement_any_of_def mk_requirement_def Let_def)
  have "?P (fixture_key ''a'')" "\<not> ?P (fixture_key ''b'')"
    by (simp_all add: resource_acceptable_def satisfies_rule_def rule_for_def fixture_policy_def
        fixture_rule_def dynamically_stale_def current_age_def all_values_policy_def)
  with requirement_constructors_meaning [OF all any, of fixture_policy 12 "\<lambda>_. all_values_policy"
      "[(fixture_key ''a'', fixture_value ''a'' 10 0)]"] all any
  show ?thesis by auto
qed

end
