(* ===== verification/Consistency.thy ===== *)
theory Consistency
  imports Models
begin

section \<open>Temporal consistency of a group (core/consistency.py)\<close>

text \<open>
  The observation-skew check: given the resolved resources, the keys of a group and the
  largest spread of observation times the caller accepts, find the violation, if any, with
  its oldest and newest members.
\<close>

record consistency_policy =
  cp_max_observation_skew_seconds :: rat
  cp_include_optional_resources :: bool

definition mk_consistency_policy :: "pyval \<Rightarrow> pyval \<Rightarrow> arg_error + consistency_policy" where
  "mk_consistency_policy limit include_optional =
     res_bind (number_arg ''max_observation_skew_seconds'' limit) (\<lambda>f.
       case f of
         Fin t \<Rightarrow>
           if t < 0 then Inl (ValueError ''max_observation_skew_seconds cannot be negative'')
           else res_bind (require (as_bool include_optional)
                           (TypeError ''include_optional_resources must be a boolean'')) (\<lambda>b.
             Inr \<lparr>cp_max_observation_skew_seconds = t, cp_include_optional_resources = b\<rparr>)
       | _ \<Rightarrow> Inl (ValueError ''max_observation_skew_seconds must be finite''))"

record skew_violation =
  kv_keys :: "resource_key list"
  kv_oldest_key :: resource_key
  kv_oldest_observed_at :: rat
  kv_newest_key :: resource_key
  kv_newest_observed_at :: rat
  kv_observation_skew_seconds :: rat
  kv_max_observation_skew_seconds :: rat

text \<open>Python's \<^verbatim>\<open>min\<close> and \<^verbatim>\<open>max\<close> with a key return the first extremal element.\<close>

definition min_by :: "('a \<Rightarrow> rat) \<Rightarrow> 'a \<Rightarrow> 'a list \<Rightarrow> 'a" where
  "min_by f x xs = foldl (\<lambda>b y. if f y < f b then y else b) x xs"

definition max_by :: "('a \<Rightarrow> rat) \<Rightarrow> 'a \<Rightarrow> 'a list \<Rightarrow> 'a" where
  "max_by f x xs = foldl (\<lambda>b y. if f y > f b then y else b) x xs"

definition resolved_items ::
  "(resource_key, snapshot_value) odict \<Rightarrow> resource_key list \<Rightarrow> (resource_key \<times> snapshot_value) list" where
  "resolved_items resources ks =
     concat (map (\<lambda>k. case map_of resources k of None \<Rightarrow> [] | Some v \<Rightarrow> [(k, v)]) (fromkeys ks))"

definition find_observation_skew_violation ::
  "(resource_key, snapshot_value) odict \<Rightarrow> resource_key list \<Rightarrow> consistency_policy \<Rightarrow> skew_violation option" where
  "find_observation_skew_violation resources ks policy =
     (case resolved_items resources ks of
        [] \<Rightarrow> None
      | [_] \<Rightarrow> None
      | r # rs \<Rightarrow>
          (let observed = (\<lambda>item. sv_observed_at (snd item));
               oldest = min_by observed r rs;
               newest = max_by observed r rs;
               skew = max 0 (observed newest - observed oldest)
           in if skew \<le> cp_max_observation_skew_seconds policy then None
              else Some \<lparr>kv_keys = map fst (r # rs),
                         kv_oldest_key = fst oldest, kv_oldest_observed_at = observed oldest,
                         kv_newest_key = fst newest, kv_newest_observed_at = observed newest,
                         kv_observation_skew_seconds = skew,
                         kv_max_observation_skew_seconds = cp_max_observation_skew_seconds policy\<rparr>))"

subsection \<open>Lemmas\<close>

lemma min_by_in: "min_by f x xs \<in> set (x # xs)"
  by (induction xs arbitrary: x) (auto simp: min_by_def)

lemma max_by_in: "max_by f x xs \<in> set (x # xs)"
  by (induction xs arbitrary: x) (auto simp: max_by_def)

lemma min_by_le: "y \<in> set (x # xs) \<Longrightarrow> f (min_by f x xs) \<le> f y"
proof (induction xs arbitrary: x y)
  case (Cons z zs)
  let ?b = "if f z < f x then z else x"
  have "f (min_by f ?b zs) \<le> f ?b" by (rule Cons.IH) simp
  then have "f (min_by f ?b zs) \<le> f x" "f (min_by f ?b zs) \<le> f z" by (auto split: if_splits)
  with Cons.prems Cons.IH [of y ?b] show ?case by (auto simp: min_by_def)
qed (simp add: min_by_def)

lemma max_by_ge: "y \<in> set (x # xs) \<Longrightarrow> f y \<le> f (max_by f x xs)"
proof (induction xs arbitrary: x y)
  case (Cons z zs)
  let ?b = "if f z > f x then z else x"
  have "f ?b \<le> f (max_by f ?b zs)" by (rule Cons.IH) simp
  then have "f x \<le> f (max_by f ?b zs)" "f z \<le> f (max_by f ?b zs)" by (auto split: if_splits)
  with Cons.prems Cons.IH [of y ?b] show ?case by (auto simp: max_by_def)
qed (simp add: max_by_def)

lemma set_resolved_items:
  "set (resolved_items resources ks) = {(k, v). k \<in> set ks \<and> map_of resources k = Some v}"
  by (auto simp: resolved_items_def split: option.splits)

lemma keys_resolved_items:
  "map fst (resolved_items resources ks) = filter (\<lambda>k. map_of resources k \<noteq> None) (fromkeys ks)"
proof -
  have "map fst (concat (map (\<lambda>k. case map_of resources k of None \<Rightarrow> [] | Some v \<Rightarrow> [(k, v)]) xs))
      = filter (\<lambda>k. map_of resources k \<noteq> None) xs" for xs
    by (induction xs) (auto split: option.splits)
  then show ?thesis by (simp add: resolved_items_def)
qed

lemma mk_consistency_policy_nonneg:
  assumes "mk_consistency_policy l b = Inr p"
  shows "0 \<le> cp_max_observation_skew_seconds p"
proof -
  from assms obtain f where "number_arg ''max_observation_skew_seconds'' l = Inr f"
    by (auto simp: mk_consistency_policy_def res_bind_Inr_iff)
  with assms show ?thesis
    by (cases f) (auto simp: mk_consistency_policy_def res_iff split: if_splits)
qed

text \<open>The three ways the search can end, as one case rule.\<close>

lemma skew_violation_cases:
  obtains (few) "length (resolved_items resources ks) < 2"
      "find_observation_skew_violation resources ks policy = None"
  | (many) r rs oldest newest where
      "resolved_items resources ks = r # rs" "rs \<noteq> []"
      "oldest \<in> set (r # rs)" "newest \<in> set (r # rs)"
      "\<forall>x \<in> set (r # rs). sv_observed_at (snd oldest) \<le> sv_observed_at (snd x)
        \<and> sv_observed_at (snd x) \<le> sv_observed_at (snd newest)"
      "find_observation_skew_violation resources ks policy =
        (if sv_observed_at (snd newest) - sv_observed_at (snd oldest)
              \<le> cp_max_observation_skew_seconds policy then None
         else Some \<lparr>kv_keys = map fst (r # rs),
           kv_oldest_key = fst oldest, kv_oldest_observed_at = sv_observed_at (snd oldest),
           kv_newest_key = fst newest, kv_newest_observed_at = sv_observed_at (snd newest),
           kv_observation_skew_seconds = sv_observed_at (snd newest) - sv_observed_at (snd oldest),
           kv_max_observation_skew_seconds = cp_max_observation_skew_seconds policy\<rparr>)"
proof (cases "resolved_items resources ks")
  case Nil
  then show thesis by (intro few) (auto simp: find_observation_skew_violation_def)
next
  case (Cons r rs)
  show thesis
  proof (cases rs)
    case Nil
    with Cons show thesis by (intro few) (auto simp: find_observation_skew_violation_def)
  next
    case (Cons r' rs')
    let ?ob = "\<lambda>item. sv_observed_at (snd item)"
    let ?old = "min_by ?ob r rs" and ?new = "max_by ?ob r rs"
    have ext: "?ob ?old \<le> ?ob x \<and> ?ob x \<le> ?ob ?new" if "x \<in> set (r # rs)" for x
      using min_by_le [OF that, of ?ob] max_by_ge [OF that, of ?ob] by simp
    then have "?ob ?old \<le> ?ob ?new" using max_by_in [of ?ob r rs] by blast
    then have "find_observation_skew_violation resources ks policy =
      (if ?ob ?new - ?ob ?old \<le> cp_max_observation_skew_seconds policy then None
       else Some \<lparr>kv_keys = map fst (r # rs),
           kv_oldest_key = fst ?old, kv_oldest_observed_at = ?ob ?old,
           kv_newest_key = fst ?new, kv_newest_observed_at = ?ob ?new,
           kv_observation_skew_seconds = ?ob ?new - ?ob ?old,
           kv_max_observation_skew_seconds = cp_max_observation_skew_seconds policy\<rparr>)"
      using \<open>resolved_items resources ks = r # rs\<close> Cons
      by (simp add: find_observation_skew_violation_def Let_def)
    with \<open>resolved_items resources ks = r # rs\<close> Cons ext min_by_in [of ?ob r rs]
      max_by_in [of ?ob r rs] show thesis
      by (intro many [of r rs ?old ?new]) auto
  qed
qed

subsection \<open>Properties\<close>

text \<open>
  the skew check is exact. For a policy the constructor accepts, no violation is reported
  if and only if every two resolved members of the group were observed within the allowed
  skew of each other.
\<close>

lemma skew_check_exact:
  assumes "mk_consistency_policy limit flag = Inr policy"
  shows "find_observation_skew_violation resources ks policy = None \<longleftrightarrow>
    (\<forall>k \<in> set ks. \<forall>k' \<in> set ks. \<forall>v v'. map_of resources k = Some v \<longrightarrow> map_of resources k' = Some v'
       \<longrightarrow> sv_observed_at v - sv_observed_at v' \<le> cp_max_observation_skew_seconds policy)"
    (is "?lhs \<longleftrightarrow> ?rhs")
proof (cases rule: skew_violation_cases [of resources ks policy])
  case few
  have "v = v'" if "k \<in> set ks" "k' \<in> set ks" "map_of resources k = Some v" "map_of resources k' = Some v'"
    for k k' v v'
  proof -
    from that have "(k, v) \<in> set (resolved_items resources ks)" "(k', v') \<in> set (resolved_items resources ks)"
      by (auto simp: set_resolved_items)
    with few(1) show ?thesis by (cases "resolved_items resources ks") auto
  qed
  with few(2) mk_consistency_policy_nonneg [OF assms] show ?thesis by fastforce
next
  case (many r rs oldest newest)
  have mem: "x \<in> set (r # rs) \<longleftrightarrow> fst x \<in> set ks \<and> map_of resources (fst x) = Some (snd x)" for x
    using set_resolved_items [of resources ks] by (simp only: many(1)) auto
  let ?skew = "sv_observed_at (snd newest) - sv_observed_at (snd oldest)"
  have lhs: "?lhs \<longleftrightarrow> ?skew \<le> cp_max_observation_skew_seconds policy"
    by (simp add: many(6))
  show ?thesis
  proof
    assume ?lhs
    then have le: "?skew \<le> cp_max_observation_skew_seconds policy" by (simp only: lhs)
    have "sv_observed_at v - sv_observed_at v' \<le> ?skew"
      if "k \<in> set ks" "k' \<in> set ks" "map_of resources k = Some v" "map_of resources k' = Some v'" for k k' v v'
      using bspec [OF many(5), of "(k, v)"] bspec [OF many(5), of "(k', v')"] that mem
      by (auto intro: diff_mono)
    with le show ?rhs by (blast intro: order_trans)
  next
    assume ?rhs
    with mem [of oldest] mem [of newest] many(3,4) show ?lhs by (simp only: lhs) blast
  qed
qed

lemma skew_check_exact_witness:
  "find_observation_skew_violation
     [(fixture_key ''a'', fixture_value ''a'' 10 0), (fixture_key ''b'', fixture_value ''b'' 15 0)]
     [fixture_key ''a'', fixture_key ''b'']
     \<lparr>cp_max_observation_skew_seconds = 2, cp_include_optional_resources = False\<rparr> \<noteq> None"
proof -
  have h: "mk_consistency_policy (PyInt 2) (PyBool False)
      = Inr \<lparr>cp_max_observation_skew_seconds = 2, cp_include_optional_resources = False\<rparr>"
    by (simp add: mk_consistency_policy_def number_arg_def double_overflow_def)
  show ?thesis by (subst skew_check_exact [OF h]) auto
qed

text \<open>
  A reported violation is genuine. Its oldest and newest keys are resolved members of
  the group with the smallest and the largest observation time, the skew is their
  difference, and it exceeds the limit of the policy.
\<close>

lemma skew_violation_genuine:
  assumes "find_observation_skew_violation resources ks policy = Some v"
  shows "kv_oldest_key v \<in> set ks \<and> kv_newest_key v \<in> set ks
    \<and> map_option sv_observed_at (map_of resources (kv_oldest_key v)) = Some (kv_oldest_observed_at v)
    \<and> map_option sv_observed_at (map_of resources (kv_newest_key v)) = Some (kv_newest_observed_at v)
    \<and> (\<forall>k \<in> set ks. \<forall>x. map_of resources k = Some x \<longrightarrow>
         kv_oldest_observed_at v \<le> sv_observed_at x \<and> sv_observed_at x \<le> kv_newest_observed_at v)
    \<and> kv_observation_skew_seconds v = kv_newest_observed_at v - kv_oldest_observed_at v
    \<and> cp_max_observation_skew_seconds policy < kv_observation_skew_seconds v
    \<and> kv_keys v = filter (\<lambda>k. map_of resources k \<noteq> None) (fromkeys ks)"
proof (cases rule: skew_violation_cases [of resources ks policy])
  case few
  with assms show ?thesis by simp
next
  case (many r rs oldest newest)
  have mem: "x \<in> set (r # rs) \<longleftrightarrow> fst x \<in> set ks \<and> map_of resources (fst x) = Some (snd x)" for x
    using set_resolved_items [of resources ks] by (simp only: many(1)) auto
  have ext: "sv_observed_at (snd oldest) \<le> sv_observed_at x \<and> sv_observed_at x \<le> sv_observed_at (snd newest)"
    if "k \<in> set ks" "map_of resources k = Some x" for k x
    using bspec [OF many(5), of "(k, x)"] that mem by simp
  have keys: "map fst (r # rs) = filter (\<lambda>k. map_of resources k \<noteq> None) (fromkeys ks)"
    by (metis keys_resolved_items many(1))
  from many(6) assms have "v = \<lparr>kv_keys = map fst (r # rs),
           kv_oldest_key = fst oldest, kv_oldest_observed_at = sv_observed_at (snd oldest),
           kv_newest_key = fst newest, kv_newest_observed_at = sv_observed_at (snd newest),
           kv_observation_skew_seconds = sv_observed_at (snd newest) - sv_observed_at (snd oldest),
           kv_max_observation_skew_seconds = cp_max_observation_skew_seconds policy\<rparr>"
    and "cp_max_observation_skew_seconds policy < sv_observed_at (snd newest) - sv_observed_at (snd oldest)"
    by (auto split: if_splits)
  with many(3,4) mem ext keys show ?thesis by (simp del: list.map)
qed

lemma skew_violation_genuine_witness:
  "\<exists>v. find_observation_skew_violation
     [(fixture_key ''a'', fixture_value ''a'' 10 0), (fixture_key ''b'', fixture_value ''b'' 15 0)]
     [fixture_key ''a'', fixture_key ''b'']
     \<lparr>cp_max_observation_skew_seconds = 2, cp_include_optional_resources = False\<rparr> = Some v
   \<and> 2 < kv_observation_skew_seconds v"
proof -
  let ?call = "find_observation_skew_violation
     [(fixture_key ''a'', fixture_value ''a'' 10 0), (fixture_key ''b'', fixture_value ''b'' 15 0)]
     [fixture_key ''a'', fixture_key ''b'']
     \<lparr>cp_max_observation_skew_seconds = 2, cp_include_optional_resources = False\<rparr>"
  have "?call \<noteq> None"
    by (simp add: find_observation_skew_violation_def resolved_items_def Let_def min_by_def max_by_def)
  then obtain v where v: "?call = Some v" by blast
  then show ?thesis using skew_violation_genuine [OF v] by simp
qed

end
