(* ===== verification/Request.thy ===== *)
theory Request
  imports Acceptance Consistency
begin

section \<open>Snapshot requests (core/request.py)\<close>

text \<open>
  A request names required and optional resources and, optionally, a consistency and an
  acceptance policy. The two type checks of the policies are part of the type of the model.
\<close>

record snapshot_request =
  sr_required :: "resource_key list"
  sr_optional :: "resource_key list"
  sr_consistency_policy :: "consistency_policy option"
  sr_acceptance_policy :: "acceptance_policy option"

definition render_keys :: "resource_key list \<Rightarrow> string" where
  "render_keys ks = str_join '', '' (map key_str (sort ks))"

definition mk_snapshot_request ::
  "resource_key list \<Rightarrow> resource_key list \<Rightarrow> consistency_policy option \<Rightarrow> acceptance_policy option
    \<Rightarrow> arg_error + snapshot_request" where
  "mk_snapshot_request required optional consistency acceptance =
     (let required_keys = fromkeys required; optional_keys = fromkeys optional;
          overlap = filter (\<lambda>k. k \<in> set optional_keys) required_keys
      in if overlap \<noteq> []
         then Inl (ValueError (''resource keys cannot be both required and optional: '' @ render_keys overlap))
         else if required_keys = [] \<and> optional_keys = []
         then Inl (ValueError ''snapshot request must contain at least one resource key'')
         else
           (let unknown = (case acceptance of None \<Rightarrow> []
                  | Some p \<Rightarrow> filter (\<lambda>k. k \<notin> set (required_keys @ optional_keys)) (referenced_keys p))
            in if unknown \<noteq> []
               then Inl (ValueError (''acceptance policy references resources outside the snapshot request: ''
                                      @ render_keys unknown))
               else Inr \<lparr>sr_required = required_keys, sr_optional = optional_keys,
                         sr_consistency_policy = consistency, sr_acceptance_policy = acceptance\<rparr>))"

definition sr_keys :: "snapshot_request \<Rightarrow> resource_key list" where
  "sr_keys r = sr_required r @ sr_optional r"

definition is_required :: "snapshot_request \<Rightarrow> resource_key \<Rightarrow> bool" where
  "is_required r k = (k \<in> set (sr_required r))"

definition request_wf :: "snapshot_request \<Rightarrow> bool" where
  "request_wf r \<longleftrightarrow> distinct (sr_keys r) \<and> sr_keys r \<noteq> []
     \<and> (\<forall>p. sr_acceptance_policy r = Some p \<longrightarrow> set (referenced_keys p) \<subseteq> set (sr_keys r))"

subsection \<open>Properties\<close>

text \<open>
  what a request accepted by the constructor guarantees, and when it is accepted. The
  request is built exactly when no key is both required and optional, at least one key is
  given, and the acceptance policy names only keys of the request; its keys are then listed
  once each, required before optional.
\<close>

lemma snapshot_request_accepted_iff:
  "(\<exists>r. mk_snapshot_request required optional consistency acceptance = Inr r \<and> request_wf r
        \<and> sr_required r = fromkeys required \<and> sr_optional r = fromkeys optional)
   \<longleftrightarrow> set required \<inter> set optional = {} \<and> (required \<noteq> [] \<or> optional \<noteq> [])
       \<and> (\<forall>p. acceptance = Some p \<longrightarrow> set (referenced_keys p) \<subseteq> set required \<union> set optional)"
proof -
  have "filter (\<lambda>k. k \<in> set (fromkeys optional)) (fromkeys required) = []
      \<longleftrightarrow> set required \<inter> set optional = {}"
    by (auto simp: filter_empty_conv)
  moreover have "filter (\<lambda>k. k \<notin> set (fromkeys required @ fromkeys optional)) (referenced_keys p) = []
      \<longleftrightarrow> set (referenced_keys p) \<subseteq> set required \<union> set optional" for p
    by (auto simp: filter_empty_conv)
  ultimately show ?thesis
    by (cases acceptance)
      (auto simp: mk_snapshot_request_def Let_def request_wf_def sr_keys_def simp del: filter_empty_conv)
qed

lemma snapshot_request_accepted_iff_witness:
  "\<exists>r. mk_snapshot_request [fixture_key ''a'', fixture_key ''b'', fixture_key ''a''] [fixture_key ''c''] None None = Inr r
     \<and> request_wf r \<and> sr_keys r = [fixture_key ''a'', fixture_key ''b'', fixture_key ''c'']"
proof -
  have "\<exists>r. mk_snapshot_request [fixture_key ''a'', fixture_key ''b'', fixture_key ''a''] [fixture_key ''c''] None None = Inr r
     \<and> request_wf r \<and> sr_required r = fromkeys [fixture_key ''a'', fixture_key ''b'', fixture_key ''a'']
     \<and> sr_optional r = fromkeys [fixture_key ''c'']"
    by (subst snapshot_request_accepted_iff) simp
  then show ?thesis by (auto simp: sr_keys_def)
qed

end
