(* ===== verification/Errors.thy ===== *)
theory Errors
  imports Request
begin

section \<open>Exceptions and their rendering (core/errors.py, core/diagnostic_schema.py)\<close>

text \<open>
  One constructor per exception class the library raises or distinguishes, with the
  attributes the class keeps. \<open>error_type\<close> is \<^verbatim>\<open>type(error).__name__\<close>, \<open>error_str\<close> is
  \<^verbatim>\<open>str(error)\<close> and the subclass relation is given by the predicates
  \<open>is_source_unavailable\<close> and \<open>is_source_timeout\<close>. \<open>OtherError\<close> is any exception class of
  the application. The errors that carry a snapshot are records of their own.
\<close>

record source_failure =
  sf_source :: string
  sf_error_type :: string
  sf_message :: string
  sf_attempts :: int

datatype py_error =
    ArgError arg_error
  | KeyError string
  | RuntimeError string
  | TimeoutError string
  | ConnectionError string
  | OSError string
  | OtherError string string
  | CancelledError
  | CapabilityRequirementError "string list" "(string \<times> int \<times> int option) list"
  | SourceUnavailableError string
  | SourceTimeoutError string
  | SourceQueueTimeoutError string
  | SnapshotDeadlineExceededError string
  | SubmissionBacklogFullError int int
  | PayloadIsolationError string string
  | PayloadCopySubsystemClosedError string
  | PayloadCopyShutdownTimeoutError pyfloat "(string \<times> int) list"
  | ObservabilityShutdownTimeoutError pyfloat "(string \<times> int) list"
  | ResourceAcceptanceError resource_key "acceptance_violation list"
  | SourceProtocolError string
  | CircuitOpenError string
  | SessionClosedError string
  | DependencyCycleError "resource_key list"
  | DependencyResolutionError resource_key string "(resource_key \<times> py_error) list"
  | ResourceResolutionError resource_key "source_failure list"

fun is_source_timeout :: "py_error \<Rightarrow> bool" where
  "is_source_timeout (SourceTimeoutError m) = True"
| "is_source_timeout (SourceQueueTimeoutError m) = True"
| "is_source_timeout (SnapshotDeadlineExceededError m) = True"
| "is_source_timeout _ = False"

fun is_source_unavailable :: "py_error \<Rightarrow> bool" where
  "is_source_unavailable (SourceUnavailableError m) = True"
| "is_source_unavailable (CircuitOpenError m) = True"
| "is_source_unavailable e = is_source_timeout e"

text \<open>\<^verbatim>\<open>except Exception\<close> catches every exception but a cancellation.\<close>

definition is_exception :: "py_error \<Rightarrow> bool" where
  "is_exception e = (e \<noteq> CancelledError)"

fun error_type :: "py_error \<Rightarrow> string" where
  "error_type (ArgError (TypeError m)) = ''TypeError''"
| "error_type (ArgError (ValueError m)) = ''ValueError''"
| "error_type (ArgError OverflowError) = ''OverflowError''"
| "error_type (KeyError m) = ''KeyError''"
| "error_type (RuntimeError m) = ''RuntimeError''"
| "error_type (TimeoutError m) = ''TimeoutError''"
| "error_type (ConnectionError m) = ''ConnectionError''"
| "error_type (OSError m) = ''OSError''"
| "error_type (OtherError t m) = t"
| "error_type CancelledError = ''CancelledError''"
| "error_type (CapabilityRequirementError a b) = ''CapabilityRequirementError''"
| "error_type (SourceUnavailableError m) = ''SourceUnavailableError''"
| "error_type (SourceTimeoutError m) = ''SourceTimeoutError''"
| "error_type (SourceQueueTimeoutError m) = ''SourceQueueTimeoutError''"
| "error_type (SnapshotDeadlineExceededError m) = ''SnapshotDeadlineExceededError''"
| "error_type (SubmissionBacklogFullError a b) = ''SubmissionBacklogFullError''"
| "error_type (PayloadIsolationError a b) = ''PayloadIsolationError''"
| "error_type (PayloadCopySubsystemClosedError a) = ''PayloadCopySubsystemClosedError''"
| "error_type (PayloadCopyShutdownTimeoutError a b) = ''PayloadCopyShutdownTimeoutError''"
| "error_type (ObservabilityShutdownTimeoutError a b) = ''ObservabilityShutdownTimeoutError''"
| "error_type (ResourceAcceptanceError a b) = ''ResourceAcceptanceError''"
| "error_type (SourceProtocolError m) = ''SourceProtocolError''"
| "error_type (CircuitOpenError m) = ''CircuitOpenError''"
| "error_type (SessionClosedError m) = ''SessionClosedError''"
| "error_type (DependencyCycleError a) = ''DependencyCycleError''"
| "error_type (DependencyResolutionError a b c) = ''DependencyResolutionError''"
| "error_type (ResourceResolutionError a b) = ''ResourceResolutionError''"

text \<open>An argument error raised inside an operation.\<close>

definition lift_arg :: "arg_error + 'a \<Rightarrow> py_error + 'a" where
  "lift_arg r = (case r of Inl e \<Rightarrow> Inl (ArgError e) | Inr x \<Rightarrow> Inr x)"

lemma lift_arg_simps [simp]: "lift_arg (Inl e) = Inl (ArgError e)" "lift_arg (Inr x) = Inr x"
  by (simp_all add: lift_arg_def)

lemma lift_arg_Inr_iff [res_iff]: "lift_arg r = Inr x \<longleftrightarrow> r = Inr x"
  by (cases r) auto

subsection \<open>Compact messages\<close>

text \<open>\<^verbatim>\<open>s.split()\<close>: the maximal runs of characters that are not white space.\<close>

function (sequential) py_split :: "string \<Rightarrow> string list" where
  "py_split [] = []"
| "py_split (c # s) =
     (if is_space c then py_split s
      else (c # takeWhile (\<lambda>d. \<not> is_space d) s) # py_split (dropWhile (\<lambda>d. \<not> is_space d) s))"
  by pat_completeness auto
termination
  by (relation "measure length") (auto simp: le_imp_less_Suc length_dropWhile_le)

definition DEFAULT_MESSAGE_LIMIT :: int where "DEFAULT_MESSAGE_LIMIT = 300"
definition DEFAULT_FAILURE_LIMIT :: int where "DEFAULT_FAILURE_LIMIT = 3"
definition DEFAULT_RESOURCE_LIMIT :: int where "DEFAULT_RESOURCE_LIMIT = 5"

definition compact_message :: "string \<Rightarrow> int \<Rightarrow> arg_error + string" where
  "compact_message value max_length =
     (if max_length < 1 then Inl (ValueError ''max_length must be positive'')
      else
        let joined = str_join '' '' (py_split value);
            txt = (if joined = '''' then ''<no message>'' else joined)
        in if int (length txt) \<le> max_length then Inr txt
           else if max_length \<le> 3 then Inr (take (nat max_length) txt)
           else Inr (take (nat (max_length - 3)) txt @ ''...''))"

subsection \<open>Source failures\<close>

definition failure_format :: "source_failure \<Rightarrow> int \<Rightarrow> arg_error + string" where
  "failure_format f max_message_length =
     res_bind (compact_message (sf_message f) max_message_length) (\<lambda>m.
       Inr (sf_source f @ '': '' @ sf_error_type f @ ''('' @ m @ ''; attempts='' @ int_str (sf_attempts f) @ '')''))"

definition ERROR_DIAGNOSTICS_SCHEMA :: string where
  "ERROR_DIAGNOSTICS_SCHEMA = ''coalestra.error-diagnostics''"

definition ERROR_DIAGNOSTICS_SCHEMA_VERSION :: int where
  "ERROR_DIAGNOSTICS_SCHEMA_VERSION = 1"

definition schema_header :: "(string \<times> pyval) list" where
  "schema_header = [(''schema'', PyStr ERROR_DIAGNOSTICS_SCHEMA),
                    (''schema_version'', PyInt ERROR_DIAGNOSTICS_SCHEMA_VERSION)]"

definition failure_to_dict :: "source_failure \<Rightarrow> int \<Rightarrow> arg_error + pyval" where
  "failure_to_dict f max_message_length =
     res_bind (compact_message (sf_message f) max_message_length) (\<lambda>m.
       Inr (PyDict (schema_header @
         [(''source'', PyStr (sf_source f)), (''error_type'', PyStr (sf_error_type f)),
          (''message'', PyStr m), (''attempts'', PyInt (sf_attempts f))])))"

definition format_failures :: "source_failure list \<Rightarrow> int \<Rightarrow> int \<Rightarrow> arg_error + string" where
  "format_failures failures max_failures max_message_length =
     (if max_failures < 1 then Inl (ValueError ''max_failures must be positive'')
      else
        let visible = take (nat max_failures) failures
        in res_bind (res_map (\<lambda>f. failure_format f max_message_length) visible) (\<lambda>parts.
             let joined = str_join ''; '' parts;
                 details = (if joined = '''' then ''no compatible source'' else joined);
                 hidden = int (length failures) - int (length visible)
             in Inr (if 0 < hidden then details @ ''; +'' @ int_str hidden @ '' more failure(s)''
                     else details)))"

subsection \<open>Text of an exception\<close>

text \<open>With the default limits the formatting cannot fail.\<close>

definition default_failures :: "source_failure list \<Rightarrow> string" where
  "default_failures fs =
     (case format_failures fs DEFAULT_FAILURE_LIMIT DEFAULT_MESSAGE_LIMIT of Inr t \<Rightarrow> t | Inl _ \<Rightarrow> '''')"

definition render_counts :: "(string \<times> int) list \<Rightarrow> string" where
  "render_counts cs =
     (let t = str_join '', '' (map (\<lambda>p. fst p @ ''='' @ int_str (snd p)) (sort cs))
      in if t = '''' then ''none'' else t)"

definition render_schema_requirement :: "string \<times> int \<times> int option \<Rightarrow> string" where
  "render_schema_requirement m =
     (case m of (nm, minimum, current) \<Rightarrow>
        nm @ ''>='' @ int_str minimum @ '' (installed=''
        @ (case current of None \<Rightarrow> ''None'' | Some c \<Rightarrow> int_str c) @ '')'')"

text \<open>A float with three decimals.\<close>

definition fmt_seconds :: "pyfloat \<Rightarrow> string" where
  "fmt_seconds t = (case t of Fin r \<Rightarrow> fmt_fixed 3 r | PInf \<Rightarrow> ''inf'' | NInf \<Rightarrow> ''-inf'' | NaN \<Rightarrow> ''nan'')"

fun error_str :: "py_error \<Rightarrow> string" where
  "error_str (ArgError (TypeError m)) = m"
| "error_str (ArgError (ValueError m)) = m"
| "error_str (ArgError OverflowError) = ''int too large to convert to float''"
| "error_str (KeyError m) = py_repr m"
| "error_str (RuntimeError m) = m"
| "error_str (TimeoutError m) = m"
| "error_str (ConnectionError m) = m"
| "error_str (OSError m) = m"
| "error_str (OtherError t m) = m"
| "error_str CancelledError = ''''"
| "error_str (CapabilityRequirementError missing mismatches) =
     ''Coalestra capability requirements were not met (''
     @ str_join ''; ''
         ((if missing = [] then [] else [''missing features: '' @ str_join '', '' missing])
          @ (if mismatches = [] then []
             else [''schema requirements: ''
                   @ str_join '', '' (map render_schema_requirement (sort_key fst mismatches))]))
     @ '')''"
| "error_str (SourceUnavailableError m) = m"
| "error_str (SourceTimeoutError m) = m"
| "error_str (SourceQueueTimeoutError m) = m"
| "error_str (SnapshotDeadlineExceededError m) = m"
| "error_str (SubmissionBacklogFullError limit pending) =
     ''Non-blocking submission backlog is full (pending='' @ int_str pending @ '', limit=''
     @ int_str limit @ '')''"
| "error_str (PayloadIsolationError ctxt value_type) =
     ''Unable to isolate '' @ ctxt @ ''; payload type '' @ value_type @ '' does not support copying''"
| "error_str (PayloadCopySubsystemClosedError component) =
     ''Payload copy subsystem '' @ py_repr component @ '' is closing or closed''"
| "error_str (PayloadCopyShutdownTimeoutError t active) =
     ''Payload copy workers did not drain within '' @ fmt_seconds t @ ''s (active: ''
     @ render_counts active @ '')''"
| "error_str (ObservabilityShutdownTimeoutError t pending) =
     ''Observability buffers did not stop within '' @ fmt_seconds t @ ''s (pending: ''
     @ render_counts pending @ '')''"
| "error_str (ResourceAcceptanceError k violations) =
     ''Resource '' @ key_str k @ '' was not accepted: '' @ str_join ''; '' (map av_message violations)"
| "error_str (SourceProtocolError m) = m"
| "error_str (CircuitOpenError m) = m"
| "error_str (SessionClosedError m) = m"
| "error_str (DependencyCycleError path) =
     ''Derived resource dependency cycle detected: '' @ str_join '' -> '' (map key_str path)"
| "error_str (DependencyResolutionError k src errs) =
     ''Unable to derive '' @ key_str k @ '' with source '' @ src @ ''; dependency failures: ''
     @ str_join '', '' (map (\<lambda>(d, e). key_str d @ ''='' @ error_type e @ ''('' @ error_str e @ '')'') errs)"
| "error_str (ResourceResolutionError k failures) =
     ''Unable to resolve '' @ key_str k @ '': '' @ default_failures failures"

definition active_total :: "(string \<times> int) list \<Rightarrow> int" where
  "active_total cs = sum_list (map (\<lambda>p. max 0 (snd p)) cs)"

definition mk_resource_acceptance_error ::
  "resource_key \<Rightarrow> acceptance_violation list \<Rightarrow> arg_error + py_error" where
  "mk_resource_acceptance_error k violations =
     (if violations = [] then Inl (ValueError ''resource acceptance error requires at least one violation'')
      else Inr (ResourceAcceptanceError k violations))"

subsection \<open>Errors of a whole snapshot\<close>

datatype build_error_kind =
    SnapshotBuildError
  | SnapshotConsistencyError skew_violation
  | SnapshotAcceptanceError "acceptance_violation list"

record build_error =
  be_kind :: build_error_kind
  be_errors :: "(resource_key, py_error) odict"
  be_snapshot :: "py_error snapshot option"

definition resolution_error_to_dict ::
  "resource_key \<Rightarrow> source_failure list \<Rightarrow> int \<Rightarrow> arg_error + pyval" where
  "resolution_error_to_dict k failures limit =
     res_bind (compact_message (error_str (ResourceResolutionError k failures)) limit) (\<lambda>m.
     res_bind (res_map (\<lambda>f. failure_to_dict f limit) failures) (\<lambda>fs.
       Inr (PyDict (schema_header @
         [(''resource'', PyStr (key_str k)), (''error_type'', PyStr ''ResourceResolutionError''),
          (''message'', PyStr m), (''failures'', PyList fs)]))))"

definition render_resource_error :: "resource_key \<times> py_error \<Rightarrow> int \<Rightarrow> int \<Rightarrow> arg_error + string" where
  "render_resource_error item max_failures max_message_length =
     (case snd item of
        ResourceResolutionError k failures \<Rightarrow>
          res_bind (format_failures failures max_failures max_message_length) (\<lambda>details.
            Inr (key_str (fst item) @ ''=ResourceResolutionError['' @ details @ '']''))
      | e \<Rightarrow>
          res_bind (compact_message (error_str e) max_message_length) (\<lambda>m.
            Inr (key_str (fst item) @ ''='' @ error_type e @ ''('' @ m @ '')'')))"

definition format_summary ::
  "(resource_key, py_error) odict \<Rightarrow> int \<Rightarrow> int \<Rightarrow> int \<Rightarrow> arg_error + string" where
  "format_summary errs max_resources max_failures max_message_length =
     (if max_resources < 1 then Inl (ValueError ''max_resources must be positive'')
      else
        let visible = take (nat max_resources) errs
        in res_bind (res_map (\<lambda>it. render_resource_error it max_failures max_message_length) visible) (\<lambda>parts.
             let hidden = int (length errs) - int (length visible);
                 rendered = (if 0 < hidden then parts @ [''+'' @ int_str hidden @ '' more resource error(s)'']
                             else parts);
                 joined = str_join '', '' rendered
             in Inr (if joined = '''' then ''no resource details'' else joined)))"

definition mk_snapshot_build_error ::
  "(resource_key, py_error) odict \<Rightarrow> py_error snapshot option \<Rightarrow> build_error" where
  "mk_snapshot_build_error errs snap =
     \<lparr>be_kind = SnapshotBuildError, be_errors = errs, be_snapshot = snap\<rparr>"

definition mk_snapshot_consistency_error ::
  "skew_violation \<Rightarrow> py_error snapshot option \<Rightarrow> build_error" where
  "mk_snapshot_consistency_error v snap =
     \<lparr>be_kind = SnapshotConsistencyError v, be_errors = [], be_snapshot = snap\<rparr>"

text \<open>\<^verbatim>\<open>grouped.setdefault(key, []).append(violation)\<close> over the keys of every violation.\<close>

definition group_violations ::
  "acceptance_violation list \<Rightarrow> (resource_key, acceptance_violation list) odict" where
  "group_violations vs =
     foldl (\<lambda>grouped v. foldl (\<lambda>g k. od_set k ((case map_of g k of None \<Rightarrow> [] | Some xs \<Rightarrow> xs) @ [v]) g)
                              grouped (av_keys v)) [] vs"

definition mk_snapshot_acceptance_error ::
  "acceptance_violation list \<Rightarrow> py_error snapshot option \<Rightarrow> arg_error + build_error" where
  "mk_snapshot_acceptance_error vs snap =
     (if vs = [] then Inl (ValueError ''snapshot acceptance error requires at least one violation'')
      else res_bind (res_map (\<lambda>p. res_bind (mk_resource_acceptance_error (fst p) (snd p)) (\<lambda>e. Inr (fst p, e)))
                             (group_violations vs)) (\<lambda>errs.
             Inr \<lparr>be_kind = SnapshotAcceptanceError vs, be_errors = errs, be_snapshot = snap\<rparr>))"

fun reason_value :: "acceptance_reason \<Rightarrow> string" where
  "reason_value STALE = ''stale''"
| "reason_value TOO_OLD = ''too_old''"
| "reason_value INSUFFICIENT_AUTHORITY = ''insufficient_authority''"
| "reason_value REQUIREMENT_UNSATISFIED = ''requirement_unsatisfied''"

fun build_error_type :: "build_error_kind \<Rightarrow> string" where
  "build_error_type SnapshotBuildError = ''SnapshotBuildError''"
| "build_error_type (SnapshotConsistencyError v) = ''SnapshotConsistencyError''"
| "build_error_type (SnapshotAcceptanceError vs) = ''SnapshotAcceptanceError''"

definition build_error_str :: "build_error \<Rightarrow> string" where
  "build_error_str e =
     (case be_kind e of
        SnapshotBuildError \<Rightarrow>
          ''Snapshot build failed: ''
          @ (case format_summary (be_errors e) DEFAULT_RESOURCE_LIMIT DEFAULT_FAILURE_LIMIT DEFAULT_MESSAGE_LIMIT
             of Inr t \<Rightarrow> t | Inl _ \<Rightarrow> '''')
      | SnapshotConsistencyError v \<Rightarrow>
          ''Snapshot observation skew '' @ fmt_fixed 6 (kv_observation_skew_seconds v) @ ''s exceeds the allowed ''
          @ fmt_fixed 6 (kv_max_observation_skew_seconds v) @ ''s across '' @ nat_str (length (kv_keys v))
          @ '' resource(s); oldest='' @ key_str (kv_oldest_key v) @ ''@'' @ fmt_fixed 6 (kv_oldest_observed_at v)
          @ '', newest='' @ key_str (kv_newest_key v) @ ''@'' @ fmt_fixed 6 (kv_newest_observed_at v)
      | SnapshotAcceptanceError vs \<Rightarrow>
          ''Snapshot acceptance failed with '' @ nat_str (length vs) @ '' violation(s): ''
          @ str_join '', '' (sort (fromkeys (map (\<lambda>v. reason_value (av_reason v)) vs))))"

definition resource_error_to_dict :: "resource_key \<times> py_error \<Rightarrow> int \<Rightarrow> arg_error + pyval" where
  "resource_error_to_dict item limit =
     (case snd item of
        ResourceResolutionError k failures \<Rightarrow> resolution_error_to_dict k failures limit
      | e \<Rightarrow>
          res_bind (compact_message (error_str e) limit) (\<lambda>m.
            Inr (PyDict (schema_header @
              [(''resource'', PyStr (key_str (fst item))), (''error_type'', PyStr (error_type e)),
               (''message'', PyStr m), (''failures'', PyList [])]))))"

definition build_error_to_dict :: "build_error \<Rightarrow> int \<Rightarrow> arg_error + pyval" where
  "build_error_to_dict e limit =
     res_bind (res_map (\<lambda>it. resource_error_to_dict it limit) (be_errors e)) (\<lambda>details.
     res_bind (compact_message (build_error_str e) limit) (\<lambda>m.
       let partial_available = PyBool (be_snapshot e \<noteq> None)
       in Inr (PyDict (schema_header @
            [(''error_type'', PyStr (build_error_type (be_kind e))), (''message'', PyStr m),
             (''partial_snapshot_available'', partial_available),
             (''has_partial_snapshot'', partial_available), (''errors'', PyList details)]))))"

subsection \<open>Lemmas\<close>

lemma py_split_words: "w \<in> set (py_split s) \<Longrightarrow> w \<noteq> '''' \<and> (\<forall>c \<in> set w. \<not> is_space c)"
proof (induction s rule: py_split.induct)
  case (2 c s)
  show ?case
  proof (cases "is_space c")
    case True
    with 2 show ?thesis by simp
  next
    case False
    with "2.prems" have "w = c # takeWhile (\<lambda>d. \<not> is_space d) s
        \<or> w \<in> set (py_split (dropWhile (\<lambda>d. \<not> is_space d) s))" by simp
    with "2.IH"(2) [OF False] have "w = c # takeWhile (\<lambda>d. \<not> is_space d) s
        \<or> w \<noteq> '''' \<and> (\<forall>c \<in> set w. \<not> is_space c)" by blast
    moreover have "\<forall>d \<in> set (takeWhile (\<lambda>d. \<not> is_space d) s). \<not> is_space d"
      by (blast dest: set_takeWhileD)
    ultimately show ?thesis using False by auto
  qed
qed simp

lemma str_join_Nil_iff: "str_join sep xs = '''' \<longleftrightarrow> xs = [] \<or> xs = [''''] \<or> sep = '''' \<and> (\<forall>x \<in> set xs. x = '''')"
  by (cases xs) (auto simp: str_join_def)

lemma set_str_join: "set (str_join sep xs) \<subseteq> set sep \<union> \<Union> (set (map set xs))"
  by (cases xs) (auto simp: str_join_def)

text \<open>The text before truncation: no white space but single blanks, and never empty.\<close>

lemma joined_words_spaces:
  assumes "c \<in> set (str_join '' '' (py_split s))" and "is_space c"
  shows "c = CHR '' ''"
proof -
  from assms(1) have "c \<in> set '' '' \<or> (\<exists>w \<in> set (py_split s). c \<in> set w)"
    using set_str_join [of "'' ''" "py_split s"] by auto
  with assms(2) show ?thesis by (auto dest: py_split_words)
qed

lemma compact_message_total: "1 \<le> n \<Longrightarrow> \<exists>t. compact_message s n = Inr t"
  by (simp add: compact_message_def Let_def)

lemma failure_format_total: "1 \<le> n \<Longrightarrow> \<exists>t. failure_format f n = Inr t"
  using compact_message_total [of n "sf_message f"] by (auto simp: failure_format_def)

lemma res_map_total: "(\<And>x. x \<in> set xs \<Longrightarrow> \<exists>y. f x = Inr y) \<Longrightarrow> \<exists>ys. res_map f xs = Inr ys"
  by (induction xs) fastforce+

lemma format_failures_total: "1 \<le> m \<Longrightarrow> 1 \<le> n \<Longrightarrow> \<exists>t. format_failures fs m n = Inr t"
  using res_map_total [of "take (nat m) fs" "\<lambda>f. failure_format f n"] failure_format_total
  by (auto simp: format_failures_def Let_def)

text \<open>With the default limits rendering an exception never fails.\<close>

lemma default_failures_format:
  "format_failures fs DEFAULT_FAILURE_LIMIT DEFAULT_MESSAGE_LIMIT = Inr (default_failures fs)"
  using format_failures_total [of DEFAULT_FAILURE_LIMIT DEFAULT_MESSAGE_LIMIT fs]
  by (auto simp: default_failures_def DEFAULT_FAILURE_LIMIT_def DEFAULT_MESSAGE_LIMIT_def)

lemma render_resource_error_total: "1 \<le> m \<Longrightarrow> 1 \<le> n \<Longrightarrow> \<exists>t. render_resource_error it m n = Inr t"
proof (cases "\<exists>k fs. snd it = ResourceResolutionError k fs")
  case True
  then obtain k fs where "snd it = ResourceResolutionError k fs" by blast
  moreover assume "1 \<le> m" "1 \<le> n"
  ultimately show ?thesis using format_failures_total [of m n fs]
    by (auto simp: render_resource_error_def)
next
  case False
  moreover assume "1 \<le> n"
  ultimately show ?thesis using compact_message_total [of n "error_str (snd it)"]
    by (cases "snd it") (auto simp: render_resource_error_def)
qed

lemma resource_error_to_dict_total: "1 \<le> n \<Longrightarrow> \<exists>d. resource_error_to_dict it n = Inr d"
proof (cases "\<exists>k fs. snd it = ResourceResolutionError k fs")
  case True
  assume n: "1 \<le> n"
  from True obtain k fs where it: "snd it = ResourceResolutionError k fs" by blast
  have "\<exists>ys. res_map (\<lambda>f. failure_to_dict f n) fs = Inr ys"
  proof (rule res_map_total)
    fix f show "\<exists>y. failure_to_dict f n = Inr y"
      using compact_message_total [OF n, of "sf_message f"] by (auto simp: failure_to_dict_def)
  qed
  with it compact_message_total [OF n, of "error_str (ResourceResolutionError k fs)"]
  show ?thesis by (auto simp: resource_error_to_dict_def resolution_error_to_dict_def)
next
  case False
  assume n: "1 \<le> n"
  with False compact_message_total [OF n, of "error_str (snd it)"] show ?thesis
    by (cases "snd it") (auto simp: resource_error_to_dict_def)
qed

text \<open>Grouping of violations: one key, then all keys of one violation, then all violations.\<close>

definition grouped_at :: "(resource_key, acceptance_violation list) odict \<Rightarrow> resource_key \<Rightarrow> acceptance_violation list" where
  "grouped_at g k = (case map_of g k of None \<Rightarrow> [] | Some xs \<Rightarrow> xs)"

definition append_at ::
  "acceptance_violation \<Rightarrow> (resource_key, acceptance_violation list) odict \<Rightarrow> resource_key
    \<Rightarrow> (resource_key, acceptance_violation list) odict" where
  "append_at v g k = od_set k (grouped_at g k @ [v]) g"

lemma grouped_at_append_at: "grouped_at (append_at v g k) j = (if j = k then grouped_at g k @ [v] else grouped_at g j)"
  by (simp add: grouped_at_def append_at_def)

lemma grouped_at_keys: "distinct ks \<Longrightarrow>
    grouped_at (foldl (append_at v) g ks) j = grouped_at g j @ (if j \<in> set ks then [v] else [])"
  by (induction ks arbitrary: g) (auto simp: grouped_at_append_at)

lemma group_violations_step:
  "group_violations vs = foldl (\<lambda>g v. foldl (append_at v) g (av_keys v)) [] vs"
  unfolding group_violations_def append_at_def grouped_at_def by (rule refl)

lemma grouped_at_violations:
  assumes "\<forall>v \<in> set vs. distinct (av_keys v)"
  shows "grouped_at (group_violations vs) j = filter (\<lambda>v. j \<in> set (av_keys v)) vs"
proof -
  have "grouped_at (foldl (\<lambda>g v. foldl (append_at v) g (av_keys v)) g vs) j
      = grouped_at g j @ filter (\<lambda>v. j \<in> set (av_keys v)) vs" for g
    using assms by (induction vs arbitrary: g) (auto simp: grouped_at_keys)
  then show ?thesis by (simp add: group_violations_step grouped_at_def)
qed

lemma append_at_nonempty:
  "od_ok g \<and> (\<forall>p \<in> set g. snd p \<noteq> []) \<Longrightarrow> od_ok (append_at v g k) \<and> (\<forall>p \<in> set (append_at v g k). snd p \<noteq> [])"
  using set_od_set_subset [of k "grouped_at g k @ [v]" g] by (auto simp: append_at_def)

lemma group_violations_nonempty:
  "od_ok (group_violations vs) \<and> (\<forall>p \<in> set (group_violations vs). snd p \<noteq> [])"
proof -
  have keys: "od_ok (foldl (append_at v) g ks) \<and> (\<forall>p \<in> set (foldl (append_at v) g ks). snd p \<noteq> [])"
    if "od_ok g \<and> (\<forall>p \<in> set g. snd p \<noteq> [])" for v g ks
    using that
  proof (induction ks arbitrary: g)
    case (Cons k ks)
    from Cons.IH [OF append_at_nonempty [OF Cons.prems]] show ?case by simp
  qed simp
  have "od_ok (foldl (\<lambda>g v. foldl (append_at v) g (av_keys v)) g vs)
      \<and> (\<forall>p \<in> set (foldl (\<lambda>g v. foldl (append_at v) g (av_keys v)) g vs). snd p \<noteq> [])"
    if "od_ok g \<and> (\<forall>p \<in> set g. snd p \<noteq> [])" for g
    using that
  proof (induction vs arbitrary: g)
    case (Cons v vs)
    from Cons.IH [OF keys [OF Cons.prems]] show ?case by simp
  qed simp
  from this [of "[]"] show ?thesis by (simp add: group_violations_step)
qed

lemma map_of_tagged: "map_of (map (\<lambda>p. (fst p, f (fst p) (snd p))) g) k = map_option (f k) (map_of g k)"
  by (induction g) auto

subsection \<open>Properties\<close>

text \<open>
  A compacted message exists for every positive limit, respects it, is never empty and
  contains no white space but blanks, so it stays on one line; a limit below one is refused.
\<close>

lemma compact_message_bounded:
  "(n < 1 \<and> compact_message s n = Inl (ValueError ''max_length must be positive''))
   \<or> (\<exists>t. compact_message s n = Inr t \<and> t \<noteq> '''' \<and> int (length t) \<le> n
          \<and> {c \<in> set t. is_space c} \<subseteq> {CHR '' ''})"
proof (cases "n < 1")
  case False
  define full where "full = (let j = str_join '' '' (py_split s) in if j = '''' then ''<no message>'' else j)"
  have ne: "full \<noteq> ''''" by (simp add: full_def Let_def)
  have "is_space c \<Longrightarrow> c = CHR '' ''" if "c \<in> set ''<no message>''" for c
    using that by (auto simp: is_space_def)
  then have sp: "{c \<in> set full. is_space c} \<subseteq> {CHR '' ''}"
    using joined_words_spaces [of _ s] by (simp add: full_def Let_def) blast
  have dots: "\<not> is_space (CHR ''.'')" by (simp add: is_space_def)
  have res: "compact_message s n = Inr (if int (length full) \<le> n then full else if n \<le> 3 then take (nat n) full
      else take (nat (n - 3)) full @ ''...'')" (is "_ = Inr ?t")
    using False by (simp add: compact_message_def full_def Let_def)
  have "?t \<noteq> ''''" "int (length ?t) \<le> n" using ne False by auto
  moreover have "{c \<in> set ?t. is_space c} \<subseteq> {CHR '' ''}"
    using sp dots by (auto dest: in_set_takeD)
  ultimately show ?thesis using res by blast
qed (simp add: compact_message_def)

text \<open>
  An acceptance error reports each resource exactly when some violation names it, with
  exactly the violations that name it, in the order the evaluation found them; and it is
  never built from an empty list.
\<close>

lemma acceptance_error_groups:
  assumes "violations \<noteq> []" and "\<forall>v \<in> set violations. distinct (av_keys v)"
  shows "\<exists>e. mk_snapshot_acceptance_error violations snap = Inr e \<and> be_snapshot e = snap
    \<and> (\<forall>k. map_of (be_errors e) k =
           (let named = filter (\<lambda>v. k \<in> set (av_keys v)) violations
            in if named = [] then None else Some (ResourceAcceptanceError k named)))"
proof -
  let ?g = "group_violations violations"
  let ?build = "\<lambda>p. res_bind (mk_resource_acceptance_error (fst p) (snd p)) (\<lambda>e. Inr (fst p, e))"
  let ?errs = "map (\<lambda>p. (fst p, ResourceAcceptanceError (fst p) (snd p))) ?g"
  have "res_map ?build ?g = Inr ?errs"
    using group_violations_nonempty [of violations]
    by (intro res_map_Inr_id) (simp add: mk_resource_acceptance_error_def)
  then have built: "mk_snapshot_acceptance_error violations snap
      = Inr \<lparr>be_kind = SnapshotAcceptanceError violations, be_errors = ?errs, be_snapshot = snap\<rparr>"
    using assms(1) by (simp add: mk_snapshot_acceptance_error_def)
  have lookup: "map_of ?errs k = (let named = filter (\<lambda>v. k \<in> set (av_keys v)) violations
            in if named = [] then None else Some (ResourceAcceptanceError k named))" for k
  proof -
    have m: "map_of ?errs k = map_option (ResourceAcceptanceError k) (map_of ?g k)"
      by (rule map_of_tagged)
    show ?thesis
    proof (cases "map_of ?g k")
      case None
      then have "filter (\<lambda>v. k \<in> set (av_keys v)) violations = []"
        using grouped_at_violations [OF assms(2), of k] by (simp add: grouped_at_def)
      with None m show ?thesis by simp
    next
      case (Some vs)
      then have "filter (\<lambda>v. k \<in> set (av_keys v)) violations = vs"
        using grouped_at_violations [OF assms(2), of k] by (simp add: grouped_at_def)
      moreover have "vs \<noteq> []" using Some group_violations_nonempty [of violations] by (force dest: map_of_SomeD)
      ultimately show ?thesis using Some m by simp
    qed
  qed
  from built lookup show ?thesis by simp
qed

lemma acceptance_error_groups_witness:
  "\<exists>e. mk_snapshot_acceptance_error [blank_violation STALE [fixture_key ''a''] ''old''] None = Inr e
    \<and> map_of (be_errors e) (fixture_key ''a'')
        = Some (ResourceAcceptanceError (fixture_key ''a'') [blank_violation STALE [fixture_key ''a''] ''old''])
    \<and> map_of (be_errors e) (fixture_key ''b'') = None"
proof -
  let ?v = "blank_violation STALE [fixture_key ''a''] ''old''"
  have "\<exists>e. mk_snapshot_acceptance_error [?v] None = Inr e \<and> be_snapshot e = None
    \<and> (\<forall>k. map_of (be_errors e) k = (let named = filter (\<lambda>v. k \<in> set (av_keys v)) [?v]
            in if named = [] then None else Some (ResourceAcceptanceError k named)))"
    by (rule acceptance_error_groups) (simp_all add: blank_violation_def)
  then show ?thesis by (auto simp: blank_violation_def)
qed

text \<open>
  Serializing a build error never fails for a positive message limit and loses no
  resource: one record per failed resource, in order, and the flag tells whether a partial
  snapshot is attached.
\<close>

lemma build_error_to_dict_complete:
  assumes "1 \<le> limit"
  shows "\<exists>d details. build_error_to_dict e limit = Inr (PyDict d)
    \<and> map_of d ''errors'' = Some (PyList details)
    \<and> list_all2 (\<lambda>it r. resource_error_to_dict it limit = Inr r) (be_errors e) details
    \<and> map_of d ''partial_snapshot_available'' = Some (PyBool (be_snapshot e \<noteq> None))"
proof -
  from res_map_total [of "be_errors e" "\<lambda>it. resource_error_to_dict it limit"]
    resource_error_to_dict_total [OF assms]
  obtain ds where ds: "res_map (\<lambda>it. resource_error_to_dict it limit) (be_errors e) = Inr ds" by blast
  moreover obtain m where "compact_message (build_error_str e) limit = Inr m"
    using compact_message_total [OF assms] by blast
  ultimately show ?thesis
    by (simp add: build_error_to_dict_def Let_def schema_header_def res_map_Inr_conv [symmetric])
qed

lemma build_error_to_dict_complete_witness:
  "\<exists>d details. build_error_to_dict (mk_snapshot_build_error [(fixture_key ''a'', SourceTimeoutError ''late'')] None) 20
      = Inr (PyDict d) \<and> map_of d ''errors'' = Some (PyList details) \<and> length details = 1
      \<and> map_of d ''partial_snapshot_available'' = Some (PyBool False)"
  using build_error_to_dict_complete [of 20 "mk_snapshot_build_error [(fixture_key ''a'', SourceTimeoutError ''late'')] None"]
  by (auto simp: mk_snapshot_build_error_def dest: list_all2_lengthD)

end
