(* ===== verification/Isolation.thy ===== *)
theory Isolation
  imports Errors
begin

section \<open>Payload isolation (core/isolation.py, PayloadIsolator)\<close>

text \<open>
  Payloads and metadata are copied whenever they cross an ownership boundary. The copier is
  supplied by the application (\<^verbatim>\<open>copy.deepcopy\<close> by default): it is the parameter
  \<open>copier\<close>, which returns the copy or what it raises. \<open>faithful_copier\<close> is the documented
  behaviour of the default: it succeeds and the copy equals the original.
\<close>

type_synonym payload_copier = "pyval \<Rightarrow> py_error + pyval"

definition faithful_copier :: "payload_copier \<Rightarrow> bool" where
  "faithful_copier copier \<longleftrightarrow> (\<forall>v. copier v = Inr v)"

text \<open>The default copier: on the values of the model \<^verbatim>\<open>copy.deepcopy\<close> returns an equal value.\<close>

definition deepcopy_payload :: payload_copier where
  "deepcopy_payload v = Inr v"

definition iso_copy :: "payload_copier \<Rightarrow> pyval \<Rightarrow> string \<Rightarrow> py_error + pyval" where
  "iso_copy copier v ctxt =
     (case copier v of
        Inr w \<Rightarrow> Inr w
      | Inl e \<Rightarrow>
          (case e of
             PayloadIsolationError a b \<Rightarrow> Inl e
           | CancelledError \<Rightarrow> Inl e
           | _ \<Rightarrow> Inl (PayloadIsolationError ctxt (type_name v))))"

text \<open>\<open>md_type\<close> is the class name of the mapping given, which only the error message shows.\<close>

definition iso_copy_metadata ::
  "payload_copier \<Rightarrow> string \<Rightarrow> metadata \<Rightarrow> string \<Rightarrow> py_error + metadata" where
  "iso_copy_metadata copier md_type md ctxt =
     res_bind (iso_copy copier (PyDict md) ctxt) (\<lambda>copied.
       case copied of
         PyDict d \<Rightarrow> Inr (od_of d)
       | _ \<Rightarrow> Inl (PayloadIsolationError ctxt md_type))"

text \<open>The acquisition fields a clone may replace.\<close>

record clone_changes =
  cc_fetched_at :: "rat option"
  cc_age_seconds :: "rat option"
  cc_stale :: "bool option"
  cc_from_cache :: "bool option"
  cc_latency_ms :: "rat option"
  cc_metadata :: "metadata option"

definition no_changes :: clone_changes where
  "no_changes = \<lparr>cc_fetched_at = None, cc_age_seconds = None, cc_stale = None, cc_from_cache = None,
     cc_latency_ms = None, cc_metadata = None\<rparr>"

definition or_else :: "'a option \<Rightarrow> 'a \<Rightarrow> 'a" where
  "or_else x d = (case x of None \<Rightarrow> d | Some y \<Rightarrow> y)"

text \<open>\<^verbatim>\<open>dataclasses.replace\<close> runs the constructor of \<open>snapshot_value\<close> again.\<close>

definition clone_snapshot_value ::
  "payload_copier \<Rightarrow> snapshot_value \<Rightarrow> string \<Rightarrow> clone_changes \<Rightarrow> py_error + snapshot_value" where
  "clone_snapshot_value copier v ctxt ch =
     res_bind (iso_copy copier (sv_value v) (ctxt @ '' payload'')) (\<lambda>payload.
     res_bind (case cc_metadata ch of
                 None \<Rightarrow> iso_copy_metadata copier ''mappingproxy'' (sv_metadata v) (ctxt @ '' metadata'')
               | Some md \<Rightarrow> iso_copy_metadata copier ''dict'' md (ctxt @ '' metadata'')) (\<lambda>md.
       lift_arg (mk_snapshot_value (NFloat (Fin (sv_observed_at v)))
              (NFloat (Fin (or_else (cc_fetched_at ch) (sv_fetched_at v))))
              (v\<lparr>sv_value := payload, sv_metadata := md,
                 sv_age_seconds := or_else (cc_age_seconds ch) (sv_age_seconds v),
                 sv_stale := or_else (cc_stale ch) (sv_stale v),
                 sv_from_cache := or_else (cc_from_cache ch) (sv_from_cache v),
                 sv_latency_ms := or_else (cc_latency_ms ch) (sv_latency_ms v)\<rparr>))))"

text \<open>
  \<open>AsyncPayloadIsolator.map\<close>: the ordered results of copying every item, or the refusal of
  an isolator that is closing. Items are copied in order, as the inline mode does; worker
  threads give the same results, and only when several copies fail may they raise
  another one of those failures.
\<close>

definition isolator_map :: "string \<Rightarrow> bool \<Rightarrow> ('a \<Rightarrow> py_error + 'b) \<Rightarrow> 'a list \<Rightarrow> py_error + 'b list" where
  "isolator_map component closing f items =
     (if closing then Inl (PayloadCopySubsystemClosedError component) else res_map f items)"

subsection \<open>Lemmas\<close>

lemma or_else_simps [simp]: "or_else None d = d" "or_else (Some x) d = x"
  by (simp_all add: or_else_def)

lemma deepcopy_faithful [simp]: "faithful_copier deepcopy_payload"
  by (simp add: faithful_copier_def deepcopy_payload_def)

lemma iso_copy_faithful [simp]: "faithful_copier copier \<Longrightarrow> iso_copy copier v ctxt = Inr v"
  by (simp add: iso_copy_def faithful_copier_def)

lemma od_of_ok [simp]: "od_ok d \<Longrightarrow> od_of d = d"
proof -
  have "od_update acc d = acc @ d" if "od_ok (acc @ d)" for acc :: "('a \<times> 'b) list"
    using that
  proof (induction d arbitrary: acc)
    case (Cons p d)
    have "od_set (fst p) (snd p) acc = acc @ [p]"
      using Cons.prems by (induction acc) auto
    with Cons.IH [of "acc @ [p]"] Cons.prems show ?case by (simp add: od_update_def)
  qed (simp add: od_update_def)
  moreover assume "od_ok d"
  ultimately show ?thesis by (simp add: od_of_def)
qed

lemma iso_copy_metadata_faithful:
  "faithful_copier copier \<Longrightarrow> od_ok md \<Longrightarrow> iso_copy_metadata copier t md ctxt = Inr md"
  by (simp add: iso_copy_metadata_def)

lemma normalize_dependencies_id:
  "od_ok (acc @ ds) \<Longrightarrow> \<forall>d \<in> set ds. snd d \<noteq> '''' \<and> strip (snd d) = snd d
    \<Longrightarrow> normalize_dependencies acc ds = Inr (acc @ ds)"
proof (induction ds arbitrary: acc)
  case (Cons d ds)
  have "od_set (fst d) (snd d) acc = acc @ [d]"
    using Cons.prems(1) by (induction acc) auto
  with Cons.IH [of "acc @ [d]"] Cons.prems show ?case by simp
qed simp

lemma mk_snapshot_value_id:
  "sv_wf v \<Longrightarrow> mk_snapshot_value (NFloat (Fin (sv_observed_at v))) (NFloat (Fin (sv_fetched_at v))) v = Inr v"
  using normalize_dependencies_id [of "[]" "sv_dependency_versions v"]
  by (simp add: mk_snapshot_value_def sv_wf_def require_finite_timestamp_def)

text \<open>A clone without changes of a well-formed value is that value.\<close>

lemma clone_same:
  assumes "faithful_copier copier" "sv_wf v"
  shows "clone_snapshot_value copier v ctxt no_changes = Inr v"
proof -
  have "od_ok (sv_metadata v)" using assms(2) by (simp add: sv_wf_def)
  with assms show ?thesis
    by (simp add: clone_snapshot_value_def no_changes_def iso_copy_metadata_faithful mk_snapshot_value_id)
qed

text \<open>Whatever the copier does, a clone keeps the identity and the ordering of the value.\<close>

lemma clone_keeps:
  assumes "clone_snapshot_value copier v ctxt ch = Inr w"
  shows "sv_key w = sv_key v" "sv_observed_at w = sv_observed_at v" "sv_source w = sv_source v"
    "sv_authority_rank w = sv_authority_rank v" "sv_version w = strip (sv_version v)" "sv_wf w"
proof -
  from assms obtain p md where made:
    "mk_snapshot_value (NFloat (Fin (sv_observed_at v)))
              (NFloat (Fin (or_else (cc_fetched_at ch) (sv_fetched_at v))))
              (v\<lparr>sv_value := p, sv_metadata := md,
                 sv_age_seconds := or_else (cc_age_seconds ch) (sv_age_seconds v),
                 sv_stale := or_else (cc_stale ch) (sv_stale v),
                 sv_from_cache := or_else (cc_from_cache ch) (sv_from_cache v),
                 sv_latency_ms := or_else (cc_latency_ms ch) (sv_latency_ms v)\<rparr>) = Inr w"
    by (auto simp: clone_snapshot_value_def res_iff)
  from made show "sv_wf w" by (rule mk_snapshot_value_wf)
  from made show "sv_key w = sv_key v" "sv_observed_at w = sv_observed_at v" "sv_source w = sv_source v"
    "sv_authority_rank w = sv_authority_rank v" "sv_version w = strip (sv_version v)"
    by (auto simp: mk_snapshot_value_def res_iff Let_def require_finite_timestamp_def split: if_splits)
qed

lemma isolator_map_Inr_iff [res_iff]:
  "isolator_map nm closing f xs = Inr ys \<longleftrightarrow> \<not> closing \<and> res_map f xs = Inr ys"
  by (simp add: isolator_map_def)

end
