(* ===== verification/Memory_Cache.thy ===== *)
theory Memory_Cache
  imports Isolation
begin

section \<open>The in-memory cache (cache/memory.py, AsyncMemoryCache)\<close>

text \<open>
  The cache keeps its entries in an ordered dictionary, least recently used first, and
  counters. A section the code runs under its lock is one definition here; the copies it
  makes outside the lock are explicit, and what other tasks do to the cache while a write
  prepares its copies is the parameter \<open>env\<close> of the write loop.
\<close>

record memory_cache =
  mc_max_entries :: "int option"
  mc_entries :: "(resource_key, snapshot_value) odict"
  mc_hits :: nat
  mc_misses :: nat
  mc_fresh_hits :: nat
  mc_stale_hits :: nat
  mc_sets :: nat
  mc_invalidations :: nat
  mc_evictions :: nat
  mc_expirations :: nat
  mc_copies_closing :: bool

definition mk_memory_cache :: "int option \<Rightarrow> pyval \<Rightarrow> pyval \<Rightarrow> arg_error + memory_cache" where
  "mk_memory_cache max_entries run_in_thread max_copy_concurrency =
     (if (case max_entries of None \<Rightarrow> False | Some m \<Rightarrow> m < 1)
      then Inl (ValueError ''max_entries must be at least 1 or None'')
      else if run_in_thread \<noteq> PyNone \<and> as_bool run_in_thread = None
      then Inl (TypeError ''run_payload_copies_in_thread must be a boolean or None'')
      else res_bind (require (as_int max_copy_concurrency) (TypeError ''max_copy_concurrency must be an integer'')) (\<lambda>c.
        if c < 1 then Inl (ValueError ''max_copy_concurrency must be at least 1'')
        else Inr \<lparr>mc_max_entries = max_entries, mc_entries = [], mc_hits = 0, mc_misses = 0,
                  mc_fresh_hits = 0, mc_stale_hits = 0, mc_sets = 0, mc_invalidations = 0,
                  mc_evictions = 0, mc_expirations = 0, mc_copies_closing = False\<rparr>))"

definition aclose_payload_copies :: "memory_cache \<Rightarrow> memory_cache" where
  "aclose_payload_copies c = c\<lparr>mc_copies_closing := True\<rparr>"

subsection \<open>Dependency versions\<close>

text \<open>
  A value is current when every dependency it recorded is cached at the recorded version and
  is itself current; \<open>visiting\<close> is the path walked so far.
\<close>

function dependencies_current ::
  "(resource_key, snapshot_value) odict \<Rightarrow> snapshot_value \<Rightarrow> resource_key set \<Rightarrow> bool" where
  "dependencies_current entries v visiting =
     (if sv_dependency_versions v = [] then True
      else if sv_key v \<in> visiting then False
      else list_all (\<lambda>d.
             case map_of entries (fst d) of
               None \<Rightarrow> False
             | Some dep \<Rightarrow>
                 if sv_version dep \<noteq> snd d then False
                 else dependencies_current entries dep (insert (sv_key v) visiting))
           (sv_dependency_versions v))"
  by pat_completeness auto
termination
proof (relation "measure (\<lambda>(entries, v, visiting).
    (if sv_key v \<in> sv_key ` snd ` set entries then 0 else 1)
    + card (sv_key ` snd ` set entries - visiting))")
  fix entries :: "(resource_key, snapshot_value) odict" and v dep :: snapshot_value
    and visiting :: "resource_key set" and d :: "resource_key \<times> string"
  assume fresh: "sv_key v \<notin> visiting" and dep: "map_of entries (fst d) = Some dep"
  let ?K = "sv_key ` snd ` set entries"
  have "sv_key dep \<in> ?K" using dep by (force dest: map_of_SomeD)
  moreover have "card (?K - insert (sv_key v) visiting) \<le> card (?K - visiting)"
    by (rule card_mono) auto
  moreover have "card (?K - insert (sv_key v) visiting) < card (?K - visiting)" if "sv_key v \<in> ?K"
    using that fresh by (intro psubset_card_mono) auto
  ultimately show "((entries, dep, insert (sv_key v) visiting), entries, v, visiting)
      \<in> measure (\<lambda>(entries, v, visiting).
          (if sv_key v \<in> sv_key ` snd ` set entries then 0 else 1)
          + card (sv_key ` snd ` set entries - visiting))"
    by auto
qed simp

declare dependencies_current.simps [simp del]

subsection \<open>Reading\<close>

definition miss_lookup :: "rat option \<Rightarrow> cache_lookup" where
  "miss_lookup age = \<lparr>cl_value = None, cl_fresh = False, cl_usable_stale = False, cl_age_seconds = age\<rparr>"

text \<open>One iteration of the locked loop of \<open>get_many\<close>.\<close>

definition lookup_locked :: "rat \<Rightarrow> freshness_policy \<Rightarrow> resource_key \<Rightarrow> memory_cache \<Rightarrow> cache_lookup \<times> memory_cache" where
  "lookup_locked now policy k c =
     (case map_of (mc_entries c) k of
        None \<Rightarrow> (miss_lookup None, c\<lparr>mc_misses := mc_misses c + 1\<rparr>)
      | Some v \<Rightarrow>
          let age = max 0 (now - sv_observed_at v)
          in if \<not> dependencies_current (mc_entries c) v {}
             then (miss_lookup (Some age),
                   c\<lparr>mc_entries := od_pop k (mc_entries c), mc_misses := mc_misses c + 1,
                     mc_invalidations := mc_invalidations c + 1\<rparr>)
             else if flt (fp_max_stale_seconds policy) (Fin age)
             then (miss_lookup (Some age),
                   c\<lparr>mc_entries := od_pop k (mc_entries c), mc_misses := mc_misses c + 1,
                     mc_expirations := mc_expirations c + 1\<rparr>)
             else
               let fresh = fle (Fin age) (fp_ttl_seconds policy)
               in (\<lparr>cl_value = Some v, cl_fresh = fresh, cl_usable_stale = True, cl_age_seconds = Some age\<rparr>,
                   c\<lparr>mc_entries := od_move_to_end k (mc_entries c), mc_hits := mc_hits c + 1,
                     mc_fresh_hits := mc_fresh_hits c + (if fresh then 1 else 0),
                     mc_stale_hits := mc_stale_hits c + (if fresh then 0 else 1)\<rparr>))"

fun get_many_locked ::
  "rat \<Rightarrow> (resource_key \<Rightarrow> freshness_policy) \<Rightarrow> resource_key list \<Rightarrow> memory_cache
    \<Rightarrow> (resource_key, cache_lookup) odict \<times> memory_cache" where
  "get_many_locked now policy [] c = ([], c)"
| "get_many_locked now policy (k # ks) c =
     (let (l, c') = lookup_locked now (policy k) k c; (ls, c'') = get_many_locked now policy ks c'
      in ((k, l) # ls, c''))"

definition clone_lookup :: "payload_copier \<Rightarrow> resource_key \<times> cache_lookup \<Rightarrow> py_error + (resource_key \<times> cache_lookup)" where
  "clone_lookup copier item =
     (case cl_value (snd item) of
        None \<Rightarrow> Inr item
      | Some v \<Rightarrow>
          res_bind (clone_snapshot_value copier v (''cache read for '' @ key_str (sv_key v)) no_changes) (\<lambda>w.
            Inr (fst item, (snd item)\<lparr>cl_value := Some w\<rparr>)))"

definition get_many ::
  "payload_copier \<Rightarrow> resource_key list \<Rightarrow> rat \<Rightarrow> (resource_key, freshness_policy) odict \<Rightarrow> memory_cache
    \<Rightarrow> (py_error + (resource_key, cache_lookup) odict) \<times> memory_cache" where
  "get_many copier keys now policies c =
     (let unique = fromkeys keys;
          missing = filter (\<lambda>k. map_of policies k = None) unique
      in if missing \<noteq> []
         then (Inl (KeyError (''missing freshness policies for: '' @ str_join '', '' (map key_str missing))), c)
         else
           let (captured, c') = get_many_locked now (\<lambda>k. the (map_of policies k)) unique c
           in (isolator_map ''cache'' (mc_copies_closing c') (clone_lookup copier) captured, c'))"

definition get_one ::
  "payload_copier \<Rightarrow> resource_key \<Rightarrow> rat \<Rightarrow> freshness_policy \<Rightarrow> memory_cache
    \<Rightarrow> (py_error + cache_lookup) \<times> memory_cache" where
  "get_one copier k now policy c =
     (let (r, c') = get_many copier [k] now [(k, policy)] c
      in (res_bind r (\<lambda>ls. require (map_of ls k) (KeyError (key_str k))), c'))"

subsection \<open>Writing\<close>

definition candidate_precedes :: "snapshot_value \<Rightarrow> snapshot_value \<Rightarrow> bool" where
  "candidate_precedes current candidate =
     (if sv_authority_rank candidate \<noteq> sv_authority_rank current
      then sv_authority_rank current < sv_authority_rank candidate
      else sv_observed_at current \<le> sv_observed_at candidate)"

definition select_candidates :: "snapshot_value list \<Rightarrow> (resource_key, snapshot_value) odict" where
  "select_candidates vs =
     foldl (\<lambda>selected v.
       case map_of selected (sv_key v) of
         None \<Rightarrow> od_set (sv_key v) v selected
       | Some current \<Rightarrow> if candidate_precedes current v then od_set (sv_key v) v selected else selected) [] vs"

definition write_status :: "snapshot_value option \<Rightarrow> snapshot_value \<Rightarrow> bool \<Rightarrow> bool \<Rightarrow> cache_write_status" where
  "write_status previous v force replace_equal =
     (case previous of
        None \<Rightarrow> STORED
      | Some p \<Rightarrow>
          if force then STORED
          else if sv_authority_rank v < sv_authority_rank p then IGNORED_LOWER_AUTHORITY
          else if sv_authority_rank p < sv_authority_rank v then STORED
          else if sv_observed_at v < sv_observed_at p then IGNORED_OLDER
          else if sv_observed_at v = sv_observed_at p \<and> \<not> replace_equal then IGNORED_DUPLICATE
          else STORED)"

definition enforce_limit :: "memory_cache \<Rightarrow> memory_cache" where
  "enforce_limit c =
     (case mc_max_entries c of
        None \<Rightarrow> c
      | Some m \<Rightarrow>
          let excess = length (mc_entries c) - nat m
          in c\<lparr>mc_entries := drop excess (mc_entries c), mc_evictions := mc_evictions c + excess\<rparr>)"

text \<open>
  Committing one candidate: the captured result holds the status, the value now in the
  cache and the value before. The code asserts that an ignored candidate has a previous
  value, which \<open>write_status\<close> ensures (\<open>write_status_ignored\<close>).
\<close>

definition commit_one ::
  "(resource_key, cache_write_status) odict \<Rightarrow> (resource_key, snapshot_value) odict \<Rightarrow> snapshot_value \<Rightarrow> memory_cache
    \<Rightarrow> cache_write_result \<times> memory_cache" where
  "commit_one statuses prepared candidate c =
     (let k = sv_key candidate; previous = map_of (mc_entries c) k; status = the (map_of statuses k)
      in if status = STORED
         then let stored = the (map_of prepared k)
              in (\<lparr>cw_status = status, cw_value = stored, cw_previous = previous\<rparr>,
                  c\<lparr>mc_entries := od_move_to_end k (od_set k stored (mc_entries c)), mc_sets := mc_sets c + 1\<rparr>)
         else (\<lparr>cw_status = status, cw_value = the previous, cw_previous = previous\<rparr>, c))"

fun commit_all ::
  "(resource_key, cache_write_status) odict \<Rightarrow> (resource_key, snapshot_value) odict \<Rightarrow> snapshot_value list \<Rightarrow> memory_cache
    \<Rightarrow> (resource_key, cache_write_result) odict \<times> memory_cache" where
  "commit_all statuses prepared [] c = ([], c)"
| "commit_all statuses prepared (v # vs) c =
     (let (r, c') = commit_one statuses prepared v c; (rs, c'') = commit_all statuses prepared vs c'
      in ((sv_key v, r) # rs, c''))"

definition batch_statuses ::
  "snapshot_value list \<Rightarrow> bool \<Rightarrow> bool \<Rightarrow> memory_cache \<Rightarrow> (resource_key, cache_write_status) odict" where
  "batch_statuses cands force replace_equal c =
     map (\<lambda>v. (sv_key v, write_status (map_of (mc_entries c) (sv_key v)) v force replace_equal)) cands"

definition unprepared ::
  "snapshot_value list \<Rightarrow> bool \<Rightarrow> bool \<Rightarrow> (resource_key, snapshot_value) odict \<Rightarrow> memory_cache \<Rightarrow> snapshot_value list" where
  "unprepared cands force replace_equal prepared c =
     filter (\<lambda>v. write_status (map_of (mc_entries c) (sv_key v)) v force replace_equal = STORED
                 \<and> map_of prepared (sv_key v) = None) cands"

definition prepare_candidate :: "payload_copier \<Rightarrow> snapshot_value \<Rightarrow> py_error + (resource_key \<times> snapshot_value)" where
  "prepare_candidate copier v =
     res_bind (clone_snapshot_value copier v (''cache storage for '' @ key_str (sv_key v)) no_changes) (\<lambda>w.
       Inr (sv_key v, w))"

text \<open>
  The loop of \<open>set_many_if_newer\<close>: a locked round either commits the whole batch or names
  the candidates still to copy; \<open>env n\<close> is what happened to the cache between round \<open>n\<close>
  and the next one. Every round that does not commit prepares a candidate that was not
  prepared before, so the loop ends whatever \<open>env\<close> does.
\<close>

function write_rounds ::
  "payload_copier \<Rightarrow> (nat \<Rightarrow> memory_cache \<Rightarrow> memory_cache) \<Rightarrow> bool \<Rightarrow> bool \<Rightarrow> snapshot_value list \<Rightarrow> nat
    \<Rightarrow> (resource_key, snapshot_value) odict \<Rightarrow> memory_cache
    \<Rightarrow> (py_error + (resource_key, cache_write_result) odict) \<times> memory_cache" where
  "write_rounds copier env force replace_equal cands n prepared c =
     (let missing = unprepared cands force replace_equal prepared c
      in if missing = []
         then let (captured, c') = commit_all (batch_statuses cands force replace_equal c) prepared cands c
              in (Inr captured, enforce_limit c')
         else case isolator_map ''cache'' (mc_copies_closing c) (prepare_candidate copier) missing of
                Inl e \<Rightarrow> (Inl e, env n c)
              | Inr copies \<Rightarrow>
                  write_rounds copier env force replace_equal cands (Suc n) (od_update prepared copies) (env n c))"
  by pat_completeness auto

lemma prepare_candidates_keys:
  "isolator_map nm closing (prepare_candidate copier) vs = Inr copies \<Longrightarrow> map fst copies = map sv_key vs"
  by (auto simp: res_iff prepare_candidate_def elim!: res_map_fst)

lemma map_of_od_update_None: "map_of (od_update d xs) k = None \<longleftrightarrow> map_of d k = None \<and> k \<notin> fst ` set xs"
  by (auto simp: map_of_od_update map_add_None map_of_eq_None_iff)

termination write_rounds
proof (relation "measure (\<lambda>(copier, env, force, replace_equal, cands, n, prepared, c).
    length (filter (\<lambda>v. map_of prepared (sv_key v) = None) cands))")
  fix copier env force replace_equal cands n prepared c missing copies
  assume missing: "missing = unprepared cands force replace_equal prepared c" and ne: "missing \<noteq> []"
    and copies: "isolator_map ''cache'' (mc_copies_closing c) (prepare_candidate copier) missing = Inr copies"
  from ne obtain v where v: "v \<in> set missing" by (cases missing) auto
  have "sv_key v \<in> fst ` set copies"
    using v prepare_candidates_keys [OF copies] by (metis image_eqI list.set_map)
  then have "length (filter (\<lambda>v. map_of (od_update prepared copies) (sv_key v) = None) cands)
      < length (filter (\<lambda>v. map_of prepared (sv_key v) = None) cands)"
    using v missing by (intro length_filter_drop [of v]) (auto simp: unprepared_def map_of_od_update_None)
  then show "((copier, env, force, replace_equal, cands, Suc n, od_update prepared copies, env n c),
      copier, env, force, replace_equal, cands, n, prepared, c)
      \<in> measure (\<lambda>(copier, env, force, replace_equal, cands, n, prepared, c).
          length (filter (\<lambda>v. map_of prepared (sv_key v) = None) cands))"
    by simp
qed simp

declare write_rounds.simps [simp del]

definition clone_result ::
  "payload_copier \<Rightarrow> resource_key \<times> cache_write_result \<Rightarrow> py_error + (resource_key \<times> cache_write_result)" where
  "clone_result copier item =
     res_bind (clone_snapshot_value copier (cw_value (snd item))
                (''cache write result for '' @ key_str (sv_key (cw_value (snd item)))) no_changes) (\<lambda>v.
     res_bind (case cw_previous (snd item) of
                 None \<Rightarrow> Inr None
               | Some p \<Rightarrow>
                   res_bind (clone_snapshot_value copier p (''cache previous value for '' @ key_str (sv_key p)) no_changes)
                     (\<lambda>q. Inr (Some q))) (\<lambda>prev.
     res_bind (lift_arg (mk_cache_write_result (cw_status (snd item)) v prev)) (\<lambda>r. Inr (fst item, r))))"

definition set_many_if_newer ::
  "payload_copier \<Rightarrow> (nat \<Rightarrow> memory_cache \<Rightarrow> memory_cache) \<Rightarrow> snapshot_value list \<Rightarrow> bool \<Rightarrow> bool \<Rightarrow> memory_cache
    \<Rightarrow> (py_error + (resource_key, cache_write_result) odict) \<times> memory_cache" where
  "set_many_if_newer copier env vs force replace_equal c =
     (let candidates = select_candidates vs
      in if candidates = [] then (Inr [], c)
         else
           let (r, c') = write_rounds copier env force replace_equal (map snd candidates) 0 [] c
           in (res_bind r (\<lambda>captured.
                 isolator_map ''cache'' (mc_copies_closing c') (clone_result copier) captured), c'))"

definition set_if_newer ::
  "payload_copier \<Rightarrow> (nat \<Rightarrow> memory_cache \<Rightarrow> memory_cache) \<Rightarrow> snapshot_value \<Rightarrow> bool \<Rightarrow> bool \<Rightarrow> memory_cache
    \<Rightarrow> (py_error + cache_write_result) \<times> memory_cache" where
  "set_if_newer copier env v force replace_equal c =
     (let (r, c') = set_many_if_newer copier env [v] force replace_equal c
      in (res_bind r (\<lambda>rs. require (map_of rs (sv_key v)) (KeyError (key_str (sv_key v)))), c'))"

definition set_one ::
  "payload_copier \<Rightarrow> (nat \<Rightarrow> memory_cache \<Rightarrow> memory_cache) \<Rightarrow> snapshot_value \<Rightarrow> memory_cache
    \<Rightarrow> (py_error + unit) \<times> memory_cache" where
  "set_one copier env v c =
     (let (r, c') = set_if_newer copier env v False False c in (res_bind r (\<lambda>_. Inr ()), c'))"

definition set_many ::
  "payload_copier \<Rightarrow> (nat \<Rightarrow> memory_cache \<Rightarrow> memory_cache) \<Rightarrow> snapshot_value list \<Rightarrow> memory_cache
    \<Rightarrow> (py_error + unit) \<times> memory_cache" where
  "set_many copier env vs c =
     (let (r, c') = set_many_if_newer copier env vs False False c in (res_bind r (\<lambda>_. Inr ()), c'))"

subsection \<open>Removing\<close>

definition invalidate_one :: "resource_key \<Rightarrow> memory_cache \<Rightarrow> memory_cache" where
  "invalidate_one k c =
     (case map_of (mc_entries c) k of
        None \<Rightarrow> c
      | Some v \<Rightarrow> c\<lparr>mc_entries := od_pop k (mc_entries c), mc_invalidations := mc_invalidations c + 1\<rparr>)"

definition invalidate_many :: "resource_key list \<Rightarrow> memory_cache \<Rightarrow> memory_cache" where
  "invalidate_many keys c = foldl (\<lambda>acc k. invalidate_one k acc) c (fromkeys keys)"

definition invalidate :: "resource_key \<Rightarrow> memory_cache \<Rightarrow> memory_cache" where
  "invalidate k c = invalidate_many [k] c"

definition pop_all :: "resource_key list \<Rightarrow> memory_cache \<Rightarrow> memory_cache" where
  "pop_all ks c = c\<lparr>mc_entries := foldl (\<lambda>d k. od_pop k d) (mc_entries c) ks\<rparr>"

definition invalidate_matching :: "(resource_key \<Rightarrow> bool) \<Rightarrow> memory_cache \<Rightarrow> resource_key list \<times> memory_cache" where
  "invalidate_matching predicate c =
     (let removed = filter predicate (od_keys (mc_entries c))
      in (removed, (pop_all removed c)\<lparr>mc_invalidations := mc_invalidations c + length removed\<rparr>))"

definition invalidate_namespace ::
  "string \<Rightarrow> string option \<Rightarrow> string option \<Rightarrow> memory_cache \<Rightarrow> resource_key list \<times> memory_cache" where
  "invalidate_namespace ns nm subject c =
     invalidate_matching (\<lambda>k. rk_namespace k = ns
       \<and> (case nm of None \<Rightarrow> True | Some n \<Rightarrow> rk_name k = n)
       \<and> (case subject of None \<Rightarrow> True | Some s \<Rightarrow> rk_subject k = s)) c"

text \<open>The policy provider is supplied by the caller and may raise; nothing is removed then.\<close>

fun expired_keys ::
  "rat \<Rightarrow> (resource_key \<Rightarrow> py_error + freshness_policy) \<Rightarrow> (resource_key, snapshot_value) odict
    \<Rightarrow> py_error + resource_key list" where
  "expired_keys now resolve [] = Inr []"
| "expired_keys now resolve ((k, v) # rest) =
     res_bind (resolve k) (\<lambda>policy.
     res_bind (expired_keys now resolve rest) (\<lambda>ks.
       Inr (if flt (fp_max_stale_seconds policy) (Fin (max 0 (now - sv_observed_at v))) then k # ks else ks)))"

definition prune ::
  "rat \<Rightarrow> (resource_key \<Rightarrow> py_error + freshness_policy) \<Rightarrow> memory_cache
    \<Rightarrow> (py_error + resource_key list) \<times> memory_cache" where
  "prune now resolve c =
     (case expired_keys now resolve (mc_entries c) of
        Inl e \<Rightarrow> (Inl e, c)
      | Inr expired \<Rightarrow>
          (Inr expired, (pop_all expired c)\<lparr>mc_expirations := mc_expirations c + length expired\<rparr>))"

definition cache_clear :: "memory_cache \<Rightarrow> memory_cache" where
  "cache_clear c = c\<lparr>mc_entries := [], mc_invalidations := mc_invalidations c + length (mc_entries c)\<rparr>"

definition cache_size :: "memory_cache \<Rightarrow> nat" where
  "cache_size c = length (mc_entries c)"

record cache_stats =
  cs_size :: nat
  cs_max_entries :: "int option"
  cs_hits :: nat
  cs_misses :: nat
  cs_fresh_hits :: nat
  cs_stale_hits :: nat
  cs_sets :: nat
  cs_invalidations :: nat
  cs_evictions :: nat
  cs_expirations :: nat

definition cache_stats_of :: "memory_cache \<Rightarrow> cache_stats" where
  "cache_stats_of c = \<lparr>cs_size = length (mc_entries c), cs_max_entries = mc_max_entries c,
     cs_hits = mc_hits c, cs_misses = mc_misses c, cs_fresh_hits = mc_fresh_hits c,
     cs_stale_hits = mc_stale_hits c, cs_sets = mc_sets c, cs_invalidations = mc_invalidations c,
     cs_evictions = mc_evictions c, cs_expirations = mc_expirations c\<rparr>"

subsection \<open>Specification notions\<close>

text \<open>
  A value is consistent with the cache when its recorded dependencies are, in finitely many
  levels, cached at their recorded versions.
\<close>

inductive deps_consistent :: "(resource_key, snapshot_value) odict \<Rightarrow> snapshot_value \<Rightarrow> bool"
  for entries where
  deps_consistentI: "(\<And>k ver. (k, ver) \<in> set (sv_dependency_versions v) \<Longrightarrow>
      \<exists>d. map_of entries k = Some d \<and> sv_version d = ver \<and> deps_consistent entries d)
    \<Longrightarrow> deps_consistent entries v"

text \<open>The order writes respect: authority first, then the observation time.\<close>

definition write_rank :: "snapshot_value \<Rightarrow> int \<times> rat" where
  "write_rank v = (sv_authority_rank v, sv_observed_at v)"

definition cache_inv :: "memory_cache \<Rightarrow> bool" where
  "cache_inv c \<longleftrightarrow> od_ok (mc_entries c)
     \<and> (\<forall>p \<in> set (mc_entries c). sv_key (snd p) = fst p \<and> sv_wf (snd p))
     \<and> (case mc_max_entries c of None \<Rightarrow> True | Some m \<Rightarrow> 1 \<le> m \<and> int (length (mc_entries c)) \<le> m)
     \<and> mc_hits c = mc_fresh_hits c + mc_stale_hits c"

subsection \<open>Dependency check\<close>

definition dep_edge :: "(resource_key, snapshot_value) odict \<Rightarrow> snapshot_value \<Rightarrow> snapshot_value \<Rightarrow> bool" where
  "dep_edge entries d v \<longleftrightarrow> (\<exists>k ver. (k, ver) \<in> set (sv_dependency_versions v) \<and> map_of entries k = Some d)"

lemma deps_consistent_acc: "deps_consistent entries v \<Longrightarrow> Wellfounded.accp (dep_edge entries) v"
  by (induction rule: deps_consistent.induct) (force intro: accp.accI simp: dep_edge_def)

lemma accp_irrefl: "Wellfounded.accp r x \<Longrightarrow> \<not> r\<^sup>+\<^sup>+ x x"
proof (induction rule: accp.induct)
  case (accI x)
  show ?case
  proof
    assume "r\<^sup>+\<^sup>+ x x"
    then obtain y where "r\<^sup>*\<^sup>* x y" "r y x" by (metis rtranclp.rtrancl_refl tranclp.cases tranclp_into_rtranclp)
    then have "r\<^sup>+\<^sup>+ y y" by (simp add: rtranclp_into_tranclp2)
    with accI \<open>r y x\<close> show False by blast
  qed
qed

lemma dependencies_current_sound:
  "dependencies_current entries v visiting \<Longrightarrow> deps_consistent entries v"
proof (induction entries v visiting rule: dependencies_current.induct)
  case (1 entries v visiting)
  show ?case
  proof (rule deps_consistentI)
    fix k ver assume kv: "(k, ver) \<in> set (sv_dependency_versions v)"
    then have ne: "sv_dependency_versions v \<noteq> []" by auto
    with "1.prems" have vis: "sv_key v \<notin> visiting"
      by (auto simp: dependencies_current.simps [of entries v] split: if_splits)
    from ne vis "1.prems" have "\<forall>d \<in> set (sv_dependency_versions v). case map_of entries (fst d) of None \<Rightarrow> False
        | Some dep \<Rightarrow> if sv_version dep \<noteq> snd d then False
            else dependencies_current entries dep (insert (sv_key v) visiting)"
      by (simp add: dependencies_current.simps [of entries v] list_all_iff)
    from bspec [OF this kv] obtain d where d: "map_of entries k = Some d" "sv_version d = ver"
        "dependencies_current entries d (insert (sv_key v) visiting)"
      by (auto split: option.splits if_splits)
    with "1.IH" [OF ne vis kv, of d] show "\<exists>d. map_of entries k = Some d \<and> sv_version d = ver \<and> deps_consistent entries d"
      by simp
  qed
qed

text \<open>
  The path check never rejects a consistent value: a key met twice on a path would be the
  same entry, hence a cycle.
\<close>

lemma dependencies_current_complete:
  assumes "deps_consistent entries v"
    and "\<forall>p \<in> set entries. sv_key (snd p) = fst p"
    and "map_of entries (sv_key v) = Some v"
    and "\<forall>k \<in> visiting. \<exists>w. map_of entries k = Some w \<and> (dep_edge entries)\<^sup>+\<^sup>+ v w"
  shows "dependencies_current entries v visiting"
  using assms
proof (induction arbitrary: visiting rule: deps_consistent.induct)
  case (deps_consistentI v)
  have "deps_consistent entries v"
    by (rule deps_consistent.deps_consistentI) (blast dest: deps_consistentI(1))
  then have irrefl: "\<not> (dep_edge entries)\<^sup>+\<^sup>+ v v" by (blast dest: deps_consistent_acc accp_irrefl)
  with deps_consistentI.prems have vis: "sv_key v \<notin> visiting" by force
  have step: "\<exists>d. map_of entries k = Some d \<and> sv_version d = ver
        \<and> dependencies_current entries d (insert (sv_key v) visiting)"
    if kv: "(k, ver) \<in> set (sv_dependency_versions v)" for k ver
  proof -
    from deps_consistentI(1) [OF kv] obtain d where d: "map_of entries k = Some d" "sv_version d = ver"
      and IH: "\<And>vis. \<forall>p \<in> set entries. sv_key (snd p) = fst p \<Longrightarrow> map_of entries (sv_key d) = Some d
        \<Longrightarrow> \<forall>k \<in> vis. \<exists>w. map_of entries k = Some w \<and> (dep_edge entries)\<^sup>+\<^sup>+ d w
        \<Longrightarrow> dependencies_current entries d vis" by blast
    have edge: "dep_edge entries d v" using kv d(1) by (auto simp: dep_edge_def)
    have "sv_key d = k" using d(1) deps_consistentI.prems(1) by (force dest: map_of_SomeD)
    with d(1) have self: "map_of entries (sv_key d) = Some d" by simp
    have "\<forall>k \<in> insert (sv_key v) visiting. \<exists>w. map_of entries k = Some w \<and> (dep_edge entries)\<^sup>+\<^sup>+ d w"
      using deps_consistentI.prems edge by (blast intro: tranclp.r_into_trancl tranclp_into_tranclp2)
    from IH [OF deps_consistentI.prems(1) self this] d show ?thesis by blast
  qed
  show ?case
    using vis step by (subst dependencies_current.simps) (force simp: list_all_iff)
qed

lemma cache_inv_entry: "cache_inv c \<Longrightarrow> map_of (mc_entries c) k = Some v \<Longrightarrow> sv_key v = k \<and> sv_wf v"
  by (force simp: cache_inv_def dest: map_of_SomeD)

lemma dependencies_current_iff:
  assumes "cache_inv c" "map_of (mc_entries c) k = Some v"
  shows "dependencies_current (mc_entries c) v {} \<longleftrightarrow> deps_consistent (mc_entries c) v"
proof
  show "dependencies_current (mc_entries c) v {} \<Longrightarrow> deps_consistent (mc_entries c) v"
    by (rule dependencies_current_sound)
  assume "deps_consistent (mc_entries c) v"
  moreover have "\<forall>p \<in> set (mc_entries c). sv_key (snd p) = fst p" using assms(1) by (simp add: cache_inv_def)
  moreover have "map_of (mc_entries c) (sv_key v) = Some v" using assms cache_inv_entry by metis
  ultimately show "dependencies_current (mc_entries c) v {}"
    by (intro dependencies_current_complete) auto
qed

subsection \<open>The invariant\<close>

text \<open>What holds also in the middle of a commit, before the limit is enforced.\<close>

definition entries_ok :: "(resource_key, snapshot_value) odict \<Rightarrow> bool" where
  "entries_ok es \<longleftrightarrow> od_ok es \<and> (\<forall>p \<in> set es. sv_key (snd p) = fst p \<and> sv_wf (snd p))"

lemma cache_inv_entries_ok: "cache_inv c \<Longrightarrow> entries_ok (mc_entries c)"
  by (simp add: cache_inv_def entries_ok_def)

lemma entries_ok_pop [simp]: "entries_ok es \<Longrightarrow> entries_ok (od_pop k es)"
  by (simp add: entries_ok_def)

lemma entries_ok_move [simp]: "entries_ok es \<Longrightarrow> entries_ok (od_move_to_end k es)"
  by (simp add: entries_ok_def set_od_move_to_end)

lemma entries_ok_set [simp]: "entries_ok es \<Longrightarrow> sv_key v = k \<Longrightarrow> sv_wf v \<Longrightarrow> entries_ok (od_set k v es)"
  using set_od_set_subset [of k v es] by (auto simp: entries_ok_def)

lemma entries_ok_drop [simp]: "entries_ok es \<Longrightarrow> entries_ok (drop n es)"
  by (auto simp: entries_ok_def drop_map [symmetric] dest: in_set_dropD)

text \<open>An operation that shrinks the entries and keeps the hit counters balanced keeps the invariant.\<close>

lemma cache_inv_shrink:
  assumes "cache_inv c" "entries_ok (mc_entries c')" "length (mc_entries c') \<le> length (mc_entries c)"
    "mc_max_entries c' = mc_max_entries c" "mc_hits c' = mc_fresh_hits c' + mc_stale_hits c'"
  shows "cache_inv c'"
  using assms by (auto simp: cache_inv_def entries_ok_def split: option.splits)

lemma mk_memory_cache_inv: "mk_memory_cache m r k = Inr c \<Longrightarrow> cache_inv c \<and> mc_entries c = [] \<and> \<not> mc_copies_closing c"
  by (auto simp: mk_memory_cache_def res_iff cache_inv_def split: if_splits option.splits)

lemma lookup_locked_cases:
  obtains
    (absent) "map_of (mc_entries c) k = None" "lookup_locked now pol k c = (miss_lookup None, c\<lparr>mc_misses := mc_misses c + 1\<rparr>)"
  | (outdated) v where "map_of (mc_entries c) k = Some v" "\<not> dependencies_current (mc_entries c) v {}"
      "lookup_locked now pol k c = (miss_lookup (Some (max 0 (now - sv_observed_at v))),
         c\<lparr>mc_entries := od_pop k (mc_entries c), mc_misses := mc_misses c + 1, mc_invalidations := mc_invalidations c + 1\<rparr>)"
  | (expired) v where "map_of (mc_entries c) k = Some v" "dependencies_current (mc_entries c) v {}"
      "flt (fp_max_stale_seconds pol) (Fin (max 0 (now - sv_observed_at v)))"
      "lookup_locked now pol k c = (miss_lookup (Some (max 0 (now - sv_observed_at v))),
         c\<lparr>mc_entries := od_pop k (mc_entries c), mc_misses := mc_misses c + 1, mc_expirations := mc_expirations c + 1\<rparr>)"
  | (hit) v fresh where "map_of (mc_entries c) k = Some v" "dependencies_current (mc_entries c) v {}"
      "\<not> flt (fp_max_stale_seconds pol) (Fin (max 0 (now - sv_observed_at v)))"
      "fresh = fle (Fin (max 0 (now - sv_observed_at v))) (fp_ttl_seconds pol)"
      "lookup_locked now pol k c =
         (\<lparr>cl_value = Some v, cl_fresh = fresh, cl_usable_stale = True, cl_age_seconds = Some (max 0 (now - sv_observed_at v))\<rparr>,
          c\<lparr>mc_entries := od_move_to_end k (mc_entries c), mc_hits := mc_hits c + 1,
            mc_fresh_hits := mc_fresh_hits c + (if fresh then 1 else 0),
            mc_stale_hits := mc_stale_hits c + (if fresh then 0 else 1)\<rparr>)"
proof (cases "map_of (mc_entries c) k")
  case None
  then show ?thesis by (intro absent) (simp_all add: lookup_locked_def)
next
  case (Some v)
  let ?age = "max 0 (now - sv_observed_at v)"
  show ?thesis
  proof (cases "dependencies_current (mc_entries c) v {}")
    case False
    with Some show ?thesis by (intro outdated) (simp_all add: lookup_locked_def Let_def)
  next
    case True
    show ?thesis
    proof (cases "flt (fp_max_stale_seconds pol) (Fin ?age)")
      case True
      with Some \<open>dependencies_current _ _ _\<close> show ?thesis
        by (intro expired) (simp_all add: lookup_locked_def Let_def)
    next
      case False
      with Some True show ?thesis by (intro hit) (simp_all add: lookup_locked_def Let_def)
    qed
  qed
qed

lemma lookup_locked_inv: "cache_inv c \<Longrightarrow> cache_inv (snd (lookup_locked now pol k c))"
proof -
  assume inv: "cache_inv c"
  then have ok: "entries_ok (mc_entries c)" "od_ok (mc_entries c)" "mc_hits c = mc_fresh_hits c + mc_stale_hits c"
    by (simp_all add: cache_inv_def entries_ok_def)
  show ?thesis
    by (cases rule: lookup_locked_cases [of c k now pol])
      (auto intro!: cache_inv_shrink [OF inv] simp: ok length_od_pop_le length_od_move_to_end)
qed

lemma lookup_locked_sub:
  "map_of (mc_entries (snd (lookup_locked now pol k c))) j = Some v \<Longrightarrow> map_of (mc_entries c) j = Some v"
  by (cases rule: lookup_locked_cases [of c k now pol]) (auto split: if_splits)

lemma lookup_locked_frame:
  "mc_max_entries (snd (lookup_locked now pol k c)) = mc_max_entries c"
  "mc_copies_closing (snd (lookup_locked now pol k c)) = mc_copies_closing c"
  "mc_sets (snd (lookup_locked now pol k c)) = mc_sets c"
  "mc_evictions (snd (lookup_locked now pol k c)) = mc_evictions c"
  "mc_hits (snd (lookup_locked now pol k c)) + mc_misses (snd (lookup_locked now pol k c)) = Suc (mc_hits c + mc_misses c)"
  by (cases rule: lookup_locked_cases [of c k now pol]; simp)+

lemma get_many_locked_inv: "cache_inv c \<Longrightarrow> cache_inv (snd (get_many_locked now pol ks c))"
  by (induction ks arbitrary: c) (auto simp: split_beta Let_def lookup_locked_inv)

lemma get_many_locked_sub:
  "map_of (mc_entries (snd (get_many_locked now pol ks c))) j = Some v \<Longrightarrow> map_of (mc_entries c) j = Some v"
  by (induction ks arbitrary: c) (auto simp: split_beta Let_def dest!: lookup_locked_sub)

lemma get_many_locked_frame:
  "mc_copies_closing (snd (get_many_locked now pol ks c)) = mc_copies_closing c"
  "mc_hits (snd (get_many_locked now pol ks c)) + mc_misses (snd (get_many_locked now pol ks c))
     = length ks + (mc_hits c + mc_misses c)"
  "od_keys (fst (get_many_locked now pol ks c)) = ks"
  by (induction ks arbitrary: c) (simp_all add: split_beta Let_def lookup_locked_frame)

lemma get_many_inv: "cache_inv c \<Longrightarrow> cache_inv (snd (get_many copier ks now pols c))"
  by (simp add: get_many_def Let_def split_beta get_many_locked_inv)

subsection \<open>Writes\<close>

lemma write_status_ignored: "write_status previous v force replace_equal \<noteq> STORED \<Longrightarrow> previous \<noteq> None"
  by (cases previous) (auto simp: write_status_def)

text \<open>An unforced write is stored only if it does not rank below the previous value, and ignored only if it does not rank above it.\<close>

lemma write_status_rank:
  assumes "previous = Some p"
  shows "write_status previous v False replace_equal = STORED \<Longrightarrow> write_rank p \<le> write_rank v"
    and "write_status previous v False replace_equal \<noteq> STORED \<Longrightarrow> write_rank v \<le> write_rank p"
  using assms by (auto simp: write_status_def write_rank_def less_eq_prod_def split: if_splits)

lemma candidate_precedes_rank: "candidate_precedes a b \<longleftrightarrow> write_rank a \<le> write_rank b"
  by (auto simp: candidate_precedes_def write_rank_def less_eq_prod_def)

definition select_step :: "(resource_key, snapshot_value) odict \<Rightarrow> snapshot_value \<Rightarrow> (resource_key, snapshot_value) odict" where
  "select_step selected v =
     (case map_of selected (sv_key v) of
        None \<Rightarrow> od_set (sv_key v) v selected
      | Some current \<Rightarrow> if candidate_precedes current v then od_set (sv_key v) v selected else selected)"

lemma select_candidates_foldl: "select_candidates vs = foldl select_step [] vs"
  unfolding select_candidates_def select_step_def ..

text \<open>After any prefix, the selection holds per key a value of the prefix with the highest rank.\<close>

definition selection_of :: "snapshot_value list \<Rightarrow> (resource_key, snapshot_value) odict \<Rightarrow> bool" where
  "selection_of vs sel \<longleftrightarrow> od_ok sel
     \<and> (\<forall>p \<in> set sel. sv_key (snd p) = fst p \<and> snd p \<in> set vs)
     \<and> (\<forall>v \<in> set vs. \<exists>w. map_of sel (sv_key v) = Some w \<and> write_rank v \<le> write_rank w)"

lemma select_step_selection: "selection_of vs sel \<Longrightarrow> selection_of (vs @ [v]) (select_step sel v)"
proof -
  assume sel: "selection_of vs sel"
  show ?thesis
  proof (cases "\<exists>w. map_of sel (sv_key v) = Some w \<and> \<not> candidate_precedes w v")
    case True
    then obtain w where w: "map_of sel (sv_key v) = Some w" "\<not> write_rank w \<le> write_rank v"
      by (auto simp: candidate_precedes_rank)
    then have "select_step sel v = sel" by (simp add: select_step_def candidate_precedes_rank)
    with w sel show ?thesis by (auto simp: selection_of_def)
  next
    case False
    then have step: "select_step sel v = od_set (sv_key v) v sel"
      by (auto simp: select_step_def split: option.splits)
    have "\<forall>p \<in> set (od_set (sv_key v) v sel). sv_key (snd p) = fst p \<and> snd p \<in> set (vs @ [v])"
      using sel set_od_set_subset [of "sv_key v" v sel] by (auto simp: selection_of_def)
    moreover have "\<exists>w. map_of (od_set (sv_key v) v sel) (sv_key u) = Some w \<and> write_rank u \<le> write_rank w"
      if u: "u \<in> set (vs @ [v])" for u
    proof (cases "sv_key u = sv_key v")
      case True
      show ?thesis
      proof (cases "u = v")
        case False
        with u sel obtain w where "map_of sel (sv_key u) = Some w" "write_rank u \<le> write_rank w"
          by (auto simp: selection_of_def)
        with True \<open>\<nexists>w. _\<close> show ?thesis by (auto simp: candidate_precedes_rank dest: order_trans)
      qed simp
    qed (use u sel in \<open>auto simp: selection_of_def\<close>)
    ultimately show ?thesis using sel by (simp add: selection_of_def step)
  qed
qed

lemma select_candidates_selection: "selection_of vs (select_candidates vs)"
proof -
  have "selection_of (us @ vs) (foldl select_step sel vs)" if "selection_of us sel" for us sel
    using that
  proof (induction vs arbitrary: us sel)
    case (Cons v vs)
    from Cons.IH [OF select_step_selection [OF Cons.prems]] show ?case by simp
  qed simp
  moreover have "selection_of [] []" by (simp add: selection_of_def)
  ultimately show ?thesis using select_candidates_foldl by (metis append_Nil)
qed

lemma select_candidates_keys:
  "map sv_key (map snd (select_candidates vs)) = od_keys (select_candidates vs)"
  using select_candidates_selection [of vs] by (auto simp: selection_of_def)

lemma select_candidates_distinct: "distinct (map sv_key (map snd (select_candidates vs)))"
  using select_candidates_selection [of vs] by (simp add: select_candidates_keys selection_of_def del: map_map)

lemma select_candidates_Nil_iff: "select_candidates vs = [] \<longleftrightarrow> vs = []"
  using select_candidates_selection [of vs] by (cases vs) (auto simp: selection_of_def select_candidates_def)

subsection \<open>Committing a batch\<close>

lemma commit_one_entries:
  "mc_entries (snd (commit_one st pr v c)) =
     (if the (map_of st (sv_key v)) = STORED
      then od_move_to_end (sv_key v) (od_set (sv_key v) (the (map_of pr (sv_key v))) (mc_entries c))
      else mc_entries c)"
  by (simp add: commit_one_def Let_def)

lemma commit_one_frame:
  "mc_max_entries (snd (commit_one st pr v c)) = mc_max_entries c"
  "mc_copies_closing (snd (commit_one st pr v c)) = mc_copies_closing c"
  "mc_hits (snd (commit_one st pr v c)) = mc_hits c"
  "mc_fresh_hits (snd (commit_one st pr v c)) = mc_fresh_hits c"
  "mc_stale_hits (snd (commit_one st pr v c)) = mc_stale_hits c"
  by (simp_all add: commit_one_def Let_def)

lemma commit_all_frame:
  "mc_max_entries (snd (commit_all st pr vs c)) = mc_max_entries c"
  "mc_copies_closing (snd (commit_all st pr vs c)) = mc_copies_closing c"
  "mc_hits (snd (commit_all st pr vs c)) = mc_hits c"
  "mc_fresh_hits (snd (commit_all st pr vs c)) = mc_fresh_hits c"
  "mc_stale_hits (snd (commit_all st pr vs c)) = mc_stale_hits c"
  by (induction vs arbitrary: c) (simp_all add: split_beta Let_def commit_one_frame)

lemma commit_all_map:
  "distinct (map sv_key vs) \<Longrightarrow>
   map_of (mc_entries (snd (commit_all st pr vs c))) k =
     (if k \<in> sv_key ` set vs \<and> the (map_of st k) = STORED then Some (the (map_of pr k)) else map_of (mc_entries c) k)"
proof (induction vs arbitrary: c)
  case (Cons v vs)
  then have "sv_key v \<notin> sv_key ` set vs" by auto
  with Cons.IH [of "snd (commit_one st pr v c)"] Cons.prems show ?case
    by (auto simp: split_beta Let_def commit_one_entries)
qed simp

lemma commit_all_results:
  "distinct (map sv_key vs) \<Longrightarrow>
   fst (commit_all st pr vs c) = map (\<lambda>v. (sv_key v, fst (commit_one st pr v c))) vs"
proof (induction vs arbitrary: c)
  case (Cons v vs)
  have "map_of (mc_entries (snd (commit_one st pr v c))) (sv_key w) = map_of (mc_entries c) (sv_key w)"
    if "w \<in> set vs" for w
    using that Cons.prems by (auto simp: commit_one_entries image_iff)
  then have "fst (commit_one st pr w (snd (commit_one st pr v c))) = fst (commit_one st pr w c)"
    if "w \<in> set vs" for w
    using that by (simp add: commit_one_def Let_def)
  with Cons.IH [of "snd (commit_one st pr v c)"] Cons.prems show ?case
    by (simp add: split_beta Let_def)
qed simp

lemma commit_all_entries_ok:
  assumes "entries_ok (mc_entries c)"
    and "\<forall>v \<in> set vs. the (map_of st (sv_key v)) = STORED \<longrightarrow>
           sv_key (the (map_of pr (sv_key v))) = sv_key v \<and> sv_wf (the (map_of pr (sv_key v)))"
  shows "entries_ok (mc_entries (snd (commit_all st pr vs c)))"
  using assms by (induction vs arbitrary: c) (simp_all add: split_beta Let_def commit_one_entries)

lemma enforce_limit_frame [simp]:
  "mc_max_entries (enforce_limit c) = mc_max_entries c" "mc_hits (enforce_limit c) = mc_hits c"
  "mc_fresh_hits (enforce_limit c) = mc_fresh_hits c" "mc_stale_hits (enforce_limit c) = mc_stale_hits c"
  "mc_copies_closing (enforce_limit c) = mc_copies_closing c"
  by (simp_all add: enforce_limit_def Let_def split: option.splits)

lemma enforce_limit_inv:
  assumes "entries_ok (mc_entries c)" "mc_hits c = mc_fresh_hits c + mc_stale_hits c"
    "case mc_max_entries c of None \<Rightarrow> True | Some m \<Rightarrow> 1 \<le> m"
  shows "cache_inv (enforce_limit c)"
proof (cases "mc_max_entries c")
  case None
  with assms show ?thesis by (simp add: cache_inv_def enforce_limit_def entries_ok_def)
next
  case (Some m)
  let ?d = "drop (length (mc_entries c) - nat m) (mc_entries c)"
  have "entries_ok ?d" using assms(1) by simp
  moreover have "int (length ?d) \<le> m" using assms(3) Some by simp
  ultimately show ?thesis using assms Some
    by (simp add: cache_inv_def enforce_limit_def Let_def entries_ok_def)
qed

subsection \<open>The write loop is atomic\<close>

text \<open>\<open>interfere env n j c\<close>: the cache after the interference of \<open>j\<close> rounds, from round \<open>n\<close> on.\<close>

fun interfere :: "(nat \<Rightarrow> memory_cache \<Rightarrow> memory_cache) \<Rightarrow> nat \<Rightarrow> nat \<Rightarrow> memory_cache \<Rightarrow> memory_cache" where
  "interfere env n 0 c = c"
| "interfere env n (Suc j) c = interfere env (Suc n) j (env n c)"

lemma interfere_inv: "(\<And>i d. P d \<Longrightarrow> P (env i d)) \<Longrightarrow> P c \<Longrightarrow> P (interfere env n j c)"
  by (induction j arbitrary: n c) auto

text \<open>The copies prepared so far are clones of candidates.\<close>

definition prepared_ok :: "payload_copier \<Rightarrow> snapshot_value list \<Rightarrow> (resource_key, snapshot_value) odict \<Rightarrow> bool" where
  "prepared_ok copier cands prepared \<longleftrightarrow>
     (\<forall>k w. map_of prepared k = Some w \<longrightarrow>
        (\<exists>v \<in> set cands. sv_key v = k
           \<and> clone_snapshot_value copier v (''cache storage for '' @ key_str k) no_changes = Inr w))"

lemma prepared_ok_update:
  assumes "prepared_ok copier cands prepared" and "set missing \<subseteq> set cands"
    and "isolator_map nm closing (prepare_candidate copier) missing = Inr copies"
  shows "prepared_ok copier cands (od_update prepared copies)"
proof -
  have "\<exists>v \<in> set cands. sv_key v = k
      \<and> clone_snapshot_value copier v (''cache storage for '' @ key_str k) no_changes = Inr w"
    if "(k, w) \<in> set copies" for k w
  proof -
    from assms(3) that obtain v where "v \<in> set missing" and made: "prepare_candidate copier v = Inr (k, w)"
      by (auto simp: res_iff dest: res_map_in)
    with assms(2) have "v \<in> set cands" by blast
    with made show ?thesis by (auto simp: prepare_candidate_def res_iff)
  qed
  moreover have "map_of prepared k = Some w \<or> (k, w) \<in> set copies"
    if "map_of (od_update prepared copies) k = Some w" for k w
    using that by (auto simp: map_of_od_update map_add_Some_iff dest: map_of_SomeD)
  ultimately show ?thesis using assms(1) unfolding prepared_ok_def by blast
qed

abbreviation commit_batch ::
  "bool \<Rightarrow> bool \<Rightarrow> snapshot_value list \<Rightarrow> (resource_key, snapshot_value) odict \<Rightarrow> memory_cache
    \<Rightarrow> (resource_key, cache_write_result) odict \<times> memory_cache" where
  "commit_batch force replace_equal cands prepared c \<equiv>
     commit_all (batch_statuses cands force replace_equal c) prepared cands c"

text \<open>The three outcomes of a round.\<close>

lemma write_rounds_commit:
  "unprepared cands force replace_equal prepared c = [] \<Longrightarrow>
   write_rounds copier env force replace_equal cands n prepared c
     = (Inr (fst (commit_batch force replace_equal cands prepared c)),
        enforce_limit (snd (commit_batch force replace_equal cands prepared c)))"
  by (subst write_rounds.simps) (simp add: split_beta Let_def)

lemma write_rounds_fail:
  "unprepared cands force replace_equal prepared c \<noteq> [] \<Longrightarrow>
   isolator_map ''cache'' (mc_copies_closing c) (prepare_candidate copier)
     (unprepared cands force replace_equal prepared c) = Inl e \<Longrightarrow>
   write_rounds copier env force replace_equal cands n prepared c = (Inl e, env n c)"
  by (subst write_rounds.simps) (simp add: Let_def)

lemma write_rounds_next:
  "unprepared cands force replace_equal prepared c \<noteq> [] \<Longrightarrow>
   isolator_map ''cache'' (mc_copies_closing c) (prepare_candidate copier)
     (unprepared cands force replace_equal prepared c) = Inr copies \<Longrightarrow>
   write_rounds copier env force replace_equal cands n prepared c
     = write_rounds copier env force replace_equal cands (Suc n) (od_update prepared copies) (env n c)"
  by (subst write_rounds.simps) (simp add: Let_def)

lemma write_rounds_atomic:
  assumes "prepared_ok copier cands prepared"
  shows "\<exists>j pr. j \<le> length (filter (\<lambda>v. map_of prepared (sv_key v) = None) cands)
    \<and> prepared_ok copier cands pr
    \<and> (let m = interfere env n j c
       in (\<exists>e. write_rounds copier env force replace_equal cands n prepared c = (Inl e, m))
        \<or> unprepared cands force replace_equal pr m = []
          \<and> write_rounds copier env force replace_equal cands n prepared c
            = (Inr (fst (commit_batch force replace_equal cands pr m)),
               enforce_limit (snd (commit_batch force replace_equal cands pr m))))"
  using assms
proof (induction copier env force replace_equal cands n prepared c rule: write_rounds.induct)
  case (1 copier env force replace_equal cands n prepared c)
  let ?missing = "unprepared cands force replace_equal prepared c"
  let ?left = "\<lambda>pr. length (filter (\<lambda>v. map_of pr (sv_key v) = None) cands)"
  show ?case
  proof (cases "?missing = []")
    case True
    with "1.prems" show ?thesis
      by (intro exI [of _ 0] exI [of _ prepared]) (simp add: write_rounds_commit)
  next
    case False
    then obtain v where v: "v \<in> set ?missing" by (cases ?missing) auto
    then have v': "v \<in> set cands" "map_of prepared (sv_key v) = None" by (simp_all add: unprepared_def)
    then have pos: "1 \<le> ?left prepared" by (auto simp: Suc_le_eq filter_empty_conv)
    show ?thesis
    proof (cases "isolator_map ''cache'' (mc_copies_closing c) (prepare_candidate copier) ?missing")
      case (Inl e)
      with False "1.prems" pos show ?thesis
        by (intro exI [of _ 1] exI [of _ prepared]) (simp add: write_rounds_fail [OF False Inl])
    next
      case (Inr copies)
      have ok: "prepared_ok copier cands (od_update prepared copies)"
        using "1.prems" Inr by (intro prepared_ok_update) (auto simp: unprepared_def)
      have fewer: "?left (od_update prepared copies) < ?left prepared"
      proof (rule length_filter_drop [of v])
        have "sv_key v \<in> fst ` set copies"
          using v prepare_candidates_keys [OF Inr] by (metis image_eqI list.set_map)
        then show "\<not> map_of (od_update prepared copies) (sv_key v) = None"
          by (simp add: map_of_od_update_None)
      qed (use v' in \<open>auto simp: map_of_od_update_None\<close>)
      have step: "write_rounds copier env force replace_equal cands n prepared c
          = write_rounds copier env force replace_equal cands (Suc n) (od_update prepared copies) (env n c)"
        using False Inr by (rule write_rounds_next)
      from "1.IH" [OF refl False Inr ok] obtain j pr where
        "j \<le> ?left (od_update prepared copies)" "prepared_ok copier cands pr"
        "let m = interfere env (Suc n) j (env n c)
         in (\<exists>e. write_rounds copier env force replace_equal cands (Suc n) (od_update prepared copies) (env n c) = (Inl e, m))
          \<or> unprepared cands force replace_equal pr m = []
            \<and> write_rounds copier env force replace_equal cands (Suc n) (od_update prepared copies) (env n c)
              = (Inr (fst (commit_batch force replace_equal cands pr m)),
                 enforce_limit (snd (commit_batch force replace_equal cands pr m)))" by blast
      then show ?thesis using fewer unfolding step
        by (intro exI [of _ "Suc j"] exI [of _ pr]) simp
    qed
  qed
qed

subsection \<open>The write as one atomic step of a map\<close>

text \<open>
  What \<open>set_many_if_newer\<close> promises, on the map from keys to values: per key the best value
  of the batch replaces the cached one exactly when \<open>write_status\<close> says so.
\<close>

definition spec_write ::
  "snapshot_value list \<Rightarrow> bool \<Rightarrow> bool \<Rightarrow> (resource_key \<rightharpoonup> snapshot_value) \<Rightarrow> (resource_key \<rightharpoonup> snapshot_value)" where
  "spec_write vs force replace_equal m k =
     (case map_of (select_candidates vs) k of
        None \<Rightarrow> m k
      | Some v \<Rightarrow> if write_status (m k) v force replace_equal = STORED then Some v else m k)"

definition spec_write_result ::
  "snapshot_value list \<Rightarrow> bool \<Rightarrow> bool \<Rightarrow> (resource_key \<rightharpoonup> snapshot_value) \<Rightarrow> resource_key \<Rightarrow> cache_write_result option" where
  "spec_write_result vs force replace_equal m k =
     map_option (\<lambda>v. \<lparr>cw_status = write_status (m k) v force replace_equal,
                      cw_value = the (spec_write vs force replace_equal m k), cw_previous = m k\<rparr>)
       (map_of (select_candidates vs) k)"

lemma selected_iff:
  "map_of (select_candidates vs) k = Some v \<longleftrightarrow> v \<in> set (map snd (select_candidates vs)) \<and> sv_key v = k"
proof -
  let ?sel = "select_candidates vs"
  have ok: "od_ok ?sel" and key: "\<forall>p \<in> set ?sel. sv_key (snd p) = fst p"
    using select_candidates_selection [of vs] by (auto simp: selection_of_def)
  show ?thesis
  proof
    assume "map_of ?sel k = Some v"
    then have "(k, v) \<in> set ?sel" by (rule map_of_SomeD)
    with key show "v \<in> set (map snd ?sel) \<and> sv_key v = k" by force
  next
    assume "v \<in> set (map snd ?sel) \<and> sv_key v = k"
    then obtain j where "(j, v) \<in> set ?sel" "sv_key v = k" by auto
    moreover from this key have "j = k" by force
    ultimately show "map_of ?sel k = Some v" using ok by simp
  qed
qed

lemma selected_in: "map_of (select_candidates vs) k = Some v \<Longrightarrow> v \<in> set vs \<and> sv_key v = k"
  using select_candidates_selection [of vs] by (force simp: selection_of_def dest: map_of_SomeD)

lemma batch_statuses_at:
  assumes "distinct (map sv_key cands)" "v \<in> set cands"
  shows "map_of (batch_statuses cands force replace_equal c) (sv_key v)
    = Some (write_status (map_of (mc_entries c) (sv_key v)) v force replace_equal)"
proof -
  have "distinct (map fst (batch_statuses cands force replace_equal c))"
    using assms(1) by (simp add: batch_statuses_def comp_def)
  moreover have "(sv_key v, write_status (map_of (mc_entries c) (sv_key v)) v force replace_equal)
      \<in> set (batch_statuses cands force replace_equal c)"
    using assms(2) by (force simp: batch_statuses_def)
  ultimately show ?thesis by simp
qed

lemma prepared_at:
  assumes "unprepared cands force replace_equal pr m = []" "prepared_ok copier cands pr" "v \<in> set cands"
    and "distinct (map sv_key cands)"
    and "write_status (map_of (mc_entries m) (sv_key v)) v force replace_equal = STORED"
  obtains w where "map_of pr (sv_key v) = Some w"
    and "clone_snapshot_value copier v (''cache storage for '' @ key_str (sv_key v)) no_changes = Inr w"
proof -
  from assms(1,3,5) obtain w where w: "map_of pr (sv_key v) = Some w"
    by (auto simp: unprepared_def filter_empty_conv)
  with assms(2) obtain u where "u \<in> set cands" "sv_key u = sv_key v"
    and cl: "clone_snapshot_value copier u (''cache storage for '' @ key_str (sv_key v)) no_changes = Inr w"
    unfolding prepared_ok_def by blast
  with assms(3,4) have "u = v" by (simp add: distinct_map inj_on_def)
  with w cl that show thesis by blast
qed

text \<open>Whatever the copier does, a committed batch keeps the entries well formed.\<close>

lemma commit_batch_entries_ok:
  assumes "cache_inv m" "unprepared cands force replace_equal pr m = []" "prepared_ok copier cands pr"
    "distinct (map sv_key cands)"
  shows "entries_ok (mc_entries (snd (commit_batch force replace_equal cands pr m)))"
proof -
  have "sv_key (the (map_of pr (sv_key v))) = sv_key v \<and> sv_wf (the (map_of pr (sv_key v)))"
    if v: "v \<in> set cands" and st: "the (map_of (batch_statuses cands force replace_equal m) (sv_key v)) = STORED" for v
  proof -
    from st have "write_status (map_of (mc_entries m) (sv_key v)) v force replace_equal = STORED"
      using batch_statuses_at [OF assms(4) v] by simp
    from prepared_at [OF assms(2,3) v assms(4) this] obtain w where
      "map_of pr (sv_key v) = Some w" "sv_key w = sv_key v" "sv_wf w" using clone_keeps by metis
    then show ?thesis by simp
  qed
  then show ?thesis using assms(1) by (intro commit_all_entries_ok) (auto intro: cache_inv_entries_ok)
qed

lemma commit_batch_inv:
  assumes "cache_inv m" "unprepared cands force replace_equal pr m = []" "prepared_ok copier cands pr"
    "distinct (map sv_key cands)"
  shows "cache_inv (enforce_limit (snd (commit_batch force replace_equal cands pr m)))"
proof (rule enforce_limit_inv)
  show "entries_ok (mc_entries (snd (commit_batch force replace_equal cands pr m)))"
    by (rule commit_batch_entries_ok [OF assms])
qed (use assms(1) in \<open>auto simp: commit_all_frame cache_inv_def split: option.splits\<close>)

lemma write_rounds_inv:
  assumes "\<And>i d. cache_inv d \<Longrightarrow> cache_inv (env i d)" "cache_inv c" "distinct (map sv_key cands)"
  shows "cache_inv (snd (write_rounds copier env force replace_equal cands n [] c))"
proof -
  have "prepared_ok copier cands []" by (simp add: prepared_ok_def)
  from write_rounds_atomic [OF this, of env n c force replace_equal] obtain j pr where
    pr: "prepared_ok copier cands pr" and
    res: "let m = interfere env n j c
       in (\<exists>e. write_rounds copier env force replace_equal cands n [] c = (Inl e, m))
        \<or> unprepared cands force replace_equal pr m = []
          \<and> write_rounds copier env force replace_equal cands n [] c
            = (Inr (fst (commit_batch force replace_equal cands pr m)),
               enforce_limit (snd (commit_batch force replace_equal cands pr m)))" by blast
  have "cache_inv (interfere env n j c)" using interfere_inv [of cache_inv] assms by blast
  with res pr assms(3) show ?thesis by (auto simp: Let_def commit_batch_inv)
qed

lemma set_many_if_newer_inv:
  assumes "\<And>i d. cache_inv d \<Longrightarrow> cache_inv (env i d)" "cache_inv c"
  shows "cache_inv (snd (set_many_if_newer copier env vs force replace_equal c))"
  using write_rounds_inv [OF assms select_candidates_distinct] assms(2)
  by (simp add: set_many_if_newer_def Let_def split_beta)

text \<open>With a faithful copier the copies are the candidates themselves, and no round fails.\<close>

lemma write_rounds_succeeds:
  assumes "faithful_copier copier" "\<And>i d. P d \<Longrightarrow> P (env i d)"
    and "P c" "\<forall>v \<in> set cands. sv_wf v" "\<And>d. P d \<Longrightarrow> \<not> mc_copies_closing d"
  shows "\<exists>rs. fst (write_rounds copier env force replace_equal cands n prepared c) = Inr rs"
  using assms
proof (induction copier env force replace_equal cands n prepared c rule: write_rounds.induct)
  case (1 copier env force replace_equal cands n prepared c)
  let ?missing = "unprepared cands force replace_equal prepared c"
  show ?case
  proof (cases "?missing = []")
    case False
    have wf: "sv_wf v" if "v \<in> set ?missing" for v using that "1.prems"(4) by (simp add: unprepared_def)
    have "res_map (prepare_candidate copier) ?missing = Inr (map (\<lambda>v. (sv_key v, v)) ?missing)"
      by (rule res_map_Inr_id) (simp add: prepare_candidate_def clone_same "1.prems"(1) wf)
    then have copies: "isolator_map ''cache'' (mc_copies_closing c) (prepare_candidate copier) ?missing
        = Inr (map (\<lambda>v. (sv_key v, v)) ?missing)"
      using "1.prems"(3,5) by (simp add: isolator_map_def)
    show ?thesis unfolding write_rounds_next [OF False copies]
      by (rule "1.IH" [OF refl False copies "1.prems"(1)]) (use "1.prems" in simp_all)
  qed (simp add: write_rounds_commit)
qed

lemma commit_batch_spec:
  fixes vs :: "snapshot_value list"
  defines "cands \<equiv> map snd (select_candidates vs)"
  assumes "faithful_copier copier" "\<forall>v \<in> set cands. sv_wf v"
    and pr: "unprepared cands force replace_equal pr m = []" "prepared_ok copier cands pr"
  shows "map_of (mc_entries (snd (commit_batch force replace_equal cands pr m)))
      = spec_write vs force replace_equal (map_of (mc_entries m))"
    and "map_of (fst (commit_batch force replace_equal cands pr m))
      = spec_write_result vs force replace_equal (map_of (mc_entries m))"
proof -
  have dist: "distinct (map sv_key cands)" unfolding cands_def by (rule select_candidates_distinct)
  let ?st = "batch_statuses cands force replace_equal m"
  let ?status = "\<lambda>v. write_status (map_of (mc_entries m) (sv_key v)) v force replace_equal"
  have status: "map_of ?st (sv_key v) = Some (?status v)" if "v \<in> set cands" for v
    by (rule batch_statuses_at [OF dist that])
  have stored: "map_of pr (sv_key v) = Some v" if "v \<in> set cands" "?status v = STORED" for v
    using prepared_at [OF pr that(1) dist that(2)] clone_same [OF assms(2)] assms(3) that(1) by force
  have selected: "map_of (select_candidates vs) k = Some v \<longleftrightarrow> v \<in> set cands \<and> sv_key v = k" for k v
    unfolding cands_def by (rule selected_iff)
  show entries: "map_of (mc_entries (snd (commit_batch force replace_equal cands pr m)))
      = spec_write vs force replace_equal (map_of (mc_entries m))"
  proof
    fix k
    show "map_of (mc_entries (snd (commit_batch force replace_equal cands pr m))) k
        = spec_write vs force replace_equal (map_of (mc_entries m)) k"
    proof (cases "map_of (select_candidates vs) k")
      case None
      then have "k \<notin> sv_key ` set cands" using selected by force
      with None show ?thesis by (simp add: commit_all_map [OF dist] spec_write_def)
    next
      case (Some v)
      then have v: "v \<in> set cands" "sv_key v = k" using selected by auto
      then have "k \<in> sv_key ` set cands" by blast
      with Some v status [OF v(1)] stored [OF v(1)] show ?thesis
        by (simp add: commit_all_map [OF dist] spec_write_def)
    qed
  qed
  show "map_of (fst (commit_batch force replace_equal cands pr m))
      = spec_write_result vs force replace_equal (map_of (mc_entries m))"
  proof
    fix k
    let ?rs = "map (\<lambda>v. (sv_key v, fst (commit_one ?st pr v m))) cands"
    have rs: "fst (commit_batch force replace_equal cands pr m) = ?rs" by (rule commit_all_results [OF dist])
    have ok: "distinct (map fst ?rs)" using dist by (simp add: comp_def)
    show "map_of (fst (commit_batch force replace_equal cands pr m)) k
        = spec_write_result vs force replace_equal (map_of (mc_entries m)) k"
    proof (cases "map_of (select_candidates vs) k")
      case None
      then have "k \<notin> set (map fst ?rs)" using selected by force
      then have "map_of ?rs k = None" by (simp only: map_of_eq_None_iff set_map not_False_eq_True)
      with None show ?thesis by (simp only: rs spec_write_result_def) simp
    next
      case (Some v)
      then have v: "v \<in> set cands" "sv_key v = k" using selected by auto
      then have "(k, fst (commit_one ?st pr v m)) \<in> set ?rs" by force
      then have "map_of ?rs k = Some (fst (commit_one ?st pr v m))" using ok by (rule map_of_is_SomeI [rotated])
      moreover have "Some (fst (commit_one ?st pr v m)) = spec_write_result vs force replace_equal (map_of (mc_entries m)) k"
        using v Some status [OF v(1)] stored [OF v(1)]
        by (simp add: commit_one_def Let_def spec_write_result_def spec_write_def)
      ultimately show ?thesis by (simp only: rs)
    qed
  qed
qed

end
