(* ===== verification/Cache_Contract.thy ===== *)
theory Cache_Contract
  imports Memory_Cache
begin

section \<open>What the in-memory cache guarantees\<close>

text \<open>
  The locked sections of the cache as steps of a machine, its invariants over every
  interleaving, the contract \<open>monotonic_cache\<close> its clients rely on, and the properties of
  reads, writes and eviction.
\<close>

subsection \<open>Removals keep the invariant\<close>

lemma invalidate_one_inv: "cache_inv c \<Longrightarrow> cache_inv (invalidate_one k c)"
proof -
  assume inv: "cache_inv c"
  then have "mc_hits c = mc_fresh_hits c + mc_stale_hits c" by (simp add: cache_inv_def)
  with inv show ?thesis
    by (auto simp: invalidate_one_def length_od_pop_le cache_inv_entries_ok split: option.splits
        intro!: cache_inv_shrink [OF inv])
qed

lemma invalidate_many_inv: "cache_inv c \<Longrightarrow> cache_inv (invalidate_many ks c)"
proof -
  have "cache_inv (foldl (\<lambda>acc k. invalidate_one k acc) c xs)" if "cache_inv c" for xs
    using that by (induction xs arbitrary: c) (simp_all add: invalidate_one_inv)
  then show "cache_inv c \<Longrightarrow> cache_inv (invalidate_many ks c)" by (simp add: invalidate_many_def)
qed

lemma foldl_pop_filter: "foldl (\<lambda>d k. od_pop k d) es ks = filter (\<lambda>p. fst p \<notin> set ks) es"
  by (induction ks arbitrary: es) (auto simp: od_pop_def intro: filter_cong)

lemma entries_ok_filter [simp]: "entries_ok es \<Longrightarrow> entries_ok (filter P es)"
  by (auto simp: entries_ok_def distinct_map_filter)

lemma pop_all_inv:
  assumes "cache_inv c" "mc_entries c' = mc_entries (pop_all ks c)" "mc_max_entries c' = mc_max_entries c"
    "mc_hits c' = mc_hits c" "mc_fresh_hits c' = mc_fresh_hits c" "mc_stale_hits c' = mc_stale_hits c"
  shows "cache_inv c'"
proof -
  have "mc_hits c = mc_fresh_hits c + mc_stale_hits c" using assms(1) by (simp add: cache_inv_def)
  then show ?thesis
    using assms cache_inv_entries_ok [OF assms(1)]
    by (intro cache_inv_shrink [OF assms(1)]) (simp_all add: pop_all_def foldl_pop_filter)
qed

lemma invalidate_matching_inv: "cache_inv c \<Longrightarrow> cache_inv (snd (invalidate_matching P c))"
  by (rule pop_all_inv) (simp_all add: invalidate_matching_def Let_def pop_all_def)

lemma prune_inv: "cache_inv c \<Longrightarrow> cache_inv (snd (prune now resolve c))"
  by (cases "expired_keys now resolve (mc_entries c)")
    (auto simp: prune_def pop_all_def intro: pop_all_inv)

lemma cache_clear_inv: "cache_inv c \<Longrightarrow> cache_inv (cache_clear c)"
  by (auto simp: cache_clear_def cache_inv_def split: option.splits)

lemma aclose_payload_copies_inv: "cache_inv c \<Longrightarrow> cache_inv (aclose_payload_copies c)"
  by (auto simp: aclose_payload_copies_def cache_inv_def split: option.splits)

subsection \<open>Accounting\<close>

text \<open>Every entry that left the cache was counted, and every entry that came in was a counted write.\<close>

definition cache_accounts :: "memory_cache \<Rightarrow> bool" where
  "cache_accounts c \<longleftrightarrow> od_ok (mc_entries c)
     \<and> length (mc_entries c) + mc_evictions c + mc_invalidations c + mc_expirations c \<le> mc_sets c"

lemma lookup_locked_accounts: "cache_accounts c \<Longrightarrow> cache_accounts (snd (lookup_locked now pol k c))"
proof -
  assume acc: "cache_accounts c"
  have "Suc (length (od_pop k (mc_entries c))) = length (mc_entries c)" if "map_of (mc_entries c) k = Some v" for v
    using acc map_of_Some_key [OF that] by (intro length_od_pop) (simp_all add: cache_accounts_def)
  with acc show ?thesis
    by (cases rule: lookup_locked_cases [of c k now pol])
      (auto simp: cache_accounts_def length_od_move_to_end)
qed

lemma get_many_locked_accounts: "cache_accounts c \<Longrightarrow> cache_accounts (snd (get_many_locked now pol ks c))"
  by (induction ks arbitrary: c) (auto simp: split_beta Let_def lookup_locked_accounts)

lemma length_od_set: "length (od_set k v es) \<le> Suc (length es)"
  by (induction es) auto

lemma commit_one_accounts: "cache_accounts c \<Longrightarrow> cache_accounts (snd (commit_one st pr v c))"
proof -
  assume acc: "cache_accounts c"
  let ?k = "sv_key v" and ?w = "the (map_of pr (sv_key v))"
  have "length (od_move_to_end ?k (od_set ?k ?w (mc_entries c))) \<le> Suc (length (mc_entries c))"
    using length_od_set [of ?k ?w "mc_entries c"] acc by (simp add: length_od_move_to_end cache_accounts_def)
  with acc show ?thesis
    by (cases "the (map_of st ?k) = STORED") (simp_all add: cache_accounts_def commit_one_def Let_def)
qed

lemma commit_all_accounts: "cache_accounts c \<Longrightarrow> cache_accounts (snd (commit_all st pr vs c))"
  by (induction vs arbitrary: c) (auto simp: split_beta Let_def commit_one_accounts)

lemma enforce_limit_accounts: "cache_accounts c \<Longrightarrow> cache_accounts (enforce_limit c)"
  by (auto simp: cache_accounts_def enforce_limit_def Let_def drop_map [symmetric] split: option.splits)

lemma invalidate_one_accounts: "cache_accounts c \<Longrightarrow> cache_accounts (invalidate_one k c)"
  using length_od_pop [of "mc_entries c" k] map_of_Some_key [of "mc_entries c" k]
  by (auto simp: invalidate_one_def cache_accounts_def split: option.splits)

lemma invalidate_many_accounts: "cache_accounts c \<Longrightarrow> cache_accounts (invalidate_many ks c)"
proof -
  have "cache_accounts (foldl (\<lambda>acc k. invalidate_one k acc) c xs)" if "cache_accounts c" for xs
    using that by (induction xs arbitrary: c) (simp_all add: invalidate_one_accounts)
  then show "cache_accounts c \<Longrightarrow> cache_accounts (invalidate_many ks c)" by (simp add: invalidate_many_def)
qed

text \<open>Removing listed keys removes exactly as many entries as are listed.\<close>

lemma length_pop_listed:
  assumes "od_ok es" "distinct ks" "set ks \<subseteq> set (od_keys es)"
  shows "length (filter (\<lambda>p. fst p \<notin> set ks) es) + length ks = length es"
proof -
  have "length ks = card (set ks)" using assms(2) by (simp add: distinct_card)
  also have "set ks = fst ` set (filter (\<lambda>p. fst p \<in> set ks) es)" using assms(3) by auto
  also have "card \<dots> = length (filter (\<lambda>p. fst p \<in> set ks) es)"
    using assms(1) by (metis distinct_card distinct_map_filter length_map set_map)
  finally show ?thesis by (metis add.commute sum_length_filter_compl)
qed

lemma expired_keys_sub:
  "expired_keys now resolve es = Inr ks \<Longrightarrow> od_ok es \<Longrightarrow> distinct ks \<and> set ks \<subseteq> set (od_keys es)"
  by (induction es arbitrary: ks) (fastforce simp: res_iff split: if_splits)+

lemma invalidate_matching_accounts: "cache_accounts c \<Longrightarrow> cache_accounts (snd (invalidate_matching P c))"
  using length_pop_listed [of "mc_entries c" "filter P (od_keys (mc_entries c))"]
  by (auto simp: cache_accounts_def invalidate_matching_def Let_def pop_all_def foldl_pop_filter distinct_map_filter)

lemma prune_accounts: "cache_accounts c \<Longrightarrow> cache_accounts (snd (prune now resolve c))"
  using length_pop_listed [of "mc_entries c"] expired_keys_sub [of now resolve "mc_entries c"]
  by (cases "expired_keys now resolve (mc_entries c)")
    (fastforce simp: cache_accounts_def prune_def pop_all_def foldl_pop_filter distinct_map_filter)+

subsection \<open>The locked sections as a machine\<close>

text \<open>
  Every operation touches the entries only inside a locked section. A run of these sections,
  in any order and for any number of concurrent callers, is a run of \<open>cache_step\<close>; a commit
  is enabled when its copies are ready, as the write loop ensures.
\<close>

datatype cache_op =
    ReadSection "resource_key list"
  | CommitSection "snapshot_value list"
  | InvalidateSection "resource_key list"
  | MatchSection
  | PruneSection
  | ClearSection
  | CloseCopies

inductive cache_step :: "payload_copier \<Rightarrow> memory_cache \<Rightarrow> cache_op \<Rightarrow> memory_cache \<Rightarrow> bool"
  for copier where
  step_read: "cache_step copier c (ReadSection ks) (snd (get_many_locked now pol ks c))"
| step_commit: "distinct (map sv_key cands) \<Longrightarrow> prepared_ok copier cands pr
    \<Longrightarrow> unprepared cands force replace_equal pr c = []
    \<Longrightarrow> cache_step copier c (CommitSection cands) (enforce_limit (snd (commit_batch force replace_equal cands pr c)))"
| step_invalidate: "cache_step copier c (InvalidateSection ks) (invalidate_many ks c)"
| step_match: "cache_step copier c MatchSection (snd (invalidate_matching P c))"
| step_prune: "cache_step copier c PruneSection (snd (prune now resolve c))"
| step_clear: "cache_step copier c ClearSection (cache_clear c)"
| step_close: "cache_step copier c CloseCopies (aclose_payload_copies c)"

inductive_cases cache_stepE: "cache_step copier c l c'"

interpretation cache_machine: machine "cache_step copier" cache_inv for copier
  by unfold_locales
    (auto elim!: cache_stepE intro: get_many_locked_inv commit_batch_inv invalidate_many_inv
      invalidate_matching_inv prune_inv cache_clear_inv aclose_payload_copies_inv)

interpretation cache_ledger: machine "cache_step copier" cache_accounts for copier
proof
  fix c l c' assume acc: "cache_accounts c" and step: "cache_step copier c l c'"
  from step show "cache_accounts c'"
  proof cases
    case (step_commit cands pr force replace_equal)
    from acc show ?thesis unfolding step_commit(2)
      by (intro enforce_limit_accounts commit_all_accounts)
  qed (use acc in \<open>auto simp: get_many_locked_accounts invalidate_many_accounts
      invalidate_matching_accounts prune_accounts\<close>,
      auto simp: cache_accounts_def cache_clear_def aclose_payload_copies_def)
qed

subsection \<open>The contract clients rely on\<close>

text \<open>
  The operations of the protocols \<^verbatim>\<open>AsyncCache\<close>, \<^verbatim>\<open>BatchAsyncCache\<close>, \<^verbatim>\<open>AtomicAsyncCache\<close> and
  \<^verbatim>\<open>BatchAtomicAsyncCache\<close> over a state \<open>'s\<close>; an absent capability is \<open>None\<close>.
\<close>

record 's batch_ops =
  bo_get_many :: "resource_key list \<Rightarrow> rat \<Rightarrow> (resource_key, freshness_policy) odict \<Rightarrow> 's
    \<Rightarrow> (py_error + (resource_key, cache_lookup) odict) \<times> 's"
  bo_set_many :: "snapshot_value list \<Rightarrow> 's \<Rightarrow> (py_error + unit) \<times> 's"
  bo_invalidate_many :: "resource_key list \<Rightarrow> 's \<Rightarrow> (py_error + unit) \<times> 's"

record 's cache_ops =
  co_get :: "resource_key \<Rightarrow> rat \<Rightarrow> freshness_policy \<Rightarrow> 's \<Rightarrow> (py_error + cache_lookup) \<times> 's"
  co_set :: "snapshot_value \<Rightarrow> 's \<Rightarrow> (py_error + unit) \<times> 's"
  co_invalidate :: "resource_key \<Rightarrow> 's \<Rightarrow> (py_error + unit) \<times> 's"
  co_batch :: "'s batch_ops option"
  co_set_if_newer :: "(snapshot_value \<Rightarrow> bool \<Rightarrow> bool \<Rightarrow> 's \<Rightarrow> (py_error + cache_write_result) \<times> 's) option"
  co_set_many_if_newer :: "(snapshot_value list \<Rightarrow> bool \<Rightarrow> bool \<Rightarrow> 's
    \<Rightarrow> (py_error + (resource_key, cache_write_result) odict) \<times> 's) option"
  co_validates_dependency_versions :: bool
  co_validates_source_authority :: bool

definition idle :: "nat \<Rightarrow> memory_cache \<Rightarrow> memory_cache" where
  "idle n c = c"

definition memory_cache_ops :: "payload_copier \<Rightarrow> memory_cache cache_ops" where
  "memory_cache_ops copier =
     \<lparr>co_get = (\<lambda>k now policy c. get_one copier k now policy c),
      co_set = (\<lambda>v c. set_one copier idle v c),
      co_invalidate = (\<lambda>k c. (Inr (), invalidate k c)),
      co_batch = Some \<lparr>bo_get_many = (\<lambda>ks now policies c. get_many copier ks now policies c),
                       bo_set_many = (\<lambda>vs c. set_many copier idle vs c),
                       bo_invalidate_many = (\<lambda>ks c. (Inr (), invalidate_many ks c))\<rparr>,
      co_set_if_newer = Some (\<lambda>v force replace_equal c. set_if_newer copier idle v force replace_equal c),
      co_set_many_if_newer = Some (\<lambda>vs force replace_equal c. set_many_if_newer copier idle vs force replace_equal c),
      co_validates_dependency_versions = True, co_validates_source_authority = True\<rparr>"

locale monotonic_cache =
  fixes get_many_op :: "resource_key list \<Rightarrow> rat \<Rightarrow> (resource_key, freshness_policy) odict \<Rightarrow> 's
      \<Rightarrow> (py_error + (resource_key, cache_lookup) odict) \<times> 's"
    and write_op :: "snapshot_value list \<Rightarrow> bool \<Rightarrow> bool \<Rightarrow> 's
      \<Rightarrow> (py_error + (resource_key, cache_write_result) odict) \<times> 's"
    and contents :: "'s \<Rightarrow> (resource_key \<rightharpoonup> snapshot_value)"
    and ready :: "'s \<Rightarrow> bool"
  assumes contents_keys: "ready s \<Longrightarrow> contents s k = Some v \<Longrightarrow> sv_key v = k \<and> sv_wf v"
    and read_ready: "ready s \<Longrightarrow> ready (snd (get_many_op ks now policies s))"
    and read_only: "ready s \<Longrightarrow> contents (snd (get_many_op ks now policies s)) \<subseteq>\<^sub>m contents s"
    and read_keys: "ready s \<Longrightarrow> get_many_op ks now policies s = (Inr ls, s') \<Longrightarrow> od_keys ls = fromkeys ks"
    and read_values: "ready s \<Longrightarrow> get_many_op ks now policies s = (Inr ls, s')
      \<Longrightarrow> map_of ls k = Some l \<Longrightarrow> cl_value l = Some v \<Longrightarrow> contents s k = Some v"
    and read_total: "ready s \<Longrightarrow> set ks \<subseteq> set (od_keys policies) \<Longrightarrow> \<exists>ls. fst (get_many_op ks now policies s) = Inr ls"
    and write_ready: "ready s \<Longrightarrow> \<forall>v \<in> set vs. sv_wf v \<Longrightarrow> ready (snd (write_op vs force replace_equal s))"
    and write_contents: "ready s \<Longrightarrow> \<forall>v \<in> set vs. sv_wf v
      \<Longrightarrow> contents (snd (write_op vs force replace_equal s)) \<subseteq>\<^sub>m spec_write vs force replace_equal (contents s)"
    and write_results: "ready s \<Longrightarrow> \<forall>v \<in> set vs. sv_wf v
      \<Longrightarrow> \<exists>rs. fst (write_op vs force replace_equal s) = Inr rs
           \<and> od_keys rs = od_keys (select_candidates vs)
           \<and> map_of rs = spec_write_result vs force replace_equal (contents s)"
begin

text \<open>An unforced write never lowers the rank of what a key holds.\<close>

lemma write_keeps_rank:
  assumes "ready s" "\<forall>v \<in> set vs. sv_wf v" "contents s k = Some v"
    and "contents (snd (write_op vs False replace_equal s)) k = Some v'"
  shows "write_rank v \<le> write_rank v'"
proof -
  from write_contents [OF assms(1,2)] assms(4) have "spec_write vs False replace_equal (contents s) k = Some v'"
    by (auto simp: map_le_def dom_def)
  with assms(3) show ?thesis
    by (auto simp: spec_write_def dest: write_status_rank(1) [OF refl] split: option.splits if_splits)
qed

text \<open>The value a write reports ranks at least as high as every value of its key in the batch.\<close>

lemma write_reports_best:
  assumes "ready s" "\<forall>v \<in> set vs. sv_wf v" "fst (write_op vs False replace_equal s) = Inr rs"
    and "v \<in> set vs" "map_of rs (sv_key v) = Some r"
  shows "write_rank v \<le> write_rank (cw_value r) \<and> sv_key (cw_value r) = sv_key v"
proof -
  from assms(4) obtain w where w: "map_of (select_candidates vs) (sv_key v) = Some w" "write_rank v \<le> write_rank w"
    using select_candidates_selection [of vs] by (auto simp: selection_of_def)
  have wkey: "sv_key w = sv_key v" using selected_in [OF w(1)] by simp
  from write_results [OF assms(1,2), of False replace_equal] assms(3,5)
  have r: "spec_write_result vs False replace_equal (contents s) (sv_key v) = Some r" by auto
  show ?thesis
  proof (cases "contents s (sv_key v)")
    case None
    with r w wkey show ?thesis by (auto simp: spec_write_result_def spec_write_def write_status_def)
  next
    case (Some p)
    then have "sv_key p = sv_key v" using contents_keys [OF assms(1)] by blast
    with r w wkey Some write_status_rank [OF Some, of w replace_equal] show ?thesis
      by (auto simp: spec_write_result_def spec_write_def split: if_splits)
  qed
qed

end

subsection \<open>The in-memory cache meets the contract\<close>

lemma clone_lookup_same:
  assumes "faithful_copier copier" "\<And>v. cl_value (snd item) = Some v \<Longrightarrow> sv_wf v"
  shows "clone_lookup copier item = Inr item"
  using assms by (cases item; cases "cl_value (snd item)") (auto simp: clone_lookup_def clone_same)

lemma lookup_locked_value:
  "cl_value (fst (lookup_locked now pol k c)) = Some v \<Longrightarrow> map_of (mc_entries c) k = Some v"
  by (cases rule: lookup_locked_cases [of c k now pol]) (auto simp: miss_lookup_def)

lemma get_many_locked_values:
  "(k, l) \<in> set (fst (get_many_locked now pol ks c)) \<Longrightarrow> cl_value l = Some v \<Longrightarrow> map_of (mc_entries c) k = Some v"
  by (induction ks arbitrary: c)
    (auto simp: split_beta Let_def dest: lookup_locked_value lookup_locked_sub)

lemma get_many_ok:
  assumes "faithful_copier copier" "cache_inv c" "\<not> mc_copies_closing c" "set ks \<subseteq> set (od_keys policies)"
  shows "get_many copier ks now policies c =
     (let r = get_many_locked now (\<lambda>k. the (map_of policies k)) (fromkeys ks) c in (Inr (fst r), snd r))"
proof -
  let ?r = "get_many_locked now (\<lambda>k. the (map_of policies k)) (fromkeys ks) c"
  have "filter (\<lambda>k. map_of policies k = None) (fromkeys ks) = []"
    using assms(4) by (auto simp: filter_empty_conv map_of_eq_None_iff)
  moreover have "res_map (clone_lookup copier) (fst ?r) = Inr (fst ?r)"
  proof (rule res_map_same)
    show "clone_lookup copier item = Inr item" if "item \<in> set (fst ?r)" for item
      using that get_many_locked_values [of "fst item" "snd item"] cache_inv_entry [OF assms(2)]
      by (intro clone_lookup_same [OF assms(1)]) fastforce
  qed
  ultimately show ?thesis using assms(3)
    by (simp add: get_many_def Let_def split_beta isolator_map_def get_many_locked_frame)
qed

lemma get_many_refused:
  assumes "\<not> set ks \<subseteq> set (od_keys policies)"
  shows "\<exists>e. get_many copier ks now policies c = (Inl e, c)"
proof -
  have "filter (\<lambda>k. map_of policies k = None) (fromkeys ks) \<noteq> []"
    using assms by (auto simp: filter_empty_conv map_of_eq_None_iff)
  then show ?thesis by (simp add: get_many_def Let_def del: filter_empty_conv)
qed

lemma clone_result_same:
  assumes "faithful_copier copier" "sv_wf (cw_value (snd item))"
    and "\<And>p. cw_previous (snd item) = Some p \<Longrightarrow> sv_wf p" "cw_status (snd item) = STORED \<or> cw_previous (snd item) \<noteq> None"
  shows "clone_result copier item = Inr item"
  using assms
  by (cases item; cases "cw_previous (snd item)")
    (auto simp: clone_result_def clone_same mk_cache_write_result_def)

lemma enforce_limit_contents: "od_ok (mc_entries c) \<Longrightarrow> map_of (mc_entries (enforce_limit c)) \<subseteq>\<^sub>m map_of (mc_entries c)"
proof (cases "mc_max_entries c")
  case (Some m)
  assume ok: "od_ok (mc_entries c)"
  let ?d = "drop (length (mc_entries c) - nat m) (mc_entries c)"
  have "map_of (mc_entries c) k = Some v" if "map_of ?d k = Some v" for k v
    using map_of_SomeD [OF that] ok by (auto dest: in_set_dropD)
  with Some show ?thesis by (auto simp: map_le_def enforce_limit_def Let_def dom_def)
qed (simp add: enforce_limit_def)

lemma spec_write_wf:
  assumes "\<And>k v. m k = Some v \<Longrightarrow> sv_wf v" "\<forall>v \<in> set vs. sv_wf v"
  shows "spec_write vs force replace_equal m k = Some v \<Longrightarrow> sv_wf v"
  using assms by (auto simp: spec_write_def dest: selected_in split: option.splits if_splits)

lemma clone_spec_result:
  assumes "faithful_copier copier" "\<And>k v. m k = Some v \<Longrightarrow> sv_wf v" "\<forall>v \<in> set vs. sv_wf v"
    and r: "spec_write_result vs force replace_equal m k = Some r"
  shows "clone_result copier (k, r) = Inr (k, r)"
proof (rule clone_result_same [OF assms(1)])
  from r obtain v where v: "map_of (select_candidates vs) k = Some v"
    and "r = \<lparr>cw_status = write_status (m k) v force replace_equal,
             cw_value = the (spec_write vs force replace_equal m k), cw_previous = m k\<rparr>"
    by (auto simp: spec_write_result_def)
  note rdef = this(2)
  have "\<exists>w. spec_write vs force replace_equal m k = Some w"
    using v write_status_ignored [of "m k" v] by (auto simp: spec_write_def)
  then show "sv_wf (cw_value (snd (k, r)))" using spec_write_wf [OF assms(2,3)] by (auto simp: rdef)
  show "sv_wf p" if "cw_previous (snd (k, r)) = Some p" for p using that assms(2) by (simp add: rdef)
  show "cw_status (snd (k, r)) = STORED \<or> cw_previous (snd (k, r)) \<noteq> None"
    using write_status_ignored [of "m k" v] by (auto simp: rdef)
qed

lemma enforce_limit_id: "cache_inv c \<Longrightarrow> enforce_limit c = c"
  by (cases c; cases "mc_max_entries c") (auto simp: enforce_limit_def Let_def cache_inv_def)

text \<open>
  The whole write, with interference: it takes effect at one instant, after the interference
  of at most as many rounds as there are candidates.
\<close>

lemma memory_write_atomic:
  assumes "faithful_copier copier" "\<forall>v \<in> set vs. sv_wf v"
    and c: "cache_inv c \<and> \<not> mc_copies_closing c"
    and env: "\<And>i d. cache_inv d \<and> \<not> mc_copies_closing d \<Longrightarrow> cache_inv (env i d) \<and> \<not> mc_copies_closing (env i d)"
  shows "\<exists>j rs mid. j \<le> length (select_candidates vs)
    \<and> set_many_if_newer copier env vs force replace_equal c = (Inr rs, enforce_limit mid)
    \<and> od_ok (mc_entries mid)
    \<and> map_of (mc_entries mid) = spec_write vs force replace_equal (map_of (mc_entries (interfere env 0 j c)))
    \<and> od_keys rs = od_keys (select_candidates vs)
    \<and> map_of rs = spec_write_result vs force replace_equal (map_of (mc_entries (interfere env 0 j c)))
    \<and> cache_inv (enforce_limit mid) \<and> \<not> mc_copies_closing (enforce_limit mid)"
proof (cases "vs = []")
  case True
  with c enforce_limit_id [of c] show ?thesis
    by (intro exI [of _ 0] exI [of _ "[]"] exI [of _ c])
      (auto simp: set_many_if_newer_def select_candidates_def spec_write_def spec_write_result_def cache_inv_def)
next
  case False
  define cands where "cands = map snd (select_candidates vs)"
  have wf: "\<forall>v \<in> set cands. sv_wf v"
    using assms(2) select_candidates_selection [of vs] by (auto simp: cands_def selection_of_def)
  have dist: "distinct (map sv_key cands)" unfolding cands_def by (rule select_candidates_distinct)
  have "prepared_ok copier cands []" by (simp add: prepared_ok_def)
  from write_rounds_atomic [OF this, of env 0 c force replace_equal] obtain j pr where
    j: "j \<le> length cands" and pr: "prepared_ok copier cands pr" and
    res: "let m = interfere env 0 j c
       in (\<exists>e. write_rounds copier env force replace_equal cands 0 [] c = (Inl e, m))
        \<or> unprepared cands force replace_equal pr m = []
          \<and> write_rounds copier env force replace_equal cands 0 [] c
            = (Inr (fst (commit_batch force replace_equal cands pr m)),
               enforce_limit (snd (commit_batch force replace_equal cands pr m)))" by auto
  define m where "m = interfere env 0 j c"
  have m: "cache_inv m" "\<not> mc_copies_closing m"
    using interfere_inv [of "\<lambda>d. cache_inv d \<and> \<not> mc_copies_closing d" env c 0 j] env c by (auto simp: m_def)
  obtain rs0 where "fst (write_rounds copier env force replace_equal cands 0 [] c) = Inr rs0"
    using write_rounds_succeeds [OF assms(1), of "\<lambda>d. cache_inv d \<and> \<not> mc_copies_closing d" env c] env c wf by blast
  with res have un: "unprepared cands force replace_equal pr m = []"
    and run: "write_rounds copier env force replace_equal cands 0 [] c
            = (Inr (fst (commit_batch force replace_equal cands pr m)),
               enforce_limit (snd (commit_batch force replace_equal cands pr m)))"
    by (auto simp: Let_def m_def)
  let ?mid = "snd (commit_batch force replace_equal cands pr m)"
  let ?rs = "fst (commit_batch force replace_equal cands pr m)"
  note spec = commit_batch_spec [of copier vs force replace_equal pr m, folded cands_def, OF assms(1) wf un pr]
  have keys: "od_keys ?rs = od_keys (select_candidates vs)"
    unfolding commit_all_results [OF dist] select_candidates_keys [of vs, folded cands_def, symmetric]
    by (simp add: comp_def)
  have "res_map (clone_result copier) ?rs = Inr ?rs"
  proof (rule res_map_same)
    fix item assume "item \<in> set ?rs"
    moreover have "distinct (map fst ?rs)"
      unfolding keys using select_candidates_selection [of vs] by (simp add: selection_of_def)
    ultimately have "map_of ?rs (fst item) = Some (snd item)" by simp
    then show "clone_result copier item = Inr item"
      using clone_spec_result [OF assms(1) _ assms(2), of "map_of (mc_entries m)" force replace_equal "fst item" "snd item"]
        cache_inv_entry [OF m(1)] by (simp add: spec(2))
  qed
  then have "set_many_if_newer copier env vs force replace_equal c = (Inr ?rs, enforce_limit ?mid)"
    using False m(2) by (simp add: set_many_if_newer_def select_candidates_Nil_iff Let_def
        isolator_map_def commit_all_frame run flip: cands_def)
  moreover have "od_ok (mc_entries ?mid)"
    using commit_batch_entries_ok [OF m(1) un pr dist] by (simp add: entries_ok_def)
  ultimately show ?thesis
    using j spec keys m(2) commit_batch_inv [OF m(1) un pr dist]
    by (intro exI [of _ j] exI [of _ ?rs] exI [of _ ?mid]) (simp add: cands_def m_def commit_all_frame)
qed

definition cache_ready :: "memory_cache \<Rightarrow> bool" where
  "cache_ready c \<longleftrightarrow> cache_inv c \<and> \<not> mc_copies_closing c"

abbreviation contents_of :: "memory_cache \<Rightarrow> (resource_key \<rightharpoonup> snapshot_value)" where
  "contents_of c \<equiv> map_of (mc_entries c)"

locale faithful_memory_cache =
  fixes copier :: payload_copier
  assumes faithful: "faithful_copier copier"
begin

lemma quiet_write:
  assumes "cache_ready c" "\<forall>v \<in> set vs. sv_wf v"
  obtains rs mid where "set_many_if_newer copier idle vs force replace_equal c = (Inr rs, enforce_limit mid)"
    "od_ok (mc_entries mid)" "contents_of mid = spec_write vs force replace_equal (contents_of c)"
    "od_keys rs = od_keys (select_candidates vs)"
    "map_of rs = spec_write_result vs force replace_equal (contents_of c)"
    "cache_ready (enforce_limit mid)"
proof -
  have "interfere idle n j c = c" for n j by (induction j arbitrary: n) (simp_all add: idle_def)
  with memory_write_atomic [OF faithful assms(2), of c idle force replace_equal] assms(1) that show thesis
    by (auto simp: cache_ready_def idle_def)
qed

end

sublocale faithful_memory_cache \<subseteq> monotonic_cache "get_many copier" "set_many_if_newer copier idle" contents_of cache_ready
proof
  fix c :: memory_cache and k v
  assume "cache_ready c" "contents_of c k = Some v"
  then show "sv_key v = k \<and> sv_wf v" using cache_inv_entry by (auto simp: cache_ready_def)
next
  fix c ks now policies assume c: "cache_ready c"
  let ?r = "get_many_locked now (\<lambda>k. the (map_of policies k)) (fromkeys ks) c"
  have cases: "get_many copier ks now policies c = (Inr (fst ?r), snd ?r)
      \<or> \<not> set ks \<subseteq> set (od_keys policies) \<and> (\<exists>e. get_many copier ks now policies c = (Inl e, c))"
    using get_many_ok [OF faithful, of c ks policies now] get_many_refused [of ks policies copier now c] c
    by (auto simp: cache_ready_def Let_def)
  have after: "cache_ready (snd ?r)" using c by (simp add: cache_ready_def get_many_locked_inv get_many_locked_frame)
  show "cache_ready (snd (get_many copier ks now policies c))" using cases c after by auto
  show "contents_of (snd (get_many copier ks now policies c)) \<subseteq>\<^sub>m contents_of c"
  proof -
    have "contents_of (snd ?r) \<subseteq>\<^sub>m contents_of c"
      using get_many_locked_sub [of now _ "fromkeys ks" c] by (fastforce simp: map_le_def dom_def)
    with cases show ?thesis by auto
  qed
  show "\<exists>ls. fst (get_many copier ks now policies c) = Inr ls" if "set ks \<subseteq> set (od_keys policies)"
    using cases that by auto
  fix ls c' assume "get_many copier ks now policies c = (Inr ls, c')"
  with cases have ls: "ls = fst ?r" by auto
  then show "od_keys ls = fromkeys ks" by (simp add: get_many_locked_frame)
  show "contents_of c k = Some v" if "map_of ls k = Some l" "cl_value l = Some v" for k l v
    using get_many_locked_values map_of_SomeD [OF that(1)] that(2) unfolding ls by blast
next
  fix c vs force replace_equal assume c: "cache_ready c" and vs: "\<forall>v \<in> set vs. sv_wf v"
  from quiet_write [OF c vs, of force replace_equal] obtain rs mid where w:
    "set_many_if_newer copier idle vs force replace_equal c = (Inr rs, enforce_limit mid)"
    "od_ok (mc_entries mid)" "contents_of mid = spec_write vs force replace_equal (contents_of c)"
    "od_keys rs = od_keys (select_candidates vs)"
    "map_of rs = spec_write_result vs force replace_equal (contents_of c)"
    "cache_ready (enforce_limit mid)" .
  show "cache_ready (snd (set_many_if_newer copier idle vs force replace_equal c))" using w by simp
  show "contents_of (snd (set_many_if_newer copier idle vs force replace_equal c))
      \<subseteq>\<^sub>m spec_write vs force replace_equal (contents_of c)"
    using enforce_limit_contents [OF w(2)] w(1,3) by simp
  show "\<exists>rs. fst (set_many_if_newer copier idle vs force replace_equal c) = Inr rs
      \<and> od_keys rs = od_keys (select_candidates vs)
      \<and> map_of rs = spec_write_result vs force replace_equal (contents_of c)"
    using w by simp
qed

interpretation default_cache: faithful_memory_cache deepcopy_payload
  by unfold_locales simp

subsection \<open>Concrete caches for witnesses\<close>

definition fixture_cache :: "int option \<Rightarrow> snapshot_value list \<Rightarrow> memory_cache" where
  "fixture_cache limit vs = \<lparr>mc_max_entries = limit, mc_entries = map (\<lambda>v. (sv_key v, v)) vs, mc_hits = 0,
     mc_misses = 0, mc_fresh_hits = 0, mc_stale_hits = 0, mc_sets = length vs, mc_invalidations = 0,
     mc_evictions = 0, mc_expirations = 0, mc_copies_closing = False\<rparr>"

definition fixture_policy_ttl :: "rat \<Rightarrow> rat \<Rightarrow> freshness_policy" where
  "fixture_policy_ttl ttl stale = \<lparr>fp_ttl_seconds = Fin ttl, fp_max_stale_seconds = Fin stale,
     fp_allow_stale_on_error = True, fp_refresh_mode = BLOCKING, fp_refresh_ahead_seconds = Fin 0\<rparr>"

lemma fixture_value_wf [simp]: "sv_wf (fixture_value nm t r)"
  by (simp add: sv_wf_def fixture_value_def strip_def is_space_def)

lemma fixture_cache_ready:
  "distinct (map sv_key vs) \<Longrightarrow> \<forall>v \<in> set vs. sv_wf v \<Longrightarrow> (case limit of None \<Rightarrow> True | Some m \<Rightarrow> 1 \<le> m \<and> int (length vs) \<le> m)
    \<Longrightarrow> cache_ready (fixture_cache limit vs)"
  by (auto simp: fixture_cache_def cache_ready_def cache_inv_def comp_def split: option.splits)

subsection \<open>Properties of writes\<close>

text \<open>
  C5: a batch write is atomic. Whatever other tasks do between the rounds in which the write
  prepares its copies, the write succeeds and takes effect at one instant: its results and
  the new contents are those of the specification applied to the contents at that instant,
  and only the size limit may remove entries afterwards. The loop needs at most one extra
  round per distinct key of the batch.
\<close>

theorem cache_write_atomic:
  assumes "faithful_copier copier" and "\<forall>v \<in> set vs. sv_wf v" and "cache_ready c"
    and "\<And>i d. cache_ready d \<Longrightarrow> cache_ready (env i d)"
  shows "\<exists>j rs mid. j \<le> length (select_candidates vs)
    \<and> set_many_if_newer copier env vs force replace_equal c = (Inr rs, enforce_limit mid)
    \<and> contents_of mid = spec_write vs force replace_equal (contents_of (interfere env 0 j c))
    \<and> map_of rs = spec_write_result vs force replace_equal (contents_of (interfere env 0 j c))
    \<and> cache_ready (enforce_limit mid)"
  using memory_write_atomic [OF assms(1,2) assms(3) [unfolded cache_ready_def], of env force replace_equal] assms(4)
  unfolding cache_ready_def by blast

theorem cache_write_atomic_witness:
  "\<exists>j rs mid. j \<le> length (select_candidates [fixture_value ''a'' 5 0])
    \<and> set_many_if_newer deepcopy_payload (\<lambda>_ d. invalidate (fixture_key ''a'') d) [fixture_value ''a'' 5 0] False False
        (fixture_cache (Some 2) [fixture_value ''a'' 9 0]) = (Inr rs, enforce_limit mid)
    \<and> cache_ready (enforce_limit mid)"
proof -
  have "\<exists>j rs mid. j \<le> length (select_candidates [fixture_value ''a'' 5 0])
    \<and> set_many_if_newer deepcopy_payload (\<lambda>_ d. invalidate (fixture_key ''a'') d) [fixture_value ''a'' 5 0] False False
        (fixture_cache (Some 2) [fixture_value ''a'' 9 0]) = (Inr rs, enforce_limit mid)
    \<and> contents_of mid = spec_write [fixture_value ''a'' 5 0] False False
        (contents_of (interfere (\<lambda>_ d. invalidate (fixture_key ''a'') d) 0 j (fixture_cache (Some 2) [fixture_value ''a'' 9 0])))
    \<and> map_of rs = spec_write_result [fixture_value ''a'' 5 0] False False
        (contents_of (interfere (\<lambda>_ d. invalidate (fixture_key ''a'') d) 0 j (fixture_cache (Some 2) [fixture_value ''a'' 9 0])))
    \<and> cache_ready (enforce_limit mid)"
  proof (rule cache_write_atomic)
    show "cache_ready (invalidate (fixture_key ''a'') d)" if "cache_ready d" for d
      using that invalidate_many_inv [of d "[fixture_key ''a'']"]
      by (auto simp: cache_ready_def invalidate_def) (simp add: invalidate_many_def invalidate_one_def split: option.splits)
  qed (simp_all add: fixture_cache_ready)
  then show ?thesis by blast
qed

text \<open>
  unforced writes are monotonic: whatever the batch, a key that is cached before and
  after the write holds a value of at least the same authority and, at equal authority, of
  at least the same observation time.
\<close>

lemma cache_write_monotonic:
  assumes "cache_ready c" and "\<forall>v \<in> set vs. sv_wf v" and "contents_of c k = Some v"
    and "contents_of (snd (set_many_if_newer deepcopy_payload idle vs False replace_equal c)) k = Some v'"
  shows "sv_authority_rank v \<le> sv_authority_rank v'
    \<and> (sv_authority_rank v = sv_authority_rank v' \<longrightarrow> sv_observed_at v \<le> sv_observed_at v')"
  using default_cache.write_keeps_rank [OF assms] by (auto simp: write_rank_def less_eq_prod_def)

lemma cache_write_monotonic_witness:
  "\<exists>v'. contents_of (snd (set_many_if_newer deepcopy_payload idle [fixture_value ''a'' 12 0] False False
        (fixture_cache (Some 2) [fixture_value ''a'' 9 1]))) (fixture_key ''a'') = Some v'
     \<and> sv_authority_rank (fixture_value ''a'' 9 1) \<le> sv_authority_rank v'"
proof -
  let ?c = "fixture_cache (Some 2) [fixture_value ''a'' 9 1]" and ?w = "fixture_value ''a'' 12 0"
  have cands: "select_candidates [?w] = [(fixture_key ''a'', ?w)]" by (simp add: select_candidates_def)
  have at: "contents_of ?c (fixture_key ''a'') = Some (fixture_value ''a'' 9 1)" by (simp add: fixture_cache_def)
  have "unprepared [?w] False False [] ?c = []" using at by (simp add: unprepared_def write_status_def)
  note run = write_rounds_commit [OF this, of deepcopy_payload idle 0]
  have "mc_entries (snd (set_many_if_newer deepcopy_payload idle [?w] False False ?c)) = mc_entries ?c"
    using at by (simp add: set_many_if_newer_def cands run Let_def split_beta commit_one_def batch_statuses_def
        write_status_def enforce_limit_def) (simp add: fixture_cache_def)
  then have after: "contents_of (snd (set_many_if_newer deepcopy_payload idle [?w] False False ?c)) (fixture_key ''a'')
      = Some (fixture_value ''a'' 9 1)" using at by simp
  from cache_write_monotonic [OF _ _ at after] after show ?thesis by (simp add: fixture_cache_ready)
qed

subsection \<open>Properties of reads\<close>

lemma get_one_locked:
  assumes "faithful_copier copier" "cache_ready c"
  shows "get_one copier k now pol c = (Inr (fst (lookup_locked now pol k c)), snd (lookup_locked now pol k c))"
proof -
  have "get_many copier [k] now [(k, pol)] c
      = (Inr [(k, fst (lookup_locked now pol k c))], snd (lookup_locked now pol k c))"
    using get_many_ok [OF assms(1), of c "[k]" "[(k, pol)]" now] assms(2)
    by (simp add: cache_ready_def Let_def split_beta)
  then show ?thesis by (simp add: get_one_def)
qed

text \<open>
  C9: a read is exact. It returns the cached value precisely when there is one, its recorded
  dependencies are transitively cached at the recorded versions, and it is not older than the
  maximal stale age; the value is fresh precisely when its age is within the time to live.
  Otherwise it is a miss, and an entry that is outdated or too old is gone afterwards.
\<close>

theorem cache_read_exact:
  assumes "faithful_copier copier" and "cache_ready c"
  shows "case contents_of c k of
      None \<Rightarrow> fst (get_one copier k now pol c) = Inr (miss_lookup None)
    | Some v \<Rightarrow>
        let age = max 0 (now - sv_observed_at v)
        in if deps_consistent (mc_entries c) v \<and> \<not> flt (fp_max_stale_seconds pol) (Fin age)
           then fst (get_one copier k now pol c)
                  = Inr \<lparr>cl_value = Some v, cl_fresh = fle (Fin age) (fp_ttl_seconds pol),
                         cl_usable_stale = True, cl_age_seconds = Some age\<rparr>
                \<and> contents_of (snd (get_one copier k now pol c)) = contents_of c
           else fst (get_one copier k now pol c) = Inr (miss_lookup (Some age))
                \<and> contents_of (snd (get_one copier k now pol c)) = (contents_of c)(k := None)"
proof -
  have inv: "cache_inv c" using assms(2) by (simp add: cache_ready_def)
  show ?thesis
    by (cases rule: lookup_locked_cases [of c k now pol])
      (auto simp: get_one_locked [OF assms] Let_def dependencies_current_iff [OF inv])
qed

theorem cache_read_exact_witness:
  "fst (get_one deepcopy_payload (fixture_key ''a'') 11 (fixture_policy_ttl 1 5) (fixture_cache None [fixture_value ''a'' 9 1]))
    = Inr \<lparr>cl_value = Some (fixture_value ''a'' 9 1), cl_fresh = False, cl_usable_stale = True, cl_age_seconds = Some 2\<rparr>"
proof -
  let ?v = "fixture_value ''a'' 9 1"
  have "deps_consistent (mc_entries (fixture_cache None [?v])) ?v" by (rule deps_consistentI) simp
  with cache_read_exact [of deepcopy_payload "fixture_cache None [?v]" "fixture_key ''a''" 11 "fixture_policy_ttl 1 5"]
  show ?thesis by (simp add: fixture_cache_ready) (simp add: fixture_cache_def fixture_policy_ttl_def Let_def)
qed

lemma read_hit:
  assumes "faithful_copier copier" "cache_ready c" "contents_of c k = Some v" "deps_consistent (mc_entries c) v"
    "\<not> flt (fp_max_stale_seconds pol) (Fin (max 0 (now - sv_observed_at v)))"
  shows "fst (get_one copier k now pol c)
    = Inr \<lparr>cl_value = Some v, cl_fresh = fle (Fin (max 0 (now - sv_observed_at v))) (fp_ttl_seconds pol),
           cl_usable_stale = True, cl_age_seconds = Some (max 0 (now - sv_observed_at v))\<rparr>"
  using assms dependencies_current_iff [of c k v]
  by (simp add: get_one_locked lookup_locked_def Let_def cache_ready_def)

text \<open>A single value that is written ends up last, and a positive limit never evicts it.\<close>

lemma set_one_entries:
  assumes "faithful_copier copier" "cache_ready c" "sv_wf v"
    and "write_status (contents_of c (sv_key v)) v force replace_equal = STORED"
  shows "mc_entries (snd (set_many_if_newer copier idle [v] force replace_equal c))
    = (let es = od_pop (sv_key v) (mc_entries c) @ [(sv_key v, v)]
       in case mc_max_entries c of None \<Rightarrow> es | Some m \<Rightarrow> drop (length es - nat m) es)"
    and "fst (set_many_if_newer copier idle [v] force replace_equal c)
      = Inr [(sv_key v, \<lparr>cw_status = STORED, cw_value = v, cw_previous = contents_of c (sv_key v)\<rparr>)]"
proof -
  let ?k = "sv_key v"
  have cands: "select_candidates [v] = [(?k, v)]" by (simp add: select_candidates_def)
  have un: "unprepared [v] force replace_equal [] c = [v]" using assms(4) by (simp add: unprepared_def)
  have open_c: "\<not> mc_copies_closing c" using assms(2) by (simp add: cache_ready_def)
  then have copies: "isolator_map ''cache'' (mc_copies_closing c) (prepare_candidate copier)
      (unprepared [v] force replace_equal [] c) = Inr [(?k, v)]"
    using assms(1,3) by (simp add: un isolator_map_def prepare_candidate_def clone_same)
  have ready: "unprepared [v] force replace_equal [(?k, v)] c = []" by (simp add: unprepared_def)
  have "write_rounds copier idle force replace_equal [v] 0 [] c
      = write_rounds copier idle force replace_equal [v] 1 [(?k, v)] c"
    using write_rounds_next [OF _ copies, of idle 0] by (simp add: un idle_def od_update_def)
  then have run: "write_rounds copier idle force replace_equal [v] 0 [] c
      = (Inr (fst (commit_batch force replace_equal [v] [(?k, v)] c)),
         enforce_limit (snd (commit_batch force replace_equal [v] [(?k, v)] c)))"
    by (simp only: write_rounds_commit [OF ready])
  have batch: "commit_batch force replace_equal [v] [(?k, v)] c
      = ([(?k, \<lparr>cw_status = STORED, cw_value = v, cw_previous = contents_of c ?k\<rparr>)],
         c\<lparr>mc_entries := od_pop ?k (mc_entries c) @ [(?k, v)], mc_sets := mc_sets c + 1\<rparr>)"
    using assms(4) by (simp add: commit_one_def batch_statuses_def Let_def od_move_to_end_od_set)
  note run = run [unfolded batch, simplified]
  show "mc_entries (snd (set_many_if_newer copier idle [v] force replace_equal c))
    = (let es = od_pop (sv_key v) (mc_entries c) @ [(sv_key v, v)]
       in case mc_max_entries c of None \<Rightarrow> es | Some m \<Rightarrow> drop (length es - nat m) es)"
    by (simp add: set_many_if_newer_def cands run enforce_limit_def Let_def split: option.splits)
  have "clone_result copier (?k, \<lparr>cw_status = STORED, cw_value = v, cw_previous = contents_of c ?k\<rparr>)
      = Inr (?k, \<lparr>cw_status = STORED, cw_value = v, cw_previous = contents_of c ?k\<rparr>)"
    using assms(1-3) cache_inv_entry by (intro clone_result_same) (auto simp: cache_ready_def)
  then show "fst (set_many_if_newer copier idle [v] force replace_equal c)
      = Inr [(sv_key v, \<lparr>cw_status = STORED, cw_value = v, cw_previous = contents_of c (sv_key v)\<rparr>)]"
    using open_c by (simp add: set_many_if_newer_def cands run isolator_map_def Let_def)
qed



subsection \<open>Properties of eviction and of whole runs\<close>

text \<open>
  Eviction is by least recent use. A hit and a stored write both move their key behind all
  others; enforcing the limit removes a prefix of that order, keeps as many entries as the
  limit allows and counts each removal.
\<close>

lemma cache_eviction_lru:
  "(cl_value (fst (lookup_locked now pol k c)) \<noteq> None
      \<longrightarrow> od_keys (mc_entries (snd (lookup_locked now pol k c))) = removeAll k (od_keys (mc_entries c)) @ [k])
   \<and> (the (map_of statuses (sv_key v)) = STORED
      \<longrightarrow> od_keys (mc_entries (snd (commit_one statuses prepared v c)))
          = removeAll (sv_key v) (od_keys (mc_entries c)) @ [sv_key v])
   \<and> (\<exists>evicted. mc_entries c = evicted @ mc_entries (enforce_limit c)
      \<and> mc_evictions (enforce_limit c) = mc_evictions c + length evicted
      \<and> (\<forall>m. mc_max_entries c = Some m \<and> 0 \<le> m
            \<longrightarrow> int (length (mc_entries (enforce_limit c))) = min m (int (length (mc_entries c)))))"
proof (intro conjI)
  show "cl_value (fst (lookup_locked now pol k c)) \<noteq> None
      \<longrightarrow> od_keys (mc_entries (snd (lookup_locked now pol k c))) = removeAll k (od_keys (mc_entries c)) @ [k]"
    by (cases rule: lookup_locked_cases [of c k now pol])
      (auto simp: miss_lookup_def od_keys_od_move_to_end dest: map_of_Some_key)
  show "the (map_of statuses (sv_key v)) = STORED
      \<longrightarrow> od_keys (mc_entries (snd (commit_one statuses prepared v c)))
          = removeAll (sv_key v) (od_keys (mc_entries c)) @ [sv_key v]"
    by (simp add: commit_one_entries od_move_to_end_od_set od_keys_od_pop)
  show "\<exists>evicted. mc_entries c = evicted @ mc_entries (enforce_limit c)
      \<and> mc_evictions (enforce_limit c) = mc_evictions c + length evicted
      \<and> (\<forall>m. mc_max_entries c = Some m \<and> 0 \<le> m
            \<longrightarrow> int (length (mc_entries (enforce_limit c))) = min m (int (length (mc_entries c))))"
    by (intro exI [of _ "case mc_max_entries c of None \<Rightarrow> [] | Some m \<Rightarrow> take (length (mc_entries c) - nat m) (mc_entries c)"])
      (auto simp: enforce_limit_def Let_def split: option.splits)
qed

lemma cache_eviction_lru_witness:
  "mc_entries (enforce_limit (fixture_cache (Some 1) [fixture_value ''a'' 9 1, fixture_value ''b'' 3 0]))
     = [(fixture_key ''b'', fixture_value ''b'' 3 0)]
   \<and> (\<exists>evicted. mc_entries (fixture_cache (Some 1) [fixture_value ''a'' 9 1, fixture_value ''b'' 3 0])
        = evicted @ mc_entries (enforce_limit (fixture_cache (Some 1) [fixture_value ''a'' 9 1, fixture_value ''b'' 3 0])))"
proof
  let ?c = "fixture_cache (Some 1) [fixture_value ''a'' 9 1, fixture_value ''b'' 3 0]"
  show "mc_entries (enforce_limit ?c) = [(fixture_key ''b'', fixture_value ''b'' 3 0)]"
    by (simp add: enforce_limit_def fixture_cache_def)
  show "\<exists>evicted. mc_entries ?c = evicted @ mc_entries (enforce_limit ?c)"
    using cache_eviction_lru [where c = ?c] by blast
qed

text \<open>
  the invariants of the cache hold after every interleaving of the locked sections of any
  number of concurrent operations, from construction on: the limit is respected, each key
  occurs once and holds a well-formed value of that key, the hit counters add up, and no
  removal or write goes uncounted.
\<close>

lemma cache_runs_invariant:
  assumes "mk_memory_cache limit run_in_thread concurrency = Inr c0"
    and "run_of (cache_step copier) c0 ops c"
  shows "distinct (od_keys (mc_entries c))
    \<and> (\<forall>(k, v) \<in> set (mc_entries c). sv_key v = k \<and> sv_wf v)
    \<and> (\<forall>m. mc_max_entries c = Some m \<longrightarrow> int (cache_size c) \<le> m)
    \<and> mc_hits c = mc_fresh_hits c + mc_stale_hits c
    \<and> cache_size c + mc_evictions c + mc_invalidations c + mc_expirations c \<le> mc_sets c"
proof -
  have "cache_inv c0" using mk_memory_cache_inv [OF assms(1)] by simp
  with assms(2) have inv: "cache_inv c" by (rule cache_machine.run_inv)
  have "cache_accounts c0"
    using assms(1) by (auto simp: mk_memory_cache_def res_iff cache_accounts_def split: if_splits)
  with assms(2) have "cache_accounts c" by (rule cache_ledger.run_inv)
  with inv show ?thesis by (auto simp: cache_inv_def cache_accounts_def cache_size_def)
qed

lemma cache_runs_invariant_witness:
  "\<exists>c0 c. mk_memory_cache (Some 1) PyNone (PyInt 4) = Inr c0
     \<and> run_of (cache_step deepcopy_payload) c0 [ReadSection [fixture_key ''a''], ClearSection] c
     \<and> mc_misses c = 1 \<and> mc_hits c = mc_fresh_hits c + mc_stale_hits c"
proof -
  define c0 where "c0 = \<lparr>mc_max_entries = Some 1, mc_entries = [], mc_hits = 0, mc_misses = 0,
                  mc_fresh_hits = 0, mc_stale_hits = 0, mc_sets = 0, mc_invalidations = 0,
                  mc_evictions = 0, mc_expirations = 0, mc_copies_closing = False\<rparr>"
  let ?c = "cache_clear (snd (get_many_locked 0 (\<lambda>_. all_values_policy) [fixture_key ''a''] c0))"
  have mk: "mk_memory_cache (Some 1) PyNone (PyInt 4) = Inr c0" by (simp add: mk_memory_cache_def c0_def)
  have run: "run_of (cache_step deepcopy_payload) c0 [ReadSection [fixture_key ''a''], ClearSection] ?c"
    by (rule run_cons, rule cache_step.step_read, rule run_cons, rule cache_step.step_clear, rule run_nil)
  have "mc_misses ?c = 1" by (simp add: c0_def cache_clear_def lookup_locked_def)
  moreover have "mc_hits ?c = mc_fresh_hits ?c + mc_stale_hits ?c"
    using cache_runs_invariant [OF mk run] by simp
  ultimately show ?thesis using mk run by (intro exI [of _ c0] exI [of _ ?c]) simp
qed

text \<open>
  Pruning removes exactly the entries older than the maximal stale age of their own
  policy, reports them in order, and leaves the others in place; if the policy provider
  raises for some entry nothing is removed.
\<close>

lemma prune_exact:
  assumes "distinct (od_keys (mc_entries c))"
  shows "case prune now resolve c of
      (Inl e, c') \<Rightarrow> c' = c \<and> (\<exists>k \<in> set (od_keys (mc_entries c)). resolve k = Inl e)
    | (Inr ks, c') \<Rightarrow>
        (\<forall>k \<in> set (od_keys (mc_entries c)). \<exists>pol. resolve k = Inr pol)
        \<and> ks = map fst (filter (\<lambda>(k, v). \<exists>pol. resolve k = Inr pol
                  \<and> flt (fp_max_stale_seconds pol) (Fin (max 0 (now - sv_observed_at v)))) (mc_entries c))
        \<and> mc_entries c' = filter (\<lambda>(k, v). \<nexists>pol. resolve k = Inr pol
                  \<and> flt (fp_max_stale_seconds pol) (Fin (max 0 (now - sv_observed_at v)))) (mc_entries c)
        \<and> mc_expirations c' = mc_expirations c + length ks"
proof -
  let ?old = "\<lambda>(k, v). \<exists>pol. resolve k = Inr pol
      \<and> flt (fp_max_stale_seconds pol) (Fin (max 0 (now - sv_observed_at v)))"
  have err: "\<exists>k \<in> set (od_keys es). resolve k = Inl e" if "expired_keys now resolve es = Inl e" for es e
    using that by (induction es) (auto simp: res_iff)
  have ok: "(\<forall>k \<in> set (od_keys es). \<exists>pol. resolve k = Inr pol) \<and> ks = map fst (filter ?old es)"
    if "expired_keys now resolve es = Inr ks" for es ks
    using that by (induction es arbitrary: ks) (fastforce simp: res_iff)+
  show ?thesis
  proof (cases "expired_keys now resolve (mc_entries c)")
    case (Inl e)
    with err show ?thesis by (simp add: prune_def)
  next
    case (Inr ks)
    note ks = conjunct2 [OF ok [OF Inr]]
    have "filter (\<lambda>p. fst p \<notin> set ks) (mc_entries c) = filter (\<lambda>p. \<not> ?old p) (mc_entries c)"
      using assms unfolding ks by (intro filter_cong refl) (force simp: distinct_map inj_on_def)
    moreover have "filter (\<lambda>p. \<not> ?old p) (mc_entries c) = filter (\<lambda>(k, v). \<nexists>pol. resolve k = Inr pol
                  \<and> flt (fp_max_stale_seconds pol) (Fin (max 0 (now - sv_observed_at v)))) (mc_entries c)"
      by (rule filter_cong) auto
    ultimately show ?thesis using Inr ok [OF Inr] by (simp add: prune_def pop_all_def foldl_pop_filter)
  qed
qed

lemma prune_exact_witness:
  "prune 20 (\<lambda>_. Inr (fixture_policy_ttl 2 5)) (fixture_cache None [fixture_value ''a'' 9 1, fixture_value ''b'' 18 0])
     = (Inr [fixture_key ''a''], (fixture_cache None [fixture_value ''b'' 18 0])\<lparr>mc_sets := 2, mc_expirations := 1\<rparr>)
   \<and> mc_expirations (snd (prune 20 (\<lambda>_. Inr (fixture_policy_ttl 2 5))
        (fixture_cache None [fixture_value ''a'' 9 1, fixture_value ''b'' 18 0]))) = 1"
proof -
  let ?c = "fixture_cache None [fixture_value ''a'' 9 1, fixture_value ''b'' 18 0]"
  let ?d = "(fixture_cache None [fixture_value ''b'' 18 0])\<lparr>mc_sets := 2, mc_expirations := 1\<rparr>"
  have run: "prune 20 (\<lambda>_. Inr (fixture_policy_ttl 2 5)) ?c = (Inr [fixture_key ''a''], ?d)"
    by (simp add: prune_def fixture_cache_def fixture_policy_ttl_def pop_all_def od_pop_def)
  have "distinct (od_keys (mc_entries ?c))" by (simp add: fixture_cache_def)
  from prune_exact [OF this, of "\<lambda>_. Inr (fixture_policy_ttl 2 5)" 20] show ?thesis
    unfolding run by (simp add: fixture_cache_def)
qed

end
