(* ===== verification/Policies.thy ===== *)
theory Policies
  imports Errors
begin

section \<open>Policies and their resolvers (core/authority.py, orchestration/policy.py, resilience/policy.py)\<close>

text \<open>
  Authority ranks, freshness, retry and circuit-breaker settings, and the resolvers that
  pick one: an explicit override first, then the dynamic resolver, then the default. A
  dynamic resolver is a function of the application, which may raise.
\<close>

subsection \<open>Authority\<close>

record authority_policy =
  ay_source_ranks :: "(string, int) odict"
  ay_default_rank :: int

fun normalize_ranks :: "(string, int) odict \<Rightarrow> (string \<times> int) list \<Rightarrow> arg_error + (string, int) odict" where
  "normalize_ranks acc [] = Inr acc"
| "normalize_ranks acc (p # rest) =
     (let nm = strip (fst p)
      in if nm = '''' then Inl (ValueError ''authority source names cannot be empty'')
         else if nm \<in> set (od_keys acc) then Inl (ValueError (''duplicate authority source name: '' @ nm))
         else normalize_ranks (od_set nm (snd p) acc) rest)"

definition mk_authority_policy :: "(string \<times> int) list \<Rightarrow> int \<Rightarrow> arg_error + authority_policy" where
  "mk_authority_policy ranks dflt =
     res_bind (normalize_ranks [] ranks) (\<lambda>rs.
       Inr \<lparr>ay_source_ranks = rs, ay_default_rank = dflt\<rparr>)"

definition policy_rank_for :: "authority_policy \<Rightarrow> string \<Rightarrow> arg_error + int" where
  "policy_rank_for p source =
     res_bind (normalize_source source) (\<lambda>nm.
       Inr (case map_of (ay_source_ranks p) nm of Some r \<Rightarrow> r | None \<Rightarrow> ay_default_rank p))"

record authority_resolver =
  au_default :: authority_policy
  au_overrides :: "(resource_key, authority_policy) odict"
  au_dynamic :: "(resource_key \<Rightarrow> py_error + authority_policy) option"

definition authority_resolve :: "authority_resolver \<Rightarrow> resource_key \<Rightarrow> py_error + authority_policy" where
  "authority_resolve r k =
     (case map_of (au_overrides r) k of
        Some p \<Rightarrow> Inr p
      | None \<Rightarrow> (case au_dynamic r of Some f \<Rightarrow> f k | None \<Rightarrow> Inr (au_default r)))"

definition authority_has_rules :: "authority_resolver \<Rightarrow> bool" where
  "authority_has_rules r \<longleftrightarrow> ay_source_ranks (au_default r) \<noteq> [] \<or> ay_default_rank (au_default r) \<noteq> 0
     \<or> au_overrides r \<noteq> [] \<or> au_dynamic r \<noteq> None"

definition authority_rank_for :: "authority_resolver \<Rightarrow> resource_key \<Rightarrow> string \<Rightarrow> py_error + int" where
  "authority_rank_for r k source =
     res_bind (authority_resolve r k) (\<lambda>p. lift_arg (policy_rank_for p source))"

definition default_authority :: authority_policy where
  "default_authority = \<lparr>ay_source_ranks = [], ay_default_rank = 0\<rparr>"

subsection \<open>Freshness\<close>

record policy_resolver =
  pr_default :: freshness_policy
  pr_overrides :: "(resource_key, freshness_policy) odict"
  pr_dynamic :: "(resource_key \<Rightarrow> py_error + freshness_policy) option"

definition policy_resolve :: "policy_resolver \<Rightarrow> resource_key \<Rightarrow> py_error + freshness_policy" where
  "policy_resolve r k =
     (case map_of (pr_overrides r) k of
        Some p \<Rightarrow> Inr p
      | None \<Rightarrow> (case pr_dynamic r of Some f \<Rightarrow> f k | None \<Rightarrow> Inr (pr_default r)))"

subsection \<open>Resilience\<close>

text \<open>
  Delays keep the number the caller gave, as an int or a float: the code computes with it
  unconverted.
\<close>

record retry_policy =
  rp_max_attempts :: int
  rp_base_delay_seconds :: pynum
  rp_max_delay_seconds :: pynum
  rp_jitter_ratio :: pynum

fun num_value :: "pynum \<Rightarrow> rat" where
  "num_value (NInt i) = of_int i"
| "num_value (NFloat (Fin x)) = x"
| "num_value (NFloat _) = 0"

definition finite_num_arg :: "string \<Rightarrow> pyval \<Rightarrow> arg_error + pynum" where
  "finite_num_arg nm v =
     res_bind (require (as_number v) (TypeError (nm @ '' must be a number''))) (\<lambda>n.
     res_bind (to_double n) (\<lambda>f.
       if isfinite f then Inr n else Inl (ValueError (nm @ '' must be finite''))))"

definition mk_retry_policy :: "pyval \<Rightarrow> pyval \<Rightarrow> pyval \<Rightarrow> pyval \<Rightarrow> arg_error + retry_policy" where
  "mk_retry_policy max_attempts base_delay max_delay jitter =
     res_bind (require (as_int max_attempts) (TypeError ''max_attempts must be an integer'')) (\<lambda>m.
       if m < 1 then Inl (ValueError ''max_attempts must be at least 1'')
       else
         res_bind (finite_num_arg ''base_delay_seconds'' base_delay) (\<lambda>b.
         res_bind (finite_num_arg ''max_delay_seconds'' max_delay) (\<lambda>x.
         res_bind (finite_num_arg ''jitter_ratio'' jitter) (\<lambda>j.
           if num_value b < 0 \<or> num_value x < 0 then Inl (ValueError ''retry delays cannot be negative'')
           else if num_value x < num_value b
             then Inl (ValueError ''max_delay_seconds cannot be smaller than base_delay_seconds'')
           else if \<not> (0 \<le> num_value j \<and> num_value j \<le> 1)
             then Inl (ValueError ''jitter_ratio must be between 0 and 1'')
           else Inr \<lparr>rp_max_attempts = m, rp_base_delay_seconds = b, rp_max_delay_seconds = x,
                     rp_jitter_ratio = j\<rparr>))))"

datatype circuit_scope = SOURCE | NAMESPACE | SUBJECT | RESOURCE

fun scope_value :: "circuit_scope \<Rightarrow> string" where
  "scope_value SOURCE = ''source''"
| "scope_value NAMESPACE = ''namespace''"
| "scope_value SUBJECT = ''subject''"
| "scope_value RESOURCE = ''resource''"

record circuit_policy =
  cbp_scope :: circuit_scope
  cbp_failure_threshold :: int
  cbp_recovery_timeout_seconds :: rat
  cbp_enabled :: bool

definition mk_circuit_policy :: "circuit_scope \<Rightarrow> pyval \<Rightarrow> pyval \<Rightarrow> bool \<Rightarrow> arg_error + circuit_policy" where
  "mk_circuit_policy scope threshold recovery enabled =
     res_bind (require (as_int threshold) (TypeError ''failure_threshold must be an integer'')) (\<lambda>t.
       if t < 1 then Inl (ValueError ''failure_threshold must be at least 1'')
       else res_bind (finite_num_arg ''recovery_timeout_seconds'' recovery) (\<lambda>r.
         if num_value r < 0 then Inl (ValueError ''recovery_timeout_seconds cannot be negative'')
         else Inr \<lparr>cbp_scope = scope, cbp_failure_threshold = t,
                   cbp_recovery_timeout_seconds = num_value r, cbp_enabled = enabled\<rparr>))"

record resilience_policy =
  rs_retry :: retry_policy
  rs_circuit :: circuit_policy

record resilience_resolver =
  rr_default :: resilience_policy
  rr_overrides :: "(string, resilience_policy) odict"
  rr_dynamic :: "(string \<Rightarrow> py_error + resilience_policy) option"

definition mk_resilience_resolver ::
  "resilience_policy \<Rightarrow> (string \<times> resilience_policy) list \<Rightarrow> (string \<Rightarrow> py_error + resilience_policy) option
    \<Rightarrow> arg_error + resilience_resolver" where
  "mk_resilience_resolver dflt overrides dynamic =
     res_bind (res_map (\<lambda>p. res_bind (normalize_source (fst p)) (\<lambda>nm. Inr (nm, snd p))) overrides) (\<lambda>os.
       Inr \<lparr>rr_default = dflt, rr_overrides = od_of os, rr_dynamic = dynamic\<rparr>)"

definition resilience_resolve ::
  "resilience_resolver \<Rightarrow> string \<Rightarrow> resilience_policy option \<Rightarrow> py_error + resilience_policy" where
  "resilience_resolve r source declared =
     res_bind (lift_arg (normalize_source source)) (\<lambda>nm.
       case map_of (rr_overrides r) nm of
         Some p \<Rightarrow> Inr p
       | None \<Rightarrow>
           (case rr_dynamic r of
              Some f \<Rightarrow> f nm
            | None \<Rightarrow> (case declared of Some p \<Rightarrow> Inr p | None \<Rightarrow> Inr (rr_default r))))"

subsection \<open>Lemmas\<close>

lemma finite_num_arg_Inr:
  "finite_num_arg nm v = Inr n \<Longrightarrow> as_number v = Some n \<and> to_double n = Inr (Fin (num_value n))"
  by (cases n; cases v) (auto simp: finite_num_arg_def res_iff split: if_splits elim!: isfiniteE)

definition retry_wf :: "retry_policy \<Rightarrow> bool" where
  "retry_wf p \<longleftrightarrow> 1 \<le> rp_max_attempts p \<and> 0 \<le> num_value (rp_base_delay_seconds p)
     \<and> num_value (rp_base_delay_seconds p) \<le> num_value (rp_max_delay_seconds p)
     \<and> 0 \<le> num_value (rp_jitter_ratio p) \<and> num_value (rp_jitter_ratio p) \<le> 1
     \<and> to_double (rp_base_delay_seconds p) = Inr (Fin (num_value (rp_base_delay_seconds p)))"

lemma mk_retry_policy_wf: "mk_retry_policy m b x j = Inr p \<Longrightarrow> retry_wf p"
  by (auto simp: mk_retry_policy_def res_iff retry_wf_def not_less split: if_splits dest: finite_num_arg_Inr)

definition circuit_policy_wf :: "circuit_policy \<Rightarrow> bool" where
  "circuit_policy_wf p \<longleftrightarrow> 1 \<le> cbp_failure_threshold p \<and> 0 \<le> cbp_recovery_timeout_seconds p"

lemma mk_circuit_policy_wf: "mk_circuit_policy s t r e = Inr p \<Longrightarrow> circuit_policy_wf p"
  by (auto simp: mk_circuit_policy_def res_iff circuit_policy_wf_def not_less split: if_splits)

lemma normalize_ranks_ok:
  "normalize_ranks acc ranks = Inr rs \<Longrightarrow> od_ok acc \<Longrightarrow> od_ok rs
    \<and> map_of rs = map_of acc ++ map_of (rev (map (\<lambda>p. (strip (fst p), snd p)) ranks))"
proof (induction ranks arbitrary: acc)
  case (Cons p ranks)
  from Cons.prems(1) have "normalize_ranks (od_set (strip (fst p)) (snd p) acc) ranks = Inr rs"
    by (auto simp: Let_def split: if_splits)
  from Cons.IH [OF this] Cons.prems(2) show ?case
    by (auto simp: map_add_def fun_eq_iff split: option.splits)
qed simp

lemma normalize_ranks_distinct:
  "normalize_ranks acc ranks = Inr rs \<Longrightarrow> distinct (od_keys acc) \<Longrightarrow>
     distinct (od_keys acc @ map (\<lambda>p. strip (fst p)) ranks) \<and> '''' \<notin> (\<lambda>p. strip (fst p)) ` set ranks"
proof (induction ranks arbitrary: acc)
  case (Cons p ranks)
  from Cons.prems(1) have fresh: "strip (fst p) \<noteq> ''''" "strip (fst p) \<notin> set (od_keys acc)"
    and rest: "normalize_ranks (od_set (strip (fst p)) (snd p) acc) ranks = Inr rs"
    by (auto simp: Let_def split: if_splits)
  from Cons.IH [OF rest] Cons.prems(2) fresh show ?case by (auto simp: od_keys_od_set)
qed simp

subsection \<open>Properties\<close>

text \<open>
  Authority ranks are resolved by normalized name. In an accepted policy every listed
  source has the rank listed for it, however the name is padded with white space, and every
  other source the default rank; two entries for one normalized name are never accepted.
\<close>

lemma authority_rank_exact:
  assumes "mk_authority_policy ranks dflt = Inr p" and "strip source \<noteq> ''''"
  shows "distinct (map (\<lambda>q. strip (fst q)) ranks)
    \<and> (\<forall>(nm, r) \<in> set ranks. strip nm = strip source \<longrightarrow> policy_rank_for p source = Inr r)
    \<and> (strip source \<notin> (\<lambda>q. strip (fst q)) ` set ranks \<longrightarrow> policy_rank_for p source = Inr dflt)"
proof -
  from assms(1) obtain rs where rs: "normalize_ranks [] ranks = Inr rs"
    and p: "p = \<lparr>ay_source_ranks = rs, ay_default_rank = dflt\<rparr>"
    by (auto simp: mk_authority_policy_def res_iff)
  let ?named = "map (\<lambda>q. (strip (fst q), snd q)) ranks"
  have dist: "distinct (map (\<lambda>q. strip (fst q)) ranks)" using normalize_ranks_distinct [OF rs] by simp
  then have ok: "od_ok ?named" by (simp add: comp_def)
  have look: "map_of rs = map_of ?named" using normalize_ranks_ok [OF rs] map_of_rev [OF ok] by simp
  have rank: "policy_rank_for p source = Inr (case map_of ?named (strip source) of Some r \<Rightarrow> r | None \<Rightarrow> dflt)"
    using assms(2) by (auto simp: policy_rank_for_def normalize_source_def p look split: option.splits)
  have "policy_rank_for p source = Inr r" if "(nm, r) \<in> set ranks" "strip nm = strip source" for nm r
  proof -
    have "(strip source, r) \<in> set ?named" using that by force
    with ok have "map_of ?named (strip source) = Some r" by simp
    with rank show ?thesis by simp
  qed
  moreover have "policy_rank_for p source = Inr dflt" if "strip source \<notin> (\<lambda>q. strip (fst q)) ` set ranks"
  proof -
    have "map_of ?named (strip source) = None" using that by (force simp: map_of_eq_None_iff)
    with rank show ?thesis by simp
  qed
  ultimately show ?thesis using dist by blast
qed

lemma authority_rank_exact_witness:
  "\<exists>p. mk_authority_policy [('' feed '', 2), (''stream'', 5)] 1 = Inr p
     \<and> policy_rank_for p ''feed'' = Inr 2 \<and> policy_rank_for p ''other'' = Inr 1"
proof -
  have strips: "strip '' feed '' = ''feed''" "strip ''feed'' = ''feed''" "strip ''stream'' = ''stream''" "strip ''other'' = ''other''"
    by (simp_all add: strip_def is_space_def)
  obtain p where p: "mk_authority_policy [('' feed '', 2), (''stream'', 5)] 1 = Inr p"
    by (simp add: mk_authority_policy_def strips)
  from authority_rank_exact [OF p, of "''feed''"] authority_rank_exact [OF p, of "''other''"] p show ?thesis
    by (simp add: strips)
qed

end
