(* ===== verification/Circuit_Breaker.thy ===== *)
theory Circuit_Breaker
  imports Policies
begin

section \<open>The circuit breaker (resilience/circuit_breaker.py)\<close>

text \<open>
  A breaker keeps one circuit per identity. Every operation is one locked section and hence
  one step; \<open>now\<close> is the value the monotonic clock shows in that section.
\<close>

datatype circuit_state = CLOSED | OPEN | HALF_OPEN

datatype circuit_identity = CircuitIdentity (ci_source: string) (ci_scope: circuit_scope) (ci_discriminator: string)

definition identity_str :: "circuit_identity \<Rightarrow> string" where
  "identity_str i =
     (let base = ci_source i @ ''['' @ scope_value (ci_scope i) @ '']''
      in if ci_discriminator i \<noteq> '''' then base @ '':'' @ ci_discriminator i else base)"

record circuit =
  ct_state :: circuit_state
  ct_failures :: int
  ct_opened_at :: rat
  ct_half_open_probe_active :: bool

definition new_circuit :: circuit where
  "new_circuit = \<lparr>ct_state = CLOSED, ct_failures = 0, ct_opened_at = 0, ct_half_open_probe_active = False\<rparr>"

record circuit_breaker =
  cb_default_policy :: circuit_policy
  cb_circuits :: "(circuit_identity, circuit) odict"

definition mk_circuit_breaker :: "pyval \<Rightarrow> pyval \<Rightarrow> circuit_policy option \<Rightarrow> arg_error + circuit_breaker" where
  "mk_circuit_breaker failure_threshold recovery default_policy =
     res_bind (case default_policy of
                 Some p \<Rightarrow> Inr p
               | None \<Rightarrow> mk_circuit_policy SOURCE failure_threshold recovery True) (\<lambda>p.
       Inr \<lparr>cb_default_policy = p, cb_circuits = []\<rparr>)"

definition identity_for ::
  "circuit_breaker \<Rightarrow> string \<Rightarrow> resource_key option \<Rightarrow> circuit_scope option \<Rightarrow> arg_error + circuit_identity" where
  "identity_for b source key scope =
     res_bind (normalize_source source) (\<lambda>nm.
       let resolved_scope = (case scope of Some s \<Rightarrow> s | None \<Rightarrow> cbp_scope (cb_default_policy b))
       in if resolved_scope = SOURCE then Inr (CircuitIdentity nm resolved_scope '''')
          else case key of
            None \<Rightarrow> Inl (ValueError (''resource key is required for circuit scope '' @ scope_value resolved_scope))
          | Some k \<Rightarrow>
              Inr (CircuitIdentity nm resolved_scope
                (case resolved_scope of
                   NAMESPACE \<Rightarrow> rk_namespace k
                 | SUBJECT \<Rightarrow> if rk_subject k \<noteq> '''' then rk_subject k else rk_namespace k @ '':'' @ rk_name k
                 | _ \<Rightarrow> key_str k)))"

definition policy_or_default :: "circuit_breaker \<Rightarrow> circuit_policy option \<Rightarrow> circuit_policy" where
  "policy_or_default b policy = (case policy of Some p \<Rightarrow> p | None \<Rightarrow> cb_default_policy b)"

definition circuit_at :: "circuit_breaker \<Rightarrow> circuit_identity \<Rightarrow> circuit" where
  "circuit_at b i = (case map_of (cb_circuits b) i of Some c \<Rightarrow> c | None \<Rightarrow> new_circuit)"

definition put_circuit :: "circuit_identity \<Rightarrow> circuit \<Rightarrow> circuit_breaker \<Rightarrow> circuit_breaker" where
  "put_circuit i c b = b\<lparr>cb_circuits := od_set i c (cb_circuits b)\<rparr>"

text \<open>
  The transition of one circuit in \<open>before_call\<close>: whether the call is admitted, with the
  message if it is not.
\<close>

definition admit :: "circuit_policy \<Rightarrow> circuit_identity \<Rightarrow> rat \<Rightarrow> circuit \<Rightarrow> (py_error + unit) \<times> circuit" where
  "admit p i now c =
     (if ct_state c = CLOSED then (Inr (), c)
      else if ct_state c = OPEN \<and> now - ct_opened_at c < cbp_recovery_timeout_seconds p
      then (Inl (CircuitOpenError (''circuit is open for '' @ identity_str i)), c)
      else
        let c' = (if ct_state c = OPEN then c\<lparr>ct_state := HALF_OPEN\<rparr> else c)
        in if ct_half_open_probe_active c'
           then (Inl (CircuitOpenError (''half-open probe already active for '' @ identity_str i)), c')
           else (Inr (), c'\<lparr>ct_half_open_probe_active := True\<rparr>))"

definition on_success :: "circuit \<Rightarrow> circuit" where
  "on_success c = c\<lparr>ct_state := CLOSED, ct_failures := 0, ct_opened_at := 0, ct_half_open_probe_active := False\<rparr>"

definition on_failure :: "circuit_policy \<Rightarrow> rat \<Rightarrow> circuit \<Rightarrow> circuit" where
  "on_failure p now c =
     (let c' = c\<lparr>ct_half_open_probe_active := False, ct_failures := ct_failures c + 1\<rparr>
      in if cbp_failure_threshold p \<le> ct_failures c' \<or> ct_state c' = HALF_OPEN
         then c'\<lparr>ct_state := OPEN, ct_opened_at := now\<rparr> else c')"

definition on_abandoned :: "rat \<Rightarrow> circuit \<Rightarrow> circuit" where
  "on_abandoned now c =
     (let c' = (if ct_state c = HALF_OPEN \<and> ct_half_open_probe_active c
                then c\<lparr>ct_state := OPEN, ct_opened_at := now\<rparr> else c)
      in c'\<lparr>ct_half_open_probe_active := False\<rparr>)"

definition on_skipped :: "circuit \<Rightarrow> circuit" where
  "on_skipped c = c\<lparr>ct_half_open_probe_active := False\<rparr>"

definition before_call ::
  "string \<Rightarrow> resource_key option \<Rightarrow> circuit_policy option \<Rightarrow> rat \<Rightarrow> circuit_breaker
    \<Rightarrow> (py_error + circuit_identity) \<times> circuit_breaker" where
  "before_call source key policy now b =
     (let p = policy_or_default b policy
      in case identity_for b source key (Some (cbp_scope p)) of
           Inl e \<Rightarrow> (Inl (ArgError e), b)
         | Inr i \<Rightarrow>
             if \<not> cbp_enabled p then (Inr i, b)
             else let (r, c) = admit p i now (circuit_at b i)
                  in (res_bind r (\<lambda>_. Inr i), put_circuit i c b))"

text \<open>
  The recording operations: \<open>record_success\<close> and \<open>record_failure\<close> create the circuit when it
  is missing, the two others leave a missing circuit alone.
\<close>

definition record_outcome ::
  "bool \<Rightarrow> (circuit_policy \<Rightarrow> circuit \<Rightarrow> circuit) \<Rightarrow> string \<Rightarrow> resource_key option \<Rightarrow> circuit_policy option
    \<Rightarrow> circuit_breaker \<Rightarrow> (py_error + unit) \<times> circuit_breaker" where
  "record_outcome creates f source key policy b =
     (let p = policy_or_default b policy
      in if \<not> cbp_enabled p then (Inr (), b)
         else case identity_for b source key (Some (cbp_scope p)) of
           Inl e \<Rightarrow> (Inl (ArgError e), b)
         | Inr i \<Rightarrow>
             if \<not> creates \<and> map_of (cb_circuits b) i = None then (Inr (), b)
             else (Inr (), put_circuit i (f p (circuit_at b i)) b))"

definition record_success ::
  "string \<Rightarrow> resource_key option \<Rightarrow> circuit_policy option \<Rightarrow> circuit_breaker \<Rightarrow> (py_error + unit) \<times> circuit_breaker" where
  "record_success source key policy b = record_outcome True (\<lambda>p. on_success) source key policy b"

definition record_failure ::
  "string \<Rightarrow> resource_key option \<Rightarrow> circuit_policy option \<Rightarrow> rat \<Rightarrow> circuit_breaker \<Rightarrow> (py_error + unit) \<times> circuit_breaker" where
  "record_failure source key policy now b = record_outcome True (\<lambda>p. on_failure p now) source key policy b"

definition record_abandoned ::
  "string \<Rightarrow> resource_key option \<Rightarrow> circuit_policy option \<Rightarrow> rat \<Rightarrow> circuit_breaker \<Rightarrow> (py_error + unit) \<times> circuit_breaker" where
  "record_abandoned source key policy now b = record_outcome False (\<lambda>p. on_abandoned now) source key policy b"

definition record_skipped ::
  "string \<Rightarrow> resource_key option \<Rightarrow> circuit_policy option \<Rightarrow> circuit_breaker \<Rightarrow> (py_error + unit) \<times> circuit_breaker" where
  "record_skipped source key policy b = record_outcome False (\<lambda>p. on_skipped) source key policy b"

definition state_for ::
  "string \<Rightarrow> resource_key option \<Rightarrow> circuit_policy option \<Rightarrow> circuit_breaker \<Rightarrow> py_error + circuit_state" where
  "state_for source key policy b =
     (let p = policy_or_default b policy
      in if \<not> cbp_enabled p then Inr CLOSED
         else res_bind (lift_arg (identity_for b source key (Some (cbp_scope p)))) (\<lambda>i.
                Inr (ct_state (circuit_at b i))))"

definition breaker_snapshot :: "circuit_breaker \<Rightarrow> (circuit_identity, circuit) odict" where
  "breaker_snapshot b = cb_circuits b"

definition breaker_reset ::
  "string option \<Rightarrow> resource_key option \<Rightarrow> circuit_policy option \<Rightarrow> circuit_breaker \<Rightarrow> (py_error + unit) \<times> circuit_breaker" where
  "breaker_reset source key policy b =
     (case source of
        None \<Rightarrow> (Inr (), b\<lparr>cb_circuits := []\<rparr>)
      | Some src \<Rightarrow>
          (case identity_for b src key (Some (cbp_scope (policy_or_default b policy))) of
             Inl e \<Rightarrow> (Inl (ArgError e), b)
           | Inr i \<Rightarrow> (Inr (), b\<lparr>cb_circuits := od_pop i (cb_circuits b)\<rparr>)))"

subsection \<open>One circuit as a machine\<close>

text \<open>
  The life of one circuit under one enabled policy: what happens to it, in the order of the
  locked sections.
\<close>

datatype circuit_event = Passed | Probed | Refused | Succeeded | Failed | Abandoned | Skipped | Reset

inductive circuit_step :: "circuit_policy \<Rightarrow> circuit \<times> rat \<Rightarrow> circuit_event \<Rightarrow> circuit \<times> rat \<Rightarrow> bool"
  for p where
  cs_admit: "now \<le> now' \<Longrightarrow> admit p i now' c = (Inr (), c') \<Longrightarrow> circuit_step p (c, now) (if ct_state c = CLOSED then Passed else Probed) (c', now')"
| cs_refuse: "now \<le> now' \<Longrightarrow> admit p i now' c = (Inl e, c') \<Longrightarrow> circuit_step p (c, now) Refused (c', now')"
| cs_success: "now \<le> now' \<Longrightarrow> circuit_step p (c, now) Succeeded (on_success c, now')"
| cs_failure: "now \<le> now' \<Longrightarrow> circuit_step p (c, now) Failed (on_failure p now' c, now')"
| cs_abandon: "now \<le> now' \<Longrightarrow> circuit_step p (c, now) Abandoned (on_abandoned now' c, now')"
| cs_skip: "now \<le> now' \<Longrightarrow> circuit_step p (c, now) Skipped (on_skipped c, now')"
| cs_reset: "now \<le> now' \<Longrightarrow> circuit_step p (c, now) Reset (new_circuit, now')"

inductive_cases circuit_stepE: "circuit_step p s e t"

lemmas circuit_defs = admit_def on_success_def on_failure_def on_abandoned_def on_skipped_def new_circuit_def Let_def

definition circuit_inv :: "circuit_policy \<Rightarrow> circuit \<times> rat \<Rightarrow> bool" where
  "circuit_inv p s \<longleftrightarrow> (case s of (c, now) \<Rightarrow>
     0 \<le> ct_failures c
     \<and> (ct_half_open_probe_active c \<longrightarrow> ct_state c = HALF_OPEN)
     \<and> (ct_state c = CLOSED \<longrightarrow> ct_failures c < cbp_failure_threshold p)
     \<and> (ct_state c = OPEN \<longrightarrow> ct_opened_at c \<le> now))"

lemma half_open_otherwise: "st \<noteq> CLOSED \<Longrightarrow> st \<noteq> OPEN \<Longrightarrow> st = HALF_OPEN"
  by (cases st) auto

lemma circuit_step_inv:
  assumes "circuit_policy_wf p" "circuit_inv p s" "circuit_step p s e t"
  shows "circuit_inv p t"
  using assms(3,1,2)
  by (cases rule: circuit_step.cases)
    (auto simp: circuit_inv_def circuit_defs circuit_policy_wf_def split: if_splits intro: half_open_otherwise)

text \<open>The machine of a circuit: its policy is one the constructor accepts.\<close>

definition guarded_step :: "circuit_policy \<Rightarrow> circuit \<times> rat \<Rightarrow> circuit_event \<Rightarrow> circuit \<times> rat \<Rightarrow> bool" where
  "guarded_step p s e t \<longleftrightarrow> circuit_policy_wf p \<and> circuit_step p s e t"

interpretation circuit_machine: machine "guarded_step p" "circuit_inv p" for p
  by unfold_locales (auto simp: guarded_step_def intro: circuit_step_inv)

subsection \<open>Counting over runs\<close>

definition is_outcome :: "circuit_event \<Rightarrow> bool" where
  "is_outcome e = (e \<in> {Succeeded, Failed, Abandoned, Skipped, Reset})"

definition probes_in_flight :: "circuit \<times> rat \<Rightarrow> nat" where
  "probes_in_flight s = (if ct_half_open_probe_active (fst s) then 1 else 0)"

lemma probe_step:
  assumes "circuit_inv p s" "circuit_step p s e t"
  shows "(if e = Probed then 1 else 0) + probes_in_flight s \<le> (if is_outcome e then 1 else 0) + probes_in_flight t"
  using assms(2,1)
  by (cases rule: circuit_step.cases)
    (auto simp: circuit_inv_def circuit_defs probes_in_flight_def is_outcome_def split: if_splits)

lemma probe_run:
  "run_of (guarded_step p) s es t \<Longrightarrow> circuit_inv p s \<Longrightarrow>
   count_list es Probed + probes_in_flight s \<le> length (filter is_outcome es) + probes_in_flight t"
proof (induction rule: run_of.induct)
  case (run_cons s e t es u)
  then have step: "circuit_step p s e t" and inv: "circuit_inv p t"
    by (auto simp: guarded_step_def intro: circuit_step_inv)
  from probe_step [OF run_cons.prems step] run_cons.IH [OF inv] show ?case by (auto split: if_splits)
qed simp

text \<open>As long as nothing closes the circuit, the failure count is the number of failures.\<close>

definition failing_inv :: "circuit_policy \<Rightarrow> int \<Rightarrow> circuit \<times> rat \<Rightarrow> bool" where
  "failing_inv p n s \<longleftrightarrow> ct_failures (fst s) = n \<and> (ct_state (fst s) = CLOSED \<longleftrightarrow> n < cbp_failure_threshold p)"

lemma failing_step:
  assumes "failing_inv p n s" "circuit_step p s e t" "e \<noteq> Succeeded" "e \<noteq> Reset"
  shows "failing_inv p (if e = Failed then n + 1 else n) t"
  using assms(2,1,3,4)
  by (cases rule: circuit_step.cases) (auto simp: failing_inv_def circuit_defs split: if_splits)

lemma failing_run:
  "run_of (guarded_step p) s es t \<Longrightarrow> failing_inv p n s \<Longrightarrow> Succeeded \<notin> set es \<Longrightarrow> Reset \<notin> set es \<Longrightarrow>
   failing_inv p (n + int (count_list es Failed)) t"
proof (induction arbitrary: n rule: run_of.induct)
  case (run_cons s e t es u)
  have "failing_inv p (if e = Failed then n + 1 else n) t"
    using run_cons by (intro failing_step) (auto simp: guarded_step_def)
  from run_cons.IH [OF this] run_cons.prems show ?case by (auto simp: algebra_simps split: if_splits)
qed simp

subsection \<open>The breaker runs its circuits independently\<close>

lemma circuit_at_put [simp]: "circuit_at (put_circuit i c b) j = (if j = i then c else circuit_at b j)"
  by (simp add: circuit_at_def put_circuit_def)

lemma put_circuit_default [simp]: "cb_default_policy (put_circuit i c b) = cb_default_policy b"
  by (simp add: put_circuit_def)

lemma identity_for_put [simp]: "identity_for (put_circuit i c b) source key sc = identity_for b source key sc"
  by (simp only: identity_for_def put_circuit_default)

lemma before_call_enabled:
  assumes "cbp_enabled p" "identity_for b source key (Some (cbp_scope p)) = Inr i"
  shows "before_call source key (Some p) now b =
    (res_bind (fst (admit p i now (circuit_at b i))) (\<lambda>_. Inr i), put_circuit i (snd (admit p i now (circuit_at b i))) b)"
  using assms by (simp add: before_call_def policy_or_default_def split_beta)

lemma record_outcome_enabled:
  assumes "cbp_enabled p" "identity_for b source key (Some (cbp_scope p)) = Inr i"
    and "creates \<or> f p new_circuit = new_circuit"
  shows "fst (record_outcome creates f source key (Some p) b) = Inr ()"
    and "circuit_at (snd (record_outcome creates f source key (Some p) b)) j
      = (if j = i then f p (circuit_at b i) else circuit_at b j)"
proof -
  have ro: "record_outcome creates f source key (Some p) b =
      (if \<not> creates \<and> map_of (cb_circuits b) i = None then (Inr (), b)
       else (Inr (), put_circuit i (f p (circuit_at b i)) b))"
    using assms(1,2) by (simp add: record_outcome_def policy_or_default_def)
  then show "fst (record_outcome creates f source key (Some p) b) = Inr ()" by simp
  show "circuit_at (snd (record_outcome creates f source key (Some p) b)) j
      = (if j = i then f p (circuit_at b i) else circuit_at b j)"
  proof (cases "\<not> creates \<and> map_of (cb_circuits b) i = None")
    case True
    then have "circuit_at b i = new_circuit" by (simp add: circuit_at_def)
    moreover have "record_outcome creates f source key (Some p) b = (Inr (), b)" unfolding ro by (rule if_P [OF True])
    ultimately show ?thesis using True assms(3) by simp
  next
    case False
    then show ?thesis by (simp only: ro if_not_P snd_conv circuit_at_put) simp
  qed
qed

subsection \<open>Properties\<close>

definition fixture_circuit_policy :: circuit_policy where
  "fixture_circuit_policy = \<lparr>cbp_scope = RESOURCE, cbp_failure_threshold = 2, cbp_recovery_timeout_seconds = 10,
     cbp_enabled = True\<rparr>"

text \<open>
  the circuit opens exactly at the threshold. After any history of a new circuit without a
  success or a reset, however admissions, failures, abandoned and skipped calls interleave,
  it is closed if and only if fewer failures were recorded than the threshold.
\<close>

lemma circuit_opens_at_threshold:
  assumes "run_of (guarded_step p) (new_circuit, t0) events (c, t)"
    and "circuit_policy_wf p" and "Succeeded \<notin> set events" and "Reset \<notin> set events"
  shows "(ct_state c = CLOSED) \<longleftrightarrow> int (count_list events Failed) < cbp_failure_threshold p"
proof -
  have "failing_inv p 0 (new_circuit, t0)"
    using assms(2) by (simp add: failing_inv_def new_circuit_def circuit_policy_wf_def)
  from failing_run [OF assms(1) this assms(3,4)] show ?thesis by (simp add: failing_inv_def)
qed

lemma circuit_opens_at_threshold_witness:
  "\<exists>c t. run_of (guarded_step fixture_circuit_policy) (new_circuit, 0) [Failed, Failed] (c, t) \<and> ct_state c = OPEN"
proof -
  let ?p = fixture_circuit_policy
  let ?c = "on_failure ?p 2 (on_failure ?p 1 new_circuit)"
  have wf: "circuit_policy_wf ?p" by (simp add: circuit_policy_wf_def fixture_circuit_policy_def)
  have "guarded_step ?p (new_circuit, 0) Failed (on_failure ?p 1 new_circuit, 1)"
    "guarded_step ?p (on_failure ?p 1 new_circuit, 1) Failed (?c, 2)"
    using wf by (auto simp: guarded_step_def intro: circuit_step.cs_failure)
  then have run: "run_of (guarded_step ?p) (new_circuit, 0) [Failed, Failed] (?c, 2)"
    by (blast intro: run_cons run_nil)
  from circuit_opens_at_threshold [OF run wf] have "ct_state ?c \<noteq> CLOSED" by (simp add: fixture_circuit_policy_def)
  then have "ct_state ?c = OPEN" by (simp add: circuit_defs fixture_circuit_policy_def)
  with run show ?thesis by (intro exI conjI)
qed



text \<open>
  recovery of the breaker. While a circuit is open, calls are refused and nothing changes
  until the recovery timeout has passed. The first call after that is admitted as a probe
  and every further one is refused; then a success closes the circuit, a failure opens it
  for another timeout, and no circuit of another identity is touched.
\<close>

lemma breaker_recovery:
  assumes "cbp_enabled p" and "identity_for b source key (Some (cbp_scope p)) = Inr i"
    and "ct_state (circuit_at b i) = OPEN" and "\<not> ct_half_open_probe_active (circuit_at b i)"
  shows "if now - ct_opened_at (circuit_at b i) < cbp_recovery_timeout_seconds p
    then fst (before_call source key (Some p) now b) = Inl (CircuitOpenError (''circuit is open for '' @ identity_str i))
       \<and> circuit_at (snd (before_call source key (Some p) now b)) = circuit_at b
    else let b1 = snd (before_call source key (Some p) now b)
      in fst (before_call source key (Some p) now b) = Inr i
       \<and> (\<forall>now'. fst (before_call source key (Some p) now' b1)
              = Inl (CircuitOpenError (''half-open probe already active for '' @ identity_str i)))
       \<and> circuit_at (snd (record_success source key (Some p) b1)) = (circuit_at b)(i := new_circuit)
       \<and> (\<forall>now'. let c = circuit_at (snd (record_failure source key (Some p) now' b1))
            in ct_state (c i) = OPEN \<and> ct_opened_at (c i) = now' \<and> \<not> ct_half_open_probe_active (c i)
             \<and> (\<forall>j. j \<noteq> i \<longrightarrow> c j = circuit_at b j))"
proof (cases "now - ct_opened_at (circuit_at b i) < cbp_recovery_timeout_seconds p")
  case True
  then have "admit p i now (circuit_at b i)
      = (Inl (CircuitOpenError (''circuit is open for '' @ identity_str i)), circuit_at b i)"
    using assms(3) by (simp add: admit_def)
  with True show ?thesis by (auto simp: before_call_enabled [OF assms(1,2)])
next
  case False
  let ?c = "(circuit_at b i)\<lparr>ct_state := HALF_OPEN, ct_half_open_probe_active := True\<rparr>"
  have admitted: "admit p i now (circuit_at b i) = (Inr (), ?c)"
    using False assms(3,4) by (simp add: admit_def)
  have refused: "admit p i now' ?c
      = (Inl (CircuitOpenError (''half-open probe already active for '' @ identity_str i)), ?c)" for now'
    by (simp add: admit_def)
  have ident: "identity_for (put_circuit i ?c b) source key (Some (cbp_scope p)) = Inr i" using assms(2) by simp
  have success: "circuit_at (snd (record_success source key (Some p) (put_circuit i ?c b))) = (circuit_at b)(i := new_circuit)"
    unfolding record_success_def
    by (rule ext) (simp add: record_outcome_enabled [OF assms(1) ident] on_success_def new_circuit_def)
  have failure: "circuit_at (snd (record_failure source key (Some p) now' (put_circuit i ?c b)))
      = (circuit_at b)(i := on_failure p now' ?c)" for now'
    unfolding record_failure_def by (rule ext) (simp add: record_outcome_enabled [OF assms(1) ident])
  show ?thesis
    using False by (simp add: before_call_enabled [OF assms(1,2)] admitted before_call_enabled [OF assms(1) ident]
        refused success failure Let_def) (simp add: on_failure_def Let_def)
qed

text \<open>A breaker with one open circuit, opened at time 5.\<close>

definition fixture_open_breaker :: circuit_breaker where
  "fixture_open_breaker = \<lparr>cb_default_policy = fixture_circuit_policy,
     cb_circuits = [(CircuitIdentity ''feed'' RESOURCE ''market:book'',
        \<lparr>ct_state = OPEN, ct_failures = 2, ct_opened_at = 5, ct_half_open_probe_active = False\<rparr>)]\<rparr>"

lemma fixture_open_identity:
  "identity_for fixture_open_breaker ''feed'' (Some (fixture_key ''book'')) (Some RESOURCE)
     = Inr (CircuitIdentity ''feed'' RESOURCE ''market:book'')"
  by (simp add: identity_for_def normalize_source_def strip_def is_space_def fixture_key_def key_str_def)

lemma breaker_recovery_witness:
  "fst (before_call ''feed'' (Some (fixture_key ''book'')) (Some fixture_circuit_policy) 20 fixture_open_breaker)
     = Inr (CircuitIdentity ''feed'' RESOURCE ''market:book'')
   \<and> (\<exists>e. fst (before_call ''feed'' (Some (fixture_key ''book'')) (Some fixture_circuit_policy) 9 fixture_open_breaker) = Inl e)"
proof -
  let ?i = "CircuitIdentity ''feed'' RESOURCE ''market:book''"
  have p: "cbp_enabled fixture_circuit_policy" "cbp_scope fixture_circuit_policy = RESOURCE"
    "cbp_recovery_timeout_seconds fixture_circuit_policy = 10" by (simp_all add: fixture_circuit_policy_def)
  have c: "ct_state (circuit_at fixture_open_breaker ?i) = OPEN" "ct_opened_at (circuit_at fixture_open_breaker ?i) = 5"
    "\<not> ct_half_open_probe_active (circuit_at fixture_open_breaker ?i)"
    by (simp_all add: circuit_at_def fixture_open_breaker_def)
  note rec = breaker_recovery [of fixture_circuit_policy fixture_open_breaker "''feed''" "Some (fixture_key ''book'')" ?i,
      unfolded p(2), OF p(1) fixture_open_identity c(1,3)]
  from rec [of 20] rec [of 9] show ?thesis by (simp add: c(2) p(3) Let_def)
qed

text \<open>
  circuits of scope RESOURCE are not isolated per resource: the identity is the text of
  the key, which two different keys can share, so that failures recorded for one resource
  make the breaker refuse calls for the other.
\<close>

lemma resource_scope_shared_circuit:
  "\<exists>a b breaker. a \<noteq> b \<and> key_wf a \<and> key_wf b
     \<and> breaker = snd (record_failure ''feed'' (Some a) (Some fixture_circuit_policy) 1
                   (snd (record_failure ''feed'' (Some a) (Some fixture_circuit_policy) 0
                      \<lparr>cb_default_policy = fixture_circuit_policy, cb_circuits = []\<rparr>)))
     \<and> (\<exists>e. fst (before_call ''feed'' (Some b) (Some fixture_circuit_policy) 2 breaker) = Inl (CircuitOpenError e))"
proof -
  let ?a = "ResourceKey ''a'' ''b:c'' '''' []" and ?b = "ResourceKey ''a'' ''b'' ''c'' []"
  let ?p = fixture_circuit_policy and ?i = "CircuitIdentity ''feed'' RESOURCE ''a:b:c''"
  let ?start = "\<lparr>cb_default_policy = ?p, cb_circuits = []\<rparr> :: circuit_breaker"
  have scope: "cbp_scope ?p = RESOURCE" "cbp_enabled ?p" by (simp_all add: fixture_circuit_policy_def)
  have ident: "identity_for br ''feed'' (Some ?a) (Some RESOURCE) = Inr ?i"
    "identity_for br ''feed'' (Some ?b) (Some RESOURCE) = Inr ?i" for br
    by (simp_all add: identity_for_def normalize_source_def strip_def is_space_def key_str_def)
  let ?once = "snd (record_failure ''feed'' (Some ?a) (Some ?p) 0 ?start)"
  let ?twice = "snd (record_failure ''feed'' (Some ?a) (Some ?p) 1 ?once)"
  have after: "circuit_at (snd (record_failure ''feed'' (Some ?a) (Some ?p) now br)) ?i
      = on_failure ?p now (circuit_at br ?i)" for now br
    unfolding record_failure_def
    using record_outcome_enabled(2) [OF scope(2), of br "''feed''" "Some ?a" ?i True "\<lambda>p. on_failure p now" ?i]
    by (simp add: scope ident)
  have "circuit_at ?twice ?i = on_failure ?p 1 (on_failure ?p 0 new_circuit)"
    by (simp add: after) (simp add: circuit_at_def)
  then have "ct_state (circuit_at ?twice ?i) = OPEN" "ct_opened_at (circuit_at ?twice ?i) = 1"
    by (simp_all add: circuit_defs fixture_circuit_policy_def)
  then have "fst (before_call ''feed'' (Some ?b) (Some ?p) 2 ?twice)
      = Inl (CircuitOpenError (''circuit is open for '' @ identity_str ?i))"
    using before_call_enabled [OF scope(2), of ?twice "''feed''" "Some ?b" ?i 2]
    by (simp add: scope ident admit_def) (simp add: fixture_circuit_policy_def)
  then show ?thesis
    by (intro exI [of _ ?a] exI [of _ ?b] exI [of _ ?twice]) (simp add: key_wf_def)
qed

end
