(* ===== verification/Retry.thy ===== *)
theory Retry
  imports Policies
begin

section \<open>Retries (resilience/retry.py)\<close>

text \<open>
  \<open>run_with_retry\<close> over a world of type \<open>'s\<close>: \<open>operation\<close> and \<open>sleep\<close> change it and
  \<open>monotonic\<close> reads its clock. \<open>uniform a b\<close> is the random number of
  \<^verbatim>\<open>random.uniform(a, b)\<close>. An exception carries the attempt count the code attaches to it;
  \<open>None\<close> is an exception without that attribute.
\<close>

definition delay_for_attempt :: "(rat \<Rightarrow> rat \<Rightarrow> rat) \<Rightarrow> retry_policy \<Rightarrow> int \<Rightarrow> arg_error + rat" where
  "delay_for_attempt uniform p attempt =
     (let factor = 2 ^ nat (max 0 (attempt - 1)) :: int
      in res_bind (case rp_base_delay_seconds p of
                     NInt i \<Rightarrow> Inr (of_int (i * factor))
                   | NFloat f \<Rightarrow> res_bind (to_double (NInt factor)) (\<lambda>_. Inr (num_value (NFloat f) * of_int factor)))
           (\<lambda>scaled.
             let base = min (num_value (rp_max_delay_seconds p)) scaled; ratio = num_value (rp_jitter_ratio p)
             in if base = 0 \<or> ratio = 0 then Inr base
                else let jitter = base * ratio in Inr (max 0 (base + uniform (- jitter) jitter))))"

definition attempts_for :: "int option \<Rightarrow> int \<Rightarrow> int" where
  "attempts_for recorded dflt = max 1 (case recorded of Some n \<Rightarrow> n | None \<Rightarrow> dflt)"

type_synonym raised = "py_error \<times> int option"

text \<open>The loop \<^verbatim>\<open>for attempt in range(1, max_attempts + 1)\<close>, from \<open>attempt\<close> on.\<close>

fun retry_loop ::
  "nat \<Rightarrow> int \<Rightarrow> ('s \<Rightarrow> (py_error + 'a) \<times> 's) \<Rightarrow> (rat \<Rightarrow> rat \<Rightarrow> rat) \<Rightarrow> retry_policy \<Rightarrow> (py_error \<Rightarrow> bool)
    \<Rightarrow> rat option \<Rightarrow> ('s \<Rightarrow> rat) \<Rightarrow> (rat \<Rightarrow> 's \<Rightarrow> 's) \<Rightarrow> 's \<Rightarrow> (raised + 'a \<times> int) \<times> 's" where
  "retry_loop 0 attempt operation uniform p retryable deadline monotonic sleep s =
     (Inl (RuntimeError ''retry loop completed without result'', None), s)"
| "retry_loop (Suc n) attempt operation uniform p retryable deadline monotonic sleep s =
     (let (r, s') = operation s
      in case r of
           Inr x \<Rightarrow> (Inr (x, attempt), s')
         | Inl e \<Rightarrow>
             if \<not> is_exception e then (Inl (e, None), s')
             else if rp_max_attempts p \<le> attempt \<or> \<not> retryable e then (Inl (e, Some attempt), s')
             else case delay_for_attempt uniform p attempt of
                    Inl err \<Rightarrow> (Inl (ArgError err, None), s')
                  | Inr delay \<Rightarrow>
                      if (case deadline of
                            None \<Rightarrow> False
                          | Some d \<Rightarrow> d - monotonic s' \<le> 0 \<or> d - monotonic s' \<le> delay)
                      then (Inl (e, Some attempt), s')
                      else retry_loop n (attempt + 1) operation uniform p retryable deadline monotonic sleep
                             (if 0 < delay then sleep delay s' else s'))"

definition run_with_retry ::
  "('s \<Rightarrow> (py_error + 'a) \<times> 's) \<Rightarrow> (rat \<Rightarrow> rat \<Rightarrow> rat) \<Rightarrow> retry_policy \<Rightarrow> (py_error \<Rightarrow> bool)
    \<Rightarrow> rat option \<Rightarrow> ('s \<Rightarrow> rat) \<Rightarrow> (rat \<Rightarrow> 's \<Rightarrow> 's) \<Rightarrow> 's \<Rightarrow> (raised + 'a \<times> int) \<times> 's" where
  "run_with_retry operation uniform p retryable deadline monotonic sleep s =
     retry_loop (nat (rp_max_attempts p)) 1 operation uniform p retryable deadline monotonic sleep s"

subsection \<open>Lemmas\<close>

text \<open>What \<^verbatim>\<open>random.uniform\<close> documents.\<close>

definition uniform_ok :: "(rat \<Rightarrow> rat \<Rightarrow> rat) \<Rightarrow> bool" where
  "uniform_ok uniform \<longleftrightarrow> (\<forall>a b. a \<le> b \<longrightarrow> a \<le> uniform a b \<and> uniform a b \<le> b)"

lemma power_below_overflow: "n \<le> 1023 \<Longrightarrow> (2 :: int) ^ n < double_overflow"
proof -
  assume "n \<le> 1023"
  then have "(2 :: int) ^ n \<le> 2 ^ 1023" by (intro power_increasing) auto
  also have "(2 :: int) ^ 1023 < double_overflow" by (simp add: double_overflow_def)
  finally show ?thesis .
qed

lemma scaled_delay:
  assumes "retry_wf p" "1 \<le> attempt" "attempt \<le> 1024"
  shows "(case rp_base_delay_seconds p of
           NInt i \<Rightarrow> Inr (of_int (i * 2 ^ nat (max 0 (attempt - 1))))
         | NFloat f \<Rightarrow> res_bind (to_double (NInt (2 ^ nat (max 0 (attempt - 1)))))
             (\<lambda>_. Inr (num_value (NFloat f) * of_int (2 ^ nat (max 0 (attempt - 1))))))
       = (Inr (num_value (rp_base_delay_seconds p) * 2 ^ nat (attempt - 1)) :: arg_error + rat)"
proof -
  have "(2 :: int) ^ nat (attempt - 1) < double_overflow" using assms by (intro power_below_overflow) simp
  then show ?thesis using assms(2) by (cases "rp_base_delay_seconds p") (simp_all add: max_def abs_if)
qed

lemma delay_bounds:
  assumes "retry_wf p" "uniform_ok uniform" "1 \<le> attempt" "attempt \<le> 1024"
  shows "\<exists>d. delay_for_attempt uniform p attempt = Inr d \<and> 0 \<le> d
    \<and> d \<le> num_value (rp_max_delay_seconds p) * (1 + num_value (rp_jitter_ratio p))"
proof -
  define scaled where "scaled = num_value (rp_base_delay_seconds p) * 2 ^ nat (attempt - 1)"
  define base where "base = min (num_value (rp_max_delay_seconds p)) scaled"
  define ratio where "ratio = num_value (rp_jitter_ratio p)"
  define j where "j = base * ratio"
  have res: "delay_for_attempt uniform p attempt =
      (if base = 0 \<or> ratio = 0 then Inr base else Inr (max 0 (base + uniform (- j) j)))"
    using scaled_delay [OF assms(1,3,4)]
    by (simp add: delay_for_attempt_def Let_def base_def ratio_def scaled_def j_def)
  have pos: "0 \<le> base" "0 \<le> ratio" "base \<le> num_value (rp_max_delay_seconds p)"
    using assms(1) by (auto simp: retry_wf_def base_def ratio_def scaled_def)
  then have j: "0 \<le> j" "j \<le> num_value (rp_max_delay_seconds p) * ratio"
    by (auto simp: j_def intro: mult_right_mono)
  have u: "- j \<le> uniform (- j) j" "uniform (- j) j \<le> j" using assms(2) j(1) by (auto simp: uniform_ok_def)
  have "base \<le> num_value (rp_max_delay_seconds p) * (1 + ratio)"
    and "base + uniform (- j) j \<le> num_value (rp_max_delay_seconds p) * (1 + ratio)"
    using pos j u by (auto simp: distrib_left intro: add_mono order_trans)
  with pos res show ?thesis by (auto simp: ratio_def)
qed

text \<open>The attempt count a result reports.\<close>

definition reported :: "raised + 'a \<times> int \<Rightarrow> int option" where
  "reported r = (case r of Inr p \<Rightarrow> Some (snd p) | Inl e \<Rightarrow> snd e)"

lemma delay_error: "delay_for_attempt uniform p attempt = Inl e \<Longrightarrow> e = OverflowError"
  by (auto simp: delay_for_attempt_def Let_def res_iff split: pynum.splits if_splits)

text \<open>How a loop that starts at \<open>attempt\<close> may end.\<close>

lemma retry_loop_reported:
  fixes calls :: "'s \<Rightarrow> int"
  assumes count: "\<And>s. calls (snd (operation s)) = calls s + 1" "\<And>d s. calls (sleep d s) = calls s"
    and "attempt + int n = rp_max_attempts p + 1" "0 < n"
  shows "let (r, t) = retry_loop n attempt operation uniform p retryable deadline monotonic sleep s
    in calls t - calls s \<in> {1..int n}
     \<and> (case reported r of
          Some k \<Rightarrow> calls t - calls s = k - attempt + 1
        | None \<Rightarrow> \<exists>e. r = Inl (e, None) \<and> (e = CancelledError \<or> e = ArgError OverflowError))"
  using assms(3,4)
proof (induction n arbitrary: attempt s)
  case (Suc n)
  obtain r s' where op: "operation s = (r, s')" by (cases "operation s")
  then have c: "calls s' = calls s + 1" using count(1) [of s] by simp
  show ?case
  proof (cases "\<exists>e delay. r = Inl e \<and> is_exception e \<and> attempt < rp_max_attempts p \<and> retryable e
      \<and> delay_for_attempt uniform p attempt = Inr delay
      \<and> \<not> (case deadline of None \<Rightarrow> False | Some d \<Rightarrow> d - monotonic s' \<le> 0 \<or> d - monotonic s' \<le> delay)")
    case True
    then obtain e delay where go: "r = Inl e" "is_exception e" "attempt < rp_max_attempts p" "retryable e"
      "delay_for_attempt uniform p attempt = Inr delay"
      "\<not> (case deadline of None \<Rightarrow> False | Some d \<Rightarrow> d - monotonic s' \<le> 0 \<or> d - monotonic s' \<le> delay)" by blast
    define w where "w = (if 0 < delay then sleep delay s' else s')"
    have w: "calls w = calls s + 1" using c count(2) by (simp add: w_def)
    have step: "retry_loop (Suc n) attempt operation uniform p retryable deadline monotonic sleep s
        = retry_loop n (attempt + 1) operation uniform p retryable deadline monotonic sleep w"
      using op go by (simp add: w_def)
    have "0 < n" using go(3) Suc.prems by (cases n) auto
    with Suc.IH [of "attempt + 1" w] Suc.prems w show ?thesis
      unfolding step by (auto simp: Let_def split_beta split: option.splits)
  next
    case False
    with op c Suc.prems show ?thesis
      by (auto simp: is_exception_def not_less reported_def delay_error split: sum.splits option.splits if_splits)
  qed
qed simp

text \<open>An invariant that the operation and every sleep short of the deadline keep is kept.\<close>

lemma retry_loop_deadline:
  assumes "\<And>s. I s \<Longrightarrow> I (snd (operation s))"
    and "\<And>s delay. I s \<Longrightarrow> 0 < delay \<Longrightarrow> monotonic s + delay < d \<Longrightarrow> I (sleep delay s)"
    and "I s"
  shows "I (snd (retry_loop n attempt operation uniform p retryable (Some d) monotonic sleep s))"
  using assms(3)
proof (induction n arbitrary: attempt s)
  case (Suc n)
  obtain r s' where op: "operation s = (r, s')" by (cases "operation s")
  then have I: "I s'" using assms(1) [OF Suc.prems] by simp
  have "I (if 0 < delay then sleep delay s' else s')" if "\<not> (d - monotonic s' \<le> 0 \<or> d - monotonic s' \<le> delay)" for delay
    using I that assms(2) [OF I, of delay] by (auto simp: not_le algebra_simps)
  then show ?case using op I Suc.IH by (auto split: sum.splits)
qed simp

lemma delay_overflow:
  assumes "rp_base_delay_seconds p = NFloat f" "1025 \<le> attempt"
  shows "delay_for_attempt uniform p attempt = Inl OverflowError"
proof -
  have "double_overflow \<le> (2 :: int) ^ 1024" by (simp add: double_overflow_def)
  also have "(2 :: int) ^ 1024 \<le> 2 ^ nat (attempt - 1)" using assms(2) by (intro power_increasing) auto
  finally show ?thesis using assms by (simp add: delay_for_attempt_def Let_def max_def)
qed

subsection \<open>Properties\<close>


definition fixture_retry_policy :: retry_policy where
  "fixture_retry_policy = \<lparr>rp_max_attempts = 3, rp_base_delay_seconds = NFloat (Fin 1),
     rp_max_delay_seconds = NFloat (Fin 4), rp_jitter_ratio = NFloat (Fin 0)\<rparr>"

lemma fixture_retry_policy_wf: "retry_wf fixture_retry_policy"
  by (simp add: retry_wf_def fixture_retry_policy_def)


text \<open>
  no sleep reaches the deadline. With a deadline, every backoff sleep starts at a time from
  which it ends strictly before the deadline: any property of the world that the operation
  and such sleeps preserve holds when the retries are over.
\<close>

lemma retry_sleeps_before_deadline:
  assumes "\<And>s. I s \<Longrightarrow> I (snd (operation s))"
    and "\<And>s delay. I s \<Longrightarrow> 0 < delay \<Longrightarrow> monotonic s + delay < d \<Longrightarrow> I (sleep delay s)"
    and "I s"
  shows "I (snd (run_with_retry operation uniform p retryable (Some d) monotonic sleep s))"
  using assms unfolding run_with_retry_def by (rule retry_loop_deadline)

text \<open>The world of the witness: the time and the end of the last sleep.\<close>

lemma retry_sleeps_before_deadline_witness:
  "snd (snd (run_with_retry (\<lambda>s. (Inl (SourceUnavailableError ''down'') :: py_error + unit, (fst s + 1, snd s))) (\<lambda>a b. a)
      fixture_retry_policy (\<lambda>_. True) (Some 3) fst (\<lambda>d s. (fst s + d, fst s + d)) (0, 0))) < 3"
  by (rule retry_sleeps_before_deadline [where I = "\<lambda>s. snd s < 3"]) auto

text \<open>
  A backoff delay is never negative and never longer than the maximal delay plus its
  jitter, for the first 1024 attempts.
\<close>

lemma retry_delay_bounded:
  assumes "mk_retry_policy max_attempts base_delay max_delay jitter = Inr p"
    and "uniform_ok uniform" and "1 \<le> attempt" and "attempt \<le> 1024"
  shows "\<exists>d. delay_for_attempt uniform p attempt = Inr d \<and> 0 \<le> d
    \<and> d \<le> num_value (rp_max_delay_seconds p) * (1 + num_value (rp_jitter_ratio p))"
  using delay_bounds [OF mk_retry_policy_wf [OF assms(1)] assms(2-4)] .

lemma retry_delay_bounded_witness:
  "\<exists>p d. mk_retry_policy (PyInt 5) (PyFloat (Fin 1)) (PyInt 4) (PyFloat (Fin (1 / 2))) = Inr p
     \<and> delay_for_attempt (\<lambda>a b. b) p 9 = Inr d \<and> d \<le> 6"
proof -
  obtain p where p: "mk_retry_policy (PyInt 5) (PyFloat (Fin 1)) (PyInt 4) (PyFloat (Fin (1 / 2))) = Inr p"
    and v: "num_value (rp_max_delay_seconds p) = 4" "num_value (rp_jitter_ratio p) = 1 / 2"
    by (simp add: mk_retry_policy_def finite_num_arg_def double_overflow_def)
  have "uniform_ok (\<lambda>a b. b)" by (simp add: uniform_ok_def)
  from retry_delay_bounded [OF p this, of 9] p show ?thesis by (auto simp: v)
qed

text \<open>
  from attempt 1025 on the delay computation itself raises when the base delay is a float,
  because the integer power of two no longer fits a double. A policy that allows so many
  attempts then replaces the error of the operation by an overflow error without a count.
\<close>

lemma retry_delay_overflow:
  assumes "rp_base_delay_seconds p = NFloat f" and "1025 \<le> attempt" and "attempt < rp_max_attempts p"
    and "operation s = (Inl e, s')" and "is_exception e" and "retryable e"
  shows "retry_loop (Suc n) attempt operation uniform p retryable deadline monotonic sleep s
    = (Inl (ArgError OverflowError, None), s')"
  using assms delay_overflow [OF assms(1,2), of uniform] by simp

lemma retry_delay_overflow_witness:
  "retry_loop 7 1025 (\<lambda>s :: unit. (Inl (SourceUnavailableError ''down'') :: py_error + int, s)) (\<lambda>a b. a)
      (fixture_retry_policy\<lparr>rp_max_attempts := 1031\<rparr>) (\<lambda>_. True) None (\<lambda>_. 0) (\<lambda>_ s. s) ()
    = (Inl (ArgError OverflowError, None), ())"
  using retry_delay_overflow [of "fixture_retry_policy\<lparr>rp_max_attempts := 1031\<rparr>" "Fin 1" 1025
      "\<lambda>s :: unit. (Inl (SourceUnavailableError ''down'') :: py_error + int, s)" "()" "SourceUnavailableError ''down''" "()"
      "\<lambda>_. True" 6 "\<lambda>a b. a" None "\<lambda>_. 0" "\<lambda>_ s. s"]
  by (simp add: fixture_retry_policy_def is_exception_def)

end
