(* ===== verification/Capacity.thy ===== *)
theory Capacity
  imports Errors
begin

section \<open>Concurrency limits (concurrency/capacity.py)\<close>

text \<open>
  A limiter counts the slots in use and the waiting tasks around an \<^verbatim>\<open>asyncio.Semaphore\<close>.
  Tasks are numbered. The queue of the semaphore holds a task until it resumes; the flag
  tells whether it has been woken, that is, has been handed a permit it does not use yet.
  Between two awaits a task runs undisturbed, so each definition below is one step.
\<close>

record limiter =
  li_limit :: nat
  li_value :: nat
  li_queue :: "(nat, bool) odict"
  li_in_use :: nat
  li_waiting :: nat

definition mk_limiter :: "int \<Rightarrow> arg_error + limiter" where
  "mk_limiter limit =
     (if limit < 1 then Inl (ValueError ''capacity limit must be at least 1'')
      else Inr \<lparr>li_limit = nat limit, li_value = nat limit, li_queue = [], li_in_use = 0, li_waiting = 0\<rparr>)"

text \<open>\<^verbatim>\<open>Semaphore._wake_up_next\<close>: the first waiter that was not woken gets a permit.\<close>

fun wake_first :: "(nat, bool) odict \<Rightarrow> (nat, bool) odict option" where
  "wake_first [] = None"
| "wake_first ((t, woken) # q) =
     (if woken then map_option ((#) (t, woken)) (wake_first q) else Some ((t, True) # q))"

definition wake_up_next :: "limiter \<Rightarrow> limiter" where
  "wake_up_next l =
     (case wake_first (li_queue l) of
        None \<Rightarrow> l
      | Some q \<Rightarrow> l\<lparr>li_value := li_value l - 1, li_queue := q\<rparr>)"

text \<open>\<open>acquire\<close> up to its first suspension; the flag tells that the slot was taken at once.\<close>

definition acquire_begin :: "nat \<Rightarrow> limiter \<Rightarrow> bool \<times> limiter" where
  "acquire_begin t l =
     (if 0 < li_value l \<and> li_queue l = []
      then (True, l\<lparr>li_value := li_value l - 1, li_in_use := li_in_use l + 1\<rparr>)
      else (False, l\<lparr>li_queue := li_queue l @ [(t, False)], li_waiting := li_waiting l + 1\<rparr>))"

text \<open>\<open>acquire\<close> from the moment a woken task runs again.\<close>

definition acquire_resume :: "nat \<Rightarrow> limiter \<Rightarrow> limiter" where
  "acquire_resume t l =
     (let l' = l\<lparr>li_queue := od_pop t (li_queue l)\<rparr>;
          l'' = (if 0 < li_value l' then wake_up_next l' else l')
      in l''\<lparr>li_waiting := li_waiting l'' - 1, li_in_use := li_in_use l'' + 1\<rparr>)"

text \<open>\<open>acquire\<close> when the waiting task is cancelled: a permit it was handed goes on.\<close>

definition acquire_cancel :: "nat \<Rightarrow> limiter \<Rightarrow> limiter" where
  "acquire_cancel t l =
     (let l' = l\<lparr>li_queue := od_pop t (li_queue l)\<rparr>;
          l'' = (if map_of (li_queue l) t = Some True
                 then wake_up_next (l'\<lparr>li_value := li_value l' + 1\<rparr>) else l')
      in l''\<lparr>li_waiting := li_waiting l'' - 1\<rparr>)"

definition limiter_release :: "limiter \<Rightarrow> py_error + limiter" where
  "limiter_release l =
     (if li_in_use l \<le> 0 then Inl (RuntimeError ''capacity limiter released without a matching acquire'')
      else Inr (wake_up_next (l\<lparr>li_in_use := li_in_use l - 1, li_value := li_value l + 1\<rparr>)))"

record capacity_snapshot =
  ca_limit :: nat
  ca_in_use :: nat
  ca_waiting :: nat

definition limiter_snapshot :: "limiter \<Rightarrow> capacity_snapshot" where
  "limiter_snapshot l = \<lparr>ca_limit = li_limit l, ca_in_use = li_in_use l, ca_waiting = li_waiting l\<rparr>"

subsection \<open>The invariant of a limiter\<close>

definition woken_tasks :: "limiter \<Rightarrow> nat list" where
  "woken_tasks l = map fst (filter snd (li_queue l))"

definition sleeping_tasks :: "limiter \<Rightarrow> nat list" where
  "sleeping_tasks l = map fst (filter (\<lambda>p. \<not> snd p) (li_queue l))"

text \<open>
  Permits are conserved, waiting tasks are counted, and no wake-up is lost: if a permit is
  free while a task sleeps, some other task has been woken and will pass the permit on.
\<close>

definition limiter_inv :: "limiter \<Rightarrow> bool" where
  "limiter_inv l \<longleftrightarrow> od_ok (li_queue l)
     \<and> li_value l + length (woken_tasks l) + li_in_use l = li_limit l
     \<and> li_waiting l = length (li_queue l)
     \<and> (0 < li_value l \<and> sleeping_tasks l \<noteq> [] \<longrightarrow> woken_tasks l \<noteq> [])"

lemma wake_first_None: "wake_first q = None \<longleftrightarrow> (\<forall>p \<in> set q. snd p)"
  by (induction q rule: wake_first.induct) auto

lemma wake_first_Some:
  "wake_first q = Some q' \<Longrightarrow> map fst q' = map fst q \<and> length (filter snd q') = Suc (length (filter snd q))
    \<and> filter snd q' \<noteq> []"
  by (induction q arbitrary: q' rule: wake_first.induct) (auto split: if_splits)

lemma wake_up_next_frame [simp]:
  "li_limit (wake_up_next l) = li_limit l" "li_in_use (wake_up_next l) = li_in_use l"
  "li_waiting (wake_up_next l) = li_waiting l" "od_keys (li_queue (wake_up_next l)) = od_keys (li_queue l)"
  by (auto simp: wake_up_next_def split: option.splits dest: wake_first_Some)

text \<open>Waking conserves permits and restores the absence of lost wake-ups.\<close>

lemma wake_up_next_inv:
  assumes "0 < li_value l"
  shows "li_value (wake_up_next l) + length (woken_tasks (wake_up_next l)) = li_value l + length (woken_tasks l)"
    and "sleeping_tasks (wake_up_next l) \<noteq> [] \<longrightarrow> woken_tasks (wake_up_next l) \<noteq> []"
proof -
  show "li_value (wake_up_next l) + length (woken_tasks (wake_up_next l)) = li_value l + length (woken_tasks l)"
    using assms by (auto simp: wake_up_next_def woken_tasks_def split: option.splits dest: wake_first_Some)
  show "sleeping_tasks (wake_up_next l) \<noteq> [] \<longrightarrow> woken_tasks (wake_up_next l) \<noteq> []"
  proof (cases "wake_first (li_queue l)")
    case None
    then have "\<forall>p \<in> set (li_queue l). snd p" by (simp only: wake_first_None)
    with None show ?thesis by (auto simp: wake_up_next_def sleeping_tasks_def filter_empty_conv)
  next
    case (Some q)
    then show ?thesis using wake_first_Some [OF Some] by (simp add: wake_up_next_def woken_tasks_def)
  qed
qed

lemma woken_pop:
  assumes "od_ok q" "map_of q t = Some b"
  shows "length (filter snd (od_pop t q)) + (if b then 1 else 0) = length (filter snd q)"
    and "Suc (length (od_pop t q)) = length q"
proof -
  show "Suc (length (od_pop t q)) = length q" using assms(1) map_of_Some_key [OF assms(2)] by (rule length_od_pop)
  show "length (filter snd (od_pop t q)) + (if b then 1 else 0) = length (filter snd q)"
    using assms
  proof (induction q)
    case (Cons p q)
    show ?case
    proof (cases "fst p = t")
      case True
      with Cons.prems have "od_pop t q = q" "snd p = b" by (auto intro: od_pop_absent)
      with True show ?thesis by (simp add: od_pop_def)
    next
      case False
      with Cons.IH Cons.prems show ?thesis by (cases p) (auto simp: od_pop_def)
    qed
  qed simp
qed

lemma length_queue_wake [simp]: "length (li_queue (wake_up_next l)) = length (li_queue l)"
  by (metis length_map wake_up_next_frame(4))

lemma mk_limiter_inv: "mk_limiter n = Inr l \<Longrightarrow> limiter_inv l \<and> li_in_use l = 0 \<and> li_queue l = [] \<and> 0 < li_limit l"
  by (auto simp: mk_limiter_def limiter_inv_def woken_tasks_def sleeping_tasks_def split: if_splits)

lemma queue_awake_or_asleep: "filter snd q = [] \<Longrightarrow> filter (\<lambda>p. \<not> snd p) q = [] \<Longrightarrow> q = []"
  by (cases q) (auto split: if_splits)

lemma acquire_begin_inv:
  assumes "limiter_inv l" "t \<notin> set (od_keys (li_queue l))"
  shows "limiter_inv (snd (acquire_begin t l))"
  using assms queue_awake_or_asleep [of "li_queue l"]
  by (auto simp: acquire_begin_def limiter_inv_def woken_tasks_def sleeping_tasks_def)

lemma acquire_resume_inv:
  assumes inv: "limiter_inv l" and t: "map_of (li_queue l) t = Some True"
  shows "limiter_inv (acquire_resume t l)"
proof -
  let ?m = "l\<lparr>li_queue := od_pop t (li_queue l)\<rparr>"
  have q: "od_ok (li_queue l)" using inv by (simp add: limiter_inv_def)
  have perm: "li_value ?m + length (woken_tasks ?m) + li_in_use l + 1 = li_limit l"
    using inv woken_pop(1) [OF q t] by (simp add: limiter_inv_def woken_tasks_def)
  have len: "Suc (length (li_queue ?m)) = li_waiting l" using inv woken_pop(2) [OF q t] by (simp add: limiter_inv_def)
  show ?thesis
  proof (cases "0 < li_value ?m")
    case True
    from wake_up_next_inv [OF True] perm len q show ?thesis using True
      by (simp add: limiter_inv_def acquire_resume_def Let_def woken_tasks_def sleeping_tasks_def)
  next
    case False
    with perm len q show ?thesis
      by (simp add: limiter_inv_def acquire_resume_def Let_def woken_tasks_def sleeping_tasks_def)
  qed
qed

lemma acquire_cancel_inv:
  assumes inv: "limiter_inv l" and t: "map_of (li_queue l) t = Some b"
  shows "limiter_inv (acquire_cancel t l)"
proof -
  let ?m = "l\<lparr>li_queue := od_pop t (li_queue l)\<rparr>"
  have q: "od_ok (li_queue l)" using inv by (simp add: limiter_inv_def)
  have perm: "li_value ?m + length (woken_tasks ?m) + li_in_use l + (if b then 1 else 0) = li_limit l"
    using inv woken_pop(1) [OF q t] by (simp add: limiter_inv_def woken_tasks_def)
  have len: "Suc (length (li_queue ?m)) = li_waiting l" using inv woken_pop(2) [OF q t] by (simp add: limiter_inv_def)
  show ?thesis
  proof (cases b)
    case True
    let ?n = "?m\<lparr>li_value := li_value l + 1\<rparr>"
    have "0 < li_value ?n" by simp
    from wake_up_next_inv [OF this] perm len q True t show ?thesis
      by (simp add: limiter_inv_def acquire_cancel_def Let_def woken_tasks_def sleeping_tasks_def)
  next
    case False
    have "woken_tasks ?m \<noteq> []" if "0 < li_value l" "sleeping_tasks ?m \<noteq> []"
    proof -
      from that(2) have "sleeping_tasks l \<noteq> []" by (force simp: sleeping_tasks_def filter_empty_conv)
      with inv that(1) have "woken_tasks l \<noteq> []" by (simp add: limiter_inv_def)
      with woken_pop(1) [OF q t] False show ?thesis by (auto simp: woken_tasks_def)
    qed
    with perm len q False t show ?thesis
      by (simp add: limiter_inv_def acquire_cancel_def Let_def woken_tasks_def sleeping_tasks_def)
  qed
qed

lemma limiter_release_inv:
  assumes inv: "limiter_inv l" and r: "limiter_release l = Inr l'"
  shows "limiter_inv l'"
proof -
  let ?m = "l\<lparr>li_in_use := li_in_use l - 1, li_value := li_value l + 1\<rparr>"
  have pos: "0 < li_in_use l" and l': "l' = wake_up_next ?m"
    using r by (auto simp: limiter_release_def split: if_splits)
  have "0 < li_value ?m" by simp
  from wake_up_next_inv [OF this] inv pos show ?thesis
    by (simp add: l' limiter_inv_def woken_tasks_def sleeping_tasks_def)
qed

subsection \<open>The controller\<close>

text \<open>\<open>None\<close> names the builder-wide limiter, \<open>Some source\<close> the limiter of a source.\<close>

type_synonym limiter_id = "string option"

record capacity_controller =
  cc_global :: limiter
  cc_source_limits :: "(string, int) odict"
  cc_source_limiters :: "(string, limiter) odict"

definition validate_limit :: "int \<Rightarrow> arg_error + int" where
  "validate_limit limit =
     (if limit < 1 then Inl (ValueError ''source concurrency limit must be at least 1'') else Inr limit)"

definition mk_capacity_controller :: "int \<Rightarrow> (string \<times> int) list \<Rightarrow> arg_error + capacity_controller" where
  "mk_capacity_controller global_limit source_limits =
     res_bind (mk_limiter global_limit) (\<lambda>g.
     res_bind (res_map (\<lambda>p. res_bind (normalize_source (fst p)) (\<lambda>nm.
                             res_bind (validate_limit (snd p)) (\<lambda>n. Inr (nm, n)))) source_limits) (\<lambda>limits.
     res_bind (res_map (\<lambda>p. res_bind (mk_limiter (snd p)) (\<lambda>l. Inr (fst p, l))) (od_of limits)) (\<lambda>limiters.
       Inr \<lparr>cc_global = g, cc_source_limits = od_of limits, cc_source_limiters = limiters\<rparr>)))"

definition limit_for :: "capacity_controller \<Rightarrow> string \<Rightarrow> arg_error + int option" where
  "limit_for cc source = res_bind (normalize_source source) (\<lambda>nm. Inr (map_of (cc_source_limits cc) nm))"

definition register_source :: "string \<Rightarrow> int option \<Rightarrow> capacity_controller \<Rightarrow> arg_error + capacity_controller" where
  "register_source source limit cc =
     (case limit of
        None \<Rightarrow> Inr cc
      | Some n \<Rightarrow>
          (res_bind (normalize_source source) (\<lambda>nm.
           res_bind (validate_limit n) (\<lambda>v.
           res_bind (raise_if (map_of (cc_source_limits cc) nm \<notin> {None, Some v})
              (ValueError (''conflicting concurrency limits for source '' @ source @ '': ''
                 @ int_str (the (map_of (cc_source_limits cc) nm)) @ '' and '' @ int_str v))) (\<lambda>_.
          res_bind (mk_limiter v) (\<lambda>l.
            Inr (cc\<lparr>cc_source_limits := od_set nm v (cc_source_limits cc),
                    cc_source_limiters := (if nm \<in> set (od_keys (cc_source_limiters cc)) then cc_source_limiters cc
                                           else od_set nm l (cc_source_limiters cc))\<rparr>)))))))"

definition limiter_at :: "capacity_controller \<Rightarrow> limiter_id \<Rightarrow> limiter option" where
  "limiter_at cc i = (case i of None \<Rightarrow> Some (cc_global cc) | Some s \<Rightarrow> map_of (cc_source_limiters cc) s)"

definition put_limiter :: "limiter_id \<Rightarrow> limiter \<Rightarrow> capacity_controller \<Rightarrow> capacity_controller" where
  "put_limiter i l cc =
     (case i of None \<Rightarrow> cc\<lparr>cc_global := l\<rparr> | Some s \<Rightarrow> cc\<lparr>cc_source_limiters := od_set s l (cc_source_limiters cc)\<rparr>)"

text \<open>Where a task is in \<open>acquire\<close>: suspended at a limiter, or holding its lease.\<close>

datatype cap_phase =
    Suspended limiter_id "limiter_id list" "limiter_id list"
  | Holding "limiter_id list"

fun acquire_run :: "nat \<Rightarrow> limiter_id list \<Rightarrow> limiter_id list \<Rightarrow> capacity_controller \<Rightarrow> cap_phase \<times> capacity_controller" where
  "acquire_run t [] acquired cc = (Holding acquired, cc)"
| "acquire_run t (i # todo) acquired cc =
     (let (taken, l) = acquire_begin t (the (limiter_at cc i)); cc' = put_limiter i l cc
      in if taken then acquire_run t todo (acquired @ [i]) cc' else (Suspended i todo acquired, cc'))"

definition controller_acquire :: "nat \<Rightarrow> string \<Rightarrow> capacity_controller \<Rightarrow> (arg_error + cap_phase) \<times> capacity_controller" where
  "controller_acquire t source cc =
     (case normalize_source source of
        Inl e \<Rightarrow> (Inl e, cc)
      | Inr nm \<Rightarrow>
          let limiters = (if map_of (cc_source_limiters cc) nm = None then [None] else [Some nm, None]);
              (ph, cc') = acquire_run t limiters [] cc
          in (Inr ph, cc'))"

fun controller_resume :: "nat \<Rightarrow> cap_phase \<Rightarrow> capacity_controller \<Rightarrow> cap_phase \<times> capacity_controller" where
  "controller_resume t (Suspended i todo acquired) cc =
     acquire_run t todo (acquired @ [i]) (put_limiter i (acquire_resume t (the (limiter_at cc i))) cc)"
| "controller_resume t (Holding acquired) cc = (Holding acquired, cc)"

fun release_all :: "limiter_id list \<Rightarrow> capacity_controller \<Rightarrow> py_error + capacity_controller" where
  "release_all [] cc = Inr cc"
| "release_all (i # ids) cc =
     res_bind (limiter_release (the (limiter_at cc i))) (\<lambda>l. release_all ids (put_limiter i l cc))"

fun controller_cancel :: "nat \<Rightarrow> cap_phase \<Rightarrow> capacity_controller \<Rightarrow> py_error + capacity_controller" where
  "controller_cancel t (Suspended i todo acquired) cc =
     release_all (rev acquired) (put_limiter i (acquire_cancel t (the (limiter_at cc i))) cc)"
| "controller_cancel t (Holding acquired) cc = Inr cc"

record capacity_lease =
  ls_limiters :: "limiter_id list"
  ls_released :: bool

definition lease_release :: "capacity_lease \<Rightarrow> capacity_controller \<Rightarrow> (py_error + capacity_controller) \<times> capacity_lease" where
  "lease_release lease cc =
     (if ls_released lease then (Inr cc, lease)
      else (release_all (rev (ls_limiters lease)) cc, lease\<lparr>ls_released := True\<rparr>))"

definition controller_snapshot :: "capacity_controller \<Rightarrow> (string, capacity_snapshot) odict" where
  "controller_snapshot cc =
     od_update [(''__global__'', limiter_snapshot (cc_global cc))]
       (map (\<lambda>p. (fst p, limiter_snapshot (snd p))) (cc_source_limiters cc))"

subsection \<open>All tasks together\<close>

type_synonym cap_state = "capacity_controller \<times> (nat \<rightharpoonup> cap_phase)"

datatype cap_event = CapAcquire nat | CapResume nat | CapCancel nat | CapRelease nat | CapRegister

inductive cap_step :: "cap_state \<Rightarrow> cap_event \<Rightarrow> cap_state \<Rightarrow> bool" where
  cap_acquire: "ts t = None \<Longrightarrow> controller_acquire t source cc = (Inr ph, cc')
    \<Longrightarrow> cap_step (cc, ts) (CapAcquire t) (cc', ts(t \<mapsto> ph))"
| cap_resume: "ts t = Some (Suspended i todo acquired) \<Longrightarrow> limiter_at cc i = Some l
    \<Longrightarrow> map_of (li_queue l) t = Some True
    \<Longrightarrow> controller_resume t (Suspended i todo acquired) cc = (ph, cc')
    \<Longrightarrow> cap_step (cc, ts) (CapResume t) (cc', ts(t \<mapsto> ph))"
| cap_cancel: "ts t = Some (Suspended i todo acquired)
    \<Longrightarrow> controller_cancel t (Suspended i todo acquired) cc = Inr cc'
    \<Longrightarrow> cap_step (cc, ts) (CapCancel t) (cc', ts(t := None))"
| cap_release: "ts t = Some (Holding acquired)
    \<Longrightarrow> fst (lease_release \<lparr>ls_limiters = acquired, ls_released = False\<rparr> cc) = Inr cc'
    \<Longrightarrow> cap_step (cc, ts) (CapRelease t) (cc', ts(t := None))"
| cap_register: "register_source source limit cc = Inr cc' \<Longrightarrow> cap_step (cc, ts) CapRegister (cc', ts)"

fun held_of :: "cap_phase \<Rightarrow> limiter_id list" where
  "held_of (Suspended i todo acquired) = acquired"
| "held_of (Holding acquired) = acquired"

definition holders :: "limiter_id \<Rightarrow> (nat \<rightharpoonup> cap_phase) \<Rightarrow> nat set" where
  "holders i ts = {t. \<exists>ph. ts t = Some ph \<and> i \<in> set (held_of ph)}"

definition sleepers :: "limiter_id \<Rightarrow> (nat \<rightharpoonup> cap_phase) \<Rightarrow> nat set" where
  "sleepers i ts = {t. \<exists>todo acquired. ts t = Some (Suspended i todo acquired)}"

definition limiter_ok :: "limiter_id \<Rightarrow> limiter \<Rightarrow> (nat \<rightharpoonup> cap_phase) \<Rightarrow> bool" where
  "limiter_ok i l ts \<longleftrightarrow> limiter_inv l \<and> 0 < li_limit l \<and> li_in_use l = card (holders i ts)
     \<and> set (od_keys (li_queue l)) = sleepers i ts"

definition phase_ok :: "capacity_controller \<Rightarrow> cap_phase \<Rightarrow> bool" where
  "phase_ok cc ph \<longleftrightarrow> (case ph of
      Suspended i todo acquired \<Rightarrow> distinct (acquired @ i # todo) \<and> (\<forall>j \<in> set (acquired @ i # todo). limiter_at cc j \<noteq> None)
    | Holding acquired \<Rightarrow> distinct acquired \<and> (\<forall>j \<in> set acquired. limiter_at cc j \<noteq> None))"

definition cap_inv :: "cap_state \<Rightarrow> bool" where
  "cap_inv s \<longleftrightarrow> (case s of (cc, ts) \<Rightarrow> finite (dom ts)
     \<and> (\<forall>t ph. ts t = Some ph \<longrightarrow> phase_ok cc ph)
     \<and> (\<forall>i l. limiter_at cc i = Some l \<longrightarrow> limiter_ok i l ts))"

lemma limiter_at_put [simp]:
  "limiter_at (put_limiter i l cc) j = (if j = i then Some l else limiter_at cc j)"
  by (auto simp: limiter_at_def put_limiter_def split: option.splits)

lemma holders_upd:
  "holders i (ts(t \<mapsto> ph)) = (if i \<in> set (held_of ph) then insert t (holders i ts) else holders i ts - {t})"
  by (auto simp: holders_def)

lemma sleepers_upd:
  "sleepers i (ts(t \<mapsto> ph)) = (if \<exists>todo acquired. ph = Suspended i todo acquired
     then insert t (sleepers i ts) else sleepers i ts - {t})"
  by (auto simp: sleepers_def)

lemma holders_finite: "finite (dom ts) \<Longrightarrow> finite (holders i ts)"
  by (rule finite_subset [of _ "dom ts"]) (auto simp: holders_def)

lemma phase_ok_put: "limiter_at cc i \<noteq> None \<Longrightarrow> phase_ok (put_limiter i l cc) ph = phase_ok cc ph"
  by (auto simp: phase_ok_def split: cap_phase.splits)

text \<open>
  The step of one task at one limiter: the limiter gets its new counts, and neither what
  the task holds of other limiters nor where it sleeps among them changes.
\<close>

lemma cap_inv_put:
  assumes inv: "cap_inv (cc, ts)" and at: "limiter_at cc i = Some l"
    and new: "limiter_ok i l' (ts(t \<mapsto> ph))" and ph: "phase_ok cc ph"
    and same: "\<And>j. j \<noteq> i \<Longrightarrow> holders j (ts(t \<mapsto> ph)) = holders j ts \<and> sleepers j (ts(t \<mapsto> ph)) = sleepers j ts"
  shows "cap_inv (put_limiter i l' cc, ts(t \<mapsto> ph))"
  using assms by (auto simp: cap_inv_def phase_ok_put limiter_ok_def)

lemma cap_inv_at: "cap_inv (cc, ts) \<Longrightarrow> limiter_at cc i = Some l \<Longrightarrow> limiter_ok i l ts"
  by (simp add: cap_inv_def)

lemma cap_inv_phase: "cap_inv (cc, ts) \<Longrightarrow> ts t = Some ph \<Longrightarrow> phase_ok cc ph"
  by (simp add: cap_inv_def)

lemma cap_inv_finite: "cap_inv (cc, ts) \<Longrightarrow> finite (dom ts)"
  by (simp add: cap_inv_def)

lemma acquire_run_inv:
  assumes "cap_inv (cc, ts(t \<mapsto> Holding acquired))" "distinct (acquired @ todo)"
    "\<forall>j \<in> set todo. limiter_at cc j \<noteq> None" "acquire_run t todo acquired cc = (ph, cc')"
  shows "cap_inv (cc', ts(t \<mapsto> ph))"
  using assms
proof (induction todo arbitrary: acquired cc)
  case (Cons i todo)
  let ?ts = "ts(t \<mapsto> Holding acquired)"
  from Cons.prems(3) obtain l where l: "limiter_at cc i = Some l" by auto
  have ok: "limiter_ok i l ?ts" by (rule cap_inv_at [OF Cons.prems(1) l])
  have fin: "finite (holders i ?ts)" by (rule holders_finite [OF cap_inv_finite [OF Cons.prems(1)]])
  have held: "phase_ok cc (Holding acquired)" using cap_inv_phase [OF Cons.prems(1), of t] by simp
  have i: "i \<notin> set acquired" "i \<notin> set todo" using Cons.prems(2) by auto
  have away: "t \<notin> holders i ?ts" "t \<notin> sleepers i ?ts" using i by (simp_all add: holders_def sleepers_def)
  then have queue: "t \<notin> set (od_keys (li_queue l))" using ok by (simp add: limiter_ok_def)
  obtain taken m where m: "acquire_begin t l = (taken, m)" by (cases "acquire_begin t l")
  have minv: "limiter_inv m" using acquire_begin_inv [of l t] ok queue m by (simp add: limiter_ok_def)
  show ?case
  proof (cases taken)
    case True
    have new: "limiter_ok i m (?ts(t \<mapsto> Holding (acquired @ [i])))"
      using m True ok minv fin away
      by (auto simp: limiter_ok_def holders_upd sleepers_upd acquire_begin_def card.insert_remove split: if_splits)
    have "cap_inv (put_limiter i m cc, ?ts(t \<mapsto> Holding (acquired @ [i])))"
      using held l i by (intro cap_inv_put [OF Cons.prems(1) l new])
        (auto simp: phase_ok_def holders_upd sleepers_upd holders_def sleepers_def)
    then have "cap_inv (put_limiter i m cc, ts(t \<mapsto> Holding (acquired @ [i])))" by simp
    from Cons.IH [OF this] Cons.prems(2-4) m True l show ?thesis by simp
  next
    case False
    have "set (od_keys (li_queue m)) = insert t (set (od_keys (li_queue l)))" "li_in_use m = li_in_use l"
      "li_limit m = li_limit l" using m False by (auto simp: acquire_begin_def split: if_splits)
    moreover have "sleepers i (?ts(t \<mapsto> Suspended i todo acquired)) = insert t (sleepers i ?ts)"
      "holders i (?ts(t \<mapsto> Suspended i todo acquired)) = holders i ?ts" by (auto simp: sleepers_def holders_def)
    ultimately have new: "limiter_ok i m (?ts(t \<mapsto> Suspended i todo acquired))"
      using ok minv unfolding limiter_ok_def by simp
    have "cap_inv (put_limiter i m cc, ?ts(t \<mapsto> Suspended i todo acquired))"
      using held Cons.prems(2,3) l by (intro cap_inv_put [OF Cons.prems(1) l new])
        (auto simp: phase_ok_def holders_upd sleepers_upd holders_def sleepers_def)
    moreover have "ph = Suspended i todo acquired" "cc' = put_limiter i m cc" using Cons.prems(4) m False l by simp_all
    ultimately show ?thesis by (simp only: fun_upd_upd)
  qed
qed simp

lemma acquire_resume_frame:
  "li_limit (acquire_resume t l) = li_limit l" "li_in_use (acquire_resume t l) = li_in_use l + 1"
  "od_keys (li_queue (acquire_resume t l)) = removeAll t (od_keys (li_queue l))"
  by (auto simp: acquire_resume_def Let_def od_keys_od_pop)

lemma acquire_cancel_frame:
  "li_limit (acquire_cancel t l) = li_limit l" "li_in_use (acquire_cancel t l) = li_in_use l"
  "od_keys (li_queue (acquire_cancel t l)) = removeAll t (od_keys (li_queue l))"
  by (auto simp: acquire_cancel_def Let_def od_keys_od_pop)

lemma resume_at_inv:
  assumes inv: "cap_inv (cc, ts)" and t: "ts t = Some (Suspended i todo acquired)"
    and l: "limiter_at cc i = Some l" "map_of (li_queue l) t = Some True"
  shows "cap_inv (put_limiter i (acquire_resume t l) cc, ts(t \<mapsto> Holding (acquired @ [i])))"
proof (rule cap_inv_put [OF inv l(1)])
  have ph: "phase_ok cc (Suspended i todo acquired)" by (rule cap_inv_phase [OF inv t])
  then show "phase_ok cc (Holding (acquired @ [i]))" by (auto simp: phase_ok_def)
  have ok: "limiter_ok i l ts" by (rule cap_inv_at [OF inv l(1)])
  have "i \<notin> set acquired" using ph by (simp add: phase_ok_def)
  then have "t \<notin> holders i ts" using t by (simp add: holders_def)
  with ok holders_finite [OF cap_inv_finite [OF inv], of i] show "limiter_ok i (acquire_resume t l) (ts(t \<mapsto> Holding (acquired @ [i])))"
    using acquire_resume_inv [OF _ l(2)]
    by (auto simp: limiter_ok_def acquire_resume_frame holders_upd sleepers_upd)
  show "holders j (ts(t \<mapsto> Holding (acquired @ [i]))) = holders j ts
      \<and> sleepers j (ts(t \<mapsto> Holding (acquired @ [i]))) = sleepers j ts" if "j \<noteq> i" for j
    using t that by (auto simp: holders_def sleepers_def)
qed

lemma cancel_at_inv:
  assumes inv: "cap_inv (cc, ts)" and t: "ts t = Some (Suspended i todo acquired)"
    and l: "limiter_at cc i = Some l"
  shows "cap_inv (put_limiter i (acquire_cancel t l) cc, ts(t \<mapsto> Holding acquired))"
proof (rule cap_inv_put [OF inv l])
  have ph: "phase_ok cc (Suspended i todo acquired)" by (rule cap_inv_phase [OF inv t])
  then show "phase_ok cc (Holding acquired)" by (auto simp: phase_ok_def)
  have ok: "limiter_ok i l ts" by (rule cap_inv_at [OF inv l])
  have "t \<in> sleepers i ts" using t by (auto simp: sleepers_def)
  then obtain b where b: "map_of (li_queue l) t = Some b"
    using ok by (metis limiter_ok_def map_of_None_keys not_None_eq)
  have "holders i (ts(t \<mapsto> Holding acquired)) = holders i ts" using t by (auto simp: holders_def)
  with ok show "limiter_ok i (acquire_cancel t l) (ts(t \<mapsto> Holding acquired))"
    using acquire_cancel_inv [OF _ b] by (auto simp: limiter_ok_def acquire_cancel_frame sleepers_upd)
  show "holders j (ts(t \<mapsto> Holding acquired)) = holders j ts
      \<and> sleepers j (ts(t \<mapsto> Holding acquired)) = sleepers j ts" if "j \<noteq> i" for j
    using t that by (auto simp: holders_def sleepers_def)
qed

text \<open>Releasing what a task holds never raises.\<close>

lemma release_all_inv:
  assumes "cap_inv (cc, ts(t \<mapsto> Holding (rev ids)))"
  shows "\<exists>cc'. release_all ids cc = Inr cc' \<and> cap_inv (cc', ts(t \<mapsto> Holding []))"
  using assms
proof (induction ids arbitrary: cc)
  case (Cons i ids)
  let ?ts = "ts(t \<mapsto> Holding (rev (i # ids)))" and ?new = "Holding (rev ids)"
  have ph: "phase_ok cc (Holding (rev (i # ids)))" using cap_inv_phase [OF Cons.prems, of t] by simp
  then obtain l where l: "limiter_at cc i = Some l" by (auto simp: phase_ok_def)
  have ok: "limiter_ok i l ?ts" by (rule cap_inv_at [OF Cons.prems l])
  have fin: "finite (holders i ?ts)" by (rule holders_finite [OF cap_inv_finite [OF Cons.prems]])
  have t: "t \<in> holders i ?ts" by (simp add: holders_def)
  then have "0 < li_in_use l" using ok fin by (auto simp: limiter_ok_def card_gt_0_iff)
  then obtain m where m: "limiter_release l = Inr m" by (simp add: limiter_release_def)
  then have frame: "li_limit m = li_limit l" "Suc (li_in_use m) = li_in_use l" "od_keys (li_queue m) = od_keys (li_queue l)"
    by (auto simp: limiter_release_def split: if_splits)
  have "cap_inv (put_limiter i m cc, ?ts(t \<mapsto> ?new))"
  proof (rule cap_inv_put [OF Cons.prems l])
    show "phase_ok cc ?new" using ph by (auto simp: phase_ok_def)
    have "i \<notin> set ids" using ph by (simp add: phase_ok_def)
    then have "holders i (?ts(t \<mapsto> ?new)) = holders i ?ts - {t}" by (auto simp: holders_def)
    then have "Suc (card (holders i (?ts(t \<mapsto> ?new)))) = card (holders i ?ts)"
      using card_Suc_Diff1 [OF fin t] by simp
    moreover have "sleepers i (?ts(t \<mapsto> ?new)) = sleepers i ?ts" by (auto simp: sleepers_def)
    moreover have "limiter_inv m" using ok limiter_release_inv [OF _ m] by (simp add: limiter_ok_def)
    ultimately show "limiter_ok i m (?ts(t \<mapsto> ?new))" using ok frame by (simp add: limiter_ok_def)
    show "holders j (?ts(t \<mapsto> ?new)) = holders j ?ts \<and> sleepers j (?ts(t \<mapsto> ?new)) = sleepers j ?ts" if "j \<noteq> i" for j
      using that by (auto simp: holders_def sleepers_def)
  qed
  then have "cap_inv (put_limiter i m cc, ts(t \<mapsto> Holding (rev ids)))" by simp
  from Cons.IH [OF this] m l show ?case by simp
qed simp

lemma cap_inv_drop:
  assumes "cap_inv (cc, ts(t \<mapsto> Holding []))"
  shows "cap_inv (cc, ts(t := None))"
proof -
  have "holders i (ts(t := None)) = holders i (ts(t \<mapsto> Holding []))"
    "sleepers i (ts(t := None)) = sleepers i (ts(t \<mapsto> Holding []))" for i
    by (auto simp: holders_def sleepers_def)
  moreover have "phase_ok cc ph" if "(ts(t := None)) u = Some ph" for u ph
    using that cap_inv_phase [OF assms, of u ph] by (simp split: if_splits)
  ultimately show ?thesis using assms by (simp add: cap_inv_def limiter_ok_def)
qed

lemma cap_inv_idle:
  assumes "cap_inv (cc, ts)" "ts t = None"
  shows "cap_inv (cc, ts(t \<mapsto> Holding []))"
proof -
  have "holders i (ts(t \<mapsto> Holding [])) = holders i ts" "sleepers i (ts(t \<mapsto> Holding [])) = sleepers i ts" for i
    using assms(2) by (auto simp: holders_def sleepers_def)
  with assms show ?thesis by (auto simp: cap_inv_def limiter_ok_def phase_ok_def)
qed

lemma register_source_inv:
  assumes inv: "cap_inv (cc, ts)" and reg: "register_source source limit cc = Inr cc'"
  shows "cap_inv (cc', ts)"
proof (cases limit)
  case (Some n)
  with reg obtain nm v l where l: "mk_limiter v = Inr l"
    and cc': "cc' = cc\<lparr>cc_source_limits := od_set nm v (cc_source_limits cc),
        cc_source_limiters := (if nm \<in> set (od_keys (cc_source_limiters cc)) then cc_source_limiters cc
                               else od_set nm l (cc_source_limiters cc))\<rparr>"
    by (auto simp: register_source_def res_iff)
  show ?thesis
  proof (cases "nm \<in> set (od_keys (cc_source_limiters cc))")
    case True
    then have same: "limiter_at cc' = limiter_at cc" by (auto simp: cc' limiter_at_def fun_eq_iff split: option.splits)
    have "phase_ok cc' = phase_ok cc" unfolding phase_ok_def same by (rule refl)
    with inv same show ?thesis by (simp add: cap_inv_def)
  next
    case False
    then have absent: "limiter_at cc (Some nm) = None" by (simp add: limiter_at_def map_of_None_keys)
    have at: "limiter_at cc' j = (if j = Some nm then Some l else limiter_at cc j)" for j
      using False by (auto simp: cc' limiter_at_def split: option.splits)
    have ok: "phase_ok cc' ph" if "phase_ok cc ph" for ph
      using that by (auto simp: phase_ok_def at split: cap_phase.splits)
    have unused: "Some nm \<notin> set (held_of ph)" "\<nexists>todo acquired. ph = Suspended (Some nm) todo acquired"
      if "phase_ok cc ph" for ph using that absent by (cases ph; force simp: phase_ok_def)+
    have "holders (Some nm) ts = {}" "sleepers (Some nm) ts = {}"
      unfolding holders_def sleepers_def using cap_inv_phase [OF inv] unused by blast+
    then have "limiter_ok (Some nm) l ts" using mk_limiter_inv [OF l] by (simp add: limiter_ok_def)
    with inv ok show ?thesis by (auto simp: cap_inv_def at)
  qed
qed (use reg inv in \<open>simp add: register_source_def\<close>)

lemma cap_step_inv:
  assumes inv: "cap_inv s" and step: "cap_step s e s'"
  shows "cap_inv s'"
  using step
proof cases
  case (cap_acquire ts t source cc ph cc')
  from cap_acquire(5) obtain nm where run: "acquire_run t (if map_of (cc_source_limiters cc) nm = None then [None] else [Some nm, None]) [] cc = (ph, cc')"
    by (auto simp: controller_acquire_def Let_def split: sum.splits prod.splits)
  have "cap_inv (cc, ts(t \<mapsto> Holding []))" using inv cap_acquire by (auto intro: cap_inv_idle)
  from acquire_run_inv [OF this _ _ run] show ?thesis
    using cap_acquire by (auto simp: limiter_at_def split: if_splits)
next
  case (cap_resume ts t i todo acquired cc l ph cc')
  have "cap_inv (put_limiter i (acquire_resume t l) cc, ts(t \<mapsto> Holding (acquired @ [i])))"
    using inv cap_resume by (auto intro: resume_at_inv)
  moreover have "phase_ok cc (Suspended i todo acquired)" using inv cap_resume by (auto intro: cap_inv_phase)
  ultimately show ?thesis
    using cap_resume acquire_run_inv [of "put_limiter i (acquire_resume t l) cc" ts t "acquired @ [i]" todo ph cc']
    by (auto simp: phase_ok_def)
next
  case (cap_cancel ts t i todo acquired cc cc')
  have "phase_ok cc (Suspended i todo acquired)" using inv cap_cancel by (auto intro: cap_inv_phase)
  then obtain l where l: "limiter_at cc i = Some l" by (auto simp: phase_ok_def)
  have "cap_inv (put_limiter i (acquire_cancel t l) cc, ts(t \<mapsto> Holding (rev (rev acquired))))"
    using inv cap_cancel l by (auto intro: cancel_at_inv)
  from release_all_inv [OF this] cap_cancel l show ?thesis by (auto intro: cap_inv_drop)
next
  case (cap_release ts t acquired cc cc')
  then have "cap_inv (cc, ts(t \<mapsto> Holding (rev (rev acquired))))" using inv by (simp add: fun_upd_idem)
  from release_all_inv [OF this] cap_release show ?thesis by (auto simp: lease_release_def intro: cap_inv_drop)
next
  case (cap_register source limit cc cc' ts)
  with inv show ?thesis by (auto intro: register_source_inv)
qed

interpretation capacity_machine: machine cap_step cap_inv
  by unfold_locales (rule cap_step_inv)

lemma mk_capacity_controller_inv:
  assumes "mk_capacity_controller g limits = Inr cc"
  shows "cap_inv (cc, Map.empty)"
proof -
  from assms obtain gl ls lims where gl: "mk_limiter g = Inr gl"
    and lims: "res_map (\<lambda>p. res_bind (mk_limiter (snd p)) (\<lambda>l. Inr (fst p, l))) (od_of ls) = Inr lims"
    and cc: "cc = \<lparr>cc_global = gl, cc_source_limits = od_of ls, cc_source_limiters = lims\<rparr>"
    by (auto simp: mk_capacity_controller_def res_iff)
  have "limiter_inv l \<and> li_in_use l = 0 \<and> li_queue l = [] \<and> 0 < li_limit l" if "limiter_at cc i = Some l" for i l
  proof (cases i)
    case None
    with that gl show ?thesis by (auto simp: cc limiter_at_def dest: mk_limiter_inv)
  next
    case (Some s)
    with that have "(s, l) \<in> set lims" by (auto simp: cc limiter_at_def dest: map_of_SomeD)
    from res_map_in [OF lims this] show ?thesis by (auto simp: res_iff dest: mk_limiter_inv)
  qed
  then show ?thesis by (auto simp: cap_inv_def limiter_ok_def holders_def sleepers_def)
qed

subsection \<open>Properties\<close>

text \<open>
  C10: concurrency limits hold under every interleaving. From construction on, however tasks
  acquire, resume, are cancelled at any point of their wait, release their lease or register
  sources, no limiter ever has more slots in use than its limit, its counter is the number
  of tasks that hold a slot of it, and when no task is left every slot is free again.
\<close>

theorem capacity_limits_respected:
  assumes "mk_capacity_controller global_limit limits = Inr cc0"
    and "run_of cap_step (cc0, Map.empty) events (cc, tasks)" and "limiter_at cc i = Some l"
  shows "li_in_use l \<le> li_limit l \<and> li_in_use l = card (holders i tasks)
    \<and> li_waiting l = card (sleepers i tasks)
    \<and> (tasks = Map.empty \<longrightarrow> li_value l = li_limit l)"
proof -
  have "cap_inv (cc, tasks)"
    using capacity_machine.run_inv [OF assms(2) mk_capacity_controller_inv [OF assms(1)]] .
  then have ok: "limiter_ok i l tasks" using assms(3) by (rule cap_inv_at)
  then have "distinct (od_keys (li_queue l))" "set (od_keys (li_queue l)) = sleepers i tasks"
    "li_waiting l = length (od_keys (li_queue l))" by (auto simp: limiter_ok_def limiter_inv_def)
  then have "li_waiting l = card (sleepers i tasks)" by (metis distinct_card)
  moreover have "li_value l = li_limit l" if "tasks = Map.empty"
  proof -
    have "sleepers i tasks = {}" "holders i tasks = {}" using that by (auto simp: sleepers_def holders_def)
    with ok show ?thesis by (auto simp: limiter_ok_def limiter_inv_def woken_tasks_def)
  qed
  ultimately show ?thesis using ok by (auto simp: limiter_ok_def limiter_inv_def)
qed

definition fixture_controller :: capacity_controller where
  "fixture_controller = \<lparr>cc_global = \<lparr>li_limit = 1, li_value = 1, li_queue = [], li_in_use = 0, li_waiting = 0\<rparr>,
     cc_source_limits = [(''feed'', 1)],
     cc_source_limiters = [(''feed'', \<lparr>li_limit = 1, li_value = 1, li_queue = [], li_in_use = 0, li_waiting = 0\<rparr>)]\<rparr>"

lemma fixture_controller_made: "mk_capacity_controller 1 [('' feed'', 1)] = Inr fixture_controller"
  by (simp add: mk_capacity_controller_def mk_limiter_def normalize_source_def validate_limit_def strip_def is_space_def
      od_of_def od_update_def fixture_controller_def)

text \<open>Two tasks ask for the same source: the second waits for the first.\<close>

lemma fixture_capacity_run:
  "\<exists>cc ph. run_of cap_step (fixture_controller, Map.empty) [CapAcquire 7, CapAcquire 2] (cc, [7 \<mapsto> Holding [Some ''feed'', None], 2 \<mapsto> ph])
     \<and> (\<exists>l. limiter_at cc None = Some l)"
proof -
  let ?r = "controller_acquire 7 ''feed'' fixture_controller"
  have src: "normalize_source ''feed'' = Inr ''feed''" by (simp add: normalize_source_def strip_def is_space_def)
  have first: "?r = (Inr (Holding [Some ''feed'', None]), snd ?r)"
    by (simp add: controller_acquire_def src fixture_controller_def acquire_begin_def limiter_at_def put_limiter_def)
  have "\<exists>ph. fst (controller_acquire 2 ''feed'' (snd ?r)) = Inr ph"
    by (simp add: controller_acquire_def src Let_def split_beta)
  then obtain ph where second: "controller_acquire 2 ''feed'' (snd ?r) = (Inr ph, snd (controller_acquire 2 ''feed'' (snd ?r)))"
    by (metis prod.collapse)
  have "cap_step (fixture_controller, Map.empty) (CapAcquire 7) (snd ?r, [7 \<mapsto> Holding [Some ''feed'', None]])"
    using cap_step.cap_acquire [OF _ first, of Map.empty] by simp
  moreover have "cap_step (snd ?r, [7 \<mapsto> Holding [Some ''feed'', None]]) (CapAcquire 2)
      (snd (controller_acquire 2 ''feed'' (snd ?r)), [7 \<mapsto> Holding [Some ''feed'', None], 2 \<mapsto> ph])"
    using cap_step.cap_acquire [OF _ second, of "[7 \<mapsto> Holding [Some ''feed'', None]]"] by simp
  ultimately have "run_of cap_step (fixture_controller, Map.empty) [CapAcquire 7, CapAcquire 2]
      (snd (controller_acquire 2 ''feed'' (snd ?r)), [7 \<mapsto> Holding [Some ''feed'', None], 2 \<mapsto> ph])"
    by (rule run_cons [OF _ run_cons [OF _ run_nil]])
  then show ?thesis by (intro exI conjI) (simp_all add: limiter_at_def)
qed

theorem capacity_limits_respected_witness:
  "\<exists>cc tasks l. run_of cap_step (fixture_controller, Map.empty) [CapAcquire 7, CapAcquire 2] (cc, tasks)
     \<and> limiter_at cc None = Some l \<and> li_in_use l \<le> li_limit l"
proof -
  from fixture_capacity_run obtain cc ph l where
    run: "run_of cap_step (fixture_controller, Map.empty) [CapAcquire 7, CapAcquire 2] (cc, [7 \<mapsto> Holding [Some ''feed'', None], 2 \<mapsto> ph])"
    and l: "limiter_at cc None = Some l" by (elim exE conjE)
  from capacity_limits_respected [OF fixture_controller_made run l] have "li_in_use l \<le> li_limit l" by simp
  with run l show ?thesis by (intro exI conjI)
qed

text \<open>
  Cancellation and release never fail and never leak. In every reachable state, cancelling
  a waiting task, wherever it waits, and releasing a lease succeed; afterwards the task
  holds no slot of any limiter. A second release of the same lease changes nothing.
\<close>

lemma capacity_release_safe:
  assumes "mk_capacity_controller global_limit limits = Inr cc0"
    and "run_of cap_step (cc0, Map.empty) events (cc, tasks)" and "tasks t = Some ph"
  shows "\<exists>cc' lease. (case ph of
        Suspended i todo acquired \<Rightarrow> controller_cancel t ph cc = Inr cc'
      | Holding acquired \<Rightarrow> lease_release \<lparr>ls_limiters = acquired, ls_released = False\<rparr> cc = (Inr cc', lease)
          \<and> lease_release lease cc' = (Inr cc', lease))
    \<and> cap_inv (cc', tasks(t := None))
    \<and> (\<forall>i l. limiter_at cc' i = Some l \<longrightarrow> li_in_use l = card (holders i tasks - {t}))"
proof -
  have inv: "cap_inv (cc, tasks)"
    using capacity_machine.run_inv [OF assms(2) mk_capacity_controller_inv [OF assms(1)]] .
  have count: "li_in_use l = card (holders i tasks - {t})"
    if "cap_inv (cc', tasks(t := None))" "limiter_at cc' i = Some l" for cc' i l
  proof -
    have "holders i (tasks(t := None)) = holders i tasks - {t}" by (auto simp: holders_def)
    with cap_inv_at [OF that] show ?thesis by (simp add: limiter_ok_def)
  qed
  show ?thesis
  proof (cases ph)
    case (Suspended i todo acquired)
    with cap_inv_phase [OF inv assms(3)] obtain l where l: "limiter_at cc i = Some l" by (auto simp: phase_ok_def)
    have "cap_inv (put_limiter i (acquire_cancel t l) cc, tasks(t \<mapsto> Holding (rev (rev acquired))))"
      using cancel_at_inv [OF inv _ l] assms(3) Suspended by simp
    from release_all_inv [OF this] obtain cc' where
      "controller_cancel t ph cc = Inr cc'" "cap_inv (cc', tasks(t := None))"
      using l Suspended by (auto intro: cap_inv_drop)
    with count Suspended show ?thesis by auto
  next
    case (Holding acquired)
    with inv assms(3) have "cap_inv (cc, tasks(t \<mapsto> Holding (rev (rev acquired))))" by (simp add: fun_upd_idem)
    from release_all_inv [OF this] obtain cc' where
      "release_all (rev acquired) cc = Inr cc'" "cap_inv (cc', tasks(t := None))" by (auto intro: cap_inv_drop)
    with count Holding show ?thesis
      by (intro exI [of _ cc'] exI [of _ "\<lparr>ls_limiters = acquired, ls_released = True\<rparr>"]) (auto simp: lease_release_def)
  qed
qed

lemma capacity_release_safe_witness:
  "\<exists>cc tasks cc'. run_of cap_step (fixture_controller, Map.empty) [CapAcquire 7, CapAcquire 2] (cc, tasks)
     \<and> fst (lease_release \<lparr>ls_limiters = [Some ''feed'', None], ls_released = False\<rparr> cc) = Inr cc'"
proof -
  from fixture_capacity_run obtain cc ph l where
    run: "run_of cap_step (fixture_controller, Map.empty) [CapAcquire 7, CapAcquire 2] (cc, [7 \<mapsto> Holding [Some ''feed'', None], 2 \<mapsto> ph])"
    by (elim exE conjE)
  from capacity_release_safe [OF fixture_controller_made run, of 7] obtain cc' where
    "fst (lease_release \<lparr>ls_limiters = [Some ''feed'', None], ls_released = False\<rparr> cc) = Inr cc'" by auto
  with run show ?thesis by (intro exI conjI)
qed

text \<open>
  no wake-up is lost. In every reachable state, if a limiter has a free slot while a task
  sleeps in its queue, another task of that queue has been woken, and its resumption or
  cancellation passes the slot on.
\<close>

lemma capacity_no_lost_wakeup:
  assumes "mk_capacity_controller global_limit limits = Inr cc0"
    and "run_of cap_step (cc0, Map.empty) events (cc, tasks)" and "limiter_at cc i = Some l"
    and "li_in_use l < li_limit l" and "sleeping_tasks l \<noteq> []"
  shows "\<exists>t todo acquired. t \<in> set (woken_tasks l) \<and> tasks t = Some (Suspended i todo acquired)"
proof -
  have "cap_inv (cc, tasks)"
    using capacity_machine.run_inv [OF assms(2) mk_capacity_controller_inv [OF assms(1)]] .
  then have ok: "limiter_ok i l tasks" using assms(3) by (rule cap_inv_at)
  have "woken_tasks l \<noteq> []"
    using ok assms(4,5) by (cases "li_value l") (auto simp: limiter_ok_def limiter_inv_def)
  then obtain t where t: "t \<in> set (woken_tasks l)" by (cases "woken_tasks l") auto
  then have "t \<in> sleepers i tasks" using ok by (auto simp: limiter_ok_def woken_tasks_def)
  with t show ?thesis by (auto simp: sleepers_def)
qed

text \<open>One global slot: task 7 holds it, tasks 8 and 9 wait, and task 7 releases it.\<close>

definition fixture_pool :: "nat \<Rightarrow> (nat, bool) odict \<Rightarrow> nat \<Rightarrow> capacity_controller" where
  "fixture_pool v q u = \<lparr>cc_global = \<lparr>li_limit = 1, li_value = v, li_queue = q, li_in_use = u, li_waiting = length q\<rparr>,
     cc_source_limits = [], cc_source_limiters = []\<rparr>"

lemma capacity_no_lost_wakeup_witness:
  "\<exists>tasks t todo acquired. run_of cap_step (fixture_pool 1 [] 0, Map.empty)
       [CapAcquire 7, CapAcquire 8, CapAcquire 9, CapRelease 7] (fixture_pool 0 [(8, True), (9, False)] 0, tasks)
     \<and> t \<in> set (woken_tasks (cc_global (fixture_pool 0 [(8, True), (9, False)] 0)))
     \<and> tasks t = Some (Suspended None todo acquired)"
proof -
  have src: "normalize_source ''feed'' = Inr ''feed''" by (simp add: normalize_source_def strip_def is_space_def)
  let ?h = "Holding [None]" and ?w = "Suspended None [] []"
  note defs = controller_acquire_def src acquire_begin_def fixture_pool_def limiter_at_def put_limiter_def
  have "controller_acquire 7 ''feed'' (fixture_pool 1 [] 0) = (Inr ?h, fixture_pool 0 [] 1)"
    "controller_acquire 8 ''feed'' (fixture_pool 0 [] 1) = (Inr ?w, fixture_pool 0 [(8, False)] 1)"
    "controller_acquire 9 ''feed'' (fixture_pool 0 [(8, False)] 1) = (Inr ?w, fixture_pool 0 [(8, False), (9, False)] 1)"
    by (simp_all add: defs)
  then have "cap_step (fixture_pool 1 [] 0, Map.empty) (CapAcquire 7) (fixture_pool 0 [] 1, [7 \<mapsto> ?h])"
    "cap_step (fixture_pool 0 [] 1, [7 \<mapsto> ?h]) (CapAcquire 8) (fixture_pool 0 [(8, False)] 1, [7 \<mapsto> ?h, 8 \<mapsto> ?w])"
    "cap_step (fixture_pool 0 [(8, False)] 1, [7 \<mapsto> ?h, 8 \<mapsto> ?w]) (CapAcquire 9)
       (fixture_pool 0 [(8, False), (9, False)] 1, [7 \<mapsto> ?h, 8 \<mapsto> ?w, 9 \<mapsto> ?w])"
    by (auto intro!: cap_step.cap_acquire)
  moreover have "fst (lease_release \<lparr>ls_limiters = [None], ls_released = False\<rparr> (fixture_pool 0 [(8, False), (9, False)] 1))
      = Inr (fixture_pool 0 [(8, True), (9, False)] 0)"
    by (simp add: lease_release_def limiter_release_def wake_up_next_def fixture_pool_def limiter_at_def put_limiter_def)
  then have "cap_step (fixture_pool 0 [(8, False), (9, False)] 1, [7 \<mapsto> ?h, 8 \<mapsto> ?w, 9 \<mapsto> ?w]) (CapRelease 7)
      (fixture_pool 0 [(8, True), (9, False)] 0, [7 \<mapsto> ?h, 8 \<mapsto> ?w, 9 \<mapsto> ?w](7 := None))"
    by (intro cap_step.cap_release) simp_all
  ultimately have run: "run_of cap_step (fixture_pool 1 [] 0, Map.empty)
       [CapAcquire 7, CapAcquire 8, CapAcquire 9, CapRelease 7]
       (fixture_pool 0 [(8, True), (9, False)] 0, [7 \<mapsto> ?h, 8 \<mapsto> ?w, 9 \<mapsto> ?w](7 := None))"
    by (intro run_cons [OF _ run_cons [OF _ run_cons [OF _ run_cons [OF _ run_nil]]]])
  have made: "mk_capacity_controller 1 [] = Inr (fixture_pool 1 [] 0)"
    by (simp add: mk_capacity_controller_def mk_limiter_def fixture_pool_def od_of_def od_update_def)
  from capacity_no_lost_wakeup [OF made run, of None "cc_global (fixture_pool 0 [(8, True), (9, False)] 0)"]
  obtain t todo acquired where "t \<in> set (woken_tasks (cc_global (fixture_pool 0 [(8, True), (9, False)] 0)))"
    "([7 \<mapsto> ?h, 8 \<mapsto> ?w, 9 \<mapsto> ?w](7 := None)) t = Some (Suspended None todo acquired)"
    by (auto simp: limiter_at_def fixture_pool_def sleeping_tasks_def)
  with run show ?thesis by (intro exI conjI)
qed

end
