(* ===== verification/Dispatch.thy ===== *)
theory Dispatch
  imports Errors
begin

section \<open>Bounded ordered dispatch (concurrency/dispatch.py)\<close>

text \<open>
  \<open>run_bounded\<close> starts a fixed set of workers that take the next index from a shared
  counter, run the operation on that item and store the result under the index. The event
  loop interleaves the workers freely: the machine below has one step per stretch a worker
  runs without awaiting, and \<open>f x\<close> is what the operation does on item \<open>x\<close>. The health
  tracker only counts workers and is left out.
\<close>

datatype worker = Ready | Busy nat | Finished

record ('r) dispatch =
  dp_next :: nat
  dp_workers :: "worker list"
  dp_results :: "nat \<rightharpoonup> 'r"
  dp_failed :: "py_error option"

definition start_dispatch :: "'i list \<Rightarrow> int \<Rightarrow> arg_error + 'r dispatch" where
  "start_dispatch items max_tasks =
     (if max_tasks < 1 then Inl (ValueError ''max_tasks must be at least 1'')
      else Inr \<lparr>dp_next = 0, dp_workers = replicate (min (nat max_tasks) (length items)) Ready,
                dp_results = Map.empty, dp_failed = None\<rparr>)"

text \<open>One stretch of worker \<open>w\<close>; a failed operation cancels every worker.\<close>

definition worker_step :: "('i \<Rightarrow> py_error + 'r) \<Rightarrow> 'i list \<Rightarrow> nat \<Rightarrow> 'r dispatch \<Rightarrow> 'r dispatch" where
  "worker_step f items w d =
     (case dp_workers d ! w of
        Ready \<Rightarrow>
          if dp_next d < length items
          then d\<lparr>dp_workers := (dp_workers d)[w := Busy (dp_next d)], dp_next := dp_next d + 1\<rparr>
          else d\<lparr>dp_workers := (dp_workers d)[w := Finished]\<rparr>
      | Busy i \<Rightarrow>
          (case f (items ! i) of
             Inr r \<Rightarrow> d\<lparr>dp_results := (dp_results d)(i \<mapsto> r), dp_workers := (dp_workers d)[w := Ready]\<rparr>
           | Inl e \<Rightarrow> d\<lparr>dp_failed := Some e, dp_workers := map (\<lambda>_. Finished) (dp_workers d)\<rparr>)
      | Finished \<Rightarrow> d)"

inductive dispatch_step :: "('i \<Rightarrow> py_error + 'r) \<Rightarrow> 'i list \<Rightarrow> 'r dispatch \<Rightarrow> nat \<Rightarrow> 'r dispatch \<Rightarrow> bool"
  for f items where
  dispatch_stepI: "w < length (dp_workers d) \<Longrightarrow> dp_workers d ! w \<noteq> Finished
    \<Longrightarrow> dispatch_step f items d w (worker_step f items w d)"

inductive_cases dispatch_stepE: "dispatch_step f items d w d'"

text \<open>What the caller gets when no worker can move any more.\<close>

definition dispatch_result :: "'i list \<Rightarrow> 'r dispatch \<Rightarrow> py_error + 'r list" where
  "dispatch_result items d =
     (case dp_failed d of
        Some e \<Rightarrow> Inl e
      | None \<Rightarrow> Inr (map (\<lambda>i. the (dp_results d i)) [0..<length items]))"

subsection \<open>Invariant\<close>

definition busy_indices :: "'r dispatch \<Rightarrow> nat list" where
  "busy_indices d = concat (map (\<lambda>w. case w of Busy i \<Rightarrow> [i] | _ \<Rightarrow> []) (dp_workers d))"

text \<open>
  Every index below the counter is either being worked on by exactly one worker or has its
  result; no other index has been touched.
\<close>

definition dispatch_inv :: "('i \<Rightarrow> py_error + 'r) \<Rightarrow> 'i list \<Rightarrow> nat \<Rightarrow> 'r dispatch \<Rightarrow> bool" where
  "dispatch_inv f items n d \<longleftrightarrow> length (dp_workers d) = n
     \<and> (case dp_failed d of
          Some e \<Rightarrow> (\<forall>w \<in> set (dp_workers d). w = Finished) \<and> (\<exists>x \<in> set items. f x = Inl e)
        | None \<Rightarrow> dp_next d \<le> length items
            \<and> (Finished \<in> set (dp_workers d) \<longrightarrow> dp_next d = length items)
            \<and> distinct (busy_indices d)
            \<and> set (busy_indices d) \<inter> dom (dp_results d) = {}
            \<and> set (busy_indices d) \<union> dom (dp_results d) = {0..<dp_next d}
            \<and> (\<forall>i r. dp_results d i = Some r \<longrightarrow> f (items ! i) = Inr r))"

lemma busy_indices_update:
  assumes "w < length ws"
  shows "mset (concat (map g (ws[w := x]))) + mset (g (ws ! w)) = mset (concat (map g ws)) + mset (g x)"
  using assms
proof (induction ws arbitrary: w)
  case (Cons y ws)
  then show ?case by (cases w) (auto simp: ac_simps)
qed simp

lemma busy_after:
  assumes "w < length (dp_workers d)"
  shows "mset (busy_indices (d\<lparr>dp_workers := (dp_workers d)[w := x]\<rparr>))
      + mset (case dp_workers d ! w of Busy i \<Rightarrow> [i] | _ \<Rightarrow> [])
    = mset (busy_indices d) + mset (case x of Busy i \<Rightarrow> [i] | _ \<Rightarrow> [])"
  using busy_indices_update [OF assms, of "\<lambda>w. case w of Busy i \<Rightarrow> [i] | _ \<Rightarrow> []" x]
  by (simp add: busy_indices_def)

lemma busy_indices_frame [simp]:
  "busy_indices (d\<lparr>dp_next := n\<rparr>) = busy_indices d" "busy_indices (d\<lparr>dp_results := r\<rparr>) = busy_indices d"
  by (simp_all add: busy_indices_def)

lemma distinct_by_mset: "mset xs = mset ys \<Longrightarrow> distinct xs = distinct ys \<and> set xs = set ys"
  by (metis mset_eq_imp_distinct_iff mset_eq_setD)

lemma dispatch_invI:
  assumes "dp_failed d = None" "length (dp_workers d) = n" "dp_next d \<le> length items"
    "Finished \<in> set (dp_workers d) \<Longrightarrow> dp_next d = length items" "distinct (busy_indices d)"
    "set (busy_indices d) \<inter> dom (dp_results d) = {}" "set (busy_indices d) \<union> dom (dp_results d) = {0..<dp_next d}"
    "\<And>i r. dp_results d i = Some r \<Longrightarrow> f (items ! i) = Inr r"
  shows "dispatch_inv f items n d"
  using assms by (simp add: dispatch_inv_def)

lemma dispatch_invD:
  assumes "dispatch_inv f items n d" "dp_failed d = None"
  shows "length (dp_workers d) = n" "dp_next d \<le> length items"
    "Finished \<in> set (dp_workers d) \<Longrightarrow> dp_next d = length items" "distinct (busy_indices d)"
    "set (busy_indices d) \<inter> dom (dp_results d) = {}" "set (busy_indices d) \<union> dom (dp_results d) = {0..<dp_next d}"
    "\<And>i r. dp_results d i = Some r \<Longrightarrow> f (items ! i) = Inr r"
  using assms by (simp_all add: dispatch_inv_def)

lemma take_inv:
  assumes inv: "dispatch_inv f items n d" and w: "w < length (dp_workers d)" "dp_workers d ! w = Ready"
    and run: "dp_failed d = None" "dp_next d < length items"
  shows "dispatch_inv f items n (d\<lparr>dp_workers := (dp_workers d)[w := Busy (dp_next d)], dp_next := dp_next d + 1\<rparr>)"
proof -
  let ?d = "d\<lparr>dp_workers := (dp_workers d)[w := Busy (dp_next d)]\<rparr>"
  have m: "mset (busy_indices ?d) = mset (dp_next d # busy_indices d)"
    using busy_after [OF w(1), of "Busy (dp_next d)"] w(2) by simp
  then have b: "distinct (busy_indices ?d) = distinct (dp_next d # busy_indices d)"
    "set (busy_indices ?d) = insert (dp_next d) (set (busy_indices d))"
    using distinct_by_mset [OF m] by simp_all
  note D = dispatch_invD [OF inv run(1)]
  have nf: "Finished \<notin> set (dp_workers d)" using D(3) run by auto
  then have nf': "Finished \<notin> set ((dp_workers d)[w := Busy (dp_next d)])"
    using set_update_subset_insert [of "dp_workers d" w "Busy (dp_next d)"] by auto
  have "dp_next d \<notin> set (busy_indices d) \<union> dom (dp_results d)" unfolding D(6) by simp
  then have fresh: "dp_next d \<notin> set (busy_indices d)" "dp_next d \<notin> dom (dp_results d)" by simp_all
  show ?thesis
  proof (rule dispatch_invI)
    have "set (busy_indices ?d) \<union> dom (dp_results d) = insert (dp_next d) {0..<dp_next d}" using b(2) D(6) by auto
    then show "set (busy_indices (?d\<lparr>dp_next := dp_next d + 1\<rparr>)) \<union> dom (dp_results (?d\<lparr>dp_next := dp_next d + 1\<rparr>))
        = {0..<dp_next (?d\<lparr>dp_next := dp_next d + 1\<rparr>)}" by (simp add: atLeastLessThanSuc)
    show "set (busy_indices (?d\<lparr>dp_next := dp_next d + 1\<rparr>)) \<inter> dom (dp_results (?d\<lparr>dp_next := dp_next d + 1\<rparr>)) = {}"
      using b(2) D(5) fresh by auto
  qed (use D run b(1) nf' fresh in simp_all)
qed

lemma finish_inv:
  assumes inv: "dispatch_inv f items n d" and w: "w < length (dp_workers d)" "dp_workers d ! w = Busy i"
    and run: "dp_failed d = None" and r: "f (items ! i) = Inr r"
  shows "dispatch_inv f items n (d\<lparr>dp_results := (dp_results d)(i \<mapsto> r), dp_workers := (dp_workers d)[w := Ready]\<rparr>)"
proof -
  let ?d = "d\<lparr>dp_workers := (dp_workers d)[w := Ready]\<rparr>"
  have m: "mset (i # busy_indices ?d) = mset (busy_indices d)"
    using busy_after [OF w(1), of Ready] w(2) by simp
  then have b: "distinct (i # busy_indices ?d) = distinct (busy_indices d)"
    "insert i (set (busy_indices ?d)) = set (busy_indices d)"
    using distinct_by_mset [OF m] by simp_all
  have "Finished \<in> set (dp_workers d)" if "Finished \<in> set ((dp_workers d)[w := Ready])"
    using that set_update_subset_insert [of "dp_workers d" w Ready] by auto
  moreover have "busy_indices (d\<lparr>dp_results := (dp_results d)(i \<mapsto> r), dp_workers := (dp_workers d)[w := Ready]\<rparr>)
      = busy_indices ?d" by (simp add: busy_indices_def)
  moreover note D = dispatch_invD [OF inv run]
  moreover have "set (busy_indices ?d) \<inter> insert i (dom (dp_results d)) = {}" using b D(4,5) by auto
  moreover have "set (busy_indices ?d) \<union> insert i (dom (dp_results d)) = {0..<dp_next d}" using b(2) D(6) by auto
  moreover have "f (items ! j) = Inr q" if "((dp_results d)(i \<mapsto> r)) j = Some q" for j q
    using that D(7) r by (auto split: if_splits)
  ultimately show ?thesis using run b by (intro dispatch_invI) simp_all
qed

lemma stop_inv:
  assumes inv: "dispatch_inv f items n d" and w: "w < length (dp_workers d)" "dp_workers d ! w = Ready"
    and run: "dp_failed d = None" "\<not> dp_next d < length items"
  shows "dispatch_inv f items n (d\<lparr>dp_workers := (dp_workers d)[w := Finished]\<rparr>)"
proof -
  let ?d = "d\<lparr>dp_workers := (dp_workers d)[w := Finished]\<rparr>"
  have m: "mset (busy_indices ?d) = mset (busy_indices d)" using busy_after [OF w(1), of Finished] w(2) by simp
  then have b: "distinct (busy_indices ?d) = distinct (busy_indices d)" "set (busy_indices ?d) = set (busy_indices d)"
    using distinct_by_mset [OF m] by simp_all
  note D = dispatch_invD [OF inv run(1)]
  show ?thesis using D run b by (intro dispatch_invI) simp_all
qed

lemma dispatch_step_inv:
  assumes inv: "dispatch_inv f items n d" and step: "dispatch_step f items d w d'"
  shows "dispatch_inv f items n d'"
proof -
  from step have w: "w < length (dp_workers d)" "dp_workers d ! w \<noteq> Finished"
    and d': "d' = worker_step f items w d" by (auto elim: dispatch_stepE)
  have run: "dp_failed d = None" using inv w by (auto simp: dispatch_inv_def split: option.splits)
  show ?thesis
  proof (cases "dp_workers d ! w")
    case Ready
    with inv w run show ?thesis by (auto simp: d' worker_step_def intro: take_inv [simplified] stop_inv)
  next
    case (Busy i)
    then have "Busy i \<in> set (dp_workers d)" using w by (metis nth_mem)
    then have "i \<in> set (busy_indices d)" by (force simp: busy_indices_def)
    then have "i < dp_next d" using dispatch_invD(6) [OF inv run] by auto
    then have "i < length items" using dispatch_invD(2) [OF inv run] by simp
    show ?thesis
    proof (cases "f (items ! i)")
      case (Inl e)
      with Busy inv run \<open>i < length items\<close> show ?thesis by (auto simp: d' worker_step_def dispatch_inv_def)
    next
      case (Inr r)
      with Busy inv w run show ?thesis by (simp add: d' worker_step_def finish_inv)
    qed
  qed (use w in simp)
qed

interpretation dispatch_machine: machine "dispatch_step f items" "dispatch_inv f items n" for f items n
  by unfold_locales (rule dispatch_step_inv)

subsection \<open>Termination\<close>

text \<open>What is left to do: two stretches per untouched item, one per item in work, one per worker.\<close>

definition dispatch_work :: "'i list \<Rightarrow> 'r dispatch \<Rightarrow> nat" where
  "dispatch_work items d =
     (if dp_failed d = None then 2 * (length items - dp_next d) + length (busy_indices d)
        + length (filter (\<lambda>w. w \<noteq> Finished) (dp_workers d)) else 0)"

lemma length_by_mset: "mset xs = mset ys \<Longrightarrow> length xs = length ys"
  by (metis size_mset)

lemma unfinished_update:
  "w < length ws \<Longrightarrow> ws ! w \<noteq> Finished \<Longrightarrow> x \<noteq> Finished \<Longrightarrow>
   length (filter (\<lambda>w. w \<noteq> Finished) (ws[w := x])) = length (filter (\<lambda>w. w \<noteq> Finished) ws)"
  "w < length ws \<Longrightarrow> ws ! w \<noteq> Finished \<Longrightarrow>
   Suc (length (filter (\<lambda>w. w \<noteq> Finished) (ws[w := Finished]))) = length (filter (\<lambda>w. w \<noteq> Finished) ws)"
  by (induction ws arbitrary: w; auto simp: nth_Cons split: nat.splits)+

lemma dispatch_step_decreases:
  assumes inv: "dispatch_inv f items n d" and step: "dispatch_step f items d w d'"
  shows "dispatch_work items d' < dispatch_work items d"
proof -
  from step have w: "w < length (dp_workers d)" "dp_workers d ! w \<noteq> Finished"
    and d': "d' = worker_step f items w d" by (auto elim: dispatch_stepE)
  have run: "dp_failed d = None" using inv w by (auto simp: dispatch_inv_def split: option.splits)
  have live: "0 < length (filter (\<lambda>w. w \<noteq> Finished) (dp_workers d))"
    using w by (auto simp: filter_empty_conv intro: nth_mem)
  have size: "length (busy_indices (d\<lparr>dp_workers := (dp_workers d)[w := x]\<rparr>))
      + length (case dp_workers d ! w of Busy i \<Rightarrow> [i] | _ \<Rightarrow> [])
    = length (busy_indices d) + length (case x of Busy i \<Rightarrow> [i] | _ \<Rightarrow> [])" for x
    using busy_after [OF w(1), of x] by (metis length_append length_by_mset mset_append)
  have frame: "busy_indices (d\<lparr>dp_results := R, dp_workers := W\<rparr>) = busy_indices (d\<lparr>dp_workers := W\<rparr>)" for R W
    by (simp add: busy_indices_def)
  show ?thesis
  proof (cases "dp_workers d ! w")
    case Ready
    show ?thesis
    proof (cases "dp_next d < length items")
      case True
      with Ready w run size [of "Busy (dp_next d)"] unfinished_update(1) [OF w, of "Busy (dp_next d)"] show ?thesis
        by (simp add: d' worker_step_def dispatch_work_def)
    next
      case False
      with Ready w run size [of Finished] unfinished_update(2) [OF w] show ?thesis
        by (simp add: d' worker_step_def dispatch_work_def)
    qed
  next
    case (Busy i)
    with w run live size [of Ready] unfinished_update(1) [OF w, of Ready] show ?thesis
      by (cases "f (items ! i)") (simp_all add: d' worker_step_def dispatch_work_def frame)
  qed (use w in simp)
qed

subsection \<open>Properties\<close>

lemma start_dispatch_inv:
  "start_dispatch items m = Inr d \<Longrightarrow> dispatch_inv f items (min (nat m) (length items)) d
     \<and> dispatch_work items d \<le> 3 * length items \<and> length (dp_workers d) = min (nat m) (length items)"
  by (auto simp: start_dispatch_def dispatch_inv_def dispatch_work_def busy_indices_def split: if_splits)

lemma dispatch_run_bound:
  "run_of (dispatch_step f items) d ws d' \<Longrightarrow> dispatch_inv f items n d
     \<Longrightarrow> length ws + dispatch_work items d' \<le> dispatch_work items d"
proof (induction rule: run_of.induct)
  case (run_cons d w t ws u)
  from dispatch_step_decreases [OF run_cons.prems run_cons.hyps(1)]
    run_cons.IH [OF dispatch_step_inv [OF run_cons.prems run_cons.hyps(1)]] show ?case by simp
qed simp

lemma dispatch_quiescent:
  assumes "\<nexists>w d'. dispatch_step f items d w d'"
  shows "\<forall>x \<in> set (dp_workers d). x = Finished"
  using assms by (metis dispatch_stepI in_set_conv_nth)

text \<open>
  bounded dispatch delivers every result in input order, whatever the scheduling. Every
  run of the workers ends after at most three stretches per item, never uses more workers
  than allowed, and when no worker can move, the outcome is the list of all results in the
  order of the items, or the exception of some item that failed; if no item fails it is the
  former.
\<close>

lemma dispatch_ordered_results:
  assumes "start_dispatch items max_tasks = Inr d0" and "run_of (dispatch_step f items) d0 schedule d"
  shows "length schedule \<le> 3 * length items \<and> int (length (dp_workers d)) \<le> max_tasks
    \<and> ((\<nexists>w d'. dispatch_step f items d w d') \<longrightarrow>
        (case dispatch_result items d of
           Inr rs \<Rightarrow> list_all2 (\<lambda>x r. f x = Inr r) items rs
         | Inl e \<Rightarrow> \<exists>x \<in> set items. f x = Inl e))"
proof -
  let ?n = "min (nat max_tasks) (length items)"
  have pos: "1 \<le> max_tasks" using assms(1) by (auto simp: start_dispatch_def split: if_splits)
  note start = start_dispatch_inv [OF assms(1), of f]
  have inv: "dispatch_inv f items ?n d" using start dispatch_machine.run_inv [OF assms(2)] by blast
  have "length schedule \<le> 3 * length items" using dispatch_run_bound [OF assms(2)] start by fastforce
  moreover have "int (length (dp_workers d)) \<le> max_tasks" using inv pos by (auto simp: dispatch_inv_def)
  moreover have "case dispatch_result items d of Inr rs \<Rightarrow> list_all2 (\<lambda>x r. f x = Inr r) items rs
      | Inl e \<Rightarrow> \<exists>x \<in> set items. f x = Inl e" if stuck: "\<nexists>w d'. dispatch_step f items d w d'"
  proof (cases "dp_failed d")
    case (Some e)
    with inv show ?thesis by (simp add: dispatch_result_def dispatch_inv_def)
  next
    case None
    note D = dispatch_invD [OF inv None]
    have fin: "\<forall>x \<in> set (dp_workers d). x = Finished" by (rule dispatch_quiescent [OF stuck])
    then have "busy_indices d = []" by (auto simp: busy_indices_def)
    moreover have "dp_next d = length items"
    proof (cases "dp_workers d")
      case Nil
      with D(1) pos have "items = []" by (cases items) auto
      with D(2) show ?thesis by simp
    qed (use D(3) fin in simp)
    ultimately have "dom (dp_results d) = {0..<length items}" using D(6) by simp
    then have "f (items ! i) = Inr (the (dp_results d i))" if "i < length items" for i
      using that D(7) by (metis atLeastLessThan_iff domD le0 option.sel)
    with None show ?thesis by (simp add: dispatch_result_def list_all2_conv_all_nth)
  qed
  ultimately show ?thesis by blast
qed

lemma dispatch_ordered_results_witness:
  "\<exists>d0 d :: int dispatch. start_dispatch [5 :: int] 4 = Inr d0
     \<and> run_of (dispatch_step (\<lambda>x. Inr (x + 1)) [5]) d0 [0, 0, 0] d
     \<and> dispatch_result [5 :: int] d = Inr [6] \<and> int (length (dp_workers d)) \<le> 4"
proof -
  let ?f = "\<lambda>x :: int. Inr (x + 1) :: py_error + int"
  let ?mk = "\<lambda>n w r. \<lparr>dp_next = n, dp_workers = [w], dp_results = r, dp_failed = None\<rparr> :: int dispatch"
  have start: "start_dispatch [5 :: int] 4 = Inr (?mk 0 Ready Map.empty)"
    by (simp add: start_dispatch_def)
  have "dispatch_step ?f [5] (?mk 0 Ready Map.empty) 0 (?mk 1 (Busy 0) Map.empty)"
    using dispatch_stepI [of 0 "?mk 0 Ready Map.empty" ?f "[5]"] by (simp add: worker_step_def)
  moreover have "dispatch_step ?f [5] (?mk 1 (Busy 0) Map.empty) 0 (?mk 1 Ready [0 \<mapsto> 6])"
    using dispatch_stepI [of 0 "?mk 1 (Busy 0) Map.empty" ?f "[5]"] by (simp add: worker_step_def)
  moreover have "dispatch_step ?f [5] (?mk 1 Ready [0 \<mapsto> 6]) 0 (?mk 1 Finished [0 \<mapsto> 6])"
    using dispatch_stepI [of 0 "?mk 1 Ready [0 \<mapsto> 6]" ?f "[5]"] by (simp add: worker_step_def)
  ultimately have run: "run_of (dispatch_step ?f [5]) (?mk 0 Ready Map.empty) [0, 0, 0] (?mk 1 Finished [0 \<mapsto> 6])"
    by (rule run_cons [OF _ run_cons [OF _ run_cons [OF _ run_nil]]])
  have "int (length (dp_workers (?mk 1 Finished [0 \<mapsto> 6]))) \<le> 4" using dispatch_ordered_results [OF start run] by blast
  moreover have "dispatch_result [5 :: int] (?mk 1 Finished [0 \<mapsto> 6]) = Inr [6]" by (simp add: dispatch_result_def)
  ultimately show ?thesis using start run by (intro exI conjI)
qed

end
