(* ===== verification/Single_Flight.thy ===== *)
theory Single_Flight
  imports Errors
begin

section \<open>Coalescing of concurrent work (orchestration/singleflight.py)\<close>

text \<open>
  Futures are numbered in the order of their creation. A call of \<open>run_many\<close> reserves its
  keys in one locked section; the keys it reserved first are produced by one producer task,
  which completes them one after the other, each in a locked section. Producer tasks are
  not cancelled: the library keeps them apart from their callers.
\<close>

datatype 'v fut = Pending | Resolved "py_error + 'v"

record ('k, 'v) single_flight =
  sf_tasks :: "('k, nat) odict"
  sf_futures :: "'v fut list"

definition new_single_flight :: "('k, 'v) single_flight" where
  "new_single_flight = \<lparr>sf_tasks = [], sf_futures = []\<rparr>"

text \<open>A key without a future gets a new one.\<close>

definition reserve_one :: "'k \<Rightarrow> ('k, 'v) single_flight \<Rightarrow> ('k, 'v) single_flight" where
  "reserve_one k s = s\<lparr>sf_tasks := od_set k (length (sf_futures s)) (sf_tasks s),
                       sf_futures := sf_futures s @ [Pending]\<rparr>"

text \<open>The locked loop: the future of every key, whether it existed, and the keys now owned.\<close>

fun reserve ::
  "'k list \<Rightarrow> ('k, 'v) single_flight \<Rightarrow> ('k \<times> nat \<times> bool) list \<times> 'k list \<times> ('k, 'v) single_flight" where
  "reserve [] s = ([], [], s)"
| "reserve (k # ks) s =
     (case map_of (sf_tasks s) k of
        Some f \<Rightarrow> (let (joins, owned, s') = reserve ks s in ((k, f, True) # joins, owned, s'))
      | None \<Rightarrow>
          let (joins, owned, s') = reserve ks (reserve_one k s)
          in ((k, length (sf_futures s), False) # joins, k # owned, s'))"

definition run_many_reserve ::
  "'k list \<Rightarrow> ('k, 'v) single_flight \<Rightarrow> ('k \<times> nat \<times> bool) list \<times> 'k list \<times> ('k, 'v) single_flight" where
  "run_many_reserve keys s = reserve (fromkeys keys) s"

definition run_reserve :: "'k \<Rightarrow> ('k, 'v) single_flight \<Rightarrow> ('k \<times> nat \<times> bool) list \<times> 'k list \<times> ('k, 'v) single_flight" where
  "run_reserve k s = run_many_reserve [k] s"

definition sf_complete :: "'k \<Rightarrow> py_error + 'v \<Rightarrow> ('k, 'v) single_flight \<Rightarrow> ('k, 'v) single_flight" where
  "sf_complete k outcome s =
     (case map_of (sf_tasks s) k of
        None \<Rightarrow> s
      | Some f \<Rightarrow>
          let s' = s\<lparr>sf_tasks := od_pop k (sf_tasks s)\<rparr>
          in if sf_futures s ! f \<noteq> Pending then s'
             else s'\<lparr>sf_futures := (sf_futures s)[f := Resolved outcome]\<rparr>)"

text \<open>The completions \<open>_produce\<close> makes for the outcome of the factory, in order.\<close>

definition produce :: "('k \<Rightarrow> string) \<Rightarrow> 'k list \<Rightarrow> py_error + ('k, 'v) odict \<Rightarrow> ('k \<times> (py_error + 'v)) list" where
  "produce render owned outcome =
     (case outcome of
        Inl e \<Rightarrow> map (\<lambda>k. (k, Inl e)) owned
      | Inr produced \<Rightarrow>
          let missing = filter (\<lambda>k. map_of produced k = None) owned
          in if missing \<noteq> []
             then map (\<lambda>k. (k, Inl (RuntimeError (''single-flight batch factory omitted owned keys: ''
                                 @ str_join '', '' (map render missing))))) owned
             else map (\<lambda>k. (k, Inr (the (map_of produced k)))) owned)"

definition in_flight :: "('k, 'v) single_flight \<Rightarrow> nat" where
  "in_flight s = length (sf_tasks s)"

text \<open>
  What \<open>run_many\<close> returns, if anything yet. \<open>order\<close> lists the waiters in the order in which
  they finish: \<open>asyncio.gather\<close> raises the first error at once, without waiting for the rest.
\<close>

fun first_error :: "'v fut list \<Rightarrow> ('k \<times> nat \<times> bool) list \<Rightarrow> py_error option" where
  "first_error fs [] = None"
| "first_error fs ((k, f, joined) # js) =
     (case fs ! f of Resolved (Inl e) \<Rightarrow> Some e | _ \<Rightarrow> first_error fs js)"

fun gather_values :: "'v fut list \<Rightarrow> ('k \<times> nat \<times> bool) list \<Rightarrow> ('k \<times> 'v \<times> bool) list option" where
  "gather_values fs [] = Some []"
| "gather_values fs ((k, f, joined) # js) =
     (case fs ! f of
        Resolved (Inr v) \<Rightarrow> map_option (\<lambda>rs. (k, v, joined) # rs) (gather_values fs js)
      | _ \<Rightarrow> None)"

definition gather ::
  "('k \<times> nat \<times> bool) list \<Rightarrow> ('k, 'v) single_flight \<Rightarrow> ('k \<times> nat \<times> bool) list
    \<Rightarrow> (py_error + ('k \<times> 'v \<times> bool) list) option" where
  "gather order s joins =
     (case first_error (sf_futures s) order of
        Some e \<Rightarrow> Some (Inl e)
      | None \<Rightarrow> map_option Inr (gather_values (sf_futures s) joins))"

subsection \<open>The machine of all callers and producers\<close>

datatype ('k, 'v) producer = Running "'k list" | Completing "('k \<times> (py_error + 'v)) list"

fun producer_keys :: "('k, 'v) producer \<Rightarrow> 'k list" where
  "producer_keys (Running owned) = owned"
| "producer_keys (Completing todo) = map fst todo"

type_synonym ('k, 'v) sf_state = "('k, 'v) single_flight \<times> (nat \<rightharpoonup> ('k, 'v) producer)"

datatype 'k sf_event = SfJoin "'k list" | SfProduced nat | SfComplete nat | SfDone nat

inductive sf_step :: "('k \<Rightarrow> string) \<Rightarrow> ('k, 'v) sf_state \<Rightarrow> 'k sf_event \<Rightarrow> ('k, 'v) sf_state \<Rightarrow> bool"
  for render where
  sf_join: "run_many_reserve keys s = (joins, owned, s') \<Longrightarrow> ps p = None
    \<Longrightarrow> sf_step render (s, ps) (SfJoin keys) (s', if owned = [] then ps else ps(p \<mapsto> Running owned))"
| sf_produced: "ps p = Some (Running owned)
    \<Longrightarrow> sf_step render (s, ps) (SfProduced p) (s, ps(p \<mapsto> Completing (produce render owned outcome)))"
| sf_complete: "ps p = Some (Completing ((k, r) # todo))
    \<Longrightarrow> sf_step render (s, ps) (SfComplete p) (sf_complete k r s, ps(p \<mapsto> Completing todo))"
| sf_done: "ps p = Some (Completing []) \<Longrightarrow> sf_step render (s, ps) (SfDone p) (s, ps(p := None))"

text \<open>
  Each key in flight has one pending future and one producer that will complete it; every
  other future is resolved.
\<close>

definition futures_ok :: "('k, 'v) single_flight \<Rightarrow> bool" where
  "futures_ok s \<longleftrightarrow> od_ok (sf_tasks s) \<and> distinct (map snd (sf_tasks s))
     \<and> (\<forall>(k, f) \<in> set (sf_tasks s). f < length (sf_futures s) \<and> sf_futures s ! f = Pending)
     \<and> (\<forall>f < length (sf_futures s). sf_futures s ! f = Pending \<longrightarrow> f \<in> snd ` set (sf_tasks s))"

definition owns :: "(nat \<rightharpoonup> ('k, 'v) producer) \<Rightarrow> nat \<Rightarrow> 'k \<Rightarrow> bool" where
  "owns ps p k \<longleftrightarrow> (case ps p of None \<Rightarrow> False | Some pr \<Rightarrow> k \<in> set (producer_keys pr))"

definition producers_ok :: "('k, 'v) sf_state \<Rightarrow> bool" where
  "producers_ok st \<longleftrightarrow> (case st of (s, ps) \<Rightarrow>
     (\<forall>p pr. ps p = Some pr \<longrightarrow> distinct (producer_keys pr))
     \<and> (\<forall>p q k. owns ps p k \<and> owns ps q k \<longrightarrow> p = q)
     \<and> (\<forall>k. k \<in> set (od_keys (sf_tasks s)) \<longleftrightarrow> (\<exists>p. owns ps p k)))"

definition sf_inv :: "('k, 'v) sf_state \<Rightarrow> bool" where
  "sf_inv st \<longleftrightarrow> futures_ok (fst st) \<and> producers_ok st"

subsection \<open>Lemmas\<close>

lemma reserve_ConsE:
  assumes "reserve (k # ks) s = (joins, owned, s')"
  obtains (old) f js where "map_of (sf_tasks s) k = Some f" "reserve ks s = (js, owned, s')"
      "joins = (k, f, True) # js"
    | (new) js os where "map_of (sf_tasks s) k = None" "reserve ks (reserve_one k s) = (js, os, s')"
      "joins = (k, length (sf_futures s), False) # js" "owned = k # os"
  using assms by (auto split: option.splits prod.splits)

lemma reserve_one_futures:
  assumes ok: "futures_ok s" and none: "map_of (sf_tasks s) k = None"
  shows "futures_ok (reserve_one k s)"
proof -
  from none have new: "k \<notin> set (od_keys (sf_tasks s))" by (simp add: map_of_None_keys)
  have bound: "\<And>j f. (j, f) \<in> set (sf_tasks s) \<Longrightarrow> f < length (sf_futures s)"
    using ok by (auto simp: futures_ok_def)
  then have "length (sf_futures s) \<notin> snd ` set (sf_tasks s)" by fastforce
  with ok new bound show ?thesis
    by (auto simp: futures_ok_def reserve_one_def od_set_absent nth_append less_Suc_eq)
qed

lemma reserve_one_sel [simp]:
  "map_of (sf_tasks (reserve_one k s)) = (map_of (sf_tasks s))(k \<mapsto> length (sf_futures s))"
  "sf_futures (reserve_one k s) = sf_futures s @ [Pending]"
  by (simp_all add: reserve_one_def)

lemma reserve_one_keys:
  "map_of (sf_tasks s) k = None \<Longrightarrow> od_keys (sf_tasks (reserve_one k s)) = od_keys (sf_tasks s) @ [k]"
  by (simp add: reserve_one_def map_of_None_keys od_set_absent)

lemma reserve_futures:
  "reserve ks s = (joins, owned, s') \<Longrightarrow> futures_ok s \<Longrightarrow> futures_ok s'"
proof (induction ks arbitrary: s joins owned)
  case (Cons k ks)
  from Cons.prems(1) show ?case
    by (cases rule: reserve_ConsE) (auto intro: Cons.IH Cons.prems(2) reserve_one_futures)
qed simp

lemma reserve_keys:
  "reserve ks s = (joins, owned, s') \<Longrightarrow> od_keys (sf_tasks s') = od_keys (sf_tasks s) @ owned"
proof (induction ks arbitrary: s joins owned)
  case (Cons k ks)
  from Cons.prems show ?case
    by (cases rule: reserve_ConsE) (auto simp: Cons.IH reserve_one_keys)
qed simp

lemma reserve_future_list:
  "reserve ks s = (joins, owned, s') \<Longrightarrow>
   sf_futures s' = sf_futures s @ replicate (length owned) Pending"
proof (induction ks arbitrary: s joins owned)
  case (Cons k ks)
  from Cons.prems show ?case
    by (cases rule: reserve_ConsE) (auto simp: Cons.IH)
qed simp

lemma reserve_extends:
  "reserve ks s = (joins, owned, s') \<Longrightarrow> map_of (sf_tasks s) k = Some f \<Longrightarrow> map_of (sf_tasks s') k = Some f"
proof (induction ks arbitrary: s joins owned)
  case (Cons j ks)
  from Cons.prems(1) show ?case
  proof (cases rule: reserve_ConsE)
    case (new js os)
    with Cons.prems(2) have "k \<noteq> j" by auto
    with Cons.IH [OF new(2)] Cons.prems(2) show ?thesis by simp
  qed (auto intro: Cons)
qed simp

lemma reserve_joins:
  "reserve ks s = (joins, owned, s') \<Longrightarrow> distinct ks \<Longrightarrow>
   map fst joins = ks \<and> owned = filter (\<lambda>k. map_of (sf_tasks s) k = None) ks
   \<and> (\<forall>(k, f, joined) \<in> set joins. map_of (sf_tasks s') k = Some f
        \<and> joined = (map_of (sf_tasks s) k \<noteq> None))"
proof (induction ks arbitrary: s joins owned)
  case (Cons k ks)
  from Cons.prems(1) show ?case
  proof (cases rule: reserve_ConsE)
    case (old f js)
    with Cons.IH [OF old(2)] Cons.prems(2) reserve_extends [OF old(2,1)] show ?thesis by auto
  next
    case (new js os)
    have others: "map_of (sf_tasks (reserve_one k s)) j = map_of (sf_tasks s) j" if "j \<in> set ks" for j
      using that Cons.prems(2) by auto
    have flt: "filter (\<lambda>j. map_of (sf_tasks (reserve_one k s)) j = None) ks
               = filter (\<lambda>j. map_of (sf_tasks s) j = None) ks"
      by (rule filter_cong [OF refl]) (simp only: others)
    from Cons.IH [OF new(2)] Cons.prems(2) flt
    have ih: "map fst js = ks" "os = filter (\<lambda>k. map_of (sf_tasks s) k = None) ks"
      "\<And>j f joined. (j, f, joined) \<in> set js \<Longrightarrow> map_of (sf_tasks s') j = Some f
        \<and> joined = (map_of (sf_tasks (reserve_one k s)) j \<noteq> None)"
      by (auto simp del: reserve_one_sel)
    have "map_of (sf_tasks s') k = Some (length (sf_futures s))"
      by (rule reserve_extends [OF new(2)]) simp
    moreover have "j \<in> set ks" if "(j, f, joined) \<in> set js" for j f joined
      using that ih(1) by force
    ultimately have js: "map_of (sf_tasks s') j = Some f" "joined = (map_of (sf_tasks s) j \<noteq> None)"
      if "(j, f, joined) \<in> set js" for j f joined
      using ih(3) [OF that] others that by metis+
    have "map_of (sf_tasks s') k = Some (length (sf_futures s))"
      by (rule reserve_extends [OF new(2)]) simp
    moreover have "\<forall>(j, f, joined) \<in> set js. map_of (sf_tasks s') j = Some f
        \<and> joined = (map_of (sf_tasks s) j \<noteq> None)"
      using js by blast
    ultimately show ?thesis using new(1) unfolding new(3,4) by (simp add: ih(1,2))
  qed
qed simp

lemma complete_sel:
  assumes "futures_ok s" and "map_of (sf_tasks s) k = Some f"
  shows "sf_complete k r s = s\<lparr>sf_tasks := od_pop k (sf_tasks s),
                              sf_futures := (sf_futures s)[f := Resolved r]\<rparr>"
    and "f < length (sf_futures s)" and "sf_futures s ! f = Pending"
  using assms map_of_SomeD [OF assms(2)] by (auto simp: sf_complete_def futures_ok_def)

lemma complete_futures:
  assumes ok: "futures_ok s" and f: "map_of (sf_tasks s) k = Some f"
  shows "futures_ok (sf_complete k r s)"
proof -
  note sel = complete_sel [OF assms]
  from f have mem: "(k, f) \<in> set (sf_tasks s)" by (rule map_of_SomeD)
  from ok have dist: "distinct (map snd (sf_tasks s))" by (simp add: futures_ok_def)
  have other: "g \<noteq> f" if "(j, g) \<in> set (sf_tasks s)" "j \<noteq> k" for j g
    using inj_onD [of snd "set (sf_tasks s)" "(j, g)" "(k, f)"] that mem dist by (auto simp: distinct_map)
  have "distinct (map snd (od_pop k (sf_tasks s)))"
    using dist by (simp add: od_pop_def distinct_map_filter)
  moreover have "g \<in> snd ` set (od_pop k (sf_tasks s))"
    if "g < length (sf_futures s)" "sf_futures s ! g = Pending" "g \<noteq> f" for g
  proof -
    from ok that have "g \<in> snd ` set (sf_tasks s)" by (auto simp: futures_ok_def)
    then obtain j where j: "(j, g) \<in> set (sf_tasks s)" by force
    with that(3) mem ok have "j \<noteq> k" by (auto simp: futures_ok_def dest: eq_key_imp_eq_value)
    with j show ?thesis by force
  qed
  ultimately show ?thesis
    using ok other sel(2) unfolding sel(1) by (auto simp: futures_ok_def nth_list_update split: if_splits)
qed

lemma in_od_keys_pop: "j \<in> set (od_keys (od_pop k d)) \<longleftrightarrow> j \<noteq> k \<and> j \<in> set (od_keys d)"
  unfolding od_keys_od_pop by auto

lemma owns_upd [simp]:
  "owns (ps(p \<mapsto> pr)) q k \<longleftrightarrow> (if q = p then k \<in> set (producer_keys pr) else owns ps q k)"
  "owns (ps(p := None)) q k \<longleftrightarrow> q \<noteq> p \<and> owns ps q k"
  by (simp_all add: owns_def)

lemma producers_okD:
  assumes "producers_ok (s, ps)"
  shows "ps p = Some pr \<Longrightarrow> distinct (producer_keys pr)"
    and "owns ps p k \<Longrightarrow> owns ps q k \<Longrightarrow> p = q"
    and "k \<in> set (od_keys (sf_tasks s)) \<longleftrightarrow> (\<exists>p. owns ps p k)"
  using assms unfolding producers_ok_def prod.case by blast+

lemma producers_okI:
  assumes "\<And>p pr. ps p = Some pr \<Longrightarrow> distinct (producer_keys pr)"
    and "\<And>p q k. owns ps p k \<Longrightarrow> owns ps q k \<Longrightarrow> p = q"
    and "\<And>k. k \<in> set (od_keys (sf_tasks s)) \<longleftrightarrow> (\<exists>p. owns ps p k)"
  shows "producers_ok (s, ps)"
  using assms unfolding producers_ok_def prod.case by blast

lemma produce_keys: "map fst (produce render owned outcome) = owned"
  by (auto simp: produce_def Let_def comp_def split: sum.splits)

lemma join_producers:
  assumes ok: "sf_inv (s, ps)" and r: "run_many_reserve keys s = (joins, owned, s')" and free: "ps p = None"
  shows "sf_inv (s', if owned = [] then ps else ps(p \<mapsto> Running owned))"
proof -
  from ok have fut: "futures_ok s" and prod: "producers_ok (s, ps)" by (simp_all add: sf_inv_def)
  note old = producers_okD [OF prod]
  from r have r': "reserve (fromkeys keys) s = (joins, owned, s')" by (simp add: run_many_reserve_def)
  have fut': "futures_ok s'" by (rule reserve_futures [OF r' fut])
  have keys: "od_keys (sf_tasks s') = od_keys (sf_tasks s) @ owned" by (rule reserve_keys [OF r'])
  with fut' have d: "distinct owned" "set owned \<inter> set (od_keys (sf_tasks s)) = {}"
    by (auto simp: futures_ok_def)
  have fresh: "\<not> owns ps q k" if "k \<in> set owned" for q k
    using d(2) old(3) [of k] that by blast
  have none: "\<not> owns ps p k" for k using free by (simp add: owns_def)
  have "producers_ok (s', if owned = [] then ps else ps(p \<mapsto> Running owned))"
  proof (cases "owned = []")
    case True
    have "producers_ok (s', ps)"
      by (rule producers_okI) (use old True in \<open>simp_all add: keys del: set_map\<close>)
    with True show ?thesis by simp
  next
    case False
    have "producers_ok (s', ps(p \<mapsto> Running owned))"
    proof (rule producers_okI)
      fix k
      show "k \<in> set (od_keys (sf_tasks s')) \<longleftrightarrow> (\<exists>q. owns (ps(p \<mapsto> Running owned)) q k)"
        unfolding keys set_append Un_iff old(3) using none [of k] by auto
    qed (use old d(1) fresh none in \<open>auto split: if_splits\<close>)
    with False show ?thesis by simp
  qed
  with fut' show ?thesis by (simp add: sf_inv_def)
qed

lemma next_completion:
  assumes ok: "sf_inv (s, ps)" and p: "ps p = Some (Completing ((k, r) # todo))"
  obtains f where "map_of (sf_tasks s) k = Some f"
proof -
  from p have "owns ps p k" by (simp add: owns_def)
  with ok have "k \<in> set (od_keys (sf_tasks s))" using producers_okD(3) by (fastforce simp: sf_inv_def)
  then show thesis using that by (cases "map_of (sf_tasks s) k") (simp_all add: map_of_None_keys)
qed

lemma complete_producers:
  assumes ok: "sf_inv (s, ps)" and p: "ps p = Some (Completing ((k, r) # todo))"
  shows "sf_inv (sf_complete k r s, ps(p \<mapsto> Completing todo))"
proof -
  from ok have fut: "futures_ok s" and prod: "producers_ok (s, ps)" by (simp_all add: sf_inv_def)
  note old = producers_okD [OF prod]
  obtain f where f: "map_of (sf_tasks s) k = Some f" using next_completion [OF assms] .
  have mine: "owns ps p j \<longleftrightarrow> j = k \<or> j \<in> fst ` set todo" for j using p by (auto simp: owns_def)
  have d: "k \<notin> fst ` set todo" "distinct (map fst todo)" using old(1) [OF p] by simp_all
  have "producers_ok (sf_complete k r s, ps(p \<mapsto> Completing todo))"
  proof (rule producers_okI)
    fix j
    have "j \<in> set (od_keys (sf_tasks (sf_complete k r s))) \<longleftrightarrow> j \<noteq> k \<and> (\<exists>q. owns ps q j)"
      unfolding complete_sel(1) [OF fut f] old(3) [symmetric] by (simp add: in_od_keys_pop del: set_map)
    also have "\<dots> \<longleftrightarrow> (\<exists>q. owns (ps(p \<mapsto> Completing todo)) q j)"
      unfolding owns_upd producer_keys.simps set_map using mine d(1) old(2) by metis
    finally show "j \<in> set (od_keys (sf_tasks (sf_complete k r s)))
        \<longleftrightarrow> (\<exists>q. owns (ps(p \<mapsto> Completing todo)) q j)" .
  qed (use old(1,2) mine d in \<open>auto split: if_splits\<close>)
  then show ?thesis using complete_futures [OF fut f] by (simp add: sf_inv_def)
qed

lemma same_owners:
  assumes ok: "producers_ok (s, ps)" and same: "\<And>q j. owns ps' q j \<longleftrightarrow> owns ps q j"
    and d: "\<And>q pr. ps' q = Some pr \<Longrightarrow> distinct (producer_keys pr)"
  shows "producers_ok (s, ps')"
  using producers_okD [OF ok] d by (intro producers_okI) (simp_all add: same)

lemma sf_step_inv: "sf_inv st \<Longrightarrow> sf_step render st e st' \<Longrightarrow> sf_inv st'"
proof (erule sf_step.cases, goal_cases)
  case (1 keys s joins owned s' ps p)
  then show ?case by (simp only: join_producers)
next
  case (2 ps p owned s outcome)
  then have ok: "producers_ok (s, ps)" by (simp add: sf_inv_def)
  have "producers_ok (s, ps(p \<mapsto> Completing (produce render owned outcome)))"
    by (rule same_owners [OF ok])
      (use 2 producers_okD(1) [OF ok] producers_okD(1) [OF ok, of p "Running owned"]
        in \<open>auto simp: owns_def produce_keys split: if_splits\<close>)
  with 2 show ?case by (simp add: sf_inv_def)
next
  case (3 ps p k r todo s)
  then show ?case by (simp only: complete_producers)
next
  case (4 ps p s)
  then have ok: "producers_ok (s, ps)" by (simp add: sf_inv_def)
  have "producers_ok (s, ps(p := None))"
    by (rule same_owners [OF ok])
      (use 4 producers_okD(1) [OF ok] in \<open>auto simp: owns_def split: if_splits\<close>)
  with 4 show ?case by (simp add: sf_inv_def)
qed

interpretation flight: machine "sf_step render" sf_inv
  by unfold_locales (rule sf_step_inv)

lemma sf_inv_initial: "sf_inv (new_single_flight, Map.empty)"
  by (simp add: sf_inv_def futures_ok_def producers_ok_def owns_def new_single_flight_def)

lemma sf_reachable_inv: "run_of (sf_step render) (new_single_flight, Map.empty) es st \<Longrightarrow> sf_inv st"
  using flight.run_inv sf_inv_initial by blast

text \<open>A future that has an outcome keeps it.\<close>

definition futures_kept :: "'v fut list \<Rightarrow> 'v fut list \<Rightarrow> bool" where
  "futures_kept fs gs \<longleftrightarrow> length fs \<le> length gs
     \<and> (\<forall>f < length fs. fs ! f \<noteq> Pending \<longrightarrow> gs ! f = fs ! f)"

lemma futures_kept_refl [simp]: "futures_kept fs fs"
  by (simp add: futures_kept_def)

lemma futures_kept_trans: "futures_kept fs gs \<Longrightarrow> futures_kept gs hs \<Longrightarrow> futures_kept fs hs"
  by (auto simp: futures_kept_def)

lemma sf_step_futures:
  "sf_step render st e st' \<Longrightarrow> sf_inv st \<Longrightarrow> futures_kept (sf_futures (fst st)) (sf_futures (fst st'))"
proof (induction rule: sf_step.induct)
  case (sf_join keys s joins owned s' ps p)
  then show ?case
    using reserve_future_list [of "fromkeys keys" s joins owned s']
    by (simp add: run_many_reserve_def futures_kept_def nth_append)
next
  case (sf_complete ps p k r todo s)
  then have "futures_ok s" by (simp add: sf_inv_def)
  moreover obtain f where "map_of (sf_tasks s) k = Some f"
    using next_completion [OF sf_complete(2,1)] .
  ultimately show ?case using complete_sel [of s k f] by (auto simp: futures_kept_def nth_list_update)
qed simp_all

lemma sf_run_futures:
  "run_of (sf_step render) st es st' \<Longrightarrow> sf_inv st \<Longrightarrow> futures_kept (sf_futures (fst st)) (sf_futures (fst st'))"
proof (induction rule: run_of.induct)
  case (run_cons s l t ls u)
  then show ?case using sf_step_futures sf_step_inv futures_kept_trans by blast
qed simp

lemma all_resolved:
  assumes "sf_inv (s, Map.empty)"
  shows "sf_tasks s = []" and "f < length (sf_futures s) \<Longrightarrow> sf_futures s ! f \<noteq> Pending"
proof -
  from assms have fut: "futures_ok s" and prod: "producers_ok (s, Map.empty)" by (simp_all add: sf_inv_def)
  have "k \<notin> set (od_keys (sf_tasks s))" for k
    using producers_okD(3) [OF prod] by (simp add: owns_def del: set_map)
  then show none: "sf_tasks s = []" by (cases "sf_tasks s") auto
  show "f < length (sf_futures s) \<Longrightarrow> sf_futures s ! f \<noteq> Pending"
    using fut none by (auto simp: futures_ok_def)
qed

lemma first_error_None:
  "first_error fs js = None \<longleftrightarrow> (\<forall>(k, f, joined) \<in> set js. \<forall>e. fs ! f \<noteq> Resolved (Inl e))"
  by (induction fs js rule: first_error.induct) (auto split: fut.splits sum.splits)

lemma gather_values_total:
  "(\<And>k f joined. (k, f, joined) \<in> set js \<Longrightarrow> \<exists>v. fs ! f = Resolved (Inr v)) \<Longrightarrow> \<exists>vs. gather_values fs js = Some vs"
proof (induction fs js rule: gather_values.induct)
  case (2 fs k f joined js)
  obtain v where v: "fs ! f = Resolved (Inr v)" using 2(2) [of k f joined] by auto
  obtain vs where "gather_values fs js = Some vs" using 2(1) [OF v refl] 2(2) by fastforce
  with v show ?case by simp
qed simp

lemma gather_returns:
  assumes resolved: "\<And>k f joined. (k, f, joined) \<in> set joins \<Longrightarrow> sf_futures s ! f \<noteq> Pending"
    and order: "set order = set joins"
  shows "\<exists>r. gather order s joins = Some r"
proof (cases "first_error (sf_futures s) order")
  case None
  have "\<exists>v. sf_futures s ! f = Resolved (Inr v)" if "(k, f, joined) \<in> set joins" for k f joined
  proof (cases "sf_futures s ! f")
    case (Resolved r)
    with None that order show ?thesis by (cases r) (auto simp: first_error_None)
  qed (use assms that in simp)
  then show ?thesis using gather_values_total [of joins "sf_futures s"] None by (auto simp: gather_def)
qed (simp add: gather_def)

subsection \<open>Properties\<close>

text \<open>
  C6: in every reachable state a key is in flight exactly when one producer task owns it, and
  then only one: concurrent requests for the same resource share one call of the source.
\<close>

theorem single_flight_unique_producer:
  assumes "run_of (sf_step render) (new_single_flight, Map.empty) es (s, ps)"
  shows "k \<in> set (od_keys (sf_tasks s)) \<longleftrightarrow> (\<exists>!p. owns ps p k)"
proof -
  from sf_reachable_inv [OF assms] have ok: "producers_ok (s, ps)" by (simp add: sf_inv_def)
  show ?thesis using producers_okD(2,3) [OF ok] by blast
qed

definition fixture_flight :: "nat fut list \<Rightarrow> (string, nat) odict \<Rightarrow> (string, nat) single_flight" where
  "fixture_flight fs tasks = \<lparr>sf_tasks = tasks, sf_futures = fs\<rparr>"

lemma fixture_join:
  "sf_step id (new_single_flight, Map.empty) (SfJoin [''a''])
     (fixture_flight [Pending] [(''a'', 0)], [0 \<mapsto> Running [''a'']])"
  using sf_step.sf_join [of "[''a'']" "new_single_flight :: (string, nat) single_flight"
      "[(''a'', 0, False)]" "[''a'']" "fixture_flight [Pending] [(''a'', 0)]" Map.empty 0 id]
  by (simp add: run_many_reserve_def new_single_flight_def reserve_one_def fixture_flight_def)

theorem single_flight_unique_producer_witness:
  "run_of (sf_step id) (new_single_flight, Map.empty) [SfJoin [''a'']]
     (fixture_flight [Pending] [(''a'', 0)], [0 \<mapsto> Running [''a'']])
   \<and> (\<exists>!p. owns [0 \<mapsto> Running [''a''] :: (string, nat) producer] p ''a'')"
proof -
  have run: "run_of (sf_step id) (new_single_flight, Map.empty) [SfJoin [''a'']]
     (fixture_flight [Pending] [(''a'', 0)], [0 \<mapsto> Running [''a'']])"
    by (rule run_cons, rule fixture_join, rule run_nil)
  moreover have "''a'' \<in> set (od_keys (sf_tasks (fixture_flight [Pending] [(''a'', 0)])))"
    by (simp add: fixture_flight_def)
  ultimately show ?thesis using single_flight_unique_producer [OF run, of "''a''"] by simp
qed

text \<open>
  C7: no waiter is stranded: when a caller has joined its keys, then whatever other callers
  and producers do, once every producer task has ended nothing is in flight and the call of
  \<open>run_many\<close> returns or raises, in whichever order its waiters finish.
\<close>

theorem single_flight_no_stranded_waiter:
  assumes before: "run_of (sf_step render) (new_single_flight, Map.empty) es (s, ps)"
    and joined: "run_many_reserve keys s = (joins, owned, s')" "ps p = None"
    and after: "run_of (sf_step render) (s', if owned = [] then ps else ps(p \<mapsto> Running owned)) es' (t, Map.empty)"
    and order: "set order = set joins"
  shows "in_flight t = 0 \<and> (\<exists>r. gather order t joins = Some r)"
proof -
  let ?ps = "if owned = [] then ps else ps(p \<mapsto> Running owned)"
  have start: "sf_inv (s', ?ps)" by (rule join_producers [OF sf_reachable_inv [OF before] joined])
  have fin: "sf_inv (t, Map.empty)" by (rule flight.run_inv [OF after start])
  have kept: "futures_kept (sf_futures s') (sf_futures t)" using sf_run_futures [OF after start] by simp
  have "sf_futures t ! f \<noteq> Pending" if "(k, f, j) \<in> set joins" for k f j
  proof -
    have "map_of (sf_tasks s') k = Some f"
      using reserve_joins [OF joined(1) [unfolded run_many_reserve_def]] that by auto
    with start have "f < length (sf_futures s')" using complete_sel(2) [of s' k f] by (simp add: sf_inv_def)
    with kept have "f < length (sf_futures t)" by (simp add: futures_kept_def)
    then show ?thesis by (rule all_resolved(2) [OF fin])
  qed
  then have "\<exists>r. gather order t joins = Some r" using order by (rule gather_returns)
  then show ?thesis using all_resolved(1) [OF fin] by (simp add: in_flight_def)
qed

lemma gather_values_member:
  "gather_values fs js = Some vs \<Longrightarrow> (k, f, joined) \<in> set js \<Longrightarrow>
   \<exists>v. fs ! f = Resolved (Inr v) \<and> (k, v, joined) \<in> set vs"
proof (induction js arbitrary: vs)
  case (Cons j js)
  obtain k' g joined' where j: "j = (k', g, joined')" by (cases j)
  from Cons.prems(1) obtain v ws where v: "fs ! g = Resolved (Inr v)" "gather_values fs js = Some ws"
    "vs = (k', v, joined') # ws" unfolding j by (auto split: fut.splits sum.splits)
  from Cons.prems(2) Cons.IH [OF v(2)] v(1,3) show ?case unfolding j by auto
qed simp

text \<open>
  every caller that joined a key gets the outcome its owner produced: the completion
  resolves the future the caller waits for, nothing that happens later changes it, and a call
  that returns has that value for the key.
\<close>

lemma single_flight_shared_outcome:
  assumes before: "run_of (sf_step render) (new_single_flight, Map.empty) es (s, ps)"
    and caller: "run_many_reserve keys s = (joins, owned, s')" "ps p = None" "(k, f, joined) \<in> set joins"
    and mid: "run_of (sf_step render) (s', if owned = [] then ps else ps(p \<mapsto> Running owned)) es1 (u, us)"
    and owner: "us q = Some (Completing ((k, r) # todo))" "map_of (sf_tasks u) k = Some f"
    and after: "run_of (sf_step render) (sf_complete k r u, us(q \<mapsto> Completing todo)) es2 (t, ts)"
    and returned: "gather order t joins = Some (Inr vs)"
  shows "sf_futures t ! f = Resolved r \<and> (\<exists>v. r = Inr v \<and> (k, v, joined) \<in> set vs)"
proof -
  have "sf_inv (u, us)"
    by (rule flight.run_inv [OF mid join_producers [OF sf_reachable_inv [OF before] caller(1,2)]])
  note inv = this complete_producers [OF this owner(1)]
  then have ok: "futures_ok u" by (simp add: sf_inv_def)
  have "sf_futures (sf_complete k r u) ! f = Resolved r" "f < length (sf_futures (sf_complete k r u))"
    using complete_sel [OF ok owner(2)] by simp_all
  moreover have "futures_kept (sf_futures (sf_complete k r u)) (sf_futures t)"
    using sf_run_futures [OF after inv(2)] by simp
  ultimately have res: "sf_futures t ! f = Resolved r" by (simp add: futures_kept_def)
  have "gather_values (sf_futures t) joins = Some vs"
    using returned by (auto simp: gather_def split: option.splits)
  from gather_values_member [OF this caller(3)] res show ?thesis by auto
qed

lemma fixture_produced:
  "sf_step id (fixture_flight [Pending] [(''a'', 0)], [0 \<mapsto> Running [''a'']]) (SfProduced 0)
     (fixture_flight [Pending] [(''a'', 0)], [0 \<mapsto> Completing [(''a'', Inr 7)]])"
  using sf_step.sf_produced [of "[0 \<mapsto> Running [''a'']]" 0 "[''a'']" id
      "fixture_flight [Pending] [(''a'', 0)]" "Inr [(''a'', 7)]"]
  by (simp add: produce_def)

lemma fixture_completed:
  "sf_complete ''a'' (Inr 7) (fixture_flight [Pending] [(''a'', 0)]) = fixture_flight [Resolved (Inr 7)] []"
  by (simp add: sf_complete_def fixture_flight_def od_pop_def)

lemma fixture_joins:
  "run_many_reserve [''a''] (new_single_flight :: (string, nat) single_flight)
     = ([(''a'', 0, False)], [''a''], fixture_flight [Pending] [(''a'', 0)])"
  by (simp add: run_many_reserve_def new_single_flight_def reserve_one_def fixture_flight_def)

lemma fixture_completes:
  "sf_step id (fixture_flight [Pending] [(''a'', 0)], [0 \<mapsto> Completing [(''a'', Inr 7)]]) (SfComplete 0)
     (fixture_flight [Resolved (Inr 7)] [], [0 \<mapsto> Completing []])"
  using sf_step.sf_complete [of "[0 \<mapsto> Completing [(''a'', Inr 7)]]" 0 "''a''" "Inr 7" "[]" id
      "fixture_flight [Pending] [(''a'', 0)]"]
  by (simp add: fixture_completed)

lemma fixture_done:
  "sf_step id (fixture_flight [Resolved (Inr 7)] [], [0 \<mapsto> Completing []]) (SfDone 0)
     (fixture_flight [Resolved (Inr 7)] [], Map.empty)"
  using sf_step.sf_done [of "[0 \<mapsto> Completing []]" 0 id "fixture_flight [Resolved (Inr 7)] []"] by simp

theorem single_flight_no_stranded_waiter_witness:
  "\<exists>es r. run_of (sf_step id) (fixture_flight [Pending] [(''a'', 0)], [0 \<mapsto> Running [''a'']]) es
       (fixture_flight [Resolved (Inr 7)] [], Map.empty)
     \<and> gather [(''a'', 0, False)] (fixture_flight [Resolved (Inr 7)] []) [(''a'', 0, False)] = Some r"
proof -
  let ?es = "[SfProduced 0, SfComplete 0, SfDone 0]"
  have run: "run_of (sf_step id) (fixture_flight [Pending] [(''a'', 0)], [0 \<mapsto> Running [''a'']]) ?es
       (fixture_flight [Resolved (Inr 7)] [], Map.empty)"
    by (rule run_cons, rule fixture_produced, rule run_cons, rule fixture_completes,
        rule run_cons, rule fixture_done, rule run_nil)
  then have run': "run_of (sf_step id) (fixture_flight [Pending] [(''a'', 0)],
      if [''a''] = [] then Map.empty else Map.empty(0 \<mapsto> Running [''a''])) ?es
       (fixture_flight [Resolved (Inr 7)] [], Map.empty)" by simp
  have "\<exists>r. gather [(''a'', 0, False)] (fixture_flight [Resolved (Inr 7)] []) [(''a'', 0, False)] = Some r"
    using single_flight_no_stranded_waiter [OF run_nil fixture_joins _ run' refl] by simp
  with run show ?thesis by (elim exE) (intro exI conjI)
qed

lemma single_flight_shared_outcome_witness:
  "sf_futures (fixture_flight [Resolved (Inr 7)] []) ! 0 = Resolved (Inr 7)
   \<and> (\<exists>v. (Inr 7 :: py_error + nat) = Inr v \<and> (''a'', v, False) \<in> set [(''a'', 7 :: nat, False)])"
proof -
  have mid: "run_of (sf_step id) (fixture_flight [Pending] [(''a'', 0)],
      if [''a''] = [] then Map.empty else Map.empty(0 \<mapsto> Running [''a''])) [SfProduced 0]
       (fixture_flight [Pending] [(''a'', 0)], [0 \<mapsto> Completing [(''a'', Inr 7)]])"
    by (simp, rule run_cons, rule fixture_produced, rule run_nil)
  have after: "run_of (sf_step id) (sf_complete ''a'' (Inr 7) (fixture_flight [Pending] [(''a'', 0)]),
      [0 \<mapsto> Completing [(''a'', Inr 7)]](0 \<mapsto> Completing [])) [] (fixture_flight [Resolved (Inr 7)] [], [0 \<mapsto> Completing []])"
    unfolding fixture_completed by (simp add: run_nil)
  have ret: "gather [(''a'', 0, False)] (fixture_flight [Resolved (Inr 7)] []) [(''a'', 0, False)]
      = Some (Inr [(''a'', 7, False)])"
    by (simp add: gather_def fixture_flight_def)
  show ?thesis
    using single_flight_shared_outcome [OF run_nil fixture_joins _ _ mid _ _ after ret, of 0 False]
    by (simp add: fixture_flight_def)
qed

end
