(* ===== verification/Publisher.thy ===== *)
theory Publisher
  imports Cache_Contract Policies
begin

section \<open>Event-driven publication (cache/publisher.py)\<close>

text \<open>
  A publisher writes updates of the application into the cache it shares with the builder.
  It is a client of the cache protocols, so its operations take the cache as a record of
  operations over a state \<open>'s\<close>, and the laws it relies on are those of the locale
  \<open>monotonic_cache\<close>. Per-key cache calls, which the code runs through \<open>run_bounded\<close>, are made in
  the order of the keys: \<open>Dispatch\<close> shows that the results keep that order. \<open>env\<close> is what other
  clients of the cache do while the publisher copies payloads between its read and its write.
\<close>

datatype publish_status =
    PUBLISHED | PUB_IGNORED_LOWER_AUTHORITY | PUB_IGNORED_OLDER | PUB_IGNORED_DUPLICATE

fun publish_status_value :: "publish_status \<Rightarrow> string" where
  "publish_status_value PUBLISHED = ''published''"
| "publish_status_value PUB_IGNORED_LOWER_AUTHORITY = ''ignored_lower_authority''"
| "publish_status_value PUB_IGNORED_OLDER = ''ignored_older''"
| "publish_status_value PUB_IGNORED_DUPLICATE = ''ignored_duplicate''"

record resource_update =
  ru_key :: resource_key
  ru_value :: pyval
  ru_source :: string
  ru_observed_at :: "rat option"
  ru_metadata :: metadata

definition mk_resource_update ::
  "resource_key \<Rightarrow> pyval \<Rightarrow> string \<Rightarrow> pynum option \<Rightarrow> metadata \<Rightarrow> arg_error + resource_update" where
  "mk_resource_update k v source observed md =
     (let nm = strip source
      in if nm = '''' then Inl (ValueError ''source name cannot be empty'')
         else res_bind (optional_timestamp ''observed_at'' observed) (\<lambda>t.
           Inr \<lparr>ru_key = k, ru_value = v, ru_source = nm, ru_observed_at = t, ru_metadata = od_of md\<rparr>))"

record publish_result =
  pub_status :: publish_status
  pub_value :: snapshot_value
  pub_previous :: "snapshot_value option"

definition published :: "publish_result \<Rightarrow> bool" where
  "published r = (pub_status r = PUBLISHED)"

text \<open>
  The publisher's configuration; \<open>pb_component\<close> names the copy subsystem it uses, its own one
  (\<^verbatim>\<open>"publisher"\<close>) or the builder's, and \<open>pb_copies_closing\<close> is the state of that subsystem.
\<close>

record 's publisher =
  pb_ops :: "'s cache_ops"
  pb_policies :: policy_resolver
  pb_observation :: observation_policy
  pb_copier :: payload_copier
  pb_authority :: authority_resolver
  pb_lock_stripes :: int
  pb_max_pending_tasks :: int
  pb_component :: string
  pb_owns_isolator :: bool
  pb_copies_closing :: bool

definition mk_publisher ::
  "'s cache_ops \<Rightarrow> policy_resolver \<Rightarrow> observation_policy \<Rightarrow> payload_copier \<Rightarrow> authority_resolver
    \<Rightarrow> int \<Rightarrow> int \<Rightarrow> string option \<Rightarrow> bool option \<Rightarrow> int \<Rightarrow> arg_error + 's publisher" where
  "mk_publisher cache policies observation copier authority lock_stripes max_pending_tasks
       shared_isolator run_copies_in_thread max_copy_concurrency =
     (if lock_stripes < 1 then Inl (ValueError ''lock_stripes must be at least 1'')
      else if max_pending_tasks < 1 then Inl (ValueError ''max_pending_tasks must be at least 1'')
      else if shared_isolator \<noteq> None \<and> (run_copies_in_thread \<noteq> None \<or> max_copy_concurrency \<noteq> 4)
      then Inl (ValueError ''payload copy settings cannot be combined with async_payload_isolator'')
      else if shared_isolator = None \<and> max_copy_concurrency < 1
      then Inl (ValueError ''max_concurrency must be at least 1'')
      else if authority_has_rules authority \<and> \<not> co_validates_source_authority cache
      then Inl (ValueError ''authority policies require a cache that declares validates_source_authority = True'')
      else Inr \<lparr>pb_ops = cache, pb_policies = policies, pb_observation = observation, pb_copier = copier,
                pb_authority = authority, pb_lock_stripes = lock_stripes,
                pb_max_pending_tasks = max_pending_tasks,
                pb_component = (case shared_isolator of None \<Rightarrow> ''publisher'' | Some nm \<Rightarrow> nm),
                pb_owns_isolator = (shared_isolator = None), pb_copies_closing = False\<rparr>)"

text \<open>\<open>_prepare_update_for_submission\<close>: the copy of an update that crosses to another thread.\<close>

definition prepare_update_for_submission :: "'s publisher \<Rightarrow> resource_update \<Rightarrow> py_error + resource_update" where
  "prepare_update_for_submission pb u =
     res_bind (iso_copy (pb_copier pb) (ru_value u)
                 (''non-blocking submission payload for '' @ key_str (ru_key u))) (\<lambda>v.
     res_bind (iso_copy_metadata (pb_copier pb) ''mappingproxy'' (ru_metadata u)
                 (''non-blocking submission metadata for '' @ key_str (ru_key u))) (\<lambda>md.
       lift_arg (mk_resource_update (ru_key u) v (ru_source u)
                   (map_option (\<lambda>t. NFloat (Fin t)) (ru_observed_at u)) md)))"

subsection \<open>Validation and selection\<close>

fun fval :: "pyfloat \<Rightarrow> rat" where
  "fval (Fin t) = t"
| "fval _ = 0"

definition validate_observed_at :: "'s publisher \<Rightarrow> resource_key \<Rightarrow> pyfloat \<Rightarrow> pyfloat \<Rightarrow> py_error + unit" where
  "validate_observed_at pb k observed now =
     (case res_bind (require_finite_timestamp ''observed_at'' (NFloat observed)) (\<lambda>o_at.
           res_bind (require_finite_timestamp ''current time'' (NFloat now)) (\<lambda>n_at. Inr (o_at, n_at))) of
        Inl e \<Rightarrow> Inl (SourceProtocolError (''invalid published observation for '' @ key_str k @ '': ''
                        @ error_str (ArgError e)))
      | Inr (o_at, n_at) \<Rightarrow>
          let future_seconds = o_at - n_at
          in raise_if (op_future_tolerance_seconds (pb_observation pb) < future_seconds
                       \<and> op_reject_future_observations (pb_observation pb))
               (SourceProtocolError (''published observation for '' @ key_str k @ '' is ''
                  @ fmt_fixed 6 future_seconds @ ''s in the future'')))"

definition observed_or_now :: "pyfloat \<Rightarrow> resource_update \<Rightarrow> pyfloat" where
  "observed_or_now now u = (case ru_observed_at u of None \<Rightarrow> now | Some t \<Rightarrow> Fin t)"

text \<open>The selection loop: \<open>unique\<close> and \<open>effective_precedence\<close> are kept in step.\<close>

type_synonym selection = "(resource_key, resource_update) odict \<times> (resource_key, int \<times> rat) odict"

definition select_update ::
  "'s publisher \<Rightarrow> pyfloat \<Rightarrow> resource_update \<Rightarrow> selection \<Rightarrow> py_error + selection" where
  "select_update pb now u sel =
     (let observed = observed_or_now now u; k = ru_key u
      in res_bind (validate_observed_at pb k observed now) (\<lambda>_.
         res_bind (authority_rank_for (pb_authority pb) k (ru_source u)) (\<lambda>rank.
           let precedence = (rank, fval observed)
           in case map_of (snd sel) k of
                None \<Rightarrow> Inr (od_set k u (fst sel), od_set k precedence (snd sel))
              | Some previous \<Rightarrow>
                  if fst previous < rank \<or> fst previous = rank \<and> snd previous \<le> snd precedence
                  then Inr (od_set k u (fst sel), od_set k precedence (snd sel))
                  else Inr sel)))"

fun select_updates :: "'s publisher \<Rightarrow> pyfloat \<Rightarrow> resource_update list \<Rightarrow> selection \<Rightarrow> py_error + selection" where
  "select_updates pb now [] sel = Inr sel"
| "select_updates pb now (u # us) sel =
     res_bind (select_update pb now u sel) (select_updates pb now us)"

subsection \<open>Candidates\<close>

definition published_metadata :: "rat \<Rightarrow> metadata \<Rightarrow> metadata" where
  "published_metadata future_seconds md =
     (let md' = od_set ''published'' (PyBool True) md
      in if 0 < future_seconds then od_set ''clock_skew_seconds'' (PyFloat (Fin future_seconds)) md' else md')"

text \<open>\<open>fresh\<close> gives the version of a new value, which the code draws from \<^verbatim>\<open>uuid4\<close>.\<close>

definition pub_prepare_candidate ::
  "'s publisher \<Rightarrow> (resource_key \<Rightarrow> string) \<Rightarrow> rat \<Rightarrow> resource_key \<times> resource_update
    \<Rightarrow> py_error + (resource_key \<times> snapshot_value)" where
  "pub_prepare_candidate pb fresh now item =
     (let (k, u) = item; observed = fval (observed_or_now (Fin now) u)
      in res_bind (policy_resolve (pb_policies pb) k) (\<lambda>policy.
         res_bind (iso_copy (pb_copier pb) (ru_value u) (''published payload for '' @ key_str k)) (\<lambda>v.
         res_bind (authority_rank_for (pb_authority pb) k (ru_source u)) (\<lambda>rank.
         res_bind (iso_copy_metadata (pb_copier pb) ''dict''
                     (published_metadata (max 0 (observed - now)) (ru_metadata u))
                     (''published metadata for '' @ key_str k)) (\<lambda>md.
         res_bind (lift_arg (mk_snapshot_value (NFloat (Fin observed)) (NFloat (Fin now))
                     \<lparr>sv_key = k, sv_value = v, sv_source = ru_source u, sv_observed_at = observed,
                      sv_fetched_at = now, sv_age_seconds = max 0 (now - observed),
                      sv_stale = flt (fp_ttl_seconds policy) (Fin (max 0 (now - observed))),
                      sv_from_cache = False, sv_latency_ms = 0, sv_attempts = 0, sv_metadata = md,
                      sv_authority_rank = rank, sv_version = fresh k, sv_dependency_versions = []\<rparr>)) (\<lambda>w.
           Inr (k, w)))))))"

definition pub_ignored_status ::
  "snapshot_value option \<Rightarrow> snapshot_value \<Rightarrow> bool \<Rightarrow> bool \<Rightarrow> publish_status option" where
  "pub_ignored_status previous candidate force replace_equal =
     (case previous of
        None \<Rightarrow> None
      | Some p \<Rightarrow>
          if force then None
          else if sv_authority_rank candidate < sv_authority_rank p then Some PUB_IGNORED_LOWER_AUTHORITY
          else if sv_authority_rank candidate > sv_authority_rank p then None
          else if sv_observed_at p > sv_observed_at candidate then Some PUB_IGNORED_OLDER
          else if sv_observed_at p = sv_observed_at candidate \<and> \<not> replace_equal then Some PUB_IGNORED_DUPLICATE
          else None)"

text \<open>The provisional outcome of one candidate, and whether a legacy cache must write it.\<close>

definition provisional ::
  "(resource_key, snapshot_value option) odict \<Rightarrow> bool \<Rightarrow> bool \<Rightarrow> resource_key \<times> snapshot_value
    \<Rightarrow> resource_key \<times> publish_result \<times> bool" where
  "provisional previous_values force replace_equal item =
     (let (k, candidate) = item;
          previous = (case map_of previous_values k of None \<Rightarrow> None | Some p \<Rightarrow> p)
      in case (pub_ignored_status previous candidate force replace_equal, previous) of
           (Some st, Some p) \<Rightarrow> (k, \<lparr>pub_status = st, pub_value = p, pub_previous = previous\<rparr>, False)
         | _ \<Rightarrow> (k, \<lparr>pub_status = PUBLISHED, pub_value = candidate, pub_previous = previous\<rparr>, True))"

subsection \<open>Cache calls\<close>

fun run_each :: "('a \<Rightarrow> 's \<Rightarrow> (py_error + 'b) \<times> 's) \<Rightarrow> 'a list \<Rightarrow> 's \<Rightarrow> (py_error + 'b list) \<times> 's" where
  "run_each f [] s = (Inr [], s)"
| "run_each f (x # xs) s =
     (case f x s of
        (Inl e, s') \<Rightarrow> (Inl e, s')
      | (Inr y, s') \<Rightarrow>
          (case run_each f xs s' of
             (Inl e, s'') \<Rightarrow> (Inl e, s'')
           | (Inr ys, s'') \<Rightarrow> (Inr (y # ys), s'')))"

definition pub_clone :: "'s publisher \<Rightarrow> string \<Rightarrow> snapshot_value \<Rightarrow> py_error + snapshot_value" where
  "pub_clone pb ctxt v = clone_snapshot_value (pb_copier pb) v (ctxt @ key_str (sv_key v)) no_changes"

definition pub_map :: "'s publisher \<Rightarrow> ('a \<Rightarrow> py_error + 'b) \<Rightarrow> 'a list \<Rightarrow> py_error + 'b list" where
  "pub_map pb f items = isolator_map (pb_component pb) (pb_copies_closing pb) f items"

text \<open>\<open>_get_existing\<close>. A \<^verbatim>\<open>KeyError\<close> is what indexing a batch result that omits a key raises.\<close>

definition read_lookups ::
  "'s publisher \<Rightarrow> resource_key list \<Rightarrow> rat \<Rightarrow> 's \<Rightarrow> (py_error + (resource_key, cache_lookup) odict) \<times> 's" where
  "read_lookups pb keys now s =
     (case co_batch (pb_ops pb) of
        Some batch \<Rightarrow> bo_get_many batch keys now (map (\<lambda>k. (k, all_values_policy)) keys) s
      | None \<Rightarrow>
          (case run_each (\<lambda>k. co_get (pb_ops pb) k now all_values_policy) keys s of
             (Inl e, s') \<Rightarrow> (Inl e, s')
           | (Inr ls, s') \<Rightarrow> (Inr (zip keys ls), s')))"

definition clone_existing ::
  "'s publisher \<Rightarrow> resource_key \<times> snapshot_value option \<Rightarrow> py_error + (resource_key \<times> snapshot_value option)" where
  "clone_existing pb item =
     (case snd item of
        None \<Rightarrow> Inr (fst item, None)
      | Some v \<Rightarrow> res_bind (clone_snapshot_value (pb_copier pb) v
                    (''publisher cache read for '' @ key_str (fst item)) no_changes) (\<lambda>w. Inr (fst item, Some w)))"

definition get_existing ::
  "'s publisher \<Rightarrow> resource_key list \<Rightarrow> rat \<Rightarrow> 's \<Rightarrow> (py_error + (resource_key, snapshot_value option) odict) \<times> 's" where
  "get_existing pb keys now s =
     (case read_lookups pb keys now s of
        (Inl e, s') \<Rightarrow> (Inl e, s')
      | (Inr lookups, s') \<Rightarrow>
          (res_bind (res_map (\<lambda>k. case map_of lookups k of
                                    None \<Rightarrow> Inl (KeyError (key_str k))
                                  | Some l \<Rightarrow> Inr (k, cl_value l)) keys) (\<lambda>items.
             pub_map pb (clone_existing pb) items), s'))"

text \<open>\<open>_set_many_if_newer\<close>: \<open>None\<close> when the cache has no atomic write at all.\<close>

definition pub_set_many_if_newer ::
  "'s publisher \<Rightarrow> snapshot_value list \<Rightarrow> bool \<Rightarrow> bool \<Rightarrow> 's
    \<Rightarrow> (py_error + (resource_key, cache_write_result) odict option) \<times> 's" where
  "pub_set_many_if_newer pb values force replace_equal s =
     (if values = [] then (Inr (Some []), s)
      else case pub_map pb (pub_clone pb ''publisher cache write for '') values of
        Inl e \<Rightarrow> (Inl e, s)
      | Inr isolated \<Rightarrow>
          (case (co_batch (pb_ops pb), co_set_many_if_newer (pb_ops pb), co_set_if_newer (pb_ops pb)) of
             (Some _, Some write_many, _) \<Rightarrow>
               (let (r, s') = write_many isolated force replace_equal s in (res_bind r (\<lambda>rs. Inr (Some rs)), s'))
           | (_, _, Some write_one) \<Rightarrow>
               (let (r, s') = run_each (\<lambda>v. write_one v force replace_equal) isolated s
                in (res_bind r (\<lambda>rs. Inr (Some (od_of (map (\<lambda>w. (sv_key (cw_value w), w)) rs)))), s'))
           | _ \<Rightarrow> (Inr None, s)))"

definition set_many_legacy :: "'s publisher \<Rightarrow> snapshot_value list \<Rightarrow> 's \<Rightarrow> (py_error + unit) \<times> 's" where
  "set_many_legacy pb values s =
     (if values = [] then (Inr (), s)
      else case pub_map pb (pub_clone pb ''publisher legacy cache write for '') values of
        Inl e \<Rightarrow> (Inl e, s)
      | Inr isolated \<Rightarrow>
          (case co_batch (pb_ops pb) of
             Some batch \<Rightarrow> bo_set_many batch isolated s
           | None \<Rightarrow> (let (r, s') = run_each (co_set (pb_ops pb)) isolated s in (res_bind r (\<lambda>_. Inr ()), s'))))"

fun publish_status_of :: "cache_write_status \<Rightarrow> publish_status" where
  "publish_status_of STORED = PUBLISHED"
| "publish_status_of IGNORED_LOWER_AUTHORITY = PUB_IGNORED_LOWER_AUTHORITY"
| "publish_status_of IGNORED_OLDER = PUB_IGNORED_OLDER"
| "publish_status_of IGNORED_DUPLICATE = PUB_IGNORED_DUPLICATE"

definition publish_result_from_cache :: "'s publisher \<Rightarrow> cache_write_result \<Rightarrow> py_error + publish_result" where
  "publish_result_from_cache pb r =
     res_bind (pub_clone pb ''publisher result for '' (cw_value r)) (\<lambda>v.
     res_bind (case cw_previous r of
                 None \<Rightarrow> Inr None
               | Some p \<Rightarrow> res_bind (pub_clone pb ''publisher previous result for '' p) (\<lambda>q. Inr (Some q))) (\<lambda>prev.
       Inr \<lparr>pub_status = publish_status_of (cw_status r), pub_value = v, pub_previous = prev\<rparr>))"

subsection \<open>Metrics and events\<close>

definition resource_metric_labels :: "resource_key \<Rightarrow> (string \<times> string) list" where
  "resource_metric_labels k = [(''resource_namespace'', rk_namespace k), (''resource_name'', rk_name k)]"

definition publish_metric :: "publish_status \<Rightarrow> resource_update \<Rightarrow> obs" where
  "publish_metric st u = MetricIncrement ''resource_publish_total''
     ([(''status'', publish_status_value st), (''source'', ru_source u)] @ resource_metric_labels (ru_key u))"

definition record_published :: "bool \<Rightarrow> publish_result \<Rightarrow> resource_update \<Rightarrow> obs list" where
  "record_published force r u =
     [publish_metric PUBLISHED u,
      EventEmit ''resource_published''
        [(''resource'', PyStr (key_str (ru_key u))), (''source'', PyStr (ru_source u)),
         (''observed_at'', PyFloat (Fin (sv_observed_at (pub_value r)))),
         (''replaced'', PyBool (pub_previous r \<noteq> None)), (''forced'', PyBool force),
         (''authority_rank'', PyInt (sv_authority_rank (pub_value r)))]]"

text \<open>The metric is counted before the event is built; resolving the rank may raise.\<close>

definition record_ignored :: "'s publisher \<Rightarrow> publish_result \<Rightarrow> resource_update \<Rightarrow> py_error option \<times> obs list" where
  "record_ignored pb r u =
     (case pub_previous r of
        None \<Rightarrow> (Some (OtherError ''AttributeError'' (py_repr ''NoneType'' @ '' object has no attribute '' @ py_repr ''observed_at'')),
                 [publish_metric (pub_status r) u])
      | Some p \<Rightarrow>
          (case authority_rank_for (pb_authority pb) (ru_key u) (ru_source u) of
             Inl e \<Rightarrow> (Some e, [publish_metric (pub_status r) u])
           | Inr rank \<Rightarrow> (None, [publish_metric (pub_status r) u,
               EventEmit ''resource_publish_ignored''
                 [(''resource'', PyStr (key_str (ru_key u))), (''source'', PyStr (ru_source u)),
                  (''status'', PyStr (publish_status_value (pub_status r))),
                  (''observed_at'', case ru_observed_at u of None \<Rightarrow> PyNone | Some t \<Rightarrow> PyFloat (Fin t)),
                  (''cached_observed_at'', PyFloat (Fin (sv_observed_at p))),
                  (''candidate_authority_rank'', PyInt rank),
                  (''cached_authority_rank'', PyInt (sv_authority_rank p))]])))"

fun record_results ::
  "'s publisher \<Rightarrow> bool \<Rightarrow> (resource_key, resource_update) odict \<Rightarrow> (resource_key, publish_result) odict
    \<Rightarrow> py_error option \<times> obs list" where
  "record_results pb force unique [] = (None, [])"
| "record_results pb force unique ((k, r) # rest) =
     (let u = the (map_of unique k);
          (err, entries) = (if published r then (None, record_published force r u) else record_ignored pb r u)
      in case err of
           Some e \<Rightarrow> (Some e, entries)
         | None \<Rightarrow> (let (err', more) = record_results pb force unique rest in (err', entries @ more)))"

subsection \<open>Operations\<close>

record 's pub_state =
  ps_cache :: 's
  ps_log :: "obs list"

text \<open>What is done with the candidates once they are prepared.\<close>

definition commit_publications ::
  "'s publisher \<Rightarrow> (resource_key, snapshot_value option) odict \<Rightarrow> (resource_key \<times> snapshot_value) list
    \<Rightarrow> bool \<Rightarrow> bool \<Rightarrow> 's \<Rightarrow> (py_error + (resource_key, publish_result) odict) \<times> 's" where
  "commit_publications pb previous_values candidates force replace_equal s =
     (let provisionals = map (provisional previous_values force replace_equal) candidates
      in case pub_set_many_if_newer pb (map snd candidates) force replace_equal s of
           (Inl e, s') \<Rightarrow> (Inl e, s')
         | (Inr None, s') \<Rightarrow>
             (let legacy_writes = map snd (filter (\<lambda>c. snd (snd (provisional previous_values force replace_equal c))) candidates);
                  (r, s'') = set_many_legacy pb legacy_writes s'
              in (res_bind r (\<lambda>_. Inr (map (\<lambda>(k, r, w). (k, r)) provisionals)), s''))
         | (Inr (Some atomic), s') \<Rightarrow>
             (let missing = filter (\<lambda>k. map_of atomic k = None) (od_keys candidates)
              in if missing \<noteq> []
                 then (Inl (RuntimeError (''atomic cache omitted write results for: ''
                          @ str_join '', '' (map key_str missing))), s')
                 else (pub_map pb (\<lambda>k. res_bind (publish_result_from_cache pb (the (map_of atomic k)))
                                        (\<lambda>r. Inr (k, r))) (od_keys candidates), s')))"

definition publish_many ::
  "('s \<Rightarrow> 's) \<Rightarrow> 's publisher \<Rightarrow> (resource_key \<Rightarrow> string) \<Rightarrow> pyfloat \<Rightarrow> resource_update list \<Rightarrow> bool \<Rightarrow> bool
    \<Rightarrow> 's pub_state \<Rightarrow> (py_error + (resource_key, publish_result) odict) \<times> 's pub_state" where
  "publish_many env pb fresh now updates force replace_equal st =
     (if updates = [] then (Inr [], st)
      else case select_updates pb now updates ([], []) of
        Inl e \<Rightarrow> (Inl e, st)
      | Inr (unique, precedences) \<Rightarrow>
          (case get_existing pb (fromkeys (map ru_key updates)) (fval now) (ps_cache st) of
             (Inl e, s') \<Rightarrow> (Inl e, st\<lparr>ps_cache := s'\<rparr>)
           | (Inr previous_values, s') \<Rightarrow>
               (case pub_map pb (pub_prepare_candidate pb fresh (fval now)) unique of
                  Inl e \<Rightarrow> (Inl e, st\<lparr>ps_cache := env s'\<rparr>)
                | Inr candidates \<Rightarrow>
                    (case commit_publications pb previous_values candidates force replace_equal (env s') of
                       (Inl e, s'') \<Rightarrow> (Inl e, st\<lparr>ps_cache := s''\<rparr>)
                     | (Inr results, s'') \<Rightarrow>
                         (let (err, entries) = record_results pb force unique results
                          in (case err of Some e \<Rightarrow> Inl e | None \<Rightarrow> Inr results,
                              st\<lparr>ps_cache := s'', ps_log := ps_log st @ entries\<rparr>))))))"

definition publish_update ::
  "('s \<Rightarrow> 's) \<Rightarrow> 's publisher \<Rightarrow> (resource_key \<Rightarrow> string) \<Rightarrow> pyfloat \<Rightarrow> resource_update \<Rightarrow> bool \<Rightarrow> bool
    \<Rightarrow> 's pub_state \<Rightarrow> (py_error + publish_result) \<times> 's pub_state" where
  "publish_update env pb fresh now u force replace_equal st =
     (let (r, st') = publish_many env pb fresh now [u] force replace_equal st
      in (res_bind r (\<lambda>rs. Inr (the (map_of rs (ru_key u)))), st'))"

definition publish ::
  "('s \<Rightarrow> 's) \<Rightarrow> 's publisher \<Rightarrow> (resource_key \<Rightarrow> string) \<Rightarrow> pyfloat \<Rightarrow> resource_key \<Rightarrow> pyval \<Rightarrow> string
    \<Rightarrow> pynum option \<Rightarrow> metadata \<Rightarrow> bool \<Rightarrow> bool \<Rightarrow> 's pub_state \<Rightarrow> (py_error + publish_result) \<times> 's pub_state" where
  "publish env pb fresh now k v source observed md force replace_equal st =
     (case mk_resource_update k v source observed md of
        Inl e \<Rightarrow> (Inl (ArgError e), st)
      | Inr u \<Rightarrow> publish_update env pb fresh now u force replace_equal st)"

definition pub_invalidate_many ::
  "'s publisher \<Rightarrow> resource_key list \<Rightarrow> string \<Rightarrow> 's pub_state \<Rightarrow> (py_error + unit) \<times> 's pub_state" where
  "pub_invalidate_many pb keys reason st =
     (let unique = fromkeys keys
      in if unique = [] then (Inr (), st)
         else case (case co_batch (pb_ops pb) of
                      Some batch \<Rightarrow> bo_invalidate_many batch unique (ps_cache st)
                    | None \<Rightarrow> (let (r, s') = run_each (co_invalidate (pb_ops pb)) unique (ps_cache st)
                              in (res_bind r (\<lambda>_. Inr ()), s'))) of
                (Inl e, s') \<Rightarrow> (Inl e, st\<lparr>ps_cache := s'\<rparr>)
              | (Inr _, s') \<Rightarrow>
                  (Inr (), st\<lparr>ps_cache := s', ps_log := ps_log st @ concat (map (\<lambda>k.
                     [MetricIncrement ''resource_invalidation_total'' (resource_metric_labels k),
                      EventEmit ''resource_invalidated'' [(''resource'', PyStr (key_str k)), (''reason'', PyStr reason)]])
                     unique)\<rparr>))"

definition pub_invalidate :: "'s publisher \<Rightarrow> resource_key \<Rightarrow> string \<Rightarrow> 's pub_state \<Rightarrow> (py_error + unit) \<times> 's pub_state" where
  "pub_invalidate pb k reason = pub_invalidate_many pb [k] reason"

subsection \<open>Lemmas\<close>

text \<open>The status the publisher predicts is the one an atomic cache decides.\<close>

lemma ignored_status_agrees:
  "pub_ignored_status previous v force replace_equal =
     (case write_status previous v force replace_equal of STORED \<Rightarrow> None | s \<Rightarrow> Some (publish_status_of s))"
  by (auto simp: pub_ignored_status_def write_status_def split: option.splits)

lemma lex_le: "q \<le> (c, d) \<longleftrightarrow> fst q < c \<or> fst q = c \<and> snd q \<le> d" for q :: "int \<times> rat"
  by (cases q) (auto simp: less_eq_prod_def)

text \<open>What the selection loop has established after a prefix of the updates.\<close>

definition update_rank :: "'s publisher \<Rightarrow> pyfloat \<Rightarrow> resource_update \<Rightarrow> int \<times> rat \<Rightarrow> bool" where
  "update_rank pb now u p \<longleftrightarrow> authority_rank_for (pb_authority pb) (ru_key u) (ru_source u) = Inr (fst p)
     \<and> snd p = fval (observed_or_now now u)"

definition selected_updates :: "'s publisher \<Rightarrow> pyfloat \<Rightarrow> resource_update list \<Rightarrow> selection \<Rightarrow> bool" where
  "selected_updates pb now us sel \<longleftrightarrow> od_ok (fst sel) \<and> od_keys (snd sel) = od_keys (fst sel)
     \<and> set (od_keys (fst sel)) = ru_key ` set us
     \<and> (\<forall>k u. map_of (fst sel) k = Some u \<longrightarrow> ru_key u = k \<and> u \<in> set us
          \<and> (\<exists>p. map_of (snd sel) k = Some p \<and> update_rank pb now u p))
     \<and> (\<forall>u \<in> set us. \<exists>p q. update_rank pb now u p \<and> map_of (snd sel) (ru_key u) = Some q \<and> p \<le> q)"

lemma od_set_keys_cong: "od_keys d = od_keys e \<Longrightarrow> od_keys (od_set k v d) = od_keys (od_set k w e)"
  by (simp only: od_keys_od_set)

lemma select_update_cases:
  assumes step: "select_update pb now u sel = Inr sel'"
  obtains (kept) rank q where "authority_rank_for (pb_authority pb) (ru_key u) (ru_source u) = Inr rank"
      "map_of (snd sel) (ru_key u) = Some q" "\<not> q \<le> (rank, fval (observed_or_now now u))" "sel' = sel"
    | (taken) rank where "authority_rank_for (pb_authority pb) (ru_key u) (ru_source u) = Inr rank"
      "\<And>q. map_of (snd sel) (ru_key u) = Some q \<Longrightarrow> q \<le> (rank, fval (observed_or_now now u))"
      "sel' = (od_set (ru_key u) u (fst sel), od_set (ru_key u) (rank, fval (observed_or_now now u)) (snd sel))"
proof -
  from step obtain rank where r: "authority_rank_for (pb_authority pb) (ru_key u) (ru_source u) = Inr rank"
    by (auto simp: select_update_def Let_def res_iff)
  show thesis
  proof (cases "map_of (snd sel) (ru_key u)")
    case None
    with step r show thesis by (intro taken) (auto simp: select_update_def Let_def res_iff)
  next
    case (Some q)
    show thesis
    proof (cases "q \<le> (rank, fval (observed_or_now now u))")
      case True
      with step r Some show thesis
        by (intro taken) (auto simp: select_update_def Let_def res_iff lex_le)
    next
      case False
      with step r Some show thesis
        by (intro kept) (auto simp: select_update_def Let_def res_iff lex_le split: if_splits)
    qed
  qed
qed

lemma selected_updatesD:
  assumes "selected_updates pb now us sel"
  shows "od_ok (fst sel)" "od_keys (snd sel) = od_keys (fst sel)" "set (od_keys (fst sel)) = ru_key ` set us"
    "map_of (fst sel) k = Some u \<Longrightarrow> ru_key u = k \<and> u \<in> set us
          \<and> (\<exists>p. map_of (snd sel) k = Some p \<and> update_rank pb now u p)"
    "u \<in> set us \<Longrightarrow> \<exists>p q. update_rank pb now u p \<and> map_of (snd sel) (ru_key u) = Some q \<and> p \<le> q"
  using assms unfolding selected_updates_def by blast+

lemma update_kept:
  assumes sel: "selected_updates pb now us sel" and mine: "update_rank pb now u p"
    and q: "map_of (snd sel) (ru_key u) = Some q" "p \<le> q"
  shows "selected_updates pb now (us @ [u]) sel"
proof -
  note d = selected_updatesD [OF sel]
  have "ru_key u \<in> set (od_keys (fst sel))" using map_of_Some_key [OF q(1)] unfolding d(2) .
  moreover have "\<forall>w \<in> set (us @ [u]). \<exists>p q. update_rank pb now w p \<and> map_of (snd sel) (ru_key w) = Some q \<and> p \<le> q"
    using d(5) mine q by (simp del: split_paired_Ex) blast
  ultimately show ?thesis
    unfolding selected_updates_def using d(1,2,3,4) by (auto simp del: set_map split_paired_Ex)
qed

lemma update_taken:
  assumes sel: "selected_updates pb now us sel" and mine: "update_rank pb now u p"
    and best: "\<And>q. map_of (snd sel) (ru_key u) = Some q \<Longrightarrow> q \<le> p"
  shows "selected_updates pb now (us @ [u]) (od_set (ru_key u) u (fst sel), od_set (ru_key u) p (snd sel))"
proof -
  note d = selected_updatesD [OF sel]
  have "\<exists>p' q. update_rank pb now w p' \<and> map_of (od_set (ru_key u) p (snd sel)) (ru_key w) = Some q \<and> p' \<le> q"
    if "w \<in> set (us @ [u])" for w
  proof (cases "w \<in> set us")
    case True
    from d(5) [OF True] obtain p' q where "update_rank pb now w p'" "map_of (snd sel) (ru_key w) = Some q" "p' \<le> q"
      by blast
    moreover have "\<exists>q'. map_of (od_set (ru_key u) p (snd sel)) (ru_key w) = Some q' \<and> q \<le> q'"
      if "map_of (snd sel) (ru_key w) = Some q" for q
      using that best by (cases "ru_key w = ru_key u") simp_all
    ultimately show ?thesis by (meson order_trans)
  next
    case False
    with that have "w = u" by simp
    with mine show ?thesis by (intro exI [of _ p]) simp
  qed
  moreover have "set (od_keys (od_set (ru_key u) u (fst sel))) = ru_key ` set (us @ [u])"
    using d(3) by (auto simp: od_keys_od_set simp del: set_map)
  moreover have "od_keys (od_set (ru_key u) p (snd sel)) = od_keys (od_set (ru_key u) u (fst sel))"
    using d(2) by (rule od_set_keys_cong)
  ultimately show ?thesis
    unfolding selected_updates_def fst_conv snd_conv using d(1,4) mine by (auto simp del: set_map split_paired_Ex)
qed

lemma select_update_step:
  assumes sel: "selected_updates pb now us sel" and step: "select_update pb now u sel = Inr sel'"
  shows "selected_updates pb now (us @ [u]) sel'"
  using step
proof (cases rule: select_update_cases)
  case (kept rank q)
  then show ?thesis
    using update_kept [OF sel, of u "(rank, fval (observed_or_now now u))" q] by (simp add: update_rank_def)
next
  case (taken rank)
  then show ?thesis
    using update_taken [OF sel, of u "(rank, fval (observed_or_now now u))"] by (simp add: update_rank_def)
qed

lemma select_updates_selected:
  "selected_updates pb now us sel \<Longrightarrow> select_updates pb now vs sel = Inr sel' \<Longrightarrow> selected_updates pb now (us @ vs) sel'"
proof (induction vs arbitrary: us sel)
  case (Cons v vs)
  from Cons.prems(2) obtain mid where mid: "select_update pb now v sel = Inr mid"
    and rest: "select_updates pb now vs mid = Inr sel'" by (auto simp: res_iff)
  from Cons.IH [OF select_update_step [OF Cons.prems(1) mid] rest] show ?case by simp
qed simp

lemma selection_exact:
  "select_updates pb now us ([], []) = Inr sel \<Longrightarrow> selected_updates pb now us sel"
proof -
  assume run: "select_updates pb now us ([], []) = Inr sel"
  have "selected_updates pb now [] ([], [])" by (simp add: selected_updates_def)
  from select_updates_selected [OF this run] show ?thesis by simp
qed

lemma validated_finite: "validate_observed_at pb k observed now = Inr x \<Longrightarrow> isfinite now"
  by (cases now) (auto simp: validate_observed_at_def require_finite_timestamp_def res_bind_def split: pyfloat.splits sum.splits)

lemma selection_now_finite:
  "select_updates pb now us sel = Inr sel' \<Longrightarrow> us \<noteq> [] \<Longrightarrow> isfinite now"
  by (cases us) (auto simp: res_iff select_update_def Let_def dest: validated_finite)

lemma published_metadata_ok: "od_ok md \<Longrightarrow> od_ok (published_metadata f md)"
  by (simp add: published_metadata_def Let_def)

lemma candidate_properties:
  assumes prep: "pub_prepare_candidate pb fresh now (k, u) = Inr (k', w)"
    and faithful: "faithful_copier (pb_copier pb)" and md: "od_ok (ru_metadata u)" and k: "ru_key u = k"
  shows "k' = k \<and> sv_key w = k \<and> sv_wf w \<and> sv_value w = ru_value u
    \<and> update_rank pb (Fin now) u (write_rank w)"
proof -
  let ?md = "published_metadata (max 0 (fval (observed_or_now (Fin now) u) - now)) (ru_metadata u)"
  have ok: "od_ok ?md" using md by (rule published_metadata_ok)
  show ?thesis using prep faithful ok k
    by (auto simp: pub_prepare_candidate_def Let_def res_iff iso_copy_metadata_faithful lift_arg_def
        mk_snapshot_value_def require_finite_timestamp_def sv_wf_def update_rank_def write_rank_def
        split: sum.splits if_splits)
qed

lemma select_distinct:
  assumes "distinct (map sv_key vs)" "v \<in> set vs"
  shows "map_of (select_candidates vs) (sv_key v) = Some v"
proof -
  obtain w where w: "map_of (select_candidates vs) (sv_key v) = Some w"
    using select_candidates_selection [of vs] assms(2) by (auto simp: selection_of_def)
  from selected_in [OF w] have "w \<in> set vs" "sv_key w = sv_key v" by simp_all
  with assms have "w = v" by (auto simp: distinct_map inj_on_def)
  with w show ?thesis by simp
qed

lemma pub_map_open: "\<not> pb_copies_closing pb \<Longrightarrow> pub_map pb f xs = res_map f xs"
  by (simp add: pub_map_def isolator_map_def)

lemma pub_clones:
  assumes "faithful_copier (pb_copier pb)" "\<not> pb_copies_closing pb" "\<forall>v \<in> set vs. sv_wf v"
  shows "pub_map pb (pub_clone pb ctxt) vs = Inr vs"
  using assms by (auto simp: pub_map_def isolator_map_def pub_clone_def clone_same intro: res_map_same)

definition from_cache :: "cache_write_result \<Rightarrow> publish_result" where
  "from_cache r = \<lparr>pub_status = publish_status_of (cw_status r), pub_value = cw_value r, pub_previous = cw_previous r\<rparr>"

lemma result_cloned:
  assumes "faithful_copier (pb_copier pb)" "sv_wf (cw_value r)" "\<And>p. cw_previous r = Some p \<Longrightarrow> sv_wf p"
  shows "publish_result_from_cache pb r = Inr (from_cache r)"
  using assms by (cases "cw_previous r") (simp_all add: publish_result_from_cache_def pub_clone_def clone_same from_cache_def)

lemma spec_result_wf:
  assumes "\<And>k p. m k = Some p \<Longrightarrow> sv_wf p" "\<forall>v \<in> set vs. sv_wf v"
    and r: "spec_write_result vs force replace_equal m k = Some r"
  shows "sv_wf (cw_value r)" and "\<And>p. cw_previous r = Some p \<Longrightarrow> sv_wf p"
proof -
  from r obtain v where v: "map_of (select_candidates vs) k = Some v"
    and rdef: "r = \<lparr>cw_status = write_status (m k) v force replace_equal,
             cw_value = the (spec_write vs force replace_equal m k), cw_previous = m k\<rparr>"
    by (auto simp: spec_write_result_def)
  have "\<exists>w. spec_write vs force replace_equal m k = Some w"
    using v write_status_ignored [of "m k" v] by (auto simp: spec_write_def)
  then show "sv_wf (cw_value r)" using spec_write_wf [OF assms(1,2)] by (auto simp: rdef)
  show "sv_wf p" if "cw_previous r = Some p" for p using that assms(1) by (simp add: rdef)
qed

lemma map_of_map_keys: "map_of (map (\<lambda>k. (k, f k)) ks) k = (if k \<in> set ks then Some (f k) else None)"
  by (induction ks) auto

definition publish_ready :: "'s publisher \<Rightarrow> (resource_key \<Rightarrow> string) \<Rightarrow> resource_update list \<Rightarrow> bool" where
  "publish_ready pb fresh updates \<longleftrightarrow> (\<forall>u \<in> set updates. od_ok (ru_metadata u) \<and> strip (fresh (ru_key u)) \<noteq> ''''
     \<and> (\<exists>p. policy_resolve (pb_policies pb) (ru_key u) = Inr p))"

lemma candidate_total:
  assumes "faithful_copier (pb_copier pb)" "od_ok (ru_metadata u)" "strip (fresh k) \<noteq> ''''"
    and "policy_resolve (pb_policies pb) k = Inr p" "authority_rank_for (pb_authority pb) k (ru_source u) = Inr rank"
  shows "\<exists>w. pub_prepare_candidate pb fresh now (k, u) = Inr (k, w)"
proof -
  have "od_ok (published_metadata f (ru_metadata u))" for f using assms(2) by (rule published_metadata_ok)
  with assms show ?thesis
    by (simp add: pub_prepare_candidate_def Let_def iso_copy_metadata_faithful mk_snapshot_value_def
        require_finite_timestamp_def lift_arg_def)
qed

lemma res_map_all2:
  "(\<And>x. x \<in> set xs \<Longrightarrow> \<exists>y. f x = Inr y \<and> P x y) \<Longrightarrow> \<exists>ys. res_map f xs = Inr ys \<and> list_all2 P xs ys"
proof (induction xs)
  case (Cons x xs)
  obtain y where "f x = Inr y" "P x y" using Cons.prems [of x] by auto
  moreover obtain ys where "res_map f xs = Inr ys" "list_all2 P xs ys" using Cons.IH Cons.prems by auto
  ultimately show ?case by simp
qed simp

definition candidate_for :: "'s publisher \<Rightarrow> pyfloat \<Rightarrow> resource_key \<times> resource_update \<Rightarrow> resource_key \<times> snapshot_value \<Rightarrow> bool" where
  "candidate_for pb now item cand \<longleftrightarrow> fst cand = fst item \<and> sv_key (snd cand) = fst item \<and> sv_wf (snd cand)
     \<and> sv_value (snd cand) = ru_value (snd item) \<and> update_rank pb now (snd item) (write_rank (snd cand))"

lemma candidates_prepared:
  assumes faithful: "faithful_copier (pb_copier pb)" "\<not> pb_copies_closing pb"
    and ready: "publish_ready pb fresh updates"
    and sel: "selected_updates pb (Fin now) updates (unique, precs)"
  shows "\<exists>cands. pub_map pb (pub_prepare_candidate pb fresh now) unique = Inr cands
    \<and> list_all2 (candidate_for pb (Fin now)) unique cands"
proof -
  have "\<exists>c. pub_prepare_candidate pb fresh now item = Inr c \<and> candidate_for pb (Fin now) item c"
    if "item \<in> set unique" for item
  proof -
    obtain k u where item: "item = (k, u)" by (cases item)
    with that selected_updatesD(1) [OF sel] have "map_of unique k = Some u" by simp
    with selected_updatesD(4) [OF sel, of k u] obtain p where u: "ru_key u = k" "u \<in> set updates"
      "update_rank pb (Fin now) u p" by auto
    with ready obtain pol where r: "od_ok (ru_metadata u)" "strip (fresh k) \<noteq> ''''"
      "policy_resolve (pb_policies pb) k = Inr pol" by (auto simp: publish_ready_def)
    obtain w where w: "pub_prepare_candidate pb fresh now (k, u) = Inr (k, w)"
      using candidate_total [of pb u fresh k pol] faithful(1) r u by (auto simp: update_rank_def)
    from candidate_properties [OF w faithful(1) r(1) u(1)] w show ?thesis
      by (auto simp: item candidate_for_def)
  qed
  from res_map_all2 [OF this] show ?thesis using faithful(2) by (simp add: pub_map_def isolator_map_def)
qed

lemma candidate_list:
  assumes "list_all2 (candidate_for pb now) unique cands" "od_ok unique"
  shows "od_keys cands = od_keys unique" "od_ok cands"
    "\<forall>c \<in> set cands. sv_key (snd c) = fst c \<and> sv_wf (snd c)"
    "map_of unique k = Some u \<Longrightarrow> \<exists>w. map_of cands k = Some w \<and> candidate_for pb now (k, u) (k, w)"
proof -
  show keys: "od_keys cands = od_keys unique"
    using assms(1) by (induction rule: list_all2_induct) (auto simp: candidate_for_def)
  with assms(2) show "od_ok cands" by simp
  show "\<forall>c \<in> set cands. sv_key (snd c) = fst c \<and> sv_wf (snd c)"
    using assms(1) by (induction rule: list_all2_induct) (auto simp: candidate_for_def)
  show "map_of unique k = Some u \<Longrightarrow> \<exists>w. map_of cands k = Some w \<and> candidate_for pb now (k, u) (k, w)"
    using assms(1) by (induction rule: list_all2_induct) (auto simp: candidate_for_def split: if_splits)
qed

text \<open>
  What a publication promises about its results and the contents \<open>m\<close> of the cache after it:
  one result per key; without force every result ranks at least as high as each update of
  its key; and the cache holds the value reported for a key or has evicted it.
\<close>

definition publication_correct ::
  "'s publisher \<Rightarrow> resource_update list \<Rightarrow> pyfloat \<Rightarrow> bool \<Rightarrow> (resource_key, publish_result) odict
    \<Rightarrow> (resource_key \<rightharpoonup> snapshot_value) \<Rightarrow> bool" where
  "publication_correct pb updates now force results m \<longleftrightarrow>
     od_ok results \<and> set (od_keys results) = ru_key ` set updates
     \<and> (\<forall>u \<in> set updates. \<exists>r p. map_of results (ru_key u) = Some r \<and> update_rank pb now u p
          \<and> (\<not> force \<longrightarrow> p \<le> write_rank (pub_value r)))
     \<and> (\<forall>k r. map_of results k = Some r \<longrightarrow> m k = None \<or> m k = Some (pub_value r))"

lemma update_rank_unique: "update_rank pb now u p \<Longrightarrow> update_rank pb now u q \<Longrightarrow> p = q"
  by (auto simp: update_rank_def prod_eq_iff)

lemma spec_result_rank:
  assumes sel: "map_of (select_candidates vs) k = Some w"
    and r: "spec_write_result vs False replace_equal m k = Some r"
  shows "write_rank w \<le> write_rank (cw_value r)"
proof (cases "m k")
  case None
  with sel r show ?thesis by (auto simp: spec_write_result_def spec_write_def write_status_def)
next
  case (Some p)
  with sel r write_status_rank [OF Some, of w replace_equal] show ?thesis
    by (auto simp: spec_write_result_def spec_write_def)
qed

subsection \<open>Publishing into a cache that keeps its contract\<close>

text \<open>
  A publisher over a batch cache with atomic writes: it relies on the laws of
  \<open>monotonic_cache\<close> for the two operations its capabilities name.
\<close>

locale publishing = monotonic_cache get_many_op write_op contents ready
  for get_many_op :: "resource_key list \<Rightarrow> rat \<Rightarrow> (resource_key, freshness_policy) odict \<Rightarrow> 's
      \<Rightarrow> (py_error + (resource_key, cache_lookup) odict) \<times> 's"
    and write_op :: "snapshot_value list \<Rightarrow> bool \<Rightarrow> bool \<Rightarrow> 's
      \<Rightarrow> (py_error + (resource_key, cache_write_result) odict) \<times> 's"
    and contents :: "'s \<Rightarrow> (resource_key \<rightharpoonup> snapshot_value)"
    and ready :: "'s \<Rightarrow> bool" +
  fixes pb :: "'s publisher" and batch :: "'s batch_ops"
  assumes batch_cache: "co_batch (pb_ops pb) = Some batch" "bo_get_many batch = get_many_op"
    and atomic_cache: "co_set_many_if_newer (pb_ops pb) = Some write_op"
    and copies: "faithful_copier (pb_copier pb)" "\<not> pb_copies_closing pb"
begin

lemma existing_read:
  assumes ready: "ready s" and keys: "distinct keys"
  obtains previous s' where "get_existing pb keys now s = (Inr previous, s')" "ready s'"
proof -
  let ?policies = "map (\<lambda>k. (k, all_values_policy)) keys"
  obtain ls s' where r: "get_many_op keys now ?policies s = (Inr ls, s')"
    using read_total [OF ready, of keys ?policies now] by (cases "get_many_op keys now ?policies s") (auto simp: comp_def)
  have s': "ready s'" using read_ready [OF ready, of keys now ?policies] by (simp add: r)
  have ks: "od_keys ls = keys" using read_keys [OF ready r] by (simp add: fromkeys_distinct keys)
  have wf: "sv_wf v" if "map_of ls k = Some l" "cl_value l = Some v" for k l v
    using read_values [OF ready r that] contents_keys [OF ready] by blast
  have found: "\<exists>l. map_of ls k = Some l" if "k \<in> set keys" for k
    using that ks map_of_None_keys [of ls k] by (cases "map_of ls k") auto
  have items: "res_map (\<lambda>k. case map_of ls k of None \<Rightarrow> Inl (KeyError (key_str k)) | Some l \<Rightarrow> Inr (k, cl_value l)) keys
      = Inr (map (\<lambda>k. (k, cl_value (the (map_of ls k)))) keys)"
    by (rule res_map_Inr_id) (use found in fastforce)
  have "clone_existing pb (k, cl_value (the (map_of ls k))) = Inr (k, cl_value (the (map_of ls k)))" if "k \<in> set keys" for k
    using found [OF that] wf copies(1)
    by (auto simp: clone_existing_def clone_same split: option.splits)
  then have "pub_map pb (clone_existing pb) (map (\<lambda>k. (k, cl_value (the (map_of ls k)))) keys)
      = Inr (map (\<lambda>k. (k, cl_value (the (map_of ls k)))) keys)"
    using copies(2) by (auto simp: pub_map_def isolator_map_def intro!: res_map_same)
  with items r s' that show thesis
    by (simp add: get_existing_def read_lookups_def batch_cache)
qed

lemma committed:
  assumes ready: "ready s" and keys: "od_ok cands" "\<forall>c \<in> set cands. sv_key (snd c) = fst c \<and> sv_wf (snd c)"
    and some: "cands \<noteq> []"
  defines "m \<equiv> contents s"
  shows "\<exists>results s'. commit_publications pb previous cands force replace_equal s = (Inr results, s')
    \<and> od_keys results = od_keys cands \<and> ready s'
    \<and> contents s' \<subseteq>\<^sub>m spec_write (map snd cands) force replace_equal m
    \<and> map_of results = (\<lambda>k. map_option from_cache (spec_write_result (map snd cands) force replace_equal m k))"
proof -
  let ?vs = "map snd cands"
  have wf: "\<forall>v \<in> set ?vs. sv_wf v" using keys by auto
  obtain rs s' where w: "write_op ?vs force replace_equal s = (Inr rs, s')"
    and rs: "map_of rs = spec_write_result ?vs force replace_equal m"
    using write_results [OF ready wf, of force replace_equal] unfolding m_def
    by (cases "write_op ?vs force replace_equal s") auto
  have s': "ready s'" "contents s' \<subseteq>\<^sub>m spec_write ?vs force replace_equal m"
    using write_ready [OF ready wf, of force replace_equal] write_contents [OF ready wf, of force replace_equal]
    by (simp_all add: w m_def)
  have dist: "distinct (map sv_key ?vs)"
  proof -
    have "map sv_key ?vs = od_keys cands" using keys(2) by (simp add: comp_def)
    with keys(1) show ?thesis by (simp only:)
  qed
  have written: "\<exists>r. map_of rs k = Some r \<and> publish_result_from_cache pb r = Inr (from_cache r)"
    if k: "k \<in> set (od_keys cands)" for k
  proof -
    from k obtain v where v: "v \<in> set ?vs" "sv_key v = k" using keys(2) by force
    then have sel: "map_of (select_candidates ?vs) k = Some v" using select_distinct [OF dist v(1)] by simp
    then obtain r where r: "map_of rs k = Some r" "spec_write_result ?vs force replace_equal m k = Some r"
      by (auto simp: rs spec_write_result_def)
    have old: "sv_wf p" if "m k = Some p" for k p using contents_keys [OF ready] that by (simp add: m_def)
    from spec_result_wf [OF old wf r(2)] copies(1) have "publish_result_from_cache pb r = Inr (from_cache r)"
      by (intro result_cloned) auto
    with r(1) show ?thesis by blast
  qed
  define results where "results = map (\<lambda>k. (k, from_cache (the (map_of rs k)))) (od_keys cands)"
  have "filter (\<lambda>k. map_of rs k = None) (od_keys cands) = []"
    using written by (fastforce simp: filter_empty_conv)
  moreover have "pub_map pb (\<lambda>k. res_bind (publish_result_from_cache pb (the (map_of rs k))) (\<lambda>r. Inr (k, r)))
      (od_keys cands) = Inr results"
    unfolding results_def pub_map_open [OF copies(2)] by (rule res_map_Inr_id) (use written in fastforce)
  ultimately have run: "commit_publications pb previous cands force replace_equal s = (Inr results, s')"
    using pub_clones [OF copies wf] some w
    by (simp add: commit_publications_def pub_set_many_if_newer_def batch_cache atomic_cache Let_def)
  have "map_of results k = map_option from_cache (spec_write_result ?vs force replace_equal m k)" for k
  proof (cases "k \<in> set (od_keys cands)")
    case True
    with written [OF True] show ?thesis unfolding results_def map_of_map_keys by (auto simp: rs simp del: set_map)
  next
    case False
    then have "map_of (select_candidates ?vs) k = None"
      using selected_in [of ?vs k] keys(2) by (cases "map_of (select_candidates ?vs) k") force+
    with False show ?thesis unfolding results_def map_of_map_keys by (simp add: spec_write_result_def del: set_map)
  qed
  moreover have "od_keys results = od_keys cands"
    unfolding results_def map_map comp_def fst_conv ..
  ultimately show ?thesis using run s' by (intro exI conjI ext)
qed

lemma published_results:
  assumes sel: "selected_updates pb now updates (unique, precs)"
    and cands: "list_all2 (candidate_for pb now) unique cands"
    and results: "od_keys results = od_keys cands"
      "map_of results = (\<lambda>k. map_option from_cache (spec_write_result (map snd cands) force replace_equal m k))"
    and after: "m' \<subseteq>\<^sub>m spec_write (map snd cands) force replace_equal m"
  shows "publication_correct pb updates now force results m'"
proof -
  note d = selected_updatesD [OF sel, unfolded fst_conv snd_conv]
  note c = candidate_list [OF cands d(1)]
  have dist: "distinct (map sv_key (map snd cands))"
  proof -
    have "map sv_key (map snd cands) = od_keys cands" using c(3) by (simp add: comp_def)
    with c(2) show ?thesis by (simp only:)
  qed
  have "\<exists>r p. map_of results (ru_key u) = Some r \<and> update_rank pb now u p \<and> (\<not> force \<longrightarrow> p \<le> write_rank (pub_value r))"
    if u: "u \<in> set updates" for u
  proof -
    from d(5) [OF u] obtain p q where p: "update_rank pb now u p" "map_of precs (ru_key u) = Some q" "p \<le> q" by blast
    have "ru_key u \<in> set (od_keys unique)" using d(3) u by (simp del: set_map)
    then obtain w where w: "map_of unique (ru_key u) = Some w"
      by (cases "map_of unique (ru_key u)") (simp_all add: map_of_None_keys del: set_map)
    from c(4) [OF w] obtain v where v: "map_of cands (ru_key u) = Some v" "sv_key v = ru_key u"
      "update_rank pb now w (write_rank v)" by (auto simp: candidate_for_def)
    have "update_rank pb now w q" using d(4) [OF w] p(2) by auto
    then have "write_rank v = q" using v(3) by (rule update_rank_unique [symmetric])
    moreover have sv: "map_of (select_candidates (map snd cands)) (ru_key u) = Some v"
      using select_distinct [OF dist, of v] map_of_SomeD [OF v(1)] v(2) by force
    moreover from sv obtain r where r: "spec_write_result (map snd cands) force replace_equal m (ru_key u) = Some r"
      by (auto simp: spec_write_result_def)
    ultimately have "map_of results (ru_key u) = Some (from_cache r)" "\<not> force \<longrightarrow> p \<le> write_rank (pub_value (from_cache r))"
      using p(3) spec_result_rank [OF sv, of replace_equal m r] by (auto simp: results(2) from_cache_def dest: order_trans)
    with p(1) show ?thesis by (intro exI [of _ "from_cache r"] exI [of _ p] conjI)
  qed
  moreover have "m' k = None \<or> m' k = Some (pub_value r)" if "map_of results k = Some r" for k r
    using that after by (cases "m' k") (auto simp: results(2) from_cache_def spec_write_result_def map_le_def dom_def)
  ultimately show ?thesis unfolding publication_correct_def
    using c(1,2) d(3) results(1) by (metis (no_types, lifting))
qed

text \<open>Recording the results cannot fail: the ranks were resolved before.\<close>

lemma recorded:
  assumes "\<forall>p \<in> set results. pub_previous (snd p) = None \<longrightarrow> published (snd p)"
    and "\<forall>p \<in> set results. \<exists>u rank. map_of unique (fst p) = Some u
           \<and> authority_rank_for (pb_authority pb) (ru_key u) (ru_source u) = Inr rank"
  shows "fst (record_results pb force unique results) = None"
  using assms
  by (induction pb force unique results rule: record_results.induct)
    (auto simp: Let_def record_ignored_def split: option.splits prod.splits sum.splits if_splits)

lemma spec_results_recordable:
  "spec_write_result vs force replace_equal m k = Some r \<Longrightarrow>
   pub_previous (from_cache r) = None \<Longrightarrow> published (from_cache r)"
  by (auto simp: spec_write_result_def from_cache_def published_def write_status_def)

lemma publish_many_ok:
  assumes cache: "ready (ps_cache st)" and env: "\<And>s. ready s \<Longrightarrow> ready (env s)"
    and valid: "select_updates pb now updates ([], []) = Inr sel"
    and prepared: "publish_ready pb fresh updates"
  shows "\<exists>results st'. publish_many env pb fresh now updates force replace_equal st = (Inr results, st')
    \<and> ready (ps_cache st') \<and> publication_correct pb updates now force results (contents (ps_cache st'))"
proof (cases "updates = []")
  case True
  with cache show ?thesis by (simp add: publish_many_def publication_correct_def)
next
  case False
  obtain unique precs where sel: "sel = (unique, precs)" by (cases sel)
  obtain t where now: "now = Fin t" using selection_now_finite [OF valid False] by (rule isfiniteE)
  have sok: "selected_updates pb (Fin t) updates (unique, precs)" using selection_exact [OF valid] by (simp add: now sel)
  note d = selected_updatesD [OF sok, unfolded fst_conv snd_conv]
  obtain cands where c: "pub_map pb (pub_prepare_candidate pb fresh t) unique = Inr cands"
    and cl: "list_all2 (candidate_for pb (Fin t)) unique cands"
    using candidates_prepared [OF copies prepared sok] by blast
  obtain previous s1 where r: "get_existing pb (fromkeys (map ru_key updates)) t (ps_cache st) = (Inr previous, s1)"
    and s1: "ready s1" using existing_read [OF cache distinct_fromkeys] .
  note k = candidate_list [OF cl d(1)]
  have "unique \<noteq> []" using d(3) False by auto
  then have "cands \<noteq> []" using k(1) by auto
  from committed [OF env [OF s1] k(2,3) this, of previous force replace_equal]
  obtain results s2 where w: "commit_publications pb previous cands force replace_equal (env s1) = (Inr results, s2)"
    "od_keys results = od_keys cands" "ready s2"
    "contents s2 \<subseteq>\<^sub>m spec_write (map snd cands) force replace_equal (contents (env s1))"
    "map_of results = (\<lambda>k. map_option from_cache (spec_write_result (map snd cands) force replace_equal (contents (env s1)) k))"
    by blast
  have correct: "publication_correct pb updates (Fin t) force results (contents s2)"
    by (rule published_results [OF sok cl w(2,5,4)])
  then have rok: "od_ok results" by (simp add: publication_correct_def)
  have "fst (record_results pb force unique results) = None"
  proof (rule recorded; intro ballI)
    fix p assume p: "p \<in> set results"
    then have at: "map_of results (fst p) = Some (snd p)" using rok by simp
    then show "pub_previous (snd p) = None \<longrightarrow> published (snd p)"
      using spec_results_recordable [of "map snd cands" force replace_equal "contents (env s1)" "fst p"]
      by (auto simp: w(5))
    have "fst p \<in> set (od_keys unique)" using p k(1) w(2) by (metis imageI set_map)
    then obtain u where u: "map_of unique (fst p) = Some u"
      by (cases "map_of unique (fst p)") (simp_all add: map_of_None_keys del: set_map)
    with d(4) [OF u] show "\<exists>u rank. map_of unique (fst p) = Some u
        \<and> authority_rank_for (pb_authority pb) (ru_key u) (ru_source u) = Inr rank"
      by (auto simp: update_rank_def)
  qed
  then obtain entries where "record_results pb force unique results = (None, entries)"
    by (cases "record_results pb force unique results") simp
  with False valid r c w correct show ?thesis by (simp add: publish_many_def now sel)
qed

end

subsection \<open>The publisher over the in-memory cache\<close>

locale memory_publisher = faithful_memory_cache copier
  for copier :: payload_copier +
  fixes pb :: "memory_cache publisher"
  assumes over_memory: "pb_ops pb = memory_cache_ops copier"
    and same_copier: "pb_copier pb = copier" and open_copies: "\<not> pb_copies_closing pb"

sublocale memory_publisher \<subseteq> publishing "get_many copier" "set_many_if_newer copier idle" contents_of cache_ready pb
  "the (co_batch (memory_cache_ops copier))"
  by unfold_locales (simp_all add: over_memory same_copier open_copies faithful memory_cache_ops_def)

context memory_publisher
begin

lemmas memory_publish_many_ok = publish_many_ok

end

text \<open>A publisher with the defaults of the constructor.\<close>

definition default_publisher :: "memory_cache publisher" where
  "default_publisher =
     \<lparr>pb_ops = memory_cache_ops deepcopy_payload,
      pb_policies = \<lparr>pr_default = \<lparr>fp_ttl_seconds = Fin 5, fp_max_stale_seconds = Fin 30,
        fp_allow_stale_on_error = True, fp_refresh_mode = BLOCKING, fp_refresh_ahead_seconds = Fin 0\<rparr>,
        pr_overrides = [], pr_dynamic = None\<rparr>,
      pb_observation = \<lparr>op_future_tolerance_seconds = 1, op_reject_future_observations = True\<rparr>,
      pb_copier = deepcopy_payload,
      pb_authority = \<lparr>au_default = default_authority, au_overrides = [], au_dynamic = None\<rparr>,
      pb_lock_stripes = 64, pb_max_pending_tasks = 8, pb_component = ''publisher'',
      pb_owns_isolator = True, pb_copies_closing = False\<rparr>"

lemma default_publisher_built:
  "mk_publisher (memory_cache_ops deepcopy_payload) (pb_policies default_publisher)
     (pb_observation default_publisher) deepcopy_payload (pb_authority default_publisher) 64 8 None None 4
   = Inr default_publisher"
  by (simp add: mk_publisher_def default_publisher_def authority_has_rules_def default_authority_def)

interpretation default_pub: memory_publisher deepcopy_payload default_publisher
  by unfold_locales (simp_all add: default_publisher_def)

subsection \<open>Properties\<close>

text \<open>
  C8: a publication over the in-memory cache whose updates are valid returns, whatever other
  clients do to the cache in between: it has one result per key; without force each result
  ranks, by authority and then observation time, at least as high as every update of its
  key; and the cache holds exactly the value reported for a key or has evicted it.
\<close>

theorem publish_many_correct:
  assumes "faithful_copier copier" "pb_ops pb = memory_cache_ops copier" "pb_copier pb = copier"
    and "\<not> pb_copies_closing pb"
    and "cache_ready (ps_cache st)" "\<And>c. cache_ready c \<Longrightarrow> cache_ready (env c)"
    and "select_updates pb now updates ([], []) = Inr sel" "publish_ready pb fresh updates"
  shows "\<exists>results st'. publish_many env pb fresh now updates force replace_equal st = (Inr results, st')
    \<and> cache_ready (ps_cache st')
    \<and> publication_correct pb updates now force results (contents_of (ps_cache st'))"
proof -
  have "memory_publisher copier pb" using assms(1-4) by unfold_locales
  from memory_publisher.memory_publish_many_ok [OF this assms(5-8)] show ?thesis .
qed

definition fixture_update :: "string \<Rightarrow> rat option \<Rightarrow> resource_update" where
  "fixture_update nm observed = \<lparr>ru_key = fixture_key nm, ru_value = PyInt 7, ru_source = ''stream'',
     ru_observed_at = observed, ru_metadata = []\<rparr>"

lemma fixture_selection:
  "select_updates default_publisher (Fin 10) [fixture_update ''quote'' (Some 9), fixture_update ''quote'' (Some 8)] ([], [])
   = Inr ([(fixture_key ''quote'', fixture_update ''quote'' (Some 9))], [(fixture_key ''quote'', (0, 9))])"
  by (simp add: select_update_def fixture_update_def observed_or_now_def validate_observed_at_def
      require_finite_timestamp_def default_publisher_def authority_rank_for_def authority_resolve_def
      lift_arg_def policy_rank_for_def default_authority_def normalize_source_def strip_eq_self Let_def is_space_def)

theorem publish_many_correct_witness:
  "\<exists>results st'. publish_many id default_publisher (\<lambda>k. ''v2'') (Fin 10)
       [fixture_update ''quote'' (Some 9), fixture_update ''quote'' (Some 8)] False False
       \<lparr>ps_cache = fixture_cache None [], ps_log = []\<rparr> = (Inr results, st')
     \<and> publication_correct default_publisher [fixture_update ''quote'' (Some 9), fixture_update ''quote'' (Some 8)]
         (Fin 10) False results (contents_of (ps_cache st'))"
proof -
  have ready: "cache_ready (ps_cache \<lparr>ps_cache = fixture_cache None [], ps_log = []\<rparr>)"
    by (simp add: cache_ready_def cache_inv_def fixture_cache_def)
  have "publish_ready default_publisher (\<lambda>k. ''v2'')
      [fixture_update ''quote'' (Some 9), fixture_update ''quote'' (Some 8)]"
    by (simp add: publish_ready_def fixture_update_def policy_resolve_def default_publisher_def strip_eq_self is_space_def)
  from publish_many_correct [OF deepcopy_faithful _ _ _ ready _ fixture_selection this, of id False False]
  show ?thesis by (auto simp: default_publisher_def)
qed

text \<open>
  the status the publisher predicts from what it read is the one an atomic cache decides
  on the same previous value, so legacy and atomic caches publish alike.
\<close>

lemma publish_status_agrees:
  "pub_ignored_status previous v force replace_equal =
     (case write_status previous v force replace_equal of STORED \<Rightarrow> None | s \<Rightarrow> Some (publish_status_of s))"
  by (rule ignored_status_agrees)

text \<open>
  One update whose observation time is not acceptable rejects the whole batch: nothing
  is read from or written to the cache, and nothing is recorded.
\<close>

lemma publish_rejects_whole_batch:
  assumes u: "u \<in> set updates" and bad: "validate_observed_at pb (ru_key u) (observed_or_now now u) now = Inl e"
  shows "\<exists>e'. publish_many env pb fresh now updates force replace_equal st = (Inl e', st)"
proof -
  have "\<exists>e'. select_updates pb now us sel = Inl e'" if "u \<in> set us" for us sel
    using that
  proof (induction us arbitrary: sel)
    case (Cons w us)
    show ?case
    proof (cases "select_update pb now w sel")
      case (Inr sel')
      with bad have "w \<noteq> u" by (auto simp: select_update_def Let_def res_iff)
      with Cons Inr show ?thesis by simp
    qed simp
  qed simp
  then obtain e' where "select_updates pb now updates ([], []) = Inl e'" using u by blast
  with u show ?thesis by (cases "updates = []") (simp_all add: publish_many_def)
qed

lemma publish_rejects_whole_batch_witness:
  "\<exists>e. publish_many id default_publisher (\<lambda>k. ''v2'') (Fin 10)
       [fixture_update ''quote'' (Some 9), fixture_update ''trade'' (Some 99)] False False
       \<lparr>ps_cache = fixture_cache None [], ps_log = []\<rparr>
     = (Inl e, \<lparr>ps_cache = fixture_cache None [], ps_log = []\<rparr>)"
proof (rule publish_rejects_whole_batch)
  show "fixture_update ''trade'' (Some 99)
      \<in> set [fixture_update ''quote'' (Some 9), fixture_update ''trade'' (Some 99)]" by simp
  show "validate_observed_at default_publisher (ru_key (fixture_update ''trade'' (Some 99)))
      (observed_or_now (Fin 10) (fixture_update ''trade'' (Some 99))) (Fin 10)
    = Inl (SourceProtocolError (''published observation for '' @ key_str (fixture_key ''trade'') @ '' is ''
          @ fmt_fixed 6 89 @ ''s in the future''))"
    by (simp add: validate_observed_at_def observed_or_now_def fixture_update_def require_finite_timestamp_def
        default_publisher_def raise_if_def)
qed

end
