(* ===== verification/Publisher_Locks.thy ===== *)
theory Publisher_Locks
  imports Keys
begin

section \<open>The striped locks of the publisher (cache/publisher.py, ResourcePublisher._locked_keys)\<close>

text \<open>
  Publications and invalidations hold the stripes of their keys, which they acquire in
  ascending order. A task is described by the stripes it holds and those it still has to
  acquire; a lock that any task holds is not free. \<open>hash\<close> is \<^verbatim>\<open>hash(key)\<close> of the interpreter, an
  int that may be negative: \<^verbatim>\<open>%\<close> with the positive number of stripes is not.
\<close>

definition stripes_for :: "(resource_key \<Rightarrow> int) \<Rightarrow> int \<Rightarrow> resource_key list \<Rightarrow> int list" where
  "stripes_for hash n keys = sort (remdups (map (\<lambda>k. hash k mod n) keys))"

type_synonym lock_table = "nat \<rightharpoonup> int list \<times> int list"

definition stripe_free :: "lock_table \<Rightarrow> int \<Rightarrow> bool" where
  "stripe_free st i \<longleftrightarrow> (\<forall>t held rest. st t = Some (held, rest) \<longrightarrow> i \<notin> set held)"

datatype lock_event = LockEnter nat "resource_key list" | LockAcquire nat | LockLeave nat | LockCancel nat

text \<open>
  A cancelled task releases what it acquired, as the \<^verbatim>\<open>finally\<close> block does; releasing has no
  await, so it is one step.
\<close>

inductive lock_step :: "(resource_key \<Rightarrow> int) \<Rightarrow> int \<Rightarrow> lock_table \<Rightarrow> lock_event \<Rightarrow> lock_table \<Rightarrow> bool"
  for hash n where
  enter: "st t = None \<Longrightarrow> lock_step hash n st (LockEnter t keys) (st(t \<mapsto> ([], stripes_for hash n keys)))"
| acquire: "st t = Some (held, i # rest) \<Longrightarrow> stripe_free st i
    \<Longrightarrow> lock_step hash n st (LockAcquire t) (st(t \<mapsto> (held @ [i], rest)))"
| leave: "st t = Some (held, []) \<Longrightarrow> lock_step hash n st (LockLeave t) (st(t := None))"
| cancel: "st t = Some (held, i # rest) \<Longrightarrow> lock_step hash n st (LockCancel t) (st(t := None))"

text \<open>Every task climbs a strictly ascending list, and no stripe has two holders.\<close>

definition locks_ok :: "lock_table \<Rightarrow> bool" where
  "locks_ok st \<longleftrightarrow> finite (dom st)
     \<and> (\<forall>t held rest. st t = Some (held, rest) \<longrightarrow> sorted_wrt (<) (held @ rest))
     \<and> (\<forall>t u h r h' r'. st t = Some (h, r) \<and> st u = Some (h', r') \<and> t \<noteq> u \<longrightarrow> set h \<inter> set h' = {})"

lemma stripes_ascending: "sorted_wrt (<) (stripes_for hash n keys)"
  by (simp add: stripes_for_def strict_sorted_iff)

lemma locks_okI:
  assumes "finite (dom st)" "\<And>t held rest. st t = Some (held, rest) \<Longrightarrow> sorted_wrt (<) (held @ rest)"
    and "\<And>t u h r h' r'. st t = Some (h, r) \<Longrightarrow> st u = Some (h', r') \<Longrightarrow> t \<noteq> u \<Longrightarrow> set h \<inter> set h' = {}"
  shows "locks_ok st"
  using assms unfolding locks_ok_def by blast

lemma locks_okD:
  assumes "locks_ok st"
  shows "finite (dom st)" "st t = Some (held, rest) \<Longrightarrow> sorted_wrt (<) (held @ rest)"
    "st t = Some (h, r) \<Longrightarrow> st u = Some (h', r') \<Longrightarrow> t \<noteq> u \<Longrightarrow> set h \<inter> set h' = {}"
  using assms unfolding locks_ok_def by blast+

lemma locks_removed: "locks_ok st \<Longrightarrow> locks_ok (st(t := None))"
  by (rule locks_okI) (auto dest: locks_okD split: if_splits)

lemma lock_step_ok: "locks_ok st \<Longrightarrow> lock_step hash n st e st' \<Longrightarrow> locks_ok st'"
proof (erule lock_step.cases, goal_cases)
  case (1 st t keys)
  note ok = locks_okD [OF \<open>locks_ok _\<close>]
  have "locks_ok (st(t \<mapsto> ([], stripes_for hash n keys)))"
    by (rule locks_okI) (use 1 ok stripes_ascending in \<open>auto split: if_splits\<close>)
  with 1 show ?case by simp
next
  case (2 st t held i rest)
  note ok = locks_okD [OF \<open>locks_ok _\<close>]
  have "locks_ok (st(t \<mapsto> (held @ [i], rest)))"
  proof (rule locks_okI)
    show "set h \<inter> set h' = {}" if "(st(t \<mapsto> (held @ [i], rest))) u = Some (h, r)"
      "(st(t \<mapsto> (held @ [i], rest))) w = Some (h', r')" "u \<noteq> w" for u w h r h' r'
      using that 2 ok(3) by (auto simp: stripe_free_def split: if_splits) blast+
  qed (use 2 ok(1,2) in \<open>auto split: if_splits\<close>)
  with 2 show ?case by simp
qed (auto intro: locks_removed)

interpretation locks: machine "lock_step hash n" locks_ok
  by unfold_locales (rule lock_step_ok)

subsection \<open>Progress\<close>

text \<open>The task whose next stripe is highest waits for nobody: a holder of it waits for a higher one.\<close>

lemma highest_waiter:
  assumes ok: "locks_ok st" and t: "st t = Some (held, i # rest)"
    and highest: "\<And>u h j r. st u = Some (h, j # r) \<Longrightarrow> j \<le> i"
    and waiting: "\<And>u h r. st u = Some (h, r) \<Longrightarrow> r \<noteq> []"
  shows "stripe_free st i"
  unfolding stripe_free_def
proof (intro allI impI notI)
  fix u h r assume u: "st u = Some (h, r)" and i: "i \<in> set h"
  obtain j r' where r: "r = j # r'" using waiting [OF u] by (cases r) auto
  have "sorted_wrt (<) (h @ r)" using ok u by (rule locks_okD)
  with i r have "i < j" by (auto simp: sorted_wrt_append)
  moreover have "j \<le> i" using highest u r by simp
  ultimately show False by simp
qed

lemma lock_progress:
  assumes ok: "locks_ok st" and busy: "st t = Some (held, rest)"
  shows "\<exists>u st'. lock_step hash n st (LockAcquire u) st' \<or> lock_step hash n st (LockLeave u) st'"
proof (cases "\<exists>u h. st u = Some (h, [])")
  case True
  then show ?thesis by (blast intro: leave)
next
  case False
  then have waiting: "\<And>u h r. st u = Some (h, r) \<Longrightarrow> r \<noteq> []" by blast
  let ?next = "\<lambda>u. hd (snd (the (st u)))"
  have fin: "finite (?next ` dom st)" and ne: "?next ` dom st \<noteq> {}" using locks_okD(1) [OF ok] busy by auto
  obtain u where u: "u \<in> dom st" "?next u = Max (?next ` dom st)" using Max_in [OF fin ne]
    by (metis (no_types, lifting) imageE)
  then obtain h i r where st_u: "st u = Some (h, i # r)" using waiting
    by (metis domD list.exhaust surj_pair)
  have highest: "j \<le> i" if "st w = Some (h', j # r')" for w h' j r'
    using Max_ge [OF fin, of j] that u st_u by (force simp: image_iff)
  have "stripe_free st i" by (rule highest_waiter [OF ok st_u]) (use highest waiting in blast)+
  with st_u show ?thesis by (blast intro: acquire)
qed

text \<open>The steps left until every present task has left.\<close>

definition steps_left :: "lock_table \<Rightarrow> nat" where
  "steps_left st = (\<Sum>t \<in> dom st. Suc (length (snd (the (st t)))))"

lemma steps_left_drop:
  assumes fin: "finite (dom st)" and t: "st t = Some (held, rest)"
  shows "steps_left st = Suc (length rest) + steps_left (st(t := None))"
proof -
  have "(\<Sum>u \<in> dom st - {t}. Suc (length (snd (the (st u))))) = steps_left (st(t := None))"
    unfolding steps_left_def by (rule sum.cong) auto
  then show ?thesis
    using sum.remove [OF fin, of t "\<lambda>u. Suc (length (snd (the (st u))))"] t by (simp add: steps_left_def domI)
qed

lemma lock_step_decreases:
  assumes ok: "locks_ok st" and step: "lock_step hash n st e st'" and old: "\<And>t keys. e \<noteq> LockEnter t keys"
  shows "steps_left st' < steps_left st"
proof -
  have fin: "finite (dom st)" using ok by (rule locks_okD)
  from step old show ?thesis
  proof cases
    case (acquire t held i rest)
    have "finite (dom st')" using fin acquire by auto
    from steps_left_drop [OF this, of t "held @ [i]" rest] steps_left_drop [OF fin acquire(3)] acquire
    show ?thesis by simp
  next
    case (leave t held)
    with steps_left_drop [OF fin leave(3)] show ?thesis by simp
  next
    case (cancel t held i rest)
    with steps_left_drop [OF fin cancel(3)] show ?thesis by simp
  qed auto
qed

lemma locks_drain:
  assumes "locks_ok st"
  shows "\<exists>es. length es \<le> steps_left st \<and> run_of (lock_step hash n) st es Map.empty"
  using assms
proof (induction "steps_left st" arbitrary: st rule: less_induct)
  case less
  show ?case
  proof (cases "st = Map.empty")
    case False
    then obtain t held rest where "st t = Some (held, rest)" by (auto simp: fun_eq_iff)
    from lock_progress [OF less.prems this, of hash n] obtain e st' where
      e: "lock_step hash n st e st'" "\<And>t keys. e \<noteq> LockEnter t keys" by blast
    have small: "steps_left st' < steps_left st" by (rule lock_step_decreases [OF less.prems e])
    from less.hyps [OF small lock_step_ok [OF less.prems e(1)]] obtain es where
      "length es \<le> steps_left st'" "run_of (lock_step hash n) st' es Map.empty" by blast
    with e(1) small show ?thesis by (intro exI [of _ "e # es"]) (auto intro: run_cons)
  qed (auto intro: run_nil exI [of _ "[]"])
qed

lemma locks_empty: "locks_ok Map.empty"
  by (simp add: locks_ok_def)

text \<open>
  the striped locks exclude and never deadlock: in every reachable state no two tasks
  that have all their stripes share the stripe of a key; some task can acquire its next
  stripe or leave whenever a task is present; and every step but an arrival brings the
  state closer to all tasks having left.
\<close>

lemma publisher_locks_progress:
  assumes run: "run_of (lock_step hash n) Map.empty es st"
  shows "(\<forall>t u h h'. st t = Some (h, []) \<and> st u = Some (h', []) \<and> t \<noteq> u \<longrightarrow> set h \<inter> set h' = {})
    \<and> (st \<noteq> Map.empty \<longrightarrow> (\<exists>u st'. lock_step hash n st (LockAcquire u) st' \<or> lock_step hash n st (LockLeave u) st'))
    \<and> (\<forall>e st'. lock_step hash n st e st' \<and> (\<forall>t keys. e \<noteq> LockEnter t keys) \<longrightarrow> steps_left st' < steps_left st)"
proof -
  have ok: "locks_ok st" by (rule locks.run_inv [OF run locks_empty])
  have "\<exists>u st'. lock_step hash n st (LockAcquire u) st' \<or> lock_step hash n st (LockLeave u) st'" if "st \<noteq> Map.empty"
  proof -
    from that obtain t held rest where "st t = Some (held, rest)" by (auto simp: fun_eq_iff)
    then show ?thesis by (rule lock_progress [OF ok])
  qed
  then show ?thesis using locks_okD(3) [OF ok] lock_step_decreases [OF ok] by blast
qed

lemma publisher_locks_progress_witness:
  "\<exists>st st'. run_of (lock_step (\<lambda>k. 7) 4) Map.empty [LockEnter 0 [ResourceKey ''market'' ''quote'' '''' []]] st
     \<and> (\<exists>u. lock_step (\<lambda>k. 7) 4 st (LockAcquire u) st' \<or> lock_step (\<lambda>k. 7) 4 st (LockLeave u) st')"
proof -
  let ?st = "[0 \<mapsto> ([], [3])] :: lock_table"
  have "lock_step (\<lambda>k. 7) 4 Map.empty (LockEnter 0 [ResourceKey ''market'' ''quote'' '''' []]) ?st"
    using enter [of Map.empty 0 "\<lambda>k. 7" 4 "[ResourceKey ''market'' ''quote'' '''' []]"] by (simp add: stripes_for_def)
  from run_cons [of "lock_step (\<lambda>k. 7) 4" Map.empty _ ?st "[]" ?st, OF this run_nil]
  have run: "run_of (lock_step (\<lambda>k. 7) 4) Map.empty [LockEnter 0 [ResourceKey ''market'' ''quote'' '''' []]] ?st"
    .
  have "?st \<noteq> Map.empty" by (simp add: fun_eq_iff)
  with publisher_locks_progress [OF run]
  obtain u st' where "lock_step (\<lambda>k. 7) 4 ?st (LockAcquire u) st' \<or> lock_step (\<lambda>k. 7) 4 ?st (LockLeave u) st'"
    by (elim conjE impE exE)
  with run show ?thesis by (intro exI conjI)
qed

end
