(* ===== verification/Effects.thy ===== *)
theory Effects
  imports Errors
begin

section \<open>Stateful operations that may raise\<close>

text \<open>
  The orchestration code threads a state through calls that may raise. An operation on a state
  \<open>'s\<close> returns what it raises or its value, together with the state it leaves behind: effects
  made before an exception stay. The combinators below are sequencing, \<^verbatim>\<open>try\<close>/\<^verbatim>\<open>except\<close>,
  reading and updating the state, and a loop over a list.
\<close>

type_synonym ('s, 'a) act = "'s \<Rightarrow> (py_error + 'a) \<times> 's"

definition ret :: "'a \<Rightarrow> ('s, 'a) act" where
  "ret x s = (Inr x, s)"

definition throw :: "py_error \<Rightarrow> ('s, 'a) act" where
  "throw e s = (Inl e, s)"

definition lift_res :: "py_error + 'a \<Rightarrow> ('s, 'a) act" where
  "lift_res r s = (r, s)"

definition reads :: "('s \<Rightarrow> 'a) \<Rightarrow> ('s, 'a) act" where
  "reads f s = (Inr (f s), s)"

definition updates :: "('s \<Rightarrow> 's) \<Rightarrow> ('s, unit) act" where
  "updates f s = (Inr (), f s)"

definition bind_act :: "('s, 'a) act \<Rightarrow> ('a \<Rightarrow> ('s, 'b) act) \<Rightarrow> ('s, 'b) act" where
  "bind_act m f s = (case m s of (Inl e, s') \<Rightarrow> (Inl e, s') | (Inr x, s') \<Rightarrow> f x s')"

text \<open>\<open>handle m f h\<close> continues with \<open>f\<close> when \<open>m\<close> succeeds and with \<open>h\<close> when it raises.\<close>

definition handle :: "('s, 'a) act \<Rightarrow> ('a \<Rightarrow> ('s, 'b) act) \<Rightarrow> (py_error \<Rightarrow> ('s, 'b) act) \<Rightarrow> ('s, 'b) act" where
  "handle m f h s = (case m s of (Inl e, s') \<Rightarrow> h e s' | (Inr x, s') \<Rightarrow> f x s')"

fun each :: "('a \<Rightarrow> ('s, 'b) act) \<Rightarrow> 'a list \<Rightarrow> ('s, 'b list) act" where
  "each f [] = ret []"
| "each f (x # xs) = bind_act (f x) (\<lambda>y. bind_act (each f xs) (\<lambda>ys. ret (y # ys)))"

fun fold_act :: "('a \<Rightarrow> 'b \<Rightarrow> ('s, 'b) act) \<Rightarrow> 'a list \<Rightarrow> 'b \<Rightarrow> ('s, 'b) act" where
  "fold_act f [] acc = ret acc"
| "fold_act f (x # xs) acc = bind_act (f x acc) (fold_act f xs)"

subsection \<open>Successful runs\<close>

lemma act_simps [simp]:
  "ret x s = (Inr x, s)" "throw e s = (Inl e, s)" "lift_res r s = (r, s)" "reads g s = (Inr (g s), s)"
  "updates u s = (Inr (), u s)"
  by (simp_all add: ret_def throw_def lift_res_def reads_def updates_def)

lemma bind_act_Inr:
  "bind_act m f s = (Inr y, s') \<longleftrightarrow> (\<exists>x s1. m s = (Inr x, s1) \<and> f x s1 = (Inr y, s'))"
  by (cases "m s"; cases "fst (m s)") (auto simp: bind_act_def)

lemma bind_act_Inl:
  "bind_act m f s = (Inl e, s') \<longleftrightarrow> m s = (Inl e, s') \<or> (\<exists>x s1. m s = (Inr x, s1) \<and> f x s1 = (Inl e, s'))"
  by (cases "m s"; cases "fst (m s)") (auto simp: bind_act_def)

lemma bind_act_cases:
  assumes "bind_act m f s = (r, s')"
  obtains (raised) e where "m s = (Inl e, s')" "r = Inl e"
  | (continued) x s1 where "m s = (Inr x, s1)" "f x s1 = (r, s')"
  using assms by (cases "m s"; cases "fst (m s)") (auto simp: bind_act_def)

lemma handle_cases:
  assumes "handle m f h s = (r, s')"
  obtains (raised) e s1 where "m s = (Inl e, s1)" "h e s1 = (r, s')"
  | (continued) x s1 where "m s = (Inr x, s1)" "f x s1 = (r, s')"
  using assms by (cases "m s"; cases "fst (m s)") (auto simp: handle_def)

lemma each_Inr_length: "each f xs s = (Inr ys, s') \<Longrightarrow> length ys = length xs"
  by (induction xs arbitrary: s ys) (auto simp: bind_act_Inr)

text \<open>What every call of the loop returns holds of the list of results, in order.\<close>

lemma each_Inr_all2:
  assumes "each f xs s = (Inr ys, s')" and "\<And>x y s s'. x \<in> set xs \<Longrightarrow> f x s = (Inr y, s') \<Longrightarrow> P x y"
  shows "list_all2 P xs ys"
  using assms by (induction xs arbitrary: s ys) (fastforce simp: bind_act_Inr)+

lemma each_total:
  assumes "\<And>x s. x \<in> set xs \<Longrightarrow> \<exists>y s'. f x s = (Inr y, s')"
  shows "\<exists>ys s'. each f xs s = (Inr ys, s')"
  using assms
proof (induction xs arbitrary: s)
  case (Cons x xs)
  obtain y s1 where 1: "f x s = (Inr y, s1)" using Cons.prems by fastforce
  obtain ys s2 where "each f xs s1 = (Inr ys, s2)" using Cons.IH [of s1] Cons.prems by fastforce
  with 1 show ?case by (simp add: bind_act_def)
qed simp

lemma fold_act_append: "fold_act f (xs @ ys) acc = bind_act (fold_act f xs acc) (fold_act f ys)"
  by (induction xs arbitrary: acc) (auto simp: fun_eq_iff bind_act_def split: prod.splits sum.splits)

lemma each_cong:
  "(\<And>x s. x \<in> set xs \<Longrightarrow> f x s = g x s) \<Longrightarrow> each f xs s = each g xs s"
  by (induction xs arbitrary: s) (auto simp: bind_act_def split: prod.splits sum.splits)

text \<open>Invariants of a loop; \<open>ds\<close> is the part of the list that has been gone through.\<close>

lemma fold_act_inv_split:
  assumes "fold_act f xs acc s = (Inr y, s')" "I [] acc s"
    and "\<And>ds x rest acc s acc' s'. xs = ds @ x # rest \<Longrightarrow> I ds acc s \<Longrightarrow> f x acc s = (Inr acc', s') \<Longrightarrow> I (ds @ [x]) acc' s'"
  shows "I xs y s'"
proof -
  have "I (ds @ rest) y s'" if "fold_act f rest acc s = (Inr y, s')" "I ds acc s" "xs = ds @ rest" for ds rest acc s
    using that
  proof (induction rest arbitrary: acc s ds)
    case (Cons x rest)
    obtain acc1 s1 where 1: "f x acc s = (Inr acc1, s1)" "fold_act f rest acc1 s1 = (Inr y, s')"
      using Cons.prems(1) by (auto simp: bind_act_Inr)
    have "I (ds @ [x]) acc1 s1" by (rule assms(3) [OF Cons.prems(3) Cons.prems(2) 1(1)])
    from Cons.IH [OF 1(2) this] Cons.prems(3) show ?case by simp
  qed simp
  from this [OF assms(1,2)] show ?thesis by simp
qed

lemma fold_act_inv:
  assumes "fold_act f xs acc s = (Inr y, s')" "I [] acc"
    and "\<And>ds x acc s acc' s'. I ds acc \<Longrightarrow> x \<in> set xs \<Longrightarrow> f x acc s = (Inr acc', s') \<Longrightarrow> I (ds @ [x]) acc'"
  shows "I xs y"
  by (rule fold_act_inv_split [OF assms(1), of "\<lambda>ds acc s. I ds acc"]) (auto intro: assms)

subsection \<open>Frames\<close>

text \<open>
  A relation between the states before and after that holds of no change and of two changes in
  a row carries over from the parts of an operation to the whole.
\<close>

definition keeps :: "('s \<Rightarrow> 's \<Rightarrow> bool) \<Rightarrow> ('s, 'a) act \<Rightarrow> bool" where
  "keeps R m \<longleftrightarrow> (\<forall>s. R s (snd (m s)))"

locale frame =
  fixes R :: "'s \<Rightarrow> 's \<Rightarrow> bool"
  assumes frame_refl: "R s s"
    and frame_trans: "R s t \<Longrightarrow> R t u \<Longrightarrow> R s u"
begin

lemma keepsD: "keeps R m \<Longrightarrow> m s = (r, s') \<Longrightarrow> R s s'"
  by (metis keeps_def snd_conv)

lemma keeps_ret: "keeps R (ret x)"
  by (simp add: keeps_def frame_refl)

lemma keeps_throw: "keeps R (throw e)"
  by (simp add: keeps_def frame_refl)

lemma keeps_lift: "keeps R (lift_res r)"
  by (simp add: keeps_def frame_refl)

lemma keeps_reads: "keeps R (reads g)"
  by (simp add: keeps_def frame_refl)

lemma keeps_updates: "(\<And>s. R s (g s)) \<Longrightarrow> keeps R (updates g)"
  by (simp add: keeps_def)

lemma keeps_bind:
  assumes "keeps R m" "\<And>x. keeps R (f x)"
  shows "keeps R (bind_act m f)"
  unfolding keeps_def
proof
  fix s
  obtain r s' where run: "bind_act m f s = (r, s')" by fastforce
  then have "R s s'"
    by (cases rule: bind_act_cases) (use assms in \<open>auto intro: frame_trans dest: keepsD\<close>)
  with run show "R s (snd (bind_act m f s))" by simp
qed

lemma keeps_handle:
  assumes "keeps R m" "\<And>x. keeps R (f x)" "\<And>e. keeps R (h e)"
  shows "keeps R (handle m f h)"
  unfolding keeps_def
proof
  fix s
  obtain r s' where run: "handle m f h s = (r, s')" by fastforce
  then have "R s s'"
    by (cases rule: handle_cases) (use assms in \<open>blast intro: frame_trans dest: keepsD\<close>)+
  with run show "R s (snd (handle m f h s))" by simp
qed

lemma keeps_each: "(\<And>x. x \<in> set xs \<Longrightarrow> keeps R (f x)) \<Longrightarrow> keeps R (each f xs)"
  by (induction xs) (auto intro!: keeps_bind keeps_ret)

lemma keeps_fold: "(\<And>x acc. x \<in> set xs \<Longrightarrow> keeps R (f x acc)) \<Longrightarrow> keeps R (fold_act f xs acc)"
  by (induction xs arbitrary: acc) (auto intro!: keeps_bind keeps_ret)

lemmas keeps_rules = keeps_ret keeps_throw keeps_lift keeps_reads keeps_bind keeps_handle keeps_each keeps_fold

end

subsection \<open>Which exceptions an operation raises\<close>

definition raises_only :: "(py_error \<Rightarrow> bool) \<Rightarrow> ('s, 'a) act \<Rightarrow> bool" where
  "raises_only P m \<longleftrightarrow> (\<forall>s e. fst (m s) = Inl e \<longrightarrow> P e)"

lemma raises_onlyD: "raises_only P m \<Longrightarrow> m s = (Inl e, s') \<Longrightarrow> P e"
  by (metis raises_only_def fst_conv)

lemma raises_onlyI: "(\<And>s e s'. m s = (Inl e, s') \<Longrightarrow> P e) \<Longrightarrow> raises_only P m"
  by (metis raises_only_def prod.collapse)

lemma raises_only_ret [intro]: "raises_only P (ret x)" "raises_only P (reads g)" "raises_only P (updates u)"
  by (simp_all add: raises_only_def)

lemma raises_only_throw [intro]: "P e \<Longrightarrow> raises_only P (throw e)"
  by (simp add: raises_only_def)

lemma raises_only_lift: "(\<And>e. r = Inl e \<Longrightarrow> P e) \<Longrightarrow> raises_only P (lift_res r)"
  by (simp add: raises_only_def)

lemma raises_only_bind:
  assumes "raises_only P m" "\<And>x. raises_only P (f x)"
  shows "raises_only P (bind_act m f)"
  by (rule raises_onlyI) (auto simp: bind_act_Inl intro: raises_onlyD [OF assms(1)] raises_onlyD [OF assms(2)])

lemma raises_only_each: "(\<And>x. x \<in> set xs \<Longrightarrow> raises_only P (f x)) \<Longrightarrow> raises_only P (each f xs)"
  by (induction xs) (auto intro!: raises_only_bind raises_only_ret)

text \<open>An operation that raises nothing returns.\<close>

lemma raises_nothing: "raises_only (\<lambda>e. False) m \<Longrightarrow> \<exists>x s'. m s = (Inr x, s')"
  unfolding raises_only_def by (metis old.sum.exhaust prod.collapse)

subsection \<open>Invariants and results\<close>

text \<open>\<open>ensures P m Q\<close>: from a state with \<open>P\<close> the operation ends in one, raising or not, and returns only values with \<open>Q\<close>.\<close>

definition ensures :: "('s \<Rightarrow> bool) \<Rightarrow> ('s, 'a) act \<Rightarrow> ('a \<Rightarrow> bool) \<Rightarrow> bool" where
  "ensures P m Q \<longleftrightarrow> (\<forall>s. P s \<longrightarrow> P (snd (m s)) \<and> (\<forall>x. fst (m s) = Inr x \<longrightarrow> Q x))"

lemma ensuresD: "ensures P m Q \<Longrightarrow> P s \<Longrightarrow> m s = (r, s') \<Longrightarrow> P s' \<and> (\<forall>x. r = Inr x \<longrightarrow> Q x)"
  by (metis ensures_def fst_conv snd_conv)

lemma ensuresI: "(\<And>s r s'. P s \<Longrightarrow> m s = (r, s') \<Longrightarrow> P s' \<and> (\<forall>x. r = Inr x \<longrightarrow> Q x)) \<Longrightarrow> ensures P m Q"
  by (metis ensures_def prod.collapse)

lemma ensures_weaken: "ensures P m Q \<Longrightarrow> (\<And>x. Q x \<Longrightarrow> Q' x) \<Longrightarrow> ensures P m Q'"
  by (simp add: ensures_def)

lemma ensures_ret: "Q x \<Longrightarrow> ensures P (ret x) Q"
  by (simp add: ensures_def)

lemma ensures_throw: "ensures P (throw e) Q"
  by (simp add: ensures_def)

lemma ensures_lift: "(\<And>x. r = Inr x \<Longrightarrow> Q x) \<Longrightarrow> ensures P (lift_res r) Q"
  by (simp add: ensures_def)

lemma ensures_reads: "(\<And>s. P s \<Longrightarrow> Q (g s)) \<Longrightarrow> ensures P (reads g) Q"
  by (simp add: ensures_def)

lemma ensures_updates: "(\<And>s. P s \<Longrightarrow> P (u s)) \<Longrightarrow> Q () \<Longrightarrow> ensures P (updates u) Q"
  by (simp add: ensures_def)

lemma ensures_bind:
  assumes "ensures P m Q" "\<And>x. Q x \<Longrightarrow> ensures P (f x) Q'"
  shows "ensures P (bind_act m f) Q'"
proof (rule ensuresI)
  fix s r s'
  assume P: "P s" and run: "bind_act m f s = (r, s')"
  from run show "P s' \<and> (\<forall>x. r = Inr x \<longrightarrow> Q' x)"
  proof (cases rule: bind_act_cases)
    case (raised e)
    with ensuresD [OF assms(1) P] show ?thesis by simp
  next
    case (continued x s1)
    from ensuresD [OF assms(1) P continued(1)] have "P s1" "Q x" by simp_all
    from ensuresD [OF assms(2) [OF this(2)] this(1) continued(2)] show ?thesis .
  qed
qed

lemma ensures_handle:
  assumes "ensures P m Q" "\<And>x. Q x \<Longrightarrow> ensures P (f x) Q'" "\<And>e. ensures P (h e) Q'"
  shows "ensures P (handle m f h) Q'"
proof (rule ensuresI)
  fix s r s'
  assume P: "P s" and run: "handle m f h s = (r, s')"
  from run show "P s' \<and> (\<forall>x. r = Inr x \<longrightarrow> Q' x)"
  proof (cases rule: handle_cases)
    case (raised e s1)
    from ensuresD [OF assms(1) P raised(1)] have "P s1" by simp
    from ensuresD [OF assms(3) this raised(2)] show ?thesis .
  next
    case (continued x s1)
    from ensuresD [OF assms(1) P continued(1)] have "P s1" "Q x" by simp_all
    from ensuresD [OF assms(2) [OF this(2)] this(1) continued(2)] show ?thesis .
  qed
qed

lemma ensures_fold:
  assumes "\<And>x acc. x \<in> set xs \<Longrightarrow> Q acc \<Longrightarrow> ensures P (f x acc) Q"
  shows "Q acc \<Longrightarrow> ensures P (fold_act f xs acc) Q"
  using assms by (induction xs arbitrary: acc) (auto intro!: ensures_ret intro: ensures_bind)

lemma ensures_each:
  assumes "\<And>x. x \<in> set xs \<Longrightarrow> ensures P (f x) Q"
  shows "ensures P (each f xs) (\<lambda>ys. \<forall>y \<in> set ys. Q y)"
  using assms by (induction xs) (auto intro!: ensures_ret ensures_bind)

lemma keeps_ensures: "keeps (\<lambda>s s'. P s \<longrightarrow> P s') m \<Longrightarrow> ensures P m (\<lambda>_. True)"
  by (simp add: keeps_def ensures_def)

end
