(* ===== verification/Clocked.thy ===== *)
theory Clocked
  imports Isolation
begin

section \<open>Time, deadlines and timed copies (core/clock.py, core/deadline.py, AsyncPayloadIsolator.run)\<close>

text \<open>
  The wall clock and the monotonic clock are part of the state, and so is the number of
  external operations made so far. How long the next one takes is \<open>delay n\<close> for the number \<open>n\<close>,
  a parameter: the source cannot know it. An operation takes effect when it completes, so one
  that is cancelled before its delay has passed has no effect; when the delay equals the
  timeout the operation completes.
\<close>

record clocks =
  w_now :: rat
  w_mono :: rat
  w_tick :: nat

definition pass :: "rat \<Rightarrow> 'a clocks_scheme \<Rightarrow> 'a clocks_scheme" where
  "pass d w = w\<lparr>w_now := w_now w + d, w_mono := w_mono w + d\<rparr>"

definition count_tick :: "'a clocks_scheme \<Rightarrow> 'a clocks_scheme" where
  "count_tick w = w\<lparr>w_tick := w_tick w + 1\<rparr>"

lemma pass_simps [simp]:
  "w_now (pass d w) = w_now w + d" "w_mono (pass d w) = w_mono w + d" "w_tick (pass d w) = w_tick w"
  "clocks.more (pass d w) = clocks.more w"
  by (simp_all add: pass_def)

lemma count_tick_simps [simp]:
  "w_now (count_tick w) = w_now w" "w_mono (count_tick w) = w_mono w" "w_tick (count_tick w) = w_tick w + 1"
  "clocks.more (count_tick w) = clocks.more w"
  by (simp_all add: count_tick_def)

subsection \<open>Deadlines\<close>

definition remaining_deadline_seconds :: "rat option \<Rightarrow> rat \<Rightarrow> string \<Rightarrow> py_error + rat option" where
  "remaining_deadline_seconds deadline monotonic operation =
     (case deadline of
        None \<Rightarrow> Inr None
      | Some d \<Rightarrow>
          if d - monotonic \<le> 0
          then Inl (SnapshotDeadlineExceededError (''snapshot deadline exceeded before '' @ operation))
          else Inr (Some (d - monotonic)))"

text \<open>\<open>operation\<close> completes after its delay.\<close>

definition await_with_deadline ::
  "(nat \<Rightarrow> rat) \<Rightarrow> ('a clocks_scheme \<Rightarrow> (py_error + 'b) \<times> 'a clocks_scheme) \<Rightarrow> rat option \<Rightarrow> string
    \<Rightarrow> 'a clocks_scheme \<Rightarrow> (py_error + 'b) \<times> 'a clocks_scheme" where
  "await_with_deadline delay operation deadline operation_name w =
     (case remaining_deadline_seconds deadline (w_mono w) operation_name of
        Inl e \<Rightarrow> (Inl e, w)
      | Inr None \<Rightarrow> operation (pass (delay (w_tick w)) (count_tick w))
      | Inr (Some remaining) \<Rightarrow>
          if remaining < delay (w_tick w)
          then (Inl (SnapshotDeadlineExceededError (''snapshot deadline exceeded while '' @ operation_name)),
                pass remaining (count_tick w))
          else
            (case operation (pass (delay (w_tick w)) (count_tick w)) of
               (Inl e, w') \<Rightarrow> (Inl e, w')
             | (Inr x, w') \<Rightarrow>
                 (case remaining_deadline_seconds deadline (w_mono w') operation_name of
                    Inl e \<Rightarrow> (Inl e, w')
                  | Inr _ \<Rightarrow> (Inr x, w'))))"

subsection \<open>Timed copies\<close>

record copy_config =
  cf_component :: string
  cf_closing :: bool
  cf_run_in_thread :: bool

text \<open>
  \<open>AsyncPayloadIsolator.run\<close>: inline the copy runs to its end, in a worker thread the caller
  stops waiting at the deadline. A free slot is there when the copy starts; the capacity of
  the workers is that of a semaphore, as in \<open>Capacity\<close>.
\<close>

definition copy_run ::
  "(nat \<Rightarrow> rat) \<Rightarrow> copy_config \<Rightarrow> (unit \<Rightarrow> py_error + 'b) \<Rightarrow> rat option \<Rightarrow> string
    \<Rightarrow> 'a clocks_scheme \<Rightarrow> (py_error + 'b) \<times> 'a clocks_scheme" where
  "copy_run delay cf operation deadline ctxt w =
     (if cf_closing cf then (Inl (PayloadCopySubsystemClosedError (cf_component cf)), w)
      else case remaining_deadline_seconds deadline (w_mono w) ctxt of
        Inl e \<Rightarrow> (Inl e, w)
      | Inr remaining \<Rightarrow>
          if cf_run_in_thread cf \<and> (case remaining of None \<Rightarrow> False | Some r \<Rightarrow> r < delay (w_tick w))
          then (Inl (SnapshotDeadlineExceededError (''snapshot deadline exceeded while '' @ ctxt)),
                pass (the remaining) (count_tick w))
          else
            let w' = pass (delay (w_tick w)) (count_tick w)
            in case operation () of
                 Inl e \<Rightarrow> (Inl e, w')
               | Inr x \<Rightarrow>
                   (case remaining_deadline_seconds deadline (w_mono w') ctxt of
                      Inl e \<Rightarrow> (Inl e, w')
                    | Inr _ \<Rightarrow> (Inr x, w')))"

fun copy_items ::
  "(nat \<Rightarrow> rat) \<Rightarrow> copy_config \<Rightarrow> ('c \<Rightarrow> py_error + 'b) \<Rightarrow> rat option \<Rightarrow> string \<Rightarrow> 'c list
    \<Rightarrow> 'a clocks_scheme \<Rightarrow> (py_error + 'b list) \<times> 'a clocks_scheme" where
  "copy_items delay cf operation deadline ctxt [] w = (Inr [], w)"
| "copy_items delay cf operation deadline ctxt (x # xs) w =
     (case copy_run delay cf (\<lambda>_. operation x) deadline ctxt w of
        (Inl e, w') \<Rightarrow> (Inl e, w')
      | (Inr y, w') \<Rightarrow>
          (case copy_items delay cf operation deadline ctxt xs w' of
             (Inl e, w'') \<Rightarrow> (Inl e, w'')
           | (Inr ys, w'') \<Rightarrow> (Inr (y # ys), w'')))"

text \<open>\<open>AsyncPayloadIsolator.map\<close>, one item after the other.\<close>

definition copy_map ::
  "(nat \<Rightarrow> rat) \<Rightarrow> copy_config \<Rightarrow> ('c \<Rightarrow> py_error + 'b) \<Rightarrow> rat option \<Rightarrow> string \<Rightarrow> 'c list
    \<Rightarrow> 'a clocks_scheme \<Rightarrow> (py_error + 'b list) \<times> 'a clocks_scheme" where
  "copy_map delay cf operation deadline ctxt items w =
     (if cf_closing cf then (Inl (PayloadCopySubsystemClosedError (cf_component cf)), w)
      else copy_items delay cf operation deadline ctxt items w)"

definition async_clone ::
  "(nat \<Rightarrow> rat) \<Rightarrow> copy_config \<Rightarrow> payload_copier \<Rightarrow> snapshot_value \<Rightarrow> string \<Rightarrow> clone_changes \<Rightarrow> rat option
    \<Rightarrow> 'a clocks_scheme \<Rightarrow> (py_error + snapshot_value) \<times> 'a clocks_scheme" where
  "async_clone delay cf copier v ctxt ch deadline w =
     copy_run delay cf (\<lambda>_. clone_snapshot_value copier v ctxt ch) deadline (''isolating '' @ ctxt) w"

subsection \<open>Lemmas\<close>

definition delays_ok :: "(nat \<Rightarrow> rat) \<Rightarrow> bool" where
  "delays_ok delay \<longleftrightarrow> (\<forall>n. 0 \<le> delay n)"

lemma remaining_Inr:
  "remaining_deadline_seconds deadline m nm = Inr r \<Longrightarrow> deadline = Some d \<Longrightarrow> m < d \<and> r = Some (d - m)"
  by (auto simp: remaining_deadline_seconds_def split: if_splits)

lemma remaining_None [simp]: "remaining_deadline_seconds None m nm = Inr None"
  by (simp add: remaining_deadline_seconds_def)

text \<open>A copy leaves everything but the clocks alone, and an in-time result comes before the deadline.\<close>

lemma copy_run_frame: "clocks.more (snd (copy_run delay cf operation deadline ctxt w)) = clocks.more w"
  by (auto simp: copy_run_def Let_def split: sum.splits option.splits)

lemma copy_items_frame: "clocks.more (snd (copy_items delay cf operation deadline ctxt xs w)) = clocks.more w"
proof (induction xs arbitrary: w)
  case (Cons x xs)
  obtain r w1 where 1: "copy_run delay cf (\<lambda>_. operation x) deadline ctxt w = (r, w1)" by fastforce
  obtain q w2 where 2: "copy_items delay cf operation deadline ctxt xs w1 = (q, w2)" by fastforce
  have "clocks.more w1 = clocks.more w" using copy_run_frame [of delay cf "\<lambda>_. operation x" deadline ctxt w] 1 by simp
  moreover have "clocks.more w2 = clocks.more w1" using Cons.IH [of w1] 2 by simp
  ultimately show ?case using 1 2 by (cases r; cases q) simp_all
qed simp

lemma copy_map_frame [simp]: "clocks.more (snd (copy_map delay cf operation deadline ctxt xs w)) = clocks.more w"
  by (simp add: copy_map_def copy_items_frame)

lemma async_clone_frame [simp]: "clocks.more (snd (async_clone delay cf copier v ctxt ch deadline w)) = clocks.more w"
  by (simp add: async_clone_def copy_run_frame)

lemma copy_run_value: "fst (copy_run delay cf operation deadline ctxt w) = Inr x \<Longrightarrow> operation () = Inr x"
  by (auto simp: copy_run_def Let_def split: sum.splits option.splits if_splits)

lemma copy_run_in_time:
  "copy_run delay cf operation (Some d) ctxt w = (Inr x, w') \<Longrightarrow> w_mono w' < d"
  by (auto simp: copy_run_def Let_def split: sum.splits option.splits if_splits dest: remaining_Inr)

lemma copy_items_values:
  "fst (copy_items delay cf operation deadline ctxt xs w) = Inr ys \<Longrightarrow> res_map operation xs = Inr ys"
proof (induction xs arbitrary: w ys)
  case (Cons x xs)
  obtain y w1 where 1: "copy_run delay cf (\<lambda>_. operation x) deadline ctxt w = (Inr y, w1)"
    using Cons.prems by (auto split: prod.splits sum.splits)
  obtain zs w2 where 2: "copy_items delay cf operation deadline ctxt xs w1 = (Inr zs, w2)" "ys = y # zs"
    using Cons.prems 1 by (auto split: prod.splits sum.splits)
  have "operation x = Inr y" using copy_run_value [of delay cf "\<lambda>_. operation x" deadline ctxt w y] 1 by simp
  moreover have "res_map operation xs = Inr zs" using Cons.IH [of w1 zs] 2 by simp
  ultimately show ?case using 2 by simp
qed simp

lemma copy_map_values:
  "fst (copy_map delay cf operation deadline ctxt xs w) = Inr ys \<Longrightarrow> res_map operation xs = Inr ys"
  by (auto simp: copy_map_def split: if_splits dest: copy_items_values)

text \<open>Without a deadline, copies that succeed succeed here.\<close>

lemma copy_run_undeadlined:
  "\<not> cf_closing cf \<Longrightarrow> fst (copy_run delay cf operation None ctxt w) = operation ()"
  by (auto simp: copy_run_def Let_def split: sum.splits)

lemma copy_items_undeadlined:
  "\<not> cf_closing cf \<Longrightarrow> fst (copy_items delay cf operation None ctxt xs w) = res_map operation xs"
proof (induction xs arbitrary: w)
  case (Cons x xs)
  have run: "fst (copy_run delay cf (\<lambda>_. operation x) None ctxt w) = operation x"
    by (simp add: copy_run_undeadlined [OF Cons.prems])
  show ?case
  proof (cases "operation x")
    case (Inr y)
    with run obtain w1 where w1: "copy_run delay cf (\<lambda>_. operation x) None ctxt w = (Inr y, w1)"
      by (cases "copy_run delay cf (\<lambda>_. operation x) None ctxt w") simp
    show ?thesis using Cons.IH [OF Cons.prems, of w1] Inr w1
      by (cases "res_map operation xs") (auto split: prod.splits sum.splits)
  qed (use run in \<open>auto split: prod.splits sum.splits\<close>)
qed simp

lemma copy_map_undeadlined:
  "\<not> cf_closing cf \<Longrightarrow> fst (copy_map delay cf operation None ctxt xs w) = res_map operation xs"
  by (simp add: copy_map_def copy_items_undeadlined)

text \<open>Time only moves forward when no operation takes a negative time.\<close>

lemma copy_run_forward:
  assumes "delays_ok delay"
  shows "w_mono w \<le> w_mono (snd (copy_run delay cf operation deadline ctxt w))"
proof -
  have "0 \<le> delay (w_tick w)" using assms by (simp add: delays_ok_def)
  moreover have "0 \<le> r" if "remaining_deadline_seconds deadline (w_mono w) ctxt = Inr (Some r)" for r
    using that by (cases deadline) (auto simp: remaining_deadline_seconds_def split: if_splits)
  ultimately show ?thesis by (auto simp: copy_run_def Let_def split: sum.splits option.splits)
qed

lemma copy_items_forward:
  assumes "delays_ok delay"
  shows "w_mono w \<le> w_mono (snd (copy_items delay cf operation deadline ctxt xs w))"
proof (induction xs arbitrary: w)
  case (Cons x xs)
  obtain r w1 where 1: "copy_run delay cf (\<lambda>_. operation x) deadline ctxt w = (r, w1)" by fastforce
  obtain q w2 where 2: "copy_items delay cf operation deadline ctxt xs w1 = (q, w2)" by fastforce
  have "w_mono w \<le> w_mono w1" using copy_run_forward [OF assms, of w cf "\<lambda>_. operation x" deadline ctxt] 1 by simp
  moreover have "w_mono w1 \<le> w_mono w2" using Cons.IH [of w1] 2 by simp
  ultimately show ?case using 1 2 by (cases r; cases q) simp_all
qed simp

lemma copy_map_forward: "delays_ok delay \<Longrightarrow> w_mono w \<le> w_mono (snd (copy_map delay cf operation deadline ctxt xs w))"
  by (simp add: copy_map_def copy_items_forward)

lemma async_clone_forward: "delays_ok delay \<Longrightarrow> w_mono w \<le> w_mono (snd (async_clone delay cf copier v ctxt ch deadline w))"
  by (simp add: async_clone_def copy_run_forward)

end
