(* ===== verification/Source_Timeout.thy ===== *)
theory Source_Timeout
  imports Policies
begin

section \<open>Source declarations and their timeout guarantees (core/protocols.py, core/source_timeout.py)\<close>

text \<open>
  What the library reads of a source object: its attributes, as the values they have, and
  which methods it defines. An attribute that is absent is \<open>None\<close>. The methods themselves are
  application code and appear as parameters where they are called.
\<close>

datatype declared_resilience = NotDeclared | Declared resilience_policy | WrongType

record source =
  so_name :: string
  so_priority :: int
  so_timeout_seconds :: pyval
  so_queue_timeout_seconds :: "pyval option"
  so_max_concurrency :: "int option"
  so_max_batch_size :: "int option"
  so_resilience_policy :: declared_resilience
  so_blocking_io :: "pyval option"
  so_blocking_io_offloaded :: "pyval option"
  so_transport_timeout_seconds :: "pyval option"
  so_cache_supports :: bool
  so_has_supports :: bool
  so_has_fetch :: bool
  so_has_fetch_many :: bool
  so_has_derive :: bool

datatype guarantee_status =
    UNDECLARED | NON_BLOCKING | PROTECTED | UNSAFE_NOT_OFFLOADED | UNSAFE_TIMEOUT_MISSING
  | UNSAFE_TIMEOUT_NOT_WITHIN_SOURCE

fun guarantee_status_value :: "guarantee_status \<Rightarrow> string" where
  "guarantee_status_value UNDECLARED = ''undeclared''"
| "guarantee_status_value NON_BLOCKING = ''non_blocking''"
| "guarantee_status_value PROTECTED = ''protected''"
| "guarantee_status_value UNSAFE_NOT_OFFLOADED = ''unsafe_not_offloaded''"
| "guarantee_status_value UNSAFE_TIMEOUT_MISSING = ''unsafe_timeout_missing''"
| "guarantee_status_value UNSAFE_TIMEOUT_NOT_WITHIN_SOURCE = ''unsafe_timeout_not_within_source''"

record timeout_guarantee =
  tg_source :: string
  tg_status :: guarantee_status
  tg_declaration_present :: bool
  tg_blocking_io :: bool
  tg_blocking_io_offloaded :: bool
  tg_transport_timeout_seconds :: "rat option"
  tg_source_timeout_seconds :: "rat option"

definition tg_safe :: "timeout_guarantee \<Rightarrow> bool" where
  "tg_safe g \<longleftrightarrow> tg_status g \<in> {NON_BLOCKING, PROTECTED}"

definition tg_protected :: "timeout_guarantee \<Rightarrow> bool" where
  "tg_protected g \<longleftrightarrow> tg_status g = PROTECTED"

definition optional_positive_seconds :: "pyval \<Rightarrow> string \<Rightarrow> arg_error + rat option" where
  "optional_positive_seconds v field_name =
     (if v = PyNone then Inr None
      else res_bind (require (as_number v) (TypeError (field_name @ '' must be a number or None''))) (\<lambda>n.
           res_bind (to_double n) (\<lambda>f.
             case f of
               Fin t \<Rightarrow> if t \<le> 0 then Inl (ValueError (field_name @ '' must be finite and positive'')) else Inr (Some t)
             | _ \<Rightarrow> Inl (ValueError (field_name @ '' must be finite and positive'')))))"

definition attr_or :: "pyval \<Rightarrow> pyval option \<Rightarrow> pyval" where
  "attr_or dflt a = (case a of None \<Rightarrow> dflt | Some v \<Rightarrow> v)"

text \<open>The classification of a declared blocking source.\<close>

definition blocking_status :: "bool \<Rightarrow> rat option \<Rightarrow> rat option \<Rightarrow> guarantee_status" where
  "blocking_status offloaded transport source_timeout =
     (if \<not> offloaded then UNSAFE_NOT_OFFLOADED
      else case transport of
        None \<Rightarrow> UNSAFE_TIMEOUT_MISSING
      | Some t \<Rightarrow>
          (case source_timeout of
             Some s \<Rightarrow> if s \<le> t then UNSAFE_TIMEOUT_NOT_WITHIN_SOURCE else PROTECTED
           | None \<Rightarrow> PROTECTED))"

definition inspect_source_timeout_guarantee :: "source \<Rightarrow> arg_error + timeout_guarantee" where
  "inspect_source_timeout_guarantee s =
     (let nm = so_name s; label = (\<lambda>f. ''source '' @ nm @ '' '' @ f)
      in res_bind (optional_positive_seconds (so_timeout_seconds s) (label ''timeout_seconds'')) (\<lambda>source_timeout.
         case so_blocking_io s of
           None \<Rightarrow> Inr \<lparr>tg_source = nm, tg_status = UNDECLARED, tg_declaration_present = False,
                         tg_blocking_io = False, tg_blocking_io_offloaded = False,
                         tg_transport_timeout_seconds = None, tg_source_timeout_seconds = source_timeout\<rparr>
         | Some b \<Rightarrow>
             res_bind (require (as_bool b) (TypeError (label ''blocking_io must be a boolean''))) (\<lambda>blocking.
             res_bind (require (as_bool (attr_or (PyBool False) (so_blocking_io_offloaded s)))
                         (TypeError (label ''blocking_io_offloaded must be a boolean''))) (\<lambda>offloaded.
             res_bind (optional_positive_seconds (attr_or PyNone (so_transport_timeout_seconds s))
                         (label ''transport_timeout_seconds'')) (\<lambda>transport.
               if \<not> blocking
               then if transport \<noteq> None
                    then Inl (ValueError (label ''transport_timeout_seconds requires blocking_io=True''))
                    else Inr \<lparr>tg_source = nm, tg_status = NON_BLOCKING, tg_declaration_present = True,
                              tg_blocking_io = False, tg_blocking_io_offloaded = offloaded,
                              tg_transport_timeout_seconds = None, tg_source_timeout_seconds = source_timeout\<rparr>
               else Inr \<lparr>tg_source = nm, tg_status = blocking_status offloaded transport source_timeout,
                         tg_declaration_present = True, tg_blocking_io = True,
                         tg_blocking_io_offloaded = offloaded, tg_transport_timeout_seconds = transport,
                         tg_source_timeout_seconds = source_timeout\<rparr>)))))"

subsection \<open>Lemmas\<close>

lemma optional_positive_Inr:
  "optional_positive_seconds v nm = Inr (Some t) \<Longrightarrow> 0 < t"
proof -
  assume "optional_positive_seconds v nm = Inr (Some t)"
  then obtain f where "(case f of
       Fin t \<Rightarrow> if t \<le> 0 then Inl (ValueError (nm @ '' must be finite and positive'')) else Inr (Some t)
     | _ \<Rightarrow> Inl (ValueError (nm @ '' must be finite and positive''))) = Inr (Some t)"
    by (auto simp: optional_positive_seconds_def res_iff split: if_splits)
  then show ?thesis by (cases f) (auto split: if_splits)
qed

lemma inspect_cases:
  assumes "inspect_source_timeout_guarantee s = Inr g"
  obtains (undeclared) st nm where "optional_positive_seconds (so_timeout_seconds s) nm = Inr st"
      "g = \<lparr>tg_source = so_name s, tg_status = UNDECLARED, tg_declaration_present = False, tg_blocking_io = False,
            tg_blocking_io_offloaded = False, tg_transport_timeout_seconds = None, tg_source_timeout_seconds = st\<rparr>"
    | (non_blocking) st offloaded nm where "optional_positive_seconds (so_timeout_seconds s) nm = Inr st"
      "g = \<lparr>tg_source = so_name s, tg_status = NON_BLOCKING, tg_declaration_present = True, tg_blocking_io = False,
            tg_blocking_io_offloaded = offloaded, tg_transport_timeout_seconds = None, tg_source_timeout_seconds = st\<rparr>"
    | (blocking) st offloaded transport nm nm' v where "optional_positive_seconds (so_timeout_seconds s) nm = Inr st"
      "optional_positive_seconds v nm' = Inr transport"
      "g = \<lparr>tg_source = so_name s, tg_status = blocking_status offloaded transport st, tg_declaration_present = True,
            tg_blocking_io = True, tg_blocking_io_offloaded = offloaded, tg_transport_timeout_seconds = transport,
            tg_source_timeout_seconds = st\<rparr>"
proof -
  from assms obtain st where st: "optional_positive_seconds (so_timeout_seconds s) (''source '' @ so_name s @ '' '' @ ''timeout_seconds'') = Inr st"
    by (auto simp: inspect_source_timeout_guarantee_def Let_def res_iff)
  show thesis
  proof (cases "so_blocking_io s")
    case None
    with assms st show thesis
      by (intro undeclared [OF st]) (simp add: inspect_source_timeout_guarantee_def Let_def)
  next
    case (Some b)
    with assms st obtain blocking offloaded transport where p: "as_bool b = Some blocking"
      "as_bool (attr_or (PyBool False) (so_blocking_io_offloaded s)) = Some offloaded"
      "optional_positive_seconds (attr_or PyNone (so_transport_timeout_seconds s))
         (''source '' @ so_name s @ '' '' @ ''transport_timeout_seconds'') = Inr transport"
      by (auto simp: inspect_source_timeout_guarantee_def Let_def res_iff)
    show thesis
    proof (cases blocking)
      case True
      with assms st Some p show thesis
        by (intro blocking [OF st p(3), of offloaded]) (simp add: inspect_source_timeout_guarantee_def Let_def)
    next
      case False
      with assms st Some p show thesis
        by (intro non_blocking [OF st, of offloaded]) (simp add: inspect_source_timeout_guarantee_def Let_def split: if_splits)
    qed
  qed
qed

text \<open>What a guarantee promises about its fields.\<close>

definition guarantee_ok :: "timeout_guarantee \<Rightarrow> bool" where
  "guarantee_ok g \<longleftrightarrow>
     (tg_status g = PROTECTED \<longleftrightarrow> tg_blocking_io g \<and> tg_blocking_io_offloaded g
        \<and> (\<exists>t. tg_transport_timeout_seconds g = Some t
               \<and> (\<forall>s. tg_source_timeout_seconds g = Some s \<longrightarrow> t < s)))
     \<and> (tg_safe g \<longrightarrow> tg_declaration_present g \<and> (tg_blocking_io g \<longrightarrow> tg_protected g))
     \<and> (\<forall>t. tg_transport_timeout_seconds g = Some t \<longrightarrow> 0 < t \<and> tg_blocking_io g)
     \<and> (\<forall>t. tg_source_timeout_seconds g = Some t \<longrightarrow> 0 < t)"

lemma blocking_status_protected:
  "blocking_status offloaded transport st = PROTECTED \<longleftrightarrow>
     offloaded \<and> (\<exists>t. transport = Some t \<and> (\<forall>s. st = Some s \<longrightarrow> t < s))"
  by (auto simp: blocking_status_def split: option.splits)

lemma blocking_status_not_safe: "blocking_status offloaded transport st \<noteq> NON_BLOCKING"
  by (auto simp: blocking_status_def split: option.splits)

text \<open>
  a source counts as protected exactly when its blocking calls are offloaded and its
  declared transport timeout is shorter than its timeout, if it has one; every timeout kept
  is positive, and a source that counts as safe and blocks is protected.
\<close>

lemma timeout_guarantee_sound:
  assumes "inspect_source_timeout_guarantee s = Inr g"
  shows "guarantee_ok g \<and> tg_source g = so_name s"
  using assms
  by (cases rule: inspect_cases)
    (auto simp: guarantee_ok_def tg_safe_def tg_protected_def blocking_status_protected blocking_status_not_safe
      dest: optional_positive_Inr)

definition fixture_source :: "string \<Rightarrow> source" where
  "fixture_source nm = \<lparr>so_name = nm, so_priority = 1, so_timeout_seconds = PyInt 5, so_queue_timeout_seconds = None,
     so_max_concurrency = None, so_max_batch_size = None, so_resilience_policy = NotDeclared,
     so_blocking_io = Some (PyBool True), so_blocking_io_offloaded = Some (PyBool True),
     so_transport_timeout_seconds = Some (PyInt 2), so_cache_supports = True, so_has_supports = True,
     so_has_fetch = True, so_has_fetch_many = False, so_has_derive = False\<rparr>"

definition fixture_guarantee :: "string \<Rightarrow> timeout_guarantee" where
  "fixture_guarantee nm = \<lparr>tg_source = nm, tg_status = PROTECTED, tg_declaration_present = True,
     tg_blocking_io = True, tg_blocking_io_offloaded = True, tg_transport_timeout_seconds = Some 2,
     tg_source_timeout_seconds = Some 5\<rparr>"

lemma fixture_guarantee_made: "inspect_source_timeout_guarantee (fixture_source nm) = Inr (fixture_guarantee nm)"
  by (simp add: inspect_source_timeout_guarantee_def fixture_source_def fixture_guarantee_def Let_def
      optional_positive_seconds_def attr_or_def blocking_status_def double_overflow_def)

lemma timeout_guarantee_sound_witness:
  "inspect_source_timeout_guarantee (fixture_source ''feed'') = Inr (fixture_guarantee ''feed'')
   \<and> guarantee_ok (fixture_guarantee ''feed'') \<and> tg_status (fixture_guarantee ''feed'') = PROTECTED"
  using timeout_guarantee_sound [OF fixture_guarantee_made [of "''feed''"]] fixture_guarantee_made
  by (simp add: fixture_guarantee_def)

end
