(* ===== verification/Source_Catalog.thy ===== *)
theory Source_Catalog
  imports Source_Timeout Circuit_Breaker
begin

section \<open>The source catalog and the runtime of a resolution (orchestration/source_catalog.py, orchestration/runtime.py)\<close>

subsection \<open>Catalog\<close>

text \<open>
  The catalog validates, orders and classifies the sources. The memo of support decisions
  changes with every query and is therefore passed apart from the fixed part.
\<close>

record source_catalog =
  sg_sources :: "source list"
  sg_kinds :: "(string, source_kind) odict"
  sg_guarantees :: "(string, timeout_guarantee) odict"
  sg_resilience_resolver :: resilience_resolver
  sg_cache_supports :: bool
  sg_support_cache_max_entries :: "int option"

type_synonym support_cache = "(string \<times> resource_key, bool) odict"

definition kind_of_source :: "source \<Rightarrow> source_kind" where
  "kind_of_source s = (if so_has_derive s then DerivedKind else if so_has_fetch_many s then BatchKind else SingleKind)"

definition queue_timeout_attr :: "source \<Rightarrow> pyval" where
  "queue_timeout_attr s = attr_or PyNone (so_queue_timeout_seconds s)"

definition validate_source :: "source \<Rightarrow> arg_error + unit" where
  "validate_source s =
     (let label = (\<lambda>f. ''source '' @ so_name s @ '' '' @ f)
      in res_bind (raise_if (strip (so_name s) = '''') (ValueError ''source name cannot be empty'')) (\<lambda>_.
         res_bind (raise_if (\<not> so_has_supports s) (TypeError (label ''must define supports()''))) (\<lambda>_.
         res_bind (optional_positive_seconds (so_timeout_seconds s) (label ''timeout_seconds'')) (\<lambda>_.
         res_bind (optional_positive_seconds (queue_timeout_attr s) (label ''queue_timeout_seconds'')) (\<lambda>_.
         res_bind (raise_if (case so_max_concurrency s of None \<Rightarrow> False | Some n \<Rightarrow> n < 1)
                     (ValueError (label ''max_concurrency must be at least 1''))) (\<lambda>_.
         res_bind (raise_if (case so_max_batch_size s of None \<Rightarrow> False | Some n \<Rightarrow> n < 1)
                     (ValueError (label ''max_batch_size must be at least 1''))) (\<lambda>_.
         res_bind (raise_if (so_resilience_policy s = WrongType)
                     (TypeError (label ''resilience_policy must be SourceResiliencePolicy or None''))) (\<lambda>_.
           raise_if (kind_of_source s = SingleKind \<and> \<not> so_has_fetch s)
             (TypeError (label ''must define fetch(), fetch_many(), or dependencies()+derive()''))))))))))"

text \<open>The checks of one source: its guarantee, or why it is refused.\<close>

definition check_source :: "bool \<Rightarrow> bool \<Rightarrow> source \<Rightarrow> arg_error + (string \<times> timeout_guarantee)" where
  "check_source require_declarations allow_unsafe s =
     res_bind (validate_source s) (\<lambda>_.
     res_bind (inspect_source_timeout_guarantee s) (\<lambda>g.
     res_bind (raise_if (require_declarations \<and> \<not> tg_declaration_present g)
                 (ValueError (''source '' @ so_name s
                    @ '' must explicitly declare blocking_io, blocking_io_offloaded, and transport_timeout_seconds''))) (\<lambda>_.
     res_bind (raise_if (tg_blocking_io g \<and> tg_status g \<noteq> PROTECTED \<and> \<not> allow_unsafe)
                 (ValueError (''source '' @ so_name s @ '' has unsafe blocking I/O timeout configuration: ''
                    @ guarantee_status_value (tg_status g)))) (\<lambda>_.
       Inr (so_name s, g)))))"

definition mk_source_catalog ::
  "source list \<Rightarrow> resilience_resolver \<Rightarrow> bool \<Rightarrow> int option \<Rightarrow> pyval \<Rightarrow> pyval \<Rightarrow> arg_error + source_catalog" where
  "mk_source_catalog sources resolver cache_supports cache_max require_declarations allow_unsafe =
     res_bind (raise_if (sources = []) (ValueError ''at least one source is required'')) (\<lambda>_.
     res_bind (raise_if (case cache_max of None \<Rightarrow> False | Some n \<Rightarrow> n < 1)
                 (ValueError ''source_support_cache_max_entries must be at least 1 or None'')) (\<lambda>_.
     res_bind (require (as_bool require_declarations) (TypeError ''require_timeout_declarations must be a boolean'')) (\<lambda>rd.
     res_bind (require (as_bool allow_unsafe) (TypeError ''allow_unsafe_blocking_sources must be a boolean'')) (\<lambda>au.
     res_bind (raise_if (\<not> distinct (map so_name sources)) (ValueError ''source names must be unique'')) (\<lambda>_.
     res_bind (res_map (check_source rd au) sources) (\<lambda>guarantees.
       let ordered = sort_key (\<lambda>s. - so_priority s) sources
       in Inr \<lparr>sg_sources = ordered, sg_kinds = map (\<lambda>s. (so_name s, kind_of_source s)) ordered,
               sg_guarantees = map (\<lambda>s. (so_name s, the (map_of guarantees (so_name s)))) ordered,
               sg_resilience_resolver = resolver, sg_cache_supports = cache_supports,
               sg_support_cache_max_entries = cache_max\<rparr>))))))"

definition catalog_kind :: "source_catalog \<Rightarrow> source \<Rightarrow> source_kind" where
  "catalog_kind cat s = the (map_of (sg_kinds cat) (so_name s))"

definition catalog_guarantee :: "source_catalog \<Rightarrow> source \<Rightarrow> timeout_guarantee" where
  "catalog_guarantee cat s = the (map_of (sg_guarantees cat) (so_name s))"

definition clear_support_cache :: "support_cache \<Rightarrow> support_cache" where
  "clear_support_cache sc = []"

definition trim_support_cache :: "int option \<Rightarrow> support_cache \<Rightarrow> support_cache" where
  "trim_support_cache limit sc = (case limit of None \<Rightarrow> sc | Some m \<Rightarrow> drop (length sc - nat m) sc)"

text \<open>\<open>answer\<close> is what \<open>source.supports(key)\<close> returns or raises when it is called.\<close>

definition supports ::
  "source_catalog \<Rightarrow> source \<Rightarrow> resource_key \<Rightarrow> py_error + bool \<Rightarrow> support_cache \<Rightarrow> diagnostics_collector
    \<Rightarrow> (py_error + bool) \<times> support_cache \<times> diagnostics_collector" where
  "supports cat s k answer sc d =
     (let cacheable = sg_cache_supports cat \<and> so_cache_supports s; ck = (so_name s, k)
      in case (if cacheable then map_of sc ck else None) of
           Some b \<Rightarrow> (Inr b, od_move_to_end ck sc, d\<lparr>dc_support_cache_hits := dc_support_cache_hits d + 1\<rparr>)
         | None \<Rightarrow>
             (let d' = d\<lparr>dc_support_cache_misses := dc_support_cache_misses d + 1\<rparr>
              in case answer of
                   Inl e \<Rightarrow> (Inl e, sc, d')
                 | Inr b \<Rightarrow>
                     (Inr b, if cacheable
                             then trim_support_cache (sg_support_cache_max_entries cat) (od_move_to_end ck (od_set ck b sc))
                             else sc, d')))"

definition resilience_for :: "source_catalog \<Rightarrow> source \<Rightarrow> py_error + resilience_policy" where
  "resilience_for cat s =
     (case so_resilience_policy s of
        WrongType \<Rightarrow> Inl (ArgError (TypeError (''source '' @ so_name s
                       @ '' resilience_policy must be SourceResiliencePolicy or None'')))
      | NotDeclared \<Rightarrow> resilience_resolve (sg_resilience_resolver cat) (so_name s) None
      | Declared p \<Rightarrow> resilience_resolve (sg_resilience_resolver cat) (so_name s) (Some p))"

definition group_append :: "'i \<Rightarrow> 'a \<Rightarrow> ('i, 'a list) odict \<Rightarrow> ('i, 'a list) odict" where
  "group_append i x g = (case map_of g i of None \<Rightarrow> od_set i [x] g | Some xs \<Rightarrow> od_set i (xs @ [x]) g)"

fun group_by_identity ::
  "(resource_key \<Rightarrow> arg_error + 'i) \<Rightarrow> resource_key list \<Rightarrow> ('i, resource_key list) odict
    \<Rightarrow> arg_error + ('i, resource_key list) odict" where
  "group_by_identity f [] g = Inr g"
| "group_by_identity f (k # ks) g = res_bind (f k) (\<lambda>i. group_by_identity f ks (group_append i k g))"

definition circuit_groups ::
  "circuit_breaker \<Rightarrow> source \<Rightarrow> resource_key list \<Rightarrow> resilience_policy \<Rightarrow> arg_error + (resource_key \<times> resource_key list) list" where
  "circuit_groups b s keys r =
     res_bind (group_by_identity (\<lambda>k. identity_for b (so_name s) (Some k) (Some (cbp_scope (rs_circuit r)))) keys [])
       (\<lambda>g. Inr (map (\<lambda>p. (hd (snd p), snd p)) g))"

subsection \<open>Runtime\<close>

definition mk_resolution_result :: "snapshot_value option \<Rightarrow> py_error option \<Rightarrow> arg_error + (py_error + snapshot_value)" where
  "mk_resolution_result v e =
     (case (v, e) of
        (Some x, None) \<Rightarrow> Inr (Inr x)
      | (None, Some y) \<Rightarrow> Inr (Inl y)
      | _ \<Rightarrow> Inl (ValueError ''resolution result must contain exactly one of value or error''))"

text \<open>A result holds exactly one of value and error, which is what a sum says.\<close>

type_synonym resolution_result = "py_error + snapshot_value"

record source_attempt =
  sa_outcome :: "py_error + source_payload"
  sa_attempts :: int
  sa_latency_ms :: rat
  sa_dependency_versions :: "(resource_key, string) odict"

definition mk_source_attempt ::
  "source_payload option \<Rightarrow> py_error option \<Rightarrow> int \<Rightarrow> rat \<Rightarrow> (resource_key \<times> string) list \<Rightarrow> arg_error + source_attempt" where
  "mk_source_attempt p e attempts latency deps =
     (case (p, e) of
        (Some x, None) \<Rightarrow> Inr \<lparr>sa_outcome = Inr x, sa_attempts = attempts, sa_latency_ms = latency,
                              sa_dependency_versions = od_of deps\<rparr>
      | (None, Some y) \<Rightarrow>
          if deps \<noteq> [] then Inl (ValueError ''failed source attempts cannot contain dependency versions'')
          else Inr \<lparr>sa_outcome = Inl y, sa_attempts = attempts, sa_latency_ms = latency, sa_dependency_versions = []\<rparr>
      | _ \<Rightarrow> Inl (ValueError ''source attempt must contain exactly one of payload or error''))"

record resolution_runtime =
  rt_memo :: "(resource_key, snapshot_value) odict"
  rt_cache_stale_results :: bool
  rt_force_refresh_keys :: "resource_key set"
  rt_excluded_sources :: "(resource_key, string set) odict"
  rt_cache_source_results :: bool

definition new_runtime :: resolution_runtime where
  "new_runtime = \<lparr>rt_memo = [], rt_cache_stale_results = True, rt_force_refresh_keys = {},
     rt_excluded_sources = [], rt_cache_source_results = True\<rparr>"

definition requires_refresh :: "resolution_runtime \<Rightarrow> resource_key \<Rightarrow> bool" where
  "requires_refresh rt k \<longleftrightarrow> k \<in> rt_force_refresh_keys rt"

definition mark_refreshed :: "resource_key \<Rightarrow> resolution_runtime \<Rightarrow> resolution_runtime" where
  "mark_refreshed k rt = rt\<lparr>rt_force_refresh_keys := rt_force_refresh_keys rt - {k}\<rparr>"

definition exclude_source :: "resource_key \<Rightarrow> string \<Rightarrow> resolution_runtime \<Rightarrow> arg_error + resolution_runtime" where
  "exclude_source k src rt =
     (let nm = strip src
      in if nm = '''' then Inl (ValueError ''excluded source name cannot be empty'')
         else let old = (case map_of (rt_excluded_sources rt) k of None \<Rightarrow> {} | Some ss \<Rightarrow> ss)
              in Inr (rt\<lparr>rt_excluded_sources := od_set k (insert nm old) (rt_excluded_sources rt)\<rparr>))"

definition source_is_excluded :: "resolution_runtime \<Rightarrow> resource_key \<Rightarrow> string \<Rightarrow> bool" where
  "source_is_excluded rt k src \<longleftrightarrow>
     (case map_of (rt_excluded_sources rt) k of None \<Rightarrow> False | Some ss \<Rightarrow> src \<in> ss)"

definition copied_exclusions :: "resolution_runtime \<Rightarrow> (resource_key, string set) odict" where
  "copied_exclusions rt = rt_excluded_sources rt"

definition memoize :: "resource_key \<Rightarrow> snapshot_value \<Rightarrow> resolution_runtime \<Rightarrow> resolution_runtime" where
  "memoize k v rt = rt\<lparr>rt_memo := od_set k v (rt_memo rt)\<rparr>"

subsection \<open>Lemmas\<close>

text \<open>A memo that agrees with what the sources answer, within its limit.\<close>

definition support_cache_ok :: "source_catalog \<Rightarrow> (string \<Rightarrow> resource_key \<Rightarrow> bool) \<Rightarrow> support_cache \<Rightarrow> bool" where
  "support_cache_ok cat ans sc \<longleftrightarrow> od_ok sc \<and> (\<forall>src k b. map_of sc (src, k) = Some b \<longrightarrow> b = ans src k)
     \<and> (\<forall>m. sg_support_cache_max_entries cat = Some m \<longrightarrow> int (length sc) \<le> m)"

lemma map_of_drop: "od_ok d \<Longrightarrow> map_of (drop n d) k = Some v \<Longrightarrow> map_of d k = Some v"
  by (meson in_set_dropD map_of_SomeD map_of_is_SomeI)

lemma od_ok_drop: "od_ok d \<Longrightarrow> od_ok (drop n d)"
  by (simp add: drop_map [symmetric] distinct_drop)

lemma trim_support_cache_ok:
  assumes "od_ok sc" "\<And>src k b. map_of sc (src, k) = Some b \<Longrightarrow> b = ans src k"
    and "\<And>m. sg_support_cache_max_entries cat = Some m \<Longrightarrow> 0 \<le> m"
  shows "support_cache_ok cat ans (trim_support_cache (sg_support_cache_max_entries cat) sc)"
proof (cases "sg_support_cache_max_entries cat")
  case (Some m)
  have "int (length (drop (length sc - nat m) sc)) \<le> m" using assms(3) [OF Some] by simp
  then show ?thesis using assms(1,2) Some map_of_drop [OF assms(1)] od_ok_drop [OF assms(1)]
    by (auto simp: support_cache_ok_def trim_support_cache_def)
qed (use assms in \<open>simp add: support_cache_ok_def trim_support_cache_def\<close>)

lemma supports_memo:
  assumes ok: "support_cache_ok cat ans sc" and limit: "\<And>m. sg_support_cache_max_entries cat = Some m \<Longrightarrow> 0 \<le> m"
    and res: "supports cat s k (Inr (ans (so_name s) k)) sc d = (r, sc', d')"
  shows "r = Inr (ans (so_name s) k) \<and> support_cache_ok cat ans sc'"
proof (cases "sg_cache_supports cat \<and> so_cache_supports s")
  case False
  then show ?thesis using res ok unfolding supports_def by (simp add: Let_def split: if_splits)
next
  case True
  let ?ck = "(so_name s, k)"
  have d: "od_ok sc" "\<And>src k b. map_of sc (src, k) = Some b \<Longrightarrow> b = ans src k"
    "\<And>m. sg_support_cache_max_entries cat = Some m \<Longrightarrow> int (length sc) \<le> m"
    using ok by (auto simp: support_cache_ok_def)
  show ?thesis
  proof (cases "map_of sc ?ck")
    case None
    have "support_cache_ok cat ans (trim_support_cache (sg_support_cache_max_entries cat)
        (od_move_to_end ?ck (od_set ?ck (ans (so_name s) k) sc)))"
      by (rule trim_support_cache_ok [OF _ _ limit])
        (use d in \<open>auto simp: od_ok_od_move_to_end split: if_splits\<close>)
    with None True res show ?thesis by (auto simp: supports_def Let_def)
  next
    case (Some b)
    have "support_cache_ok cat ans (od_move_to_end ?ck sc)"
      using d by (auto simp: support_cache_ok_def od_ok_od_move_to_end length_od_move_to_end)
    with Some True res d(2) [OF Some] show ?thesis by (auto simp: supports_def Let_def)
  qed
qed

text \<open>Grouping: every key lands, in order, in the group of its identity.\<close>

definition grouped_ok :: "(resource_key \<Rightarrow> arg_error + 'i) \<Rightarrow> resource_key list \<Rightarrow> ('i, resource_key list) odict \<Rightarrow> bool" where
  "grouped_ok f ks g \<longleftrightarrow> od_ok g
     \<and> (\<forall>i xs. map_of g i = Some xs \<longrightarrow> xs \<noteq> [] \<and> xs = filter (\<lambda>k. f k = Inr i) ks)
     \<and> (\<forall>k \<in> set ks. \<exists>i. f k = Inr i \<and> map_of g i \<noteq> None)"

lemma group_append_at:
  "map_of (group_append i k g) j =
     (if j = i then Some ((case map_of g i of None \<Rightarrow> [] | Some xs \<Rightarrow> xs) @ [k]) else map_of g j)"
  by (auto simp: group_append_def split: option.splits)

lemma group_append_keys_ok: "od_ok g \<Longrightarrow> od_ok (group_append i k g)"
  by (auto simp: group_append_def split: option.splits)

lemma group_append_ok:
  assumes ok: "grouped_ok f ks g" and i: "f k = Inr i"
  shows "grouped_ok f (ks @ [k]) (group_append i k g)"
proof -
  from ok have d: "od_ok g" "\<And>i xs. map_of g i = Some xs \<Longrightarrow> xs \<noteq> [] \<and> xs = filter (\<lambda>k. f k = Inr i) ks"
    "\<And>k. k \<in> set ks \<Longrightarrow> \<exists>i. f k = Inr i \<and> map_of g i \<noteq> None"
    unfolding grouped_ok_def by blast+
  have "filter (\<lambda>k. f k = Inr i) ks = []" if "map_of g i = None"
    using d(3) that by (fastforce simp: filter_empty_conv)
  then have "xs \<noteq> [] \<and> xs = filter (\<lambda>k. f k = Inr j) (ks @ [k])" if "map_of (group_append i k g) j = Some xs" for j xs
    using that d(2) [of j xs] d(2) [of i] i by (auto simp: group_append_at split: if_splits option.splits)
  moreover have "\<exists>j. f l = Inr j \<and> map_of (group_append i k g) j \<noteq> None" if "l \<in> set (ks @ [k])" for l
  proof (cases "l \<in> set ks")
    case True
    from d(3) [OF this] obtain j where "f l = Inr j" "map_of g j \<noteq> None" by blast
    then show ?thesis by (intro exI [of _ j]) (simp add: group_append_at)
  next
    case False
    with that i show ?thesis by (intro exI [of _ i]) (simp add: group_append_at)
  qed
  ultimately show ?thesis using group_append_keys_ok [OF d(1)] unfolding grouped_ok_def by blast
qed

lemma group_by_identity_ok:
  "grouped_ok f ks g \<Longrightarrow> group_by_identity f ls g = Inr g' \<Longrightarrow> grouped_ok f (ks @ ls) g'"
proof (induction ls arbitrary: ks g)
  case (Cons l ls)
  from Cons.prems(2) obtain i where i: "f l = Inr i" "group_by_identity f ls (group_append i l g) = Inr g'"
    by (auto simp: res_iff)
  from Cons.IH [OF group_append_ok [OF Cons.prems(1) i(1)] i(2)] show ?case by simp
qed simp

lemma circuit_groups_ok:
  assumes "circuit_groups b s keys r = Inr groups"
  shows "\<exists>g. grouped_ok (\<lambda>k. identity_for b (so_name s) (Some k) (Some (cbp_scope (rs_circuit r)))) keys g
    \<and> groups = map (\<lambda>p. (hd (snd p), snd p)) g"
proof -
  let ?f = "\<lambda>k. identity_for b (so_name s) (Some k) (Some (cbp_scope (rs_circuit r)))"
  from assms obtain g where g: "group_by_identity ?f keys [] = Inr g" "groups = map (\<lambda>p. (hd (snd p), snd p)) g"
    by (auto simp: circuit_groups_def res_iff)
  have "grouped_ok ?f [] ([] :: (circuit_identity, resource_key list) odict)" by (simp add: grouped_ok_def)
  from group_by_identity_ok [OF this g(1)] g(2) show ?thesis by auto
qed

lemma map_of_by_name:
  "inj_on so_name (set xs) \<Longrightarrow> s \<in> set xs \<Longrightarrow> map_of (map (\<lambda>s. (so_name s, f s)) xs) (so_name s) = Some (f s)"
  by (induction xs) (auto simp: inj_on_def)

lemma check_source_name: "check_source rq allow s = Inr p \<Longrightarrow> fst p = so_name s"
  by (auto simp: check_source_def res_iff)

lemma checked_at:
  "res_map (check_source rq allow) xs = Inr ys \<Longrightarrow> distinct (map so_name xs) \<Longrightarrow> s \<in> set xs \<Longrightarrow>
   \<exists>g. check_source rq allow s = Inr (so_name s, g) \<and> map_of ys (so_name s) = Some g"
proof (induction xs arbitrary: ys)
  case (Cons x xs)
  from Cons.prems(1) obtain y zs where y: "check_source rq allow x = Inr y" "res_map (check_source rq allow) xs = Inr zs"
    "ys = y # zs" by (auto simp: res_iff)
  then show ?case using Cons.IH [OF y(2)] Cons.prems(2,3) check_source_name [OF y(1)]
    by (cases "s = x"; cases y) (auto simp: image_iff)
qed simp

subsection \<open>Properties\<close>

text \<open>
  the memo of support decisions is invisible: when a source always answers alike, every
  query returns that answer, and the memo keeps agreeing with the sources and within its limit.
\<close>

lemma support_cache_transparent:
  assumes ok: "support_cache_ok cat ans sc" and made: "mk_source_catalog srcs resolver b limit rd au = Inr cat"
    and res: "supports cat s k (Inr (ans (so_name s) k)) sc d = (r, sc', d')"
  shows "r = Inr (ans (so_name s) k) \<and> support_cache_ok cat ans sc'"
proof -
  have "0 \<le> m" if "sg_support_cache_max_entries cat = Some m" for m
    using made that by (auto simp: mk_source_catalog_def res_iff Let_def split: option.splits)
  from supports_memo [OF ok this res] show ?thesis .
qed

text \<open>
  the keys of a batch are partitioned by circuit: the groups are not empty, each starts
  with its representative and holds exactly the keys, in order, that share the circuit of its
  representative, no two groups share a circuit, and every key is in one.
\<close>

lemma circuit_groups_partition:
  assumes groups: "circuit_groups b s keys r = Inr groups"
  defines "ident \<equiv> \<lambda>k. identity_for b (so_name s) (Some k) (Some (cbp_scope (rs_circuit r)))"
  shows "(\<forall>(rep, ks) \<in> set groups. ks \<noteq> [] \<and> rep = hd ks \<and> ks = filter (\<lambda>k. ident k = ident rep) keys)
    \<and> distinct (map (\<lambda>p. ident (fst p)) groups) \<and> (\<forall>k \<in> set keys. \<exists>p \<in> set groups. k \<in> set (snd p))"
proof -
  from circuit_groups_ok [OF groups, folded ident_def] obtain g where ok: "grouped_ok ident keys g"
    and gs: "groups = map (\<lambda>p. (hd (snd p), snd p)) g" by blast
  have d: "od_ok g" "\<And>k. k \<in> set keys \<Longrightarrow> \<exists>i xs. ident k = Inr i \<and> map_of g i = Some xs"
    using ok unfolding grouped_ok_def by auto
  have grp: "xs \<noteq> []" "xs = filter (\<lambda>k. ident k = Inr i) keys" if "(i, xs) \<in> set g" for i xs
    using ok that unfolding grouped_ok_def by (simp_all add: d(1))
  have rep: "ident (hd xs) = Inr i" if "(i, xs) \<in> set g" for i xs
    using grp [OF that] hd_in_set [of xs] by auto
  have "map (\<lambda>p. ident (fst p)) groups = map Inr (od_keys g)"
    unfolding gs using rep by (auto simp: case_prod_unfold)
  then have "distinct (map (\<lambda>p. ident (fst p)) groups)" using d(1) by (simp only: distinct_map inj_on_def) simp
  moreover have "\<exists>p \<in> set groups. k \<in> set (snd p)" if k: "k \<in> set keys" for k
  proof -
    from d(2) [OF k] obtain i xs where i: "ident k = Inr i" "(i, xs) \<in> set g" by (auto dest: map_of_SomeD)
    with grp(2) [OF i(2)] k have "k \<in> set xs" by auto
    with i(2) show ?thesis unfolding gs by force
  qed
  moreover have "ks \<noteq> [] \<and> rp = hd ks \<and> ks = filter (\<lambda>k. ident k = ident rp) keys" if "(rp, ks) \<in> set groups" for rp ks
    using that grp rep unfolding gs by fastforce
  ultimately show ?thesis by blast
qed

text \<open>
  an accepted catalog lists exactly the given sources, by descending priority and in
  their given order among equals, and without \<open>allow_unsafe_blocking_sources\<close> every source
  that declares blocking calls is protected.
\<close>

lemma catalog_ordered_and_safe:
  assumes made: "mk_source_catalog srcs resolver b limit rd au = Inr cat"
  shows "mset (sg_sources cat) = mset srcs \<and> sorted_wrt (\<lambda>s t. so_priority t \<le> so_priority s) (sg_sources cat)
    \<and> (\<forall>p. filter (\<lambda>s. so_priority s = p) (sg_sources cat) = filter (\<lambda>s. so_priority s = p) srcs)
    \<and> (\<forall>s \<in> set srcs. inspect_source_timeout_guarantee s = Inr (catalog_guarantee cat s)
         \<and> catalog_kind cat s = kind_of_source s
         \<and> (au = PyBool False \<and> tg_blocking_io (catalog_guarantee cat s) \<longrightarrow> tg_protected (catalog_guarantee cat s)))"
proof -
  let ?key = "\<lambda>s. - so_priority s"
  from made obtain guarantees allow rq where au: "as_bool au = Some allow"
    and gs: "res_map (check_source rq allow) srcs = Inr guarantees" and dist: "distinct (map so_name srcs)"
    and cat: "sg_sources cat = sort_key ?key srcs" "sg_kinds cat = map (\<lambda>s. (so_name s, kind_of_source s)) (sort_key ?key srcs)"
      "sg_guarantees cat = map (\<lambda>s. (so_name s, the (map_of guarantees (so_name s)))) (sort_key ?key srcs)"
    by (auto simp: mk_source_catalog_def res_iff Let_def)
  have "sorted (map ?key (sg_sources cat))" by (simp add: cat)
  then have order: "sorted_wrt (\<lambda>s t. so_priority t \<le> so_priority s) (sg_sources cat)"
    by (simp add: sorted_map)
  have stable: "filter (\<lambda>s. so_priority s = p) (sg_sources cat) = filter (\<lambda>s. so_priority s = p) srcs" for p
    using filter_sort [of "\<lambda>s. so_priority s = p" ?key srcs] sort_key_stable [of ?key "- p" srcs] by (simp add: cat)
  have names: "inj_on so_name (set srcs)" "distinct srcs" using dist by (simp_all add: distinct_map)
  have "inspect_source_timeout_guarantee s = Inr (catalog_guarantee cat s) \<and> catalog_kind cat s = kind_of_source s
      \<and> (\<not> allow \<and> tg_blocking_io (catalog_guarantee cat s) \<longrightarrow> tg_protected (catalog_guarantee cat s))"
    if s: "s \<in> set srcs" for s
  proof -
    have inj: "inj_on so_name (set (sort_key ?key srcs))" and s': "s \<in> set (sort_key ?key srcs)" using names s by simp_all
    from checked_at [OF gs dist s] obtain g where g: "check_source rq allow s = Inr (so_name s, g)"
      "map_of guarantees (so_name s) = Some g" by blast
    have "catalog_guarantee cat s = g" unfolding catalog_guarantee_def cat map_of_by_name [OF inj s'] by (simp add: g(2))
    moreover have "catalog_kind cat s = kind_of_source s" unfolding catalog_kind_def cat map_of_by_name [OF inj s'] by simp
    ultimately show ?thesis using g(1) by (auto simp: check_source_def res_iff tg_protected_def)
  qed
  with au order stable show ?thesis by (auto simp: cat)
qed

definition fixture_resilience :: resilience_policy where
  "fixture_resilience = \<lparr>rs_retry = \<lparr>rp_max_attempts = 1, rp_base_delay_seconds = NInt 0, rp_max_delay_seconds = NInt 0,
     rp_jitter_ratio = NInt 0\<rparr>,
     rs_circuit = \<lparr>cbp_scope = RESOURCE, cbp_failure_threshold = 1, cbp_recovery_timeout_seconds = 30, cbp_enabled = True\<rparr>\<rparr>"

definition fixture_resolver :: resilience_resolver where
  "fixture_resolver = \<lparr>rr_default = fixture_resilience, rr_overrides = [], rr_dynamic = None\<rparr>"

definition fixture_catalog :: source_catalog where
  "fixture_catalog = \<lparr>sg_sources = [fixture_source ''feed''], sg_kinds = [(''feed'', SingleKind)],
     sg_guarantees = [(''feed'', fixture_guarantee ''feed'')], sg_resilience_resolver = fixture_resolver,
     sg_cache_supports = True, sg_support_cache_max_entries = Some 4\<rparr>"

lemma fixture_catalog_made:
  "mk_source_catalog [fixture_source ''feed''] fixture_resolver True (Some 4) (PyBool False) (PyBool False)
   = Inr fixture_catalog"
proof -
  have "check_source False False (fixture_source ''feed'') = Inr (''feed'', fixture_guarantee ''feed'')"
    by (simp add: check_source_def fixture_guarantee_made)
      (simp add: validate_source_def fixture_source_def fixture_guarantee_def Let_def strip_eq_self is_space_def
        optional_positive_seconds_def queue_timeout_attr_def attr_or_def double_overflow_def kind_of_source_def)
  then show ?thesis
    by (simp add: mk_source_catalog_def Let_def fixture_catalog_def kind_of_source_def)
      (simp add: fixture_source_def)
qed

definition fixture_breaker :: circuit_breaker where
  "fixture_breaker = \<lparr>cb_default_policy = rs_circuit fixture_resilience, cb_circuits = []\<rparr>"

lemma support_cache_transparent_witness:
  "\<exists>sc d. supports fixture_catalog (fixture_source ''feed'') (ResourceKey ''market'' ''quote'' '''' []) (Inr True) []
       (new_collector 0) = (Inr True, sc, d)
     \<and> support_cache_ok fixture_catalog (\<lambda>src k. True) sc"
proof -
  have ok: "support_cache_ok fixture_catalog (\<lambda>src k. True) []" by (simp add: support_cache_ok_def fixture_catalog_def)
  obtain r sc d where res: "supports fixture_catalog (fixture_source ''feed'') (ResourceKey ''market'' ''quote'' '''' [])
       (Inr True) [] (new_collector 0) = (r, sc, d)" by (rule prod_cases3)
  from support_cache_transparent [OF ok fixture_catalog_made res] res show ?thesis by auto
qed

lemma circuit_groups_partition_witness:
  "\<exists>groups. circuit_groups fixture_breaker (fixture_source ''feed'')
       [ResourceKey ''market'' ''quote'' '''' [], ResourceKey ''market'' ''trade'' '''' []] fixture_resilience = Inr groups
     \<and> (\<forall>k \<in> {ResourceKey ''market'' ''quote'' '''' [], ResourceKey ''market'' ''trade'' '''' []}.
          \<exists>p \<in> set groups. k \<in> set (snd p))"
proof -
  have nm: "normalize_source (so_name (fixture_source ''feed'')) = Inr ''feed''"
    by (simp add: normalize_source_def fixture_source_def strip_eq_self is_space_def)
  obtain groups where gs: "circuit_groups fixture_breaker (fixture_source ''feed'')
       [ResourceKey ''market'' ''quote'' '''' [], ResourceKey ''market'' ''trade'' '''' []] fixture_resilience = Inr groups"
    using nm by (simp add: circuit_groups_def identity_for_def fixture_resilience_def)
  from circuit_groups_partition [OF gs] gs show ?thesis by auto
qed

lemma catalog_ordered_and_safe_witness:
  "\<exists>cat. mk_source_catalog [fixture_source ''feed''] fixture_resolver True (Some 4) (PyBool False) (PyBool False) = Inr cat
     \<and> tg_protected (catalog_guarantee cat (fixture_source ''feed''))"
proof -
  have "inspect_source_timeout_guarantee (fixture_source ''feed'') = Inr (catalog_guarantee fixture_catalog (fixture_source ''feed''))"
    using catalog_ordered_and_safe [OF fixture_catalog_made] by simp
  then have "catalog_guarantee fixture_catalog (fixture_source ''feed'') = fixture_guarantee ''feed''"
    using fixture_guarantee_made by simp
  then have "tg_protected (catalog_guarantee fixture_catalog (fixture_source ''feed''))"
    by (simp add: tg_protected_def fixture_guarantee_def)
  with fixture_catalog_made show ?thesis by (intro exI conjI)
qed

end
