(* ===== verification/Health_Tracker.thy ===== *)
theory Health_Tracker
  imports Errors
begin

section \<open>Operational counters (core/health.py, OperationalHealthTracker)\<close>

text \<open>Every operation is a locked section. Counts are natural numbers: the code only adds to them,
  and the number of active workers is checked before it is lowered.\<close>

record health_tracker =
  ht_active_dispatch_workers :: nat
  ht_queue_timeout_count :: nat
  ht_source_timeout_count :: nat
  ht_transport_violation_count :: nat
  ht_transport_violations :: "(string, nat) odict"
  ht_deadline_exceeded_count :: nat
  ht_revalidation_attempt_count :: nat
  ht_revalidation_failure_count :: nat

definition new_health_tracker :: health_tracker where
  "new_health_tracker = \<lparr>ht_active_dispatch_workers = 0, ht_queue_timeout_count = 0, ht_source_timeout_count = 0,
     ht_transport_violation_count = 0, ht_transport_violations = [], ht_deadline_exceeded_count = 0,
     ht_revalidation_attempt_count = 0, ht_revalidation_failure_count = 0\<rparr>"

definition dispatch_worker_started :: "health_tracker \<Rightarrow> health_tracker" where
  "dispatch_worker_started h = h\<lparr>ht_active_dispatch_workers := ht_active_dispatch_workers h + 1\<rparr>"

definition dispatch_worker_finished :: "health_tracker \<Rightarrow> py_error + health_tracker" where
  "dispatch_worker_finished h =
     (if ht_active_dispatch_workers h = 0 then Inl (RuntimeError ''dispatch worker counter cannot become negative'')
      else Inr (h\<lparr>ht_active_dispatch_workers := ht_active_dispatch_workers h - 1\<rparr>))"

definition record_queue_timeout :: "health_tracker \<Rightarrow> health_tracker" where
  "record_queue_timeout h = h\<lparr>ht_queue_timeout_count := ht_queue_timeout_count h + 1\<rparr>"

definition record_source_timeout :: "health_tracker \<Rightarrow> health_tracker" where
  "record_source_timeout h = h\<lparr>ht_source_timeout_count := ht_source_timeout_count h + 1\<rparr>"

definition record_transport_violation :: "string \<Rightarrow> health_tracker \<Rightarrow> arg_error + health_tracker" where
  "record_transport_violation src h =
     (let nm = strip src
      in if nm = '''' then Inl (ValueError ''source cannot be empty'')
         else let n = (case map_of (ht_transport_violations h) nm of None \<Rightarrow> 0 | Some c \<Rightarrow> c)
              in Inr (h\<lparr>ht_transport_violation_count := ht_transport_violation_count h + 1,
                        ht_transport_violations := od_set nm (n + 1) (ht_transport_violations h)\<rparr>))"

definition record_deadline_exceeded :: "health_tracker \<Rightarrow> health_tracker" where
  "record_deadline_exceeded h = h\<lparr>ht_deadline_exceeded_count := ht_deadline_exceeded_count h + 1\<rparr>"

definition record_revalidation :: "bool \<Rightarrow> health_tracker \<Rightarrow> health_tracker" where
  "record_revalidation failed h =
     (let h' = h\<lparr>ht_revalidation_attempt_count := ht_revalidation_attempt_count h + 1\<rparr>
      in if failed then h'\<lparr>ht_revalidation_failure_count := ht_revalidation_failure_count h' + 1\<rparr> else h')"

definition tracker_snapshot :: "health_tracker \<Rightarrow> health_tracker" where
  "tracker_snapshot h = h"

end
