(* ===== verification/Source_Calls.thy ===== *)
theory Source_Calls
  imports Effects Clocked Source_Catalog Retry Capacity Cache_Contract Health_Tracker Publisher
begin

section \<open>Low-level source calls (orchestration/source_calls.py)\<close>

subsection \<open>The world of a resolution\<close>

text \<open>
  One resolution is run as one sequence of operations: tasks that the code runs concurrently
  (the keys of a source, the chunks of a batch) are run one after the other, in order. What is
  outside the library is the record \<open>app\<close>: how long the \<open>n\<close>-th external operation takes and what
  it returns or raises, the results of resolutions other callers have in flight, random
  numbers and fresh identifiers.
\<close>

datatype raw_result = RawPayload source_payload | RawValue pyval

datatype raw_batch = RawMapping "(resource_key, raw_result) odict" | RawOther string

datatype dependency = DepKey resource_key | DepOther

record app =
  ap_delay :: "nat \<Rightarrow> rat"
  ap_supports :: "string \<Rightarrow> resource_key \<Rightarrow> py_error + bool"
  ap_fetch :: "string \<Rightarrow> resource_key \<Rightarrow> nat \<Rightarrow> py_error + raw_result"
  ap_fetch_many :: "string \<Rightarrow> resource_key list \<Rightarrow> nat \<Rightarrow> py_error + raw_batch"
  ap_dependencies :: "string \<Rightarrow> resource_key \<Rightarrow> py_error + dependency list"
  ap_derive :: "string \<Rightarrow> resource_key \<Rightarrow> (resource_key, snapshot_value) odict \<Rightarrow> nat \<Rightarrow> py_error + raw_result"
  ap_joined :: "resource_key \<Rightarrow> nat \<Rightarrow> (py_error + resolution_result) option"
  ap_uniform :: "rat \<Rightarrow> rat \<Rightarrow> rat"
  ap_uuid :: "nat \<Rightarrow> string"

record 's world = clocks +
  w_cache :: 's
  w_breaker :: circuit_breaker
  w_support :: support_cache
  w_diag :: diagnostics_collector
  w_rt :: resolution_runtime
  w_refreshing :: "resource_key list"
  w_refresh_closed :: bool
  w_leases :: nat
  w_log :: "obs list"
  w_health :: health_tracker
  w_builder_closed :: bool

record 's builder =
  bl_ops :: "'s cache_ops"
  bl_catalog :: source_catalog
  bl_policies :: policy_resolver
  bl_authority :: authority_resolver
  bl_observation :: observation_policy
  bl_copier :: payload_copier
  bl_copy :: copy_config
  bl_capacity :: capacity_controller
  bl_max_concurrency :: int
  bl_max_pending_tasks :: int
  bl_transport_timeout_grace_seconds :: rat
  bl_deadline_dispatch_grace_seconds :: rat
  bl_recursion_limit :: nat

text \<open>\<open>bl_recursion_limit\<close> is the depth of nested awaits at which the interpreter raises \<^verbatim>\<open>RecursionError\<close>.\<close>

definition emit :: "obs list \<Rightarrow> 's world \<Rightarrow> 's world" where
  "emit os w = w\<lparr>w_log := w_log w @ os\<rparr>"

definition count_diag :: "(diagnostics_collector \<Rightarrow> diagnostics_collector) \<Rightarrow> 's world \<Rightarrow> 's world" where
  "count_diag f w = w\<lparr>w_diag := f (w_diag w)\<rparr>"

subsection \<open>Budgets\<close>

definition seconds_of :: "pyval \<Rightarrow> rat option" where
  "seconds_of v = map_option num_value (as_number v)"

record timeout_budget =
  tb_seconds :: "rat option"
  tb_limited_by_deadline :: bool

definition target_suffix :: "resource_key option \<Rightarrow> string" where
  "target_suffix r = (case r of None \<Rightarrow> '''' | Some k \<Rightarrow> '' while resolving '' @ key_str k)"

definition timeout_budget_for ::
  "rat option \<Rightarrow> fetch_context \<Rightarrow> source \<Rightarrow> string \<Rightarrow> resource_key option \<Rightarrow> rat \<Rightarrow> py_error + timeout_budget" where
  "timeout_budget_for configured ctx s phase resource clk =
     (case fc_deadline_monotonic ctx of
        None \<Rightarrow> Inr \<lparr>tb_seconds = configured, tb_limited_by_deadline = False\<rparr>
      | Some d \<Rightarrow>
          let remaining = d - clk
          in if remaining \<le> 0
             then Inl (SnapshotDeadlineExceededError (''snapshot deadline exceeded before '' @ phase
                    @ '' for source '' @ so_name s @ target_suffix resource))
             else if (case configured of None \<Rightarrow> True | Some c \<Rightarrow> remaining \<le> c)
             then Inr \<lparr>tb_seconds = Some remaining, tb_limited_by_deadline = True\<rparr>
             else Inr \<lparr>tb_seconds = configured, tb_limited_by_deadline = False\<rparr>)"

definition effective_timeout :: "source \<Rightarrow> fetch_context \<Rightarrow> rat \<Rightarrow> py_error + rat option" where
  "effective_timeout s ctx clk =
     res_bind (timeout_budget_for (seconds_of (so_timeout_seconds s)) ctx s ''resolving'' None clk)
       (\<lambda>b. Inr (tb_seconds b))"

text \<open>
  \<open>_await_with_timeout\<close>: \<open>None\<close> is the marker that the library's own timer expired. The
  operation is given the number of the call.
\<close>

definition await_with_timeout ::
  "(nat \<Rightarrow> rat) \<Rightarrow> (nat \<Rightarrow> py_error + 'b) \<Rightarrow> rat option \<Rightarrow> 'a clocks_scheme
    \<Rightarrow> (py_error + 'b) option \<times> 'a clocks_scheme" where
  "await_with_timeout delay operation timeout w =
     (let n = w_tick w; d = delay n; w' = count_tick w
      in case timeout of
           None \<Rightarrow> (Some (operation n), pass d w')
         | Some t \<Rightarrow> if t < d then (None, pass t w') else (Some (operation n), pass d w'))"

definition elapsed_ms :: "rat \<Rightarrow> 's world \<Rightarrow> rat" where
  "elapsed_ms started w = max 0 ((w_mono w - started) * 1000)"

definition the_seconds :: "timeout_budget \<Rightarrow> rat" where
  "the_seconds b = (case tb_seconds b of None \<Rightarrow> 0 | Some t \<Rightarrow> t)"

subsection \<open>Capacity\<close>

text \<open>
  A granted lease is counted in \<open>w_leases\<close>; the queue of waiters behind it is the machine of
  \<open>Capacity\<close>, and the time until it grants the lease is the delay of this operation.
\<close>

definition acquire_capacity ::
  "app \<Rightarrow> source \<Rightarrow> fetch_context \<Rightarrow> resource_key option \<Rightarrow> 's world \<Rightarrow> (py_error + unit) \<times> 's world" where
  "acquire_capacity ap s ctx resource w =
     (let configured = seconds_of (case so_queue_timeout_seconds s of None \<Rightarrow> so_timeout_seconds s | Some q \<Rightarrow> q)
      in case timeout_budget_for configured ctx s ''waiting for capacity'' resource (w_mono w) of
           Inl e \<Rightarrow> (Inl e, w)
         | Inr budget \<Rightarrow>
             (let (r, w1) = await_with_timeout (ap_delay ap) (\<lambda>n. Inr () :: py_error + unit) (tb_seconds budget) w;
                  waited = MetricObserve ''source_capacity_wait_ms'' (elapsed_ms (w_mono w) w1) [(''source'', so_name s)];
                  timed_out = (\<lambda>reason. MetricIncrement ''source_capacity_timeout_total''
                                 [(''source'', so_name s), (''reason'', reason)])
              in case r of
                   Some x \<Rightarrow> (x, emit [waited] (w1\<lparr>w_leases := w_leases w1 + 1\<rparr>))
                 | None \<Rightarrow>
                     if tb_limited_by_deadline budget
                     then (Inl (SnapshotDeadlineExceededError (''snapshot deadline exceeded while waiting for capacity for source ''
                              @ so_name s @ target_suffix resource)),
                           emit [timed_out ''snapshot_deadline'', waited] w1)
                     else (Inl (SourceQueueTimeoutError (''source '' @ so_name s @ '' waited more than ''
                              @ fmt_fixed 3 (the_seconds budget) @ ''s for capacity'' @ target_suffix resource)),
                           emit [timed_out ''queue_timeout'', waited] w1)))"

definition release_lease :: "'s world \<Rightarrow> 's world" where
  "release_lease w = w\<lparr>w_leases := w_leases w - 1\<rparr>"

subsection \<open>Transport timeouts\<close>

definition guarded_transport :: "'s builder \<Rightarrow> source \<Rightarrow> rat option" where
  "guarded_transport bl s =
     (case map_of (sg_guarantees (bl_catalog bl)) (so_name s) of
        None \<Rightarrow> None
      | Some g \<Rightarrow> if tg_status g \<noteq> PROTECTED then None else tg_transport_timeout_seconds g)"

definition resource_text :: "resource_key option \<Rightarrow> pyval" where
  "resource_text r = PyStr (case r of None \<Rightarrow> '''' | Some k \<Rightarrow> key_str k)"

definition record_transport_timeout_violation ::
  "'s builder \<Rightarrow> source \<Rightarrow> rat \<Rightarrow> resource_key option \<Rightarrow> string \<Rightarrow> bool \<Rightarrow> 's world \<Rightarrow> (py_error + unit) \<times> 's world" where
  "record_transport_timeout_violation bl s elapsed resource outcome force w =
     (case guarded_transport bl s of
        None \<Rightarrow> (Inr (), w)
      | Some transport \<Rightarrow>
          if \<not> force \<and> elapsed \<le> transport + bl_transport_timeout_grace_seconds bl then (Inr (), w)
          else case record_transport_violation (so_name s) (w_health w) of
                 Inl e \<Rightarrow> (Inl (ArgError e), w)
               | Inr h \<Rightarrow>
                   (Inr (), emit [MetricIncrement ''source_transport_timeout_violation_total''
                                    [(''source'', so_name s), (''outcome'', outcome)],
                                  EventEmit ''source_transport_timeout_violated''
                                    [(''source'', PyStr (so_name s)), (''resource'', resource_text resource),
                                     (''outcome'', PyStr outcome),
                                     (''declared_transport_timeout_seconds'', PyFloat (Fin transport)),
                                     (''observed_elapsed_seconds'', PyFloat (Fin elapsed)),
                                     (''grace_seconds'', PyFloat (Fin (bl_transport_timeout_grace_seconds bl)))]]
                              (w\<lparr>w_health := h\<rparr>)))"

definition ensure_transport_timeout_fits_budget ::
  "'s builder \<Rightarrow> source \<Rightarrow> timeout_budget \<Rightarrow> resource_key option \<Rightarrow> 's world \<Rightarrow> (py_error + unit) \<times> 's world" where
  "ensure_transport_timeout_fits_budget bl s budget resource w =
     (case (guarded_transport bl s, tb_seconds budget) of
        (Some transport, Some seconds) \<Rightarrow>
          if transport < seconds then (Inr (), w)
          else if tb_limited_by_deadline budget \<and> transport < seconds + bl_deadline_dispatch_grace_seconds bl
          then (Inr (), emit [EventEmit ''source_dispatch_under_deadline_pressure''
                  [(''source'', PyStr (so_name s)), (''resource'', resource_text resource),
                   (''transport_timeout_seconds'', PyFloat (Fin transport)),
                   (''available_budget_seconds'', PyFloat (Fin seconds)),
                   (''deadline_dispatch_grace_seconds'', PyFloat (Fin (bl_deadline_dispatch_grace_seconds bl))),
                   (''gap_seconds'', PyFloat (Fin (transport - seconds)))]] w)
          else
            (let detail = '' (budget='' @ fmt_fixed 3 seconds @ ''s, transport_timeout='' @ fmt_fixed 3 transport
                            @ ''s, gap='' @ fmt_fixed 3 (transport - seconds) @ ''s)'';
                 w' = emit [MetricIncrement ''source_transport_budget_rejection_total''
                              [(''source'', so_name s),
                               (''reason'', if tb_limited_by_deadline budget then ''snapshot_deadline'' else ''source_timeout'')],
                            EventEmit ''source_transport_budget_rejected''
                              [(''source'', PyStr (so_name s)), (''resource'', resource_text resource),
                               (''transport_timeout_seconds'', PyFloat (Fin transport)),
                               (''available_budget_seconds'', PyFloat (Fin seconds))]] w
             in (Inl (if tb_limited_by_deadline budget
                      then SnapshotDeadlineExceededError
                             (''snapshot deadline budget is shorter than the declared transport timeout for source ''
                              @ so_name s @ target_suffix resource @ detail)
                      else SourceTimeoutError
                             (''source timeout budget is not greater than the declared transport timeout for source ''
                              @ so_name s @ target_suffix resource @ detail)), w'))
      | _ \<Rightarrow> (Inr (), w))"

text \<open>Recording a violation cannot hide the outcome: it fails only for a blank source name.\<close>

definition with_timeout ::
  "app \<Rightarrow> 's builder \<Rightarrow> source \<Rightarrow> fetch_context \<Rightarrow> (nat \<Rightarrow> py_error + 'b) \<Rightarrow> resource_key option \<Rightarrow> 's world
    \<Rightarrow> (py_error + 'b) \<times> 's world" where
  "with_timeout ap bl s ctx operation resource w =
     (case timeout_budget_for (seconds_of (so_timeout_seconds s)) ctx s ''calling the source'' resource (w_mono w) of
        Inl e \<Rightarrow> (Inl e, w)
      | Inr budget \<Rightarrow>
          (case ensure_transport_timeout_fits_budget bl s budget resource w of
             (Inl e, w1) \<Rightarrow> (Inl e, w1)
           | (Inr _, w1) \<Rightarrow>
               (let (r, w2) = await_with_timeout (ap_delay ap) operation (tb_seconds budget) w1;
                    elapsed = max 0 (w_mono w2 - w_mono w1)
                in case r of
                     None \<Rightarrow>
                       (case record_transport_timeout_violation bl s elapsed resource ''coalestra_timeout'' True w2 of
                          (Inl e, w3) \<Rightarrow> (Inl e, w3)
                        | (Inr _, w3) \<Rightarrow>
                            (Inl (if tb_limited_by_deadline budget
                                  then SnapshotDeadlineExceededError (''snapshot deadline exceeded while calling source ''
                                         @ so_name s @ target_suffix resource)
                                  else SourceTimeoutError (''source '' @ so_name s @ '' timed out after ''
                                         @ fmt_fixed 3 (the_seconds budget) @ ''s'' @ target_suffix resource)), w3))
                   | Some (Inl e) \<Rightarrow>
                       (case record_transport_timeout_violation bl s elapsed resource ''failed_late'' False w2 of
                          (Inl e', w3) \<Rightarrow> (Inl e', w3)
                        | (Inr _, w3) \<Rightarrow> (Inl e, w3))
                   | Some (Inr x) \<Rightarrow>
                       (case record_transport_timeout_violation bl s elapsed resource ''completed_late'' False w2 of
                          (Inl e', w3) \<Rightarrow> (Inl e', w3)
                        | (Inr _, w3) \<Rightarrow> (Inr x, w3)))))"

subsection \<open>Payloads\<close>

definition coerce_payload_sync :: "payload_copier \<Rightarrow> raw_result \<Rightarrow> string \<Rightarrow> py_error + source_payload" where
  "coerce_payload_sync copier raw ctxt =
     (let p = (case raw of RawPayload p \<Rightarrow> p | RawValue v \<Rightarrow> \<lparr>sp_value = v, sp_observed_at = None, sp_metadata = []\<rparr>)
      in res_bind (iso_copy copier (sp_value p) ctxt) (\<lambda>v.
         res_bind (iso_copy_metadata copier ''mappingproxy'' (sp_metadata p) (ctxt @ '' metadata'')) (\<lambda>md.
           lift_arg (mk_source_payload v (map_option (\<lambda>t. NFloat (Fin t)) (sp_observed_at p)) md))))"

definition coerce_payload ::
  "app \<Rightarrow> 's builder \<Rightarrow> raw_result \<Rightarrow> string \<Rightarrow> fetch_context \<Rightarrow> 's world \<Rightarrow> (py_error + source_payload) \<times> 's world" where
  "coerce_payload ap bl raw copy_context ctx w =
     copy_run (ap_delay ap) (bl_copy bl) (\<lambda>_. coerce_payload_sync (bl_copier bl) raw copy_context)
       (fc_deadline_monotonic ctx) (''isolating '' @ copy_context) w"

text \<open>The lease is held for the call and released whatever its outcome.\<close>

definition leased_call ::
  "app \<Rightarrow> 's builder \<Rightarrow> source \<Rightarrow> fetch_context \<Rightarrow> source_kind \<Rightarrow> (nat \<Rightarrow> py_error + 'b) \<Rightarrow> resource_key option
    \<Rightarrow> 's world \<Rightarrow> (py_error + 'b) \<times> 's world" where
  "leased_call ap bl s ctx kind operation resource w =
     (case acquire_capacity ap s ctx resource w of
        (Inl e, w1) \<Rightarrow> (Inl e, w1)
      | (Inr _, w1) \<Rightarrow>
          (let (r, w2) = with_timeout ap bl s ctx operation resource (count_diag (record_source_call (so_name s) kind) w1)
           in (r, release_lease w2)))"

definition fetch_once ::
  "app \<Rightarrow> 's builder \<Rightarrow> source \<Rightarrow> resource_key \<Rightarrow> fetch_context \<Rightarrow> 's world \<Rightarrow> (py_error + source_payload) \<times> 's world" where
  "fetch_once ap bl s k ctx w =
     (case leased_call ap bl s ctx SingleKind (ap_fetch ap (so_name s) k) (Some k) w of
        (Inl e, w1) \<Rightarrow> (Inl e, w1)
      | (Inr raw, w1) \<Rightarrow> coerce_payload ap bl raw (''source '' @ so_name s @ '' payload for '' @ key_str k) ctx w1)"

definition derive_once ::
  "app \<Rightarrow> 's builder \<Rightarrow> source \<Rightarrow> resource_key \<Rightarrow> (resource_key, snapshot_value) odict \<Rightarrow> fetch_context \<Rightarrow> 's world
    \<Rightarrow> (py_error + source_payload) \<times> 's world" where
  "derive_once ap bl s k deps ctx w =
     (case leased_call ap bl s ctx DerivedKind (ap_derive ap (so_name s) k deps) (Some k) w of
        (Inl e, w1) \<Rightarrow> (Inl e, w1)
      | (Inr raw, w1) \<Rightarrow> coerce_payload ap bl raw (''derived source '' @ so_name s @ '' payload for '' @ key_str k) ctx w1)"

definition fetch_many_once ::
  "app \<Rightarrow> 's builder \<Rightarrow> source \<Rightarrow> resource_key list \<Rightarrow> fetch_context \<Rightarrow> 's world
    \<Rightarrow> (py_error + (resource_key, source_payload) odict) \<times> 's world" where
  "fetch_many_once ap bl s keys ctx w =
     (case leased_call ap bl s ctx BatchKind (ap_fetch_many ap (so_name s) keys) None w of
        (Inl e, w1) \<Rightarrow> (Inl e, w1)
      | (Inr (RawOther t), w1) \<Rightarrow>
          (Inl (SourceProtocolError (''batch source '' @ so_name s @ '' must return a mapping, got '' @ t)), w1)
      | (Inr (RawMapping m), w1) \<Rightarrow>
          (let unexpected = filter (\<lambda>k. k \<notin> set keys) (od_keys m)
           in if unexpected \<noteq> []
              then (Inl (SourceProtocolError (''batch source '' @ so_name s @ '' returned unrequested resources: ''
                       @ str_join '', '' (map key_str unexpected))), w1)
              else copy_map (ap_delay ap) (bl_copy bl)
                     (\<lambda>item. res_bind (coerce_payload_sync (bl_copier bl) (snd item)
                                (''batch source '' @ so_name s @ '' payload for '' @ key_str (fst item)))
                                (\<lambda>p. Inr (fst item, p)))
                     (fc_deadline_monotonic ctx) (''isolating batch source '' @ so_name s @ '' payloads'') m w1))"

definition validate_payload_timestamp ::
  "'s builder \<Rightarrow> resource_key \<Rightarrow> source_payload \<Rightarrow> rat \<Rightarrow> py_error + rat" where
  "validate_payload_timestamp bl k p now =
     (case sp_observed_at p of
        None \<Rightarrow> Inr 0
      | Some t \<Rightarrow>
          let future_seconds = t - now
          in if op_future_tolerance_seconds (bl_observation bl) < future_seconds
                \<and> op_reject_future_observations (bl_observation bl)
             then Inl (SourceProtocolError (''source observation for '' @ key_str k @ '' is ''
                         @ fmt_fixed 6 future_seconds @ ''s in the future''))
             else Inr (max 0 future_seconds))"

definition payload_is_fresh :: "'s builder \<Rightarrow> resource_key \<Rightarrow> source_payload \<Rightarrow> rat \<Rightarrow> py_error + bool" where
  "payload_is_fresh bl k p now =
     res_bind (validate_payload_timestamp bl k p now) (\<lambda>_.
       case sp_observed_at p of
         None \<Rightarrow> Inr True
       | Some t \<Rightarrow> res_bind (policy_resolve (bl_policies bl) k) (\<lambda>pol.
                    Inr (fle (Fin (max 0 (now - t))) (fp_ttl_seconds pol))))"

definition build_snapshot_value ::
  "app \<Rightarrow> 's builder \<Rightarrow> resource_key \<Rightarrow> source \<Rightarrow> source_payload \<Rightarrow> int \<Rightarrow> rat \<Rightarrow> (resource_key, string) odict \<Rightarrow> 's world
    \<Rightarrow> (py_error + snapshot_value) \<times> 's world" where
  "build_snapshot_value ap bl k s p attempts latency deps w =
     (let now = w_now w
      in (res_bind (validate_payload_timestamp bl k p now) (\<lambda>future.
          let observed = (case sp_observed_at p of Some t \<Rightarrow> t | None \<Rightarrow> now); age = max 0 (now - observed)
          in res_bind (policy_resolve (bl_policies bl) k) (\<lambda>pol.
             res_bind (authority_rank_for (bl_authority bl) k (so_name s)) (\<lambda>rank.
               lift_arg (mk_snapshot_value (NFloat (Fin observed)) (NFloat (Fin now))
                 \<lparr>sv_key = k, sv_value = sp_value p, sv_source = so_name s, sv_observed_at = observed,
                  sv_fetched_at = now, sv_age_seconds = age, sv_stale = flt (fp_ttl_seconds pol) (Fin age),
                  sv_from_cache = False, sv_latency_ms = latency, sv_attempts = nat attempts,
                  sv_metadata = (if 0 < future then od_set ''clock_skew_seconds'' (PyFloat (Fin future)) (sp_metadata p)
                                 else sp_metadata p),
                  sv_authority_rank = rank, sv_version = ap_uuid ap (w_tick w), sv_dependency_versions = deps\<rparr>)))),
          count_tick w))"

subsection \<open>Outcomes\<close>

fun is_os_error :: "py_error \<Rightarrow> bool" where
  "is_os_error (TimeoutError m) = True"
| "is_os_error (ConnectionError m) = True"
| "is_os_error (OSError m) = True"
| "is_os_error _ = False"

fun never_retried :: "py_error \<Rightarrow> bool" where
  "never_retried (CircuitOpenError m) = True"
| "never_retried (SnapshotDeadlineExceededError m) = True"
| "never_retried (SourceQueueTimeoutError m) = True"
| "never_retried _ = False"

definition is_retryable :: "py_error \<Rightarrow> bool" where
  "is_retryable e \<longleftrightarrow> \<not> never_retried e \<and> (is_source_unavailable e \<or> is_os_error e)"

definition attempt_count :: "raised \<Rightarrow> retry_policy \<Rightarrow> int" where
  "attempt_count r p = attempts_for (snd r) (if is_retryable (fst r) then rp_max_attempts p else 1)"

definition source_failure_of :: "source \<Rightarrow> py_error \<Rightarrow> int \<Rightarrow> source_failure" where
  "source_failure_of s e attempts =
     \<lparr>sf_source = so_name s, sf_error_type = error_type e, sf_message = error_str e, sf_attempts = attempts\<rparr>"

definition record_circuit_open :: "source \<Rightarrow> resource_key \<Rightarrow> py_error \<Rightarrow> 's world \<Rightarrow> 's world" where
  "record_circuit_open s k e w =
     emit [MetricIncrement ''source_fetch_total'' [(''status'', ''circuit_open''), (''source'', so_name s)],
           EventEmit ''source_circuit_open''
             [(''source'', PyStr (so_name s)), (''resource'', PyStr (key_str k)), (''error'', PyStr (error_str e))]] w"

text \<open>A breaker operation on the breaker of the world.\<close>

definition on_breaker ::
  "(circuit_breaker \<Rightarrow> (py_error + 'b) \<times> circuit_breaker) \<Rightarrow> 's world \<Rightarrow> (py_error + 'b) \<times> 's world" where
  "on_breaker f w = (let (r, b) = f (w_breaker w) in (r, w\<lparr>w_breaker := b\<rparr>))"

definition record_payload_circuit_outcome ::
  "'s builder \<Rightarrow> source \<Rightarrow> resource_key \<Rightarrow> source_payload \<Rightarrow> resilience_policy \<Rightarrow> 's world \<Rightarrow> (py_error + unit) \<times> 's world" where
  "record_payload_circuit_outcome bl s k p r w =
     (case payload_is_fresh bl k p (w_now w) of
        Inl e \<Rightarrow> (Inl e, w)
      | Inr fresh \<Rightarrow>
          on_breaker (if fresh then record_success (so_name s) (Some k) (Some (rs_circuit r))
                      else record_failure (so_name s) (Some k) (Some (rs_circuit r)) (w_mono w)) w)"

subsection \<open>Lemmas on the world\<close>

lemma emit_simps [simp]:
  "w_now (emit os w) = w_now w" "w_mono (emit os w) = w_mono w" "w_tick (emit os w) = w_tick w"
  "w_cache (emit os w) = w_cache w" "w_breaker (emit os w) = w_breaker w" "w_support (emit os w) = w_support w"
  "w_diag (emit os w) = w_diag w" "w_rt (emit os w) = w_rt w" "w_refreshing (emit os w) = w_refreshing w"
  "w_refresh_closed (emit os w) = w_refresh_closed w" "w_leases (emit os w) = w_leases w"
  "w_log (emit os w) = w_log w @ os" "w_health (emit os w) = w_health w"
  by (simp_all add: emit_def)

lemma count_diag_simps [simp]:
  "w_now (count_diag f w) = w_now w" "w_mono (count_diag f w) = w_mono w" "w_tick (count_diag f w) = w_tick w"
  "w_cache (count_diag f w) = w_cache w" "w_breaker (count_diag f w) = w_breaker w" "w_support (count_diag f w) = w_support w"
  "w_diag (count_diag f w) = f (w_diag w)" "w_rt (count_diag f w) = w_rt w" "w_refreshing (count_diag f w) = w_refreshing w"
  "w_refresh_closed (count_diag f w) = w_refresh_closed w" "w_leases (count_diag f w) = w_leases w"
  "w_log (count_diag f w) = w_log w" "w_health (count_diag f w) = w_health w"
  by (simp_all add: count_diag_def)

text \<open>An operation that keeps everything but the clocks keeps every component of the world.\<close>

lemma world_frame:
  assumes "clocks.more w' = clocks.more (w :: 's world)"
  shows "w_cache w' = w_cache w" "w_breaker w' = w_breaker w" "w_support w' = w_support w" "w_diag w' = w_diag w"
    "w_rt w' = w_rt w" "w_refreshing w' = w_refreshing w" "w_refresh_closed w' = w_refresh_closed w"
    "w_leases w' = w_leases w" "w_log w' = w_log w" "w_health w' = w_health w" "w_builder_closed w' = w_builder_closed w"
  using assms by (cases w; cases w'; simp)+

lemma await_frame: "clocks.more (snd (await_with_timeout delay operation timeout w)) = clocks.more w"
  by (auto simp: await_with_timeout_def Let_def split: option.splits)

lemma await_cases:
  assumes "await_with_timeout delay operation timeout w = (r, w')"
  obtains (completed) "r = Some (operation (w_tick w))" "w' = pass (delay (w_tick w)) (count_tick w)"
      "\<And>t. timeout = Some t \<Longrightarrow> delay (w_tick w) \<le> t"
  | (expired) t where "r = None" "timeout = Some t" "t < delay (w_tick w)" "w' = pass t (count_tick w)"
  using assms by (auto simp: await_with_timeout_def Let_def split: option.splits if_splits)

subsection \<open>Budgets and leases\<close>

lemma timeout_budget_cases:
  assumes "timeout_budget_for configured ctx s phase resource clk = Inr b"
  obtains (free) "fc_deadline_monotonic ctx = None" "tb_seconds b = configured" "\<not> tb_limited_by_deadline b"
  | (deadline) d where "fc_deadline_monotonic ctx = Some d" "clk < d" "tb_seconds b = Some (d - clk)"
      "tb_limited_by_deadline b" "\<And>c. configured = Some c \<Longrightarrow> d - clk \<le> c"
  | (configured) d c where "fc_deadline_monotonic ctx = Some d" "clk < d" "configured = Some c" "c < d - clk"
      "tb_seconds b = Some c" "\<not> tb_limited_by_deadline b"
  using assms by (auto simp: timeout_budget_for_def Let_def split: option.splits if_splits)

lemma timeout_budget_bounds:
  assumes "timeout_budget_for configured ctx s phase resource clk = Inr b"
  shows "\<And>c. configured = Some c \<Longrightarrow> \<exists>t. tb_seconds b = Some t \<and> t \<le> c"
    and "\<And>d. fc_deadline_monotonic ctx = Some d \<Longrightarrow> \<exists>t. tb_seconds b = Some t \<and> clk + t \<le> d"
  using assms by (auto elim!: timeout_budget_cases)

lemma acquire_capacity_leases:
  assumes "acquire_capacity ap s ctx resource w = (r, w')"
  shows "w_leases w' = w_leases w + (case r of Inl _ \<Rightarrow> 0 | Inr _ \<Rightarrow> 1)"
proof -
  have "w_leases (snd (await_with_timeout (ap_delay ap) (\<lambda>n. Inr () :: py_error + unit) t w)) = w_leases w" for t
    by (rule world_frame(8) [OF await_frame])
  then show ?thesis using assms
    by (auto simp: acquire_capacity_def Let_def split: sum.splits prod.splits option.splits if_splits
        elim: await_cases) (metis snd_conv)+
qed

lemma violation_frame:
  assumes "record_transport_timeout_violation bl s elapsed resource outcome force w = (r, w')"
  shows "w_leases w' = w_leases w" "w_mono w' = w_mono w" "w_now w' = w_now w" "w_tick w' = w_tick w" "w_diag w' = w_diag w"
    "w_cache w' = w_cache w" "w_breaker w' = w_breaker w" "w_support w' = w_support w" "w_rt w' = w_rt w"
    "w_refreshing w' = w_refreshing w" "w_refresh_closed w' = w_refresh_closed w"
  using assms by (auto simp: record_transport_timeout_violation_def split: option.splits if_splits sum.splits)

lemma ensure_frame:
  assumes "ensure_transport_timeout_fits_budget bl s budget resource w = (r, w')"
  shows "w_leases w' = w_leases w" "w_mono w' = w_mono w" "w_now w' = w_now w" "w_tick w' = w_tick w" "w_diag w' = w_diag w"
    "w_cache w' = w_cache w" "w_breaker w' = w_breaker w" "w_support w' = w_support w" "w_rt w' = w_rt w"
    "w_refreshing w' = w_refreshing w" "w_refresh_closed w' = w_refresh_closed w"
  using assms
  by (auto simp: ensure_transport_timeout_fits_budget_def Let_def split: option.splits if_splits)

text \<open>The four ways a guarded call can end.\<close>

lemma with_timeout_cases:
  assumes "with_timeout ap bl s ctx operation resource w = (r, w')"
  obtains (no_budget) e where "r = Inl e" "w' = w"
      "timeout_budget_for (seconds_of (so_timeout_seconds s)) ctx s ''calling the source'' resource (w_mono w) = Inl e"
  | (misfit) budget e where
      "timeout_budget_for (seconds_of (so_timeout_seconds s)) ctx s ''calling the source'' resource (w_mono w) = Inr budget"
      "ensure_transport_timeout_fits_budget bl s budget resource w = (Inl e, w')" "r = Inl e"
  | (called) budget w1 q w2 elapsed outcome force v where
      "timeout_budget_for (seconds_of (so_timeout_seconds s)) ctx s ''calling the source'' resource (w_mono w) = Inr budget"
      "ensure_transport_timeout_fits_budget bl s budget resource w = (Inr (), w1)"
      "await_with_timeout (ap_delay ap) operation (tb_seconds budget) w1 = (q, w2)"
      "record_transport_timeout_violation bl s elapsed resource outcome force w2 = (v, w')"
      "\<And>x. r = Inr x \<Longrightarrow> q = Some (Inr x)"
proof -
  let ?b = "timeout_budget_for (seconds_of (so_timeout_seconds s)) ctx s ''calling the source'' resource (w_mono w)"
  show ?thesis
  proof (cases ?b)
    case (Inl e)
    then show ?thesis using assms by (intro no_budget [of e]) (auto simp: with_timeout_def)
  next
    case b: (Inr budget)
    obtain f w1 where f: "ensure_transport_timeout_fits_budget bl s budget resource w = (f, w1)" by fastforce
    show ?thesis
    proof (cases f)
      case (Inl e)
      then show ?thesis using assms b f by (intro misfit [OF b, of e]) (auto simp: with_timeout_def)
    next
      case (Inr u)
      obtain q w2 where q: "await_with_timeout (ap_delay ap) operation (tb_seconds budget) w1 = (q, w2)" by fastforce
      have f': "ensure_transport_timeout_fits_budget bl s budget resource w = (Inr (), w1)" using f Inr by simp
      have "\<exists>outcome force v. record_transport_timeout_violation bl s (max 0 (w_mono w2 - w_mono w1)) resource outcome force w2 = (v, w')
          \<and> (\<forall>x. r = Inr x \<longrightarrow> q = Some (Inr x))"
        using assms b f' q
        by (auto simp: with_timeout_def Let_def split: option.splits sum.splits prod.splits)
      then show ?thesis using called [OF b f' q] by blast
    qed
  qed
qed

text \<open>
  A call ends within the time its budget leaves: the smaller of the timeout of the source and
  of the time to the deadline.
\<close>

lemma with_timeout_in_budget:
  assumes call: "with_timeout ap bl s ctx operation resource w = (r, w')" and delays: "delays_ok (ap_delay ap)"
  shows "\<And>c. seconds_of (so_timeout_seconds s) = Some c \<Longrightarrow> 0 \<le> c \<Longrightarrow> w_mono w' \<le> w_mono w + c"
    and "\<And>d. fc_deadline_monotonic ctx = Some d \<Longrightarrow> w_mono w \<le> d \<Longrightarrow> w_mono w' \<le> d"
proof -
  have "(\<forall>c. seconds_of (so_timeout_seconds s) = Some c \<longrightarrow> 0 \<le> c \<longrightarrow> w_mono w' \<le> w_mono w + c)
      \<and> (\<forall>d. fc_deadline_monotonic ctx = Some d \<longrightarrow> w_mono w \<le> d \<longrightarrow> w_mono w' \<le> d)"
    using call
  proof (cases rule: with_timeout_cases)
    case (called budget w1 q w2 elapsed outcome force v)
    have mono: "w_mono w1 = w_mono w" "w_mono w' = w_mono w2"
      using ensure_frame(2) [OF called(2)] violation_frame(2) [OF called(4)] by simp_all
    have "\<And>t. tb_seconds budget = Some t \<Longrightarrow> w_mono w2 \<le> w_mono w1 + t"
      using called(3) by (cases rule: await_cases) auto
    then show ?thesis using timeout_budget_bounds [OF called(1)] mono by fastforce
  qed (auto dest: ensure_frame(2))
  then show "\<And>c. seconds_of (so_timeout_seconds s) = Some c \<Longrightarrow> 0 \<le> c \<Longrightarrow> w_mono w' \<le> w_mono w + c"
    and "\<And>d. fc_deadline_monotonic ctx = Some d \<Longrightarrow> w_mono w \<le> d \<Longrightarrow> w_mono w' \<le> d" by blast+
qed

lemma with_timeout_leases:
  assumes "with_timeout ap bl s ctx operation resource w = (r, w')"
  shows "w_leases w' = w_leases w"
  using assms
proof (cases rule: with_timeout_cases)
  case (called budget w1 q w2 elapsed outcome force v)
  have "w_leases w2 = w_leases w1" using world_frame(8) [OF await_frame] called(3) by (metis snd_conv)
  then show ?thesis using ensure_frame(1) [OF called(2)] violation_frame(1) [OF called(4)] by simp
qed (auto dest: ensure_frame(1))

lemma leased_call_leases:
  assumes "leased_call ap bl s ctx kind operation resource w = (r, w')"
  shows "w_leases w' = w_leases w"
proof -
  obtain a w1 where a: "acquire_capacity ap s ctx resource w = (a, w1)" by fastforce
  obtain q w2 where q: "with_timeout ap bl s ctx operation resource (count_diag (record_source_call (so_name s) kind) w1) = (q, w2)"
    by fastforce
  show ?thesis using assms a q acquire_capacity_leases [OF a] with_timeout_leases [OF q]
    by (cases a) (auto simp: leased_call_def release_lease_def)
qed

lemma acquire_capacity_in_budget:
  assumes acq: "acquire_capacity ap s ctx resource w = (r, w')"
  shows "\<And>c. seconds_of (case so_queue_timeout_seconds s of None \<Rightarrow> so_timeout_seconds s | Some q \<Rightarrow> q) = Some c
      \<Longrightarrow> 0 \<le> c \<Longrightarrow> w_mono w' \<le> w_mono w + c"
    and "\<And>d. fc_deadline_monotonic ctx = Some d \<Longrightarrow> w_mono w \<le> d \<Longrightarrow> w_mono w' \<le> d"
proof -
  let ?c = "seconds_of (case so_queue_timeout_seconds s of None \<Rightarrow> so_timeout_seconds s | Some q \<Rightarrow> q)"
  have "(\<forall>c. ?c = Some c \<longrightarrow> 0 \<le> c \<longrightarrow> w_mono w' \<le> w_mono w + c)
      \<and> (\<forall>d. fc_deadline_monotonic ctx = Some d \<longrightarrow> w_mono w \<le> d \<longrightarrow> w_mono w' \<le> d)"
  proof (cases "timeout_budget_for ?c ctx s ''waiting for capacity'' resource (w_mono w)")
    case (Inr budget)
    obtain q w1 where q: "await_with_timeout (ap_delay ap) (\<lambda>n. Inr () :: py_error + unit) (tb_seconds budget) w = (q, w1)"
      by fastforce
    have "\<And>t. tb_seconds budget = Some t \<Longrightarrow> w_mono w1 \<le> w_mono w + t" using q by (cases rule: await_cases) auto
    moreover have "w_mono w' = w_mono w1" using acq Inr q
      by (auto simp: acquire_capacity_def Let_def split: option.splits if_splits)
    ultimately show ?thesis using timeout_budget_bounds [OF Inr] by fastforce
  qed (use acq in \<open>auto simp: acquire_capacity_def Let_def\<close>)
  then show "\<And>c. ?c = Some c \<Longrightarrow> 0 \<le> c \<Longrightarrow> w_mono w' \<le> w_mono w + c"
    and "\<And>d. fc_deadline_monotonic ctx = Some d \<Longrightarrow> w_mono w \<le> d \<Longrightarrow> w_mono w' \<le> d" by blast+
qed

lemma coerce_payload_leases: "w_leases (snd (coerce_payload ap bl raw nm ctx w)) = w_leases w"
  unfolding coerce_payload_def by (rule world_frame(8) [OF copy_run_frame])

lemma copy_map_leases: "w_leases (snd (copy_map delay cf operation deadline nm xs (w :: 's world))) = w_leases w"
  by (rule world_frame(8) [OF copy_map_frame])

text \<open>What a source call can never change: the cache, the memo, the breaker, the refreshes.\<close>

definition same_shared :: "'s world \<Rightarrow> 's world \<Rightarrow> bool" where
  "same_shared w w' \<longleftrightarrow> w_cache w' = w_cache w \<and> w_breaker w' = w_breaker w \<and> w_support w' = w_support w
     \<and> w_rt w' = w_rt w \<and> w_refreshing w' = w_refreshing w \<and> w_refresh_closed w' = w_refresh_closed w"

lemma same_shared_refl [simp]: "same_shared w w"
  by (simp add: same_shared_def)

lemma same_shared_trans: "same_shared w w1 \<Longrightarrow> same_shared w1 w2 \<Longrightarrow> same_shared w w2"
  by (simp add: same_shared_def)

lemma same_shared_clocks: "clocks.more w' = clocks.more w \<Longrightarrow> same_shared w w'"
  using world_frame [of w' w] by (simp add: same_shared_def)

lemma same_shared_notes [simp]:
  "same_shared w (emit os w)" "same_shared w (count_diag f w)" "same_shared w (release_lease w)"
  "same_shared w (w\<lparr>w_leases := n\<rparr>)" "same_shared w (w\<lparr>w_health := h\<rparr>)"
  by (simp_all add: same_shared_def release_lease_def)

lemma same_shared_copies [simp]:
  "same_shared w (snd (copy_map delay cf operation deadline nm xs w))"
  "same_shared w (snd (copy_run delay cf task deadline nm w))"
  "same_shared w (snd (coerce_payload ap bl raw nm ctx w))"
  by (simp_all add: same_shared_clocks copy_run_frame coerce_payload_def)

lemma acquire_capacity_shared: "same_shared w (snd (acquire_capacity ap s ctx resource w))"
proof (cases "timeout_budget_for (seconds_of (case so_queue_timeout_seconds s of None \<Rightarrow> so_timeout_seconds s | Some q \<Rightarrow> q))
    ctx s ''waiting for capacity'' resource (w_mono w)")
  case (Inr budget)
  obtain q w1 where q: "await_with_timeout (ap_delay ap) (\<lambda>n. Inr () :: py_error + unit) (tb_seconds budget) w = (q, w1)"
    by fastforce
  have w1: "same_shared w w1"
    using same_shared_clocks [OF await_frame [of "ap_delay ap" "\<lambda>n. Inr () :: py_error + unit" "tb_seconds budget" w]] q by simp
  have "same_shared w1 (snd (acquire_capacity ap s ctx resource w))"
    using q Inr by (auto simp: acquire_capacity_def Let_def split: option.splits) (simp_all add: same_shared_def)
  with w1 show ?thesis by (rule same_shared_trans)
qed (simp add: acquire_capacity_def)

lemma with_timeout_shared:
  assumes "with_timeout ap bl s ctx operation resource w = (r, w')"
  shows "same_shared w w'"
  using assms
proof (cases rule: with_timeout_cases)
  case (called budget w1 q w2 elapsed outcome force v)
  have "same_shared w1 w2"
    using same_shared_clocks [OF await_frame [of "ap_delay ap" operation "tb_seconds budget" w1]] called(3) by simp
  then show ?thesis using ensure_frame [OF called(2)] violation_frame [OF called(4)] by (simp add: same_shared_def)
qed (auto simp: same_shared_def ensure_frame)

lemma leased_call_shared: "same_shared w (snd (leased_call ap bl s ctx kind operation resource w))"
proof -
  obtain a w1 where a: "acquire_capacity ap s ctx resource w = (a, w1)" by fastforce
  obtain q w2 where q: "with_timeout ap bl s ctx operation resource (count_diag (record_source_call (so_name s) kind) w1) = (q, w2)"
    by fastforce
  have 1: "same_shared w w1" using acquire_capacity_shared [of w ap s ctx resource] a by simp
  have "same_shared w (release_lease w2)"
    using 1 with_timeout_shared [OF q] by (simp add: same_shared_def release_lease_def)
  with 1 a q show ?thesis by (cases a) (simp_all add: leased_call_def)
qed

lemma source_calls_shared:
  "same_shared w (snd (fetch_once ap bl s k ctx w))"
  "same_shared w (snd (derive_once ap bl s k deps ctx w))"
  "same_shared w (snd (fetch_many_once ap bl s keys ctx w))"
proof -
  show "same_shared w (snd (fetch_once ap bl s k ctx w))"
    using leased_call_shared [of w ap bl s ctx SingleKind "ap_fetch ap (so_name s) k" "Some k"]
    by (auto simp: fetch_once_def intro: same_shared_trans split: prod.splits sum.splits)
  show "same_shared w (snd (derive_once ap bl s k deps ctx w))"
    using leased_call_shared [of w ap bl s ctx DerivedKind "ap_derive ap (so_name s) k deps" "Some k"]
    by (auto simp: derive_once_def intro: same_shared_trans split: prod.splits sum.splits)
  obtain r w1 where 1: "leased_call ap bl s ctx BatchKind (ap_fetch_many ap (so_name s) keys) None w = (r, w1)" by fastforce
  have w1: "same_shared w w1" using leased_call_shared [of w ap bl s ctx BatchKind "ap_fetch_many ap (so_name s) keys" None] 1 by simp
  show "same_shared w (snd (fetch_many_once ap bl s keys ctx w))"
    using w1 1
    by (cases r) (simp_all add: fetch_many_once_def Let_def same_shared_trans [OF w1 same_shared_copies(1)] split: raw_batch.splits)
qed

lemma fetch_once_leases: "w_leases (snd (fetch_once ap bl s k ctx w)) = w_leases w"
proof -
  obtain r w1 where 1: "leased_call ap bl s ctx SingleKind (ap_fetch ap (so_name s) k) (Some k) w = (r, w1)" by fastforce
  show ?thesis using leased_call_leases [OF 1] 1 by (cases r) (simp_all add: fetch_once_def coerce_payload_leases)
qed

lemma derive_once_leases: "w_leases (snd (derive_once ap bl s k deps ctx w)) = w_leases w"
proof -
  obtain r w1 where 1: "leased_call ap bl s ctx DerivedKind (ap_derive ap (so_name s) k deps) (Some k) w = (r, w1)" by fastforce
  show ?thesis using leased_call_leases [OF 1] 1 by (cases r) (simp_all add: derive_once_def coerce_payload_leases)
qed

lemma fetch_many_once_leases: "w_leases (snd (fetch_many_once ap bl s keys ctx w)) = w_leases w"
proof -
  obtain r w1 where 1: "leased_call ap bl s ctx BatchKind (ap_fetch_many ap (so_name s) keys) None w = (r, w1)" by fastforce
  show ?thesis using leased_call_leases [OF 1] 1
    by (cases r) (simp_all add: fetch_many_once_def Let_def copy_map_leases split: raw_batch.splits)
qed


text \<open>The transport timeout fits the budget when it is shorter, or exceeds a deadline budget by less than the grace.\<close>

definition transport_fits :: "'s builder \<Rightarrow> rat \<Rightarrow> timeout_budget \<Rightarrow> bool" where
  "transport_fits bl transport b \<longleftrightarrow>
     (\<forall>t. tb_seconds b = Some t \<longrightarrow>
        transport < t \<or> (tb_limited_by_deadline b \<and> transport < t + bl_deadline_dispatch_grace_seconds bl))"

lemma ensure_rejects_iff:
  assumes "guarded_transport bl s = Some transport"
  shows "(\<exists>e w'. ensure_transport_timeout_fits_budget bl s b resource w = (Inl e, w')) \<longleftrightarrow> \<not> transport_fits bl transport b"
  using assms
  by (auto simp: ensure_transport_timeout_fits_budget_def transport_fits_def Let_def split: option.splits)

text \<open>
  A source whose blocking transport could outlive the time left is not called: the external
  operation is started (one more call is counted) exactly when the declared transport timeout
  fits the budget; otherwise the call fails without running and without time passing.
\<close>

lemma transport_misfit_not_dispatched:
  assumes "with_timeout ap bl s ctx operation resource w = (r, w')" and "guarded_transport bl s = Some transport"
    and "timeout_budget_for (seconds_of (so_timeout_seconds s)) ctx s ''calling the source'' resource (w_mono w) = Inr b"
  shows "(w_tick w' = w_tick w + 1 \<longleftrightarrow> transport_fits bl transport b)
    \<and> (\<not> transport_fits bl transport b \<longrightarrow> (\<exists>e. r = Inl e) \<and> w_tick w' = w_tick w \<and> w_mono w' = w_mono w)"
  using assms(1)
proof (cases rule: with_timeout_cases)
  case (misfit budget e)
  then show ?thesis using assms ensure_rejects_iff [OF assms(2), of b resource w] ensure_frame(2,4) [OF misfit(2)] by auto
next
  case (called budget w1 q w2 elapsed outcome force v)
  have "w_tick w2 = w_tick w1 + 1" using called(3) by (cases rule: await_cases) auto
  moreover have "transport_fits bl transport b"
    using assms(3) called(1,2) ensure_rejects_iff [OF assms(2), of b resource w] by auto
  ultimately show ?thesis using ensure_frame(4) [OF called(2)] violation_frame(4) [OF called(4)] by simp
qed (use assms in simp)

subsection \<open>A concrete builder for witnesses\<close>

definition fixture_app :: "rat \<Rightarrow> app" where
  "fixture_app delay = \<lparr>ap_delay = (\<lambda>n. delay), ap_supports = (\<lambda>src k. Inr True),
     ap_fetch = (\<lambda>src k n. Inr (RawValue (PyInt 7))), ap_fetch_many = (\<lambda>src ks n. Inr (RawMapping [])),
     ap_dependencies = (\<lambda>src k. Inr []), ap_derive = (\<lambda>src k deps n. Inr (RawValue (PyInt 7))),
     ap_joined = (\<lambda>k n. None), ap_uniform = (\<lambda>a b. a), ap_uuid = (\<lambda>n. ''v'' @ nat_str n)\<rparr>"

definition fixture_builder :: "memory_cache builder" where
  "fixture_builder = \<lparr>bl_ops = memory_cache_ops deepcopy_payload, bl_catalog = fixture_catalog,
     bl_policies = \<lparr>pr_default = fixture_policy_ttl 10 60, pr_overrides = [], pr_dynamic = None\<rparr>,
     bl_authority = \<lparr>au_default = \<lparr>ay_source_ranks = [], ay_default_rank = 0\<rparr>, au_overrides = [], au_dynamic = None\<rparr>,
     bl_observation = \<lparr>op_future_tolerance_seconds = 1, op_reject_future_observations = True\<rparr>,
     bl_copier = deepcopy_payload, bl_copy = \<lparr>cf_component = ''builder'', cf_closing = False, cf_run_in_thread = False\<rparr>,
     bl_capacity = fixture_controller, bl_max_concurrency = 4, bl_max_pending_tasks = 8,
     bl_transport_timeout_grace_seconds = 1, bl_deadline_dispatch_grace_seconds = 1/2,
     bl_recursion_limit = 100\<rparr>"

definition fixture_world :: "memory_cache world" where
  "fixture_world = \<lparr>w_now = 100, w_mono = 50, w_tick = 0, w_cache = fixture_cache None [], w_breaker = fixture_breaker,
     w_support = [], w_diag = new_collector 50, w_rt = new_runtime, w_refreshing = [], w_refresh_closed = False,
     w_leases = 0, w_log = [], w_health = new_health_tracker, w_builder_closed = False\<rparr>"

definition fixture_context :: "rat option \<Rightarrow> fetch_context" where
  "fixture_context deadline = \<lparr>fc_requested_at = 100, fc_deadline_at = None, fc_deadline_monotonic = deadline,
     fc_metadata = [], fc_snapshot_id = ''s''\<rparr>"

lemma fixture_delays_ok: "0 \<le> d \<Longrightarrow> delays_ok (ap_delay (fixture_app d))"
  by (simp add: delays_ok_def fixture_app_def)

lemma fixture_guarded: "guarded_transport fixture_builder (fixture_source ''feed'') = Some 2"
  by (simp add: guarded_transport_def fixture_builder_def fixture_catalog_def fixture_source_def fixture_guarantee_def)


lemma transport_misfit_not_dispatched_witness:
  "\<exists>e w'. with_timeout (fixture_app 1) fixture_builder (fixture_source ''feed'') (fixture_context (Some 51))
       (\<lambda>n. Inr (RawValue (PyInt 7))) None fixture_world = (Inl e, w') \<and> w_tick w' = 0"
proof -
  obtain r w' where c: "with_timeout (fixture_app 1) fixture_builder (fixture_source ''feed'') (fixture_context (Some 51))
       (\<lambda>n. Inr (RawValue (PyInt 7))) None fixture_world = (r, w')" by fastforce
  let ?b = "\<lparr>tb_seconds = Some 1, tb_limited_by_deadline = True\<rparr>"
  have b: "timeout_budget_for (seconds_of (so_timeout_seconds (fixture_source ''feed''))) (fixture_context (Some 51))
      (fixture_source ''feed'') ''calling the source'' None (w_mono fixture_world) = Inr ?b"
    by (simp add: timeout_budget_for_def fixture_context_def fixture_world_def fixture_source_def seconds_of_def)
  have "\<not> transport_fits fixture_builder 2 ?b" by (simp add: transport_fits_def fixture_builder_def)
  with transport_misfit_not_dispatched [OF c fixture_guarded b] have "\<exists>e. r = Inl e" "w_tick w' = w_tick fixture_world"
    by simp_all
  then show ?thesis using c by (auto simp: fixture_world_def)
qed

end
