(* ===== verification/Source_Executor.thy ===== *)
theory Source_Executor
  imports Source_Calls Dispatch
begin

section \<open>Source attempts (orchestration/source_executor.py)\<close>

text \<open>
  An attempt asks one source for some keys and returns one outcome per key. Exceptions carry
  the attempt count that \<open>run_with_retry\<close> attaches, so the body of a \<^verbatim>\<open>try\<close> raises a
  pair; an exception of another call has no count. \<open>run_bounded\<close> is the loop in order; that its
  workers return the same results in any interleaving is shown in \<open>Dispatch\<close>.
\<close>

subsection \<open>Shared pieces\<close>

definition run_bounded :: "int \<Rightarrow> ('a \<Rightarrow> ('s, 'b) act) \<Rightarrow> 'a list \<Rightarrow> ('s, 'b list) act" where
  "run_bounded max_tasks operation items =
     (if max_tasks < 1 then throw (ArgError (ValueError ''max_tasks must be at least 1'')) else each operation items)"

definition add_retries :: "int \<Rightarrow> diagnostics_collector \<Rightarrow> diagnostics_collector" where
  "add_retries attempts d = d\<lparr>dc_retries := dc_retries d + nat (max 0 (attempts - 1))\<rparr>"

definition add_future_rejections :: "nat \<Rightarrow> diagnostics_collector \<Rightarrow> diagnostics_collector" where
  "add_future_rejections n d = d\<lparr>dc_future_timestamp_rejections := dc_future_timestamp_rejections d + n\<rparr>"

definition count_health :: "(health_tracker \<Rightarrow> health_tracker) \<Rightarrow> 's world \<Rightarrow> 's world" where
  "count_health f w = w\<lparr>w_health := f (w_health w)\<rparr>"

definition failed_attempt :: "py_error \<Rightarrow> int \<Rightarrow> rat \<Rightarrow> source_attempt" where
  "failed_attempt e attempts latency =
     \<lparr>sa_outcome = Inl e, sa_attempts = attempts, sa_latency_ms = latency, sa_dependency_versions = []\<rparr>"

definition paid_attempt :: "source_payload \<Rightarrow> int \<Rightarrow> rat \<Rightarrow> (resource_key, string) odict \<Rightarrow> source_attempt" where
  "paid_attempt p attempts latency deps =
     \<lparr>sa_outcome = Inr p, sa_attempts = attempts, sa_latency_ms = latency, sa_dependency_versions = deps\<rparr>"

fun is_infix :: "string \<Rightarrow> string \<Rightarrow> bool" where
  "is_infix pat [] = (pat = [])"
| "is_infix pat (c # cs) = (take (length pat) (c # cs) = pat \<or> is_infix pat cs)"

fun is_protocol_error :: "py_error \<Rightarrow> bool" where
  "is_protocol_error (SourceProtocolError m) = True"
| "is_protocol_error _ = False"

fun is_circuit_open :: "py_error \<Rightarrow> bool" where
  "is_circuit_open (CircuitOpenError m) = True"
| "is_circuit_open _ = False"

fun is_deadline_exceeded :: "py_error \<Rightarrow> bool" where
  "is_deadline_exceeded (SnapshotDeadlineExceededError m) = True"
| "is_deadline_exceeded _ = False"

fun is_queue_timeout :: "py_error \<Rightarrow> bool" where
  "is_queue_timeout (SourceQueueTimeoutError m) = True"
| "is_queue_timeout _ = False"

fun is_dependency_error :: "py_error \<Rightarrow> bool" where
  "is_dependency_error (DependencyCycleError p) = True"
| "is_dependency_error (DependencyResolutionError k s es) = True"
| "is_dependency_error _ = False"

fun is_builtin_timeout :: "py_error \<Rightarrow> bool" where
  "is_builtin_timeout (TimeoutError m) = True"
| "is_builtin_timeout _ = False"

definition is_future_rejection :: "py_error \<Rightarrow> bool" where
  "is_future_rejection e \<longleftrightarrow> is_protocol_error e \<and> is_infix ''in the future'' (error_str e)"

definition skip_health :: "py_error \<Rightarrow> health_tracker \<Rightarrow> health_tracker" where
  "skip_health e h = (if is_deadline_exceeded e then record_deadline_exceeded h else record_queue_timeout h)"

definition timeout_health :: "py_error \<Rightarrow> health_tracker \<Rightarrow> health_tracker" where
  "timeout_health e h = (if is_source_timeout e \<or> is_builtin_timeout e then record_source_timeout h else h)"

text \<open>The breaker calls of an attempt.\<close>

definition breaker_before :: "source \<Rightarrow> resource_key \<Rightarrow> resilience_policy \<Rightarrow> ('s world, circuit_identity) act" where
  "breaker_before s k r w = on_breaker (before_call (so_name s) (Some k) (Some (rs_circuit r)) (w_mono w)) w"

definition breaker_success :: "source \<Rightarrow> resource_key \<Rightarrow> resilience_policy \<Rightarrow> ('s world, unit) act" where
  "breaker_success s k r w = on_breaker (record_success (so_name s) (Some k) (Some (rs_circuit r))) w"

definition breaker_failure :: "source \<Rightarrow> resource_key \<Rightarrow> resilience_policy \<Rightarrow> ('s world, unit) act" where
  "breaker_failure s k r w = on_breaker (record_failure (so_name s) (Some k) (Some (rs_circuit r)) (w_mono w)) w"

definition breaker_abandoned :: "source \<Rightarrow> resource_key \<Rightarrow> resilience_policy \<Rightarrow> ('s world, unit) act" where
  "breaker_abandoned s k r w = on_breaker (record_abandoned (so_name s) (Some k) (Some (rs_circuit r)) (w_mono w)) w"

definition breaker_skipped :: "source \<Rightarrow> resource_key \<Rightarrow> resilience_policy \<Rightarrow> ('s world, unit) act" where
  "breaker_skipped s k r w = on_breaker (record_skipped (so_name s) (Some k) (Some (rs_circuit r))) w"

definition call_with_retry ::
  "app \<Rightarrow> resilience_policy \<Rightarrow> fetch_context \<Rightarrow> ('s world, 'b) act \<Rightarrow> 's world \<Rightarrow> (raised + 'b \<times> int) \<times> 's world" where
  "call_with_retry ap r ctx call w =
     run_with_retry call (ap_uniform ap) (rs_retry r) is_retryable (fc_deadline_monotonic ctx) w_mono pass w"

text \<open>The admitted, retried and recorded call of one key.\<close>

definition guarded_call ::
  "app \<Rightarrow> 's builder \<Rightarrow> source \<Rightarrow> resource_key \<Rightarrow> fetch_context \<Rightarrow> resilience_policy \<Rightarrow> ('s world, source_payload) act
    \<Rightarrow> 's world \<Rightarrow> (raised + source_payload \<times> int) \<times> 's world" where
  "guarded_call ap bl s k ctx r call w =
     (case breaker_before s k r w of
        (Inl e, w1) \<Rightarrow> (Inl (e, None), w1)
      | (Inr _, w1) \<Rightarrow>
          (case call_with_retry ap r ctx call w1 of
             (Inl x, w2) \<Rightarrow> (Inl x, w2)
           | (Inr (p, n), w2) \<Rightarrow>
               (case record_payload_circuit_outcome bl s k p r (count_diag (add_retries n) w2) of
                  (Inl e, w3) \<Rightarrow> (Inl (e, None), w3)
                | (Inr _, w3) \<Rightarrow> (Inr (p, n), w3))))"

definition record_latencies :: "source \<Rightarrow> (resource_key \<times> source_attempt) list \<Rightarrow> diagnostics_collector \<Rightarrow> diagnostics_collector" where
  "record_latencies s completed d = foldl (\<lambda>d p. record_source_latency (so_name s) (sa_latency_ms (snd p)) d) d completed"

subsection \<open>Single sources\<close>

definition abandon_call :: "source \<Rightarrow> resource_key \<Rightarrow> resilience_policy \<Rightarrow> py_error \<Rightarrow> ('s world, 'b) act" where
  "abandon_call s k r e = bind_act (breaker_abandoned s k r) (\<lambda>_. throw e)"

definition skipped_attempt ::
  "source \<Rightarrow> resource_key \<Rightarrow> resilience_policy \<Rightarrow> rat \<Rightarrow> raised \<Rightarrow> ('s world, resource_key \<times> source_attempt) act" where
  "skipped_attempt s k r started x =
     bind_act (updates (count_health (skip_health (fst x)))) (\<lambda>_.
     bind_act (breaker_skipped s k r) (\<lambda>_.
       reads (\<lambda>w. (k, failed_attempt (fst x) (attempt_count x (rs_retry r)) (elapsed_ms started w)))))"

definition refused_attempt ::
  "source \<Rightarrow> resource_key \<Rightarrow> rat \<Rightarrow> py_error \<Rightarrow> ('s world, resource_key \<times> source_attempt) act" where
  "refused_attempt s k started e =
     bind_act (updates (record_circuit_open s k e)) (\<lambda>_. reads (\<lambda>w. (k, failed_attempt e 0 (elapsed_ms started w))))"

definition handle_fetch_error ::
  "source \<Rightarrow> resource_key \<Rightarrow> resilience_policy \<Rightarrow> rat \<Rightarrow> raised \<Rightarrow> ('s world, resource_key \<times> source_attempt) act" where
  "handle_fetch_error s k r started x =
     (let e = fst x; attempts = attempt_count x (rs_retry r)
      in if e = CancelledError then abandon_call s k r e
         else if is_deadline_exceeded e \<or> is_queue_timeout e then skipped_attempt s k r started x
         else if is_circuit_open e then refused_attempt s k started e
         else
           bind_act (updates (count_health (timeout_health e))) (\<lambda>_.
           bind_act (breaker_failure s k r) (\<lambda>_.
           bind_act (updates (count_diag (add_future_rejections (if is_future_rejection e then 1 else 0)))) (\<lambda>_.
           bind_act (updates (count_diag (add_retries attempts))) (\<lambda>_.
             reads (\<lambda>w. (k, failed_attempt e attempts (elapsed_ms started w))))))))"

definition fetch_one ::
  "app \<Rightarrow> 's builder \<Rightarrow> source \<Rightarrow> resilience_policy \<Rightarrow> fetch_context \<Rightarrow> resource_key
    \<Rightarrow> ('s world, resource_key \<times> source_attempt) act" where
  "fetch_one ap bl s r ctx k w =
     (case guarded_call ap bl s k ctx r (fetch_once ap bl s k ctx) w of
        (Inl x, w1) \<Rightarrow> handle_fetch_error s k r (w_mono w) x w1
      | (Inr (p, n), w1) \<Rightarrow> (Inr (k, paid_attempt p n (elapsed_ms (w_mono w) w1) []), w1))"

definition collect_attempts ::
  "source \<Rightarrow> (resource_key \<times> source_attempt) list \<Rightarrow> ('s world, (resource_key, source_attempt) odict) act" where
  "collect_attempts s completed =
     bind_act (updates (count_diag (record_latencies s completed))) (\<lambda>_. ret (od_of completed))"

definition attempt_single_source ::
  "app \<Rightarrow> 's builder \<Rightarrow> source \<Rightarrow> resource_key list \<Rightarrow> fetch_context
    \<Rightarrow> ('s world, (resource_key, source_attempt) odict) act" where
  "attempt_single_source ap bl s keys ctx =
     bind_act (lift_res (resilience_for (bl_catalog bl) s)) (\<lambda>r.
     bind_act (run_bounded (bl_max_pending_tasks bl) (fetch_one ap bl s r ctx) keys) (collect_attempts s))"

subsection \<open>Batch sources\<close>

text \<open>
  One pass over the circuits of the batch: a refused circuit fails its keys, an admitted one
  joins the call.
\<close>

definition admit_group ::
  "source \<Rightarrow> resilience_policy \<Rightarrow> rat \<Rightarrow> resource_key \<times> resource_key list
    \<Rightarrow> (resource_key, source_attempt) odict \<times> (resource_key \<times> resource_key list) list
    \<Rightarrow> ('s world, (resource_key, source_attempt) odict \<times> (resource_key \<times> resource_key list) list) act" where
  "admit_group s r started grp acc =
     handle (breaker_before s (fst grp) r)
       (\<lambda>_. ret (fst acc, snd acc @ [grp]))
       (\<lambda>e. if is_circuit_open e
            then bind_act (updates (record_circuit_open s (fst grp) e)) (\<lambda>_.
                   reads (\<lambda>w. (od_update (fst acc) (map (\<lambda>k. (k, failed_attempt e 0 (elapsed_ms started w))) (snd grp)),
                               snd acc)))
            else throw e)"

definition invalid_payloads ::
  "'s builder \<Rightarrow> (resource_key, source_payload) odict \<Rightarrow> rat \<Rightarrow> (resource_key, py_error) odict" where
  "invalid_payloads bl payloads now =
     concat (map (\<lambda>(k, p). case validate_payload_timestamp bl k p now of Inl e \<Rightarrow> [(k, e)] | Inr _ \<Rightarrow> []) payloads)"

text \<open>\<^verbatim>\<open>any(key in returned and payload_is_fresh(key, payloads[key]) ...)\<close>\<close>

fun any_fresh ::
  "'s builder \<Rightarrow> (resource_key, source_payload) odict \<Rightarrow> (resource_key, py_error) odict \<Rightarrow> rat \<Rightarrow> resource_key list
    \<Rightarrow> py_error + bool" where
  "any_fresh bl payloads invalid now [] = Inr False"
| "any_fresh bl payloads invalid now (k # ks) =
     (case (map_of payloads k, map_of invalid k) of
        (Some p, None) \<Rightarrow> res_bind (payload_is_fresh bl k p now) (\<lambda>b. if b then Inr True else any_fresh bl payloads invalid now ks)
      | _ \<Rightarrow> any_fresh bl payloads invalid now ks)"

definition record_group_outcome ::
  "'s builder \<Rightarrow> source \<Rightarrow> resilience_policy \<Rightarrow> (resource_key, source_payload) odict \<Rightarrow> (resource_key, py_error) odict
    \<Rightarrow> resource_key \<times> resource_key list \<Rightarrow> ('s world, unit) act" where
  "record_group_outcome bl s r payloads invalid grp =
     bind_act (reads w_now) (\<lambda>now.
     bind_act (lift_res (any_fresh bl payloads invalid now (snd grp))) (\<lambda>fresh.
       if fresh then breaker_success s (fst grp) r else breaker_failure s (fst grp) r))"

definition batch_attempt ::
  "source \<Rightarrow> (resource_key, source_payload) odict \<Rightarrow> (resource_key, py_error) odict \<Rightarrow> int \<Rightarrow> rat \<Rightarrow> resource_key
    \<Rightarrow> source_attempt" where
  "batch_attempt s payloads invalid attempts latency k =
     (case map_of invalid k of
        Some e \<Rightarrow> failed_attempt e attempts latency
      | None \<Rightarrow>
          (case map_of payloads k of
             Some p \<Rightarrow> paid_attempt p attempts latency []
           | None \<Rightarrow> failed_attempt (SourceUnavailableError (''batch source '' @ so_name s @ '' omitted resource '' @ key_str k))
                        attempts latency))"

definition batch_metric :: "source \<Rightarrow> string \<Rightarrow> obs" where
  "batch_metric s status = MetricIncrement ''source_batch_call_total'' [(''status'', status), (''source'', so_name s)]"

text \<open>The body of the \<^verbatim>\<open>try\<close> of a batch.\<close>

definition batch_body ::
  "app \<Rightarrow> 's builder \<Rightarrow> source \<Rightarrow> resilience_policy \<Rightarrow> fetch_context \<Rightarrow> rat \<Rightarrow> (resource_key \<times> resource_key list) list
    \<Rightarrow> resource_key list \<Rightarrow> 's world \<Rightarrow> (raised + (resource_key \<times> source_attempt) list) \<times> 's world" where
  "batch_body ap bl s r ctx started groups active w =
     (case call_with_retry ap r ctx (fetch_many_once ap bl s active ctx) w of
        (Inl x, w1) \<Rightarrow> (Inl x, w1)
      | (Inr (payloads, n), w1) \<Rightarrow>
          (let latency = elapsed_ms started w1; invalid = invalid_payloads bl payloads (w_now w1);
               w2 = count_diag (\<lambda>d. add_future_rejections (length invalid)
                      (record_source_latency (so_name s) latency (add_retries n d))) w1
           in case each (record_group_outcome bl s r payloads invalid) groups w2 of
                (Inl e, w3) \<Rightarrow> (Inl (e, None), w3)
              | (Inr _, w3) \<Rightarrow>
                  (Inr (map (\<lambda>k. (k, batch_attempt s payloads invalid n latency k)) active),
                   emit [batch_metric s ''success'',
                         MetricObserve ''source_batch_size'' (of_nat (length active)) [(''source'', so_name s)]] w3)))"

definition handle_batch_error ::
  "source \<Rightarrow> resilience_policy \<Rightarrow> rat \<Rightarrow> (resource_key \<times> resource_key list) list \<Rightarrow> resource_key list \<Rightarrow> raised
    \<Rightarrow> ('s world, (resource_key \<times> source_attempt) list) act" where
  "handle_batch_error s r started groups active x =
     (let e = fst x; attempts = attempt_count x (rs_retry r); skipped = (is_deadline_exceeded e \<or> is_queue_timeout e);
          status = (if is_deadline_exceeded e then ''deadline_exceeded'' else if is_queue_timeout e then ''queue_timeout''
                    else ''failure'')
      in if e = CancelledError then bind_act (each (\<lambda>g. breaker_abandoned s (fst g) r) groups) (\<lambda>_. throw e)
         else
           bind_act (updates (count_health (if skipped then skip_health e else timeout_health e))) (\<lambda>_.
           bind_act (each (\<lambda>g. if skipped then breaker_skipped s (fst g) r else breaker_failure s (fst g) r) groups) (\<lambda>_.
           bind_act (reads (elapsed_ms started)) (\<lambda>latency.
           bind_act (updates (count_diag (\<lambda>d. add_retries attempts (record_source_latency (so_name s) latency d)))) (\<lambda>_.
           bind_act (updates (emit [batch_metric s status])) (\<lambda>_.
             ret (map (\<lambda>k. (k, failed_attempt e attempts latency)) active)))))))"

definition call_batch ::
  "app \<Rightarrow> 's builder \<Rightarrow> source \<Rightarrow> resilience_policy \<Rightarrow> fetch_context \<Rightarrow> rat \<Rightarrow> (resource_key \<times> resource_key list) list
    \<Rightarrow> resource_key list \<Rightarrow> ('s world, (resource_key \<times> source_attempt) list) act" where
  "call_batch ap bl s r ctx started groups active w =
     (case batch_body ap bl s r ctx started groups active w of
        (Inr rs, w1) \<Rightarrow> (Inr rs, w1)
      | (Inl x, w1) \<Rightarrow> handle_batch_error s r started groups active x w1)"

definition attempt_batch_source ::
  "app \<Rightarrow> 's builder \<Rightarrow> source \<Rightarrow> resource_key list \<Rightarrow> fetch_context
    \<Rightarrow> ('s world, (resource_key, source_attempt) odict) act" where
  "attempt_batch_source ap bl s keys ctx =
     (let requested = fromkeys keys
      in bind_act (lift_res (resilience_for (bl_catalog bl) s)) (\<lambda>r.
         bind_act (reads w_mono) (\<lambda>started.
         bind_act (reads w_breaker) (\<lambda>b.
         bind_act (lift_res (lift_arg (circuit_groups b s requested r))) (\<lambda>groups.
         bind_act (fold_act (admit_group s r started) groups ([], [])) (\<lambda>(results, active_groups).
           let allowed = concat (map snd active_groups); active = filter (\<lambda>k. k \<in> set allowed) requested
           in if active = [] then ret results
              else bind_act (call_batch ap bl s r ctx started active_groups active)
                     (\<lambda>rs. ret (od_update results rs))))))))"

subsection \<open>Derived sources\<close>

text \<open>
  \<open>resolve\<close> is the method \<^verbatim>\<open>_resolve_many\<close> of the builder, which calls the executor again:
  the recursion is tied in \<open>Resolver\<close>. Its arguments are the keys, the ancestry and the keys
  the caller owns.
\<close>

type_synonym 's resolver = "resource_key list \<Rightarrow> resource_key list \<Rightarrow> resource_key set
  \<Rightarrow> ('s world, (resource_key, snapshot_value) odict \<times> (resource_key, py_error) odict) act"

fun check_dependencies :: "source \<Rightarrow> resource_key list \<Rightarrow> dependency list \<Rightarrow> py_error + resource_key list" where
  "check_dependencies s path [] = Inr []"
| "check_dependencies s path (DepOther # ds) =
     Inl (SourceProtocolError (''derived source '' @ so_name s @ '' returned a non-ResourceKey dependency''))"
| "check_dependencies s path (DepKey k # ds) =
     (if k \<in> set path then Inl (DependencyCycleError (dropWhile (\<lambda>p. p \<noteq> k) path @ [k]))
      else res_bind (check_dependencies s path ds) (\<lambda>ks. Inr (k # ks)))"

definition isolate_dependencies ::
  "app \<Rightarrow> 's builder \<Rightarrow> source \<Rightarrow> fetch_context \<Rightarrow> (resource_key, snapshot_value) odict
    \<Rightarrow> ('s world, (resource_key \<times> snapshot_value) list) act" where
  "isolate_dependencies ap bl s ctx dependency_values =
     copy_map (ap_delay ap) (bl_copy bl)
       (\<lambda>item. res_bind (clone_snapshot_value (bl_copier bl) (snd item)
                  (''derived dependency for '' @ key_str (fst item)) no_changes) (\<lambda>v. Inr (fst item, v)))
       (fc_deadline_monotonic ctx) (''isolating dependencies for derived source '' @ so_name s) dependency_values"

text \<open>The values the derivation is given: resolved with the path extended, then copied.\<close>

definition resolve_dependencies ::
  "app \<Rightarrow> 's builder \<Rightarrow> 's resolver \<Rightarrow> source \<Rightarrow> fetch_context \<Rightarrow> resource_key list \<Rightarrow> resource_key set \<Rightarrow> resource_key
    \<Rightarrow> ('s world, (resource_key, snapshot_value) odict \<times> (resource_key, snapshot_value) odict) act" where
  "resolve_dependencies ap bl resolve s ctx ancestry local_owned k =
     bind_act (lift_res (ap_dependencies ap (so_name s) k)) (\<lambda>declared.
     bind_act (lift_res (check_dependencies s (ancestry @ [k]) (fromkeys declared))) (\<lambda>dependencies.
     bind_act (resolve dependencies (ancestry @ [k]) local_owned) (\<lambda>(values, errors).
       if errors \<noteq> [] then throw (DependencyResolutionError k (so_name s) errors)
       else bind_act (isolate_dependencies ap bl s ctx values) (\<lambda>isolated. ret (values, od_of isolated)))))"

definition handle_derive_error ::
  "source \<Rightarrow> resource_key \<Rightarrow> resilience_policy \<Rightarrow> rat \<Rightarrow> raised \<Rightarrow> ('s world, resource_key \<times> source_attempt) act" where
  "handle_derive_error s k r started x =
     (let e = fst x; attempts = attempt_count x (rs_retry r)
      in if e = CancelledError then abandon_call s k r e
         else if is_deadline_exceeded e \<or> is_queue_timeout e then skipped_attempt s k r started x
         else if is_circuit_open e then refused_attempt s k started e
         else if is_dependency_error e then reads (\<lambda>w. (k, failed_attempt e 0 (elapsed_ms started w)))
         else if is_protocol_error e then
           bind_act (breaker_failure s k r) (\<lambda>_.
           bind_act (updates (count_diag (add_future_rejections (if is_future_rejection e then 1 else 0)))) (\<lambda>_.
             reads (\<lambda>w. (k, failed_attempt e 1 (elapsed_ms started w)))))
         else
           bind_act (updates (count_health (timeout_health e))) (\<lambda>_.
           bind_act (breaker_failure s k r) (\<lambda>_.
           bind_act (updates (count_diag (add_retries attempts))) (\<lambda>_.
             reads (\<lambda>w. (k, failed_attempt e attempts (elapsed_ms started w)))))))"

definition derive_one ::
  "app \<Rightarrow> 's builder \<Rightarrow> 's resolver \<Rightarrow> source \<Rightarrow> resilience_policy \<Rightarrow> fetch_context \<Rightarrow> resource_key list \<Rightarrow> resource_key set
    \<Rightarrow> resource_key \<Rightarrow> ('s world, resource_key \<times> source_attempt) act" where
  "derive_one ap bl resolve s r ctx ancestry local_owned k w =
     (case resolve_dependencies ap bl resolve s ctx ancestry local_owned k w of
        (Inl e, w1) \<Rightarrow> handle_derive_error s k r (w_mono w) (e, None) w1
      | (Inr (values, isolated), w1) \<Rightarrow>
          (case guarded_call ap bl s k ctx r (derive_once ap bl s k isolated ctx) w1 of
             (Inl x, w2) \<Rightarrow> handle_derive_error s k r (w_mono w) x w2
           | (Inr (p, n), w2) \<Rightarrow>
               (Inr (k, paid_attempt p n (elapsed_ms (w_mono w) w2) (map (\<lambda>(d, v). (d, sv_version v)) values)), w2)))"

definition attempt_derived_source ::
  "app \<Rightarrow> 's builder \<Rightarrow> 's resolver \<Rightarrow> source \<Rightarrow> resource_key list \<Rightarrow> fetch_context \<Rightarrow> resource_key list \<Rightarrow> resource_key set
    \<Rightarrow> ('s world, (resource_key, source_attempt) odict) act" where
  "attempt_derived_source ap bl resolve s keys ctx ancestry local_owned =
     bind_act (lift_res (resilience_for (bl_catalog bl) s)) (\<lambda>r.
     bind_act (run_bounded (bl_max_pending_tasks bl) (derive_one ap bl resolve s r ctx ancestry local_owned) keys)
       (collect_attempts s))"

subsection \<open>Dispatch by kind\<close>

text \<open>\<^verbatim>\<open>requested[index : index + size] for index in range(0, len(requested), size)\<close>\<close>

definition chunks :: "nat \<Rightarrow> 'a list \<Rightarrow> 'a list list" where
  "chunks m xs = map (\<lambda>i. take m (drop i xs)) (filter (\<lambda>i. i mod m = 0) [0..<length xs])"

definition wave_size :: "'s builder \<Rightarrow> int option \<Rightarrow> int" where
  "wave_size bl source_limit =
     max 1 (min (bl_max_concurrency bl) (min (bl_max_pending_tasks bl)
       (case source_limit of None \<Rightarrow> bl_max_concurrency bl | Some n \<Rightarrow> if n = 0 then bl_max_concurrency bl else n)))"

definition add_batch_chunks :: "nat \<Rightarrow> diagnostics_collector \<Rightarrow> diagnostics_collector" where
  "add_batch_chunks n d = d\<lparr>dc_batch_chunks := dc_batch_chunks d + n\<rparr>"

definition attempt_in_chunks ::
  "app \<Rightarrow> 's builder \<Rightarrow> source \<Rightarrow> resource_key list \<Rightarrow> fetch_context
    \<Rightarrow> ('s world, (resource_key, source_attempt) odict) act" where
  "attempt_in_chunks ap bl s keys ctx =
     (let requested = fromkeys keys
      in case so_max_batch_size s of
           None \<Rightarrow> bind_act (updates (count_diag (add_batch_chunks 1))) (\<lambda>_. attempt_batch_source ap bl s requested ctx)
         | Some m \<Rightarrow>
             if int (length requested) \<le> m
             then bind_act (updates (count_diag (add_batch_chunks 1))) (\<lambda>_. attempt_batch_source ap bl s requested ctx)
             else
               let cs = chunks (nat m) requested
               in bind_act (updates (count_diag (add_batch_chunks (length cs)))) (\<lambda>_.
                  bind_act (lift_res (lift_arg (limit_for (bl_capacity bl) (so_name s)))) (\<lambda>source_limit.
                  bind_act (run_bounded (wave_size bl source_limit) (\<lambda>c. attempt_batch_source ap bl s c ctx) cs) (\<lambda>completed.
                    ret (foldl od_update [] completed)))))"

definition attempt ::
  "app \<Rightarrow> 's builder \<Rightarrow> 's resolver \<Rightarrow> source \<Rightarrow> resource_key list \<Rightarrow> fetch_context \<Rightarrow> resource_key list \<Rightarrow> resource_key set
    \<Rightarrow> ('s world, (resource_key, source_attempt) odict) act" where
  "attempt ap bl resolve s keys ctx ancestry local_owned =
     (case catalog_kind (bl_catalog bl) s of
        DerivedKind \<Rightarrow> attempt_derived_source ap bl resolve s keys ctx ancestry local_owned
      | BatchKind \<Rightarrow> attempt_in_chunks ap bl s keys ctx
      | SingleKind \<Rightarrow> attempt_single_source ap bl s keys ctx)"

subsection \<open>Every key gets its attempt\<close>

lemma handle_fetch_error_key:
  "handle_fetch_error s k r started x w = (Inr y, w') \<Longrightarrow> fst y = k \<and> (\<exists>e. sa_outcome (snd y) = Inl e)"
  by (auto simp: handle_fetch_error_def abandon_call_def skipped_attempt_def refused_attempt_def Let_def bind_act_Inr
      failed_attempt_def split: if_splits)

lemma fetch_one_key: "fetch_one ap bl s r ctx k w = (Inr y, w') \<Longrightarrow> fst y = k"
  by (auto simp: fetch_one_def dest: handle_fetch_error_key split: prod.splits sum.splits)

lemma handle_derive_error_key:
  "handle_derive_error s k r started x w = (Inr y, w') \<Longrightarrow> fst y = k \<and> (\<exists>e. sa_outcome (snd y) = Inl e)"
  by (auto simp: handle_derive_error_def abandon_call_def skipped_attempt_def refused_attempt_def Let_def bind_act_Inr
      failed_attempt_def split: if_splits)

lemma derive_one_key: "derive_one ap bl resolve s r ctx anc lo k w = (Inr y, w') \<Longrightarrow> fst y = k"
  by (auto simp: derive_one_def dest: handle_derive_error_key split: prod.splits sum.splits)

lemma run_bounded_keys:
  assumes "run_bounded m f keys w = (Inr ys, w')" and "\<And>k y w w'. f k w = (Inr y, w') \<Longrightarrow> fst y = k"
  shows "map fst ys = keys"
proof -
  from assms(1) have "each f keys w = (Inr ys, w')" by (simp add: run_bounded_def split: if_splits)
  then have "list_all2 (\<lambda>k y. fst y = k) keys ys" by (rule each_Inr_all2) (rule assms(2))
  then show ?thesis by (induction rule: list_all2_induct) auto
qed

lemma set_od_keys_update: "set (od_keys (od_update d xs)) = set (od_keys d) \<union> set (map fst xs)"
proof (induction xs arbitrary: d)
  case (Cons p xs)
  have "od_update d (p # xs) = od_update (od_set (fst p) (snd p) d) xs" by (simp add: od_update_def)
  with Cons.IH [of "od_set (fst p) (snd p) d"] show ?case by (auto simp: od_keys_od_set simp del: set_map)
qed (simp add: od_update_def)

lemma collect_attempts_keys:
  assumes "collect_attempts s completed w = (Inr results, w')"
  shows "od_ok results \<and> set (od_keys results) = set (map fst completed)"
  using assms by (auto simp: collect_attempts_def bind_act_Inr od_of_def set_od_keys_update simp del: set_map)

definition attempts_exactly :: "resource_key list \<Rightarrow> (resource_key, source_attempt) odict \<Rightarrow> bool" where
  "attempts_exactly keys results \<longleftrightarrow> od_ok results \<and> set (od_keys results) = set keys"

lemma attempt_single_keys:
  assumes "attempt_single_source ap bl s keys ctx w = (Inr results, w')"
  shows "attempts_exactly keys results"
proof -
  from assms obtain r completed w1 where run: "run_bounded (bl_max_pending_tasks bl) (fetch_one ap bl s r ctx) keys w = (Inr completed, w1)"
    and coll: "collect_attempts s completed w1 = (Inr results, w')"
    by (auto simp: attempt_single_source_def bind_act_Inr)
  have "map fst completed = keys" using run by (rule run_bounded_keys) (rule fetch_one_key)
  with collect_attempts_keys [OF coll] show ?thesis by (simp add: attempts_exactly_def del: set_map)
qed

lemma attempt_derived_keys:
  assumes "attempt_derived_source ap bl resolve s keys ctx anc lo w = (Inr results, w')"
  shows "attempts_exactly keys results"
proof -
  from assms obtain r completed w1 where
    run: "run_bounded (bl_max_pending_tasks bl) (derive_one ap bl resolve s r ctx anc lo) keys w = (Inr completed, w1)"
    and coll: "collect_attempts s completed w1 = (Inr results, w')"
    by (auto simp: attempt_derived_source_def bind_act_Inr)
  have "map fst completed = keys" using run by (rule run_bounded_keys) (rule derive_one_key)
  with collect_attempts_keys [OF coll] show ?thesis by (simp add: attempts_exactly_def del: set_map)
qed

lemma circuit_groups_cover:
  assumes "circuit_groups b s keys r = Inr groups"
  shows "set (concat (map snd groups)) = set keys"
proof -
  let ?f = "\<lambda>k. identity_for b (so_name s) (Some k) (Some (cbp_scope (rs_circuit r)))"
  from circuit_groups_ok [OF assms] obtain g where ok: "grouped_ok ?f keys g"
    and gs: "groups = map (\<lambda>p. (hd (snd p), snd p)) g" by blast
  have "k \<in> set keys" if g: "(i, xs) \<in> set g" and k: "k \<in> set xs" for i xs k
  proof -
    have "xs = filter (\<lambda>k. ?f k = Inr i) keys" using ok g unfolding grouped_ok_def by simp
    with k show ?thesis by (metis filter_is_subset subsetD)
  qed
  moreover have "\<exists>i xs. (i, xs) \<in> set g \<and> k \<in> set xs" if k: "k \<in> set keys" for k
  proof -
    from ok k obtain i xs where i: "?f k = Inr i" "map_of g i = Some xs" unfolding grouped_ok_def by blast
    then have "xs = filter (\<lambda>k. ?f k = Inr i) keys" using ok unfolding grouped_ok_def by blast
    with i k have "(i, xs) \<in> set g" "k \<in> set xs" by (auto dest: map_of_SomeD)
    then show ?thesis by blast
  qed
  ultimately show ?thesis unfolding gs by (auto simp: Bex_def)
qed

lemma admit_group_keys:
  assumes "admit_group s r started grp acc w = (Inr acc', w')"
  shows "od_ok (fst acc) \<Longrightarrow> od_ok (fst acc')"
    and "set (od_keys (fst acc')) \<union> set (concat (map snd (snd acc')))
      = set (od_keys (fst acc)) \<union> set (concat (map snd (snd acc))) \<union> set (snd grp)"
  using assms
  by (auto simp: admit_group_def bind_act_Inr set_od_keys_update comp_def simp del: set_map
      elim!: handle_cases split: if_splits)

lemma handle_batch_error_keys:
  "handle_batch_error s r started groups active x w = (Inr rs, w') \<Longrightarrow> map fst rs = active"
  by (auto simp: handle_batch_error_def Let_def bind_act_Inr comp_def split: if_splits)

lemma batch_body_keys: "batch_body ap bl s r ctx started groups active w = (Inr rs, w') \<Longrightarrow> map fst rs = active"
  by (auto simp: batch_body_def Let_def comp_def split: prod.splits sum.splits)

lemma admit_groups_keys:
  assumes "fold_act (admit_group s r started) groups ([], []) w = (Inr (results, active), w')"
  shows "od_ok results" "set (od_keys results) \<union> set (concat (map snd active)) = set (concat (map snd groups))"
proof -
  let ?I = "\<lambda>(ds :: (resource_key \<times> resource_key list) list) acc. od_ok (fst acc) \<and>
    set (od_keys (fst acc)) \<union> set (concat (map snd (snd acc))) = set (concat (map snd ds))"
  have "?I groups (results, active)"
  proof (rule fold_act_inv [OF assms, where I = ?I])
    fix ds x acc u acc' u'
    assume "?I ds acc" "admit_group s r started x acc u = (Inr acc', u')"
    then show "?I (ds @ [x]) acc'" using admit_group_keys [of s r started x acc u acc' u'] by (auto simp del: set_map)
  qed simp
  then show "od_ok results" "set (od_keys results) \<union> set (concat (map snd active)) = set (concat (map snd groups))"
    by (simp_all del: set_map)
qed

lemma call_batch_keys: "call_batch ap bl s r ctx started groups active w = (Inr rs, w') \<Longrightarrow> map fst rs = active"
  by (auto simp: call_batch_def dest: batch_body_keys handle_batch_error_keys split: prod.splits sum.splits)

lemma attempt_batch_keys:
  assumes "attempt_batch_source ap bl s keys ctx w = (Inr results', w')"
  shows "attempts_exactly keys results'"
proof -
  from assms obtain r groups results active w1 where
    groups: "circuit_groups (w_breaker w) s (fromkeys keys) r = Inr groups"
    and adm: "fold_act (admit_group s r (w_mono w)) groups ([], []) w = (Inr (results, active), w1)"
    and body: "(let act = filter (\<lambda>k. k \<in> set (concat (map snd active))) (fromkeys keys)
       in if act = [] then ret results
          else bind_act (call_batch ap bl s r ctx (w_mono w) active act) (\<lambda>rs. ret (od_update results rs))) w1
       = (Inr results', w')"
    by (auto simp: attempt_batch_source_def Let_def bind_act_Inr res_iff simp del: set_concat)
  define act where "act = filter (\<lambda>k. k \<in> set (concat (map snd active))) (fromkeys keys)"
  have cover: "set (od_keys results) \<union> set (concat (map snd active)) = set keys"
    using admit_groups_keys(2) [OF adm] circuit_groups_cover [OF groups] by (simp del: set_map)
  then have act: "set act = set (concat (map snd active))" by (auto simp: act_def simp del: set_map)
  have "od_ok results' \<and> set (od_keys results') = set (od_keys results) \<union> set act"
  proof (cases "act = []")
    case True
    with body admit_groups_keys(1) [OF adm] show ?thesis by (simp add: act_def Let_def)
  next
    case False
    with body obtain rs where rs: "call_batch ap bl s r ctx (w_mono w) active act w1 = (Inr rs, w')"
      "results' = od_update results rs" by (auto simp: act_def [symmetric] bind_act_Inr simp del: set_concat)
    with call_batch_keys [OF rs(1)] admit_groups_keys(1) [OF adm] show ?thesis
      by (simp add: set_od_keys_update del: set_map)
  qed
  with cover act show ?thesis by (simp add: attempts_exactly_def del: set_map)
qed

lemma chunks_cover:
  assumes "0 < m"
  shows "set (concat (chunks m xs)) = set xs"
proof
  show "set (concat (chunks m xs)) \<subseteq> set xs"
    by (auto simp: chunks_def dest: in_set_takeD in_set_dropD)
  show "set xs \<subseteq> set (concat (chunks m xs))"
  proof
    fix x assume "x \<in> set xs"
    then obtain j where j: "j < length xs" "x = xs ! j" by (auto simp: in_set_conv_nth)
    define i where "i = m * (j div m)"
    have "j - i = j mod m" by (simp add: i_def minus_mult_div_eq_mod)
    then have i: "i \<le> j" "i mod m = 0" "j - i < m" using assms by (simp_all add: i_def)
    have "take m (drop i xs) ! (j - i) = x" "j - i < length (take m (drop i xs))" using i j by auto
    then have "x \<in> set (take m (drop i xs))" by (metis nth_mem)
    moreover have "i \<in> set (filter (\<lambda>i. i mod m = 0) [0..<length xs])" using i j by simp
    ultimately show "x \<in> set (concat (chunks m xs))" by (auto simp: chunks_def)
  qed
qed

lemma foldl_od_update:
  "od_ok d \<Longrightarrow> od_ok (foldl od_update d ds)
    \<and> set (od_keys (foldl od_update d ds)) = set (od_keys d) \<union> (\<Union>e \<in> set ds. set (od_keys e))"
  by (induction ds arbitrary: d) (auto simp: set_od_keys_update simp del: set_map)

lemma attempt_in_chunks_keys:
  assumes run: "attempt_in_chunks ap bl s keys ctx w = (Inr results, w')"
    and size_ok: "\<And>m. so_max_batch_size s = Some m \<Longrightarrow> 1 \<le> m"
  shows "attempts_exactly keys results"
proof -
  have whole: "attempts_exactly keys results"
    if "bind_act (updates (count_diag (add_batch_chunks 1))) (\<lambda>_. attempt_batch_source ap bl s (fromkeys keys) ctx) w = (Inr results, w')"
    using that attempt_batch_keys [of ap bl s "fromkeys keys" ctx _ results w'] by (auto simp: bind_act_Inr attempts_exactly_def)
  show ?thesis
  proof (cases "so_max_batch_size s")
    case None
    with run whole show ?thesis by (simp add: attempt_in_chunks_def Let_def)
  next
    case (Some m)
    show ?thesis
    proof (cases "int (length (fromkeys keys)) \<le> m")
      case True
      with run whole Some show ?thesis by (simp add: attempt_in_chunks_def Let_def)
    next
      case False
      let ?cs = "chunks (nat m) (fromkeys keys)"
      from run Some False obtain lim completed w1 w2 where
        each: "each (\<lambda>c. attempt_batch_source ap bl s c ctx) ?cs w1 = (Inr completed, w2)"
        and res: "results = foldl od_update [] completed"
        by (auto simp: attempt_in_chunks_def Let_def bind_act_Inr run_bounded_def split: if_splits)
      have "list_all2 attempts_exactly ?cs completed" using each by (rule each_Inr_all2) (rule attempt_batch_keys)
      then have "(\<Union>e \<in> set completed. set (od_keys e)) = set (concat ?cs)"
        by (induction rule: list_all2_induct) (auto simp: attempts_exactly_def simp del: set_map)
      moreover have "set (concat ?cs) = set keys" using chunks_cover [of "nat m" "fromkeys keys"] size_ok [OF Some] by simp
      ultimately show ?thesis
        using foldl_od_update [of "[]" completed] by (simp add: attempts_exactly_def res del: set_map)
    qed
  qed
qed

lemma attempt_keys:
  assumes "attempt ap bl resolve s keys ctx ancestry local_owned w = (Inr results, w')"
    and "\<And>m. so_max_batch_size s = Some m \<Longrightarrow> 1 \<le> m"
  shows "attempts_exactly keys results"
proof (cases "catalog_kind (bl_catalog bl) s")
  case BatchKind
  with assms(1) have "attempt_in_chunks ap bl s keys ctx w = (Inr results, w')" by (simp add: attempt_def)
  then show ?thesis by (rule attempt_in_chunks_keys) (rule assms(2))
qed (use assms(1) attempt_single_keys attempt_derived_keys in \<open>auto simp: attempt_def\<close>)

text \<open>
  An attempt that returns has exactly one outcome for every requested key and none for any
  other, for single, batch (in chunks, with refused circuits) and derived sources alike.
\<close>

lemma attempt_covers_keys:
  assumes "attempt ap bl resolve s keys ctx ancestry local_owned w = (Inr results, w')"
    and "\<And>m. so_max_batch_size s = Some m \<Longrightarrow> 1 \<le> m"
  shows "od_ok results \<and> set (od_keys results) = set keys"
  using attempt_keys [OF assms] by (simp add: attempts_exactly_def)

subsection \<open>What an attempt leaves alone\<close>

context frame begin

lemma retry_loop_keeps:
  assumes "\<And>s. R s (snd (operation s))" "\<And>d s. 0 < d \<Longrightarrow> R s (sleep d s)"
  shows "R s (snd (retry_loop n i operation uniform p retryable deadline monotonic sleep s))"
proof (induction n arbitrary: i s)
  case 0
  show ?case by (simp add: frame_refl)
next
  case (Suc n)
  obtain r s1 where 1: "operation s = (r, s1)" by fastforce
  have s1: "R s s1" using assms(1) [of s] 1 by simp
  have "R s (snd (retry_loop n (i + 1) operation uniform p retryable deadline monotonic sleep
      (if 0 < delay then sleep delay s1 else s1)))" for delay
  proof -
    have "R s (if 0 < delay then sleep delay s1 else s1)"
      using s1 frame_trans [OF s1 assms(2) [of delay s1]] by simp
    from frame_trans [OF this Suc.IH] show ?thesis .
  qed
  with 1 s1 show ?case by (auto simp: Let_def split: sum.splits)
qed

end

text \<open>
  A relation that no bookkeeping, no time passing and none of the three calls breaks is not
  broken by an attempt, whatever its outcome.
\<close>

locale executor_frame = frame R for R :: "'s world \<Rightarrow> 's world \<Rightarrow> bool" +
  fixes ap :: app and bl :: "'s builder"
  assumes fr_emit: "R w (emit os w)"
    and fr_diag: "R w (count_diag f w)"
    and fr_health: "R w (count_health g w)"
    and fr_breaker: "R w (w\<lparr>w_breaker := b\<rparr>)"
    and fr_time: "clocks.more w' = clocks.more w \<Longrightarrow> (delays_ok (ap_delay ap) \<Longrightarrow> w_mono w \<le> w_mono w') \<Longrightarrow> R w w'"
    and fr_fetch: "R w (snd (fetch_once ap bl s k ctx w))"
    and fr_fetch_many: "R w (snd (fetch_many_once ap bl s ks ctx w))"
    and fr_derive: "R w (snd (derive_once ap bl s k deps ctx w))"
begin

lemma keeps_on_breaker: "R w (snd (on_breaker f w))"
  by (simp add: on_breaker_def fr_breaker case_prod_unfold Let_def)

lemma keeps_breaker:
  "keeps R (breaker_before s k r)" "keeps R (breaker_success s k r)" "keeps R (breaker_failure s k r)"
  "keeps R (breaker_abandoned s k r)" "keeps R (breaker_skipped s k r)"
  by (simp_all add: keeps_def breaker_before_def breaker_success_def breaker_failure_def breaker_abandoned_def
      breaker_skipped_def keeps_on_breaker)

lemma keeps_open: "R w (record_circuit_open s k e w)"
  by (simp add: record_circuit_open_def fr_emit)

lemmas keeps_note = keeps_updates [OF fr_emit] keeps_updates [OF fr_diag] keeps_updates [OF fr_health]
  keeps_updates [OF keeps_open]

lemma call_with_retry_keeps:
  assumes "\<And>w. R w (snd (call w))"
  shows "R w (snd (call_with_retry ap r ctx call w))"
  unfolding call_with_retry_def run_with_retry_def
  by (rule retry_loop_keeps [OF assms]) (simp add: fr_time)

lemma payload_outcome_keeps: "R w (snd (record_payload_circuit_outcome bl s k p r w))"
  by (auto simp: record_payload_circuit_outcome_def keeps_on_breaker frame_refl split: sum.splits)

lemma guarded_call_keeps:
  assumes call: "\<And>w. R w (snd (call w))"
  shows "R w (snd (guarded_call ap bl s k ctx r call w))"
proof -
  obtain a w1 where 1: "breaker_before s k r w = (a, w1)" by fastforce
  obtain q w2 where 2: "call_with_retry ap r ctx call w1 = (q, w2)" by fastforce
  have w1: "R w w1" using keepsD [OF keeps_breaker(1) 1] .
  have w2: "R w1 w2" using call_with_retry_keeps [OF call, of w1 r ctx] 2 by simp
  show ?thesis
  proof (cases "(\<exists>i. a = Inr i) \<and> (\<exists>p n. q = Inr (p, n))")
    case False
    with 1 2 w1 frame_trans [OF w1 w2] show ?thesis
      by (cases a; cases q) (auto simp: guarded_call_def)
  next
    case True
    then obtain i p n where ok: "a = Inr i" "q = Inr (p, n)" by blast
    let ?w3 = "count_diag (add_retries n) w2"
    obtain o3 w3 where 3: "record_payload_circuit_outcome bl s k p r ?w3 = (o3, w3)" by fastforce
    have "R ?w3 w3" using payload_outcome_keeps [of ?w3 s k p r] 3 by simp
    from frame_trans [OF frame_trans [OF frame_trans [OF w1 w2] fr_diag] this] have "R w w3" .
    with 1 2 3 ok show ?thesis by (cases o3) (auto simp: guarded_call_def)
  qed
qed

lemma keeps_fetch_error: "keeps R (handle_fetch_error s k r started x)"
  by (auto simp: handle_fetch_error_def abandon_call_def skipped_attempt_def refused_attempt_def Let_def
      intro!: keeps_rules keeps_breaker keeps_note)

lemma keeps_derive_error: "keeps R (handle_derive_error s k r started x)"
  by (auto simp: handle_derive_error_def abandon_call_def skipped_attempt_def refused_attempt_def Let_def
      intro!: keeps_rules keeps_breaker keeps_note)

lemma keeps_batch_error: "keeps R (handle_batch_error s r started groups active x)"
  by (auto simp: handle_batch_error_def Let_def intro!: keeps_rules keeps_breaker keeps_note)

end

context executor_frame begin

lemma keeps_fetch_one: "keeps R (fetch_one ap bl s r ctx k)"
  unfolding keeps_def
proof
  fix w
  obtain q w1 where 1: "guarded_call ap bl s k ctx r (fetch_once ap bl s k ctx) w = (q, w1)" by fastforce
  have w1: "R w w1" using guarded_call_keeps [of "fetch_once ap bl s k ctx" w s k ctx r] fr_fetch 1 by simp
  show "R w (snd (fetch_one ap bl s r ctx k w))"
  proof (cases q)
    case (Inl x)
    have "R w1 (snd (handle_fetch_error s k r (w_mono w) x w1))" using keeps_fetch_error unfolding keeps_def by blast
    with frame_trans [OF w1 this] 1 Inl show ?thesis by (simp add: fetch_one_def)
  qed (use 1 w1 in \<open>auto simp: fetch_one_def\<close>)
qed

lemma keeps_bounded: "(\<And>x. x \<in> set xs \<Longrightarrow> keeps R (f x)) \<Longrightarrow> keeps R (run_bounded m f xs)"
  by (simp add: run_bounded_def keeps_throw keeps_each)

lemma keeps_collect: "keeps R (collect_attempts s completed)"
  unfolding collect_attempts_def by (intro keeps_bind keeps_note keeps_ret)

lemma keeps_single: "keeps R (attempt_single_source ap bl s keys ctx)"
  unfolding attempt_single_source_def
  by (intro keeps_bind keeps_lift keeps_bounded keeps_fetch_one keeps_collect)

lemma keeps_admit: "keeps R (admit_group s r started grp acc)"
  by (auto simp: admit_group_def intro!: keeps_rules keeps_breaker keeps_note)

lemma keeps_group_outcome: "keeps R (record_group_outcome bl s r payloads invalid grp)"
  by (auto simp: record_group_outcome_def intro!: keeps_rules keeps_breaker)

lemma batch_body_keeps: "R w (snd (batch_body ap bl s r ctx started groups active w))"
proof -
  obtain q w1 where 1: "call_with_retry ap r ctx (fetch_many_once ap bl s active ctx) w = (q, w1)" by fastforce
  have w1: "R w w1" using call_with_retry_keeps [of "fetch_many_once ap bl s active ctx" w r ctx] fr_fetch_many 1 by simp
  show ?thesis
  proof (cases q)
    case (Inr pn)
    obtain payloads n where pn: "pn = (payloads, n)" by fastforce
    define invalid where "invalid = invalid_payloads bl payloads (w_now w1)"
    define w2 where "w2 = count_diag (\<lambda>d. add_future_rejections (length invalid)
      (record_source_latency (so_name s) (elapsed_ms started w1) (add_retries n d))) w1"
    obtain o3 w3 where 3: "each (record_group_outcome bl s r payloads invalid) groups w2 = (o3, w3)" by fastforce
    have "R w2 w3" using keepsD [OF keeps_each 3] keeps_group_outcome by blast
    with frame_trans [OF frame_trans [OF w1 fr_diag]] have w3: "R w w3" unfolding w2_def by blast
    with frame_trans [OF w3 fr_emit] 1 3 Inr pn show ?thesis
      by (cases o3) (auto simp: batch_body_def Let_def invalid_def [symmetric] w2_def [symmetric])
  qed (use 1 w1 in \<open>simp add: batch_body_def\<close>)
qed

lemma keeps_call_batch: "keeps R (call_batch ap bl s r ctx started groups active)"
  unfolding keeps_def
proof
  fix w
  obtain q w1 where 1: "batch_body ap bl s r ctx started groups active w = (q, w1)" by fastforce
  have w1: "R w w1" using batch_body_keeps [of w s r ctx started groups active] 1 by simp
  show "R w (snd (call_batch ap bl s r ctx started groups active w))"
  proof (cases q)
    case (Inl x)
    have "R w1 (snd (handle_batch_error s r started groups active x w1))" using keeps_batch_error unfolding keeps_def by blast
    with frame_trans [OF w1 this] 1 Inl show ?thesis by (simp add: call_batch_def)
  qed (use 1 w1 in \<open>simp add: call_batch_def\<close>)
qed

lemma keeps_batch: "keeps R (attempt_batch_source ap bl s keys ctx)"
  unfolding attempt_batch_source_def Let_def
  by (intro keeps_bind keeps_lift keeps_reads keeps_fold keeps_admit) (auto intro!: keeps_rules keeps_call_batch)

lemma keeps_chunks: "keeps R (attempt_in_chunks ap bl s keys ctx)"
  by (auto simp: attempt_in_chunks_def Let_def split: option.splits
      intro!: keeps_bind keeps_lift keeps_bounded keeps_batch keeps_ret keeps_note)

lemma keeps_copy_map: "keeps R (copy_map (ap_delay ap) cf f deadline nm xs)"
  by (simp add: keeps_def fr_time copy_map_forward)

lemma keeps_dependencies:
  assumes "\<And>ks. keeps R (resolve ks (anc @ [k]) lo)"
  shows "keeps R (resolve_dependencies ap bl resolve s ctx anc lo k)"
  by (auto simp: resolve_dependencies_def isolate_dependencies_def
      intro!: keeps_bind keeps_lift keeps_throw keeps_ret keeps_copy_map assms)

lemma keeps_derive_one:
  assumes "\<And>ks. keeps R (resolve ks (anc @ [k]) lo)"
  shows "keeps R (derive_one ap bl resolve s r ctx anc lo k)"
  unfolding keeps_def
proof
  fix w
  obtain q w1 where 1: "resolve_dependencies ap bl resolve s ctx anc lo k w = (q, w1)" by fastforce
  have w1: "R w w1" using keepsD [OF keeps_dependencies 1] assms by blast
  have err: "R w2 (snd (handle_derive_error s k r (w_mono w) x w2))" for x w2
    using keeps_derive_error unfolding keeps_def by blast
  show "R w (snd (derive_one ap bl resolve s r ctx anc lo k w))"
  proof (cases q)
    case (Inl e)
    with frame_trans [OF w1 err] 1 show ?thesis by (simp add: derive_one_def)
  next
    case (Inr vs)
    obtain vals isolated where vs: "vs = (vals, isolated)" by fastforce
    obtain p w2 where 2: "guarded_call ap bl s k ctx r (derive_once ap bl s k isolated ctx) w1 = (p, w2)" by fastforce
    have "R w1 w2" using guarded_call_keeps [of "derive_once ap bl s k isolated ctx" w1 s k ctx r] fr_derive 2 by simp
    from frame_trans [OF w1 this] have w2: "R w w2" .
    with frame_trans [OF w2 err] 1 2 Inr vs show ?thesis by (cases p) (auto simp: derive_one_def)
  qed
qed

lemma keeps_derived:
  assumes "\<And>k ks. k \<in> set keys \<Longrightarrow> keeps R (resolve ks (anc @ [k]) lo)"
  shows "keeps R (attempt_derived_source ap bl resolve s keys ctx anc lo)"
  unfolding attempt_derived_source_def
  by (intro keeps_bind keeps_lift keeps_bounded keeps_derive_one assms keeps_collect)

lemma keeps_attempt:
  assumes "\<And>k ks. k \<in> set keys \<Longrightarrow> keeps R (resolve ks (anc @ [k]) lo)"
  shows "keeps R (attempt ap bl resolve s keys ctx anc lo)"
proof (cases "catalog_kind (bl_catalog bl) s")
  case DerivedKind
  have "keeps R (attempt_derived_source ap bl resolve s keys ctx anc lo)" by (rule keeps_derived) (rule assms)
  with DerivedKind show ?thesis by (simp add: attempt_def)
qed (simp_all add: attempt_def keeps_single keeps_chunks)

end

interpretation lease_frame: executor_frame "\<lambda>w w'. w_leases w' = w_leases w" ap bl for ap bl
  by unfold_locales
    (auto simp: count_health_def fetch_once_leases fetch_many_once_leases derive_once_leases dest: world_frame(8))

subsection \<open>An exception of a source never aborts the attempt\<close>

text \<open>
  What the application supplies raises anything but a cancellation, which is how the event loop
  stops a task from outside.
\<close>

definition calm_copier :: "payload_copier \<Rightarrow> bool" where
  "calm_copier copier \<longleftrightarrow> (\<forall>v. copier v \<noteq> Inl CancelledError)"

definition calm_call :: "(nat \<Rightarrow> py_error + 'a) \<Rightarrow> bool" where
  "calm_call operation \<longleftrightarrow> (\<forall>n. operation n \<noteq> Inl CancelledError)"

definition calm :: "app \<Rightarrow> 's builder \<Rightarrow> bool" where
  "calm ap bl \<longleftrightarrow> (\<forall>src k. calm_call (ap_fetch ap src k)) \<and> (\<forall>src ks. calm_call (ap_fetch_many ap src ks))
     \<and> (\<forall>src k ds. calm_call (ap_derive ap src k ds)) \<and> (\<forall>src k. ap_dependencies ap src k \<noteq> Inl CancelledError)
     \<and> calm_copier (bl_copier bl) \<and> (\<forall>k. policy_resolve (bl_policies bl) k \<noteq> Inl CancelledError)"

lemma is_exception_simps [simp]:
  "is_exception (ArgError a)" "is_exception (PayloadIsolationError c t)" "is_exception (SourceProtocolError m)"
  "is_exception (CircuitOpenError m)" "is_exception (RuntimeError m)" "is_exception (SnapshotDeadlineExceededError m)"
  "is_exception (DependencyCycleError ks)" "is_exception (DependencyResolutionError k src es)"
  "\<not> is_exception CancelledError"
  by (simp_all add: is_exception_def)

lemma lift_arg_Inl: "lift_arg r = Inl e \<Longrightarrow> \<exists>a. e = ArgError a"
  by (cases r) auto

lemma budget_calm: "timeout_budget_for c ctx s phase resource clk = Inl e \<Longrightarrow> is_exception e"
  by (auto simp: timeout_budget_for_def Let_def is_exception_def split: option.splits if_splits)

lemma ensure_calm: "ensure_transport_timeout_fits_budget bl s b resource w = (Inl e, w') \<Longrightarrow> is_exception e"
  by (auto simp: ensure_transport_timeout_fits_budget_def Let_def is_exception_def split: option.splits if_splits)

lemma violation_calm: "record_transport_timeout_violation bl s el resource outcome force w = (Inl e, w') \<Longrightarrow> is_exception e"
  by (auto simp: record_transport_timeout_violation_def is_exception_def split: option.splits if_splits sum.splits)

lemma acquire_calm: "acquire_capacity ap s ctx resource w = (Inl e, w') \<Longrightarrow> is_exception e"
  by (auto simp: acquire_capacity_def Let_def is_exception_def elim!: await_cases dest!: budget_calm
      split: sum.splits prod.splits option.splits if_splits)

lemma with_timeout_calm:
  assumes "with_timeout ap bl s ctx operation resource w = (Inl e, w')" "calm_call operation"
  shows "is_exception e"
proof -
  note calm = budget_calm ensure_calm violation_calm
  have op: "is_exception e" if "await_with_timeout d operation t u = (Some (Inl e), u')" for d t u u'
    using that assms(2) by (cases rule: await_cases) (metis calm_call_def is_exception_def option.inject, simp)
  show ?thesis using assms(1)
    by (auto simp: with_timeout_def Let_def dest: calm op split: sum.splits prod.splits option.splits)
      (simp_all add: is_exception_def)
qed

lemma leased_call_calm:
  assumes "leased_call ap bl s ctx kind operation resource w = (Inl e, w')" "calm_call operation"
  shows "is_exception e"
  using assms(1) with_timeout_calm [OF _ assms(2)]
  by (auto simp: leased_call_def dest: acquire_calm split: prod.splits sum.splits)

lemma remaining_calm: "remaining_deadline_seconds d m nm = Inl e \<Longrightarrow> is_exception e"
  by (auto simp: remaining_deadline_seconds_def is_exception_def split: option.splits if_splits)

lemma copy_run_calm:
  assumes "copy_run delay cf operation d nm w = (Inl e, w')" "\<And>e. operation () = Inl e \<Longrightarrow> is_exception e"
  shows "is_exception e"
  using assms
  by (auto simp: copy_run_def Let_def dest: remaining_calm split: if_splits sum.splits option.splits)
    (simp_all add: is_exception_def)

lemma copy_items_calm:
  assumes "copy_items delay cf operation d nm xs w = (Inl e, w')" "\<And>x e. operation x = Inl e \<Longrightarrow> is_exception e"
  shows "is_exception e"
  using assms(1)
proof (induction xs arbitrary: w)
  case (Cons x xs)
  then show ?case using assms(2) copy_run_calm [of delay cf "\<lambda>_. operation x" d nm w e]
    by (auto split: prod.splits sum.splits)
qed simp

lemma copy_map_calm:
  assumes "copy_map delay cf operation d nm xs w = (Inl e, w')" "\<And>x e. operation x = Inl e \<Longrightarrow> is_exception e"
  shows "is_exception e"
  using assms copy_items_calm [of delay cf operation d nm xs w e w']
  by (auto simp: copy_map_def is_exception_def split: if_splits)

lemma iso_copy_calm: "calm_copier copier \<Longrightarrow> iso_copy copier v c = Inl e \<Longrightarrow> is_exception e"
  by (auto simp: iso_copy_def is_exception_def calm_copier_def split: sum.splits py_error.splits)

lemma iso_metadata_calm:
  assumes "calm_copier copier" "iso_copy_metadata copier t md c = Inl e"
  shows "is_exception e"
  using assms(2)
  by (cases "iso_copy copier (PyDict md) c")
    (auto simp: iso_copy_metadata_def dest: iso_copy_calm [OF assms(1)] split: pyval.splits)

lemma coerce_sync_calm:
  assumes "calm_copier copier" "coerce_payload_sync copier raw c = Inl e"
  shows "is_exception e"
  using assms(2)
  by (auto simp: coerce_payload_sync_def Let_def res_iff
      dest!: lift_arg_Inl dest: iso_copy_calm [OF assms(1)] iso_metadata_calm [OF assms(1)])

lemma clone_calm:
  assumes "calm_copier copier" "clone_snapshot_value copier v c ch = Inl e"
  shows "is_exception e"
  using assms(2)
  by (auto simp: clone_snapshot_value_def res_iff
      dest!: lift_arg_Inl dest: iso_copy_calm [OF assms(1)] iso_metadata_calm [OF assms(1)] split: option.splits)

lemma source_calls_calm:
  assumes "calm ap bl"
  shows "raises_only is_exception (fetch_once ap bl s k ctx)" "raises_only is_exception (derive_once ap bl s k deps ctx)"
    "raises_only is_exception (fetch_many_once ap bl s keys ctx)"
proof -
  have c: "calm_copier (bl_copier bl)" "calm_call (ap_fetch ap (so_name s) k)" "calm_call (ap_derive ap (so_name s) k deps)"
    "calm_call (ap_fetch_many ap (so_name s) keys)" using assms by (auto simp: calm_def)
  have coerce: "is_exception e" if "coerce_payload ap bl raw nm ctx u = (Inl e, u')" for raw nm u u' e
    using that coerce_sync_calm [OF c(1), of raw nm] unfolding coerce_payload_def by (rule copy_run_calm) auto
  show "raises_only is_exception (fetch_once ap bl s k ctx)"
    by (rule raises_onlyI)
      (auto simp: fetch_once_def dest: coerce leased_call_calm [OF _ c(2)] split: prod.splits sum.splits)
  show "raises_only is_exception (derive_once ap bl s k deps ctx)"
    by (rule raises_onlyI)
      (auto simp: derive_once_def dest: coerce leased_call_calm [OF _ c(3)] split: prod.splits sum.splits)
  show "raises_only is_exception (fetch_many_once ap bl s keys ctx)"
  proof (rule raises_onlyI)
    fix w e w'
    assume run: "fetch_many_once ap bl s keys ctx w = (Inl e, w')"
    obtain r w1 where 1: "leased_call ap bl s ctx BatchKind (ap_fetch_many ap (so_name s) keys) None w = (r, w1)" by fastforce
    show "is_exception e"
    proof (cases r)
      case (Inl x)
      with 1 run show ?thesis using leased_call_calm [OF _ c(4)] by (simp add: fetch_many_once_def)
    next
      case (Inr raw)
      with 1 run show ?thesis
        by (auto simp: fetch_many_once_def Let_def res_iff elim!: copy_map_calm dest: coerce_sync_calm [OF c(1)]
            split: raw_batch.splits if_splits)
    qed
  qed
qed

lemma retry_loop_calm:
  assumes "raises_only is_exception operation"
  shows "fst (retry_loop n i operation uniform p retryable deadline monotonic sleep s) = Inl (e, c) \<Longrightarrow> is_exception e"
proof (induction n arbitrary: i s)
  case (Suc n)
  obtain r s1 where 1: "operation s = (r, s1)" by fastforce
  have "is_exception x" if "r = Inl x" for x using raises_onlyD [OF assms] 1 that by blast
  with Suc 1 show ?case by (cases r) (auto simp: Let_def split: sum.splits if_splits)
qed auto

lemma breaker_before_raises:
  "strip (so_name s) \<noteq> '''' \<Longrightarrow> raises_only is_circuit_open (breaker_before s k r)"
  by (rule raises_onlyI)
    (auto simp: breaker_before_def on_breaker_def before_call_def identity_for_def normalize_source_def admit_def Let_def
      split: if_splits sum.splits)

lemma breaker_records_raise:
  assumes "strip (so_name s) \<noteq> ''''"
  shows "raises_only P (breaker_success s k r)" "raises_only P (breaker_failure s k r)"
    "raises_only P (breaker_abandoned s k r)" "raises_only P (breaker_skipped s k r)"
  using assms
  by (auto intro!: raises_onlyI simp: breaker_success_def breaker_failure_def breaker_abandoned_def breaker_skipped_def
      on_breaker_def record_success_def record_failure_def record_abandoned_def record_skipped_def record_outcome_def
      identity_for_def normalize_source_def Let_def split: if_splits)

lemma circuit_open_calm: "is_circuit_open e \<Longrightarrow> is_exception e"
  by (cases e) auto

lemma payload_fresh_calm:
  assumes "calm ap bl" "payload_is_fresh bl k p now = Inl e"
  shows "is_exception e"
proof -
  have "is_exception e" if "policy_resolve (bl_policies bl) k = Inl e"
    using assms(1) that by (auto simp: calm_def is_exception_def)
  with assms(2) show ?thesis
    by (auto simp: payload_is_fresh_def validate_payload_timestamp_def Let_def res_iff split: option.splits if_splits)
qed

lemma guarded_call_calm:
  assumes "calm ap bl" "strip (so_name s) \<noteq> ''''" "raises_only is_exception call"
    and "guarded_call ap bl s k ctx r call w = (Inl (e, n), w')"
  shows "is_exception e"
proof -
  have before: "is_exception e" if "breaker_before s k r u = (Inl e, u')" for u u' e
    using raises_onlyD [OF breaker_before_raises [OF assms(2)] that] by (rule circuit_open_calm)
  have outcome: "is_exception e" if "record_payload_circuit_outcome bl s k p r u = (Inl e, u')" for p u u' e
    using that breaker_records_raise(1,2) [OF assms(2), of "\<lambda>e. False" k r] payload_fresh_calm [OF assms(1)]
    by (auto simp: record_payload_circuit_outcome_def breaker_success_def [symmetric] breaker_failure_def [symmetric]
        dest: raises_onlyD split: sum.splits if_splits)
  have retry: "is_exception e" if "call_with_retry ap r ctx call u = (Inl (e, n), u')" for u u' e n
    using retry_loop_calm [OF assms(3)] that unfolding call_with_retry_def run_with_retry_def by (metis fst_conv)
  show ?thesis using assms(4)
    by (auto simp: guarded_call_def dest: before outcome retry split: prod.splits sum.splits)
qed

lemmas raises_rules = raises_only_bind raises_only_ret raises_only_throw raises_only_each

lemma error_handlers_total:
  assumes "strip (so_name s) \<noteq> ''''" "is_exception (fst x)"
  shows "raises_only P (handle_fetch_error s k r started x)" "raises_only P (handle_derive_error s k r started x)"
    "raises_only P (handle_batch_error s r started groups active x)"
proof -
  have e: "fst x \<noteq> CancelledError" using assms(2) by (auto simp: is_exception_def)
  note total = breaker_records_raise [OF assms(1)] raises_rules
  show "raises_only P (handle_fetch_error s k r started x)"
    using e by (auto simp: handle_fetch_error_def skipped_attempt_def refused_attempt_def Let_def intro!: total)
  show "raises_only P (handle_derive_error s k r started x)"
    using e by (auto simp: handle_derive_error_def skipped_attempt_def refused_attempt_def Let_def intro!: total)
  show "raises_only P (handle_batch_error s r started groups active x)"
    using e by (auto simp: handle_batch_error_def Let_def intro!: total)
qed

lemma fetch_one_total:
  assumes "calm ap bl" "strip (so_name s) \<noteq> ''''"
  shows "raises_only P (fetch_one ap bl s r ctx k)"
proof (rule raises_onlyI)
  fix w e w'
  assume run: "fetch_one ap bl s r ctx k w = (Inl e, w')"
  then obtain x w1 where x: "guarded_call ap bl s k ctx r (fetch_once ap bl s k ctx) w = (Inl x, w1)"
    "handle_fetch_error s k r (w_mono w) x w1 = (Inl e, w')"
    by (auto simp: fetch_one_def split: prod.splits sum.splits)
  have "is_exception (fst x)"
    using guarded_call_calm [OF assms source_calls_calm(1) [OF assms(1)], of k ctx r] x(1) by (cases x) auto
  from raises_onlyD [OF error_handlers_total(1) [OF assms(2) this] x(2)] show "P e" .
qed

lemma check_dependencies_calm: "check_dependencies s path ds = Inl e \<Longrightarrow> is_exception e"
  by (induction s path ds rule: check_dependencies.induct) (auto simp: res_iff split: if_splits)

lemma resolve_dependencies_calm:
  assumes "calm ap bl" and resolve: "\<And>ks. raises_only is_exception (resolve ks (anc @ [k]) lo)"
  shows "raises_only is_exception (resolve_dependencies ap bl resolve s ctx anc lo k)"
proof -
  have c: "calm_copier (bl_copier bl)" "ap_dependencies ap (so_name s) k \<noteq> Inl CancelledError"
    using assms(1) by (auto simp: calm_def)
  have deps: "is_exception e" if "ap_dependencies ap (so_name s) k = Inl e" for e
    using c(2) that by (auto simp: is_exception_def)
  have copies: "raises_only is_exception (isolate_dependencies ap bl s ctx vals)" for vals
    unfolding isolate_dependencies_def
    by (rule raises_onlyI, erule copy_map_calm) (auto simp: res_iff dest: clone_calm [OF c(1)])
  show ?thesis unfolding resolve_dependencies_def
    by (intro raises_only_bind raises_only_lift resolve)
      (auto intro!: raises_rules copies dest: check_dependencies_calm deps)
qed

lemma derive_one_total:
  assumes "calm ap bl" "strip (so_name s) \<noteq> ''''" and "\<And>ks. raises_only is_exception (resolve ks (anc @ [k]) lo)"
  shows "raises_only P (derive_one ap bl resolve s r ctx anc lo k)"
proof (rule raises_onlyI)
  fix w e w'
  assume run: "derive_one ap bl resolve s r ctx anc lo k w = (Inl e, w')"
  obtain q w1 where 1: "resolve_dependencies ap bl resolve s ctx anc lo k w = (q, w1)" by fastforce
  have handled: "P e" if "handle_derive_error s k r (w_mono w) x u = (Inl e, w')" "is_exception (fst x)" for x u
    by (rule raises_onlyD [OF error_handlers_total(2) [OF assms(2) that(2)] that(1)])
  show "P e"
  proof (cases q)
    case (Inl d)
    have "is_exception d"
      using raises_onlyD [OF resolve_dependencies_calm [of ap bl resolve anc k lo s ctx, OF assms(1)]] assms(3) 1 Inl by blast
    with handled [of "(d, None)" w1] run 1 Inl show ?thesis by (simp add: derive_one_def)
  next
    case (Inr vs)
    obtain vals isolated where vs: "vs = (vals, isolated)" by fastforce
    from run 1 Inr vs obtain x w2 where
      x: "guarded_call ap bl s k ctx r (derive_once ap bl s k isolated ctx) w1 = (Inl x, w2)"
      "handle_derive_error s k r (w_mono w) x w2 = (Inl e, w')"
      by (auto simp: derive_one_def split: prod.splits sum.splits)
    have "is_exception (fst x)"
      using guarded_call_calm [OF assms(1,2) source_calls_calm(2) [OF assms(1)], of k ctx r] x(1) by (cases x) auto
    with handled x(2) show ?thesis by blast
  qed
qed

lemma circuit_groups_total:
  assumes "strip (so_name s) \<noteq> ''''"
  shows "\<exists>groups. circuit_groups b s keys r = Inr groups"
proof -
  have ident: "\<exists>i. identity_for b (so_name s) (Some k) (Some sc) = Inr i" for k sc
    using assms by (auto simp: identity_for_def normalize_source_def Let_def)
  have "\<exists>g'. group_by_identity (\<lambda>k. identity_for b (so_name s) (Some k) (Some sc)) ks g = Inr g'" for sc ks g
  proof (induction ks arbitrary: g)
    case (Cons k ks)
    obtain i where "identity_for b (so_name s) (Some k) (Some sc) = Inr i" using ident by blast
    with Cons.IH [of "group_append i k g"] show ?case by simp
  qed simp
  then show ?thesis by (fastforce simp: circuit_groups_def res_iff)
qed

lemma raises_only_fold: "(\<And>x acc. raises_only P (f x acc)) \<Longrightarrow> raises_only P (fold_act f xs acc)"
  by (induction xs arbitrary: acc) (auto intro!: raises_only_bind raises_only_ret)

lemma admit_group_total:
  assumes "strip (so_name s) \<noteq> ''''"
  shows "raises_only P (admit_group s r started grp acc)"
  by (auto intro!: raises_onlyI simp: admit_group_def bind_act_Inl elim!: handle_cases split: if_splits
      dest: raises_onlyD [OF breaker_before_raises [OF assms]])

lemma any_fresh_calm:
  assumes "calm ap bl"
  shows "any_fresh bl payloads invalid now ks = Inl e \<Longrightarrow> is_exception e"
  by (induction ks) (auto simp: res_iff dest: payload_fresh_calm [OF assms] split: option.splits if_splits)

lemma group_outcome_calm:
  assumes "calm ap bl" "strip (so_name s) \<noteq> ''''"
  shows "raises_only is_exception (record_group_outcome bl s r payloads invalid grp)"
  unfolding record_group_outcome_def
  by (auto intro!: raises_rules raises_only_lift breaker_records_raise [OF assms(2)] dest: any_fresh_calm [OF assms(1)])

lemma call_batch_total:
  assumes "calm ap bl" "strip (so_name s) \<noteq> ''''"
  shows "raises_only P (call_batch ap bl s r ctx started groups active)"
proof (rule raises_onlyI)
  fix w e w'
  assume run: "call_batch ap bl s r ctx started groups active w = (Inl e, w')"
  then obtain x w1 where x: "batch_body ap bl s r ctx started groups active w = (Inl x, w1)"
    "handle_batch_error s r started groups active x w1 = (Inl e, w')"
    by (auto simp: call_batch_def split: prod.splits sum.splits)
  have retry: "is_exception y" if "call_with_retry ap r ctx (fetch_many_once ap bl s active ctx) u = (Inl (y, n), u')" for u u' y n
    using retry_loop_calm [OF source_calls_calm(3) [OF assms(1)]] that unfolding call_with_retry_def run_with_retry_def
    by (metis fst_conv)
  have outcomes: "raises_only is_exception (each (record_group_outcome bl s r payloads invalid) groups)" for payloads invalid
    by (intro raises_only_each group_outcome_calm [OF assms])
  have "is_exception (fst x)" using x(1)
    by (cases x) (auto simp: batch_body_def Let_def dest: retry raises_onlyD [OF outcomes] split: prod.splits sum.splits)
  from raises_onlyD [OF error_handlers_total(3) [OF assms(2) this] x(2)] show "P e" .
qed

lemma batch_total:
  assumes "calm ap bl" "strip (so_name s) \<noteq> ''''" "resilience_for (bl_catalog bl) s = Inr r"
  shows "raises_only P (attempt_batch_source ap bl s keys ctx)"
proof -
  have groups: "lift_arg (circuit_groups b s ks q) \<noteq> Inl e" for b ks q e
    using circuit_groups_total [OF assms(2), of b ks q] by auto
  show ?thesis unfolding attempt_batch_source_def Let_def
    by (auto simp: assms(3) groups intro!: raises_only_bind raises_only_ret raises_only_lift raises_only_fold
        admit_group_total [OF assms(2)] call_batch_total [OF assms(1,2)])
qed

lemma raises_only_bounded:
  "1 \<le> m \<Longrightarrow> (\<And>x. x \<in> set xs \<Longrightarrow> raises_only P (f x)) \<Longrightarrow> raises_only P (run_bounded m f xs)"
  by (auto simp: run_bounded_def intro!: raises_only_each)

lemma attempt_total:
  assumes calm: "calm ap bl" and named: "strip (so_name s) \<noteq> ''''" and res: "resilience_for (bl_catalog bl) s = Inr r"
    and pending: "1 \<le> bl_max_pending_tasks bl"
    and resolve: "\<And>ks k. k \<in> set keys \<Longrightarrow> raises_only is_exception (resolve ks (anc @ [k]) lo)"
  shows "raises_only P (attempt ap bl resolve s keys ctx anc lo)"
proof -
  have collect: "raises_only P (collect_attempts s completed)" for completed
    by (auto simp: collect_attempts_def intro!: raises_rules)
  have limit: "lift_arg (limit_for (bl_capacity bl) (so_name s)) \<noteq> Inl e" for e
    using named by (auto simp: limit_for_def normalize_source_def Let_def)
  have "raises_only P (attempt_single_source ap bl s keys ctx)"
    unfolding attempt_single_source_def res
    by (auto intro!: raises_only_bind raises_only_lift raises_only_bounded [OF pending] collect fetch_one_total [OF calm named])
  moreover have "raises_only P (attempt_derived_source ap bl resolve s keys ctx anc lo)"
    unfolding attempt_derived_source_def res
    by (intro raises_only_bind raises_only_lift raises_only_bounded [OF pending] collect derive_one_total [OF calm named])
      (auto intro: resolve)
  moreover have "raises_only P (attempt_in_chunks ap bl s keys ctx)"
    unfolding attempt_in_chunks_def Let_def
    by (auto simp: limit wave_size_def split: option.splits intro!: raises_only_bind raises_only_ret raises_only_lift
        raises_only_bounded batch_total [OF calm named res])
  ultimately show ?thesis by (cases "catalog_kind (bl_catalog bl) s") (simp_all add: attempt_def)
qed

text \<open>
  C4: An exception of a source, of its payloads or of a policy never escapes from an attempt:
  whatever a single, batch or derived source raises except a cancellation, the attempt returns,
  with an outcome for exactly the requested keys. The remaining hypotheses are what the
  construction of the builder checks.
\<close>

theorem attempt_never_raises:
  assumes "calm ap bl" "strip (so_name s) \<noteq> ''''" "resilience_for (bl_catalog bl) s = Inr r" "1 \<le> bl_max_pending_tasks bl"
    and "\<And>m. so_max_batch_size s = Some m \<Longrightarrow> 1 \<le> m"
    and "\<And>ks anc. raises_only is_exception (resolve ks anc local_owned)"
  shows "\<exists>results w'. attempt ap bl resolve s keys ctx ancestry local_owned w = (Inr results, w')
     \<and> od_ok results \<and> set (od_keys results) = set keys"
proof -
  have "raises_only (\<lambda>e. False) (attempt ap bl resolve s keys ctx ancestry local_owned)"
    by (rule attempt_total [OF assms(1-4)]) (rule assms(6))
  from raises_nothing [OF this, of w] obtain results w' where
    run: "attempt ap bl resolve s keys ctx ancestry local_owned w = (Inr results, w')" by (elim exE)
  have "attempts_exactly keys results" by (rule attempt_keys [OF run]) (rule assms(5))
  then have "od_ok results" "set (od_keys results) = set keys" by (simp_all add: attempts_exactly_def)
  with run show ?thesis by (intro exI conjI)
qed

definition fixture_no_resolver :: "'s resolver" where
  "fixture_no_resolver ks anc lo = ret ([], [])"

lemma fixture_calm: "calm (fixture_app d) fixture_builder"
  by (simp add: calm_def calm_call_def calm_copier_def fixture_app_def fixture_builder_def deepcopy_payload_def policy_resolve_def)

theorem attempt_never_raises_witness:
  "\<exists>results w'. attempt (fixture_app 1) fixture_builder fixture_no_resolver (fixture_source ''feed'')
       [fixture_key ''quote'', fixture_key ''trade''] (fixture_context None) [] {} fixture_world = (Inr results, w')
     \<and> set (od_keys results) = {fixture_key ''quote'', fixture_key ''trade''}"
proof -
  have "\<exists>results w'. attempt (fixture_app 1) fixture_builder fixture_no_resolver (fixture_source ''feed'')
       [fixture_key ''quote'', fixture_key ''trade''] (fixture_context None) [] {} fixture_world = (Inr results, w')
     \<and> od_ok results \<and> set (od_keys results) = set [fixture_key ''quote'', fixture_key ''trade'']"
  proof (rule attempt_never_raises [OF fixture_calm])
    show "resilience_for (bl_catalog fixture_builder) (fixture_source ''feed'') = Inr fixture_resilience"
      by (simp add: resilience_for_def resilience_resolve_def fixture_builder_def fixture_catalog_def fixture_resolver_def
          fixture_source_def normalize_source_def strip_eq_self is_space_def)
    show "raises_only is_exception (fixture_no_resolver ks anc {})" for ks anc :: "resource_key list"
      by (auto simp: fixture_no_resolver_def)
  qed (simp_all add: fixture_source_def fixture_builder_def strip_eq_self is_space_def)
  then show ?thesis by (auto simp del: set_map)
qed

text \<open>
  A refused circuit keeps the source from being called: when the breaker does not admit the
  key, the attempt fails with zero attempts, no external operation runs, no time passes, and
  the breaker holds what the refusal itself left in it.
\<close>

lemma refused_circuit_skips_source:
  assumes "breaker_before s k r w = (Inl e, w1)" "is_circuit_open e"
  shows "\<exists>w'. fetch_one ap bl s r ctx k w = (Inr (k, failed_attempt e 0 0), w')
    \<and> w_tick w' = w_tick w \<and> w_mono w' = w_mono w \<and> w_diag w' = w_diag w \<and> w_breaker w' = w_breaker w1"
proof -
  have ne: "e \<noteq> CancelledError" "\<not> is_deadline_exceeded e" "\<not> is_queue_timeout e" using assms(2) by (cases e; simp)+
  from assms(1) obtain b where "w1 = w\<lparr>w_breaker := b\<rparr>"
    by (auto simp: breaker_before_def on_breaker_def split: prod.splits)
  then have same: "w_tick w1 = w_tick w" "w_mono w1 = w_mono w" "w_diag w1 = w_diag w" by simp_all
  show ?thesis
    using assms ne same
    by (simp add: fetch_one_def guarded_call_def handle_fetch_error_def refused_attempt_def bind_act_def
        record_circuit_open_def elapsed_ms_def)
qed

definition fixture_circuit_world :: "circuit \<Rightarrow> memory_cache world" where
  "fixture_circuit_world c = fixture_world\<lparr>w_breaker := fixture_breaker\<lparr>cb_circuits :=
     [(CircuitIdentity ''feed'' RESOURCE (key_str (fixture_key ''quote'')), c)]\<rparr>\<rparr>"

lemma fixture_identity:
  "identity_for b ''feed'' (Some k) (Some RESOURCE) = Inr (CircuitIdentity ''feed'' RESOURCE (key_str k))"
  by (simp add: identity_for_def normalize_source_def strip_eq_self is_space_def)

lemma fixture_breaker_before:
  "breaker_before (fixture_source ''feed'') (fixture_key ''quote'') fixture_resilience (fixture_circuit_world c) =
     (let (a, c') = admit (rs_circuit fixture_resilience) (CircuitIdentity ''feed'' RESOURCE (key_str (fixture_key ''quote''))) 50 c
      in (res_bind a (\<lambda>_. Inr (CircuitIdentity ''feed'' RESOURCE (key_str (fixture_key ''quote'')))), fixture_circuit_world c'))"
  by (simp add: breaker_before_def on_breaker_def before_call_def fixture_circuit_world_def fixture_world_def fixture_source_def
      fixture_resilience_def policy_or_default_def fixture_identity circuit_at_def put_circuit_def case_prod_unfold Let_def)

lemma refused_circuit_skips_source_witness:
  "\<exists>e w'. fetch_one (fixture_app 1) fixture_builder (fixture_source ''feed'') fixture_resilience (fixture_context None)
       (fixture_key ''quote'') (fixture_circuit_world \<lparr>ct_state = OPEN, ct_failures = 1, ct_opened_at = 40,
         ct_half_open_probe_active = False\<rparr>) = (Inr (fixture_key ''quote'', failed_attempt e 0 0), w') \<and> w_tick w' = 0"
proof -
  let ?c = "\<lparr>ct_state = OPEN, ct_failures = 1, ct_opened_at = 40, ct_half_open_probe_active = False\<rparr>"
  let ?e = "CircuitOpenError (''circuit is open for '' @ identity_str (CircuitIdentity ''feed'' RESOURCE (key_str (fixture_key ''quote''))))"
  have "breaker_before (fixture_source ''feed'') (fixture_key ''quote'') fixture_resilience (fixture_circuit_world ?c)
      = (Inl ?e, fixture_circuit_world ?c)"
    unfolding fixture_breaker_before by (simp add: admit_def fixture_resilience_def)
  from refused_circuit_skips_source [OF this, of "fixture_app 1" fixture_builder "fixture_context None"]
  show ?thesis by (auto simp: fixture_circuit_world_def fixture_world_def)
qed

subsection \<open>A failed dependency frees a probe it does not hold\<close>


subsection \<open>An attempt asks the resolver only for keys off the path\<close>

lemma check_dependencies_Inr:
  assumes "check_dependencies s path ds = Inr ks"
  shows "set ks = {k. DepKey k \<in> set ds}" "set ks \<inter> set path = {}"
proof -
  show "set ks = {k. DepKey k \<in> set ds}" using assms
    by (induction s path ds arbitrary: ks rule: check_dependencies.induct) (auto simp: res_iff split: if_splits)
  show "set ks \<inter> set path = {}" using assms
    by (induction s path ds arbitrary: ks rule: check_dependencies.induct) (auto simp: res_iff split: if_splits)
qed

text \<open>Two resolvers that agree on the keys in \<open>U\<close> that are not on the path give the same attempt.\<close>

lemma resolve_dependencies_cong:
  assumes "\<And>ks w. set ks \<subseteq> U \<Longrightarrow> set ks \<inter> set (anc @ [k]) = {} \<Longrightarrow> r1 ks (anc @ [k]) lo w = r2 ks (anc @ [k]) lo w"
    and "\<And>ds d. ap_dependencies ap (so_name s) k = Inr ds \<Longrightarrow> DepKey d \<in> set ds \<Longrightarrow> d \<in> U"
  shows "resolve_dependencies ap bl r1 s ctx anc lo k w = resolve_dependencies ap bl r2 s ctx anc lo k w"
proof (cases "ap_dependencies ap (so_name s) k")
  case (Inr ds)
  show ?thesis
  proof (cases "check_dependencies s (anc @ [k]) (fromkeys ds)")
    case ks: (Inr ks)
    have "set ks \<subseteq> U" "set ks \<inter> set (anc @ [k]) = {}"
      using check_dependencies_Inr [OF ks] assms(2) [OF Inr] by auto
    from assms(1) [OF this] Inr ks show ?thesis by (simp add: resolve_dependencies_def bind_act_def)
  qed (simp add: resolve_dependencies_def bind_act_def Inr)
qed (simp add: resolve_dependencies_def bind_act_def)

lemma derive_one_cong:
  assumes "\<And>ks w. set ks \<subseteq> U \<Longrightarrow> set ks \<inter> set (anc @ [k]) = {} \<Longrightarrow> r1 ks (anc @ [k]) lo w = r2 ks (anc @ [k]) lo w"
    and "\<And>ds d. ap_dependencies ap (so_name s) k = Inr ds \<Longrightarrow> DepKey d \<in> set ds \<Longrightarrow> d \<in> U"
  shows "derive_one ap bl r1 s r ctx anc lo k w = derive_one ap bl r2 s r ctx anc lo k w"
proof -
  have "resolve_dependencies ap bl r1 s ctx anc lo k w = resolve_dependencies ap bl r2 s ctx anc lo k w"
  proof (rule resolve_dependencies_cong [of U])
    show "r1 ks (anc @ [k]) lo u = r2 ks (anc @ [k]) lo u" if "set ks \<subseteq> U" "set ks \<inter> set (anc @ [k]) = {}" for ks u
      by (rule assms(1) [OF that])
    show "d \<in> U" if "ap_dependencies ap (so_name s) k = Inr ds" "DepKey d \<in> set ds" for ds d
      by (rule assms(2) [OF that])
  qed
  then show ?thesis by (simp add: derive_one_def)
qed

lemma run_bounded_cong:
  "(\<And>x w. x \<in> set xs \<Longrightarrow> f x w = g x w) \<Longrightarrow> run_bounded m f xs w = run_bounded m g xs w"
  using each_cong [of xs f g w] by (simp add: run_bounded_def)

lemma attempt_cong:
  assumes "\<And>k ks w. k \<in> set keys \<Longrightarrow> set ks \<subseteq> U \<Longrightarrow> set ks \<inter> set (anc @ [k]) = {}
      \<Longrightarrow> r1 ks (anc @ [k]) lo w = r2 ks (anc @ [k]) lo w"
    and "\<And>k ds d. k \<in> set keys \<Longrightarrow> ap_dependencies ap (so_name s) k = Inr ds \<Longrightarrow> DepKey d \<in> set ds \<Longrightarrow> d \<in> U"
  shows "attempt ap bl r1 s keys ctx anc lo w = attempt ap bl r2 s keys ctx anc lo w"
proof -
  have "run_bounded m (derive_one ap bl r1 s r ctx anc lo) keys w = run_bounded m (derive_one ap bl r2 s r ctx anc lo) keys w"
    for m r w
  proof (rule run_bounded_cong, rule derive_one_cong [of U])
    show "r1 ks (anc @ [x]) lo u = r2 ks (anc @ [x]) lo u"
      if "x \<in> set keys" "set ks \<subseteq> U" "set ks \<inter> set (anc @ [x]) = {}" for x ks u by (rule assms(1) [OF that])
    show "d \<in> U" if "x \<in> set keys" "ap_dependencies ap (so_name s) x = Inr ds" "DepKey d \<in> set ds" for x ds d
      by (rule assms(2) [OF that])
  qed
  then show ?thesis by (auto simp: attempt_def attempt_derived_source_def bind_act_def split: source_kind.splits sum.splits)
qed

end
