(* ===== verification/Cache_Access.thy ===== *)
theory Cache_Access
  imports Source_Executor
begin

section \<open>Cache access of a resolution (orchestration/cache_access.py)\<close>

text \<open>
  Reads, writes and copies of cached values on behalf of a resolution, each within the
  deadline of the snapshot. The cache is any implementation of the protocols: the record of
  operations in the builder over the state \<open>w_cache\<close>.
\<close>

definition on_cache :: "('s \<Rightarrow> (py_error + 'b) \<times> 's) \<Rightarrow> ('s world, 'b) act" where
  "on_cache f w = (let (r, c) = f (w_cache w) in (r, w\<lparr>w_cache := c\<rparr>))"

definition within_deadline :: "app \<Rightarrow> fetch_context \<Rightarrow> string \<Rightarrow> ('s world, 'b) act \<Rightarrow> ('s world, 'b) act" where
  "within_deadline ap ctx nm operation w =
     await_with_deadline (ap_delay ap) operation (fc_deadline_monotonic ctx) nm w"

definition key_error :: "resource_key \<Rightarrow> py_error" where
  "key_error k = KeyError (key_str k)"

subsection \<open>Copies\<close>

definition isolated_lookup :: "payload_copier \<Rightarrow> resource_key \<Rightarrow> cache_lookup \<Rightarrow> py_error + cache_lookup" where
  "isolated_lookup copier k l =
     (case cl_value l of
        None \<Rightarrow> Inr l
      | Some v \<Rightarrow> res_bind (clone_snapshot_value copier v (''cache read for '' @ key_str k) no_changes)
                    (\<lambda>v'. Inr (l\<lparr>cl_value := Some v'\<rparr>)))"

definition cached_copy ::
  "app \<Rightarrow> 's builder \<Rightarrow> fetch_context \<Rightarrow> snapshot_value \<Rightarrow> bool \<Rightarrow> metadata \<Rightarrow> ('s world, snapshot_value) act" where
  "cached_copy ap bl ctx v stale extra w =
     async_clone (ap_delay ap) (bl_copy bl) (bl_copier bl) v (''cached snapshot value for '' @ key_str (sv_key v))
       \<lparr>cc_fetched_at = Some (w_now w), cc_age_seconds = Some (max 0 (w_now w - sv_observed_at v)), cc_stale = Some stale,
        cc_from_cache = Some True, cc_latency_ms = Some 0, cc_metadata = Some (od_update (sv_metadata v) extra)\<rparr>
       (fc_deadline_monotonic ctx) w"

subsection \<open>Dependency versions of a cache that does not check them\<close>

type_synonym read_memo = "(resource_key, snapshot_value option) odict"

definition read_unfiltered ::
  "app \<Rightarrow> 's builder \<Rightarrow> fetch_context \<Rightarrow> rat \<Rightarrow> resource_key \<Rightarrow> read_memo
    \<Rightarrow> ('s world, snapshot_value option \<times> read_memo) act" where
  "read_unfiltered ap bl ctx now k memo =
     (case map_of memo k of
        Some v \<Rightarrow> ret (v, memo)
      | None \<Rightarrow>
          bind_act (within_deadline ap ctx (''reading cache dependency '' @ key_str k)
                     (on_cache (co_get (bl_ops bl) k now all_values_policy)))
            (\<lambda>l. ret (cl_value l, od_set k (cl_value l) memo)))"

text \<open>
  The loop over the recorded dependencies; \<open>below\<close> is the recursive call on a dependency. The
  third component of the state is the set \<open>invalid\<close>, in the order of the additions.
\<close>

fun dependencies_loop ::
  "(resource_key \<Rightarrow> read_memo \<Rightarrow> ('s world, snapshot_value option \<times> read_memo) act)
    \<Rightarrow> (snapshot_value \<Rightarrow> resource_key list \<Rightarrow> read_memo \<times> resource_key list
         \<Rightarrow> ('s world, bool \<times> read_memo \<times> resource_key list) act)
    \<Rightarrow> resource_key list \<Rightarrow> (resource_key \<times> string) list \<Rightarrow> read_memo \<times> resource_key list
    \<Rightarrow> ('s world, bool \<times> read_memo \<times> resource_key list) act" where
  "dependencies_loop read below path [] (memo, invalid) = ret (True, memo, invalid)"
| "dependencies_loop read below path ((k, expected) # rest) (memo, invalid) =
     bind_act (read k memo) (\<lambda>(dependency, memo1).
       case dependency of
         None \<Rightarrow> ret (False, memo1, invalid)
       | Some d \<Rightarrow>
           if sv_version d \<noteq> expected then ret (False, memo1, invalid)
           else bind_act (below d path (memo1, invalid)) (\<lambda>(ok, memo2, invalid2).
             if ok then dependencies_loop read below path rest (memo2, invalid2)
             else ret (False, memo2, List.insert (sv_key d) invalid2)))"

primrec access_dependencies_current ::
  "nat \<Rightarrow> app \<Rightarrow> 's builder \<Rightarrow> fetch_context \<Rightarrow> rat \<Rightarrow> snapshot_value \<Rightarrow> resource_key list
    \<Rightarrow> read_memo \<times> resource_key list \<Rightarrow> ('s world, bool \<times> read_memo \<times> resource_key list) act" where
  "access_dependencies_current 0 ap bl ctx now v visiting st =
     throw (OtherError ''RecursionError'' ''maximum recursion depth exceeded'')"
| "access_dependencies_current (Suc n) ap bl ctx now v visiting st =
     (if sv_dependency_versions v = [] then ret (True, st)
      else if sv_key v \<in> set visiting then ret (False, fst st, List.insert (sv_key v) (snd st))
      else dependencies_loop (read_unfiltered ap bl ctx now) (access_dependencies_current n ap bl ctx now)
             (sv_key v # visiting) (sv_dependency_versions v) st)"

definition access_invalidate_many :: "app \<Rightarrow> 's builder \<Rightarrow> fetch_context \<Rightarrow> resource_key list \<Rightarrow> ('s world, unit) act" where
  "access_invalidate_many ap bl ctx keys =
     within_deadline ap ctx ''invalidating cache dependencies''
       (case co_batch (bl_ops bl) of
          Some batch \<Rightarrow> on_cache (bo_invalidate_many batch (fromkeys keys))
        | None \<Rightarrow> bind_act (run_bounded (bl_max_pending_tasks bl) (\<lambda>k. on_cache (co_invalidate (bl_ops bl) k)) (fromkeys keys))
                   (\<lambda>_. ret ()))"

text \<open>One lookup of \<open>_filter_invalid_dependencies\<close>.\<close>

definition filter_lookup ::
  "app \<Rightarrow> 's builder \<Rightarrow> fetch_context \<Rightarrow> rat \<Rightarrow> resource_key \<times> cache_lookup
    \<Rightarrow> (resource_key, cache_lookup) odict \<times> read_memo \<times> resource_key list
    \<Rightarrow> ('s world, (resource_key, cache_lookup) odict \<times> read_memo \<times> resource_key list) act" where
  "filter_lookup ap bl ctx now item st =
     (let (k, l) = item; (filtered, memo, invalid) = st
      in case cl_value l of
           None \<Rightarrow> ret st
         | Some v \<Rightarrow>
             if sv_dependency_versions v = [] then ret st
             else bind_act (access_dependencies_current (bl_recursion_limit bl) ap bl ctx now v [] (memo, invalid))
               (\<lambda>(ok, memo', invalid').
                 if ok then ret (filtered, memo', invalid')
                 else ret (od_set k \<lparr>cl_value = None, cl_fresh = False, cl_usable_stale = False,
                                     cl_age_seconds = cl_age_seconds l\<rparr> filtered, memo', List.insert k invalid')))"

definition filter_invalid_dependencies ::
  "app \<Rightarrow> 's builder \<Rightarrow> fetch_context \<Rightarrow> rat \<Rightarrow> (resource_key, cache_lookup) odict
    \<Rightarrow> ('s world, (resource_key, cache_lookup) odict) act" where
  "filter_invalid_dependencies ap bl ctx now lookups =
     bind_act (fold_act (filter_lookup ap bl ctx now) lookups (lookups, [], [])) (\<lambda>(filtered, memo, invalid).
       if invalid = [] then ret filtered
       else bind_act (access_invalidate_many ap bl ctx invalid) (\<lambda>_. ret filtered))"

subsection \<open>Reads and writes\<close>

definition count_batch_read :: "diagnostics_collector \<Rightarrow> diagnostics_collector" where
  "count_batch_read d = d\<lparr>dc_cache_batch_reads := dc_cache_batch_reads d + 1\<rparr>"

definition count_batch_write :: "diagnostics_collector \<Rightarrow> diagnostics_collector" where
  "count_batch_write d = d\<lparr>dc_cache_batch_writes := dc_cache_batch_writes d + 1\<rparr>"

definition read_cache ::
  "app \<Rightarrow> 's builder \<Rightarrow> fetch_context \<Rightarrow> resource_key list \<Rightarrow> rat \<Rightarrow> (resource_key, freshness_policy) odict
    \<Rightarrow> ('s world, (resource_key, cache_lookup) odict) act" where
  "read_cache ap bl ctx unique now policies =
     (case co_batch (bl_ops bl) of
        Some batch \<Rightarrow>
          bind_act (updates (count_diag count_batch_read)) (\<lambda>_.
            within_deadline ap ctx ''reading cache values'' (on_cache (bo_get_many batch unique now policies)))
      | None \<Rightarrow>
          bind_act (within_deadline ap ctx ''reading cache values''
            (run_bounded (bl_max_pending_tasks bl)
               (\<lambda>k. bind_act (lift_res (require (map_of policies k) (key_error k)))
                      (\<lambda>p. on_cache (co_get (bl_ops bl) k now p))) unique))
            (\<lambda>ls. ret (zip unique ls)))"

definition access_get_many ::
  "app \<Rightarrow> 's builder \<Rightarrow> fetch_context \<Rightarrow> resource_key list \<Rightarrow> rat \<Rightarrow> (resource_key, freshness_policy) odict
    \<Rightarrow> ('s world, (resource_key, cache_lookup) odict) act" where
  "access_get_many ap bl ctx keys now policies =
     (let unique = fromkeys keys
      in if unique = [] then ret []
         else
           bind_act (read_cache ap bl ctx unique now policies) (\<lambda>lookups.
           bind_act (lift_res (res_map (\<lambda>k. res_bind (require (map_of lookups k) (key_error k)) (\<lambda>l. Inr (k, l))) unique)) (\<lambda>items.
           bind_act (copy_map (ap_delay ap) (bl_copy bl)
                       (\<lambda>item. res_bind (isolated_lookup (bl_copier bl) (fst item) (snd item)) (\<lambda>l. Inr (fst item, l)))
                       (fc_deadline_monotonic ctx) ''isolating cache read results'' items) (\<lambda>isolated.
             if co_validates_dependency_versions (bl_ops bl) then ret (od_of isolated)
             else filter_invalid_dependencies ap bl ctx now (od_of isolated)))))"

text \<open>The write, by the capabilities of the cache; \<open>None\<close> is the absent result.\<close>

definition write_cache ::
  "app \<Rightarrow> 's builder \<Rightarrow> fetch_context \<Rightarrow> snapshot_value list \<Rightarrow> ('s world, (resource_key, cache_write_result) odict option) act" where
  "write_cache ap bl ctx isolated =
     (case (co_batch (bl_ops bl), co_set_many_if_newer (bl_ops bl), co_set_if_newer (bl_ops bl)) of
        (Some _, Some write_many, _) \<Rightarrow>
          bind_act (updates (count_diag count_batch_write)) (\<lambda>_.
          bind_act (within_deadline ap ctx ''writing cache values'' (on_cache (write_many isolated False False))) (\<lambda>rs.
            ret (Some rs)))
      | (Some batch, None, _) \<Rightarrow>
          bind_act (updates (count_diag count_batch_write)) (\<lambda>_.
          bind_act (within_deadline ap ctx ''writing cache values'' (on_cache (bo_set_many batch isolated))) (\<lambda>_.
            ret None))
      | (None, _, Some write_one) \<Rightarrow>
          bind_act (within_deadline ap ctx ''writing cache values''
            (run_bounded (bl_max_pending_tasks bl) (\<lambda>v. on_cache (write_one v False False)) isolated)) (\<lambda>rs.
            ret (Some (od_of (zip (map sv_key isolated) rs))))
      | (None, _, None) \<Rightarrow>
          bind_act (within_deadline ap ctx ''writing cache values''
            (run_bounded (bl_max_pending_tasks bl) (\<lambda>v. on_cache (co_set (bl_ops bl) v)) isolated)) (\<lambda>_. ret None))"

definition access_set_many ::
  "app \<Rightarrow> 's builder \<Rightarrow> fetch_context \<Rightarrow> snapshot_value list
    \<Rightarrow> ('s world, (resource_key, cache_write_result) odict option) act" where
  "access_set_many ap bl ctx vs =
     (let unique = map snd (od_of (map (\<lambda>v. (sv_key v, v)) vs))
      in if unique = [] then ret None
         else bind_act (copy_map (ap_delay ap) (bl_copy bl)
                          (\<lambda>v. clone_snapshot_value (bl_copier bl) v (''cache write for '' @ key_str (sv_key v)) no_changes)
                          (fc_deadline_monotonic ctx) ''isolating cache write values'' unique)
                (write_cache ap bl ctx))"

end
