(* ===== verification/Resolver.thy ===== *)
theory Resolver
  imports Cache_Access
begin

section \<open>Resolution (orchestration/builder.py: _resolve_many, _resolve_owned_keys; refresh.py: schedule)\<close>

text \<open>
  A resolution answers a set of keys from the memo, the cache and the sources. Keys that
  another caller is already resolving are joined: \<open>ap_joined\<close> says which and with what outcome.
  The recursion through derived sources is unrolled \<open>n\<close> times over a resolver \<open>bottom\<close>; enough
  unrollings make the result independent of \<open>n\<close> and \<open>bottom\<close>.
\<close>

subsection \<open>Refresh scheduling\<close>

definition on_rt :: "(resolution_runtime \<Rightarrow> resolution_runtime) \<Rightarrow> 's world \<Rightarrow> 's world" where
  "on_rt f w = w\<lparr>w_rt := f (w_rt w)\<rparr>"

text \<open>\<open>w_refreshing\<close> lists the keys whose refresh task is not done.\<close>

definition schedule_refresh :: "fetch_context \<Rightarrow> string \<Rightarrow> resource_key \<Rightarrow> ('s world, bool) act" where
  "schedule_refresh ctx reason k w =
     (if w_refresh_closed w then (Inr False, w)
      else if k \<in> set (w_refreshing w) then (Inr True, w)
      else (Inr True,
        emit [MetricIncrement ''resource_refresh_total'' ((''status'', ''scheduled'') # resource_metric_labels k),
              EventEmit ''resource_refresh_scheduled''
                [(''resource'', PyStr (key_str k)), (''reason'', PyStr reason), (''snapshot_id'', PyStr (fc_snapshot_id ctx))]]
          (count_diag (\<lambda>d. d\<lparr>dc_refresh_scheduled := dc_refresh_scheduled d + 1\<rparr>)
            (w\<lparr>w_refreshing := w_refreshing w @ [k]\<rparr>))))"

subsection \<open>Owned keys\<close>

record owned =
  ow_unresolved :: "resource_key list"
  ow_failures :: "(resource_key, source_failure list) odict"
  ow_best_stale :: "(resource_key, snapshot_value) odict"
  ow_resolved :: "(resource_key, resolution_result) odict"

definition new_owned :: "resource_key list \<Rightarrow> owned" where
  "new_owned keys = \<lparr>ow_unresolved = keys, ow_failures = od_of (map (\<lambda>k. (k, [])) keys), ow_best_stale = [], ow_resolved = []\<rparr>"

definition add_failure :: "resource_key \<Rightarrow> source_failure \<Rightarrow> owned \<Rightarrow> owned" where
  "add_failure k f ow =
     ow\<lparr>ow_failures := od_set k ((case map_of (ow_failures ow) k of None \<Rightarrow> [] | Some fs \<Rightarrow> fs) @ [f]) (ow_failures ow)\<rparr>"

definition resolve_as :: "resource_key \<Rightarrow> resolution_result \<Rightarrow> owned \<Rightarrow> owned" where
  "resolve_as k r ow = ow\<lparr>ow_resolved := od_set k r (ow_resolved ow)\<rparr>"

definition drop_resolved :: "owned \<Rightarrow> owned" where
  "drop_resolved ow = ow\<lparr>ow_unresolved := filter (\<lambda>k. map_of (ow_resolved ow) k = None) (ow_unresolved ow)\<rparr>"

definition from_memo :: "resolution_runtime \<Rightarrow> owned \<Rightarrow> owned" where
  "from_memo rt ow =
     foldl (\<lambda>ow k. if requires_refresh rt k then ow
                   else case map_of (rt_memo rt) k of None \<Rightarrow> ow | Some v \<Rightarrow> resolve_as k (Inr v) ow)
       ow (ow_unresolved ow)"

text \<open>Which of the unresolved keys the source is asked for.\<close>

definition consider_source ::
  "app \<Rightarrow> 's builder \<Rightarrow> source \<Rightarrow> resource_key \<Rightarrow> resource_key list \<times> owned \<Rightarrow> ('s world, resource_key list \<times> owned) act" where
  "consider_source ap bl s k st w =
     (let (candidates, ow) = st
      in if source_is_excluded (w_rt w) k (so_name s)
         then (Inr st,
               emit [MetricIncrement ''source_fetch_total'' [(''status'', ''consistency_excluded''), (''source'', so_name s)],
                     EventEmit ''source_excluded''
                       [(''resource'', PyStr (key_str k)), (''source'', PyStr (so_name s)),
                        (''reason'', PyStr ''consistency_fallback'')]] w)
         else
           let (a, sc, d) = supports (bl_catalog bl) s k (ap_supports ap (so_name s) k) (w_support w) (w_diag w);
               w' = w\<lparr>w_support := sc, w_diag := d\<rparr>
           in case a of
                Inr b \<Rightarrow> (Inr (if b then candidates @ [k] else candidates, ow), w')
              | Inl e \<Rightarrow>
                  if is_exception e then (Inr (candidates, add_failure k (source_failure_of s e 0) ow), w')
                  else (Inl e, w'))"

fun fmt_float :: "nat \<Rightarrow> pyfloat \<Rightarrow> string" where
  "fmt_float n (Fin x) = fmt_fixed n x"
| "fmt_float n PInf = ''inf''"
| "fmt_float n NInf = ''-inf''"
| "fmt_float n NaN = ''nan''"

definition kind_text :: "source_kind \<Rightarrow> string" where
  "kind_text k = (case k of SingleKind \<Rightarrow> ''single'' | BatchKind \<Rightarrow> ''batch'' | DerivedKind \<Rightarrow> ''derived'')"

definition note_failed :: "source \<Rightarrow> resource_key \<Rightarrow> py_error \<Rightarrow> 's world \<Rightarrow> 's world" where
  "note_failed s k e =
     emit [MetricIncrement ''source_fetch_total'' [(''status'', ''failure''), (''source'', so_name s)],
           EventEmit ''source_failed''
             [(''resource'', PyStr (key_str k)), (''source'', PyStr (so_name s)),
              (''error_type'', PyStr (error_type e)), (''error'', PyStr (error_str e))]]"

definition note_rejected :: "source \<Rightarrow> resource_key \<Rightarrow> py_error \<Rightarrow> 's world \<Rightarrow> 's world" where
  "note_rejected s k e w =
     emit [MetricIncrement ''source_fetch_total'' [(''status'', ''invalid_timestamp''), (''source'', so_name s)],
           EventEmit ''source_payload_rejected''
             [(''resource'', PyStr (key_str k)), (''source'', PyStr (so_name s)), (''error'', PyStr (error_str e))]]
       (count_diag (add_future_rejections 1) w)"

definition note_resolved :: "'s builder \<Rightarrow> source \<Rightarrow> resource_key \<Rightarrow> source_attempt \<Rightarrow> snapshot_value \<Rightarrow> 's world \<Rightarrow> 's world" where
  "note_resolved bl s k a v =
     emit [MetricIncrement ''source_fetch_total'' [(''status'', ''success''), (''source'', so_name s)],
           MetricObserve ''source_fetch_latency_ms'' (sa_latency_ms a) [(''source'', so_name s)],
           EventEmit ''resource_resolved''
             [(''resource'', PyStr (key_str k)), (''source'', PyStr (so_name s)),
              (''latency_ms'', PyFloat (Fin (sa_latency_ms a))), (''attempts'', PyInt (sa_attempts a)),
              (''source_kind'', PyStr (kind_text (catalog_kind (bl_catalog bl) s))),
              (''authority_rank'', PyInt (sv_authority_rank v))]]"

definition stale_failure :: "source \<Rightarrow> source_attempt \<Rightarrow> snapshot_value \<Rightarrow> freshness_policy \<Rightarrow> source_failure" where
  "stale_failure s a v policy =
     \<lparr>sf_source = so_name s, sf_error_type = ''StaleSourceData'',
      sf_message = ''age '' @ fmt_fixed 3 (sv_age_seconds v) @ ''s exceeds ttl '' @ fmt_float 3 (fp_ttl_seconds policy) @ ''s'',
      sf_attempts = sa_attempts a\<rparr>"

definition keep_best_stale :: "freshness_policy \<Rightarrow> snapshot_value \<Rightarrow> resource_key \<Rightarrow> owned \<Rightarrow> owned" where
  "keep_best_stale policy v k ow =
     (if fle (Fin (sv_age_seconds v)) (fp_max_stale_seconds policy)
         \<and> (case map_of (ow_best_stale ow) k of None \<Rightarrow> True | Some b \<Rightarrow> sv_observed_at b < sv_observed_at v)
      then ow\<lparr>ow_best_stale := od_set k v (ow_best_stale ow)\<rparr> else ow)"

text \<open>What one attempt means for its key; fresh values are collected for the cache.\<close>

definition fail_key :: "source \<Rightarrow> source_attempt \<Rightarrow> resource_key \<Rightarrow> py_error \<Rightarrow> snapshot_value list \<times> owned \<Rightarrow> snapshot_value list \<times> owned" where
  "fail_key s a k e st = (fst st, add_failure k (source_failure_of s e (sa_attempts a)) (snd st))"

definition accept_value ::
  "'s builder \<Rightarrow> source \<Rightarrow> source_attempt \<Rightarrow> resource_key \<Rightarrow> snapshot_value list \<times> owned \<Rightarrow> snapshot_value
    \<Rightarrow> ('s world, snapshot_value list \<times> owned) act" where
  "accept_value bl s a k st v =
     bind_act (lift_res (policy_resolve (bl_policies bl) k)) (\<lambda>policy.
       if sv_stale v
       then ret (fst st, add_failure k (stale_failure s a v policy) (keep_best_stale policy v k (snd st)))
       else
         bind_act (updates (on_rt (\<lambda>rt. mark_refreshed k (memoize k v rt)))) (\<lambda>_.
         bind_act (updates (note_resolved bl s k a v)) (\<lambda>_.
           ret (fst st @ [v], resolve_as k (Inr v) (snd st)))))"

definition judge_attempt ::
  "app \<Rightarrow> 's builder \<Rightarrow> source \<Rightarrow> (resource_key, source_attempt) odict \<Rightarrow> resource_key \<Rightarrow> snapshot_value list \<times> owned
    \<Rightarrow> ('s world, snapshot_value list \<times> owned) act" where
  "judge_attempt ap bl s attempts k st =
     bind_act (lift_res (require (map_of attempts k) (key_error k))) (\<lambda>a.
       case sa_outcome a of
         Inl e \<Rightarrow> bind_act (updates (note_failed s k e)) (\<lambda>_. ret (fail_key s a k e st))
       | Inr p \<Rightarrow>
           handle (build_snapshot_value ap bl k s p (sa_attempts a) (sa_latency_ms a) (sa_dependency_versions a))
             (accept_value bl s a k st)
             (\<lambda>e. if is_protocol_error e
                  then bind_act (updates (note_rejected s k e)) (\<lambda>_. ret (fail_key s a k e st))
                  else throw e))"

text \<open>A value of higher authority that the cache already holds takes the place of the fetched one.\<close>

definition adopt_winner ::
  "app \<Rightarrow> 's builder \<Rightarrow> fetch_context \<Rightarrow> (resource_key, cache_write_result) odict \<Rightarrow> snapshot_value \<Rightarrow> owned
    \<Rightarrow> ('s world, owned) act" where
  "adopt_winner ap bl ctx write_results written ow =
     (case map_of write_results (sv_key written) of
        None \<Rightarrow> ret ow
      | Some r \<Rightarrow>
          if cw_status r \<noteq> IGNORED_LOWER_AUTHORITY then ret ow
          else bind_act (cached_copy ap bl ctx (cw_value r) False [(''superseded_source'', PyStr (sv_source written))]) (\<lambda>winning.
               bind_act (updates (on_rt (memoize (sv_key written) winning))) (\<lambda>_.
                 ret (resolve_as (sv_key written) (Inr winning) ow))))"

definition cache_fresh ::
  "app \<Rightarrow> 's builder \<Rightarrow> fetch_context \<Rightarrow> snapshot_value list \<Rightarrow> owned \<Rightarrow> ('s world, owned) act" where
  "cache_fresh ap bl ctx fresh ow =
     bind_act (reads (\<lambda>w. rt_cache_source_results (w_rt w))) (\<lambda>cacheable.
       if fresh = [] \<or> \<not> cacheable then ret ow
       else bind_act (access_set_many ap bl ctx fresh) (\<lambda>write_results.
         case write_results of
           None \<Rightarrow> ret ow
         | Some rs \<Rightarrow> fold_act (adopt_winner ap bl ctx rs) fresh ow))"

definition try_source ::
  "app \<Rightarrow> 's builder \<Rightarrow> 's resolver \<Rightarrow> fetch_context \<Rightarrow> resource_key list \<Rightarrow> resource_key set \<Rightarrow> source \<Rightarrow> owned
    \<Rightarrow> ('s world, owned) act" where
  "try_source ap bl resolve ctx ancestry local_owned s ow =
     bind_act (fold_act (consider_source ap bl s) (ow_unresolved ow) ([], ow)) (\<lambda>(candidates, ow1).
       if candidates = [] then ret ow1
       else
         bind_act (attempt ap bl resolve s candidates ctx ancestry local_owned) (\<lambda>attempts.
         bind_act (fold_act (judge_attempt ap bl s attempts) candidates ([], ow1)) (\<lambda>(fresh, ow2).
         bind_act (cache_fresh ap bl ctx fresh ow2) (\<lambda>ow3.
           ret (drop_resolved ow3)))))"

fun try_sources ::
  "app \<Rightarrow> 's builder \<Rightarrow> 's resolver \<Rightarrow> fetch_context \<Rightarrow> resource_key list \<Rightarrow> resource_key set \<Rightarrow> source list \<Rightarrow> owned
    \<Rightarrow> ('s world, owned) act" where
  "try_sources ap bl resolve ctx ancestry local_owned [] ow = ret ow"
| "try_sources ap bl resolve ctx ancestry local_owned (s # rest) ow =
     bind_act (reads (\<lambda>w. drop_resolved (from_memo (w_rt w) ow))) (\<lambda>ow1.
       if ow_unresolved ow1 = [] then ret ow1
       else bind_act (try_source ap bl resolve ctx ancestry local_owned s ow1) (\<lambda>ow2.
         if ow_unresolved ow2 = [] then ret ow2
         else try_sources ap bl resolve ctx ancestry local_owned rest ow2))"

text \<open>What is left after every source: the best stale value, if the policy allows it, or the error.\<close>

definition conclude_key ::
  "'s builder \<Rightarrow> resource_key \<Rightarrow> snapshot_value list \<times> owned \<Rightarrow> ('s world, snapshot_value list \<times> owned) act" where
  "conclude_key bl k st =
     (let (stale_to_cache, ow) = st
      in bind_act (lift_res (policy_resolve (bl_policies bl) k)) (\<lambda>policy.
         bind_act (reads (\<lambda>w. requires_refresh (w_rt w) k)) (\<lambda>forced.
           let failures = (case map_of (ow_failures ow) k of None \<Rightarrow> [] | Some fs \<Rightarrow> fs);
               failed = ret (stale_to_cache, resolve_as k (Inl (ResourceResolutionError k failures)) ow)
           in case map_of (ow_best_stale ow) k of
                None \<Rightarrow> failed
              | Some v \<Rightarrow>
                  if \<not> fp_allow_stale_on_error policy \<or> forced then failed
                  else bind_act (updates (on_rt (memoize k v))) (\<lambda>_.
                       bind_act (updates (emit [MetricIncrement ''source_fetch_total''
                                                  [(''status'', ''stale''), (''source'', sv_source v)]])) (\<lambda>_.
                         ret (stale_to_cache @ [v], resolve_as k (Inr v) ow))))))"

definition resolve_owned_keys ::
  "app \<Rightarrow> 's builder \<Rightarrow> 's resolver \<Rightarrow> fetch_context \<Rightarrow> resource_key list \<Rightarrow> resource_key set \<Rightarrow> resource_key list
    \<Rightarrow> ('s world, (resource_key, resolution_result) odict) act" where
  "resolve_owned_keys ap bl resolve ctx ancestry local_owned keys =
     bind_act (try_sources ap bl resolve ctx ancestry local_owned (sg_sources (bl_catalog bl)) (new_owned keys)) (\<lambda>ow.
     bind_act (fold_act (conclude_key bl) (ow_unresolved ow) ([], ow)) (\<lambda>(stale_to_cache, ow').
     bind_act (reads (\<lambda>w. rt_cache_stale_results (w_rt w))) (\<lambda>cacheable.
       if stale_to_cache = [] \<or> \<not> cacheable then ret (ow_resolved ow')
       else bind_act (access_set_many ap bl ctx stale_to_cache) (\<lambda>_. ret (ow_resolved ow')))))"

subsection \<open>Requested keys\<close>

record sorted_keys =
  sk_values :: "(resource_key, snapshot_value) odict"
  sk_cache_keys :: "resource_key list"
  sk_pending :: "resource_key list"
  sk_stale :: "(resource_key, snapshot_value) odict"

definition count_miss :: "'s world \<Rightarrow> 's world" where
  "count_miss = count_diag (\<lambda>d. d\<lparr>dc_cache_misses := dc_cache_misses d + 1\<rparr>)"

definition count_hit :: "'s world \<Rightarrow> 's world" where
  "count_hit = count_diag (\<lambda>d. d\<lparr>dc_cache_hits := dc_cache_hits d + 1\<rparr>)"

definition count_stale :: "'s world \<Rightarrow> 's world" where
  "count_stale = count_diag (\<lambda>d. d\<lparr>dc_stale_values := dc_stale_values d + 1\<rparr>)"

definition access_metric :: "string \<Rightarrow> resource_key \<Rightarrow> obs" where
  "access_metric status k = MetricIncrement ''cache_access_total'' ((''status'', status) # resource_metric_labels k)"

text \<open>Keys under forced refresh skip the memo and the cache.\<close>

definition sort_key_in :: "resource_key \<Rightarrow> sorted_keys \<Rightarrow> ('s world, sorted_keys) act" where
  "sort_key_in k sk w =
     (if requires_refresh (w_rt w) k
      then (Inr (sk\<lparr>sk_pending := sk_pending sk @ [k]\<rparr>),
            emit [access_metric ''revalidation_bypass'' k,
                  EventEmit ''cache_bypassed'' [(''resource'', PyStr (key_str k)), (''reason'', PyStr ''session_revalidation'')]]
              (count_miss w))
      else case map_of (rt_memo (w_rt w)) k of
             Some v \<Rightarrow> (Inr (sk\<lparr>sk_values := od_set k v (sk_values sk)\<rparr>), w)
           | None \<Rightarrow> (Inr (sk\<lparr>sk_cache_keys := sk_cache_keys sk @ [k]\<rparr>), w))"

definition deliver_cached :: "resource_key \<Rightarrow> snapshot_value \<Rightarrow> sorted_keys \<Rightarrow> ('s world, sorted_keys) act" where
  "deliver_cached k v sk =
     bind_act (updates (on_rt (memoize k v))) (\<lambda>_. ret (sk\<lparr>sk_values := od_set k v (sk_values sk)\<rparr>))"

text \<open>
  What a cache lookup means for its key: a fresh value, a stale value with a refresh under way,
  or a miss, which remembers a stale value that may serve as a fallback.
\<close>

definition handle_miss :: "resource_key \<Rightarrow> snapshot_value option \<Rightarrow> sorted_keys \<Rightarrow> ('s world, sorted_keys) act" where
  "handle_miss k candidate sk =
     bind_act (updates (\<lambda>w. emit [access_metric ''miss'' k] (count_miss w))) (\<lambda>_.
       ret (sk\<lparr>sk_stale := (case candidate of None \<Rightarrow> sk_stale sk | Some v \<Rightarrow> od_set k v (sk_stale sk)),
               sk_pending := sk_pending sk @ [k]\<rparr>))"

definition fresh_hit ::
  "app \<Rightarrow> 's builder \<Rightarrow> fetch_context \<Rightarrow> freshness_policy \<Rightarrow> rat option \<Rightarrow> snapshot_value \<Rightarrow> resource_key \<Rightarrow> sorted_keys
    \<Rightarrow> ('s world, sorted_keys) act" where
  "fresh_hit ap bl ctx policy age v k sk =
     bind_act (updates (\<lambda>w. emit [access_metric ''fresh'' k,
         EventEmit ''cache_hit'' [(''resource'', PyStr (key_str k)), (''freshness'', PyStr ''fresh'')]] (count_hit w))) (\<lambda>_.
     bind_act (case age of
                 None \<Rightarrow> ret False
               | Some a \<Rightarrow> if should_refresh_ahead policy a then schedule_refresh ctx ''refresh_ahead'' k else ret False) (\<lambda>scheduled.
     bind_act (cached_copy ap bl ctx v False (if scheduled then [(''refresh_scheduled'', PyBool scheduled)] else []))
       (\<lambda>cached. deliver_cached k cached sk)))"

definition stale_hit ::
  "app \<Rightarrow> 's builder \<Rightarrow> fetch_context \<Rightarrow> snapshot_value \<Rightarrow> resource_key \<Rightarrow> sorted_keys \<Rightarrow> ('s world, sorted_keys) act" where
  "stale_hit ap bl ctx v k sk =
     bind_act (updates (\<lambda>w. emit [access_metric ''stale_while_revalidate'' k] (count_stale (count_hit w)))) (\<lambda>_.
     bind_act (schedule_refresh ctx ''stale_while_revalidate'' k) (\<lambda>scheduled.
     bind_act (cached_copy ap bl ctx v True [(''refresh_mode'', PyStr ''stale_while_revalidate''),
                                             (''refresh_scheduled'', PyBool scheduled)])
       (\<lambda>cached. deliver_cached k cached sk)))"

definition judge_lookup ::
  "app \<Rightarrow> 's builder \<Rightarrow> fetch_context \<Rightarrow> (resource_key, freshness_policy) odict \<Rightarrow> (resource_key, cache_lookup) odict
    \<Rightarrow> resource_key \<Rightarrow> sorted_keys \<Rightarrow> ('s world, sorted_keys) act" where
  "judge_lookup ap bl ctx policies lookups k sk =
     bind_act (lift_res (require (map_of lookups k) (key_error k))) (\<lambda>l.
     bind_act (lift_res (require (map_of policies k) (key_error k))) (\<lambda>policy.
       case cl_value l of
         None \<Rightarrow> handle_miss k None sk
       | Some v \<Rightarrow>
           if cl_fresh l then fresh_hit ap bl ctx policy (cl_age_seconds l) v k sk
           else if cl_usable_stale l \<and> fp_refresh_mode policy = STALE_WHILE_REVALIDATE then stale_hit ap bl ctx v k sk
           else handle_miss k (if cl_usable_stale l then Some v else None) sk))"

subsection \<open>Single flight in one resolution\<close>

text \<open>
  \<open>SingleFlight.run_many\<close> as its caller sees it: a key in flight elsewhere is joined and gets
  the outcome of that flight, the others are produced here. The machine behind it, with its
  futures and interleavings, is in \<open>Single_Flight\<close>.
\<close>

fun await_joined ::
  "app \<Rightarrow> (resource_key \<times> (py_error + resolution_result)) list \<Rightarrow> ('s world, (resource_key \<times> resolution_result \<times> bool) list) act" where
  "await_joined ap [] = ret []"
| "await_joined ap ((k, r) # rest) =
     bind_act (updates (\<lambda>w. pass (ap_delay ap (w_tick w)) (count_tick w))) (\<lambda>_.
     bind_act (lift_res r) (\<lambda>x.
     bind_act (await_joined ap rest) (\<lambda>xs. ret ((k, x, True) # xs))))"

definition run_flight ::
  "app \<Rightarrow> (resource_key list \<Rightarrow> ('s world, (resource_key, resolution_result) odict) act) \<Rightarrow> resource_key list
    \<Rightarrow> ('s world, (resource_key, resolution_result \<times> bool) odict) act" where
  "run_flight ap factory keys =
     (let unique = fromkeys keys
      in bind_act (reads w_tick) (\<lambda>n.
         let joined = List.map_filter (\<lambda>k. map_option (\<lambda>r. (k, r)) (ap_joined ap k n)) unique;
             own = filter (\<lambda>k. ap_joined ap k n = None) unique
         in bind_act (if own = [] then ret []
                      else bind_act (factory own) (\<lambda>produced.
                             let missing = filter (\<lambda>k. map_of produced k = None) own
                             in if missing \<noteq> []
                                then throw (RuntimeError (''single-flight batch factory omitted owned keys: ''
                                              @ str_join '', '' (map key_str missing)))
                                else ret (map (\<lambda>k. (k, the (map_of produced k), False)) own))) (\<lambda>owned_results.
            bind_act (await_joined ap joined) (\<lambda>joined_results.
              ret (od_of (owned_results @ joined_results))))))"

subsection \<open>The whole resolution\<close>

definition mark_coalesced :: "snapshot_value \<Rightarrow> py_error + snapshot_value" where
  "mark_coalesced v =
     lift_arg (mk_snapshot_value (NFloat (Fin (sv_observed_at v))) (NFloat (Fin (sv_fetched_at v)))
       (v\<lparr>sv_metadata := od_set ''coalesced_request'' (PyBool True) (sv_metadata v)\<rparr>))"

type_synonym answers = "(resource_key, snapshot_value) odict \<times> (resource_key, py_error) odict"

definition join_value :: "resource_key \<Rightarrow> snapshot_value \<Rightarrow> ('s world, snapshot_value) act" where
  "join_value k v =
     bind_act (updates (\<lambda>w. emit [MetricIncrement ''singleflight_join_total'' (resource_metric_labels k)]
       (count_diag (\<lambda>d. d\<lparr>dc_coalesced_requests := dc_coalesced_requests d + 1\<rparr>) w))) (\<lambda>_. lift_res (mark_coalesced v))"

definition settle_value :: "resource_key \<Rightarrow> snapshot_value \<Rightarrow> bool \<Rightarrow> answers \<Rightarrow> ('s world, answers) act" where
  "settle_value k v joined_existing st =
     bind_act (if joined_existing then join_value k v else ret v) (\<lambda>v'.
     bind_act (updates (on_rt (\<lambda>rt. mark_refreshed k (memoize k v' rt)))) (\<lambda>_.
     bind_act (updates (if sv_stale v' then count_stale else (\<lambda>w. w))) (\<lambda>_.
       ret (od_set k v' (fst st), snd st))))"

definition settle_fallback ::
  "app \<Rightarrow> 's builder \<Rightarrow> fetch_context \<Rightarrow> resource_key \<Rightarrow> py_error \<Rightarrow> snapshot_value \<Rightarrow> answers \<Rightarrow> ('s world, answers) act" where
  "settle_fallback ap bl ctx k e stale st =
     bind_act (updates (\<lambda>w. emit [access_metric ''stale_fallback'' k,
         EventEmit ''stale_fallback_used''
           [(''resource'', PyStr (key_str k)), (''error_type'', PyStr (error_type e))]] (count_stale w))) (\<lambda>_.
     bind_act (cached_copy ap bl ctx stale True
        [(''fallback_error_type'', PyStr (error_type e)), (''fallback_error'', PyStr (error_str e))]) (\<lambda>v.
     bind_act (updates (on_rt (memoize k v))) (\<lambda>_.
       ret (od_set k v (fst st), snd st))))"

definition settle_error ::
  "app \<Rightarrow> 's builder \<Rightarrow> fetch_context \<Rightarrow> (resource_key, snapshot_value) odict \<Rightarrow> resource_key \<Rightarrow> py_error \<Rightarrow> answers
    \<Rightarrow> ('s world, answers) act" where
  "settle_error ap bl ctx stale_candidates k e st =
     bind_act (lift_res (policy_resolve (bl_policies bl) k)) (\<lambda>policy.
     bind_act (reads (\<lambda>w. requires_refresh (w_rt w) k)) (\<lambda>forced.
       case map_of stale_candidates k of
         None \<Rightarrow> ret (fst st, od_set k e (snd st))
       | Some stale \<Rightarrow>
           if fp_allow_stale_on_error policy \<and> \<not> forced then settle_fallback ap bl ctx k e stale st
           else ret (fst st, od_set k e (snd st))))"

definition settle_key ::
  "app \<Rightarrow> 's builder \<Rightarrow> fetch_context \<Rightarrow> (resource_key, snapshot_value) odict \<Rightarrow> (resource_key, resolution_result \<times> bool) odict
    \<Rightarrow> resource_key \<Rightarrow> answers \<Rightarrow> ('s world, answers) act" where
  "settle_key ap bl ctx stale_candidates results k st =
     bind_act (lift_res (require (map_of results k) (key_error k))) (\<lambda>r.
       case fst r of
         Inr v \<Rightarrow> settle_value k v (snd r) st
       | Inl e \<Rightarrow> settle_error ap bl ctx stale_candidates k e st)"

definition resolve_pending ::
  "app \<Rightarrow> 's builder \<Rightarrow> 's resolver \<Rightarrow> fetch_context \<Rightarrow> resource_key list \<Rightarrow> resource_key set \<Rightarrow> resource_key list
    \<Rightarrow> ('s world, (resource_key, resolution_result \<times> bool) odict) act" where
  "resolve_pending ap bl resolve ctx ancestry local_owned pending =
     bind_act (reads w_rt) (\<lambda>rt.
       let direct = filter (\<lambda>k. k \<in> local_owned \<or> requires_refresh rt k) pending;
           shared = filter (\<lambda>k. k \<notin> set direct) pending
       in bind_act (if direct = [] then ret []
                    else bind_act (resolve_owned_keys ap bl resolve ctx ancestry (local_owned \<union> set direct) direct)
                           (\<lambda>rs. ret (map (\<lambda>(k, r). (k, r, False)) rs))) (\<lambda>direct_results.
          bind_act (if shared = [] then ret []
                    else run_flight ap (\<lambda>own. resolve_owned_keys ap bl resolve ctx ancestry (local_owned \<union> set own) own) shared)
            (\<lambda>flight_results. ret (od_update (od_of direct_results) flight_results))))"

definition resolve_unanswered ::
  "app \<Rightarrow> 's builder \<Rightarrow> 's resolver \<Rightarrow> fetch_context \<Rightarrow> resource_key list \<Rightarrow> resource_key set \<Rightarrow> sorted_keys
    \<Rightarrow> ('s world, answers) act" where
  "resolve_unanswered ap bl resolve ctx ancestry local_owned sk =
     (if sk_pending sk = [] then ret (sk_values sk, [])
      else bind_act (resolve_pending ap bl resolve ctx ancestry local_owned (sk_pending sk)) (\<lambda>results.
             fold_act (settle_key ap bl ctx (sk_stale sk) results) (sk_pending sk) (sk_values sk, [])))"

definition no_keys :: sorted_keys where
  "no_keys = \<lparr>sk_values = [], sk_cache_keys = [], sk_pending = [], sk_stale = []\<rparr>"

definition policies_for :: "'s builder \<Rightarrow> resource_key list \<Rightarrow> py_error + (resource_key, freshness_policy) odict" where
  "policies_for bl keys = res_map (\<lambda>k. res_bind (policy_resolve (bl_policies bl) k) (\<lambda>p. Inr (k, p))) keys"

definition resolve_step ::
  "app \<Rightarrow> 's builder \<Rightarrow> fetch_context \<Rightarrow> 's resolver \<Rightarrow> 's resolver" where
  "resolve_step ap bl ctx resolve keys ancestry local_owned =
     bind_act (fold_act sort_key_in (fromkeys keys) no_keys) (\<lambda>sk1.
     bind_act (lift_res (policies_for bl (sk_cache_keys sk1))) (\<lambda>policies.
     bind_act (reads w_now) (\<lambda>now.
     bind_act (access_get_many ap bl ctx (sk_cache_keys sk1) now policies) (\<lambda>lookups.
     bind_act (fold_act (judge_lookup ap bl ctx policies lookups) (sk_cache_keys sk1) sk1)
       (resolve_unanswered ap bl resolve ctx ancestry local_owned)))))"

primrec resolve_many :: "nat \<Rightarrow> 's resolver \<Rightarrow> app \<Rightarrow> 's builder \<Rightarrow> fetch_context \<Rightarrow> 's resolver" where
  "resolve_many 0 bottom ap bl ctx = bottom"
| "resolve_many (Suc n) bottom ap bl ctx = resolve_step ap bl ctx (resolve_many n bottom ap bl ctx)"

text \<open>A bottom for the unrolling; the section on the recursion below shows that it is not reached.\<close>

definition unreached :: "'s resolver" where
  "unreached keys ancestry local_owned = throw (RuntimeError ''recursion not unrolled far enough'')"

subsection \<open>Every key is answered once\<close>

definition parted :: "resource_key list \<Rightarrow> sorted_keys \<Rightarrow> bool" where
  "parted ds sk \<longleftrightarrow> od_ok (sk_values sk) \<and> distinct (sk_pending sk) \<and> distinct (sk_cache_keys sk)
     \<and> set (od_keys (sk_values sk)) \<union> set (sk_pending sk) \<union> set (sk_cache_keys sk) = set ds
     \<and> set (od_keys (sk_values sk)) \<inter> set (sk_pending sk) = {}
     \<and> set (sk_cache_keys sk) \<inter> (set (od_keys (sk_values sk)) \<union> set (sk_pending sk)) = {}"

lemma set_keys_od_set: "set (od_keys (od_set k v d)) = insert k (set (od_keys d))"
  by (auto simp: od_keys_od_set simp del: set_map)

lemma sort_key_parted:
  assumes "parted ds sk" "k \<notin> set ds" "sort_key_in k sk w = (Inr sk', w')"
  shows "parted (ds @ [k]) sk'"
  using assms by (auto simp: parted_def sort_key_in_def set_keys_od_set simp del: set_map split: if_splits option.splits)

lemma sort_keys_parted:
  assumes "fold_act sort_key_in keys no_keys w = (Inr sk, w')" "distinct keys"
  shows "parted keys sk"
proof (rule fold_act_inv_split [OF assms(1), of "\<lambda>ds sk w. parted ds sk"])
  show "parted [] no_keys" by (simp add: parted_def no_keys_def)
  show "parted (ds @ [k]) sk'" if "keys = ds @ k # rest" "parted ds sk" "sort_key_in k sk w = (Inr sk', w')" for ds k rest sk w sk' w'
    using that assms(2) by (intro sort_key_parted) auto
qed

lemma deliver_cached_Inr:
  "deliver_cached k v sk w = (Inr sk', w') \<longleftrightarrow> sk' = sk\<lparr>sk_values := od_set k v (sk_values sk)\<rparr> \<and> w' = on_rt (memoize k v) w"
  by (auto simp: deliver_cached_def bind_act_Inr)

text \<open>A looked-up key is delivered or pending.\<close>

definition key_delivered :: "resource_key \<Rightarrow> sorted_keys \<Rightarrow> sorted_keys \<Rightarrow> bool" where
  "key_delivered k sk sk' \<longleftrightarrow> (\<exists>v. sk' = sk\<lparr>sk_values := od_set k v (sk_values sk)\<rparr>)"

definition key_pending :: "resource_key \<Rightarrow> sorted_keys \<Rightarrow> sorted_keys \<Rightarrow> bool" where
  "key_pending k sk sk' \<longleftrightarrow> (\<exists>st. sk' = sk\<lparr>sk_stale := st, sk_pending := sk_pending sk @ [k]\<rparr>)"

lemma lookup_shapes:
  "handle_miss k c sk w = (Inr sk', w') \<Longrightarrow> key_pending k sk sk'"
  "fresh_hit ap bl ctx policy age v k sk w = (Inr sk', w') \<Longrightarrow> key_delivered k sk sk'"
  "stale_hit ap bl ctx v k sk w = (Inr sk', w') \<Longrightarrow> key_delivered k sk sk'"
  by (auto simp: handle_miss_def fresh_hit_def stale_hit_def bind_act_Inr deliver_cached_Inr key_delivered_def key_pending_def)

lemma judge_lookup_shape:
  assumes "judge_lookup ap bl ctx policies lookups k sk w = (Inr sk', w')"
  shows "key_delivered k sk sk' \<or> key_pending k sk sk'"
  using assms by (auto simp: judge_lookup_def bind_act_Inr dest: lookup_shapes split: option.splits if_splits)

text \<open>Values and pending keys split the keys of \<open>K\<close>.\<close>

definition split_keys :: "resource_key set \<Rightarrow> sorted_keys \<Rightarrow> bool" where
  "split_keys K sk \<longleftrightarrow> od_ok (sk_values sk) \<and> distinct (sk_pending sk)
     \<and> set (od_keys (sk_values sk)) \<inter> set (sk_pending sk) = {} \<and> set (od_keys (sk_values sk)) \<union> set (sk_pending sk) = K"

lemma judge_lookup_split:
  assumes "split_keys K sk" "k \<notin> K" "judge_lookup ap bl ctx policies lookups k sk w = (Inr sk', w')"
  shows "split_keys (insert k K) sk'"
  using judge_lookup_shape [OF assms(3)] assms(1,2)
  by (auto simp: split_keys_def key_delivered_def key_pending_def set_keys_od_set simp del: set_map)

lemma judge_lookups_split:
  assumes run: "fold_act (judge_lookup ap bl ctx policies lookups) (sk_cache_keys sk) sk w = (Inr sk', w')"
    and "parted keys sk"
  shows "split_keys (set keys) sk'"
proof -
  let ?K = "set (od_keys (sk_values sk)) \<union> set (sk_pending sk)"
  have p: "distinct (sk_cache_keys sk)" "set (sk_cache_keys sk) \<inter> ?K = {}" "?K \<union> set (sk_cache_keys sk) = set keys"
    "split_keys ?K sk" using assms(2) by (auto simp: parted_def split_keys_def simp del: set_map)
  have "split_keys (?K \<union> set (sk_cache_keys sk)) sk'"
  proof (rule fold_act_inv_split [OF run, of "\<lambda>ds sk w. split_keys (?K \<union> set ds) sk"])
    show "split_keys (?K \<union> set []) sk" using p(4) by simp
    show "split_keys (?K \<union> set (ds @ [k])) sk2"
      if "sk_cache_keys sk = ds @ k # rest" "split_keys (?K \<union> set ds) sk1" "judge_lookup ap bl ctx policies lookups k sk1 w1 = (Inr sk2, w2)"
      for ds k rest sk1 w1 sk2 w2
    proof -
      have "k \<in> set (sk_cache_keys sk)" "k \<notin> set ds" using that(1) p(1) by auto
      then have "k \<notin> ?K \<union> set ds" using p(2) by blast
      from judge_lookup_split [OF that(2) this that(3)] show ?thesis by simp
    qed
  qed
  with p(3) show ?thesis by simp
qed

definition answered :: "resource_key set \<Rightarrow> answers \<Rightarrow> bool" where
  "answered K r \<longleftrightarrow> od_ok (fst r) \<and> od_ok (snd r) \<and> set (od_keys (fst r)) \<inter> set (od_keys (snd r)) = {}
     \<and> set (od_keys (fst r)) \<union> set (od_keys (snd r)) = K"

definition key_settled :: "resource_key \<Rightarrow> answers \<Rightarrow> answers \<Rightarrow> bool" where
  "key_settled k st st' \<longleftrightarrow> (\<exists>v. st' = (od_set k v (fst st), snd st)) \<or> (\<exists>e. st' = (fst st, od_set k e (snd st)))"

lemma settle_shapes:
  "settle_value k v joined st w = (Inr st', w') \<Longrightarrow> key_settled k st st'"
  "settle_fallback ap bl ctx k e stale st w = (Inr st', w') \<Longrightarrow> key_settled k st st'"
  by (auto simp: settle_value_def settle_fallback_def bind_act_Inr key_settled_def)

lemma key_settled_error: "key_settled k st (fst st, od_set k e (snd st))"
  by (auto simp: key_settled_def)

lemma settle_error_shape: "settle_error ap bl ctx stale k e st w = (Inr st', w') \<Longrightarrow> key_settled k st st'"
  by (cases "policy_resolve (bl_policies bl) k"; cases "map_of stale k")
    (auto simp: settle_error_def bind_act_def key_settled_error dest: settle_shapes(2) split: if_splits)

lemma settle_key_shape:
  assumes "settle_key ap bl ctx stale results k st w = (Inr st', w')"
  shows "key_settled k st st'"
proof (cases "map_of results k")
  case (Some r)
  with assms show ?thesis
    by (cases "fst r") (auto simp: settle_key_def bind_act_def dest: settle_shapes(1) settle_error_shape)
qed (use assms in \<open>simp add: settle_key_def bind_act_def\<close>)

lemma settle_key_answered:
  assumes "answered K st" "k \<notin> K" "settle_key ap bl ctx stale results k st w = (Inr st', w')"
  shows "answered (insert k K) st'"
  using settle_key_shape [OF assms(3)] assms(1,2)
  by (auto simp: answered_def key_settled_def set_keys_od_set simp del: set_map)

lemma resolve_unanswered_answered:
  assumes "resolve_unanswered ap bl resolve ctx ancestry local_owned sk w = (Inr r, w')" and sk: "split_keys K sk"
  shows "answered K r"
proof (cases "sk_pending sk = []")
  case True
  with assms show ?thesis by (auto simp: resolve_unanswered_def answered_def split_keys_def simp del: set_map)
next
  case False
  with assms(1) obtain results w1 where
    run: "fold_act (settle_key ap bl ctx (sk_stale sk) results) (sk_pending sk) (sk_values sk, []) w1 = (Inr r, w')"
    by (auto simp: resolve_unanswered_def bind_act_Inr)
  let ?V = "set (od_keys (sk_values sk))"
  have "answered (?V \<union> set (sk_pending sk)) r"
  proof (rule fold_act_inv_split [OF run, of "\<lambda>ds st w. answered (?V \<union> set ds) st"])
    show "answered (?V \<union> set []) (sk_values sk, [])" using sk by (simp add: answered_def split_keys_def del: set_map)
    show "answered (?V \<union> set (ds @ [k])) st'"
      if "sk_pending sk = ds @ k # rest" "answered (?V \<union> set ds) st"
        "settle_key ap bl ctx (sk_stale sk) results k st u = (Inr st', u')" for ds k rest st u st' u'
    proof -
      have "k \<in> set (sk_pending sk)" "k \<notin> set ds" using that(1) sk by (auto simp: split_keys_def)
      then have "k \<notin> ?V \<union> set ds" using sk unfolding split_keys_def by blast
      from settle_key_answered [OF that(2) this that(3)] show ?thesis by simp
    qed
  qed
  then show ?thesis using sk by (simp add: split_keys_def del: set_map)
qed

lemma resolve_step_answered:
  assumes "resolve_step ap bl ctx resolve keys ancestry local_owned w = (Inr r, w')"
  shows "answered (set keys) r"
proof -
  from assms obtain sk1 w1 policies lookups w2 sk2 w3 where
    sort: "fold_act sort_key_in (fromkeys keys) no_keys w = (Inr sk1, w1)"
    and judge: "fold_act (judge_lookup ap bl ctx policies lookups) (sk_cache_keys sk1) sk1 w2 = (Inr sk2, w3)"
    and rest: "resolve_unanswered ap bl resolve ctx ancestry local_owned sk2 w3 = (Inr r, w')"
    unfolding resolve_step_def bind_act_Inr by (elim exE conjE) (rule that)
  have "split_keys (set (fromkeys keys)) sk2"
    by (rule judge_lookups_split [OF judge sort_keys_parted [OF sort]]) simp
  from resolve_unanswered_answered [OF rest this] show ?thesis by simp
qed

text \<open>
  C1: A resolution answers every requested key exactly once: when it returns, the keys with a
  value and the keys with an error are disjoint and together they are the requested keys,
  whichever of memo, cache, sources, derived values and joined flights served them.
\<close>

theorem resolution_answers_keys:
  assumes "resolve_many (Suc n) bottom ap bl ctx keys ancestry local_owned w = (Inr (vals, errs), w')"
  shows "od_ok vals \<and> od_ok errs \<and> set (od_keys vals) \<inter> set (od_keys errs) = {}
    \<and> set (od_keys vals) \<union> set (od_keys errs) = set keys"
  using resolve_step_answered [of ap bl ctx "resolve_many n bottom ap bl ctx" keys ancestry local_owned w "(vals, errs)" w'] assms
  by (simp add: answered_def)

subsection \<open>What a resolution leaves alone\<close>

text \<open>A relation that changes of the cache, of the support memo and of the refreshes do not break.\<close>

locale access_frame = executor_frame R ap bl for R :: "'s world \<Rightarrow> 's world \<Rightarrow> bool" and ap bl +
  assumes fr_cache: "R w (w\<lparr>w_cache := c\<rparr>)"
    and fr_support: "R w (w\<lparr>w_support := sc, w_diag := d\<rparr>)"
    and fr_refreshing: "R w (w\<lparr>w_refreshing := ks\<rparr>)"
begin

lemma keeps_on_cache: "keeps R (on_cache f)"
  by (simp add: keeps_def on_cache_def fr_cache case_prod_unfold Let_def)

lemma keeps_within_deadline:
  assumes "keeps R operation"
  shows "keeps R (within_deadline ap ctx nm operation)"
  unfolding keeps_def
proof
  fix w :: "'s world"
  let ?d = "fc_deadline_monotonic ctx" and ?t = "ap_delay ap (w_tick w)"
  let ?w1 = "pass ?t (count_tick w)"
  have late: "R w ?w1" by (rule fr_time) (auto simp: delays_ok_def)
  obtain r w2 where op: "operation ?w1 = (r, w2)" by fastforce
  have w2: "R w w2" using frame_trans [OF late keepsD [OF assms op]] .
  have short: "R w (pass t (count_tick w))" if "remaining_deadline_seconds ?d (w_mono w) nm = Inr (Some t)" for t
    using that by (intro fr_time) (auto simp: remaining_deadline_seconds_def split: option.splits if_splits)
  show "R w (snd (within_deadline ap ctx nm operation w))"
    using op w2 short
    by (auto simp: within_deadline_def await_with_deadline_def frame_refl split: sum.splits option.splits if_splits)
qed

lemma keeps_cached_copy: "keeps R (cached_copy ap bl ctx v stale extra)"
  by (auto simp: keeps_def cached_copy_def intro!: fr_time async_clone_forward)

lemma keeps_schedule: "keeps R (schedule_refresh ctx reason k)"
  unfolding keeps_def
proof
  fix w
  have "R w (emit os (count_diag f (w\<lparr>w_refreshing := ks\<rparr>)))" for os f ks
    using frame_trans [OF frame_trans [OF fr_refreshing fr_diag] fr_emit] .
  then show "R w (snd (schedule_refresh ctx reason k w))" by (simp add: schedule_refresh_def frame_refl)
qed

lemma keeps_emit_after: "(\<And>w. R w (f w)) \<Longrightarrow> keeps R (updates (\<lambda>w. emit os (f w)))"
  by (rule keeps_updates) (rule frame_trans [OF _ fr_emit])

lemma fr_counts: "R w (count_miss w)" "R w (count_hit w)" "R w (count_stale w)"
  by (simp_all add: count_miss_def count_hit_def count_stale_def fr_diag)

lemma keeps_read_unfiltered: "keeps R (read_unfiltered ap bl ctx now k memo)"
  by (auto simp: read_unfiltered_def split: option.splits
      intro!: keeps_bind keeps_ret keeps_within_deadline keeps_on_cache)

lemma keeps_dependencies_loop:
  assumes "\<And>k memo. keeps R (read k memo)" "\<And>v path st. keeps R (below v path st)"
  shows "keeps R (dependencies_loop read below path ds st)"
  using assms
  by (induction read below path ds st rule: dependencies_loop.induct)
    (auto intro!: keeps_bind keeps_ret split: option.splits)

lemma keeps_dependencies_current: "keeps R (access_dependencies_current n ap bl ctx now v visiting st)"
  by (induction n arbitrary: v visiting st)
    (auto intro!: keeps_throw keeps_ret keeps_dependencies_loop keeps_read_unfiltered)

lemma keeps_run_bounded: "(\<And>x. x \<in> set xs \<Longrightarrow> keeps R (f x)) \<Longrightarrow> keeps R (run_bounded m f xs)"
  by (rule keeps_bounded)

lemma keeps_access_invalidate: "keeps R (access_invalidate_many ap bl ctx ks)"
  by (auto simp: access_invalidate_many_def split: option.splits
      intro!: keeps_within_deadline keeps_on_cache keeps_bind keeps_ret keeps_bounded)

lemma keeps_filter: "keeps R (filter_invalid_dependencies ap bl ctx now lookups)"
proof -
  have "keeps R (filter_lookup ap bl ctx now item st)" for item st
    by (cases item; cases st)
      (auto simp: filter_lookup_def split: option.splits intro!: keeps_ret keeps_bind keeps_dependencies_current)
  then show ?thesis
    by (auto simp: filter_invalid_dependencies_def intro!: keeps_bind keeps_fold keeps_ret keeps_access_invalidate)
qed

lemma keeps_access_get_many: "keeps R (access_get_many ap bl ctx ks now policies)"
  by (auto simp: access_get_many_def read_cache_def Let_def split: option.splits
      intro!: keeps_ret keeps_bind keeps_lift keeps_note keeps_within_deadline keeps_on_cache keeps_bounded keeps_copy_map keeps_filter)

lemma keeps_access_set_many: "keeps R (access_set_many ap bl ctx vs)"
  by (auto simp: access_set_many_def write_cache_def Let_def split: option.splits
      intro!: keeps_ret keeps_bind keeps_lift keeps_note keeps_within_deadline keeps_on_cache keeps_bounded keeps_copy_map)

end

context access_frame begin

lemma keeps_consider: "keeps R (consider_source ap bl s k st)"
  by (cases st) (auto simp: keeps_def consider_source_def Let_def fr_emit fr_support split: sum.splits prod.splits)

lemma keeps_build_value: "keeps R (build_snapshot_value ap bl k s p n latency deps)"
  by (auto simp: keeps_def build_snapshot_value_def Let_def intro!: fr_time)

lemma keeps_rejected: "keeps R (updates (note_rejected s k e))"
  unfolding note_rejected_def [abs_def] by (rule keeps_emit_after) (rule fr_diag)

end

text \<open>One that also survives every change of the memo and of the forced keys.\<close>

locale resolution_frame = access_frame R ap bl for R :: "'s world \<Rightarrow> 's world \<Rightarrow> bool" and ap bl +
  assumes fr_rt: "R w (on_rt g w)"
begin

lemmas keeps_notes = keeps_note keeps_updates [OF fr_rt]

lemma keeps_judge_attempt: "keeps R (judge_attempt ap bl s attempts k st)"
  by (cases st)
    (auto simp: judge_attempt_def accept_value_def note_failed_def note_resolved_def split: sum.splits
      intro!: keeps_ret keeps_throw keeps_bind keeps_handle keeps_lift keeps_notes keeps_rejected keeps_build_value)

lemma keeps_adopt: "keeps R (adopt_winner ap bl ctx rs v ow)"
  by (auto simp: adopt_winner_def split: option.splits intro!: keeps_ret keeps_bind keeps_notes keeps_cached_copy)

lemma keeps_cache_fresh: "keeps R (cache_fresh ap bl ctx fresh ow)"
  by (auto simp: cache_fresh_def split: option.splits
      intro!: keeps_ret keeps_reads keeps_bind keeps_fold keeps_adopt keeps_access_set_many)

lemma keeps_try_source:
  assumes "\<And>k ks. keeps R (resolve ks (anc @ [k]) lo)"
  shows "keeps R (try_source ap bl resolve ctx anc lo s ow)"
  by (auto simp: try_source_def
      intro!: keeps_ret keeps_bind keeps_fold keeps_consider keeps_judge_attempt keeps_cache_fresh keeps_attempt assms)

lemma keeps_try_sources:
  assumes "\<And>k ks. keeps R (resolve ks (anc @ [k]) lo)"
  shows "keeps R (try_sources ap bl resolve ctx anc lo sources ow)"
  by (induction sources arbitrary: ow) (auto intro!: keeps_ret keeps_reads keeps_bind keeps_try_source assms)

lemma keeps_conclude: "keeps R (conclude_key bl k st)"
  by (cases st) (auto simp: conclude_key_def Let_def split: option.splits
      intro!: keeps_ret keeps_reads keeps_lift keeps_bind keeps_notes)

lemma keeps_resolve_owned:
  assumes "\<And>k ks. keeps R (resolve ks (anc @ [k]) lo)"
  shows "keeps R (resolve_owned_keys ap bl resolve ctx anc lo keys)"
  by (auto simp: resolve_owned_keys_def
      intro!: keeps_ret keeps_reads keeps_bind keeps_fold keeps_try_sources keeps_conclude keeps_access_set_many assms)

lemma keeps_sort_key: "keeps R (sort_key_in k sk)"
  using frame_trans [OF fr_counts(1) fr_emit]
  by (auto simp: keeps_def sort_key_in_def frame_refl split: option.splits)

lemma keeps_deliver: "keeps R (deliver_cached k v sk)"
  by (auto simp: deliver_cached_def intro!: keeps_bind keeps_ret keeps_notes)

lemma keeps_judge_lookup: "keeps R (judge_lookup ap bl ctx policies lookups k sk)"
proof -
  have counted: "keeps R (updates (\<lambda>w. emit os (count_miss w)))" "keeps R (updates (\<lambda>w. emit os (count_hit w)))"
    "keeps R (updates (\<lambda>w. emit os (count_stale (count_hit w))))" for os
    by (auto intro!: keeps_emit_after fr_counts intro: frame_trans fr_counts)
  have "keeps R (handle_miss k c sk)" for c by (auto simp: handle_miss_def intro!: keeps_bind keeps_ret counted)
  moreover have "keeps R (fresh_hit ap bl ctx policy age v k sk)" for policy age v
    by (auto simp: fresh_hit_def split: option.splits
        intro!: keeps_bind keeps_ret counted keeps_schedule keeps_cached_copy keeps_deliver)
  moreover have "keeps R (stale_hit ap bl ctx v k sk)" for v
    by (auto simp: stale_hit_def intro!: keeps_bind counted keeps_schedule keeps_cached_copy keeps_deliver)
  ultimately show ?thesis
    by (auto simp: judge_lookup_def split: option.splits intro!: keeps_bind keeps_lift)
qed

lemma keeps_await_joined: "keeps R (await_joined ap js)"
proof (induction js)
  case (Cons j js)
  have "keeps R (updates (\<lambda>w. pass (ap_delay ap (w_tick w)) (count_tick w)))"
    by (rule keeps_updates, rule fr_time) (auto simp: delays_ok_def)
  with Cons show ?case by (cases j) (auto intro!: keeps_bind keeps_lift keeps_ret)
qed (simp add: keeps_def frame_refl)

lemma keeps_run_flight:
  assumes "\<And>own. keeps R (factory own)"
  shows "keeps R (run_flight ap factory keys)"
  by (auto simp: run_flight_def Let_def intro!: keeps_bind keeps_reads keeps_ret keeps_throw keeps_await_joined assms)

lemma keeps_settle: "keeps R (settle_key ap bl ctx stale results k st)"
proof -
  have counted: "keeps R (updates (\<lambda>w. emit os (count_stale w)))" "keeps R (updates count_stale)" "keeps R (updates (\<lambda>w. w))"
    "keeps R (updates (\<lambda>w. emit os (count_diag f w)))" for os f
    by (rule keeps_emit_after keeps_updates; rule fr_counts fr_diag frame_refl)+
  have "keeps R (settle_value k v joined st)" for v joined
    by (auto simp: settle_value_def join_value_def intro!: keeps_bind keeps_ret keeps_lift keeps_notes counted)
  moreover have "keeps R (settle_error ap bl ctx stale k e st)" for e
    by (auto simp: settle_error_def settle_fallback_def split: option.splits
        intro!: keeps_bind keeps_ret keeps_lift keeps_reads keeps_notes keeps_cached_copy counted)
  ultimately show ?thesis by (auto simp: settle_key_def split: sum.splits intro!: keeps_bind keeps_lift)
qed

lemma keeps_resolve_pending:
  assumes "\<And>k ks lo. keeps R (resolve ks (anc @ [k]) lo)"
  shows "keeps R (resolve_pending ap bl resolve ctx anc lo pending)"
  by (auto simp: resolve_pending_def Let_def
      intro!: keeps_bind keeps_reads keeps_ret keeps_run_flight keeps_resolve_owned assms)

lemma keeps_resolve_step:
  assumes "\<And>k ks lo. keeps R (resolve ks (anc @ [k]) lo)"
  shows "keeps R (resolve_step ap bl ctx resolve keys anc lo)"
  by (auto simp: resolve_step_def resolve_unanswered_def
      intro!: keeps_bind keeps_reads keeps_ret keeps_lift keeps_fold keeps_sort_key keeps_access_get_many keeps_judge_lookup
        keeps_settle keeps_resolve_pending assms)

lemma keeps_resolve_many:
  assumes "\<And>ks anc lo. keeps R (bottom ks anc lo)"
  shows "keeps R (resolve_many n bottom ap bl ctx keys anc lo)"
proof (induction n arbitrary: keys anc lo)
  case (Suc n)
  then show ?case by (simp add: keeps_resolve_step)
qed (simp add: assms)

end

interpretation lease_resolution: resolution_frame "\<lambda>w w'. w_leases w' = w_leases w" ap bl for ap bl
  by unfold_locales (simp_all add: on_rt_def)

text \<open>
  C11: No lease leaks in a resolution: whether it succeeds or raises, at any depth of derived
  sources, it ends with as many leases held as it started with.
\<close>

theorem resolution_leases_balanced:
  "w_leases (snd (resolve_many n unreached ap bl ctx keys ancestry local_owned w)) = w_leases w"
proof -
  have "keeps (\<lambda>w w'. w_leases w' = w_leases w) (resolve_many n unreached ap bl ctx keys ancestry local_owned)"
    by (rule lease_resolution.keeps_resolve_many) (simp add: keeps_def unreached_def)
  then show ?thesis by (simp add: keeps_def)
qed

subsection \<open>The recursion through derived sources ends\<close>

lemma bind_act_cong:
  assumes "m w = m' w" "\<And>x w1. m' w = (Inr x, w1) \<Longrightarrow> f x w1 = f' x w1"
  shows "bind_act m f w = bind_act m' f' w"
  using assms by (auto simp: bind_act_def split: prod.splits sum.splits)

text \<open>The dependencies the sources declare for the keys of \<open>U\<close> are in \<open>U\<close>.\<close>

definition dependency_closed :: "app \<Rightarrow> 's builder \<Rightarrow> resource_key set \<Rightarrow> bool" where
  "dependency_closed ap bl U \<longleftrightarrow> (\<forall>s \<in> set (sg_sources (bl_catalog bl)). \<forall>k \<in> U. \<forall>ds d.
     ap_dependencies ap (so_name s) k = Inr ds \<longrightarrow> DepKey d \<in> set ds \<longrightarrow> d \<in> U)"

definition agree_off_path :: "resource_key set \<Rightarrow> resource_key list \<Rightarrow> 's resolver \<Rightarrow> 's resolver \<Rightarrow> bool" where
  "agree_off_path U anc r1 r2 \<longleftrightarrow> (\<forall>k \<in> U - set anc. \<forall>ks lo w. set ks \<subseteq> U \<longrightarrow> set ks \<inter> set (anc @ [k]) = {}
     \<longrightarrow> r1 ks (anc @ [k]) lo w = r2 ks (anc @ [k]) lo w)"

lemma consider_sources_subset:
  assumes "fold_act (consider_source ap bl s) ks ([], ow) w = (Inr (candidates, ow'), w')"
  shows "set candidates \<subseteq> set ks \<and> ow_unresolved ow' = ow_unresolved ow"
proof -
  let ?I = "\<lambda>ds (st :: resource_key list \<times> owned). set (fst st) \<subseteq> set ds \<and> ow_unresolved (snd st) = ow_unresolved ow"
  have "?I ks (candidates, ow')"
    by (rule fold_act_inv [OF assms, of ?I])
      (auto simp: consider_source_def Let_def add_failure_def split: if_splits sum.splits prod.splits)
  then show ?thesis by simp
qed

lemma accept_value_cases:
  assumes "accept_value bl s a k st v w = (Inr st', w')"
  obtains (stale) policy where "policy_resolve (bl_policies bl) k = Inr policy" "sv_stale v" "w' = w"
      "st' = (fst st, add_failure k (stale_failure s a v policy) (keep_best_stale policy v k (snd st)))"
  | (fresh) "\<not> sv_stale v" "st' = (fst st @ [v], resolve_as k (Inr v) (snd st))"
      "w' = note_resolved bl s k a v (on_rt (\<lambda>rt. mark_refreshed k (memoize k v rt)) w)"
  using assms by (cases "sv_stale v") (auto simp: accept_value_def bind_act_Inr)

text \<open>The three ways an attempt can be judged.\<close>

lemma judge_attempt_cases:
  assumes "judge_attempt ap bl s attempts k st w = (Inr st', w')"
  obtains (failed) a e where "map_of attempts k = Some a" "sa_outcome a = Inl e" "st' = fail_key s a k e st" "w' = note_failed s k e w"
  | (rejected) a p e w1 where "map_of attempts k = Some a" "sa_outcome a = Inr p" "is_protocol_error e"
      "build_snapshot_value ap bl k s p (sa_attempts a) (sa_latency_ms a) (sa_dependency_versions a) w = (Inl e, w1)"
      "st' = fail_key s a k e st" "w' = note_rejected s k e w1"
  | (accepted) a p v w1 where "map_of attempts k = Some a" "sa_outcome a = Inr p"
      "build_snapshot_value ap bl k s p (sa_attempts a) (sa_latency_ms a) (sa_dependency_versions a) w = (Inr v, w1)"
      "accept_value bl s a k st v w1 = (Inr st', w')"
proof -
  from assms obtain a where a: "map_of attempts k = Some a" by (auto simp: judge_attempt_def bind_act_Inr res_iff)
  show thesis
  proof (cases "sa_outcome a")
    case (Inl e)
    with assms a failed show thesis by (simp add: judge_attempt_def bind_act_def)
  next
    case (Inr p)
    with assms a have "handle (build_snapshot_value ap bl k s p (sa_attempts a) (sa_latency_ms a) (sa_dependency_versions a))
             (accept_value bl s a k st)
             (\<lambda>e. if is_protocol_error e
                  then bind_act (updates (note_rejected s k e)) (\<lambda>_. ret (fail_key s a k e st))
                  else throw e) w = (Inr st', w')" by (simp add: judge_attempt_def bind_act_def)
    then show thesis
    proof (cases rule: handle_cases)
      case (raised e w1)
      then show thesis using rejected [OF a Inr] by (auto simp: bind_act_def split: if_splits)
    next
      case (continued v w1)
      then show thesis using accepted [OF a Inr] by blast
    qed
  qed
qed

lemma owned_updates_unresolved [simp]:
  "ow_unresolved (add_failure k f ow) = ow_unresolved ow" "ow_unresolved (keep_best_stale policy v k ow) = ow_unresolved ow"
  "ow_unresolved (resolve_as k r ow) = ow_unresolved ow" "ow_unresolved (snd (fail_key s a k e st)) = ow_unresolved (snd st)"
  by (simp_all add: add_failure_def keep_best_stale_def resolve_as_def fail_key_def)

lemma judge_attempt_unresolved:
  assumes "judge_attempt ap bl s attempts k st w = (Inr st', w')"
  shows "ow_unresolved (snd st') = ow_unresolved (snd st)"
  using assms
proof (cases rule: judge_attempt_cases)
  case (accepted a p v w1)
  from accepted(4) show ?thesis by (cases rule: accept_value_cases) simp_all
qed simp_all

lemma adopt_winner_unresolved: "adopt_winner ap bl ctx rs v ow w = (Inr ow', w') \<Longrightarrow> ow_unresolved ow' = ow_unresolved ow"
  by (auto simp: adopt_winner_def bind_act_Inr resolve_as_def split: option.splits if_splits)

lemma cache_fresh_unresolved:
  assumes "cache_fresh ap bl ctx fresh ow w = (Inr ow', w')"
  shows "ow_unresolved ow' = ow_unresolved ow"
proof -
  have "ow_unresolved y = ow_unresolved ow" if "fold_act (adopt_winner ap bl ctx rs) fresh ow u = (Inr y, u')" for rs y u u'
    by (rule fold_act_inv [OF that, of "\<lambda>ds o'. ow_unresolved o' = ow_unresolved ow"]) (simp_all add: adopt_winner_unresolved)
  then show ?thesis using assms
    by (auto simp: cache_fresh_def bind_act_Inr split: if_splits option.splits)
qed

lemma try_source_unresolved:
  assumes "try_source ap bl resolve ctx anc lo s ow w = (Inr ow', w')"
  shows "set (ow_unresolved ow') \<subseteq> set (ow_unresolved ow)"
proof -
  from assms obtain candidates ow1 w1 where 1: "fold_act (consider_source ap bl s) (ow_unresolved ow) ([], ow) w = (Inr (candidates, ow1), w1)"
    and rest: "(if candidates = [] then ret ow1
       else bind_act (attempt ap bl resolve s candidates ctx anc lo) (\<lambda>attempts.
         bind_act (fold_act (judge_attempt ap bl s attempts) candidates ([], ow1)) (\<lambda>(fresh, ow2).
         bind_act (cache_fresh ap bl ctx fresh ow2) (\<lambda>ow3. ret (drop_resolved ow3))))) w1 = (Inr ow', w')"
    by (auto simp: try_source_def bind_act_Inr [of "fold_act (consider_source ap bl s) (ow_unresolved ow) ([], ow)"])
  have u1: "ow_unresolved ow1 = ow_unresolved ow" using consider_sources_subset [OF 1] by simp
  show ?thesis
  proof (cases "candidates = []")
    case False
    with rest obtain attempts w2 fresh ow2 w3 ow3 where
      2: "fold_act (judge_attempt ap bl s attempts) candidates ([], ow1) w2 = (Inr (fresh, ow2), w3)"
      and 3: "cache_fresh ap bl ctx fresh ow2 w3 = (Inr ow3, w')" and ow': "ow' = drop_resolved ow3"
      by (auto simp: bind_act_Inr)
    have "ow_unresolved (snd (fresh, ow2)) = ow_unresolved ow1"
      by (rule fold_act_inv [OF 2, of "\<lambda>ds st. ow_unresolved (snd st) = ow_unresolved ow1"]) (simp_all add: judge_attempt_unresolved)
    then show ?thesis using cache_fresh_unresolved [OF 3] u1 by (auto simp: ow' drop_resolved_def)
  qed (use rest u1 in simp)
qed

lemma from_memo_unresolved [simp]: "ow_unresolved (from_memo rt ow) = ow_unresolved ow"
proof -
  have "ow_unresolved (foldl (\<lambda>ow k. if requires_refresh rt k then ow
        else case map_of (rt_memo rt) k of None \<Rightarrow> ow | Some v \<Rightarrow> resolve_as k (Inr v) ow) ow ks) = ow_unresolved ow" for ks
    by (induction ks arbitrary: ow) (auto split: option.splits)
  then show ?thesis by (simp add: from_memo_def)
qed

lemma attempt_agree:
  assumes "s \<in> set (sg_sources (bl_catalog bl))" "set keys \<subseteq> U - set anc"
    and closed: "dependency_closed ap bl U" and agree: "agree_off_path U anc r1 r2"
  shows "attempt ap bl r1 s keys ctx anc lo w = attempt ap bl r2 s keys ctx anc lo w"
proof (rule attempt_cong [of keys U])
  show "r1 ks (anc @ [k]) lo w = r2 ks (anc @ [k]) lo w"
    if "k \<in> set keys" "set ks \<subseteq> U" "set ks \<inter> set (anc @ [k]) = {}" for k ks w
    using agree assms(2) that unfolding agree_off_path_def by blast
  show "d \<in> U" if "k \<in> set keys" "ap_dependencies ap (so_name s) k = Inr ds" "DepKey d \<in> set ds" for k ds d
    using closed assms that unfolding dependency_closed_def by blast
qed

lemma try_source_agree:
  assumes "s \<in> set (sg_sources (bl_catalog bl))" "set (ow_unresolved ow) \<subseteq> U - set anc"
    and closed: "dependency_closed ap bl U" and agree: "agree_off_path U anc r1 r2"
  shows "try_source ap bl r1 ctx anc lo s ow w = try_source ap bl r2 ctx anc lo s ow w"
  unfolding try_source_def
proof (rule bind_act_cong, rule refl)
  fix st w1
  assume "fold_act (consider_source ap bl s) (ow_unresolved ow) ([], ow) w = (Inr st, w1)"
  then have "set (fst st) \<subseteq> U - set anc"
    using consider_sources_subset [of ap bl s "ow_unresolved ow" ow w "fst st" "snd st" w1] assms(2) by auto
  from attempt_agree [OF assms(1) this closed agree, of ctx lo w1]
  show "(case st of (candidates, ow1) \<Rightarrow>
      if candidates = [] then ret ow1
      else bind_act (attempt ap bl r1 s candidates ctx anc lo) (\<lambda>attempts.
         bind_act (fold_act (judge_attempt ap bl s attempts) candidates ([], ow1)) (\<lambda>(fresh, ow2).
         bind_act (cache_fresh ap bl ctx fresh ow2) (\<lambda>ow3. ret (drop_resolved ow3))))) w1 =
    (case st of (candidates, ow1) \<Rightarrow>
      if candidates = [] then ret ow1
      else bind_act (attempt ap bl r2 s candidates ctx anc lo) (\<lambda>attempts.
         bind_act (fold_act (judge_attempt ap bl s attempts) candidates ([], ow1)) (\<lambda>(fresh, ow2).
         bind_act (cache_fresh ap bl ctx fresh ow2) (\<lambda>ow3. ret (drop_resolved ow3))))) w1"
    by (cases st) (auto intro: bind_act_cong)
qed

lemma try_sources_agree:
  assumes "set sources \<subseteq> set (sg_sources (bl_catalog bl))" "set (ow_unresolved ow) \<subseteq> U - set anc"
    and closed: "dependency_closed ap bl U" and agree: "agree_off_path U anc r1 r2"
  shows "try_sources ap bl r1 ctx anc lo sources ow w = try_sources ap bl r2 ctx anc lo sources ow w"
  using assms(1,2)
proof (induction sources arbitrary: ow w)
  case (Cons s rest)
  let ?ow = "drop_resolved (from_memo (w_rt w) ow)"
  have sub: "set (ow_unresolved ?ow) \<subseteq> U - set anc" using Cons.prems(2) by (auto simp: drop_resolved_def)
  have here: "try_source ap bl r1 ctx anc lo s ?ow w = try_source ap bl r2 ctx anc lo s ?ow w"
    using try_source_agree [OF _ sub closed agree] Cons.prems(1) by simp
  have later: "try_sources ap bl r1 ctx anc lo rest ow2 w2 = try_sources ap bl r2 ctx anc lo rest ow2 w2"
    if "try_source ap bl r2 ctx anc lo s ?ow w = (Inr ow2, w2)" for ow2 w2
    using Cons.IH [of ow2 w2] Cons.prems(1) try_source_unresolved [OF that] sub by auto
  show ?case by (auto simp: here later intro!: bind_act_cong)
qed simp

lemma resolve_owned_agree:
  assumes "set keys \<subseteq> U - set anc"
    and closed: "dependency_closed ap bl U" and agree: "agree_off_path U anc r1 r2"
  shows "resolve_owned_keys ap bl r1 ctx anc lo keys w = resolve_owned_keys ap bl r2 ctx anc lo keys w"
proof -
  have "set (ow_unresolved (new_owned keys)) \<subseteq> U - set anc" using assms(1) by (simp add: new_owned_def)
  from try_sources_agree [OF subset_refl this closed agree] show ?thesis
    unfolding resolve_owned_keys_def by (intro bind_act_cong) simp_all
qed

lemma run_flight_agree:
  assumes "\<And>own w. set own \<subseteq> set keys \<Longrightarrow> f own w = g own w"
  shows "run_flight ap f keys w = run_flight ap g keys w"
  unfolding run_flight_def Let_def
  by (intro bind_act_cong refl) (auto intro!: bind_act_cong assms)

lemma resolve_pending_agree:
  assumes "set pending \<subseteq> U - set anc"
    and closed: "dependency_closed ap bl U" and agree: "agree_off_path U anc r1 r2"
  shows "resolve_pending ap bl r1 ctx anc lo pending w = resolve_pending ap bl r2 ctx anc lo pending w"
proof -
  have owned: "resolve_owned_keys ap bl r1 ctx anc lo' ks u = resolve_owned_keys ap bl r2 ctx anc lo' ks u"
    if "set ks \<subseteq> set pending" for ks lo' u using resolve_owned_agree [OF subset_trans [OF that assms(1)] closed agree] .
  show ?thesis unfolding resolve_pending_def Let_def
    by (intro bind_act_cong refl) (auto intro!: bind_act_cong owned run_flight_agree)
qed

lemma resolve_step_agree:
  assumes "set keys \<subseteq> U - set anc"
    and closed: "dependency_closed ap bl U" and agree: "agree_off_path U anc r1 r2"
  shows "resolve_step ap bl ctx r1 keys anc lo w = resolve_step ap bl ctx r2 keys anc lo w"
  unfolding resolve_step_def
proof (intro bind_act_cong refl)
  fix sk1 w1 policies w2 now w3 lookups w4 sk2 w5
  assume sort: "fold_act sort_key_in (fromkeys keys) no_keys w = (Inr sk1, w1)"
    and judge: "fold_act (judge_lookup ap bl ctx policies lookups) (sk_cache_keys sk1) sk1 w4 = (Inr sk2, w5)"
  have "split_keys (set (fromkeys keys)) sk2"
    by (rule judge_lookups_split [OF judge sort_keys_parted [OF sort]]) simp
  then have "set (sk_pending sk2) \<subseteq> U - set anc" using assms(1) by (auto simp: split_keys_def simp del: set_map)
  from resolve_pending_agree [OF this closed agree]
  show "resolve_unanswered ap bl r1 ctx anc lo sk2 w5 = resolve_unanswered ap bl r2 ctx anc lo sk2 w5"
    by (auto simp: resolve_unanswered_def intro: bind_act_cong)
qed

lemma resolve_many_enough:
  assumes "finite U" and closed: "dependency_closed ap bl U"
  shows "card (U - set anc) < n \<Longrightarrow> card (U - set anc) < m \<Longrightarrow> set keys \<subseteq> U - set anc
    \<Longrightarrow> resolve_many n bot1 ap bl ctx keys anc lo w = resolve_many m bot2 ap bl ctx keys anc lo w"
proof (induction n arbitrary: m anc keys lo w)
  case (Suc n)
  then obtain m' where m: "m = Suc m'" by (cases m) auto
  have "agree_off_path U anc (resolve_many n bot1 ap bl ctx) (resolve_many m' bot2 ap bl ctx)"
    unfolding agree_off_path_def
  proof (intro ballI allI impI)
    fix k ks lo w
    assume k: "k \<in> U - set anc" and ks: "set ks \<subseteq> U" "set ks \<inter> set (anc @ [k]) = {}"
    have "U - set (anc @ [k]) \<subset> U - set anc" using k by auto
    then have "card (U - set (anc @ [k])) < card (U - set anc)" using assms(1) by (simp add: psubset_card_mono)
    then have small: "card (U - set (anc @ [k])) < n" "card (U - set (anc @ [k])) < m'" using Suc.prems(1,2) m by auto
    have "set ks \<subseteq> U - set (anc @ [k])" using ks by blast
    from Suc.IH [OF small this]
    show "resolve_many n bot1 ap bl ctx ks (anc @ [k]) lo w = resolve_many m' bot2 ap bl ctx ks (anc @ [k]) lo w" .
  qed
  from resolve_step_agree [OF Suc.prems(3) closed this] show ?case by (simp add: m)
qed simp

text \<open>
  C3: The recursion through derived sources ends: when the dependencies declared for a finite set
  of keys stay in that set, one unrolling per key (and one more) is enough. The result is then
  the same for every larger number of unrollings and whatever is put at the bottom, so the
  bottom is never reached; cycles are cut by the path check and cannot prolong the recursion.
\<close>

theorem resolution_recursion_ends:
  assumes "finite U" "dependency_closed ap bl U" "set keys \<subseteq> U" "card U < n" "card U < m"
  shows "resolve_many n bottom ap bl ctx keys [] local_owned w = resolve_many m bottom' ap bl ctx keys [] local_owned w"
  using resolve_many_enough [OF assms(1,2), of "[]" n m keys] assms(3-5) by simp

subsection \<open>One resolution carried out\<close>

lemma fixture_resolution_returns:
  "isl (fst (resolve_many 2 unreached (fixture_app 1) fixture_builder (fixture_context None) [fixture_key ''quote''] [] {}
     fixture_world)) = False"
  by code_simp

theorem resolution_answers_keys_witness:
  "\<exists>vals errs w'. resolve_many 2 unreached (fixture_app 1) fixture_builder (fixture_context None) [fixture_key ''quote''] [] {}
       fixture_world = (Inr (vals, errs), w')
     \<and> set (od_keys vals) \<union> set (od_keys errs) = {fixture_key ''quote''}"
proof -
  obtain vals errs w' where run: "resolve_many (Suc 1) unreached (fixture_app 1) fixture_builder (fixture_context None)
      [fixture_key ''quote''] [] {} fixture_world = (Inr (vals, errs), w')"
    using fixture_resolution_returns unfolding Suc_1
    by (cases "resolve_many 2 unreached (fixture_app 1) fixture_builder (fixture_context None)
      [fixture_key ''quote''] [] {} fixture_world"; cases "fst (resolve_many 2 unreached (fixture_app 1) fixture_builder
      (fixture_context None) [fixture_key ''quote''] [] {} fixture_world)") (auto simp del: resolve_many.simps)
  have "set (od_keys vals) \<union> set (od_keys errs) = {fixture_key ''quote''}"
    using resolution_answers_keys [OF run] by (simp del: set_map)
  with run show ?thesis unfolding Suc_1 by (intro exI conjI)
qed

theorem resolution_recursion_ends_witness:
  "resolve_many 2 unreached (fixture_app 1) fixture_builder (fixture_context None) [fixture_key ''quote''] [] {} fixture_world
   = resolve_many 5 fixture_no_resolver (fixture_app 1) fixture_builder (fixture_context None) [fixture_key ''quote''] [] {}
       fixture_world"
proof (rule resolution_recursion_ends [where U = "{fixture_key ''quote''}"])
  show "dependency_closed (fixture_app 1) fixture_builder {fixture_key ''quote''}"
    by (simp add: dependency_closed_def fixture_app_def)
qed simp_all

end
