(* ===== verification/Stale_Values.thy ===== *)
theory Stale_Values
  imports Resolver
begin

section \<open>Stale values only where the policy allows them\<close>

text \<open>
  A value marked stale reaches the caller only under a policy that allows stale values on errors
  or serves them while a refresh runs. The invariant says so of the memo of the resolution
  (\<open>memo_ok\<close>); every step of the resolver keeps it and returns only values that satisfy it.
\<close>

definition stale_allowed :: "'s builder \<Rightarrow> resource_key \<Rightarrow> snapshot_value \<Rightarrow> bool" where
  "stale_allowed bl k v \<longleftrightarrow> (sv_stale v \<longrightarrow> (\<exists>p. policy_resolve (bl_policies bl) k = Inr p
     \<and> (fp_allow_stale_on_error p \<or> fp_refresh_mode p = STALE_WHILE_REVALIDATE)))"

definition values_ok :: "'s builder \<Rightarrow> (resource_key, snapshot_value) odict \<Rightarrow> bool" where
  "values_ok bl d \<longleftrightarrow> (\<forall>(k, v) \<in> set d. stale_allowed bl k v)"

definition memo_ok :: "'s builder \<Rightarrow> 's world \<Rightarrow> bool" where
  "memo_ok bl w \<longleftrightarrow> values_ok bl (rt_memo (w_rt w))"

definition joined_ok :: "app \<Rightarrow> 's builder \<Rightarrow> bool" where
  "joined_ok ap bl \<longleftrightarrow> (\<forall>k n v. ap_joined ap k n = Some (Inr (Inr v)) \<longrightarrow> stale_allowed bl k v)"

interpretation memo_frame: access_frame "\<lambda>w w'. memo_ok bl w \<longrightarrow> memo_ok bl w'" ap bl for ap bl
proof unfold_locales
  fix w w' :: "'a world"
  assume "clocks.more w' = clocks.more w"
  then show "memo_ok bl w \<longrightarrow> memo_ok bl w'" using world_frame(5) [of w' w] by (simp add: memo_ok_def)
next
  fix w :: "'a world" and s k ctx ks deps
  show "memo_ok bl w \<longrightarrow> memo_ok bl (snd (fetch_once ap bl s k ctx w))"
    "memo_ok bl w \<longrightarrow> memo_ok bl (snd (fetch_many_once ap bl s ks ctx w))"
    "memo_ok bl w \<longrightarrow> memo_ok bl (snd (derive_once ap bl s k deps ctx w))"
    using source_calls_shared(1) [of w ap bl s k ctx] source_calls_shared(2) [of w ap bl s k deps ctx]
      source_calls_shared(3) [of w ap bl s ks ctx] by (simp_all add: memo_ok_def same_shared_def)
qed (auto simp: memo_ok_def count_health_def)

lemma values_ok_set: "values_ok bl d \<Longrightarrow> stale_allowed bl k v \<Longrightarrow> values_ok bl (od_set k v d)"
  using set_od_set_subset [of k v d] by (auto simp: values_ok_def)

lemma memo_ok_memoize: "memo_ok bl w \<Longrightarrow> stale_allowed bl k v \<Longrightarrow> memo_ok bl (on_rt (memoize k v) w)"
  by (simp add: memo_ok_def on_rt_def memoize_def values_ok_set)

lemma memo_ok_refreshed: "memo_ok bl w \<Longrightarrow> stale_allowed bl k v \<Longrightarrow> memo_ok bl (on_rt (\<lambda>rt. mark_refreshed k (memoize k v rt)) w)"
  by (simp add: memo_ok_def on_rt_def memoize_def mark_refreshed_def values_ok_set)

lemma memo_ok_notes [simp]: "memo_ok bl (emit os w) = memo_ok bl w" "memo_ok bl (count_diag f w) = memo_ok bl w"
  "memo_ok bl (count_miss w) = memo_ok bl w" "memo_ok bl (count_hit w) = memo_ok bl w" "memo_ok bl (count_stale w) = memo_ok bl w"
  by (simp_all add: memo_ok_def count_miss_def count_hit_def count_stale_def)

lemma fresh_allowed: "\<not> sv_stale v \<Longrightarrow> stale_allowed bl k v"
  by (simp add: stale_allowed_def)

lemma clone_stale: "clone_snapshot_value copier v c ch = Inr v' \<Longrightarrow> sv_stale v' = or_else (cc_stale ch) (sv_stale v)"
  by (auto simp: clone_snapshot_value_def mk_snapshot_value_def res_iff Let_def split: if_splits)

lemma async_clone_value:
  "async_clone delay cf copier v c ch d w = (Inr v', w') \<Longrightarrow> clone_snapshot_value copier v c ch = Inr v'"
  using copy_run_value [of delay cf "\<lambda>_. clone_snapshot_value copier v c ch" d "''isolating '' @ c" w v']
  by (simp only: async_clone_def fst_conv)

lemma cached_copy_stale: "cached_copy ap bl ctx v stale extra w = (Inr v', w') \<Longrightarrow> sv_stale v' = stale"
  unfolding cached_copy_def by (drule async_clone_value, drule clone_stale) simp

lemma ensures_cached_copy: "ensures (memo_ok bl) (cached_copy ap bl ctx v stale extra) (\<lambda>v'. sv_stale v' = stale)"
proof (rule ensuresI)
  fix w r w'
  assume ok: "memo_ok bl w" and run: "cached_copy ap bl ctx v stale extra w = (r, w')"
  have "memo_ok bl w'" using memo_frame.keepsD [OF memo_frame.keeps_cached_copy run] ok by simp
  moreover have "sv_stale x = stale" if "r = Inr x" for x
    using cached_copy_stale run that by blast
  ultimately show "memo_ok bl w' \<and> (\<forall>x. r = Inr x \<longrightarrow> sv_stale x = stale)" by blast
qed

lemma ensures_sort_key: "values_ok bl (sk_values sk) \<Longrightarrow> ensures (memo_ok bl) (sort_key_in k sk) (\<lambda>sk'. values_ok bl (sk_values sk'))"
  by (auto simp: ensures_def sort_key_in_def split: option.splits)
    (auto simp: memo_ok_def values_ok_def dest!: map_of_SomeD set_od_set_subset [THEN subsetD])

lemma ensures_deliver:
  "values_ok bl (sk_values sk) \<Longrightarrow> stale_allowed bl k v
    \<Longrightarrow> ensures (memo_ok bl) (deliver_cached k v sk) (\<lambda>sk'. values_ok bl (sk_values sk'))"
  by (auto simp: ensures_def deliver_cached_def bind_act_def memo_ok_memoize values_ok_set)

lemma ensures_schedule: "ensures (memo_ok bl) (schedule_refresh ctx reason k) (\<lambda>_. True)"
  by (auto simp: ensures_def schedule_refresh_def memo_ok_def)

lemma ensures_note: "(\<And>w. memo_ok bl w \<Longrightarrow> memo_ok bl (f w)) \<Longrightarrow> ensures (memo_ok bl) (updates f) (\<lambda>_. True)"
  by (rule ensures_updates) simp_all

lemma ensures_judge_lookup:
  assumes "values_ok bl (sk_values sk)" and pol: "\<And>p. map_of policies k = Some p \<Longrightarrow> policy_resolve (bl_policies bl) k = Inr p"
  shows "ensures (memo_ok bl) (judge_lookup ap bl ctx policies lookups k sk) (\<lambda>sk'. values_ok bl (sk_values sk'))"
proof -
  let ?Q = "\<lambda>sk'. values_ok bl (sk_values sk')"
  have miss: "ensures (memo_ok bl) (handle_miss k c sk) ?Q" for c
    unfolding handle_miss_def using assms(1) by (intro ensures_bind [OF ensures_note] ensures_ret) simp_all
  have fresh: "ensures (memo_ok bl) (fresh_hit ap bl ctx policy age v k sk) ?Q" for policy age v
    unfolding fresh_hit_def
  proof (intro ensures_bind [OF ensures_note])
    have sched: "ensures (memo_ok bl) (case age of None \<Rightarrow> ret False
        | Some a \<Rightarrow> if should_refresh_ahead policy a then schedule_refresh ctx ''refresh_ahead'' k else ret False) (\<lambda>_. True)"
      by (auto split: option.splits intro: ensures_ret ensures_schedule)
    show "ensures (memo_ok bl) (bind_act (case age of None \<Rightarrow> ret False
        | Some a \<Rightarrow> if should_refresh_ahead policy a then schedule_refresh ctx ''refresh_ahead'' k else ret False)
        (\<lambda>scheduled. bind_act (cached_copy ap bl ctx v False (if scheduled then [(''refresh_scheduled'', PyBool scheduled)] else []))
          (\<lambda>cached. deliver_cached k cached sk))) ?Q"
      by (rule ensures_bind [OF sched], rule ensures_bind [OF ensures_cached_copy])
        (simp add: ensures_deliver assms(1) fresh_allowed)
  qed simp
  have stale: "ensures (memo_ok bl) (stale_hit ap bl ctx v k sk) ?Q"
    if "map_of policies k = Some p" "fp_refresh_mode p = STALE_WHILE_REVALIDATE" for v p
    unfolding stale_hit_def
  proof (rule ensures_bind [OF ensures_note], simp, rule ensures_bind [OF ensures_schedule], rule ensures_bind [OF ensures_cached_copy])
    fix v'
    have "stale_allowed bl k v'" using pol [OF that(1)] that(2) by (auto simp: stale_allowed_def)
    with assms(1) show "ensures (memo_ok bl) (deliver_cached k v' sk) ?Q" by (rule ensures_deliver)
  qed
  show ?thesis unfolding judge_lookup_def
    by (rule ensures_bind [OF ensures_lift, where Q = "\<lambda>l. True"], simp,
        rule ensures_bind [OF ensures_lift, where Q = "\<lambda>p. map_of policies k = Some p"])
      (auto simp: res_iff miss fresh stale split: option.splits)
qed

lemma policies_for_resolved: "policies_for bl ks = Inr ps \<Longrightarrow> map_of ps k = Some p \<Longrightarrow> policy_resolve (bl_policies bl) k = Inr p"
  unfolding policies_for_def
  by (induction ks arbitrary: ps) (auto simp: res_iff split: if_splits)

definition results_ok :: "'s builder \<Rightarrow> (resource_key, resolution_result) odict \<Rightarrow> bool" where
  "results_ok bl rs \<longleftrightarrow> (\<forall>(k, r) \<in> set rs. \<forall>v. r = Inr v \<longrightarrow> stale_allowed bl k v)"

definition owned_ok :: "'s builder \<Rightarrow> owned \<Rightarrow> bool" where
  "owned_ok bl ow \<longleftrightarrow> results_ok bl (ow_resolved ow)"

lemma results_ok_set: "results_ok bl rs \<Longrightarrow> (\<And>v. r = Inr v \<Longrightarrow> stale_allowed bl k v) \<Longrightarrow> results_ok bl (od_set k r rs)"
  using set_od_set_subset [of k r rs] by (auto simp: results_ok_def)

lemma owned_ok_updates [simp]:
  "owned_ok bl (add_failure k f ow) = owned_ok bl ow" "owned_ok bl (keep_best_stale p v k ow) = owned_ok bl ow"
  "owned_ok bl (drop_resolved ow) = owned_ok bl ow" "owned_ok bl (snd (fail_key s a k e st)) = owned_ok bl (snd st)"
  by (simp_all add: owned_ok_def add_failure_def keep_best_stale_def drop_resolved_def fail_key_def)

lemma owned_ok_resolve: "owned_ok bl ow \<Longrightarrow> (\<And>v. r = Inr v \<Longrightarrow> stale_allowed bl k v) \<Longrightarrow> owned_ok bl (resolve_as k r ow)"
  by (simp add: owned_ok_def resolve_as_def results_ok_set)

lemma from_memo_ok:
  assumes "memo_ok bl w" "owned_ok bl ow"
  shows "owned_ok bl (from_memo (w_rt w) ow)"
proof -
  have "owned_ok bl (foldl (\<lambda>ow k. if requires_refresh (w_rt w) k then ow
        else case map_of (rt_memo (w_rt w)) k of None \<Rightarrow> ow | Some v \<Rightarrow> resolve_as k (Inr v) ow) ow ks)" for ks
    using assms(2)
  proof (induction ks arbitrary: ow)
    case (Cons k ks)
    have "stale_allowed bl k v" if "map_of (rt_memo (w_rt w)) k = Some v" for v
      using assms(1) map_of_SomeD [OF that] by (auto simp: memo_ok_def values_ok_def)
    then have "owned_ok bl (if requires_refresh (w_rt w) k then ow
        else case map_of (rt_memo (w_rt w)) k of None \<Rightarrow> ow | Some v \<Rightarrow> resolve_as k (Inr v) ow)"
      using Cons.prems by (auto intro: owned_ok_resolve split: option.splits)
    then show ?case unfolding foldl_Cons by (rule Cons.IH)
  qed simp
  then show ?thesis by (simp add: from_memo_def)
qed

lemma ensures_consider: "owned_ok bl (snd st) \<Longrightarrow> ensures (memo_ok bl) (consider_source ap bl s k st) (\<lambda>st'. owned_ok bl (snd st'))"
  by (cases st) (auto simp: ensures_def consider_source_def Let_def memo_ok_def split: sum.splits prod.splits)

lemma ensures_accept: "owned_ok bl (snd st) \<Longrightarrow> ensures (memo_ok bl) (accept_value bl s a k st v) (\<lambda>st'. owned_ok bl (snd st'))"
  unfolding accept_value_def note_resolved_def
  by (rule ensures_bind [OF ensures_lift, where Q = "\<lambda>_. True"], simp, cases "sv_stale v")
    (auto intro!: ensures_ret ensures_bind [OF ensures_note] memo_ok_refreshed owned_ok_resolve fresh_allowed)

lemma ensures_judge_attempt:
  assumes "owned_ok bl (snd st)"
  shows "ensures (memo_ok bl) (judge_attempt ap bl s attempts k st) (\<lambda>st'. owned_ok bl (snd st'))"
proof -
  have build: "ensures (memo_ok bl) (build_snapshot_value ap bl k s p n l deps) (\<lambda>_. True)" for p n l deps
    using memo_frame.keeps_build_value by (rule keeps_ensures)
  have "ensures (memo_ok bl) (case sa_outcome a of
         Inl e \<Rightarrow> bind_act (updates (note_failed s k e)) (\<lambda>_. ret (fail_key s a k e st))
       | Inr p \<Rightarrow>
           handle (build_snapshot_value ap bl k s p (sa_attempts a) (sa_latency_ms a) (sa_dependency_versions a))
             (accept_value bl s a k st)
             (\<lambda>e. if is_protocol_error e
                  then bind_act (updates (note_rejected s k e)) (\<lambda>_. ret (fail_key s a k e st))
                  else throw e)) (\<lambda>st'. owned_ok bl (snd st'))" for a
    using assms
    by (auto split: sum.splits simp: note_failed_def note_rejected_def intro!: ensures_bind [OF ensures_note] ensures_ret
        ensures_throw ensures_handle [OF build] ensures_accept)
  then show ?thesis unfolding judge_attempt_def by (rule ensures_bind [OF ensures_lift, where Q = "\<lambda>_. True", OF TrueI])
qed

lemma ensures_adopt: "owned_ok bl ow \<Longrightarrow> ensures (memo_ok bl) (adopt_winner ap bl ctx rs v ow) (owned_ok bl)"
  by (auto simp: adopt_winner_def split: option.splits
      intro!: ensures_ret ensures_bind [OF ensures_cached_copy] ensures_bind [OF ensures_note] memo_ok_memoize fresh_allowed owned_ok_resolve)

lemma ensures_cache_fresh:
  assumes "owned_ok bl ow"
  shows "ensures (memo_ok bl) (cache_fresh ap bl ctx fresh ow) (owned_ok bl)"
proof -
  have set_many: "ensures (memo_ok bl) (access_set_many ap bl ctx fresh) (\<lambda>_. True)"
    using memo_frame.keeps_access_set_many by (rule keeps_ensures)
  show ?thesis unfolding cache_fresh_def
    by (rule ensures_bind [OF ensures_reads, where Q = "\<lambda>_. True", OF TrueI])
      (auto split: option.splits intro!: ensures_ret assms ensures_bind [OF set_many] ensures_fold ensures_adopt)
qed

lemma ensures_try_source:
  assumes resolve: "\<And>k ks. keeps (\<lambda>w w'. memo_ok bl w \<longrightarrow> memo_ok bl w') (resolve ks (anc @ [k]) lo)" and "owned_ok bl ow"
  shows "ensures (memo_ok bl) (try_source ap bl resolve ctx anc lo s ow) (owned_ok bl)"
proof -
  let ?Q = "\<lambda>st. owned_ok bl (snd st)"
  have considered: "ensures (memo_ok bl) (fold_act (consider_source ap bl s) ks ([], ow)) ?Q" for ks
    by (rule ensures_fold) (simp_all add: ensures_consider assms(2))
  have attempted: "ensures (memo_ok bl) (attempt ap bl resolve s ks ctx anc lo) (\<lambda>_. True)" for ks
    by (rule keeps_ensures, rule memo_frame.keeps_attempt) (rule resolve)
  have judged: "ensures (memo_ok bl) (fold_act (judge_attempt ap bl s attempts) ks ([], o1)) ?Q" if "owned_ok bl o1" for attempts ks o1
    by (rule ensures_fold) (simp_all add: ensures_judge_attempt that)
  have rest: "ensures (memo_ok bl) (bind_act (attempt ap bl resolve s candidates ctx anc lo) (\<lambda>attempts.
         bind_act (fold_act (judge_attempt ap bl s attempts) candidates ([], o1)) (\<lambda>(fresh, ow2).
         bind_act (cache_fresh ap bl ctx fresh ow2) (\<lambda>ow3. ret (drop_resolved ow3))))) (owned_ok bl)"
    if "owned_ok bl o1" for candidates o1
    by (rule ensures_bind [OF attempted], rule ensures_bind [OF judged [OF that]])
      (auto intro!: ensures_bind [OF ensures_cache_fresh] ensures_ret)
  show ?thesis unfolding try_source_def
    by (rule ensures_bind [OF considered]) (auto intro: ensures_ret rest)
qed

lemma ensures_try_sources:
  assumes resolve: "\<And>k ks. keeps (\<lambda>w w'. memo_ok bl w \<longrightarrow> memo_ok bl w') (resolve ks (anc @ [k]) lo)"
  shows "owned_ok bl ow \<Longrightarrow> ensures (memo_ok bl) (try_sources ap bl resolve ctx anc lo sources ow) (owned_ok bl)"
proof (induction sources arbitrary: ow)
  case (Cons s rest)
  have start: "ensures (memo_ok bl) (reads (\<lambda>w. drop_resolved (from_memo (w_rt w) ow))) (owned_ok bl)"
    by (rule ensures_reads) (simp add: from_memo_ok Cons.prems)
  show ?case unfolding try_sources.simps
  proof (rule ensures_bind [OF start])
    fix o1
    assume o1: "owned_ok bl o1"
    have tried: "ensures (memo_ok bl) (try_source ap bl resolve ctx anc lo s o1) (owned_ok bl)"
      using resolve o1 by (rule ensures_try_source)
    have "ensures (memo_ok bl) (bind_act (try_source ap bl resolve ctx anc lo s o1) (\<lambda>ow2.
         if ow_unresolved ow2 = [] then ret ow2 else try_sources ap bl resolve ctx anc lo rest ow2)) (owned_ok bl)"
      by (rule ensures_bind [OF tried]) (auto intro: ensures_ret Cons.IH)
    with o1 show "ensures (memo_ok bl) (if ow_unresolved o1 = [] then ret o1
       else bind_act (try_source ap bl resolve ctx anc lo s o1) (\<lambda>ow2.
         if ow_unresolved ow2 = [] then ret ow2 else try_sources ap bl resolve ctx anc lo rest ow2)) (owned_ok bl)"
      by (simp add: ensures_ret)
  qed
qed (simp add: ensures_ret)

lemma ensures_conclude:
  assumes "owned_ok bl (snd st)"
  shows "ensures (memo_ok bl) (conclude_key bl k st) (\<lambda>st'. owned_ok bl (snd st'))"
proof (cases st)
  case (Pair cached ow)
  show ?thesis unfolding conclude_key_def Pair Let_def prod.case
  proof (rule ensures_bind [OF ensures_lift], assumption, rule ensures_bind [OF ensures_reads, where Q = "\<lambda>_. True", OF TrueI])
    fix policy forced
    assume policy: "policy_resolve (bl_policies bl) k = Inr policy"
    have "stale_allowed bl k v" if "fp_allow_stale_on_error policy" for v using policy that by (simp add: stale_allowed_def)
    with assms Pair show "ensures (memo_ok bl)
        (case map_of (ow_best_stale ow) k of
           None \<Rightarrow> ret (cached, resolve_as k (Inl (ResourceResolutionError k (case map_of (ow_failures ow) k of None \<Rightarrow> [] | Some fs \<Rightarrow> fs))) ow)
         | Some v \<Rightarrow>
             if \<not> fp_allow_stale_on_error policy \<or> forced
             then ret (cached, resolve_as k (Inl (ResourceResolutionError k (case map_of (ow_failures ow) k of None \<Rightarrow> [] | Some fs \<Rightarrow> fs))) ow)
             else bind_act (updates (on_rt (memoize k v))) (\<lambda>_.
                  bind_act (updates (emit [MetricIncrement ''source_fetch_total''
                                             [(''status'', ''stale''), (''source'', sv_source v)]])) (\<lambda>_.
                    ret (cached @ [v], resolve_as k (Inr v) ow))))
        (\<lambda>st'. owned_ok bl (snd st'))"
      by (auto split: option.splits intro!: ensures_ret ensures_bind [OF ensures_note] owned_ok_resolve memo_ok_memoize)
  qed
qed

lemma ensures_resolve_owned:
  assumes resolve: "\<And>k ks. keeps (\<lambda>w w'. memo_ok bl w \<longrightarrow> memo_ok bl w') (resolve ks (anc @ [k]) lo)"
  shows "ensures (memo_ok bl) (resolve_owned_keys ap bl resolve ctx anc lo keys) (results_ok bl)"
proof -
  have start: "owned_ok bl (new_owned keys)" by (simp add: owned_ok_def new_owned_def results_ok_def)
  have tried: "ensures (memo_ok bl) (try_sources ap bl resolve ctx anc lo sources (new_owned keys)) (owned_ok bl)" for sources
    using resolve start by (rule ensures_try_sources)
  have concluded: "ensures (memo_ok bl) (fold_act (conclude_key bl) ks ([], ow)) (\<lambda>st. owned_ok bl (snd st))" if "owned_ok bl ow" for ks ow
    by (rule ensures_fold) (simp_all add: ensures_conclude that)
  have stored: "ensures (memo_ok bl) (access_set_many ap bl ctx vs) (\<lambda>_. True)" for vs
    using memo_frame.keeps_access_set_many by (rule keeps_ensures)
  have last: "ensures (memo_ok bl) (bind_act (reads (\<lambda>w. rt_cache_stale_results (w_rt w))) (\<lambda>cacheable.
       if vs = [] \<or> \<not> cacheable then ret (ow_resolved ow)
       else bind_act (access_set_many ap bl ctx vs) (\<lambda>_. ret (ow_resolved ow)))) (results_ok bl)" if "owned_ok bl ow" for vs ow
    using that by (auto simp: owned_ok_def intro!: ensures_ret ensures_bind [OF ensures_reads, where Q = "\<lambda>_. True", OF TrueI]
        ensures_bind [OF stored])
  show ?thesis unfolding resolve_owned_keys_def
    by (rule ensures_bind [OF tried], rule ensures_bind [OF concluded])
      (auto simp: last split: prod.splits)
qed

text \<open>The outcomes of the flight, with the mark of a joined one.\<close>

definition outcome_ok :: "'s builder \<Rightarrow> resource_key \<times> resolution_result \<times> bool \<Rightarrow> bool" where
  "outcome_ok bl p \<longleftrightarrow> (case fst (snd p) of Inl e \<Rightarrow> True | Inr v \<Rightarrow> stale_allowed bl (fst p) v)"

definition flight_ok :: "'s builder \<Rightarrow> (resource_key \<times> resolution_result \<times> bool) list \<Rightarrow> bool" where
  "flight_ok bl rs \<longleftrightarrow> (\<forall>p \<in> set rs. outcome_ok bl p)"

lemma outcome_ok_simps [simp]: "outcome_ok bl (k, Inl e, b)" "outcome_ok bl (k, Inr v, b) = stale_allowed bl k v"
  by (simp_all add: outcome_ok_def)

lemma flight_ok_map_of: "flight_ok bl rs \<Longrightarrow> map_of rs k = Some (Inr v, joined) \<Longrightarrow> stale_allowed bl k v"
  by (auto simp: flight_ok_def dest!: map_of_SomeD)

lemma flight_ok_append [simp]: "flight_ok bl (xs @ ys) \<longleftrightarrow> flight_ok bl xs \<and> flight_ok bl ys"
  by (auto simp: flight_ok_def)

lemma flight_ok_set:
  assumes "flight_ok bl d" "outcome_ok bl (k, r)"
  shows "flight_ok bl (od_set k r d)"
  unfolding flight_ok_def
proof
  fix p
  assume "p \<in> set (od_set k r d)"
  from subsetD [OF set_od_set_subset this] assms show "outcome_ok bl p" by (auto simp: flight_ok_def)
qed

lemma flight_ok_update: "flight_ok bl d \<Longrightarrow> flight_ok bl rs \<Longrightarrow> flight_ok bl (od_update d rs)"
proof (induction rs arbitrary: d)
  case (Cons p rs)
  have p: "outcome_ok bl (fst p, snd p)" and rs: "flight_ok bl rs"
    using Cons.prems(2) by (simp_all add: flight_ok_def)
  from Cons.IH [OF flight_ok_set [OF Cons.prems(1) p] rs] show ?case by (simp add: od_update_def)
qed (simp add: od_update_def)

lemma flight_ok_of: "flight_ok bl rs \<Longrightarrow> flight_ok bl (od_of rs)"
  using flight_ok_update [of bl "[]" rs] by (simp add: od_of_def flight_ok_def [of bl "[]"])

lemma ensures_await_joined:
  assumes "\<And>k v. (k, Inr (Inr v)) \<in> set js \<Longrightarrow> stale_allowed bl k v"
  shows "ensures (memo_ok bl) (await_joined ap js) (flight_ok bl)"
  using assms
proof (induction js)
  case (Cons j js)
  obtain k r where j: "j = (k, r)" by fastforce
  have waited: "ensures (memo_ok bl) (updates (\<lambda>w. pass (ap_delay ap (w_tick w)) (count_tick w))) (\<lambda>_. True)"
    by (rule ensures_note) (simp add: memo_ok_def pass_def count_tick_def)
  have IH: "ensures (memo_ok bl) (await_joined ap js) (flight_ok bl)" using Cons by simp
  have "flight_ok bl ((k, x, True) # xs)" if "r = Inr x" "flight_ok bl xs" for x xs
    using that Cons.prems by (cases x) (auto simp: flight_ok_def j)
  then show ?case unfolding j await_joined.simps
    by (intro ensures_bind [OF waited] ensures_bind [OF ensures_lift] ensures_bind [OF IH] ensures_ret) blast+
qed (simp add: ensures_ret flight_ok_def)

lemma ensures_run_flight:
  assumes joined: "joined_ok ap bl" and factory: "\<And>own. ensures (memo_ok bl) (factory own) (results_ok bl)"
  shows "ensures (memo_ok bl) (run_flight ap factory keys) (flight_ok bl)"
proof -
  have produced: "flight_ok bl (map (\<lambda>k. (k, the (map_of rs k), False)) own)"
    if "results_ok bl rs" "filter (\<lambda>k. map_of rs k = None) own = []" for rs own
    using that by (fastforce simp: flight_ok_def outcome_ok_def results_ok_def filter_empty_conv dest: map_of_SomeD split: sum.splits)
  have awaited: "ensures (memo_ok bl) (await_joined ap (List.map_filter (\<lambda>k. map_option (\<lambda>r. (k, r)) (ap_joined ap k n)) ks)) (flight_ok bl)"
    for n ks
    by (rule ensures_await_joined) (use joined in \<open>auto simp: map_filter_def joined_ok_def\<close>)
  have own: "ensures (memo_ok bl) (if own = [] then ret []
        else bind_act (factory own) (\<lambda>produced.
               let missing = filter (\<lambda>k. map_of produced k = None) own
               in if missing \<noteq> []
                  then throw (RuntimeError (''single-flight batch factory omitted owned keys: '' @ str_join '', '' (map key_str missing)))
                  else ret (map (\<lambda>k. (k, the (map_of produced k), False)) own))) (flight_ok bl)" for own
    unfolding Let_def
    by (auto intro!: ensures_ret ensures_throw ensures_bind [OF factory] produced simp: flight_ok_def [of bl "[]"])
  show ?thesis unfolding run_flight_def Let_def
    by (rule ensures_bind [OF ensures_reads, where Q = "\<lambda>_. True", OF TrueI],
        rule ensures_bind [OF own [unfolded Let_def]], rule ensures_bind [OF awaited], rule ensures_ret)
      (simp add: flight_ok_of)
qed

lemma ensures_resolve_pending:
  assumes joined: "joined_ok ap bl"
    and resolve: "\<And>k ks lo. keeps (\<lambda>w w'. memo_ok bl w \<longrightarrow> memo_ok bl w') (resolve ks (anc @ [k]) lo)"
  shows "ensures (memo_ok bl) (resolve_pending ap bl resolve ctx anc lo pending) (flight_ok bl)"
proof -
  have own: "ensures (memo_ok bl) (resolve_owned_keys ap bl resolve ctx anc lo' ks) (results_ok bl)" for lo' ks
    using resolve by (rule ensures_resolve_owned)
  have unjoined: "flight_ok bl (map (\<lambda>(k, r). (k, r, False)) rs)" if "results_ok bl rs" for rs
    using that by (auto simp: flight_ok_def outcome_ok_def results_ok_def split: sum.splits)
  have none: "flight_ok bl []" by (simp add: flight_ok_def)
  show ?thesis unfolding resolve_pending_def Let_def
  proof (rule ensures_bind [OF ensures_reads, where Q = "\<lambda>_. True", OF TrueI], rule ensures_bind)
    fix rt
    show "ensures (memo_ok bl)
        (if filter (\<lambda>k. k \<in> lo \<or> requires_refresh rt k) pending = [] then ret []
         else bind_act (resolve_owned_keys ap bl resolve ctx anc (lo \<union> set (filter (\<lambda>k. k \<in> lo \<or> requires_refresh rt k) pending))
               (filter (\<lambda>k. k \<in> lo \<or> requires_refresh rt k) pending)) (\<lambda>rs. ret (map (\<lambda>(k, r). (k, r, False)) rs))) (flight_ok bl)"
      by (auto intro!: ensures_ret ensures_bind [OF own] unjoined none)
    fix direct_results shared
    assume direct: "flight_ok bl direct_results"
    have "ensures (memo_ok bl) (if shared = [] then ret []
        else run_flight ap (\<lambda>own. resolve_owned_keys ap bl resolve ctx anc (lo \<union> set own) own) shared) (flight_ok bl)" for shared
      by (auto intro!: ensures_ret ensures_run_flight joined own none)
    then show "ensures (memo_ok bl)
        (bind_act (if filter (\<lambda>k. k \<notin> set (filter (\<lambda>k. k \<in> lo \<or> requires_refresh rt k) pending)) pending = [] then ret []
            else run_flight ap (\<lambda>own. resolve_owned_keys ap bl resolve ctx anc (lo \<union> set own) own)
              (filter (\<lambda>k. k \<notin> set (filter (\<lambda>k. k \<in> lo \<or> requires_refresh rt k) pending)) pending))
          (\<lambda>flight_results. ret (od_update (od_of direct_results) flight_results))) (flight_ok bl)"
      by (rule ensures_bind, intro ensures_ret flight_ok_update flight_ok_of direct)
  qed
qed

lemma coalesced_stale: "mark_coalesced v = Inr v' \<Longrightarrow> sv_stale v' = sv_stale v"
  by (auto simp: mark_coalesced_def lift_arg_def mk_snapshot_value_def res_iff Let_def split: sum.splits if_splits)

lemma ensures_settle_value:
  assumes "values_ok bl (fst st)" "stale_allowed bl k v"
  shows "ensures (memo_ok bl) (settle_value k v joined st) (\<lambda>st'. values_ok bl (fst st'))"
proof -
  have "stale_allowed bl k v'" if "mark_coalesced v = Inr v'" for v'
    using assms(2) coalesced_stale [OF that] by (simp add: stale_allowed_def)
  then have "ensures (memo_ok bl) (if joined then join_value k v else ret v) (stale_allowed bl k)"
    using assms(2) unfolding join_value_def by (auto intro!: ensures_ret ensures_bind [OF ensures_note] ensures_lift)
  then show ?thesis unfolding settle_value_def
    by (rule ensures_bind)
      (intro ensures_bind [OF ensures_note] ensures_ret; simp add: memo_ok_refreshed values_ok_set assms(1))
qed

lemma ensures_settle_error:
  assumes "values_ok bl (fst st)"
  shows "ensures (memo_ok bl) (settle_error ap bl ctx stale k e st) (\<lambda>st'. values_ok bl (fst st'))"
proof -
  have fallback: "ensures (memo_ok bl) (settle_fallback ap bl ctx k e v st) (\<lambda>st'. values_ok bl (fst st'))"
    if "policy_resolve (bl_policies bl) k = Inr policy" "fp_allow_stale_on_error policy" for v policy
  proof -
    have "stale_allowed bl k v'" for v' using that by (simp add: stale_allowed_def)
    with assms show ?thesis unfolding settle_fallback_def
      by (intro ensures_bind [OF ensures_note] ensures_bind [OF ensures_cached_copy] ensures_ret)
        (simp_all add: memo_ok_memoize values_ok_set)
  qed
  show ?thesis unfolding settle_error_def
    by (rule ensures_bind [OF ensures_lift], assumption, rule ensures_bind [OF ensures_reads, where Q = "\<lambda>_. True", OF TrueI])
      (use assms in \<open>auto split: option.splits intro!: ensures_ret fallback\<close>)
qed

lemma ensures_settle_key:
  assumes "values_ok bl (fst st)" "flight_ok bl results"
  shows "ensures (memo_ok bl) (settle_key ap bl ctx stale results k st) (\<lambda>st'. values_ok bl (fst st'))"
  unfolding settle_key_def
proof (rule ensures_bind [OF ensures_lift])
  fix r
  assume "require (map_of results k) (key_error k) = Inr r"
  then have "map_of results k = Some (fst r, snd r)" by (simp add: res_iff)
  then have "stale_allowed bl k v" if "fst r = Inr v" for v using flight_ok_map_of [OF assms(2)] that by simp
  with assms(1) show "ensures (memo_ok bl) (case fst r of Inl e \<Rightarrow> settle_error ap bl ctx stale k e st
       | Inr v \<Rightarrow> settle_value k v (snd r) st) (\<lambda>st'. values_ok bl (fst st'))"
    by (auto split: sum.splits intro!: ensures_settle_value ensures_settle_error)
qed

lemma ensures_resolve_step:
  assumes joined: "joined_ok ap bl"
    and resolve: "\<And>k ks lo. keeps (\<lambda>w w'. memo_ok bl w \<longrightarrow> memo_ok bl w') (resolve ks (anc @ [k]) lo)"
  shows "ensures (memo_ok bl) (resolve_step ap bl ctx resolve keys anc lo) (\<lambda>r. values_ok bl (fst r))"
proof -
  let ?S = "\<lambda>sk. values_ok bl (sk_values sk)"
  have sorted: "ensures (memo_ok bl) (fold_act sort_key_in ks no_keys) ?S" for ks
    by (rule ensures_fold) (simp_all add: ensures_sort_key no_keys_def values_ok_def [of bl "[]"])
  have looked: "ensures (memo_ok bl) (access_get_many ap bl ctx ks now policies) (\<lambda>_. True)" for ks now policies
    using memo_frame.keeps_access_get_many by (rule keeps_ensures)
  have judged: "ensures (memo_ok bl) (fold_act (judge_lookup ap bl ctx policies lookups) ks sk) ?S"
    if "policies_for bl ks' = Inr policies" "?S sk" for policies lookups ks ks' sk
    by (rule ensures_fold) (simp_all add: ensures_judge_lookup policies_for_resolved [OF that(1)] that(2))
  have pending: "ensures (memo_ok bl) (resolve_pending ap bl resolve ctx anc lo ks) (flight_ok bl)" for ks
    using joined resolve by (rule ensures_resolve_pending)
  have settled: "ensures (memo_ok bl) (fold_act (settle_key ap bl ctx stale results) ks (vs, [])) (\<lambda>r. values_ok bl (fst r))"
    if "flight_ok bl results" "values_ok bl vs" for stale results ks vs
    by (rule ensures_fold) (simp_all add: ensures_settle_key that)
  have rest: "ensures (memo_ok bl) (resolve_unanswered ap bl resolve ctx anc lo sk) (\<lambda>r. values_ok bl (fst r))" if "?S sk" for sk
    unfolding resolve_unanswered_def using that
    by (auto intro!: ensures_ret ensures_bind [OF pending] settled)
  show ?thesis unfolding resolve_step_def
    by (rule ensures_bind [OF sorted], rule ensures_bind [OF ensures_lift], assumption,
        rule ensures_bind [OF ensures_reads, where Q = "\<lambda>_. True", OF TrueI], rule ensures_bind [OF looked],
        rule ensures_bind [OF judged]) (simp_all add: rest)
qed

lemma ensures_resolve_many:
  assumes joined: "joined_ok ap bl"
  shows "ensures (memo_ok bl) (resolve_many n unreached ap bl ctx keys anc lo) (\<lambda>r. values_ok bl (fst r))"
proof (induction n arbitrary: keys anc lo)
  case 0
  show ?case unfolding resolve_many.simps unreached_def by (rule ensures_throw)
next
  case (Suc n)
  have "keeps (\<lambda>w w'. memo_ok bl w \<longrightarrow> memo_ok bl w') (resolve_many n unreached ap bl ctx ks anc' lo')" for ks anc' lo'
    using Suc by (simp add: keeps_def ensures_def)
  then show ?case by (simp add: ensures_resolve_step joined)
qed


text \<open>A source that fails, and a cache that holds an old value.\<close>

definition fixture_failing_app :: app where
  "fixture_failing_app = (fixture_app 1)\<lparr>ap_fetch := (\<lambda>src k n. Inl (OSError ''down''))\<rparr>"

definition fixture_stale_world :: "memory_cache world" where
  "fixture_stale_world = fixture_world\<lparr>w_cache := fixture_cache None [fixture_value ''quote'' 70 0]\<rparr>"

lemma fixture_stale_delivered:
  "(case fst (resolve_many 2 unreached fixture_failing_app fixture_builder (fixture_context None)
       [fixture_key ''quote''] [] {} fixture_stale_world) of
      Inl e \<Rightarrow> False | Inr (vals, errs) \<Rightarrow> map_option sv_stale (map_of vals (fixture_key ''quote'')) = Some True) = True"
  by code_simp


subsection \<open>A superseded fetch\<close>

text \<open>
  C39: When a fetched value loses against a cached value of higher authority, the cached value is
  delivered and memoized as not stale whatever its age: its age is recorded, but neither its
  lifetime nor the leave to deliver stale values is looked up, and a forced refresh does not
  prevent it.
\<close>

theorem superseded_winner_marked_fresh:
  assumes "adopt_winner ap bl ctx rs written ow w = (Inr ow', w')"
    and "map_of rs (sv_key written) = Some r" "cw_status r = IGNORED_LOWER_AUTHORITY"
  shows "\<exists>v. map_of (ow_resolved ow') (sv_key written) = Some (Inr v) \<and> map_of (rt_memo (w_rt w')) (sv_key written) = Some v
    \<and> \<not> sv_stale v \<and> sv_age_seconds v = max 0 (w_now w - sv_observed_at (cw_value r))"
proof -
  from assms obtain v w1 where copy: "cached_copy ap bl ctx (cw_value r) False [(''superseded_source'', PyStr (sv_source written))] w = (Inr v, w1)"
    and w': "w' = on_rt (memoize (sv_key written) v) w1" and ow': "ow' = resolve_as (sv_key written) (Inr v) ow"
    by (auto simp: adopt_winner_def bind_act_Inr)
  from copy have "clone_snapshot_value (bl_copier bl) (cw_value r) (''cached snapshot value for '' @ key_str (sv_key (cw_value r)))
       \<lparr>cc_fetched_at = Some (w_now w), cc_age_seconds = Some (max 0 (w_now w - sv_observed_at (cw_value r))), cc_stale = Some False,
        cc_from_cache = Some True, cc_latency_ms = Some 0,
        cc_metadata = Some (od_update (sv_metadata (cw_value r)) [(''superseded_source'', PyStr (sv_source written))])\<rparr> = Inr v"
    unfolding cached_copy_def by (rule async_clone_value)
  then have "sv_age_seconds v = max 0 (w_now w - sv_observed_at (cw_value r))" "\<not> sv_stale v"
    by (auto simp: clone_snapshot_value_def mk_snapshot_value_def res_iff Let_def split: if_splits)
  then show ?thesis by (intro exI [of _ v]) (simp add: w' ow' on_rt_def memoize_def resolve_as_def)
qed


definition fixture_superseded :: "(resource_key, cache_write_result) odict" where
  "fixture_superseded = [(fixture_key ''quote'', \<lparr>cw_status = IGNORED_LOWER_AUTHORITY, cw_value = fixture_value ''quote'' 60 1, cw_previous = None\<rparr>)]"

lemma fixture_adopts:
  "isl (fst (adopt_winner (fixture_app 1) fixture_builder (fixture_context None) fixture_superseded (fixture_value ''quote'' 99 0)
     (new_owned [fixture_key ''quote'']) fixture_world)) = False"
  by code_simp

theorem superseded_winner_marked_fresh_witness:
  "\<exists>ow' w' v. adopt_winner (fixture_app 1) fixture_builder (fixture_context None) fixture_superseded (fixture_value ''quote'' 99 0)
       (new_owned [fixture_key ''quote'']) fixture_world = (Inr ow', w')
     \<and> map_of (ow_resolved ow') (fixture_key ''quote'') = Some (Inr v) \<and> \<not> sv_stale v \<and> sv_age_seconds v = 40
     \<and> policy_resolve (bl_policies fixture_builder) (fixture_key ''quote'') = Inr (fixture_policy_ttl 10 60)"
proof -
  obtain ow' w' where run: "adopt_winner (fixture_app 1) fixture_builder (fixture_context None) fixture_superseded
       (fixture_value ''quote'' 99 0) (new_owned [fixture_key ''quote'']) fixture_world = (Inr ow', w')"
    using fixture_adopts
    by (cases "adopt_winner (fixture_app 1) fixture_builder (fixture_context None) fixture_superseded
       (fixture_value ''quote'' 99 0) (new_owned [fixture_key ''quote'']) fixture_world"; cases "fst (adopt_winner (fixture_app 1) fixture_builder (fixture_context None) fixture_superseded
       (fixture_value ''quote'' 99 0) (new_owned [fixture_key ''quote'']) fixture_world)") auto
  have r: "map_of fixture_superseded (sv_key (fixture_value ''quote'' 99 0)) =
      Some \<lparr>cw_status = IGNORED_LOWER_AUTHORITY, cw_value = fixture_value ''quote'' 60 1, cw_previous = None\<rparr>"
    by (simp add: fixture_superseded_def fixture_value_def)
  obtain v where "map_of (ow_resolved ow') (fixture_key ''quote'') = Some (Inr v)" "\<not> sv_stale v" "sv_age_seconds v = 40"
    using superseded_winner_marked_fresh [OF run r] by (auto simp: fixture_value_def fixture_world_def)
  with run show ?thesis by (intro exI conjI) (simp_all add: fixture_builder_def policy_resolve_def)
qed

end
