(* ===== verification/Session.thy ===== *)
theory Session
  imports Stale_Values Request
begin

section \<open>Sessions (orchestration/session.py)\<close>

text \<open>
  A session grows one snapshot over several calls. Its operations hold the lock of the session
  from start to end, so each is one step on the session and the world. The runtime of the
  session is the field \<open>w_rt\<close> of the world; a revalidation resolves under a runtime of its own
  and commits its memo at the end. A snapshot error that an operation raises is the left side
  of its result, since nothing in the library catches it again; every other exception is that of
  the operation. \<open>resolve\<close> is \<^verbatim>\<open>_resolve_many\<close> of the builder (\<open>Resolver\<close>).
\<close>

record session =
  ss_context :: fetch_context
  ss_resources :: "(resource_key, snapshot_value) odict"
  ss_errors :: "(resource_key, py_error) odict"
  ss_closed :: bool

type_synonym 's session_state = "session \<times> 's world"
type_synonym delivery = "build_error + py_error snapshot"

definition new_session :: "fetch_context \<Rightarrow> session" where
  "new_session ctx = \<lparr>ss_context = ctx, ss_resources = [], ss_errors = [], ss_closed = False\<rparr>"

definition in_world :: "('s world, 'a) act \<Rightarrow> ('s session_state, 'a) act" where
  "in_world m st = (case m (snd st) of (r, w) \<Rightarrow> (r, (fst st, w)))"

definition note_world :: "('s world \<Rightarrow> 's world) \<Rightarrow> ('s session_state, unit) act" where
  "note_world f = updates (\<lambda>st. (fst st, f (snd st)))"

definition set_session ::
  "(resource_key, snapshot_value) odict \<Rightarrow> (resource_key, py_error) odict \<Rightarrow> ('s session_state, unit) act" where
  "set_session resources errors = updates (\<lambda>st. ((fst st)\<lparr>ss_resources := resources, ss_errors := errors\<rparr>, snd st))"

definition session_close :: "session \<Rightarrow> session" where
  "session_close ss = ss\<lparr>ss_closed := True\<rparr>"

definition ensure_open :: "('s session_state, unit) act" where
  "ensure_open st =
     (if ss_closed (fst st) then (Inl (SessionClosedError ''SnapshotSession is closed''), st)
      else if w_builder_closed (snd st) then (Inl (RuntimeError ''SnapshotBuilder is closed''), st)
      else (Inr (), st))"

definition normalize_keys :: "resource_key list \<Rightarrow> py_error + resource_key list" where
  "normalize_keys keys =
     (if fromkeys keys = [] then Inl (ArgError (ValueError ''at least one resource key is required''))
      else Inr (fromkeys keys))"

subsection \<open>Delivery\<close>

definition deliver_item :: "'s builder \<Rightarrow> resource_key \<times> snapshot_value \<Rightarrow> py_error + resource_key \<times> snapshot_value" where
  "deliver_item bl item =
     res_bind (clone_snapshot_value (bl_copier bl) (snd item) (''snapshot delivery for '' @ key_str (fst item)) no_changes)
       (\<lambda>v. Inr (fst item, v))"

definition session_diagnostics ::
  "(resource_key, snapshot_value) odict \<Rightarrow> (resource_key, py_error) odict \<Rightarrow> 's world \<Rightarrow> snapshot_diagnostics" where
  "session_diagnostics resources errors w =
     collector_snapshot (w_diag w) (w_mono w) (length resources) (length errors) (map (\<lambda>p. sv_observed_at (snd p)) resources)"

definition make_snapshot ::
  "fetch_context \<Rightarrow> (resource_key \<times> snapshot_value) list \<Rightarrow> (resource_key, py_error) odict \<Rightarrow> snapshot_diagnostics
    \<Rightarrow> py_error snapshot" where
  "make_snapshot ctx copied errors diagnostics =
     \<lparr>sn_snapshot_id = fc_snapshot_id ctx, sn_created_at = fc_requested_at ctx, sn_resources = od_of copied,
      sn_errors = errors, sn_diagnostics = diagnostics\<rparr>"

definition snapshot_state ::
  "app \<Rightarrow> 's builder \<Rightarrow> fetch_context \<Rightarrow> (resource_key, snapshot_value) odict \<Rightarrow> (resource_key, py_error) odict \<Rightarrow> bool
    \<Rightarrow> ('s world, py_error snapshot) act" where
  "snapshot_state ap bl ctx resources errors enforce_deadline =
     bind_act (reads (session_diagnostics resources errors)) (\<lambda>diagnostics.
     bind_act (copy_map (ap_delay ap) (bl_copy bl) (deliver_item bl)
                 (if enforce_deadline then fc_deadline_monotonic ctx else None) ''delivering the snapshot'' resources) (\<lambda>copied.
       ret (make_snapshot ctx copied errors diagnostics)))"

text \<open>The synchronous \<^verbatim>\<open>snapshot()\<close>.\<close>

definition session_snapshot :: "'s builder \<Rightarrow> ('s session_state, py_error snapshot) act" where
  "session_snapshot bl st =
     (let (ss, w) = st
      in case res_map (deliver_item bl) (ss_resources ss) of
           Inl e \<Rightarrow> (Inl e, st)
         | Inr copied \<Rightarrow>
             (Inr (make_snapshot (ss_context ss) copied (ss_errors ss) (session_diagnostics (ss_resources ss) (ss_errors ss) w)), st))"

subsection \<open>Records of what happened\<close>

definition record_copy_deadline :: "session \<Rightarrow> string \<Rightarrow> 's world \<Rightarrow> 's world" where
  "record_copy_deadline ss phase w =
     emit [MetricIncrement ''payload_copy_deadline_total'' [(''phase'', phase)],
           EventEmit ''payload_copy_deadline_exceeded''
             [(''snapshot_id'', PyStr (fc_snapshot_id (ss_context ss))), (''phase'', PyStr phase)]]
       (count_health record_deadline_exceeded w)"

definition record_resolve ::
  "session \<Rightarrow> resource_key list \<Rightarrow> (resource_key, py_error) odict \<Rightarrow> nat \<Rightarrow> bool \<Rightarrow> bool \<Rightarrow> 's world \<Rightarrow> 's world" where
  "record_resolve ss requested requested_errors total_resources strict retry_errors =
     emit [MetricIncrement ''snapshot_session_resolve_total''
             [(''status'', if requested_errors \<noteq> [] then ''error'' else ''success'')],
           EventEmit ''snapshot_session_resolved''
             [(''snapshot_id'', PyStr (fc_snapshot_id (ss_context ss))),
              (''requested'', PyInt (int (length requested))),
              (''resolved'', PyInt (int (length (filter (\<lambda>k. map_of requested_errors k = None) requested)))),
              (''failed'', PyInt (int (length requested_errors))),
              (''total_resources'', PyInt (int total_resources)),
              (''strict'', PyBool strict), (''retry_errors'', PyBool retry_errors)]]"

definition deadline_resolution_errors :: "resource_key list \<Rightarrow> py_error \<Rightarrow> (resource_key, py_error) odict" where
  "deadline_resolution_errors keys e =
     (let failure = \<lparr>sf_source = ''snapshot'', sf_error_type = error_type e, sf_message = error_str e, sf_attempts = 1\<rparr>
      in od_of (map (\<lambda>k. (k, ResourceResolutionError k [failure])) keys))"

fun mentions_deadline :: "py_error \<Rightarrow> bool" where
  "mentions_deadline (SnapshotDeadlineExceededError m) = True"
| "mentions_deadline (ResourceResolutionError k failures) =
     list_ex (\<lambda>f. sf_error_type f = ''SnapshotDeadlineExceededError'') failures"
| "mentions_deadline _ = False"

definition errors_include_deadline :: "(resource_key, py_error) odict \<Rightarrow> bool" where
  "errors_include_deadline errors = list_ex (\<lambda>p. mentions_deadline (snd p)) errors"

definition errors_of :: "(resource_key, py_error) odict \<Rightarrow> resource_key list \<Rightarrow> (resource_key, py_error) odict" where
  "errors_of errors keys = List.map_filter (\<lambda>k. map_option (\<lambda>e. (k, e)) (map_of errors k)) keys"

subsection \<open>Resolving a stage\<close>

text \<open>The \<^verbatim>\<open>except SnapshotDeadlineExceededError\<close> of \<^verbatim>\<open>resolve\<close>.\<close>

definition resolve_late ::
  "app \<Rightarrow> 's builder \<Rightarrow> session \<Rightarrow> resource_key list \<Rightarrow> resource_key list \<Rightarrow> bool \<Rightarrow> bool
    \<Rightarrow> (resource_key, snapshot_value) odict \<Rightarrow> (resource_key, py_error) odict \<Rightarrow> py_error \<Rightarrow> ('s session_state, delivery) act" where
  "resolve_late ap bl ss requested pending strict retry_errors resources errors e =
     (if \<not> is_deadline_exceeded e then throw e
      else
        let deadline_errors = deadline_resolution_errors requested e
        in bind_act (note_world (record_copy_deadline ss ''session_resolve'')) (\<lambda>_.
           bind_act (note_world (record_resolve ss requested deadline_errors (length resources) strict retry_errors)) (\<lambda>_.
             if strict then ret (Inl (mk_snapshot_build_error deadline_errors None))
             else
               let errors' = od_update errors (deadline_resolution_errors pending e)
               in bind_act (set_session resources errors') (\<lambda>_.
                  bind_act (in_world (snapshot_state ap bl (ss_context ss) resources errors' False)) (\<lambda>snapshot.
                    ret (Inr snapshot))))))"

definition commit_stage ::
  "session \<Rightarrow> resource_key list \<Rightarrow> bool \<Rightarrow> bool \<Rightarrow> (resource_key, snapshot_value) odict \<Rightarrow> (resource_key, py_error) odict
    \<Rightarrow> py_error snapshot \<Rightarrow> ('s session_state, delivery) act" where
  "commit_stage ss requested strict retry_errors resources errors snapshot =
     (let requested_errors = errors_of errors requested
      in bind_act (set_session resources errors) (\<lambda>_.
         bind_act (note_world (record_resolve ss requested requested_errors (length resources) strict retry_errors)) (\<lambda>_.
           if requested_errors \<noteq> [] \<and> strict then ret (Inl (mk_snapshot_build_error requested_errors (Some snapshot)))
           else ret (Inr snapshot))))"

definition retained_errors :: "session \<Rightarrow> resource_key list \<Rightarrow> bool \<Rightarrow> (resource_key, py_error) odict" where
  "retained_errors ss requested retry_errors =
     (if retry_errors then filter (\<lambda>p. fst p \<notin> set requested) (ss_errors ss) else ss_errors ss)"

definition pending_keys :: "session \<Rightarrow> resource_key list \<Rightarrow> bool \<Rightarrow> resource_key list" where
  "pending_keys ss requested retry_errors =
     filter (\<lambda>k. map_of (ss_resources ss) k = None \<and> map_of (retained_errors ss requested retry_errors) k = None) requested"

definition resolve_stage ::
  "app \<Rightarrow> 's builder \<Rightarrow> 's resolver \<Rightarrow> session \<Rightarrow> resource_key list \<Rightarrow> bool \<Rightarrow> bool \<Rightarrow> ('s session_state, delivery) act" where
  "resolve_stage ap bl resolve ss requested strict retry_errors =
     (let errors = retained_errors ss requested retry_errors; pending = pending_keys ss requested retry_errors;
          late = resolve_late ap bl ss requested pending strict retry_errors
      in handle (in_world (if pending = [] then ret ([], []) else resolve pending [] {}))
           (\<lambda>answers.
              let resources' = od_update (ss_resources ss) (fst answers); errors' = od_update errors (snd answers)
              in handle (in_world (snapshot_state ap bl (ss_context ss) resources' errors'
                                     (\<not> errors_include_deadline (errors_of errors' requested))))
                   (commit_stage ss requested strict retry_errors resources' errors') (late resources' errors'))
           (late (ss_resources ss) errors))"

definition session_resolve ::
  "app \<Rightarrow> 's builder \<Rightarrow> 's resolver \<Rightarrow> resource_key list \<Rightarrow> bool \<Rightarrow> bool \<Rightarrow> ('s session_state, delivery) act" where
  "session_resolve ap bl resolve keys strict retry_errors =
     bind_act ensure_open (\<lambda>_.
     bind_act (lift_res (normalize_keys keys)) (\<lambda>requested.
     bind_act (note_world (count_diag (record_requested requested))) (\<lambda>_.
     bind_act (reads fst) (\<lambda>ss. resolve_stage ap bl resolve ss requested strict retry_errors))))"

subsection \<open>Requests\<close>

text \<open>
  The policies are looked up for the keys with a value, in order, and the lookup may raise; the
  evaluation that uses them is pure.
\<close>

definition acceptance_violations ::
  "'s builder \<Rightarrow> (resource_key, snapshot_value) odict \<Rightarrow> resource_key list \<Rightarrow> resource_key list \<Rightarrow> acceptance_policy \<Rightarrow> rat
    \<Rightarrow> py_error + acceptance_violation list" where
  "acceptance_violations bl resources required optional policy now =
     (let keys = filter (\<lambda>k. map_of resources k \<noteq> None) (participating_keys policy (directly_enforced policy required optional))
      in res_bind (policies_for bl keys) (\<lambda>policies.
           lift_arg (find_snapshot_acceptance_violations resources required optional policy (NFloat (Fin now))
             (\<lambda>k. the (map_of policies k)))))"

definition acceptance_error ::
  "session \<Rightarrow> acceptance_violation list \<Rightarrow> py_error snapshot \<Rightarrow> ('s session_state, delivery) act" where
  "acceptance_error ss violations snapshot =
     (let reasons = sort (fromkeys (map (\<lambda>v. reason_value (av_reason v)) violations))
      in bind_act (note_world (emit ([MetricIncrement ''snapshot_acceptance_total'' [(''status'', ''error'')]]
           @ map (\<lambda>r. MetricIncrement ''snapshot_acceptance_violation_total'' [(''reason'', r)]) reasons
           @ [EventEmit ''snapshot_acceptance_failed''
                [(''snapshot_id'', PyStr (fc_snapshot_id (ss_context ss))), (''violations'', PyInt (int (length violations))),
                 (''reasons'', PyStr (str_join '','' reasons))]]))) (\<lambda>_.
         bind_act (lift_res (lift_arg (mk_snapshot_acceptance_error violations (Some snapshot)))) (\<lambda>e. ret (Inl e))))"

definition consistency_error ::
  "session \<Rightarrow> skew_violation \<Rightarrow> py_error snapshot \<Rightarrow> ('s session_state, delivery) act" where
  "consistency_error ss v snapshot =
     bind_act (note_world (emit [MetricIncrement ''snapshot_consistency_total''
                                   [(''status'', ''error''), (''rule'', ''observation_skew'')],
          EventEmit ''snapshot_consistency_failed''
            [(''snapshot_id'', PyStr (fc_snapshot_id (ss_context ss))),
             (''resources'', PyInt (int (length (kv_keys v)))),
             (''oldest_resource'', PyStr (key_str (kv_oldest_key v))),
             (''newest_resource'', PyStr (key_str (kv_newest_key v))),
             (''observation_skew_ms'', PyFloat (Fin (kv_observation_skew_seconds v * 1000))),
             (''max_observation_skew_ms'', PyFloat (Fin (kv_max_observation_skew_seconds v * 1000)))]])) (\<lambda>_.
       ret (Inl (mk_snapshot_consistency_error v (Some snapshot))))"

definition check_acceptance ::
  "'s builder \<Rightarrow> session \<Rightarrow> snapshot_request \<Rightarrow> py_error snapshot \<Rightarrow> ('s session_state, delivery) act" where
  "check_acceptance bl ss request snapshot =
     (case sr_acceptance_policy request of
        None \<Rightarrow> ret (Inr snapshot)
      | Some policy \<Rightarrow>
          bind_act (reads (\<lambda>st. w_now (snd st))) (\<lambda>now.
          bind_act (lift_res (acceptance_violations bl (sn_resources snapshot) (sr_required request) (sr_optional request) policy now))
            (\<lambda>violations.
               if violations \<noteq> [] then acceptance_error ss violations snapshot
               else bind_act (note_world (emit [MetricIncrement ''snapshot_acceptance_total'' [(''status'', ''success'')]]))
                      (\<lambda>_. ret (Inr snapshot)))))"

definition check_request ::
  "'s builder \<Rightarrow> session \<Rightarrow> snapshot_request \<Rightarrow> py_error snapshot \<Rightarrow> ('s session_state, delivery) act" where
  "check_request bl ss request snapshot =
     (let required_errors = errors_of (sn_errors snapshot) (sr_required request)
      in if required_errors \<noteq> [] then ret (Inl (mk_snapshot_build_error required_errors (Some snapshot)))
         else
           case (case sr_consistency_policy request of
                   None \<Rightarrow> None
                 | Some policy \<Rightarrow>
                     find_observation_skew_violation (sn_resources snapshot)
                       (if cp_include_optional_resources policy then sr_keys request else sr_required request) policy) of
             Some v \<Rightarrow> consistency_error ss v snapshot
           | None \<Rightarrow> check_acceptance bl ss request snapshot)"

definition session_resolve_request ::
  "app \<Rightarrow> 's builder \<Rightarrow> 's resolver \<Rightarrow> snapshot_request \<Rightarrow> bool \<Rightarrow> ('s session_state, delivery) act" where
  "session_resolve_request ap bl resolve request retry_errors =
     bind_act (session_resolve ap bl resolve (sr_keys request) False retry_errors) (\<lambda>d.
     bind_act (reads fst) (\<lambda>ss.
       case d of
         Inl e \<Rightarrow> ret (Inl e)
       | Inr snapshot \<Rightarrow> check_request bl ss request snapshot))"

subsection \<open>What a revalidation affects\<close>

text \<open>One pass over the memo, and passes until nothing changes.\<close>

fun affected_pass :: "(resource_key, snapshot_value) odict \<Rightarrow> resource_key set \<Rightarrow> resource_key set" where
  "affected_pass [] A = A"
| "affected_pass ((k, v) # rest) A =
     affected_pass rest
       (if k \<in> A then A
        else if list_ex (\<lambda>d. d \<in> A) (od_keys (sv_dependency_versions v)) then insert k A else A)"

lemma affected_pass_grows: "A \<subseteq> affected_pass memo A"
proof (induction memo A rule: affected_pass.induct)
  case (2 k v rest A)
  then show ?case by (cases "k \<in> A"; cases "list_ex (\<lambda>d. d \<in> A) (od_keys (sv_dependency_versions v))") auto
qed simp

lemma affected_pass_keys: "affected_pass memo A \<subseteq> A \<union> set (od_keys memo)"
proof (induction memo A rule: affected_pass.induct)
  case (2 k v rest A)
  then show ?case by (cases "k \<in> A"; cases "list_ex (\<lambda>d. d \<in> A) (od_keys (sv_dependency_versions v))") auto
qed simp

function affected_from :: "(resource_key, snapshot_value) odict \<Rightarrow> resource_key set \<Rightarrow> resource_key set" where
  "affected_from memo A = (if affected_pass memo A = A then A else affected_from memo (affected_pass memo A))"
  by auto

termination
proof (relation "measure (\<lambda>(memo, A). card (set (od_keys memo) - A))")
  fix memo :: "(resource_key, snapshot_value) odict" and A
  assume "affected_pass memo A \<noteq> A"
  then have "set (od_keys memo) - affected_pass memo A \<subset> set (od_keys memo) - A"
    using affected_pass_grows [of A memo] affected_pass_keys [of memo A] by blast
  then show "((memo, affected_pass memo A), memo, A) \<in> measure (\<lambda>(memo, A). card (set (od_keys memo) - A))"
    by (simp add: psubset_card_mono del: set_map)
qed simp

declare affected_from.simps [simp del]

definition affected_keys :: "resource_key list \<Rightarrow> (resource_key, snapshot_value) odict \<Rightarrow> resource_key set" where
  "affected_keys requested memo = affected_from memo (set requested)"

subsection \<open>Other sources after inconsistent observations\<close>

text \<open>Resolution under a runtime of its own, which is handed back with the result.\<close>

definition with_runtime :: "resolution_runtime \<Rightarrow> ('s world, 'a) act \<Rightarrow> ('s world, 'a \<times> resolution_runtime) act" where
  "with_runtime rt m w =
     (case m (w\<lparr>w_rt := rt\<rparr>) of
        (Inl e, w') \<Rightarrow> (Inl e, w'\<lparr>w_rt := w_rt w\<rparr>)
      | (Inr x, w') \<Rightarrow> (Inr (x, w_rt w'), w'\<lparr>w_rt := w_rt w\<rparr>))"

text \<open>What a round of the fallback starts from: the values, their runtime, and the pairs tried before.\<close>

record fallback =
  fb_values :: "(resource_key, snapshot_value) odict"
  fb_runtime :: resolution_runtime
  fb_tried :: "(resource_key \<times> string) list"

definition retry_runtime :: "resolution_runtime \<Rightarrow> resource_key set \<Rightarrow> resource_key \<Rightarrow> string \<Rightarrow> arg_error + resolution_runtime" where
  "retry_runtime rt affected oldest excluded =
     exclude_source oldest excluded
       \<lparr>rt_memo = filter (\<lambda>p. fst p \<notin> affected) (rt_memo rt), rt_cache_stale_results = False,
        rt_force_refresh_keys = affected, rt_excluded_sources = copied_exclusions rt, rt_cache_source_results = False\<rparr>"

definition retry_targets :: "resource_key \<Rightarrow> resource_key set \<Rightarrow> resource_key list \<Rightarrow> resource_key list" where
  "retry_targets oldest affected targets =
     (let ks = filter (\<lambda>k. k \<in> affected) targets in if oldest \<in> set ks then ks else oldest # ks)"

definition fallback_metric :: "string \<Rightarrow> obs" where
  "fallback_metric status = MetricIncrement ''snapshot_consistency_fallback_total'' [(''status'', status)]"

definition note_fallback_started :: "fetch_context \<Rightarrow> skew_violation \<Rightarrow> string \<Rightarrow> 's world \<Rightarrow> 's world" where
  "note_fallback_started ctx v excluded =
     emit [fallback_metric ''attempt'',
           EventEmit ''snapshot_consistency_fallback_started''
             [(''snapshot_id'', PyStr (fc_snapshot_id ctx)), (''resource'', PyStr (key_str (kv_oldest_key v))),
              (''excluded_source'', PyStr excluded),
              (''observation_skew_ms'', PyFloat (Fin (kv_observation_skew_seconds v * 1000))),
              (''max_observation_skew_ms'', PyFloat (Fin (kv_max_observation_skew_seconds v * 1000)))]]"

definition note_fallback_exhausted :: "fetch_context \<Rightarrow> skew_violation \<Rightarrow> string \<Rightarrow> nat \<Rightarrow> 's world \<Rightarrow> 's world" where
  "note_fallback_exhausted ctx v excluded failed =
     emit [fallback_metric ''exhausted'',
           EventEmit ''snapshot_consistency_fallback_exhausted''
             [(''snapshot_id'', PyStr (fc_snapshot_id ctx)), (''resource'', PyStr (key_str (kv_oldest_key v))),
              (''excluded_source'', PyStr excluded), (''failed_resources'', PyInt (int failed))]]"

definition note_fallback_succeeded :: "fetch_context \<Rightarrow> skew_violation \<Rightarrow> string \<Rightarrow> snapshot_value \<Rightarrow> 's world \<Rightarrow> 's world" where
  "note_fallback_succeeded ctx v excluded replacement =
     emit [fallback_metric ''success'',
           EventEmit ''snapshot_consistency_fallback_succeeded''
             [(''snapshot_id'', PyStr (fc_snapshot_id ctx)), (''resource'', PyStr (key_str (kv_oldest_key v))),
              (''excluded_source'', PyStr excluded), (''replacement_source'', PyStr (sv_source replacement)),
              (''replacement_observed_at'', PyFloat (Fin (sv_observed_at replacement)))]]"

text \<open>A round either ends the loop, or hands on the next violation.\<close>

datatype fallback_end = Ended fallback "skew_violation option" | Again fallback skew_violation

definition fallback_call ::
  "'s resolver \<Rightarrow> fetch_context \<Rightarrow> consistency_policy \<Rightarrow> resource_key list \<Rightarrow> resource_key list \<Rightarrow> fallback \<Rightarrow> skew_violation
    \<Rightarrow> string \<Rightarrow> ('s world, fallback_end) act" where
  "fallback_call resolve ctx policy requested targets fb v excluded =
     (let oldest = kv_oldest_key v; affected = affected_keys [oldest] (rt_memo (fb_runtime fb));
          fb' = fb\<lparr>fb_tried := fb_tried fb @ [(oldest, excluded)]\<rparr>
      in bind_act (lift_res (lift_arg (retry_runtime (fb_runtime fb) affected oldest excluded))) (\<lambda>rt.
         bind_act (updates (note_fallback_started ctx v excluded)) (\<lambda>_.
         bind_act (with_runtime rt (resolve (retry_targets oldest affected targets) [] {})) (\<lambda>((values, errors), rt').
           case (if errors \<noteq> [] then None else map_of values oldest) of
             None \<Rightarrow> bind_act (updates (note_fallback_exhausted ctx v excluded (length errors))) (\<lambda>_. ret (Ended fb' (Some v)))
           | Some replacement \<Rightarrow>
               let fb'' = fb'\<lparr>fb_values := od_update (fb_values fb) values, fb_runtime := rt'\<rparr>
               in case find_observation_skew_violation (fb_values fb'') requested policy of
                    Some v' \<Rightarrow> ret (Again fb'' v')
                  | None \<Rightarrow> bind_act (updates (note_fallback_succeeded ctx v excluded replacement)) (\<lambda>_. ret (Ended fb'' None))))))"

definition fallback_round ::
  "'s resolver \<Rightarrow> fetch_context \<Rightarrow> consistency_policy \<Rightarrow> resource_key list \<Rightarrow> resource_key list \<Rightarrow> fallback \<Rightarrow> skew_violation
    \<Rightarrow> ('s world, fallback_end) act" where
  "fallback_round resolve ctx policy requested targets fb v =
     (case map_of (fb_values fb) (kv_oldest_key v) of
        None \<Rightarrow> ret (Ended fb (Some v))
      | Some oldest_value \<Rightarrow>
          let excluded = strip (sv_source oldest_value)
          in if excluded = '''' \<or> (kv_oldest_key v, excluded) \<in> set (fb_tried fb) then ret (Ended fb (Some v))
             else fallback_call resolve ctx policy requested targets fb v excluded)"

text \<open>
  The rounds: \<open>n\<close> bounds their number. The loop of the code has no bound of its own; it stops
  at a pair it has tried, so it ends when the values come from finitely many sources.
\<close>

primrec fallback_rounds ::
  "nat \<Rightarrow> 's resolver \<Rightarrow> fetch_context \<Rightarrow> consistency_policy \<Rightarrow> resource_key list \<Rightarrow> resource_key list \<Rightarrow> fallback \<Rightarrow> skew_violation
    \<Rightarrow> ('s world, fallback_end) act" where
  "fallback_rounds 0 resolve ctx policy requested targets fb v = ret (Again fb v)"
| "fallback_rounds (Suc n) resolve ctx policy requested targets fb v =
     bind_act (fallback_round resolve ctx policy requested targets fb v) (\<lambda>r.
       case r of
         Ended fb' result \<Rightarrow> ret (Ended fb' result)
       | Again fb' v' \<Rightarrow> fallback_rounds n resolve ctx policy requested targets fb' v')"

definition retry_inconsistent_sources ::
  "nat \<Rightarrow> 's resolver \<Rightarrow> fetch_context \<Rightarrow> consistency_policy \<Rightarrow> resource_key list \<Rightarrow> resource_key list
    \<Rightarrow> (resource_key, snapshot_value) odict \<Rightarrow> resolution_runtime \<Rightarrow> skew_violation
    \<Rightarrow> ('s world, (resource_key, snapshot_value) odict \<times> resolution_runtime \<times> skew_violation option) act" where
  "retry_inconsistent_sources n resolve ctx policy requested targets values rt v =
     bind_act (fallback_rounds n resolve ctx policy requested targets \<lparr>fb_values = values, fb_runtime = rt, fb_tried = []\<rparr> v)
       (\<lambda>r. case r of
              Ended fb result \<Rightarrow> ret (fb_values fb, fb_runtime fb, result)
            | Again fb v' \<Rightarrow> throw (RuntimeError ''more rounds than the bound''))"

subsection \<open>Revalidation\<close>

record revalidation =
  rv_requested :: "resource_key list"
  rv_affected :: "resource_key set"
  rv_targets :: "resource_key list"
  rv_strict :: bool
  rv_force_refresh :: bool

definition plan_revalidation :: "session \<Rightarrow> resolution_runtime \<Rightarrow> resource_key list \<Rightarrow> bool \<Rightarrow> bool \<Rightarrow> revalidation" where
  "plan_revalidation ss rt requested strict force =
     (let affected = affected_keys requested (rt_memo rt);
          dependents = filter (\<lambda>k. k \<in> affected \<and> k \<notin> set requested) (od_keys (ss_resources ss))
      in \<lparr>rv_requested = requested, rv_affected = affected, rv_targets = fromkeys (requested @ dependents),
          rv_strict = strict, rv_force_refresh = force\<rparr>)"

definition staging_runtime :: "resolution_runtime \<Rightarrow> revalidation \<Rightarrow> resolution_runtime" where
  "staging_runtime rt rv =
     \<lparr>rt_memo = filter (\<lambda>p. fst p \<notin> rv_affected rv) (rt_memo rt), rt_cache_stale_results = (\<not> rv_force_refresh rv),
      rt_force_refresh_keys = (if rv_force_refresh rv then rv_affected rv else {}),
      rt_excluded_sources = [], rt_cache_source_results = True\<rparr>"

datatype check_failed = NoCheck | ConsistencyCheck | AcceptanceCheck

definition note_revalidation ::
  "session \<Rightarrow> revalidation \<Rightarrow> nat \<Rightarrow> bool \<Rightarrow> nat \<Rightarrow> check_failed \<Rightarrow> ('s session_state, unit) act" where
  "note_revalidation ss rv failed committed refreshed check =
     note_world (\<lambda>w.
       emit [MetricIncrement ''snapshot_session_revalidate_total'' [(''status'', if committed then ''success'' else ''error'')],
             EventEmit ''snapshot_session_revalidated''
               [(''snapshot_id'', PyStr (fc_snapshot_id (ss_context ss))),
                (''requested'', PyInt (int (length (rv_requested rv)))), (''affected'', PyInt (int (card (rv_affected rv)))),
                (''refreshed'', PyInt (int refreshed)), (''failed'', PyInt (int failed)),
                (''committed'', PyBool committed), (''retained_previous'', PyBool (\<not> committed)),
                (''strict'', PyBool (rv_strict rv)), (''force_refresh'', PyBool (rv_force_refresh rv)),
                (''consistency_failed'', PyBool (check = ConsistencyCheck)),
                (''acceptance_failed'', PyBool (check = AcceptanceCheck))]]
         (count_health (record_revalidation (\<not> committed)) w))"

definition all_keys_failed :: "resource_key list \<Rightarrow> py_error \<Rightarrow> build_error" where
  "all_keys_failed keys e = mk_snapshot_build_error (map (\<lambda>k. (k, e)) keys) None"

text \<open>A deadline that is exceeded before the commit.\<close>

definition revalidation_late :: "session \<Rightarrow> revalidation \<Rightarrow> string \<Rightarrow> py_error \<Rightarrow> ('s session_state, delivery) act" where
  "revalidation_late ss rv phase e =
     (if \<not> is_deadline_exceeded e then throw e
      else bind_act (note_world (record_copy_deadline ss phase)) (\<lambda>_.
           bind_act (note_revalidation ss rv (length (rv_requested rv)) False 0 NoCheck) (\<lambda>_.
             ret (Inl (all_keys_failed (rv_requested rv) e)))))"

text \<open>The retained state is delivered with a failure.\<close>

definition deliver_retained ::
  "app \<Rightarrow> 's builder \<Rightarrow> session \<Rightarrow> revalidation \<Rightarrow> (resource_key, py_error) odict \<Rightarrow> bool
    \<Rightarrow> (py_error snapshot \<Rightarrow> ('s session_state, delivery) act) \<Rightarrow> ('s session_state, delivery) act" where
  "deliver_retained ap bl ss rv errors enforce refuse =
     handle (in_world (snapshot_state ap bl (ss_context ss) (ss_resources ss) errors enforce)) refuse
       (\<lambda>e. if \<not> is_deadline_exceeded e then throw e
            else bind_act (note_world (record_copy_deadline ss ''session_revalidate_delivery'')) (\<lambda>_.
                   ret (Inl (all_keys_failed (rv_requested rv) e))))"

definition revalidation_failed ::
  "app \<Rightarrow> 's builder \<Rightarrow> session \<Rightarrow> revalidation \<Rightarrow> (resource_key, py_error) odict \<Rightarrow> ('s session_state, delivery) act" where
  "revalidation_failed ap bl ss rv errors =
     bind_act (note_revalidation ss rv (length errors) False 0 NoCheck) (\<lambda>_.
       deliver_retained ap bl ss rv (od_update (ss_errors ss) errors) (\<not> errors_include_deadline errors)
         (\<lambda>snapshot. ret (if rv_strict rv then Inl (mk_snapshot_build_error errors (Some snapshot)) else Inr snapshot)))"

definition revalidation_inconsistent ::
  "app \<Rightarrow> 's builder \<Rightarrow> session \<Rightarrow> revalidation \<Rightarrow> skew_violation \<Rightarrow> ('s session_state, delivery) act" where
  "revalidation_inconsistent ap bl ss rv v =
     bind_act (note_revalidation ss rv 0 False 0 ConsistencyCheck) (\<lambda>_.
       deliver_retained ap bl ss rv (ss_errors ss) True (consistency_error ss v))"

definition revalidation_unacceptable ::
  "app \<Rightarrow> 's builder \<Rightarrow> session \<Rightarrow> revalidation \<Rightarrow> acceptance_violation list \<Rightarrow> ('s session_state, delivery) act" where
  "revalidation_unacceptable ap bl ss rv violations =
     bind_act (note_revalidation ss rv 0 False 0 AcceptanceCheck) (\<lambda>_.
       deliver_retained ap bl ss rv (ss_errors ss) True (acceptance_error ss violations))"

text \<open>The new values of the visible targets.\<close>

fun replace_values ::
  "resource_key list \<Rightarrow> (resource_key, snapshot_value) odict \<Rightarrow> (resource_key, snapshot_value) odict
    \<Rightarrow> py_error + (resource_key, snapshot_value) odict" where
  "replace_values [] vs rs = Inr rs"
| "replace_values (k # ks) vs rs =
     (if map_of rs k = None then replace_values ks vs rs
      else res_bind (require (map_of vs k) (key_error k)) (\<lambda>v. replace_values ks vs (od_set k v rs)))"

definition commit_revalidation ::
  "app \<Rightarrow> 's builder \<Rightarrow> session \<Rightarrow> revalidation \<Rightarrow> acceptance_policy option \<Rightarrow> (resource_key, snapshot_value) odict
    \<Rightarrow> (resource_key, py_error) odict \<Rightarrow> nat \<Rightarrow> resolution_runtime \<Rightarrow> ('s session_state, delivery) act" where
  "commit_revalidation ap bl ss rv acceptance resources errors refreshed staged =
     handle (in_world (snapshot_state ap bl (ss_context ss) resources errors True))
       (\<lambda>snapshot.
          bind_act (note_world (on_rt (\<lambda>rt. rt\<lparr>rt_memo := rt_memo staged\<rparr>))) (\<lambda>_.
          bind_act (set_session resources errors) (\<lambda>_.
          bind_act (if acceptance = None then ret ()
                    else note_world (emit [MetricIncrement ''snapshot_acceptance_total'' [(''status'', ''success'')]])) (\<lambda>_.
          bind_act (note_revalidation ss rv 0 True refreshed NoCheck) (\<lambda>_. ret (Inr snapshot))))))
       (revalidation_late ss rv ''session_revalidate_delivery'')"

definition revalidation_resolved ::
  "app \<Rightarrow> 's builder \<Rightarrow> session \<Rightarrow> revalidation \<Rightarrow> acceptance_policy option \<Rightarrow> (resource_key, snapshot_value) odict
    \<Rightarrow> resolution_runtime \<Rightarrow> ('s session_state, delivery) act" where
  "revalidation_resolved ap bl ss rv acceptance values staged =
     bind_act (lift_res (replace_values (rv_targets rv) values (ss_resources ss))) (\<lambda>resources.
       let errors = filter (\<lambda>p. fst p \<notin> set (rv_targets rv)) (ss_errors ss);
           commit = commit_revalidation ap bl ss rv acceptance resources errors (length values) staged
       in case acceptance of
            None \<Rightarrow> commit
          | Some policy \<Rightarrow>
              bind_act (reads (\<lambda>st. w_now (snd st))) (\<lambda>now.
              bind_act (lift_res (acceptance_violations bl resources (rv_requested rv) [] policy now)) (\<lambda>violations.
                if violations \<noteq> [] then revalidation_unacceptable ap bl ss rv violations else commit)))"

definition revalidation_answered ::
  "nat \<Rightarrow> app \<Rightarrow> 's builder \<Rightarrow> 's resolver \<Rightarrow> session \<Rightarrow> revalidation \<Rightarrow> consistency_policy option \<Rightarrow> acceptance_policy option
    \<Rightarrow> (resource_key, snapshot_value) odict \<Rightarrow> resolution_runtime \<Rightarrow> ('s session_state, delivery) act" where
  "revalidation_answered n ap bl resolve ss rv consistency acceptance values staged =
     (case consistency of
        None \<Rightarrow> revalidation_resolved ap bl ss rv acceptance values staged
      | Some policy \<Rightarrow>
          (case find_observation_skew_violation values (rv_requested rv) policy of
             None \<Rightarrow> revalidation_resolved ap bl ss rv acceptance values staged
           | Some v \<Rightarrow>
               if \<not> rv_force_refresh rv then revalidation_inconsistent ap bl ss rv v
               else
                 handle (in_world (retry_inconsistent_sources n resolve (ss_context ss) policy (rv_requested rv) (rv_targets rv)
                                     values staged v))
                   (\<lambda>(values', staged', result).
                      case result of
                        Some v' \<Rightarrow> revalidation_inconsistent ap bl ss rv v'
                      | None \<Rightarrow> revalidation_resolved ap bl ss rv acceptance values' staged')
                   (revalidation_late ss rv ''session_consistency_fallback'')))"

definition revalidate_stage ::
  "nat \<Rightarrow> app \<Rightarrow> 's builder \<Rightarrow> 's resolver \<Rightarrow> session \<Rightarrow> revalidation \<Rightarrow> consistency_policy option \<Rightarrow> acceptance_policy option
    \<Rightarrow> resolution_runtime \<Rightarrow> ('s session_state, delivery) act" where
  "revalidate_stage n ap bl resolve ss rv consistency acceptance staging =
     handle (in_world (with_runtime staging (resolve (rv_targets rv) [] {})))
       (\<lambda>((values, errors), staged).
          if errors \<noteq> [] then revalidation_failed ap bl ss rv errors
          else revalidation_answered n ap bl resolve ss rv consistency acceptance values staged)
       (revalidation_late ss rv ''session_revalidate'')"

definition session_revalidate ::
  "nat \<Rightarrow> app \<Rightarrow> 's builder \<Rightarrow> 's resolver \<Rightarrow> resource_key list \<Rightarrow> bool \<Rightarrow> bool \<Rightarrow> consistency_policy option
    \<Rightarrow> acceptance_policy option \<Rightarrow> ('s session_state, delivery) act" where
  "session_revalidate n ap bl resolve keys strict force consistency acceptance =
     bind_act ensure_open (\<lambda>_.
     bind_act (lift_res (normalize_keys keys)) (\<lambda>requested.
     bind_act (reads (\<lambda>st. (fst st, w_rt (snd st)))) (\<lambda>(ss, rt).
       let unresolved = filter (\<lambda>k. map_of (rt_memo rt) k = None) requested; rv = plan_revalidation ss rt requested strict force
       in if unresolved \<noteq> []
          then throw (ArgError (ValueError (''revalidation requires resources already resolved in this session: ''
                                  @ str_join '', '' (map key_str unresolved))))
          else bind_act (note_world (count_diag (record_requested requested))) (\<lambda>_.
                 revalidate_stage n ap bl resolve ss rv consistency acceptance (staging_runtime rt rv)))))"

definition session_snapshot_async :: "app \<Rightarrow> 's builder \<Rightarrow> ('s session_state, py_error snapshot) act" where
  "session_snapshot_async ap bl =
     bind_act (reads fst) (\<lambda>ss.
       handle (in_world (snapshot_state ap bl (ss_context ss) (ss_resources ss) (ss_errors ss) True)) ret
         (\<lambda>e. if is_deadline_exceeded e
              then bind_act (note_world (record_copy_deadline ss ''session_snapshot_delivery'')) (\<lambda>_. throw e)
              else throw e))"

subsection \<open>What an operation leaves alone\<close>

definition same_session :: "'s session_state \<Rightarrow> 's session_state \<Rightarrow> bool" where
  "same_session st st' \<longleftrightarrow> fst st' = fst st \<and> w_rt (snd st') = w_rt (snd st)"

interpretation session_frame: frame same_session
  by unfold_locales (simp_all add: same_session_def)

definition same_runtime :: "'s world \<Rightarrow> 's world \<Rightarrow> bool" where
  "same_runtime w w' \<longleftrightarrow> w_rt w' = w_rt w"

interpretation runtime_frame: frame same_runtime
  by unfold_locales (simp_all add: same_runtime_def)

lemma keeps_in_world: "keeps same_runtime m \<Longrightarrow> keeps same_session (in_world m)"
  by (simp add: keeps_def in_world_def same_session_def same_runtime_def split: prod.splits) (metis snd_conv)

lemma keeps_note_world: "(\<And>w. w_rt (f w) = w_rt w) \<Longrightarrow> keeps same_session (note_world f)"
  by (simp add: keeps_def note_world_def same_session_def)

lemma runtime_notes [simp]: "w_rt (emit os w) = w_rt w" "w_rt (count_diag f w) = w_rt w" "w_rt (count_health g w) = w_rt w"
  by (simp_all add: emit_def count_diag_def count_health_def)

lemma keeps_snapshot_state: "keeps same_runtime (snapshot_state ap bl ctx resources errors enforce)"
proof -
  have "keeps same_runtime (copy_map (ap_delay ap) (bl_copy bl) (deliver_item bl) d c xs)" for d c xs
    unfolding keeps_def same_runtime_def by (intro allI world_frame(5)) simp
  then show ?thesis unfolding snapshot_state_def
    by (intro runtime_frame.keeps_bind runtime_frame.keeps_reads runtime_frame.keeps_ret)
qed

lemma keeps_with_runtime: "keeps same_runtime (with_runtime rt m)"
  by (auto simp: keeps_def same_runtime_def with_runtime_def split: prod.splits sum.splits)

lemma keeps_ensure_open: "keeps same_session ensure_open"
  by (simp add: keeps_def ensure_open_def same_session_def)

lemma keeps_consistency_error: "keeps same_session (consistency_error ss v snapshot)"
  by (auto simp: consistency_error_def intro!: session_frame.keeps_bind session_frame.keeps_ret keeps_note_world)

lemma keeps_acceptance_error: "keeps same_session (acceptance_error ss violations snapshot)"
  by (auto simp: acceptance_error_def Let_def
      intro!: session_frame.keeps_bind session_frame.keeps_ret session_frame.keeps_lift keeps_note_world)

lemma keeps_note_revalidation: "keeps same_session (note_revalidation ss rv failed committed refreshed check)"
  by (simp add: note_revalidation_def keeps_note_world)

lemma runtime_copy_deadline [simp]: "w_rt (record_copy_deadline ss phase w) = w_rt w"
  by (simp add: record_copy_deadline_def)

lemma keeps_revalidation_late: "keeps same_session (revalidation_late ss rv phase e)"
  by (auto simp: revalidation_late_def
      intro!: session_frame.keeps_bind session_frame.keeps_ret session_frame.keeps_throw keeps_note_world keeps_note_revalidation)

lemma keeps_deliver_retained:
  assumes "\<And>snapshot. keeps same_session (refuse snapshot)"
  shows "keeps same_session (deliver_retained ap bl ss rv errors enforce refuse)"
  by (auto simp: deliver_retained_def intro!: session_frame.keeps_handle session_frame.keeps_bind session_frame.keeps_ret
      session_frame.keeps_throw keeps_note_world keeps_in_world keeps_snapshot_state assms)

lemma keeps_refusals:
  "keeps same_session (revalidation_failed ap bl ss rv errors)"
  "keeps same_session (revalidation_inconsistent ap bl ss rv v)"
  "keeps same_session (revalidation_unacceptable ap bl ss rv violations)"
  by (auto simp: revalidation_failed_def revalidation_inconsistent_def revalidation_unacceptable_def
      intro!: session_frame.keeps_bind session_frame.keeps_ret keeps_note_revalidation keeps_deliver_retained
        keeps_consistency_error keeps_acceptance_error)

lemma keeps_fallback_round: "keeps same_runtime (fallback_round resolve ctx policy requested targets fb v)"
  by (auto simp: fallback_round_def fallback_call_def Let_def note_fallback_started_def note_fallback_exhausted_def
        note_fallback_succeeded_def same_runtime_def split: option.splits prod.splits
      intro!: runtime_frame.keeps_bind runtime_frame.keeps_ret runtime_frame.keeps_lift runtime_frame.keeps_updates keeps_with_runtime)

lemma keeps_fallback_rounds: "keeps same_runtime (fallback_rounds n resolve ctx policy requested targets fb v)"
  by (induction n arbitrary: fb v)
    (auto intro!: runtime_frame.keeps_bind runtime_frame.keeps_ret keeps_fallback_round split: fallback_end.splits)

lemma keeps_retry_inconsistent:
  "keeps same_runtime (retry_inconsistent_sources n resolve ctx policy requested targets values rt v)"
  by (auto simp: retry_inconsistent_sources_def split: fallback_end.splits
      intro!: runtime_frame.keeps_bind runtime_frame.keeps_ret runtime_frame.keeps_throw keeps_fallback_rounds)

subsection \<open>A revalidation is a transaction\<close>

text \<open>
  \<open>settles ss rt C m\<close>: from a state with session \<open>ss\<close> and runtime \<open>rt\<close> the operation ends in such
  a state again, or commits as \<open>C\<close> describes.
\<close>

definition settles ::
  "session \<Rightarrow> resolution_runtime \<Rightarrow> (py_error + 'a \<Rightarrow> 's session_state \<Rightarrow> bool) \<Rightarrow> ('s session_state, 'a) act \<Rightarrow> bool" where
  "settles ss rt C m \<longleftrightarrow> (\<forall>st. fst st = ss \<longrightarrow> w_rt (snd st) = rt \<longrightarrow>
     (let (r, st') = m st in fst st' = ss \<and> w_rt (snd st') = rt \<or> C r st'))"

lemma settlesD:
  "settles ss rt C m \<Longrightarrow> m st = (r, st') \<Longrightarrow> fst st = ss \<Longrightarrow> w_rt (snd st) = rt
    \<Longrightarrow> fst st' = ss \<and> w_rt (snd st') = rt \<or> C r st'"
  by (auto simp: settles_def)

lemma settlesI:
  "(\<And>st r st'. m st = (r, st') \<Longrightarrow> fst st = ss \<Longrightarrow> w_rt (snd st) = rt \<Longrightarrow> fst st' = ss \<and> w_rt (snd st') = rt \<or> C r st')
    \<Longrightarrow> settles ss rt C m"
  by (auto simp: settles_def split: prod.splits)

lemma settles_keeps: "keeps same_session m \<Longrightarrow> settles ss rt C m"
  by (rule settlesI, drule (1) session_frame.keepsD) (simp add: same_session_def)

lemma settles_bind:
  assumes "keeps same_session m" "\<And>x st st1. m st = (Inr x, st1) \<Longrightarrow> settles ss rt C (f x)"
  shows "settles ss rt C (bind_act m f)"
proof (rule settlesI)
  fix st r st'
  assume run: "bind_act m f st = (r, st')" and st: "fst st = ss" "w_rt (snd st) = rt"
  from run show "fst st' = ss \<and> w_rt (snd st') = rt \<or> C r st'"
  proof (cases rule: bind_act_cases)
    case (raised e)
    with session_frame.keepsD [OF assms(1) raised(1)] st show ?thesis by (simp add: same_session_def)
  next
    case (continued x st1)
    have "fst st1 = ss" "w_rt (snd st1) = rt"
      using session_frame.keepsD [OF assms(1) continued(1)] st by (simp_all add: same_session_def)
    with settlesD [OF assms(2) [OF continued(1)] continued(2)] show ?thesis by simp
  qed
qed

lemma settles_handle:
  assumes "keeps same_session m" "\<And>x st st1. m st = (Inr x, st1) \<Longrightarrow> settles ss rt C (f x)" "\<And>e. keeps same_session (h e)"
  shows "settles ss rt C (handle m f h)"
proof (rule settlesI)
  fix st r st'
  assume run: "handle m f h st = (r, st')" and st: "fst st = ss" "w_rt (snd st) = rt"
  from run show "fst st' = ss \<and> w_rt (snd st') = rt \<or> C r st'"
  proof (cases rule: handle_cases)
    case (raised e st1)
    have "fst st1 = ss" "w_rt (snd st1) = rt"
      using session_frame.keepsD [OF assms(1) raised(1)] st by (simp_all add: same_session_def)
    with session_frame.keepsD [OF assms(3) raised(2)] show ?thesis by (simp add: same_session_def)
  next
    case (continued x st1)
    have "fst st1 = ss" "w_rt (snd st1) = rt"
      using session_frame.keepsD [OF assms(1) continued(1)] st by (simp_all add: same_session_def)
    with settlesD [OF assms(2) [OF continued(1)] continued(2)] show ?thesis by simp
  qed
qed

text \<open>The values of the targets replace those of the visible resources among them.\<close>

lemma replace_values_lookup:
  "replace_values ks vs rs = Inr rs' \<Longrightarrow>
    map_of rs' k = (if k \<in> set ks \<and> map_of rs k \<noteq> None then map_of vs k else map_of rs k)
    \<and> (k \<in> set ks \<and> map_of rs k \<noteq> None \<longrightarrow> map_of vs k \<noteq> None)"
  by (induction ks arbitrary: rs) (auto simp: res_iff split: if_splits)

text \<open>
  What a commit means: the targets that the session shows have their new values, everything else
  is as before, the errors of the targets are gone, and the policies given are met.
\<close>

definition revalidated ::
  "'s builder \<Rightarrow> session \<Rightarrow> revalidation \<Rightarrow> consistency_policy option \<Rightarrow> acceptance_policy option
    \<Rightarrow> (resource_key, snapshot_value) odict \<Rightarrow> session \<Rightarrow> bool" where
  "revalidated bl ss rv consistency acceptance values ss' \<longleftrightarrow>
     ss' = ss\<lparr>ss_resources := ss_resources ss', ss_errors := filter (\<lambda>p. fst p \<notin> set (rv_targets rv)) (ss_errors ss)\<rparr>
     \<and> (\<forall>k. map_of (ss_resources ss') k =
           (if k \<in> set (rv_targets rv) \<and> map_of (ss_resources ss) k \<noteq> None then map_of values k else map_of (ss_resources ss) k)
         \<and> (map_of (ss_resources ss) k \<noteq> None \<longrightarrow> map_of (ss_resources ss') k \<noteq> None))
     \<and> (case consistency of None \<Rightarrow> True
        | Some p \<Rightarrow> find_observation_skew_violation values (rv_requested rv) p = None)
     \<and> (case acceptance of None \<Rightarrow> True
        | Some p \<Rightarrow> (\<exists>now. acceptance_violations bl (ss_resources ss') (rv_requested rv) [] p now = Inr []))"

definition commits ::
  "'s builder \<Rightarrow> session \<Rightarrow> resolution_runtime \<Rightarrow> revalidation \<Rightarrow> consistency_policy option \<Rightarrow> acceptance_policy option
    \<Rightarrow> py_error + delivery \<Rightarrow> 's session_state \<Rightarrow> bool" where
  "commits bl ss rt rv consistency acceptance r st' \<longleftrightarrow>
     (\<exists>snapshot values memo. r = Inr (Inr snapshot) \<and> w_rt (snd st') = rt\<lparr>rt_memo := memo\<rparr>
        \<and> revalidated bl ss rv consistency acceptance values (fst st'))"

lemma settles_commit:
  fixes bl :: "'b builder"
  assumes met: "revalidated bl ss rv consistency acceptance values (ss\<lparr>ss_resources := resources, ss_errors := errors\<rparr>)"
  shows "settles ss rt (commits bl ss rt rv consistency acceptance)
    (commit_revalidation ap bl ss rv acceptance resources errors refreshed staged)"
  unfolding commit_revalidation_def
proof (rule settles_handle)
  show "keeps same_session (in_world (snapshot_state ap bl (ss_context ss) resources errors True))"
    by (rule keeps_in_world, rule keeps_snapshot_state)
  show "keeps same_session (revalidation_late ss rv ''session_revalidate_delivery'' e)" for e
    by (rule keeps_revalidation_late)
  fix snapshot :: "py_error snapshot"
  let ?tail = "bind_act (if acceptance = None then ret ()
       else note_world (emit [MetricIncrement ''snapshot_acceptance_total'' [(''status'', ''success'')]]))
     (\<lambda>_. bind_act (note_revalidation ss rv 0 True refreshed NoCheck) (\<lambda>_. ret (Inr snapshot)))"
  have tail: "keeps same_session ?tail"
    by (auto intro!: session_frame.keeps_bind session_frame.keeps_ret keeps_note_world keeps_note_revalidation)
  have returns: "fst (?tail st) = Inr (Inr snapshot :: delivery)" for st :: "'b session_state"
    by (simp add: bind_act_def note_world_def note_revalidation_def)
  show "settles ss rt (commits bl ss rt rv consistency acceptance)
     (bind_act (note_world (on_rt (\<lambda>rt. rt\<lparr>rt_memo := rt_memo staged\<rparr>))) (\<lambda>_. bind_act (set_session resources errors) (\<lambda>_. ?tail)))"
  proof (rule settlesI)
    fix st st' :: "'b session_state" and r :: "py_error + delivery"
    assume run: "bind_act (note_world (on_rt (\<lambda>rt. rt\<lparr>rt_memo := rt_memo staged\<rparr>)))
        (\<lambda>_. bind_act (set_session resources errors) (\<lambda>_. ?tail)) st = (r, st')" and st: "fst st = ss" "w_rt (snd st) = rt"
    let ?st1 = "(ss\<lparr>ss_resources := resources, ss_errors := errors\<rparr>, on_rt (\<lambda>rt. rt\<lparr>rt_memo := rt_memo staged\<rparr>) (snd st))"
    have run1: "?tail ?st1 = (r, st')" using run st(1) by (simp add: bind_act_def note_world_def set_session_def)
    have "r = Inr (Inr snapshot)" using returns [of ?st1] run1 by simp
    moreover have "same_session ?st1 st'" using session_frame.keepsD [OF tail run1] .
    ultimately show "fst st' = ss \<and> w_rt (snd st') = rt \<or> commits bl ss rt rv consistency acceptance r st'"
      using met st(2) by (auto simp: commits_def same_session_def on_rt_def)
  qed
qed


lemma replace_values_revalidated:
  assumes "replace_values (rv_targets rv) vs (ss_resources ss) = Inr resources"
    and "\<And>p. consistency = Some p \<Longrightarrow> find_observation_skew_violation vs (rv_requested rv) p = None"
    and "\<And>p. acceptance = Some p \<Longrightarrow> \<exists>now. acceptance_violations bl resources (rv_requested rv) [] p now = Inr []"
  shows "revalidated bl ss rv consistency acceptance vs
    (ss\<lparr>ss_resources := resources, ss_errors := filter (\<lambda>p. fst p \<notin> set (rv_targets rv)) (ss_errors ss)\<rparr>)"
  using replace_values_lookup [OF assms(1)] assms(2,3)
  by (auto simp: revalidated_def split: option.splits)

lemma settles_resolved:
  assumes consistent: "\<And>p. consistency = Some p \<Longrightarrow> find_observation_skew_violation vs (rv_requested rv) p = None"
  shows "settles ss rt (commits bl ss rt rv consistency acceptance) (revalidation_resolved ap bl ss rv acceptance vs staged)"
  unfolding revalidation_resolved_def
proof (rule settles_bind [OF session_frame.keeps_lift])
  fix resources and st st1 :: "'a session_state"
  assume "lift_res (replace_values (rv_targets rv) vs (ss_resources ss)) st = (Inr resources, st1)"
  then have new: "replace_values (rv_targets rv) vs (ss_resources ss) = Inr resources" by simp
  let ?errors = "filter (\<lambda>p. fst p \<notin> set (rv_targets rv)) (ss_errors ss)"
  have commit: "settles ss rt (commits bl ss rt rv consistency acceptance)
      (commit_revalidation ap bl ss rv acceptance resources ?errors (length vs) staged)"
    if "\<And>p. acceptance = Some p \<Longrightarrow> \<exists>now. acceptance_violations bl resources (rv_requested rv) [] p now = Inr []"
    by (rule settles_commit, rule replace_values_revalidated [OF new consistent that])
  show "settles ss rt (commits bl ss rt rv consistency acceptance)
     (let errors = ?errors; commit = commit_revalidation ap bl ss rv acceptance resources errors (length vs) staged
      in case acceptance of
           None \<Rightarrow> commit
         | Some policy \<Rightarrow>
             bind_act (reads (\<lambda>st. w_now (snd st))) (\<lambda>now.
             bind_act (lift_res (acceptance_violations bl resources (rv_requested rv) [] policy now)) (\<lambda>violations.
               if violations \<noteq> [] then revalidation_unacceptable ap bl ss rv violations else commit)))"
  proof (cases acceptance)
    case None
    with commit show ?thesis by (simp add: Let_def)
  next
    case (Some policy)
    show ?thesis unfolding Some Let_def option.case
    proof (rule settles_bind [OF session_frame.keeps_reads], rule settles_bind [OF session_frame.keeps_lift])
      fix now violations and st st1 :: "'a session_state"
      assume "lift_res (acceptance_violations bl resources (rv_requested rv) [] policy now) st = (Inr violations, st1)"
      then have found: "acceptance_violations bl resources (rv_requested rv) [] policy now = Inr violations" by simp
      show "settles ss rt (commits bl ss rt rv consistency (Some policy))
        (if violations \<noteq> [] then revalidation_unacceptable ap bl ss rv violations
         else commit_revalidation ap bl ss rv (Some policy) resources ?errors (length vs) staged)"
        using commit found Some by (auto intro: settles_keeps keeps_refusals)
    qed
  qed
qed

text \<open>The fallback ends without a violation only with values that have none.\<close>

lemma fallback_round_consistent:
  "fallback_round resolve ctx policy requested targets fb v w = (Inr (Ended fb' None), w')
    \<Longrightarrow> find_observation_skew_violation (fb_values fb') requested policy = None"
  by (auto simp: fallback_round_def fallback_call_def Let_def bind_act_Inr split: option.splits if_splits prod.splits)

lemma fallback_rounds_consistent:
  "fallback_rounds n resolve ctx policy requested targets fb v w = (Inr (Ended fb' None), w')
    \<Longrightarrow> find_observation_skew_violation (fb_values fb') requested policy = None"
proof (induction n arbitrary: fb v w)
  case (Suc n)
  then obtain r w1 where first: "fallback_round resolve ctx policy requested targets fb v w = (Inr r, w1)"
    and rest: "(case r of Ended fb' result \<Rightarrow> ret (Ended fb' result)
       | Again fb' v' \<Rightarrow> fallback_rounds n resolve ctx policy requested targets fb' v') w1 = (Inr (Ended fb' None), w')"
    by (auto simp: bind_act_Inr)
  show ?case
  proof (cases r)
    case (Ended fb1 result)
    with first rest show ?thesis using fallback_round_consistent by simp
  next
    case (Again fb1 v1)
    with rest Suc.IH show ?thesis by simp
  qed
qed simp

lemma retry_inconsistent_consistent:
  "retry_inconsistent_sources n resolve ctx policy requested targets vs rt v w = (Inr (vs', rt', None), w')
    \<Longrightarrow> find_observation_skew_violation vs' requested policy = None"
  unfolding retry_inconsistent_sources_def bind_act_Inr
  by (elim exE conjE) (auto split: fallback_end.split_asm dest: fallback_rounds_consistent)

lemma in_world_Inr: "in_world m st = (Inr x, st') \<Longrightarrow> m (snd st) = (Inr x, snd st')"
  by (auto simp: in_world_def split: prod.splits)

lemma settles_answered:
  "settles ss rt (commits bl ss rt rv consistency acceptance)
    (revalidation_answered n ap bl resolve ss rv consistency acceptance vs staged)"
proof (cases consistency)
  case None
  then show ?thesis by (auto simp: revalidation_answered_def intro: settles_resolved)
next
  case (Some policy)
  show ?thesis
  proof (cases "find_observation_skew_violation vs (rv_requested rv) policy")
    case None
    with Some show ?thesis by (auto simp: revalidation_answered_def intro: settles_resolved)
  next
    case (Some v)
    have "settles ss rt (commits bl ss rt rv consistency acceptance)
      (handle (in_world (retry_inconsistent_sources n resolve (ss_context ss) policy (rv_requested rv) (rv_targets rv) vs staged v))
         (\<lambda>(vs', staged', result). case result of
            Some v' \<Rightarrow> revalidation_inconsistent ap bl ss rv v'
          | None \<Rightarrow> revalidation_resolved ap bl ss rv acceptance vs' staged')
         (revalidation_late ss rv ''session_consistency_fallback''))"
    proof (rule settles_handle)
      show "keeps same_session (in_world (retry_inconsistent_sources n resolve (ss_context ss) policy
          (rv_requested rv) (rv_targets rv) vs staged v))" by (rule keeps_in_world, rule keeps_retry_inconsistent)
      show "keeps same_session (revalidation_late ss rv ''session_consistency_fallback'' e)" for e by (rule keeps_revalidation_late)
      fix x st st1
      assume run: "in_world (retry_inconsistent_sources n resolve (ss_context ss) policy (rv_requested rv) (rv_targets rv)
          vs staged v) st = (Inr x, st1)"
      obtain vs' staged' result where x: "x = (vs', staged', result)" by (cases x)
      show "settles ss rt (commits bl ss rt rv consistency acceptance) (case x of (vs', staged', result) \<Rightarrow>
          case result of Some v' \<Rightarrow> revalidation_inconsistent ap bl ss rv v'
          | None \<Rightarrow> revalidation_resolved ap bl ss rv acceptance vs' staged')"
      proof (cases result)
        case None
        have "find_observation_skew_violation vs' (rv_requested rv) policy = None"
          using retry_inconsistent_consistent [OF in_world_Inr [OF run [unfolded x None]]] .
        with \<open>consistency = Some policy\<close> show ?thesis by (auto simp: x None intro: settles_resolved)
      next
        case (Some v')
        then show ?thesis by (simp add: x settles_keeps keeps_refusals)
      qed
    qed
    with Some \<open>consistency = Some policy\<close> show ?thesis
      by (simp add: revalidation_answered_def settles_keeps keeps_refusals)
  qed
qed

lemma settles_stage:
  "settles ss rt (commits bl ss rt rv consistency acceptance)
    (revalidate_stage n ap bl resolve ss rv consistency acceptance staging)"
  unfolding revalidate_stage_def
  by (rule settles_handle [OF keeps_in_world [OF keeps_with_runtime] _ keeps_revalidation_late])
    (auto split: prod.splits intro: settles_answered settles_keeps keeps_refusals)

lemma plan_fields [simp]:
  "rv_requested (plan_revalidation ss rt requested strict force) = requested"
  "rv_affected (plan_revalidation ss rt requested strict force) = affected_keys requested (rt_memo rt)"
  by (simp_all add: plan_revalidation_def Let_def)


subsection \<open>Resolved values are pinned\<close>

lemma ensures_in_world:
  assumes "\<And>w x w'. m w = (Inr x, w') \<Longrightarrow> Q x" "\<And>st st'. fst st' = fst st \<Longrightarrow> P st \<Longrightarrow> P st'"
  shows "ensures P (in_world m) Q"
proof (rule ensuresI)
  fix st r st'
  assume "P st" and run: "in_world m st = (r, st')"
  then have "fst st' = fst st" by (auto simp: in_world_def split: prod.splits)
  from assms(2) [OF this \<open>P st\<close>] have "P st'" .
  moreover have "Q x" if "r = Inr x" for x using assms(1) [OF in_world_Inr [OF run [unfolded that]]] .
  ultimately show "P st' \<and> (\<forall>x. r = Inr x \<longrightarrow> Q x)" by blast
qed

lemma ensures_note_world: "(\<And>st st'. fst st' = fst st \<Longrightarrow> P st \<Longrightarrow> P st') \<Longrightarrow> ensures P (note_world f) (\<lambda>_. True)"
  unfolding note_world_def by (rule ensures_updates) auto

lemma deliver_keys: "res_map (deliver_item bl) xs = Inr ys \<Longrightarrow> map fst ys = map fst xs"
  by (induction xs arbitrary: ys) (auto simp: res_iff deliver_item_def)

lemma snapshot_state_contents:
  assumes "snapshot_state ap bl ctx resources errors enforce w = (Inr s, w')"
  shows "sn_errors s = errors \<and> set (od_keys (sn_resources s)) = set (od_keys resources)
    \<and> sn_snapshot_id s = fc_snapshot_id ctx \<and> sn_created_at s = fc_requested_at ctx"
proof -
  from assms obtain copied w1 d where
    c: "copy_map (ap_delay ap) (bl_copy bl) (deliver_item bl) (if enforce then fc_deadline_monotonic ctx else None)
          ''delivering the snapshot'' resources w = (Inr copied, w1)"
    and s: "s = make_snapshot ctx copied errors d"
    by (auto simp: snapshot_state_def bind_act_Inr)
  have "res_map (deliver_item bl) resources = Inr copied"
    using copy_map_values [of "ap_delay ap" "bl_copy bl" "deliver_item bl" "if enforce then fc_deadline_monotonic ctx else None"
        "''delivering the snapshot''" resources w copied] c by (simp only: fst_conv)
  from deliver_keys [OF this] have "map fst copied = map fst resources" .
  then show ?thesis by (simp add: s make_snapshot_def od_of_def set_od_keys_update del: set_map)
qed

lemma map_of_od_update_other: "k \<notin> set (map fst xs) \<Longrightarrow> map_of (od_update d xs) k = map_of d k"
  by (induction xs arbitrary: d) (auto simp: od_update_def)

text \<open>The keys a resolution answers.\<close>

lemma resolve_many_keys:
  assumes "resolve_many n unreached ap bl ctx keys anc lo w = (Inr answers, w')"
  shows "set (od_keys (fst answers)) \<union> set (od_keys (snd answers)) = set keys"
proof (cases n)
  case 0
  with assms show ?thesis by (simp add: unreached_def)
next
  case (Suc m)
  with assms have "answered (set keys) answers" by (intro resolve_step_answered) simp
  then show ?thesis by (simp add: answered_def del: set_map)
qed

definition pinned :: "session \<Rightarrow> session \<Rightarrow> bool" where
  "pinned ss ss' \<longleftrightarrow> ss_context ss' = ss_context ss \<and> ss_closed ss' = ss_closed ss
     \<and> (\<forall>k v. map_of (ss_resources ss) k = Some v \<longrightarrow> map_of (ss_resources ss') k = Some v)"

lemma pinned_set: "(\<And>k v. map_of (ss_resources ss) k = Some v \<Longrightarrow> map_of resources k = Some v)
  \<Longrightarrow> ensures (\<lambda>st. pinned ss (fst st)) (set_session resources errors) (\<lambda>_. True)"
  unfolding set_session_def by (rule ensures_updates) (auto simp: pinned_def)

lemma ensures_resolve_late:
  assumes "\<And>k v. map_of (ss_resources ss) k = Some v \<Longrightarrow> map_of resources k = Some v"
  shows "ensures (\<lambda>st. pinned ss (fst st)) (resolve_late ap bl ss requested pending strict retry_errors resources errors e) (\<lambda>_. True)"
  unfolding resolve_late_def Let_def
  by (auto intro!: ensures_throw ensures_ret ensures_bind [OF ensures_note_world] ensures_bind [OF pinned_set [OF assms]]
      ensures_bind [OF ensures_in_world, where Q = "\<lambda>_. True"])

lemma ensures_resolve_stage:
  assumes "\<And>w answers w'. resolve (pending_keys ss requested retry_errors) [] {} w = (Inr answers, w')
      \<Longrightarrow> set (od_keys (fst answers)) \<subseteq> set (pending_keys ss requested retry_errors)"
  shows "ensures (\<lambda>st. pinned ss (fst st)) (resolve_stage ap bl resolve ss requested strict retry_errors) (\<lambda>_. True)"
proof -
  let ?pending = "pending_keys ss requested retry_errors"
  let ?Q = "\<lambda>answers :: answers. set (od_keys (fst answers)) \<subseteq> set ?pending"
  have asked: "ensures (\<lambda>st. pinned ss (fst st)) (in_world (if ?pending = [] then ret ([], []) else resolve ?pending [] {})) ?Q"
    by (rule ensures_in_world) (use assms in \<open>auto split: if_splits simp del: set_map\<close>)
  have kept: "map_of (od_update (ss_resources ss) (fst answers)) k = Some v"
    if "?Q answers" "map_of (ss_resources ss) k = Some v" for answers k v
  proof -
    have "k \<notin> set ?pending" using that(2) by (simp add: pending_keys_def)
    then have "k \<notin> set (map fst (fst answers))" using that(1) by blast
    with that(2) show ?thesis by (simp add: map_of_od_update_other del: set_map)
  qed
  have committed: "ensures (\<lambda>st. pinned ss (fst st)) (commit_stage ss requested strict retry_errors
      (od_update (ss_resources ss) (fst answers)) errors snapshot) (\<lambda>_. True)" if "?Q answers" for answers errors snapshot
    unfolding commit_stage_def Let_def
    by (auto intro!: ensures_ret ensures_bind [OF pinned_set] ensures_bind [OF ensures_note_world] kept [OF that])
  show ?thesis unfolding resolve_stage_def Let_def
    by (rule ensures_handle [OF asked], rule ensures_handle [OF ensures_in_world, where Q = "\<lambda>_. True"])
      (auto intro!: committed ensures_resolve_late kept)
qed

lemma stage_of_resolve:
  assumes "session_resolve ap bl resolve keys strict retry_errors st = (r, st')"
  obtains (refused) e where "r = Inl e" "st' = st"
  | (stage) st1 where "fst st1 = fst st" "resolve_stage ap bl resolve (fst st) (fromkeys keys) strict retry_errors st1 = (r, st')"
  using assms
  by (auto simp: session_resolve_def bind_act_def ensure_open_def normalize_keys_def note_world_def split: if_splits)


subsection \<open>A strict stage is complete\<close>

definition delivers :: "resource_key set \<Rightarrow> delivery \<Rightarrow> bool" where
  "delivers K d \<longleftrightarrow> (case d of Inl e \<Rightarrow> True
     | Inr snapshot \<Rightarrow> K \<subseteq> set (od_keys (sn_resources snapshot)) - set (od_keys (sn_errors snapshot)))"

lemma errors_of_empty: "errors_of errors keys = [] \<longleftrightarrow> set keys \<inter> set (od_keys errors) = {}"
proof (induction keys)
  case (Cons k keys)
  then show ?case by (cases "map_of errors k") (auto simp: errors_of_def map_filter_def map_of_None_keys dest: map_of_SomeD)
qed (simp add: errors_of_def map_filter_def)

text \<open>What a strict stage returns, in terms of the answers it got.\<close>

lemma ensures_strict_snapshot:
  fixes bl :: "'b builder"
  assumes answers: "\<And>w answers w'. resolve (pending_keys ss requested retry_errors) [] {} w = (Inr answers, w')
      \<Longrightarrow> set (od_keys (fst answers)) \<union> set (od_keys (snd answers)) = set (pending_keys ss requested retry_errors)"
    and refused: "\<And>e. D (Inl e)"
    and delivered: "\<And>answers snapshot.
      set (od_keys (fst answers)) \<union> set (od_keys (snd answers)) = set (pending_keys ss requested retry_errors)
      \<Longrightarrow> sn_errors snapshot = od_update (retained_errors ss requested retry_errors) (snd answers)
      \<Longrightarrow> set (od_keys (sn_resources snapshot)) = set (od_keys (od_update (ss_resources ss) (fst answers)))
      \<Longrightarrow> sn_snapshot_id snapshot = fc_snapshot_id (ss_context ss) \<Longrightarrow> sn_created_at snapshot = fc_requested_at (ss_context ss)
      \<Longrightarrow> errors_of (sn_errors snapshot) requested = [] \<Longrightarrow> D (Inr snapshot)"
  shows "ensures (\<lambda>st. True) (resolve_stage ap bl resolve ss requested True retry_errors) D"
proof -
  let ?pending = "pending_keys ss requested retry_errors" and ?errors = "retained_errors ss requested retry_errors"
  let ?Q = "\<lambda>answers :: answers. set (od_keys (fst answers)) \<union> set (od_keys (snd answers)) = set ?pending"
  have asked: "ensures (\<lambda>st. True) (in_world (if ?pending = [] then ret ([], []) else resolve ?pending [] {})) ?Q"
    by (rule ensures_in_world) (use answers in \<open>auto split: if_splits simp del: set_map\<close>)
  have late: "ensures (\<lambda>st. True) (resolve_late ap bl ss requested ?pending True retry_errors resources errors e) D"
    for resources errors e
    unfolding resolve_late_def Let_def
    by (auto intro!: ensures_throw ensures_ret ensures_bind [OF ensures_note_world] simp: refused)
  show ?thesis unfolding resolve_stage_def Let_def
  proof (rule ensures_handle [OF asked _ late])
    fix answers :: answers
    assume Q: "?Q answers"
    let ?resources = "od_update (ss_resources ss) (fst answers)" and ?errors' = "od_update ?errors (snd answers)"
    let ?S = "\<lambda>s. sn_errors s = ?errors' \<and> set (od_keys (sn_resources s)) = set (od_keys ?resources)
      \<and> sn_snapshot_id s = fc_snapshot_id (ss_context ss) \<and> sn_created_at s = fc_requested_at (ss_context ss)"
    have committed: "ensures (\<lambda>st. True) (commit_stage ss requested True retry_errors ?resources ?errors' snapshot) D"
      if S: "?S snapshot" for snapshot
    proof -
      have "D (Inr snapshot)" if "errors_of ?errors' requested = []"
        using S that by (intro delivered [OF Q]) simp_all
      then show ?thesis unfolding commit_stage_def Let_def set_session_def
        by (auto intro!: ensures_ret ensures_bind [OF ensures_updates] ensures_bind [OF ensures_note_world] simp: refused)
    qed
    show "ensures (\<lambda>st. True) (handle (in_world (snapshot_state ap bl (ss_context ss) ?resources ?errors'
          (\<not> errors_include_deadline (errors_of ?errors' requested))))
        (commit_stage ss requested True retry_errors ?resources ?errors')
        (resolve_late ap bl ss requested ?pending True retry_errors ?resources ?errors')) D"
      by (rule ensures_handle [OF ensures_in_world committed late], rule snapshot_state_contents) simp_all
  qed
qed

lemma ensures_strict_stage:
  assumes answers: "\<And>w answers w'. resolve (pending_keys ss requested retry_errors) [] {} w = (Inr answers, w')
      \<Longrightarrow> set (od_keys (fst answers)) \<union> set (od_keys (snd answers)) = set (pending_keys ss requested retry_errors)"
  shows "ensures (\<lambda>st. True) (resolve_stage ap bl resolve ss requested True retry_errors) (delivers (set requested))"
proof (rule ensures_strict_snapshot)
  fix answers :: answers and snapshot :: "py_error snapshot"
  let ?errors = "retained_errors ss requested retry_errors"
  assume Q: "set (od_keys (fst answers)) \<union> set (od_keys (snd answers)) = set (pending_keys ss requested retry_errors)"
    and errors: "sn_errors snapshot = od_update ?errors (snd answers)"
    and resources: "set (od_keys (sn_resources snapshot)) = set (od_keys (od_update (ss_resources ss) (fst answers)))"
    and none: "errors_of (sn_errors snapshot) requested = []"
  have "k \<in> set (od_keys (sn_resources snapshot)) \<union> set (od_keys (sn_errors snapshot))" if "k \<in> set requested" for k
  proof -
    have "k \<in> set (pending_keys ss requested retry_errors) \<or> k \<in> set (od_keys (ss_resources ss)) \<or> k \<in> set (od_keys ?errors)"
      using that by (auto simp: pending_keys_def map_of_None_keys simp del: set_map)
    then show ?thesis using Q by (auto simp: errors resources set_od_keys_update simp del: set_map)
  qed
  then show "delivers (set requested) (Inr snapshot)"
    using none by (auto simp: delivers_def errors_of_empty simp del: set_map)
qed (simp_all add: answers delivers_def del: set_map)

text \<open>
  A strict stage is all or nothing for what it was asked: when it returns a snapshot, every
  requested resource is in it and none of them has an error; otherwise it raises.
\<close>

lemma strict_stage_complete:
  assumes "session_resolve ap bl (resolve_many n unreached ap bl (ss_context (fst st))) keys True retry_errors st
    = (Inr (Inr snapshot), st')"
  shows "set keys \<subseteq> set (od_keys (sn_resources snapshot)) - set (od_keys (sn_errors snapshot))"
  using assms
proof (cases rule: stage_of_resolve)
  case (stage st1)
  have "ensures (\<lambda>st. True) (resolve_stage ap bl (resolve_many n unreached ap bl (ss_context (fst st)))
      (fst st) (fromkeys keys) True retry_errors) (delivers (set (fromkeys keys)))"
    by (rule ensures_strict_stage, drule resolve_many_keys)
  from ensuresD [OF this TrueI stage(2)] show ?thesis by (simp add: delivers_def del: set_map)
qed simp

subsection \<open>What a revalidation affects, exactly\<close>

text \<open>\<open>(d, k)\<close> when the memo holds a value of \<open>k\<close> that was derived from \<open>d\<close>.\<close>

definition derived_from :: "(resource_key, snapshot_value) odict \<Rightarrow> (resource_key \<times> resource_key) set" where
  "derived_from memo = {(d, k). \<exists>v. (k, v) \<in> set memo \<and> d \<in> set (od_keys (sv_dependency_versions v))}"

lemma affected_pass_sound: "affected_pass memo A \<subseteq> (derived_from memo')\<^sup>* `` A" if "set memo \<subseteq> set memo'"
  using that
proof (induction memo A rule: affected_pass.induct)
  case (2 k v rest A)
  let ?A = "if k \<in> A then A else if list_ex (\<lambda>d. d \<in> A) (od_keys (sv_dependency_versions v)) then insert k A else A"
  have "?A \<subseteq> (derived_from memo')\<^sup>* `` A"
    using "2.prems" by (auto simp: derived_from_def list_ex_iff simp del: set_map intro!: rtrancl_into_rtrancl)
  then have "(derived_from memo')\<^sup>* `` ?A \<subseteq> (derived_from memo')\<^sup>* `` ((derived_from memo')\<^sup>* `` A)"
    by (rule Image_mono [OF subset_refl])
  also have "\<dots> = (derived_from memo')\<^sup>* `` A" by (auto intro: rtrancl_trans)
  finally have "(derived_from memo')\<^sup>* `` ?A \<subseteq> (derived_from memo')\<^sup>* `` A" .
  with 2 show ?case by auto
qed auto

lemma affected_pass_closed:
  assumes "affected_pass memo A = A"
  shows "(k, v) \<in> set memo \<Longrightarrow> d \<in> set (od_keys (sv_dependency_versions v)) \<Longrightarrow> d \<in> A \<Longrightarrow> k \<in> A"
  using assms
proof (induction memo A rule: affected_pass.induct)
  case (2 k' v' rest A)
  let ?A = "if k' \<in> A then A else if list_ex (\<lambda>d. d \<in> A) (od_keys (sv_dependency_versions v')) then insert k' A else A"
  have "A \<subseteq> ?A" "?A \<subseteq> affected_pass rest ?A" using affected_pass_grows by auto
  then have same: "?A = A" using "2.prems"(4) by auto
  show ?case
  proof (cases "(k, v) = (k', v')")
    case True
    then have "list_ex (\<lambda>d. d \<in> A) (od_keys (sv_dependency_versions v'))" using "2.prems" by (auto simp: list_ex_iff simp del: set_map)
    with same True show ?thesis by (auto split: if_splits)
  next
    case False
    with "2.IH" "2.prems" same show ?thesis by (auto simp del: set_map)
  qed
qed simp

lemma affected_from_exact: "affected_from memo A = (derived_from memo)\<^sup>* `` A"
proof (induction memo A rule: affected_from.induct)
  case (1 memo A)
  show ?case
  proof (cases "affected_pass memo A = A")
    case True
    have "k \<in> A" if "(d, k) \<in> (derived_from memo)\<^sup>*" "d \<in> A" for d k
      using that affected_pass_closed [OF True] by (induction rule: rtrancl_induct) (auto simp: derived_from_def)
    then have "(derived_from memo)\<^sup>* `` A = A" by auto
    with True show ?thesis by (simp add: affected_from.simps)
  next
    case False
    have "(derived_from memo)\<^sup>* `` affected_pass memo A = (derived_from memo)\<^sup>* `` A"
    proof
      show "(derived_from memo)\<^sup>* `` affected_pass memo A \<subseteq> (derived_from memo)\<^sup>* `` A"
        using affected_pass_sound [of memo memo A] by (auto intro: rtrancl_trans)
      show "(derived_from memo)\<^sup>* `` A \<subseteq> (derived_from memo)\<^sup>* `` affected_pass memo A"
        using affected_pass_grows [of A memo] by auto
    qed
    with 1 False show ?thesis by (simp add: affected_from.simps [of memo A])
  qed
qed

text \<open>
  C32: A revalidation affects exactly the requested resources and those whose memoized values
  were derived, through any number of steps, from them; in particular the search for them ends.
\<close>

theorem affected_keys_exact: "affected_keys requested memo = (derived_from memo)\<^sup>* `` set requested"
  by (simp add: affected_keys_def affected_from_exact)

subsection \<open>The search for other sources ends\<close>

lemma skew_violation_keys:
  assumes "find_observation_skew_violation resources ks policy = Some v"
  shows "kv_oldest_key v \<in> set ks"
proof -
  have "fst ` set (resolved_items resources ks) \<subseteq> set ks"
    by (auto simp: resolved_items_def split: option.splits)
  moreover have "kv_oldest_key v \<in> fst ` set (resolved_items resources ks)"
    using assms min_by_in [of "\<lambda>item. sv_observed_at (snd item)" "hd (resolved_items resources ks)" "tl (resolved_items resources ks)"]
    by (auto simp: find_observation_skew_violation_def Let_def split: list.splits if_splits intro: imageI)
  ultimately show ?thesis by blast
qed

text \<open>The sources of the values, as the code names them, are in \<open>S\<close>.\<close>

definition sources_in :: "string set \<Rightarrow> (resource_key, snapshot_value) odict \<Rightarrow> bool" where
  "sources_in S d \<longleftrightarrow> (\<forall>k v. map_of d k = Some v \<longrightarrow> strip (sv_source v) \<in> S)"

definition answers_from :: "string set \<Rightarrow> 's resolver \<Rightarrow> bool" where
  "answers_from S resolve \<longleftrightarrow> (\<forall>ks w answers w'. resolve ks [] {} w = (Inr answers, w')
     \<longrightarrow> od_ok (fst answers) \<and> sources_in S (fst answers))"

definition untried :: "resource_key list \<Rightarrow> string set \<Rightarrow> fallback \<Rightarrow> nat" where
  "untried requested S fb = card (set requested \<times> S - set (fb_tried fb))"

lemma sources_in_update: "sources_in S d \<Longrightarrow> od_ok xs \<Longrightarrow> sources_in S xs \<Longrightarrow> sources_in S (od_update d xs)"
  by (auto simp: sources_in_def map_of_od_update map_add_def map_of_rev split: option.splits)

lemma fallback_call_again:
  assumes "fallback_call resolve ctx policy requested targets fb v excluded w = (Inr (Again fb' v'), w')"
  obtains rt w1 answers rt' w2 replacement where
    "with_runtime rt (resolve (retry_targets (kv_oldest_key v) (affected_keys [kv_oldest_key v] (rt_memo (fb_runtime fb))) targets)
       [] {}) w1 = (Inr (answers, rt'), w2)"
    "fb' = fb\<lparr>fb_tried := fb_tried fb @ [(kv_oldest_key v, excluded)],
       fb_values := od_update (fb_values fb) (fst answers), fb_runtime := rt'\<rparr>"
    "find_observation_skew_violation (fb_values fb') requested policy = Some v'"
  using assms unfolding fallback_call_def Let_def bind_act_Inr
  by (elim exE conjE) (auto simp: bind_act_Inr split: option.split_asm if_split_asm prod.split_asm)

lemma fallback_round_progress:
  assumes again: "fallback_round resolve ctx policy requested targets fb v w = (Inr (Again fb' v'), w')"
    and "finite S" "sources_in S (fb_values fb)" "kv_oldest_key v \<in> set requested"
    and resolver: "answers_from S resolve"
  shows "sources_in S (fb_values fb') \<and> kv_oldest_key v' \<in> set requested \<and> untried requested S fb' < untried requested S fb"
proof -
  from again obtain old where old: "map_of (fb_values fb) (kv_oldest_key v) = Some old"
    and new: "(kv_oldest_key v, strip (sv_source old)) \<notin> set (fb_tried fb)"
    and call: "fallback_call resolve ctx policy requested targets fb v (strip (sv_source old)) w = (Inr (Again fb' v'), w')"
    by (auto simp: fallback_round_def Let_def split: option.splits if_splits)
  let ?targets = "retry_targets (kv_oldest_key v) (affected_keys [kv_oldest_key v] (rt_memo (fb_runtime fb))) targets"
  from call obtain rt w1 answers rt' w2 replacement where
    run: "with_runtime rt (resolve ?targets [] {}) w1 = (Inr (answers, rt'), w2)"
    and fb': "fb' = fb\<lparr>fb_tried := fb_tried fb @ [(kv_oldest_key v, strip (sv_source old))],
        fb_values := od_update (fb_values fb) (fst answers), fb_runtime := rt'\<rparr>"
    and v': "find_observation_skew_violation (fb_values fb') requested policy = Some v'"
    by (rule fallback_call_again)
  obtain w3 where "resolve ?targets [] {} (w1\<lparr>w_rt := rt\<rparr>) = (Inr answers, w3)"
    using run by (auto simp: with_runtime_def split: prod.splits sum.splits)
  then have "od_ok (fst answers) \<and> sources_in S (fst answers)" using resolver unfolding answers_from_def by blast
  then have 1: "sources_in S (fb_values fb')" using assms(3) by (simp add: fb' sources_in_update)
  have "(kv_oldest_key v, strip (sv_source old)) \<in> set requested \<times> S"
    using assms(3,4) old by (auto simp: sources_in_def)
  with new have "set requested \<times> S - set (fb_tried fb') \<subset> set requested \<times> S - set (fb_tried fb)" by (auto simp: fb')
  then have "untried requested S fb' < untried requested S fb"
    using assms(2) by (simp add: untried_def psubset_card_mono)
  with 1 skew_violation_keys [OF v'] show ?thesis by blast
qed

lemma fallback_rounds_enough:
  assumes "finite S"
    and resolver: "answers_from S resolve"
  shows "untried requested S fb < n \<Longrightarrow> untried requested S fb < m \<Longrightarrow> sources_in S (fb_values fb)
    \<Longrightarrow> kv_oldest_key v \<in> set requested
    \<Longrightarrow> fallback_rounds n resolve ctx policy requested targets fb v w = fallback_rounds m resolve ctx policy requested targets fb v w
      \<and> (\<forall>fb' v' w'. fallback_rounds n resolve ctx policy requested targets fb v w \<noteq> (Inr (Again fb' v'), w'))"
proof (induction n arbitrary: m fb v w)
  case (Suc n)
  then obtain m' where m: "m = Suc m'" by (cases m) auto
  show ?case
  proof (cases "fallback_round resolve ctx policy requested targets fb v w")
    case (Pair r w1)
    show ?thesis
    proof (cases r)
      case (Inr x)
      show ?thesis
      proof (cases x)
        case (Again fb1 v1)
        from fallback_round_progress [OF Pair [unfolded Inr Again] assms(1) Suc.prems(3,4) resolver]
        have later: "sources_in S (fb_values fb1)" "kv_oldest_key v1 \<in> set requested"
          "untried requested S fb1 < untried requested S fb" by auto
        then have "untried requested S fb1 < n" "untried requested S fb1 < m'" using Suc.prems(1,2) m by auto
        from Suc.IH [OF this later(1,2), of w1] show ?thesis by (auto simp: m Pair Inr Again bind_act_def)
      qed (simp add: m Pair Inr bind_act_def)
    qed (simp add: m Pair bind_act_def)
  qed
qed simp


subsection \<open>Sessions carried out\<close>

definition fixture_resolve :: "memory_cache resolver" where
  "fixture_resolve = resolve_many 2 unreached (fixture_app 1) fixture_builder (fixture_context None)"

definition fixture_state :: "memory_cache session_state" where
  "fixture_state = (new_session (fixture_context None), fixture_world)"

definition fixture_pinned_state :: "memory_cache session_state" where
  "fixture_pinned_state = ((new_session (fixture_context None))\<lparr>ss_resources := [(fixture_key ''quote'', fixture_value ''quote'' 70 0)]\<rparr>,
     fixture_world\<lparr>w_rt := new_runtime\<lparr>rt_memo := [(fixture_key ''quote'', fixture_value ''quote'' 70 0)]\<rparr>\<rparr>)"

lemma fixture_stage_delivers:
  "(case fst (session_resolve (fixture_app 1) fixture_builder fixture_resolve [fixture_key ''quote''] True False fixture_state) of
      Inr (Inr snapshot) \<Rightarrow> True | _ \<Rightarrow> False) = True"
  by code_simp

lemma fixture_stage:
  obtains snapshot st' where "session_resolve (fixture_app 1) fixture_builder
      (resolve_many 2 unreached (fixture_app 1) fixture_builder (ss_context (fst fixture_state)))
      [fixture_key ''quote''] True False fixture_state = (Inr (Inr snapshot), st')"
proof -
  have "session_resolve (fixture_app 1) fixture_builder
      (resolve_many 2 unreached (fixture_app 1) fixture_builder (ss_context (fst fixture_state)))
      [fixture_key ''quote''] True False fixture_state
    = session_resolve (fixture_app 1) fixture_builder fixture_resolve [fixture_key ''quote''] True False fixture_state"
    by (simp add: fixture_resolve_def fixture_state_def new_session_def del: resolve_many.simps)
  with fixture_stage_delivers that show thesis
    by (cases "session_resolve (fixture_app 1) fixture_builder fixture_resolve [fixture_key ''quote''] True False fixture_state")
      (auto simp del: resolve_many.simps split: sum.splits)
qed


lemma strict_stage_complete_witness:
  "\<exists>snapshot. {fixture_key ''quote''} \<subseteq> set (od_keys (sn_resources snapshot)) - set (od_keys (sn_errors (snapshot :: py_error snapshot)))"
proof -
  obtain snapshot st' where "session_resolve (fixture_app 1) fixture_builder
      (resolve_many 2 unreached (fixture_app 1) fixture_builder (ss_context (fst fixture_state)))
      [fixture_key ''quote''] True False fixture_state = (Inr (Inr snapshot), st')" by (rule fixture_stage)
  from strict_stage_complete [OF this] show ?thesis by (intro exI) simp
qed

lemma fixture_revalidates:
  "(case session_revalidate 3 (fixture_app 1) fixture_builder fixture_resolve [fixture_key ''quote''] True True
       (Some \<lparr>cp_max_observation_skew_seconds = 5, cp_include_optional_resources = False\<rparr>) None fixture_pinned_state of
      (r, st') \<Rightarrow> map_option sv_observed_at (map_of (ss_resources (fst st')) (fixture_key ''quote''))) = Some 103"
  by code_simp


text \<open>A resolver whose values come from one source.\<close>

definition fixture_answers :: "memory_cache resolver" where
  "fixture_answers ks anc lo = ret (od_of (map (\<lambda>k. (k, fixture_value ''quote'' 90 0)) ks), [])"

definition fixture_skewed :: "(resource_key, snapshot_value) odict" where
  "fixture_skewed = [(fixture_key ''quote'', fixture_value ''quote'' 70 0), (fixture_key ''trade'', fixture_value ''trade'' 100 0)]"

lemma fixture_skew:
  "find_observation_skew_violation fixture_skewed [fixture_key ''quote'', fixture_key ''trade'']
     \<lparr>cp_max_observation_skew_seconds = 5, cp_include_optional_resources = False\<rparr>
   = Some \<lparr>kv_keys = [fixture_key ''quote'', fixture_key ''trade''], kv_oldest_key = fixture_key ''quote'', kv_oldest_observed_at = 70,
       kv_newest_key = fixture_key ''trade'', kv_newest_observed_at = 100, kv_observation_skew_seconds = 30,
       kv_max_observation_skew_seconds = 5\<rparr>"
  by code_simp

lemma fixture_answers_from: "answers_from {''feed''} fixture_answers"
proof -
  have feed: "sv_source v = ''feed''" if "map_of (od_of (map (\<lambda>k. (k, fixture_value ''quote'' 90 0)) ks)) k = Some v" for ks k v
    using that by (auto simp: map_of_od_of fixture_value_def dest!: map_of_SomeD)
  have "sources_in {''feed''} (od_of (map (\<lambda>k. (k, fixture_value ''quote'' 90 0)) ks))" for ks
    unfolding sources_in_def
  proof (intro allI impI)
    fix k v
    assume "map_of (od_of (map (\<lambda>k. (k, fixture_value ''quote'' 90 0)) ks)) k = Some v"
    then have "sv_source v = ''feed''" by (rule feed)
    then show "strip (sv_source v) \<in> {''feed''}" by (simp add: strip_def is_space_def)
  qed
  then show ?thesis by (simp add: answers_from_def fixture_answers_def)
qed


end
