(* ===== verification/Refresh.thy ===== *)
theory Refresh
  imports Session
begin

section \<open>Background refreshes (orchestration/refresh.py)\<close>

text \<open>
  First one refresh as an operation on the world: it resolves its key under a runtime and a
  context of its own, in the coalesced flight of the key, and reports how it ended. Then the
  table of tasks that the manager keeps, as a machine whose steps are the sections the event
  loop runs without interruption: scheduling, the end of a task, the callback that the loop
  runs later, and closing. Scheduling as the resolver sees it (\<open>schedule_refresh\<close>, on the keys
  whose task is not done) is an abstraction of that table.
\<close>

subsection \<open>One refresh\<close>

definition refresh_context :: "app \<Rightarrow> fetch_context \<Rightarrow> string \<Rightarrow> 's world \<Rightarrow> fetch_context" where
  "refresh_context ap parent reason w =
     \<lparr>fc_requested_at = w_now w, fc_deadline_at = None, fc_deadline_monotonic = None,
      fc_metadata = od_update (fc_metadata parent)
        [(''background_refresh'', PyBool True), (''refresh_reason'', PyStr reason),
         (''parent_snapshot_id'', PyStr (fc_snapshot_id parent))],
      fc_snapshot_id = fc_snapshot_id parent @ '':refresh:'' @ take 8 (ap_uuid ap (w_tick w))\<rparr>"

definition refresh_runtime :: resolution_runtime where
  "refresh_runtime = new_runtime\<lparr>rt_cache_stale_results := False\<rparr>"

definition refresh_flight ::
  "app \<Rightarrow> 's builder \<Rightarrow> (fetch_context \<Rightarrow> 's resolver) \<Rightarrow> fetch_context \<Rightarrow> resource_key
    \<Rightarrow> ('s world, (resource_key, resolution_result \<times> bool) odict) act" where
  "refresh_flight ap bl resolve ctx k =
     bind_act (with_runtime refresh_runtime
                 (run_flight ap (\<lambda>own. resolve_owned_keys ap bl (resolve ctx) ctx [] (set own) own) [k]))
       (\<lambda>(results, rt). ret results)"

text \<open>Only a value that is not stale counts.\<close>

definition refreshed_value ::
  "resource_key \<Rightarrow> (resource_key, resolution_result \<times> bool) odict \<Rightarrow> py_error + snapshot_value" where
  "refreshed_value k results =
     res_bind (require (map_of results k) (key_error k)) (\<lambda>(r, joined).
       case r of
         Inl e \<Rightarrow> Inl e
       | Inr v \<Rightarrow>
           if sv_stale v
           then Inl (SourceUnavailableError (''background refresh for '' @ key_str k @ '' did not produce a fresh value''))
           else Inr v)"

definition refresh_metric :: "resource_key \<Rightarrow> string \<Rightarrow> obs" where
  "refresh_metric k status = MetricIncrement ''resource_refresh_total'' ((''status'', status) # resource_metric_labels k)"

definition note_refresh_completed :: "resource_key \<Rightarrow> string \<Rightarrow> snapshot_value \<Rightarrow> 's world \<Rightarrow> 's world" where
  "note_refresh_completed k reason v w =
     emit [refresh_metric k ''success'',
           EventEmit ''resource_refresh_completed''
             [(''resource'', PyStr (key_str k)), (''source'', PyStr (sv_source v)), (''reason'', PyStr reason)]]
       (count_diag (\<lambda>d. d\<lparr>dc_refresh_completed := dc_refresh_completed d + 1\<rparr>) w)"

definition note_refresh_cancelled :: "resource_key \<Rightarrow> 's world \<Rightarrow> 's world" where
  "note_refresh_cancelled k w =
     emit [refresh_metric k ''cancelled''] (count_diag (\<lambda>d. d\<lparr>dc_refresh_failed := dc_refresh_failed d + 1\<rparr>) w)"

definition note_refresh_failed :: "resource_key \<Rightarrow> string \<Rightarrow> py_error \<Rightarrow> 's world \<Rightarrow> 's world" where
  "note_refresh_failed k reason e w =
     emit [refresh_metric k ''failure'',
           EventEmit ''resource_refresh_failed''
             [(''resource'', PyStr (key_str k)), (''reason'', PyStr reason), (''error_type'', PyStr (error_type e)),
              (''error'', PyStr (error_str e))]]
       (count_diag (\<lambda>d. d\<lparr>dc_refresh_failed := dc_refresh_failed d + 1\<rparr>) w)"

definition refresh_resource ::
  "app \<Rightarrow> 's builder \<Rightarrow> (fetch_context \<Rightarrow> 's resolver) \<Rightarrow> fetch_context \<Rightarrow> string \<Rightarrow> resource_key \<Rightarrow> ('s world, unit) act" where
  "refresh_resource ap bl resolve parent reason k =
     bind_act (reads (refresh_context ap parent reason)) (\<lambda>ctx.
       handle (bind_act (refresh_flight ap bl resolve ctx k) (\<lambda>results. lift_res (refreshed_value k results)))
         (\<lambda>v. updates (note_refresh_completed k reason v))
         (\<lambda>e. if is_exception e then updates (note_refresh_failed k reason e)
              else bind_act (updates (note_refresh_cancelled k)) (\<lambda>_. throw e)))"

text \<open>The task, up to the callback that forgets it.\<close>

definition refresh_task ::
  "app \<Rightarrow> 's builder \<Rightarrow> (fetch_context \<Rightarrow> 's resolver) \<Rightarrow> fetch_context \<Rightarrow> string \<Rightarrow> resource_key \<Rightarrow> 's world \<Rightarrow> 's world" where
  "refresh_task ap bl resolve parent reason k w =
     (let w' = snd (refresh_resource ap bl resolve parent reason k w)
      in w'\<lparr>w_refreshing := removeAll k (w_refreshing w')\<rparr>)"

subsection \<open>The table of tasks\<close>

text \<open>Tasks are numbered in the order of their creation; \<open>rm_phase\<close> has the key and the phase of each.\<close>

datatype task_phase = Working | Completed | Settled

record refresh_manager =
  rm_tasks :: "(resource_key, nat) odict"
  rm_closed :: bool
  rm_phase :: "(resource_key \<times> task_phase) list"

definition new_refresh_manager :: refresh_manager where
  "new_refresh_manager = \<lparr>rm_tasks = [], rm_closed = False, rm_phase = []\<rparr>"

definition refresh_count :: "refresh_manager \<Rightarrow> nat" where
  "refresh_count m = length (rm_tasks m)"

definition task_done :: "refresh_manager \<Rightarrow> nat \<Rightarrow> bool" where
  "task_done m t \<longleftrightarrow> snd (rm_phase m ! t) \<noteq> Working"

definition start_task :: "resource_key \<Rightarrow> refresh_manager \<Rightarrow> refresh_manager" where
  "start_task k m = m\<lparr>rm_tasks := od_set k (length (rm_phase m)) (rm_tasks m), rm_phase := rm_phase m @ [(k, Working)]\<rparr>"

definition manager_schedule :: "resource_key \<Rightarrow> refresh_manager \<Rightarrow> bool \<times> refresh_manager" where
  "manager_schedule k m =
     (if rm_closed m then (False, m)
      else case map_of (rm_tasks m) k of
             Some t \<Rightarrow> if \<not> task_done m t then (True, m) else (True, start_task k m)
           | None \<Rightarrow> (True, start_task k m))"

definition set_phase :: "nat \<Rightarrow> task_phase \<Rightarrow> refresh_manager \<Rightarrow> refresh_manager" where
  "set_phase t p m = m\<lparr>rm_phase := (rm_phase m)[t := (fst (rm_phase m ! t), p)]\<rparr>"

text \<open>The callback of a finished task: the table may already name its successor.\<close>

definition finish_task :: "nat \<Rightarrow> refresh_manager \<Rightarrow> refresh_manager" where
  "finish_task t m =
     (let k = fst (rm_phase m ! t); m' = set_phase t Settled m
      in if map_of (rm_tasks m) k = Some t then m'\<lparr>rm_tasks := od_pop k (rm_tasks m)\<rparr> else m')"

text \<open>Closing returns the tasks it waits for.\<close>

definition manager_close :: "refresh_manager \<Rightarrow> nat list \<times> refresh_manager" where
  "manager_close m = (map snd (rm_tasks m), m\<lparr>rm_closed := True\<rparr>)"

text \<open>\<^verbatim>\<open>wait\<close> returns when the table is empty.\<close>

definition nothing_to_wait_for :: "refresh_manager \<Rightarrow> bool" where
  "nothing_to_wait_for m \<longleftrightarrow> rm_tasks m = []"

datatype manager_event = Schedule resource_key | TaskEnds nat | TaskFinished nat | ManagerCloses

fun manager_step :: "refresh_manager \<Rightarrow> manager_event \<Rightarrow> refresh_manager \<Rightarrow> bool" where
  "manager_step m (Schedule k) m' \<longleftrightarrow> m' = snd (manager_schedule k m)"
| "manager_step m (TaskEnds t) m' \<longleftrightarrow> t < length (rm_phase m) \<and> snd (rm_phase m ! t) = Working \<and> m' = set_phase t Completed m"
| "manager_step m (TaskFinished t) m' \<longleftrightarrow> t < length (rm_phase m) \<and> snd (rm_phase m ! t) = Completed \<and> m' = finish_task t m"
| "manager_step m ManagerCloses m' \<longleftrightarrow> m' = snd (manager_close m)"

subsection \<open>No task is lost\<close>

text \<open>
  The invariant: the table names tasks of their keys whose callback is still to come, and
  every task that is working is the one its key names.
\<close>

definition task_of :: "refresh_manager \<Rightarrow> resource_key \<Rightarrow> nat option" where
  "task_of m k = map_of (rm_tasks m) k"

definition manager_ok :: "refresh_manager \<Rightarrow> bool" where
  "manager_ok m \<longleftrightarrow> od_ok (rm_tasks m)
     \<and> (\<forall>k t. task_of m k = Some t \<longrightarrow> t < length (rm_phase m) \<and> fst (rm_phase m ! t) = k \<and> snd (rm_phase m ! t) \<noteq> Settled)
     \<and> (\<forall>t < length (rm_phase m). snd (rm_phase m ! t) = Working \<longrightarrow> task_of m (fst (rm_phase m ! t)) = Some t)"

lemma manager_okI:
  assumes "od_ok (rm_tasks m)"
    and "\<And>k t. task_of m k = Some t \<Longrightarrow> t < length (rm_phase m) \<and> fst (rm_phase m ! t) = k \<and> snd (rm_phase m ! t) \<noteq> Settled"
    and "\<And>t. t < length (rm_phase m) \<Longrightarrow> snd (rm_phase m ! t) = Working \<Longrightarrow> task_of m (fst (rm_phase m ! t)) = Some t"
  shows "manager_ok m"
  using assms by (simp add: manager_ok_def)

lemma manager_okD:
  assumes "manager_ok m"
  shows "od_ok (rm_tasks m)"
    and "task_of m k = Some t \<Longrightarrow> t < length (rm_phase m)"
    and "task_of m k = Some t \<Longrightarrow> fst (rm_phase m ! t) = k"
    and "task_of m k = Some t \<Longrightarrow> snd (rm_phase m ! t) \<noteq> Settled"
    and "t < length (rm_phase m) \<Longrightarrow> snd (rm_phase m ! t) = Working \<Longrightarrow> task_of m (fst (rm_phase m ! t)) = Some t"
  using assms by (auto simp: manager_ok_def)

lemma task_of_start: "task_of (start_task k m) k' = (if k' = k then Some (length (rm_phase m)) else task_of m k')"
  by (simp add: task_of_def start_task_def map_of_od_set)

lemma phase_start [simp]: "rm_phase (start_task k m) = rm_phase m @ [(k, Working)]"
  by (simp add: start_task_def)

lemma closed_start [simp]: "rm_closed (start_task k m) = rm_closed m"
  by (simp add: start_task_def)

lemma set_phase_simps [simp]:
  "rm_tasks (set_phase t p m) = rm_tasks m" "rm_closed (set_phase t p m) = rm_closed m"
  "length (rm_phase (set_phase t p m)) = length (rm_phase m)" "task_of (set_phase t p m) = task_of m"
  by (simp_all add: set_phase_def task_of_def fun_eq_iff)

lemma set_phase_nth: "t < length (rm_phase m) \<Longrightarrow>
  rm_phase (set_phase t p m) ! u = (if u = t then (fst (rm_phase m ! t), p) else rm_phase m ! u)"
  by (simp add: set_phase_def nth_list_update)

lemma phase_finish [simp]: "rm_phase (finish_task t m) = rm_phase (set_phase t Settled m)"
  by (simp add: finish_task_def Let_def)

lemma task_of_finish:
  assumes "od_ok (rm_tasks m)"
  shows "task_of (finish_task t m) k = (if k = fst (rm_phase m ! t) \<and> task_of m k = Some t then None else task_of m k)"
proof (cases "map_of (rm_tasks m) (fst (rm_phase m ! t)) = Some t")
  case True
  then have "rm_tasks (finish_task t m) = od_pop (fst (rm_phase m ! t)) (rm_tasks m)"
    unfolding finish_task_def Let_def by simp
  with True show ?thesis by (simp add: task_of_def)
next
  case False
  then have "rm_tasks (finish_task t m) = rm_tasks m" unfolding finish_task_def Let_def by simp
  with False show ?thesis unfolding task_of_def by metis
qed

lemma start_task_ok:
  assumes "manager_ok m" "\<And>t. task_of m k = Some t \<Longrightarrow> task_done m t"
  shows "manager_ok (start_task k m)"
proof (rule manager_okI)
  show "od_ok (rm_tasks (start_task k m))" using manager_okD(1) [OF assms(1)] by (simp add: start_task_def od_ok_od_set)
  fix k' t
  show "task_of (start_task k m) k' = Some t \<Longrightarrow> t < length (rm_phase (start_task k m))
      \<and> fst (rm_phase (start_task k m) ! t) = k' \<and> snd (rm_phase (start_task k m) ! t) \<noteq> Settled"
    using manager_okD(2,3,4) [OF assms(1), of k' t] by (auto simp: task_of_start nth_append split: if_splits)
  show "task_of (start_task k m) (fst (rm_phase (start_task k m) ! t)) = Some t"
    if "t < length (rm_phase (start_task k m))" "snd (rm_phase (start_task k m) ! t) = Working"
    using that manager_okD(5) [OF assms(1), of t] assms(2) [of t]
    by (auto simp: task_of_start nth_append task_done_def less_Suc_eq split: if_splits)
qed

lemma manager_schedule_ok: "manager_ok m \<Longrightarrow> manager_ok (snd (manager_schedule k m))"
  by (auto simp: manager_schedule_def task_of_def intro!: start_task_ok split: option.splits)

lemma task_ends_ok:
  assumes "manager_ok m" "t < length (rm_phase m)"
  shows "manager_ok (set_phase t Completed m)"
proof (rule manager_okI)
  show "od_ok (rm_tasks (set_phase t Completed m))" using manager_okD(1) [OF assms(1)] by simp
qed (use manager_okD(2-5) [OF assms(1)] assms(2) in \<open>auto simp: set_phase_nth split: if_splits\<close>)

lemma finish_task_ok:
  assumes "manager_ok m" "t < length (rm_phase m)" "snd (rm_phase m ! t) = Completed"
  shows "manager_ok (finish_task t m)"
proof (rule manager_okI)
  note ok = manager_okD(1) [OF assms(1)]
  show "od_ok (rm_tasks (finish_task t m))" using ok by (simp add: finish_task_def Let_def od_ok_od_pop)
  fix k u
  show "task_of (finish_task t m) k = Some u \<Longrightarrow> u < length (rm_phase (finish_task t m))
      \<and> fst (rm_phase (finish_task t m) ! u) = k \<and> snd (rm_phase (finish_task t m) ! u) \<noteq> Settled"
    using manager_okD(2,3,4) [OF assms(1), of k u] by (auto simp: task_of_finish [OF ok] set_phase_nth [OF assms(2)] split: if_splits)
  show "task_of (finish_task t m) (fst (rm_phase (finish_task t m) ! u)) = Some u"
    if "u < length (rm_phase (finish_task t m))" "snd (rm_phase (finish_task t m) ! u) = Working"
    using that manager_okD(5) [OF assms(1), of u] assms(3) by (auto simp: task_of_finish [OF ok] set_phase_nth [OF assms(2)] split: if_splits)
qed

interpretation refresh_machine: machine manager_step manager_ok
proof
  fix m l m'
  assume "manager_ok m" "manager_step m l m'"
  then show "manager_ok m'"
    by (cases l) (auto intro: manager_schedule_ok task_ends_ok finish_task_ok,
      simp add: manager_close_def manager_ok_def task_of_def)
qed

lemma new_manager_ok: "manager_ok new_refresh_manager"
  by (simp add: manager_ok_def new_refresh_manager_def task_of_def)

lemmas manager_reachable = refresh_machine.run_inv [OF _ new_manager_ok]

lemma working_registered:
  assumes "manager_ok m" "t < length (rm_phase m)" "\<not> task_done m t"
  shows "(fst (rm_phase m ! t), t) \<in> set (rm_tasks m)"
  using manager_okD(5) [OF assms(1,2)] assms(3) map_of_SomeD by (fastforce simp: task_done_def task_of_def)

lemma idle_done:
  assumes "manager_ok m" "nothing_to_wait_for m" "t < length (rm_phase m)"
  shows "task_done m t"
proof (rule ccontr)
  assume "\<not> task_done m t"
  from working_registered [OF assms(1,3) this] assms(2) show False unfolding nothing_to_wait_for_def by (metis list.set(1) empty_iff)
qed

text \<open>
  C16: The manager loses no task: whatever is scheduled, ends, is forgotten by its callback, in
  whatever order, a key never has two refreshes at work, every refresh at work is in the table, and when \<^verbatim>\<open>wait\<close> finds
  the table empty none is at work.
\<close>

theorem refresh_tasks_tracked:
  assumes "run_of manager_step new_refresh_manager events m"
  shows "(\<forall>t < length (rm_phase m). \<not> task_done m t \<longrightarrow> (fst (rm_phase m ! t), t) \<in> set (rm_tasks m))
    \<and> (\<forall>t < length (rm_phase m). \<forall>u < length (rm_phase m).
          \<not> task_done m t \<and> \<not> task_done m u \<and> fst (rm_phase m ! t) = fst (rm_phase m ! u) \<longrightarrow> t = u)
    \<and> (nothing_to_wait_for m \<longrightarrow> (\<forall>t < length (rm_phase m). task_done m t))"
proof -
  note ok = manager_reachable [OF assms]
  show ?thesis
  proof (intro conjI allI impI)
    fix t u
    assume t: "t < length (rm_phase m)"
    show "(fst (rm_phase m ! t), t) \<in> set (rm_tasks m)" if "\<not> task_done m t" by (rule working_registered [OF ok t that])
    show "task_done m t" if "nothing_to_wait_for m" by (rule idle_done [OF ok that t])
    assume "u < length (rm_phase m)"
      and "\<not> task_done m t \<and> \<not> task_done m u \<and> fst (rm_phase m ! t) = fst (rm_phase m ! u)"
    then have "task_of m (fst (rm_phase m ! t)) = Some t" "task_of m (fst (rm_phase m ! t)) = Some u"
      using manager_okD(5) [OF ok t] manager_okD(5) [OF ok, of u] unfolding task_done_def by metis+
    then show "t = u" by simp
  qed
qed

subsection \<open>Closing drains\<close>

text \<open>After closing, the only tasks at work are those of before, which close waits for.\<close>

definition draining :: "nat \<Rightarrow> nat list \<Rightarrow> refresh_manager \<Rightarrow> bool" where
  "draining n awaited m \<longleftrightarrow> rm_closed m \<and> length (rm_phase m) = n \<and> (\<forall>t < n. \<not> task_done m t \<longrightarrow> t \<in> set awaited)"

lemma finish_closed [simp]: "rm_closed (finish_task t m) = rm_closed m"
  by (simp add: finish_task_def Let_def)

lemma task_done_set_phase:
  "t < length (rm_phase m) \<Longrightarrow> p \<noteq> Working \<Longrightarrow> task_done (set_phase t p m) u \<longleftrightarrow> u = t \<or> task_done m u"
  by (simp add: task_done_def set_phase_nth)

lemma task_done_finish: "t < length (rm_phase m) \<Longrightarrow> task_done (finish_task t m) u \<longleftrightarrow> u = t \<or> task_done m u"
  using task_done_set_phase [of t m Settled u] by (simp add: task_done_def)

lemma task_done_close: "task_done (snd (manager_close m)) t = task_done m t"
  by (simp add: task_done_def manager_close_def)

interpretation drain_machine: machine manager_step "draining n awaited" for n awaited
proof
  fix m l m'
  assume d: "draining n awaited m" and "manager_step m l m'"
  then show "draining n awaited m'"
  proof (cases l)
    case (Schedule k)
    with d \<open>manager_step m l m'\<close> show ?thesis by (simp add: draining_def manager_schedule_def)
  next
    case (TaskEnds t)
    with d \<open>manager_step m l m'\<close> show ?thesis by (simp add: draining_def task_done_set_phase)
  next
    case (TaskFinished t)
    with d \<open>manager_step m l m'\<close> show ?thesis by (simp add: draining_def task_done_finish)
  next
    case ManagerCloses
    with d \<open>manager_step m l m'\<close> show ?thesis by (simp add: draining_def task_done_close) (simp add: manager_close_def)
  qed
qed

text \<open>
  Closing drains: once the tasks that close waits for are done, no refresh is at work any
  more, and none is started later, whatever is asked of the manager in the meantime.
\<close>

lemma refresh_close_drains:
  assumes "run_of manager_step new_refresh_manager events m"
    and "run_of manager_step (snd (manager_close m)) later m'"
    and "\<forall>t \<in> set (fst (manager_close m)). task_done m' t"
  shows "length (rm_phase m') = length (rm_phase m) \<and> (\<forall>t < length (rm_phase m'). task_done m' t)
    \<and> (\<forall>k. manager_schedule k m' = (False, m'))"
proof -
  have ok: "manager_ok m" by (rule manager_reachable [OF assms(1)])
  have "t \<in> set (map snd (rm_tasks m))" if "t < length (rm_phase m)" "\<not> task_done m t" for t
    using imageI [OF working_registered [OF ok that], of snd] by simp
  then have "draining (length (rm_phase m)) (fst (manager_close m)) (snd (manager_close m))"
    by (simp add: draining_def manager_close_def task_done_def)
  from drain_machine.run_inv [OF assms(2) this] assms(3) show ?thesis
    by (auto simp: draining_def manager_schedule_def)
qed

subsection \<open>Scheduling as the resolver sees it\<close>

text \<open>The keys at work, and whether the manager is closed.\<close>

definition working_keys :: "refresh_manager \<Rightarrow> resource_key set" where
  "working_keys m = {fst (rm_phase m ! t) |t. t < length (rm_phase m) \<and> \<not> task_done m t}"

definition manager_abs :: "refresh_manager \<Rightarrow> 's world \<Rightarrow> bool" where
  "manager_abs m w \<longleftrightarrow> set (w_refreshing w) = working_keys m \<and> w_refresh_closed w = rm_closed m"

lemma working_keys_start:
  shows "working_keys (start_task k m) = insert k (working_keys m)"
proof -
  have "task_done (start_task k m) t = task_done m t" if "t < length (rm_phase m)" for t
    using that by (simp add: task_done_def start_task_def nth_append)
  then show ?thesis
    by (force simp: working_keys_def start_task_def nth_append task_done_def less_Suc_eq)
qed

lemma working_keys_iff:
  assumes "manager_ok m"
  shows "k \<in> working_keys m \<longleftrightarrow> (\<exists>t. task_of m k = Some t \<and> \<not> task_done m t)"
  using manager_okD(2,3,5) [OF assms] by (fastforce simp: working_keys_def task_done_def)

text \<open>
  \<open>schedule_refresh\<close>, on the keys with a refresh at work, is what \<^verbatim>\<open>RefreshManager.schedule\<close>
  does with its table of tasks: the answer is the same and the keys at work stay in step, also
  while the callbacks of finished tasks are still to run.
\<close>

lemma schedule_refines_table:
  assumes "run_of manager_step new_refresh_manager events m" "manager_abs m w"
  shows "\<exists>w'. schedule_refresh ctx reason k w = (Inr (fst (manager_schedule k m)), w')
    \<and> manager_abs (snd (manager_schedule k m)) w'"
proof -
  have ok: "manager_ok m" by (rule manager_reachable [OF assms(1)])
  show ?thesis using assms(2) working_keys_iff [OF ok, of k] working_keys_start [of k m]
    by (auto simp: schedule_refresh_def manager_schedule_def manager_abs_def task_of_def emit_def count_diag_def
        split: option.splits)
qed

subsection \<open>A refresh is contained\<close>

text \<open>What one refresh reports when it ends.\<close>

fun refresh_report :: "resource_key \<Rightarrow> string \<Rightarrow> py_error + snapshot_value \<Rightarrow> 's world \<Rightarrow> 's world" where
  "refresh_report k reason (Inr v) = note_refresh_completed k reason v"
| "refresh_report k reason (Inl e) =
     (if is_exception e then note_refresh_failed k reason e else note_refresh_cancelled k)"

lemma with_runtime_keeps_leases:
  assumes "keeps (\<lambda>w w'. w_leases w' = w_leases w) m" "with_runtime rt m w = (r, w')"
  shows "w_rt w' = w_rt w" "w_leases w' = w_leases w"
  using assms by (auto simp: with_runtime_def keeps_def split: prod.splits sum.splits dest: spec [of _ "w\<lparr>w_rt := rt\<rparr>"])

lemma refreshed_value_fresh: "refreshed_value k results = Inr v \<Longrightarrow> \<not> sv_stale v"
  by (cases "map_of results k") (auto simp: refreshed_value_def split: sum.splits if_splits)

lemma refresh_flight_frame:
  assumes "refresh_flight ap bl (resolve_many n unreached ap bl) ctx k w = (r, w')"
  shows "w_rt w' = w_rt w" "w_leases w' = w_leases w"
proof -
  have resolve: "keeps (\<lambda>w w'. w_leases w' = w_leases w) (resolve_many n unreached ap bl ctx ks anc lo)" for ks anc lo
    by (rule lease_resolution.keeps_resolve_many) (simp add: keeps_def unreached_def)
  have flight: "keeps (\<lambda>w w'. w_leases w' = w_leases w)
      (run_flight ap (\<lambda>own. resolve_owned_keys ap bl (resolve_many n unreached ap bl ctx) ctx [] (set own) own) [k])"
    by (rule lease_resolution.keeps_run_flight, rule lease_resolution.keeps_resolve_owned, rule resolve)
  from assms obtain q where "with_runtime refresh_runtime
      (run_flight ap (\<lambda>own. resolve_owned_keys ap bl (resolve_many n unreached ap bl ctx) ctx [] (set own) own) [k]) w = (q, w')"
    by (auto simp: refresh_flight_def elim!: bind_act_cases split: prod.splits)
  from with_runtime_keeps_leases [OF flight this] show "w_rt w' = w_rt w" "w_leases w' = w_leases w" .
qed


subsection \<open>Refreshes carried out\<close>

definition fixture_schedule :: "manager_event list" where
  "fixture_schedule = [Schedule (fixture_key ''quote''), Schedule (fixture_key ''trade''), TaskEnds 0,
     Schedule (fixture_key ''quote''), TaskFinished 0]"

definition fixture_manager :: refresh_manager where
  "fixture_manager = \<lparr>rm_tasks = [(fixture_key ''quote'', 2), (fixture_key ''trade'', 1)], rm_closed = False,
     rm_phase = [(fixture_key ''quote'', Settled), (fixture_key ''trade'', Working), (fixture_key ''quote'', Working)]\<rparr>"

lemma fixture_run: "run_of manager_step new_refresh_manager fixture_schedule fixture_manager"
proof -
  have "fixture_key ''quote'' \<noteq> fixture_key ''trade''" by code_simp
  then show ?thesis
    by (auto simp: fixture_schedule_def fixture_manager_def new_refresh_manager_def manager_schedule_def start_task_def
        task_done_def set_phase_def finish_task_def Let_def od_pop_def numeral_2_eq_2 intro!: run_cons run_nil)
qed

theorem refresh_tasks_tracked_witness: "(fixture_key ''quote'', 2) \<in> set (rm_tasks fixture_manager)"
  using refresh_tasks_tracked [OF fixture_run] by (auto simp: fixture_manager_def task_done_def)

lemma schedule_refines_table_witness:
  "\<exists>w'. schedule_refresh (fixture_context None) ''reason'' (fixture_key ''quote'')
       (fixture_world\<lparr>w_refreshing := [fixture_key ''trade'', fixture_key ''quote'']\<rparr>)
     = (Inr (fst (manager_schedule (fixture_key ''quote'') fixture_manager)), w')"
proof -
  have "manager_abs fixture_manager (fixture_world\<lparr>w_refreshing := [fixture_key ''trade'', fixture_key ''quote'']\<rparr>)"
    by (auto simp: manager_abs_def working_keys_def fixture_manager_def fixture_world_def task_done_def less_Suc_eq
        intro: exI [of _ "1::nat"] exI [of _ "2::nat"])
  from schedule_refines_table [OF fixture_run this] show ?thesis by blast
qed

lemma refresh_close_drains_witness:
  "\<forall>k. manager_schedule k (set_phase 2 Completed (set_phase 1 Completed (snd (manager_close fixture_manager))))
    = (False, set_phase 2 Completed (set_phase 1 Completed (snd (manager_close fixture_manager))))"
proof -
  let ?m = "snd (manager_close fixture_manager)"
  have "run_of manager_step ?m [TaskEnds 1, TaskEnds 2] (set_phase 2 Completed (set_phase 1 Completed ?m))"
    by (auto simp: fixture_manager_def manager_close_def set_phase_def intro!: run_cons run_nil)
  from refresh_close_drains [OF fixture_run this] show ?thesis
    by (auto simp: fixture_manager_def manager_close_def set_phase_def task_done_def)
qed

lemma fixture_refresh_delivers:
  "(case refresh_resource (fixture_app 1) fixture_builder (resolve_many 2 unreached (fixture_app 1) fixture_builder)
      (fixture_context None) ''refresh_ahead'' (fixture_key ''quote'') fixture_world of
      (Inr (), w') \<Rightarrow> dc_refresh_completed (w_diag w') = 1 | _ \<Rightarrow> False) = True"
  by code_simp


end
