(* ===== verification/Builder.thy ===== *)
theory Builder
  imports Refresh
begin

section \<open>Sessions and one-stage builds of a builder (orchestration/builder.py)\<close>

text \<open>
  A builder opens sessions with an identity and a deadline, and builds a snapshot in one stage:
  a session is opened, resolved, reported on and closed, whatever happens in between. The
  runtime and the collector of the session are the fields \<open>w_rt\<close> and \<open>w_diag\<close> of the world, which
  opening a session sets. \<open>resolve\<close> is the resolver for a context.
\<close>

definition ensure_builder_open :: "('s world, unit) act" where
  "ensure_builder_open w =
     (if w_builder_closed w then (Inl (RuntimeError ''SnapshotBuilder is closed''), w) else (Inr (), w))"

text \<open>The time \<open>x\<close> seconds after \<open>t\<close>, as the addition of floats gives it.\<close>

definition seconds_after :: "rat \<Rightarrow> pynum \<Rightarrow> arg_error + pynum" where
  "seconds_after t x =
     res_bind (to_double x) (\<lambda>f. Inr (NFloat (case f of Fin r \<Rightarrow> Fin (t + r) | _ \<Rightarrow> f)))"

definition optional_after :: "rat \<Rightarrow> pynum option \<Rightarrow> arg_error + pynum option" where
  "optional_after t x = (case x of None \<Rightarrow> Inr None | Some d \<Rightarrow> res_bind (seconds_after t d) (\<lambda>v. Inr (Some v)))"

fun not_positive :: "pynum \<Rightarrow> bool" where
  "not_positive (NInt i) \<longleftrightarrow> i \<le> 0"
| "not_positive (NFloat f) \<longleftrightarrow> fle f (Fin 0)"

definition session_context ::
  "app \<Rightarrow> pynum option \<Rightarrow> metadata \<Rightarrow> string option \<Rightarrow> 's world \<Rightarrow> arg_error + fetch_context" where
  "session_context ap deadline md sid w =
     (let snapshot_id = (case sid of None \<Rightarrow> ap_uuid ap (w_tick w) | Some s \<Rightarrow> if s = '''' then ap_uuid ap (w_tick w) else s)
      in res_bind (optional_after (w_now w) deadline) (\<lambda>deadline_at.
         res_bind (optional_after (w_mono w) deadline) (\<lambda>deadline_monotonic.
           mk_fetch_context (NFloat (Fin (w_now w))) deadline_at deadline_monotonic md snapshot_id)))"

definition open_session ::
  "app \<Rightarrow> pynum option \<Rightarrow> metadata \<Rightarrow> string option \<Rightarrow> ('s world, session) act" where
  "open_session ap deadline md sid =
     bind_act ensure_builder_open (\<lambda>_.
     bind_act (lift_res (lift_arg (raise_if (case deadline of None \<Rightarrow> False | Some d \<Rightarrow> not_positive d)
                                     (ValueError ''deadline_seconds must be positive'')))) (\<lambda>_.
     bind_act (reads (session_context ap deadline md sid)) (\<lambda>made.
     bind_act (lift_res (lift_arg made)) (\<lambda>ctx.
     bind_act (updates (\<lambda>w. w\<lparr>w_rt := new_runtime, w_diag := new_collector (w_mono w)\<rparr>)) (\<lambda>_.
       ret (new_session ctx))))))"

text \<open>What is done in a session that is closed and dropped at the end.\<close>

definition in_session :: "session \<Rightarrow> ('s session_state, 'a) act \<Rightarrow> ('s world, 'a) act" where
  "in_session ss m w = (let (r, ss', w') = m (ss, w) in (r, w'))"

subsection \<open>Reports\<close>

definition diagnostics_object :: pyval where
  "diagnostics_object = PyObject ''SnapshotDiagnostics'' 0"

definition build_event :: "string \<Rightarrow> nat \<Rightarrow> nat \<Rightarrow> nat \<Rightarrow> bool \<Rightarrow> bool \<Rightarrow> pyval \<Rightarrow> obs" where
  "build_event sid resources resolved failed build_failed strict diagnostics =
     EventEmit ''snapshot_built''
       [(''snapshot_id'', PyStr sid), (''resources'', PyInt (int resources)), (''resolved'', PyInt (int resolved)),
        (''failed'', PyInt (int failed)), (''build_failed'', PyBool build_failed), (''strict'', PyBool strict),
        (''diagnostics'', diagnostics)]"

definition build_metric :: "bool \<Rightarrow> obs" where
  "build_metric failed = MetricIncrement ''snapshot_build_total'' [(''status'', if failed then ''error'' else ''success'')]"

definition record_failed_without_delivery :: "string \<Rightarrow> nat \<Rightarrow> bool \<Rightarrow> 's world \<Rightarrow> 's world" where
  "record_failed_without_delivery sid failed strict =
     emit [build_metric True, build_event sid failed 0 failed True strict PyNone]"

definition record_snapshot_built :: "py_error snapshot \<Rightarrow> bool \<Rightarrow> bool option \<Rightarrow> 's world \<Rightarrow> 's world" where
  "record_snapshot_built snapshot strict failed =
     (let build_failed = (case failed of None \<Rightarrow> sn_errors snapshot \<noteq> [] | Some b \<Rightarrow> b)
      in emit [build_metric build_failed,
               build_event (sn_snapshot_id snapshot) (length (sn_resources snapshot) + length (sn_errors snapshot))
                 (length (sn_resources snapshot)) (length (sn_errors snapshot)) build_failed strict diagnostics_object])"

text \<open>The report of a snapshot that is raised as an error, or delivered.\<close>

definition report_failure :: "session \<Rightarrow> bool \<Rightarrow> build_error \<Rightarrow> 's world \<Rightarrow> 's world" where
  "report_failure ss strict e =
     (case be_snapshot e of
        None \<Rightarrow> record_failed_without_delivery (fc_snapshot_id (ss_context ss)) (length (be_errors e)) strict
      | Some snapshot \<Rightarrow> record_snapshot_built snapshot strict (Some True))"

definition report_delivery :: "session \<Rightarrow> bool \<Rightarrow> bool option \<Rightarrow> delivery \<Rightarrow> 's world \<Rightarrow> 's world" where
  "report_delivery ss strict failed d =
     (case d of Inl e \<Rightarrow> report_failure ss strict e | Inr snapshot \<Rightarrow> record_snapshot_built snapshot strict failed)"

subsection \<open>Builds\<close>

definition builder_build ::
  "app \<Rightarrow> 's builder \<Rightarrow> (fetch_context \<Rightarrow> 's resolver) \<Rightarrow> resource_key list \<Rightarrow> bool \<Rightarrow> pynum option \<Rightarrow> metadata
    \<Rightarrow> string option \<Rightarrow> ('s world, delivery) act" where
  "builder_build ap bl resolve keys strict deadline md sid =
     bind_act ensure_builder_open (\<lambda>_.
     bind_act (open_session ap deadline md sid) (\<lambda>ss.
     bind_act (in_session ss (session_resolve ap bl (resolve (ss_context ss)) keys strict False)) (\<lambda>d.
     bind_act (updates (report_delivery ss strict None d)) (\<lambda>_. ret d))))"

definition build_request ::
  "app \<Rightarrow> 's builder \<Rightarrow> (fetch_context \<Rightarrow> 's resolver) \<Rightarrow> snapshot_request \<Rightarrow> pynum option \<Rightarrow> metadata
    \<Rightarrow> string option \<Rightarrow> ('s world, delivery) act" where
  "build_request ap bl resolve request deadline md sid =
     bind_act ensure_builder_open (\<lambda>_.
     bind_act (open_session ap deadline md sid) (\<lambda>ss.
     bind_act (in_session ss (session_resolve_request ap bl (resolve (ss_context ss)) request False)) (\<lambda>d.
     bind_act (updates (report_delivery ss True (Some False) d)) (\<lambda>_. ret d))))"

subsection \<open>A build delivers what it was asked for\<close>

lemma open_session_Inr:
  assumes "open_session ap deadline md sid w = (Inr ss, w1)"
  obtains ctx where "\<not> w_builder_closed w" "session_context ap deadline md sid w = Inr ctx" "ss = new_session ctx"
    "w1 = w\<lparr>w_rt := new_runtime, w_diag := new_collector (w_mono w)\<rparr>"
  using assms by (auto simp: open_session_def ensure_builder_open_def bind_act_Inr lift_arg_def split: if_splits sum.splits)

lemma session_context_fields:
  assumes "session_context ap deadline md sid w = Inr ctx"
  shows "fc_requested_at ctx = w_now w"
    "fc_snapshot_id ctx = (case sid of None \<Rightarrow> ap_uuid ap (w_tick w) | Some s \<Rightarrow> if s = '''' then ap_uuid ap (w_tick w) else s)"
  using assms
  by (auto simp: session_context_def mk_fetch_context_def require_finite_timestamp_def Let_def res_iff split: option.splits)

lemma new_session_fields [simp]:
  "ss_context (new_session ctx) = ctx" "ss_resources (new_session ctx) = []" "ss_errors (new_session ctx) = []"
  "ss_closed (new_session ctx) = False"
  by (simp_all add: new_session_def)

lemma pending_new_session: "pending_keys (new_session ctx) ks retry = ks" "retained_errors (new_session ctx) ks retry = []"
  by (simp_all add: pending_keys_def retained_errors_def)

text \<open>The snapshot of a strict stage of a new session has the keys asked for and no errors.\<close>

definition built_for :: "fetch_context \<Rightarrow> resource_key list \<Rightarrow> delivery \<Rightarrow> bool" where
  "built_for ctx keys d \<longleftrightarrow> (case d of Inl e \<Rightarrow> True
     | Inr s \<Rightarrow> set (od_keys (sn_resources s)) = set keys \<and> sn_errors s = []
         \<and> sn_snapshot_id s = fc_snapshot_id ctx \<and> sn_created_at s = fc_requested_at ctx)"

lemma only_part: "A \<union> B = K \<Longrightarrow> E = B \<Longrightarrow> K \<inter> E = {} \<Longrightarrow> B = {}"
  by blast

lemma strict_build_stage:
  "ensures (\<lambda>st. True) (resolve_stage ap bl (resolve_many n unreached ap bl ctx) (new_session ctx) ks True retry) (built_for ctx ks)"
proof (rule ensures_strict_snapshot)
  show "set (od_keys (fst answers)) \<union> set (od_keys (snd answers)) = set (pending_keys (new_session ctx) ks retry)"
    if "resolve_many n unreached ap bl ctx (pending_keys (new_session ctx) ks retry) [] {} w = (Inr answers, w')" for w answers w'
    by (rule resolve_many_keys [OF that])
  fix answers :: answers and s :: "py_error snapshot"
  assume Q: "set (od_keys (fst answers)) \<union> set (od_keys (snd answers)) = set (pending_keys (new_session ctx) ks retry)"
    and errors: "sn_errors s = od_update (retained_errors (new_session ctx) ks retry) (snd answers)"
    and resources: "set (od_keys (sn_resources s)) = set (od_keys (od_update (ss_resources (new_session ctx)) (fst answers)))"
    and ident: "sn_snapshot_id s = fc_snapshot_id (ss_context (new_session ctx))" "sn_created_at s = fc_requested_at (ss_context (new_session ctx))"
    and none: "errors_of (sn_errors s) ks = []"
  have "set (od_keys (sn_errors s)) = set (od_keys (snd answers))"
    by (simp add: errors pending_new_session set_od_keys_update del: set_map)
  moreover have "set ks \<inter> set (od_keys (sn_errors s)) = {}" using none by (simp add: errors_of_empty del: set_map)
  ultimately have "set (od_keys (snd answers)) = {}" by (rule only_part [OF Q [unfolded pending_new_session]])
  then have "snd answers = []" by simp
  moreover from this have "sn_errors s = []" by (simp add: errors pending_new_session od_update_def)
  ultimately show "built_for ctx ks (Inr s)"
    using Q resources ident by (simp add: built_for_def pending_new_session set_od_keys_update del: set_map)
qed (simp add: built_for_def)

text \<open>
  C15: A strict build that returns has built exactly what it was asked for: a snapshot of the
  keys given, each with a value and none with an error, with the identity given (or a new one)
  and the time of the call, and its last report says that the build succeeded with as many
  resources as there are in the snapshot.
\<close>

theorem strict_build_exact:
  assumes "builder_build ap bl (resolve_many n unreached ap bl) keys True deadline md sid w = (Inr (Inr snapshot), w')"
  shows "set (od_keys (sn_resources snapshot)) = set keys \<and> sn_errors snapshot = [] \<and> sn_created_at snapshot = w_now w
    \<and> sn_snapshot_id snapshot = (case sid of None \<Rightarrow> ap_uuid ap (w_tick w) | Some s \<Rightarrow> if s = '''' then ap_uuid ap (w_tick w) else s)
    \<and> (\<exists>log. w_log w' = log @ [build_metric False, build_event (sn_snapshot_id snapshot) (length (sn_resources snapshot))
           (length (sn_resources snapshot)) 0 False True diagnostics_object])"
proof -
  obtain ss w1 d w2 where opened: "open_session ap deadline md sid w = (Inr ss, w1)"
    and ran: "in_session ss (session_resolve ap bl (resolve_many n unreached ap bl (ss_context ss)) keys True False) w1 = (Inr d, w2)"
    and reported: "d = Inr snapshot" "w' = report_delivery ss True None d w2"
    using assms by (fastforce simp: builder_build_def bind_act_Inr ensure_builder_open_def split: if_splits)
  obtain ctx where ctx: "session_context ap deadline md sid w = Inr ctx" "ss = new_session ctx"
    using opened by (rule open_session_Inr)
  obtain ss2 where "session_resolve ap bl (resolve_many n unreached ap bl ctx) keys True False (ss, w1) = (Inr d, ss2, w2)"
    using ran by (auto simp: in_session_def ctx(2) split: prod.splits)
  then have "built_for ctx (fromkeys keys) d"
  proof (cases rule: stage_of_resolve)
    case (stage st1)
    from stage(2) have "resolve_stage ap bl (resolve_many n unreached ap bl ctx) (new_session ctx) (fromkeys keys) True False st1
        = (Inr d, ss2, w2)" by (simp add: ctx(2))
    from ensuresD [OF strict_build_stage TrueI this] show ?thesis by simp
  qed simp
  with session_context_fields [OF ctx(1)] reported show ?thesis
    by (auto simp: built_for_def report_delivery_def record_snapshot_built_def emit_def simp del: set_map)
qed

subsection \<open>Builds carried out\<close>

lemma fixture_build_delivers:
  "(case fst (builder_build (fixture_app 1) fixture_builder (resolve_many 2 unreached (fixture_app 1) fixture_builder)
        [fixture_key ''quote''] True (Some (NInt 30)) [] (Some ''s'') fixture_world) of
      Inr (Inr snapshot) \<Rightarrow> True | _ \<Rightarrow> False) = True"
  by code_simp

theorem strict_build_exact_witness:
  "\<exists>snapshot. set (od_keys (sn_resources (snapshot :: py_error snapshot))) = {fixture_key ''quote''} \<and> sn_snapshot_id snapshot = ''s''"
proof -
  obtain snapshot w' where run: "builder_build (fixture_app 1) fixture_builder (resolve_many 2 unreached (fixture_app 1) fixture_builder)
        [fixture_key ''quote''] True (Some (NInt 30)) [] (Some ''s'') fixture_world = (Inr (Inr snapshot), w')"
    using fixture_build_delivers
    by (cases "builder_build (fixture_app 1) fixture_builder (resolve_many 2 unreached (fixture_app 1) fixture_builder)
        [fixture_key ''quote''] True (Some (NInt 30)) [] (Some ''s'') fixture_world")
      (auto simp del: resolve_many.simps split: sum.splits)
  show ?thesis by (intro exI [of _ snapshot]) (use strict_build_exact [OF run] in simp)
qed

definition slow_delivery :: app where
  "slow_delivery = (fixture_app 1)\<lparr>ap_delay := (\<lambda>n. if n \<le> 8 then 1 else 9)\<rparr>"

definition late_build :: "(py_error + delivery) \<times> memory_cache world" where
  "late_build = builder_build slow_delivery fixture_builder (resolve_many 2 unreached slow_delivery fixture_builder)
     [fixture_key ''quote''] False (Some (NInt 8)) [] (Some ''s'') fixture_world"

lemma late_build_runs:
  "(case fst late_build of
      Inr (Inr s) \<Rightarrow> od_keys (sn_resources s) = [fixture_key ''quote''] \<and> od_keys (sn_errors s) = [fixture_key ''quote'']
        \<and> last (w_log (snd late_build)) = build_event ''s'' 2 1 1 True False diagnostics_object
    | _ \<Rightarrow> False) = True"
  by code_simp


end
