(* ===== verification/Shutdown.thy ===== *)
theory Shutdown
  imports Effects
begin

section \<open>Closing a builder (orchestration/builder.py, orchestration/lifecycle.py)\<close>

text \<open>
  Closing settles the refreshes, the payload copies, the components the builder manages, the
  buffers in front of its sinks and the sinks. What each of them does when it is asked to close is
  not known here: it is the record \<open>outcomes\<close>, and the components have outcomes of their own.
  The state is that of the builder together with the trace of the requests to close.
\<close>

subsection \<open>Components\<close>

text \<open>
  A closing method of a component: absent or not callable, a coroutine function with its
  outcome, or a plain function with its outcome and that of the awaitable it may return.
\<close>

datatype closing_method =
    NotCallable
  | CoroutineMethod "py_error option"
  | PlainMethod "py_error option" "py_error option option"

record closable =
  co_id :: nat
  co_aclose :: closing_method
  co_close :: closing_method

datatype close_request =
    CloseRefreshes bool
  | CloseCopies string "pyfloat option"
  | CloseComponent nat
  | CloseBuffer string "pyfloat option" bool

record shutdown_state =
  sd_closed :: bool
  sd_closing :: bool
  sd_downstreams_closed :: bool
  sd_trace :: "close_request list"

definition note_request :: "close_request \<Rightarrow> shutdown_state \<Rightarrow> shutdown_state" where
  "note_request r s = s\<lparr>sd_trace := sd_trace s @ [r]\<rparr>"

definition raise_opt :: "py_error option \<Rightarrow> ('s, unit) act" where
  "raise_opt r = (case r of None \<Rightarrow> ret () | Some e \<Rightarrow> throw e)"

fun closing_outcome :: "closing_method \<Rightarrow> py_error option" where
  "closing_outcome NotCallable = None"
| "closing_outcome (CoroutineMethod r) = r"
| "closing_outcome (PlainMethod r awaited) =
     (case r of Some e \<Rightarrow> Some e | None \<Rightarrow> (case awaited of None \<Rightarrow> None | Some r' \<Rightarrow> r'))"

definition component_outcome :: "closable \<Rightarrow> py_error option" where
  "component_outcome c = closing_outcome (if co_aclose c \<noteq> NotCallable then co_aclose c else co_close c)"

definition close_component :: "closable \<Rightarrow> (shutdown_state, unit) act" where
  "close_component c = bind_act (updates (note_request (CloseComponent (co_id c)))) (\<lambda>_. raise_opt (component_outcome c))"

fun close_unseen :: "nat set \<Rightarrow> closable list \<Rightarrow> (shutdown_state, unit) act" where
  "close_unseen seen [] = ret ()"
| "close_unseen seen (c # cs) =
     (if co_id c \<in> seen then close_unseen seen cs
      else bind_act (close_component c) (\<lambda>_. close_unseen (insert (co_id c) seen) cs))"

definition close_components :: "closable list \<Rightarrow> (shutdown_state, unit) act" where
  "close_components cs = close_unseen {} cs"

subsection \<open>The builder\<close>

record shutdown_config =
  sc_manage_lifecycle :: bool
  sc_owns_cache :: bool
  sc_copy_timeout :: pyfloat
  sc_observability_timeout :: pyfloat
  sc_drain :: bool
  sc_sources :: "closable list"
  sc_cache :: closable
  sc_cache_exposes_copy_lifecycle :: bool
  sc_cache_closes_copies :: bool
  sc_cache_close_is_complete :: bool
  sc_buffers :: "string list"
  sc_events_downstream :: closable
  sc_metrics_downstream :: closable

record outcomes =
  oc_refreshes :: "bool \<Rightarrow> py_error option"
  oc_copies :: "string \<Rightarrow> pyfloat option \<Rightarrow> py_error option"
  oc_buffer :: "string \<Rightarrow> pyfloat option \<Rightarrow> bool \<Rightarrow> py_error + bool"
  oc_pending :: "string \<Rightarrow> nat"

text \<open>A timeout given to \<^verbatim>\<open>aclose\<close>, or the configured one.\<close>

definition resolved_timeout :: "string \<Rightarrow> pyval option \<Rightarrow> pyfloat \<Rightarrow> py_error + pyfloat" where
  "resolved_timeout nm given configured =
     (case given of
        None \<Rightarrow> Inr configured
      | Some v \<Rightarrow>
          (case as_number v of
             None \<Rightarrow> Inl (ArgError (TypeError (nm @ '' must be a number or None'')))
           | Some x \<Rightarrow>
               if (case x of NInt i \<Rightarrow> i \<le> 0 | NFloat f \<Rightarrow> fle f (Fin 0))
               then Inl (ArgError (ValueError (nm @ '' must be positive or None'')))
               else lift_arg (to_double x)))"

definition note_all :: "close_request list \<Rightarrow> shutdown_state \<Rightarrow> shutdown_state" where
  "note_all rs s = s\<lparr>sd_trace := sd_trace s @ rs\<rparr>"

definition assertion_error :: py_error where
  "assertion_error = OtherError ''AssertionError'' ''''"

definition manages_cache_copies :: "shutdown_config \<Rightarrow> bool" where
  "manages_cache_copies sc \<longleftrightarrow> sc_owns_cache sc \<or> (sc_manage_lifecycle sc \<and> sc_cache_exposes_copy_lifecycle sc)"

definition copy_closers :: "shutdown_config \<Rightarrow> string list" where
  "copy_closers sc = ''builder'' # (if manages_cache_copies sc \<and> sc_cache_closes_copies sc then [''cache''] else [])"

text \<open>\<^verbatim>\<open>PayloadCopyShutdownTimeoutError.active_copies\<close>\<close>

definition active_copies :: "(string \<times> int) list \<Rightarrow> int" where
  "active_copies components = sum_list (map (\<lambda>p. max 0 (snd p)) components)"

fun active_in :: "(string \<times> py_error option) list \<Rightarrow> (string \<times> int) list" where
  "active_in [] = []"
| "active_in ((nm, Some (PayloadCopyShutdownTimeoutError t cs)) # rest) = (nm, active_copies cs) # active_in rest"
| "active_in (_ # rest) = active_in rest"

fun first_unexpected :: "(string \<times> py_error option) list \<Rightarrow> py_error option" where
  "first_unexpected [] = None"
| "first_unexpected ((nm, None) # rest) = first_unexpected rest"
| "first_unexpected ((nm, Some (PayloadCopyShutdownTimeoutError t cs)) # rest) = first_unexpected rest"
| "first_unexpected ((nm, Some e) # rest) = Some e"

definition close_payload_copies :: "shutdown_config \<Rightarrow> outcomes \<Rightarrow> pyfloat option \<Rightarrow> (shutdown_state, unit) act" where
  "close_payload_copies sc oc timeout =
     bind_act (updates (note_all (map (\<lambda>nm. CloseCopies nm timeout) (copy_closers sc)))) (\<lambda>_.
       let results = map (\<lambda>nm. (nm, oc_copies oc nm timeout)) (copy_closers sc)
       in if active_in results \<noteq> []
          then throw (case timeout of None \<Rightarrow> assertion_error
                      | Some t \<Rightarrow> PayloadCopyShutdownTimeoutError t (active_in results))
          else raise_opt (first_unexpected results))"

definition incomplete_buffers :: "outcomes \<Rightarrow> (string \<times> (py_error + bool)) list \<Rightarrow> (string \<times> int) list" where
  "incomplete_buffers oc results =
     List.map_filter (\<lambda>(nm, r). case r of Inr False \<Rightarrow> Some (nm, int (oc_pending oc nm)) | _ \<Rightarrow> None) results"

fun first_failure :: "(string \<times> (py_error + bool)) list \<Rightarrow> py_error option" where
  "first_failure [] = None"
| "first_failure ((nm, Inl e) # rest) = Some e"
| "first_failure ((nm, Inr stopped) # rest) = first_failure rest"

definition close_buffers :: "shutdown_config \<Rightarrow> outcomes \<Rightarrow> pyfloat option \<Rightarrow> (shutdown_state, unit) act" where
  "close_buffers sc oc timeout =
     bind_act (updates (note_all (map (\<lambda>nm. CloseBuffer nm timeout (sc_drain sc)) (sc_buffers sc)))) (\<lambda>_.
       let results = map (\<lambda>nm. (nm, oc_buffer oc nm timeout (sc_drain sc))) (sc_buffers sc)
       in if incomplete_buffers oc results \<noteq> []
          then throw (case timeout of None \<Rightarrow> assertion_error
                      | Some t \<Rightarrow> ObservabilityShutdownTimeoutError t (incomplete_buffers oc results))
          else raise_opt (first_failure results))"

definition close_downstreams :: "shutdown_config \<Rightarrow> (shutdown_state, unit) act" where
  "close_downstreams sc =
     bind_act (reads sd_downstreams_closed) (\<lambda>done_before.
       if done_before then ret ()
       else bind_act (close_components [sc_events_downstream sc, sc_metrics_downstream sc]) (\<lambda>_.
              updates (\<lambda>s. s\<lparr>sd_downstreams_closed := True\<rparr>)))"

definition managed_components :: "shutdown_config \<Rightarrow> closable list" where
  "managed_components sc =
     (if sc_cache_close_is_complete sc \<and> (sc_owns_cache sc \<or> sc_manage_lifecycle sc) then sc_sources sc
      else sc_sources sc @ [sc_cache sc])"

text \<open>\<^verbatim>\<open>except BaseException\<close>: the error, if any, is kept.\<close>

definition attempt_close :: "(shutdown_state, unit) act \<Rightarrow> (shutdown_state, py_error option) act" where
  "attempt_close m = handle m (\<lambda>_. ret None) (\<lambda>e. ret (Some e))"

definition close_refreshes :: "outcomes \<Rightarrow> bool \<Rightarrow> (shutdown_state, unit) act" where
  "close_refreshes oc cancel = bind_act (updates (note_request (CloseRefreshes cancel))) (\<lambda>_. raise_opt (oc_refreshes oc cancel))"

fun error_by_precedence :: "py_error option list \<Rightarrow> py_error option" where
  "error_by_precedence [] = None"
| "error_by_precedence (Some e # rest) = Some e"
| "error_by_precedence (None # rest) = error_by_precedence rest"

definition close_stages :: "shutdown_config \<Rightarrow> outcomes \<Rightarrow> bool \<Rightarrow> pyfloat \<Rightarrow> pyfloat \<Rightarrow> (shutdown_state, unit) act" where
  "close_stages sc oc cancel copy_timeout obs_timeout =
     bind_act (attempt_close (close_refreshes oc cancel)) (\<lambda>refresh_error.
     bind_act (attempt_close (close_payload_copies sc oc (Some copy_timeout))) (\<lambda>copy_error.
     bind_act (if sc_manage_lifecycle sc then attempt_close (close_components (managed_components sc)) else ret None) (\<lambda>lifecycle_error.
     bind_act (attempt_close (close_buffers sc oc (Some obs_timeout))) (\<lambda>observability_error.
     bind_act (if sc_manage_lifecycle sc \<and> observability_error = None then attempt_close (close_downstreams sc) else ret None)
       (\<lambda>downstream_error.
     bind_act (updates (\<lambda>s. s\<lparr>sd_closing := False\<rparr>)) (\<lambda>_.
       raise_opt (error_by_precedence [copy_error, refresh_error, observability_error, lifecycle_error, downstream_error])))))))"

definition builder_aclose ::
  "shutdown_config \<Rightarrow> outcomes \<Rightarrow> bool \<Rightarrow> pyval option \<Rightarrow> pyval option \<Rightarrow> (shutdown_state, unit) act" where
  "builder_aclose sc oc cancel copy_timeout obs_timeout =
     bind_act (lift_res (resolved_timeout ''copy_shutdown_timeout_seconds'' copy_timeout (sc_copy_timeout sc))) (\<lambda>ct.
     bind_act (lift_res (resolved_timeout ''observability_shutdown_timeout_seconds'' obs_timeout (sc_observability_timeout sc))) (\<lambda>ot.
     bind_act (reads sd_closed) (\<lambda>closed.
       if closed then ret ()
       else bind_act (updates (\<lambda>s. s\<lparr>sd_closing := True, sd_closed := True\<rparr>)) (\<lambda>_. close_stages sc oc cancel ct ot))))"

text \<open>The waits that finish a shutdown that ran out of time.\<close>

definition wait_for_payload_copy_shutdown :: "shutdown_config \<Rightarrow> outcomes \<Rightarrow> (shutdown_state, unit) act" where
  "wait_for_payload_copy_shutdown sc oc = close_payload_copies sc oc None"

definition wait_for_observability_shutdown :: "shutdown_config \<Rightarrow> outcomes \<Rightarrow> (shutdown_state, unit) act" where
  "wait_for_observability_shutdown sc oc =
     bind_act (close_buffers sc oc None) (\<lambda>_. if sc_manage_lifecycle sc then close_downstreams sc else ret ())"

definition wait_for_background_shutdown :: "shutdown_config \<Rightarrow> outcomes \<Rightarrow> (shutdown_state, unit) act" where
  "wait_for_background_shutdown sc oc =
     bind_act (attempt_close (wait_for_payload_copy_shutdown sc oc)) (\<lambda>copy_error.
     bind_act (attempt_close (wait_for_observability_shutdown sc oc)) (\<lambda>observability_error.
       raise_opt (error_by_precedence [copy_error, observability_error])))"

subsection \<open>Components are closed once, up to the first that fails\<close>

text \<open>The components asked to close: those before the first that fails, and that one.\<close>

fun asked_to_close :: "closable list \<Rightarrow> closable list" where
  "asked_to_close [] = []"
| "asked_to_close (c # cs) = c # (if component_outcome c = None then asked_to_close cs else [])"

lemma raise_opt_run: "raise_opt r s = (case r of None \<Rightarrow> Inr () | Some e \<Rightarrow> Inl e, s)"
  by (simp add: raise_opt_def split: option.splits)

lemma close_component_run:
  "close_component c s = (case component_outcome c of None \<Rightarrow> Inr () | Some e \<Rightarrow> Inl e, note_request (CloseComponent (co_id c)) s)"
  by (simp add: close_component_def bind_act_def raise_opt_run)

lemma note_all_simps [simp]:
  "note_all [] s = s" "note_all rs (note_all qs s) = note_all (qs @ rs) s" "note_request r s = note_all [r] s"
  by (simp_all add: note_all_def note_request_def)

text \<open>The list without the components of the ids in \<open>seen\<close> and without repetitions.\<close>

fun unseen :: "nat set \<Rightarrow> closable list \<Rightarrow> closable list" where
  "unseen seen [] = []"
| "unseen seen (c # cs) = (if co_id c \<in> seen then unseen seen cs else c # unseen (insert (co_id c) seen) cs)"

lemma unseen_ids: "co_id ` set (unseen seen cs) = co_id ` set cs - seen"
  by (induction seen cs rule: unseen.induct) auto

lemma unseen_distinct: "distinct (map co_id (unseen seen cs))"
  by (induction seen cs rule: unseen.induct) (auto simp: unseen_ids)

lemma unseen_subset: "set (unseen seen cs) \<subseteq> set cs"
  by (induction seen cs rule: unseen.induct) auto

lemma close_unseen_run:
  "close_unseen seen cs s =
    (case error_by_precedence (map component_outcome (unseen seen cs)) of None \<Rightarrow> Inr () | Some e \<Rightarrow> Inl e,
     note_all (map (\<lambda>c. CloseComponent (co_id c)) (asked_to_close (unseen seen cs))) s)"
proof (induction seen cs arbitrary: s rule: unseen.induct)
  case (2 seen c cs)
  then show ?case
    by (cases "component_outcome c") (simp_all add: bind_act_def close_component_run)
qed simp

lemma asked_subset: "set (asked_to_close cs) \<subseteq> set cs"
  by (induction cs) auto

lemma asked_distinct: "distinct (map co_id cs) \<Longrightarrow> distinct (map co_id (asked_to_close cs))"
  by (induction cs) (use asked_subset in fastforce)+

lemma asked_all: "error_by_precedence (map component_outcome cs) = None \<Longrightarrow> asked_to_close cs = cs"
proof (induction cs)
  case (Cons c cs)
  then show ?case by (cases "component_outcome c") simp_all
qed simp

lemma asked_last:
  "error_by_precedence (map component_outcome cs) = Some e
    \<Longrightarrow> \<exists>c \<in> set cs. asked_to_close cs \<noteq> [] \<and> last (asked_to_close cs) = c \<and> component_outcome c = Some e"
proof (induction cs)
  case (Cons c cs)
  then show ?case by (cases "component_outcome c") auto
qed simp

text \<open>Stages whose errors are kept always go on.\<close>

lemma attempt_close_run:
  "attempt_close m s = (case m s of (Inl e, s') \<Rightarrow> (Inr (Some e), s') | (Inr u, s') \<Rightarrow> (Inr None, s'))"
  by (simp add: attempt_close_def handle_def split: prod.splits sum.splits)

text \<open>
  Closing components asks every distinct component at most once, in order, and stops at
  the first whose closing raises, with its error: those after it are not asked. When none
  raises, every component has been asked exactly once.
\<close>

lemma close_components_once:
  "\<exists>asked. sd_trace (snd (close_components cs s)) = sd_trace s @ map CloseComponent asked
     \<and> distinct asked \<and> set asked \<subseteq> co_id ` set cs
     \<and> (fst (close_components cs s) = Inr () \<longrightarrow> set asked = co_id ` set cs)
     \<and> (\<forall>e. fst (close_components cs s) = Inl e \<longrightarrow> (\<exists>c \<in> set cs. asked \<noteq> [] \<and> last asked = co_id c \<and> component_outcome c = Some e))"
proof -
  let ?u = "unseen {} cs"
  let ?asked = "map co_id (asked_to_close ?u)"
  have trace: "sd_trace (snd (close_components cs s)) = sd_trace s @ map CloseComponent ?asked"
    by (simp add: close_components_def close_unseen_run note_all_def)
  have sub: "set ?asked \<subseteq> co_id ` set cs" using asked_subset [of ?u] unseen_subset [of "{}" cs] by auto
  have dist: "distinct ?asked" by (rule asked_distinct [OF unseen_distinct])
  have all: "set ?asked = co_id ` set cs" if "fst (close_components cs s) = Inr ()"
  proof -
    from that have "error_by_precedence (map component_outcome ?u) = None"
      by (simp add: close_components_def close_unseen_run split: option.splits)
    from asked_all [OF this] unseen_ids [of "{}" cs] show ?thesis by simp
  qed
  have last: "\<exists>c \<in> set cs. ?asked \<noteq> [] \<and> last ?asked = co_id c \<and> component_outcome c = Some e"
    if "fst (close_components cs s) = Inl e" for e
  proof -
    from that have "error_by_precedence (map component_outcome ?u) = Some e"
      by (simp add: close_components_def close_unseen_run split: option.splits)
    from asked_last [OF this] unseen_subset [of "{}" cs] show ?thesis by (auto simp: last_map)
  qed
  show ?thesis by (intro exI [of _ ?asked] conjI impI allI trace dist sub all last)
qed

subsection \<open>Every stage is reached\<close>

definition copies_outcome :: "shutdown_config \<Rightarrow> outcomes \<Rightarrow> pyfloat option \<Rightarrow> py_error option" where
  "copies_outcome sc oc timeout =
     (let results = map (\<lambda>nm. (nm, oc_copies oc nm timeout)) (copy_closers sc)
      in if active_in results \<noteq> []
         then Some (case timeout of None \<Rightarrow> assertion_error | Some t \<Rightarrow> PayloadCopyShutdownTimeoutError t (active_in results))
         else first_unexpected results)"

definition buffers_outcome :: "shutdown_config \<Rightarrow> outcomes \<Rightarrow> pyfloat option \<Rightarrow> py_error option" where
  "buffers_outcome sc oc timeout =
     (let results = map (\<lambda>nm. (nm, oc_buffer oc nm timeout (sc_drain sc))) (sc_buffers sc)
      in if incomplete_buffers oc results \<noteq> []
         then Some (case timeout of None \<Rightarrow> assertion_error | Some t \<Rightarrow> ObservabilityShutdownTimeoutError t (incomplete_buffers oc results))
         else first_failure results)"

definition lifecycle_outcome :: "closable list \<Rightarrow> py_error option" where
  "lifecycle_outcome cs = error_by_precedence (map component_outcome (unseen {} cs))"

definition as_result :: "py_error option \<Rightarrow> py_error + unit" where
  "as_result r = (case r of None \<Rightarrow> Inr () | Some e \<Rightarrow> Inl e)"

lemma close_payload_copies_run:
  "close_payload_copies sc oc timeout s
    = (as_result (copies_outcome sc oc timeout), note_all (map (\<lambda>nm. CloseCopies nm timeout) (copy_closers sc)) s)"
  by (simp add: close_payload_copies_def copies_outcome_def bind_act_def Let_def raise_opt_run as_result_def split: option.splits)

lemma close_buffers_run:
  "close_buffers sc oc timeout s
    = (as_result (buffers_outcome sc oc timeout), note_all (map (\<lambda>nm. CloseBuffer nm timeout (sc_drain sc)) (sc_buffers sc)) s)"
  by (simp add: close_buffers_def buffers_outcome_def bind_act_def Let_def raise_opt_run as_result_def split: option.splits)

lemma close_components_run:
  "close_components cs s
    = (as_result (lifecycle_outcome cs), note_all (map CloseComponent (map co_id (asked_to_close (unseen {} cs)))) s)"
  by (simp add: close_components_def close_unseen_run lifecycle_outcome_def as_result_def comp_def)

lemma close_refreshes_run: "close_refreshes oc cancel s = (as_result (oc_refreshes oc cancel), note_all [CloseRefreshes cancel] s)"
  by (simp add: close_refreshes_def bind_act_def raise_opt_run as_result_def)

lemma attempt_as_result: "m s = (as_result r, s') \<Longrightarrow> attempt_close m s = (Inr r, s')"
  by (cases r) (simp_all add: attempt_close_run as_result_def)

lemma note_all_closed [simp]: "sd_closed (note_all rs s) = sd_closed s" "sd_downstreams_closed (note_all rs s) = sd_downstreams_closed s"
  "sd_closing (note_all rs s) = sd_closing s" "sd_trace (note_all rs s) = sd_trace s @ rs"
  by (simp_all add: note_all_def)

lemma close_downstreams_attempt:
  obtains r sinks s' where "attempt_close (close_downstreams sc) s = (Inr r, s')"
    "sd_trace s' = sd_trace s @ map CloseComponent sinks" "sd_closed s' = sd_closed s" "sinks = [] \<longrightarrow> r = None"
proof -
  let ?cs = "[sc_events_downstream sc, sc_metrics_downstream sc]"
  have "\<exists>r sinks s'. attempt_close (close_downstreams sc) s = (Inr r, s')
      \<and> sd_trace s' = sd_trace s @ map CloseComponent sinks \<and> sd_closed s' = sd_closed s \<and> (sinks = [] \<longrightarrow> r = None)"
  proof (cases "sd_downstreams_closed s")
    case True
    then show ?thesis
      by (intro exI [of _ None] exI [of _ "[]"] exI [of _ s])
        (simp add: attempt_close_run close_downstreams_def bind_act_def)
  next
    case False
    define asked where "asked = map co_id (asked_to_close (unseen {} ?cs))"
    have closed: "close_components ?cs s = (as_result (lifecycle_outcome ?cs), note_all (map CloseComponent asked) s)"
      unfolding asked_def by (rule close_components_run)
    have "asked \<noteq> []" by (simp add: asked_def)
    with False show ?thesis
      by (cases "lifecycle_outcome ?cs"; intro exI [of _ "lifecycle_outcome ?cs"] exI [of _ asked])
        (simp_all add: attempt_close_run close_downstreams_def bind_act_def closed as_result_def)
  qed
  then show thesis using that by blast
qed

lemma managed_attempt:
  "(if b then attempt_close (close_components cs) else ret None) s
    = (Inr (if b then lifecycle_outcome cs else None),
       note_all (map CloseComponent (if b then map co_id (asked_to_close (unseen {} cs)) else [])) s)"
  by (simp add: attempt_as_result [OF close_components_run])

lemma close_stages_run:
  assumes "close_stages sc oc cancel ct ot s = (r, s')"
  obtains downstream sinks where
    "sd_trace s' = sd_trace s @ CloseRefreshes cancel # map (\<lambda>nm. CloseCopies nm (Some ct)) (copy_closers sc)
        @ map CloseComponent (if sc_manage_lifecycle sc then map co_id (asked_to_close (unseen {} (managed_components sc))) else [])
        @ map (\<lambda>nm. CloseBuffer nm (Some ot) (sc_drain sc)) (sc_buffers sc) @ map CloseComponent sinks"
    "sinks \<noteq> [] \<longrightarrow> sc_manage_lifecycle sc \<and> buffers_outcome sc oc (Some ot) = None"
    "sd_closed s' = sd_closed s" "\<not> sd_closing s'" "sinks = [] \<longrightarrow> downstream = None"
    "r = as_result (error_by_precedence [copies_outcome sc oc (Some ct), oc_refreshes oc cancel, buffers_outcome sc oc (Some ot),
        if sc_manage_lifecycle sc then lifecycle_outcome (managed_components sc) else None, downstream])"
proof -
  let ?b = "sc_manage_lifecycle sc" and ?cs = "managed_components sc" and ?obs = "buffers_outcome sc oc (Some ot)"
  let ?managed = "map CloseComponent (if ?b then map co_id (asked_to_close (unseen {} ?cs)) else [])"
  define s1 where "s1 = note_all (CloseRefreshes cancel # map (\<lambda>nm. CloseCopies nm (Some ct)) (copy_closers sc)
      @ ?managed @ map (\<lambda>nm. CloseBuffer nm (Some ot) (sc_drain sc)) (sc_buffers sc)) s"
  obtain d sinks s2 where down: "(if ?b \<and> ?obs = None then attempt_close (close_downstreams sc) else ret None) s1 = (Inr d, s2)"
    "sd_trace s2 = sd_trace s1 @ map CloseComponent sinks" "sd_closed s2 = sd_closed s1"
    "sinks \<noteq> [] \<Longrightarrow> ?b \<and> ?obs = None" "sinks = [] \<longrightarrow> d = None"
  proof (cases "?b \<and> ?obs = None")
    case True
    obtain d sinks s2 where "attempt_close (close_downstreams sc) s1 = (Inr d, s2)"
      "sd_trace s2 = sd_trace s1 @ map CloseComponent sinks" "sd_closed s2 = sd_closed s1" "sinks = [] \<longrightarrow> d = None" by (rule close_downstreams_attempt)
    with True show thesis by (intro that [of d s2 sinks]) simp_all
  next
    case False
    then show thesis by (intro that [of None s1 "[]"]) auto
  qed
  have "close_stages sc oc cancel ct ot s
      = (as_result (error_by_precedence [copies_outcome sc oc (Some ct), oc_refreshes oc cancel, ?obs,
          if ?b then lifecycle_outcome ?cs else None, d]), s2\<lparr>sd_closing := False\<rparr>)"
    using down(1)
    by (simp add: close_stages_def bind_act_def attempt_as_result [OF close_refreshes_run] attempt_as_result [OF close_payload_copies_run]
        attempt_as_result [OF close_buffers_run] managed_attempt raise_opt_run as_result_def s1_def del: map_map list.map)
  with assms have "r = as_result (error_by_precedence [copies_outcome sc oc (Some ct), oc_refreshes oc cancel, ?obs,
          if ?b then lifecycle_outcome ?cs else None, d])" "s' = s2\<lparr>sd_closing := False\<rparr>" by simp_all
  with down(2-5) show thesis by (intro that [of sinks d]) (simp_all add: s1_def)
qed


subsection \<open>A shutdown carried out\<close>

definition fixture_closable :: "nat \<Rightarrow> py_error option \<Rightarrow> closable" where
  "fixture_closable i r = \<lparr>co_id = i, co_aclose = CoroutineMethod r, co_close = NotCallable\<rparr>"

definition fixture_shutdown :: shutdown_config where
  "fixture_shutdown = \<lparr>sc_manage_lifecycle = True, sc_owns_cache = True, sc_copy_timeout = Fin 5, sc_observability_timeout = Fin 5,
     sc_drain = True, sc_sources = [fixture_closable 0 (Some (RuntimeError ''stuck'')), fixture_closable 1 None],
     sc_cache = fixture_closable 2 None, sc_cache_exposes_copy_lifecycle = True, sc_cache_closes_copies = True,
     sc_cache_close_is_complete = False, sc_buffers = [''metrics'', ''events''],
     sc_events_downstream = fixture_closable 3 None, sc_metrics_downstream = fixture_closable 3 None\<rparr>"

definition fixture_outcomes :: outcomes where
  "fixture_outcomes = \<lparr>oc_refreshes = (\<lambda>cancel. None),
     oc_copies = (\<lambda>nm t. if nm = ''cache'' then Some (PayloadCopyShutdownTimeoutError (Fin 5) [(''cache'', 2)]) else None),
     oc_buffer = (\<lambda>nm t drain. Inr True), oc_pending = (\<lambda>nm. 0)\<rparr>"

definition open_state :: shutdown_state where
  "open_state = \<lparr>sd_closed = False, sd_closing = False, sd_downstreams_closed = False, sd_trace = []\<rparr>"


lemma close_components_once_witness:
  "fst (close_components (sc_sources fixture_shutdown) open_state) = Inl (RuntimeError ''stuck'')
    \<and> (\<exists>asked. sd_trace (snd (close_components (sc_sources fixture_shutdown) open_state)) = map CloseComponent asked
         \<and> (\<exists>c \<in> set (sc_sources fixture_shutdown). asked \<noteq> [] \<and> last asked = co_id c
              \<and> component_outcome c = Some (RuntimeError ''stuck'')))"
proof -
  have raised: "fst (close_components (sc_sources fixture_shutdown) open_state) = Inl (RuntimeError ''stuck'')"
    by (simp add: fixture_shutdown_def fixture_closable_def close_components_run lifecycle_outcome_def component_outcome_def as_result_def)
  with close_components_once [of "sc_sources fixture_shutdown" open_state] show ?thesis
    by (auto simp: open_state_def)
qed

lemma fixture_shutdown_runs:
  "(case builder_aclose fixture_shutdown fixture_outcomes False None (Some (PyInt 2)) open_state of
      (Inl (PayloadCopyShutdownTimeoutError t [(nm, n)]), s') \<Rightarrow>
        t = Fin 5 \<and> nm = ''cache'' \<and> n = 2 \<and> CloseComponent 0 \<in> set (sd_trace s') \<and> CloseComponent 1 \<notin> set (sd_trace s')
        \<and> CloseComponent 2 \<notin> set (sd_trace s') \<and> CloseComponent 3 \<in> set (sd_trace s')
    | _ \<Rightarrow> False) = True"
  by code_simp

end
