(* ===== verification/Buffered.thy ===== *)
theory Buffered
  imports Errors "HOL-Library.Sublist"
begin

section \<open>Buffered observability (observability/buffered.py)\<close>

text \<open>
  A buffer holds a bounded queue in front of a sink, and a worker thread delivers from it. The
  steps below are what the threads do without another thread being able to see the state in
  between: a submission or a change of the counters holds the condition, a removal from the
  queue holds the lock of the queue only, so that a record can be out of the queue and not
  yet counted. Records that a closing thread has taken out wait in \<open>bd_hand\<close>.
\<close>

datatype overflow_policy = DROP_OLDEST | DROP_NEWEST | RAISE_FULL

datatype 'a slot = Record 'a | Sentinel

datatype 'a consumer = Idle | Delivering 'a | Counted | Stopped

datatype closer = NotClosing | Flushing | Discarding | PuttingSentinel | SentinelPut

record 'a dispatcher =
  bd_max_pending :: nat
  bd_overflow :: overflow_policy
  bd_queue :: "'a slot list"
  bd_enqueued :: nat
  bd_delivered :: nat
  bd_dropped :: nat
  bd_failures :: nat
  bd_pending :: nat
  bd_peak_pending :: nat
  bd_closed :: bool
  bd_shutdown_timeout_count :: nat
  bd_consumer :: "'a consumer"
  bd_closer :: closer
  bd_hand :: "'a list"

definition new_dispatcher :: "int \<Rightarrow> overflow_policy \<Rightarrow> arg_error + 'a dispatcher" where
  "new_dispatcher max_pending overflow =
     (if max_pending < 1 then Inl (ValueError ''max_pending must be at least 1'')
      else Inr \<lparr>bd_max_pending = nat max_pending, bd_overflow = overflow, bd_queue = [], bd_enqueued = 0, bd_delivered = 0,
                bd_dropped = 0, bd_failures = 0, bd_pending = 0, bd_peak_pending = 0, bd_closed = False,
                bd_shutdown_timeout_count = 0, bd_consumer = Idle, bd_closer = NotClosing, bd_hand = []\<rparr>)"

subsection \<open>Submitting\<close>

definition count_dropped :: "'a dispatcher \<Rightarrow> 'a dispatcher" where
  "count_dropped d = d\<lparr>bd_dropped := bd_dropped d + 1\<rparr>"

text \<open>\<^verbatim>\<open>max(0, self._pending - 1)\<close>\<close>

definition one_less_pending :: "'a dispatcher \<Rightarrow> 'a dispatcher" where
  "one_less_pending d = d\<lparr>bd_pending := bd_pending d - 1\<rparr>"

definition accept_record :: "'a \<Rightarrow> 'a dispatcher \<Rightarrow> 'a dispatcher" where
  "accept_record x d =
     (let d' = d\<lparr>bd_queue := bd_queue d @ [Record x], bd_enqueued := bd_enqueued d + 1, bd_pending := bd_pending d + 1\<rparr>
      in d'\<lparr>bd_peak_pending := max (bd_peak_pending d') (bd_pending d')\<rparr>)"

text \<open>The worker takes the next record, or the sentinel, which ends it.\<close>

definition worker_take :: "'a dispatcher \<Rightarrow> 'a dispatcher" where
  "worker_take d =
     (case (bd_consumer d, bd_queue d) of
        (Idle, Record x # rest) \<Rightarrow> d\<lparr>bd_queue := rest, bd_consumer := Delivering x\<rparr>
      | (Idle, Sentinel # rest) \<Rightarrow> d\<lparr>bd_queue := rest, bd_consumer := Stopped\<rparr>
      | _ \<Rightarrow> d)"

text \<open>
  \<open>raced\<close>: the worker takes a record between the failed insertion into a full queue and the
  removal of the oldest record. It cannot take two, as counting the first needs the condition.
\<close>

definition dispatcher_submit :: "'a \<Rightarrow> bool \<Rightarrow> 'a dispatcher \<Rightarrow> (py_error + bool) \<times> 'a dispatcher" where
  "dispatcher_submit x raced d =
     (if bd_closed d then (Inl (RuntimeError ''buffered sink is closed''), d)
      else if length (bd_queue d) < bd_max_pending d then (Inr True, accept_record x d)
      else case bd_overflow d of
             DROP_NEWEST \<Rightarrow> (Inr False, count_dropped d)
           | RAISE_FULL \<Rightarrow> (Inl (OtherError ''Full'' ''''), d)
           | DROP_OLDEST \<Rightarrow>
               let d1 = (if raced then worker_take d else d)
               in case bd_queue d1 of
                    [] \<Rightarrow> (Inr False, count_dropped d1)
                  | Sentinel # rest \<Rightarrow> (Inr False, count_dropped (d1\<lparr>bd_queue := rest @ [Sentinel]\<rparr>))
                  | Record y # rest \<Rightarrow>
                      (Inr True, accept_record x (one_less_pending (count_dropped (d1\<lparr>bd_queue := rest\<rparr>)))))"

subsection \<open>Delivering\<close>

text \<open>The handler has returned or raised, and then the record is no longer pending.\<close>

definition count_delivery :: "bool \<Rightarrow> 'a dispatcher \<Rightarrow> 'a dispatcher" where
  "count_delivery failed d =
     (let d' = d\<lparr>bd_consumer := Counted\<rparr>
      in if failed then d'\<lparr>bd_failures := bd_failures d' + 1\<rparr> else d'\<lparr>bd_delivered := bd_delivered d' + 1\<rparr>)"

definition settle_delivery :: "'a dispatcher \<Rightarrow> 'a dispatcher" where
  "settle_delivery d = (one_less_pending d)\<lparr>bd_consumer := Idle\<rparr>"

subsection \<open>Closing\<close>

definition begin_close :: "'a dispatcher \<Rightarrow> 'a dispatcher" where
  "begin_close d = (if bd_closed d then d else d\<lparr>bd_closed := True, bd_closer := Flushing\<rparr>)"

text \<open>Draining has ended: with nothing pending, or not at all.\<close>

definition end_flush :: "bool \<Rightarrow> 'a dispatcher \<Rightarrow> 'a dispatcher" where
  "end_flush drained d = d\<lparr>bd_closer := if drained then PuttingSentinel else Discarding\<rparr>"

definition discard_one :: "'a dispatcher \<Rightarrow> 'a dispatcher" where
  "discard_one d =
     (case bd_queue d of
        [] \<Rightarrow> d\<lparr>bd_closer := PuttingSentinel\<rparr>
      | Sentinel # rest \<Rightarrow> d\<lparr>bd_queue := rest @ [Sentinel], bd_closer := PuttingSentinel\<rparr>
      | Record y # rest \<Rightarrow> d\<lparr>bd_queue := rest, bd_hand := bd_hand d @ [y]\<rparr>)"

definition put_sentinel :: "'a dispatcher \<Rightarrow> 'a dispatcher" where
  "put_sentinel d =
     (if length (bd_queue d) < bd_max_pending d then d\<lparr>bd_queue := bd_queue d @ [Sentinel], bd_closer := SentinelPut\<rparr>
      else case bd_queue d of
             [] \<Rightarrow> d
           | Sentinel # rest \<Rightarrow> d\<lparr>bd_queue := rest @ [Sentinel], bd_closer := SentinelPut\<rparr>
           | Record y # rest \<Rightarrow> d\<lparr>bd_queue := rest, bd_hand := bd_hand d @ [y]\<rparr>)"

definition count_discarded :: "'a dispatcher \<Rightarrow> 'a dispatcher" where
  "count_discarded d = one_less_pending (count_dropped (d\<lparr>bd_hand := tl (bd_hand d)\<rparr>))"

definition count_join_timeout :: "'a dispatcher \<Rightarrow> 'a dispatcher" where
  "count_join_timeout d = d\<lparr>bd_shutdown_timeout_count := bd_shutdown_timeout_count d + 1\<rparr>"

text \<open>
  \<^verbatim>\<open>flush\<close> wakes up at the times given, each with the number of pending records it finds;
  \<open>None\<close> means that it is still waiting.
\<close>

fun flush_wait :: "rat option \<Rightarrow> (rat \<times> nat) list \<Rightarrow> bool option" where
  "flush_wait deadline [] = None"
| "flush_wait deadline ((now, pending) # later) =
     (if pending = 0 then Some True
      else case deadline of
             None \<Rightarrow> flush_wait deadline later
           | Some t \<Rightarrow> if t - now \<le> 0 then Some False else flush_wait deadline later)"

definition dispatcher_flush :: "rat option \<Rightarrow> rat \<Rightarrow> (rat \<times> nat) list \<Rightarrow> arg_error + bool option" where
  "dispatcher_flush timeout start wakes =
     (case timeout of
        Some t \<Rightarrow> if t < 0 then Inl (ValueError ''timeout cannot be negative'') else Inr (flush_wait (Some (start + t)) wakes)
      | None \<Rightarrow> Inr (flush_wait None wakes))"

subsection \<open>Statistics\<close>

record sink_stats =
  bs_enqueued :: nat
  bs_delivered :: nat
  bs_dropped :: nat
  bs_failures :: nat
  bs_pending :: nat
  bs_closed :: bool
  bs_max_pending :: nat
  bs_peak_pending :: nat
  bs_worker_alive :: bool
  bs_shutdown_timeout_count :: nat

definition dispatcher_stats :: "'a dispatcher \<Rightarrow> sink_stats" where
  "dispatcher_stats d = \<lparr>bs_enqueued = bd_enqueued d, bs_delivered = bd_delivered d, bs_dropped = bd_dropped d,
     bs_failures = bd_failures d, bs_pending = bd_pending d, bs_closed = bd_closed d, bs_max_pending = bd_max_pending d,
     bs_peak_pending = bd_peak_pending d, bs_worker_alive = (bd_consumer d \<noteq> Stopped),
     bs_shutdown_timeout_count = bd_shutdown_timeout_count d\<rparr>"

subsection \<open>The machine\<close>

datatype 'a buffer_event =
    Submitted 'a "py_error + bool"
  | Took
  | HandlerEnded 'a bool
  | DeliverySettled
  | CloseBegan
  | FlushEnded bool
  | Discarded
  | DropCounted
  | SentinelTried
  | JoinTimedOut

fun buffer_step :: "'a dispatcher \<Rightarrow> 'a buffer_event \<Rightarrow> 'a dispatcher \<Rightarrow> bool" where
  "buffer_step d (Submitted x r) d' \<longleftrightarrow> (\<exists>raced. dispatcher_submit x raced d = (r, d'))"
| "buffer_step d Took d' \<longleftrightarrow> bd_consumer d = Idle \<and> bd_queue d \<noteq> [] \<and> d' = worker_take d"
| "buffer_step d (HandlerEnded x failed) d' \<longleftrightarrow> bd_consumer d = Delivering x \<and> d' = count_delivery failed d"
| "buffer_step d DeliverySettled d' \<longleftrightarrow> bd_consumer d = Counted \<and> d' = settle_delivery d"
| "buffer_step d CloseBegan d' \<longleftrightarrow> d' = begin_close d"
| "buffer_step d (FlushEnded drained) d' \<longleftrightarrow> bd_closer d = Flushing \<and> (drained \<longrightarrow> bd_pending d = 0) \<and> d' = end_flush drained d"
| "buffer_step d Discarded d' \<longleftrightarrow> bd_closer d = Discarding \<and> d' = discard_one d"
| "buffer_step d DropCounted d' \<longleftrightarrow> bd_hand d \<noteq> [] \<and> d' = count_discarded d"
| "buffer_step d SentinelTried d' \<longleftrightarrow> bd_closer d = PuttingSentinel \<and> d' = put_sentinel d"
| "buffer_step d JoinTimedOut d' \<longleftrightarrow> bd_closed d \<and> bd_consumer d \<noteq> Stopped \<and> d' = count_join_timeout d"

subsection \<open>The invariant\<close>

fun records :: "'a slot list \<Rightarrow> 'a list" where
  "records [] = []"
| "records (Record x # q) = x # records q"
| "records (Sentinel # q) = records q"

fun in_delivery :: "'a consumer \<Rightarrow> 'a list" where
  "in_delivery (Delivering x) = [x]"
| "in_delivery _ = []"

definition held :: "'a dispatcher \<Rightarrow> nat" where
  "held d = length (bd_hand d) + length (in_delivery (bd_consumer d)) + (if bd_consumer d = Counted then 1 else 0)"

text \<open>The sentinel, once it is there, is the last entry of the queue.\<close>

definition queue_shape :: "'a dispatcher \<Rightarrow> bool" where
  "queue_shape d \<longleftrightarrow>
     (if bd_closer d = SentinelPut
      then (if bd_consumer d = Stopped then bd_queue d = [] else bd_queue d = map Record (records (bd_queue d)) @ [Sentinel])
      else bd_queue d = map Record (records (bd_queue d)) \<and> bd_consumer d \<noteq> Stopped)"

definition buffer_ok :: "'a dispatcher \<Rightarrow> bool" where
  "buffer_ok d \<longleftrightarrow> length (bd_queue d) \<le> bd_max_pending d \<and> 0 < bd_max_pending d \<and> queue_shape d
     \<and> bd_pending d = length (records (bd_queue d)) + held d \<and> (bd_closed d \<longleftrightarrow> bd_closer d \<noteq> NotClosing)"

text \<open>What the events say: the submissions that did not raise, the records accepted, the records handled.\<close>

fun submissions :: "'a buffer_event list \<Rightarrow> nat" where
  "submissions [] = 0"
| "submissions (Submitted x (Inr b) # es) = Suc (submissions es)"
| "submissions (e # es) = submissions es"

fun accepted :: "'a buffer_event list \<Rightarrow> 'a list" where
  "accepted [] = []"
| "accepted (Submitted x (Inr True) # es) = x # accepted es"
| "accepted (e # es) = accepted es"

fun handled :: "'a buffer_event list \<Rightarrow> 'a list" where
  "handled [] = []"
| "handled (HandlerEnded x failed # es) = x # handled es"
| "handled (e # es) = handled es"

lemma submissions_append [simp]: "submissions (es @ fs) = submissions es + submissions fs"
  by (induction es rule: submissions.induct) simp_all

lemma accepted_append [simp]: "accepted (es @ fs) = accepted es @ accepted fs"
  by (induction es rule: accepted.induct) simp_all

lemma handled_append [simp]: "handled (es @ fs) = handled es @ handled fs"
  by (induction es rule: handled.induct) simp_all

lemma records_append [simp]: "records (p @ q) = records p @ records q"
  by (induction p rule: records.induct) simp_all

lemma records_map [simp]: "records (map Record xs) = xs"
  by (induction xs) simp_all

definition accounted :: "'a buffer_event list \<Rightarrow> 'a dispatcher \<Rightarrow> bool" where
  "accounted es d \<longleftrightarrow> submissions es + (if bd_consumer d = Counted then 1 else 0)
       = bd_delivered d + bd_failures d + bd_dropped d + bd_pending d
     \<and> bd_enqueued d = length (accepted es)
     \<and> subseq (handled es @ in_delivery (bd_consumer d) @ records (bd_queue d)) (accepted es)"

text \<open>A machine together with the events so far.\<close>

fun traced :: "('s \<Rightarrow> 'l \<Rightarrow> 's \<Rightarrow> bool) \<Rightarrow> 'l list \<times> 's \<Rightarrow> 'l \<Rightarrow> 'l list \<times> 's \<Rightarrow> bool" where
  "traced step (es, s) l (es', s') \<longleftrightarrow> es' = es @ [l] \<and> step s l s'"

lemma traced_run: "run_of step s ls t \<Longrightarrow> run_of (traced step) (es, s) ls (es @ ls, t)"
proof (induction arbitrary: es rule: run_of.induct)
  case (run_cons s l t ls u)
  from run_cons.IH [of "es @ [l]"] run_cons.hyps(1) show ?case by (auto intro: run_of.run_cons [where t = "(es @ [l], t)"])
qed (simp add: run_of.run_nil)

lemmas buffer_defs = buffer_ok_def queue_shape_def held_def accounted_def

lemma subseq_drop_middle: "subseq (p @ y # q) r \<Longrightarrow> subseq (p @ q) r"
  by (meson list_emb_append_mono subseq_Cons' subseq_order.order_refl subseq_order.order_trans)

lemma subseq_snoc: "subseq p q \<Longrightarrow> subseq (p @ [x]) (q @ [x])"
  by (rule list_emb_append_mono) simp_all

definition sound :: "'a buffer_event list \<times> 'a dispatcher \<Rightarrow> bool" where
  "sound p \<longleftrightarrow> buffer_ok (snd p) \<and> accounted (fst p) (snd p)"

lemma sound_take:
  assumes "buffer_ok d" "accounted es d"
  shows "buffer_ok (worker_take d)" "accounted es (worker_take d)"
proof -
  consider (item) x rest where "bd_consumer d = Idle" "bd_queue d = Record x # rest"
    | (sentinel) rest where "bd_consumer d = Idle" "bd_queue d = Sentinel # rest"
    | (other) "worker_take d = d"
    by (cases "bd_consumer d"; cases "bd_queue d"; cases "hd (bd_queue d)") (auto simp: worker_take_def)
  then have "buffer_ok (worker_take d) \<and> accounted es (worker_take d)"
  proof cases
    case item
    then show ?thesis using assms by (auto simp: worker_take_def buffer_defs split: if_splits)
  next
    case sentinel
    then have "bd_closer d = SentinelPut \<and> rest = []" using assms(1)
      by (cases "records rest") (auto simp: buffer_defs split: if_splits)
    with sentinel show ?thesis using assms by (auto simp: worker_take_def buffer_defs)
  next
    case other
    with assms show ?thesis by simp
  qed
  then show "buffer_ok (worker_take d)" "accounted es (worker_take d)" by simp_all
qed

lemma shape_open: "buffer_ok d \<Longrightarrow> \<not> bd_closed d \<Longrightarrow> bd_queue d = map Record (records (bd_queue d)) \<and> bd_consumer d \<noteq> Stopped"
  by (simp add: buffer_ok_def queue_shape_def)

lemma sound_accept:
  assumes "buffer_ok d" "\<not> bd_closed d" "length (bd_queue d) < bd_max_pending d" "accounted es d"
  shows "buffer_ok (accept_record x d)" "accounted (es @ [Submitted x (Inr True)]) (accept_record x d)"
proof -
  note shape = shape_open [OF assms(1,2)]
  have "map Record (records (bd_queue d @ [Record x])) = bd_queue d @ [Record x]"
    using shape by (metis list.simps(8,9) map_append records.simps(1,2) records_append)
  then show "buffer_ok (accept_record x d)"
    using assms(1-3) by (auto simp: accept_record_def Let_def buffer_defs split: if_splits)
  show "accounted (es @ [Submitted x (Inr True)]) (accept_record x d)"
    using assms(4) subseq_snoc [of "handled es @ in_delivery (bd_consumer d) @ records (bd_queue d)" "accepted es" x]
    by (auto simp: accept_record_def Let_def accounted_def)
qed

lemma sound_refuse:
  assumes "buffer_ok d" "accounted es d"
  shows "buffer_ok (count_dropped d)" "accounted (es @ [Submitted x (Inr False)]) (count_dropped d)"
  using assms by (auto simp: count_dropped_def buffer_defs)

text \<open>The oldest record makes room.\<close>

lemma sound_evict:
  assumes "buffer_ok d" "\<not> bd_closed d" "bd_queue d = Record y # rest" "accounted es d"
  defines "d' \<equiv> one_less_pending (count_dropped (d\<lparr>bd_queue := rest\<rparr>))"
  shows "buffer_ok d'" "accounted es d'" "\<not> bd_closed d'" "length (bd_queue d') < bd_max_pending d'"
proof -
  have rest: "map Record (records rest) = rest" using shape_open [OF assms(1,2)] assms(3) by simp
  show "buffer_ok d'" "\<not> bd_closed d'" "length (bd_queue d') < bd_max_pending d'"
    using assms(1-3) rest by (auto simp: d'_def one_less_pending_def count_dropped_def buffer_defs split: if_splits)
  have "0 < bd_pending d" using assms(1,3) by (simp add: buffer_ok_def)
  then show "accounted es d'"
    using assms(3,4) subseq_drop_middle [of "handled es @ in_delivery (bd_consumer d)" y "records rest" "accepted es"]
    by (auto simp: d'_def one_less_pending_def count_dropped_def accounted_def)
qed

lemma worker_take_open [simp]: "bd_closed (worker_take d) = bd_closed d" "bd_max_pending (worker_take d) = bd_max_pending d"
  by (auto simp: worker_take_def split: consumer.splits list.splits slot.splits)

lemma sound_submit:
  assumes "buffer_ok d" "accounted es d" "dispatcher_submit x raced d = (r, d')"
  shows "buffer_ok d' \<and> accounted (es @ [Submitted x r]) d'"
proof -
  have raised: "accounted (es @ [Submitted x (Inl e)]) d" for e using assms(2) by (simp add: accounted_def)
  show ?thesis
  proof (cases "bd_closed d \<or> length (bd_queue d) < bd_max_pending d \<or> bd_overflow d \<noteq> DROP_OLDEST")
    case True
    then show ?thesis
      using assms(3) raised sound_accept [OF assms(1) _ _ assms(2), of x] sound_refuse(1) [OF assms(1,2)] sound_refuse(2) [OF assms(1,2), of x] assms(1)
      by (cases "bd_overflow d") (auto simp: dispatcher_submit_def split: if_splits)
  next
    case False
    define d1 where "d1 = (if raced then worker_take d else d)"
    have ok: "buffer_ok d1" "accounted es d1" "\<not> bd_closed d1"
      using sound_take [OF assms(1,2)] assms(1,2) False by (simp_all add: d1_def)
    have run: "(case bd_queue d1 of
                    [] \<Rightarrow> (Inr False, count_dropped d1)
                  | Sentinel # rest \<Rightarrow> (Inr False, count_dropped (d1\<lparr>bd_queue := rest @ [Sentinel]\<rparr>))
                  | Record y # rest \<Rightarrow>
                      (Inr True, accept_record x (one_less_pending (count_dropped (d1\<lparr>bd_queue := rest\<rparr>))))) = (r, d')"
      using assms(3) False by (simp add: dispatcher_submit_def Let_def flip: d1_def)
    show ?thesis
    proof (cases "bd_queue d1")
      case Nil
      with run sound_refuse(1) [OF ok(1,2)] sound_refuse(2) [OF ok(1,2), of x] show ?thesis by auto
    next
      case (Cons s rest)
      with shape_open [OF ok(1,3)] obtain y where y: "s = Record y" by (cases s) auto
      have q: "bd_queue d1 = Record y # rest" using Cons y by simp
      note e = sound_evict [OF ok(1,3) q ok(2)]
      from run q sound_accept [OF e(1,3,4,2), of x] show ?thesis by auto
    qed
  qed
qed

lemma sound_hand:
  assumes "buffer_ok d" "accounted es d" "bd_queue d = Record y # rest" "bd_closer d \<in> {Discarding, PuttingSentinel}"
  shows "buffer_ok (d\<lparr>bd_queue := rest, bd_hand := bd_hand d @ [y]\<rparr>) \<and> accounted es (d\<lparr>bd_queue := rest, bd_hand := bd_hand d @ [y]\<rparr>)"
  using assms subseq_drop_middle [of "handled es @ in_delivery (bd_consumer d)" y "records rest" "accepted es"]
  by (auto simp: buffer_defs split: if_splits)

lemma sentinel_not_first:
  assumes "buffer_ok d" "bd_closer d \<noteq> SentinelPut"
  shows "bd_queue d \<noteq> Sentinel # rest"
proof
  assume q: "bd_queue d = Sentinel # rest"
  have "bd_queue d = map Record (records (bd_queue d))" using assms by (simp add: buffer_ok_def queue_shape_def)
  with q have "Sentinel \<in> Record ` set (records (bd_queue d))" by (metis list.set_intros(1) set_map)
  then show False by auto
qed

lemma sound_discard:
  assumes "buffer_ok d" "accounted es d" "bd_closer d = Discarding"
  shows "buffer_ok (discard_one d) \<and> accounted es (discard_one d)"
proof (cases "bd_queue d")
  case Nil
  then show ?thesis using assms by (auto simp: discard_one_def buffer_defs)
next
  case (Cons s rest)
  with sentinel_not_first [OF assms(1)] assms(3) obtain y where "bd_queue d = Record y # rest" by (cases s) auto
  with sound_hand [OF assms(1,2) this] assms(3) show ?thesis by (simp add: discard_one_def)
qed

lemma sound_put_sentinel:
  assumes "buffer_ok d" "accounted es d" "bd_closer d = PuttingSentinel"
  shows "buffer_ok (put_sentinel d) \<and> accounted es (put_sentinel d)"
proof (cases "length (bd_queue d) < bd_max_pending d")
  case True
  then show ?thesis using assms by (auto simp: put_sentinel_def buffer_defs)
next
  case False
  then have "bd_queue d \<noteq> []" using assms(1) by (auto simp: buffer_ok_def)
  then obtain s rest where "bd_queue d = s # rest" by (cases "bd_queue d") auto
  with sentinel_not_first [OF assms(1)] assms(3) obtain y where q: "bd_queue d = Record y # rest" by (cases s) auto
  with sound_hand [OF assms(1,2) q] assms(3) False show ?thesis by (simp add: put_sentinel_def)
qed

lemma sound_step:
  assumes "buffer_ok d" "accounted es d" "buffer_step d e d'"
  shows "buffer_ok d' \<and> accounted (es @ [e]) d'"
proof (cases e)
  case (Submitted x r)
  with assms sound_submit show ?thesis by fastforce
next
  case Took
  with assms sound_take [OF assms(1,2)] show ?thesis by (auto simp: accounted_def)
next
  case (HandlerEnded x failed)
  with assms show ?thesis by (auto simp: count_delivery_def Let_def buffer_defs split: if_splits)
next
  case DeliverySettled
  with assms show ?thesis by (auto simp: settle_delivery_def one_less_pending_def buffer_defs split: if_splits)
next
  case CloseBegan
  with assms show ?thesis by (auto simp: begin_close_def buffer_defs split: if_splits)
next
  case (FlushEnded drained)
  with assms show ?thesis by (auto simp: end_flush_def buffer_defs split: if_splits)
next
  case Discarded
  with assms sound_discard [OF assms(1,2)] show ?thesis by (auto simp: accounted_def)
next
  case DropCounted
  then obtain y ys where "bd_hand d = y # ys" using assms(3) by (cases "bd_hand d") auto
  with DropCounted assms show ?thesis
    by (auto simp: count_discarded_def one_less_pending_def count_dropped_def buffer_defs split: if_splits)
next
  case SentinelTried
  with assms sound_put_sentinel [OF assms(1,2)] show ?thesis by (auto simp: accounted_def)
next
  case JoinTimedOut
  with assms show ?thesis by (auto simp: count_join_timeout_def buffer_defs split: if_splits)
qed

interpretation buffer_machine: machine "traced buffer_step" sound
proof
  fix p l p'
  assume "sound p" "traced buffer_step p l p'"
  then show "sound p'" by (cases p; cases p') (auto simp: sound_def dest: sound_step)
qed

lemma new_dispatcher_sound: "new_dispatcher n overflow = Inr d \<Longrightarrow> sound ([], d)"
  by (auto simp: sound_def new_dispatcher_def buffer_defs split: if_splits)

lemma reachable_sound:
  assumes "new_dispatcher n overflow = Inr d0" "run_of buffer_step d0 es d"
  shows "buffer_ok d" "accounted es d"
  using buffer_machine.run_inv [OF traced_run [OF assms(2)] new_dispatcher_sound [OF assms(1)]] by (simp_all add: sound_def)

lemma max_pending_kept: "buffer_step d e d' \<Longrightarrow> bd_max_pending d' = bd_max_pending d"
  by (cases e)
    (auto simp: dispatcher_submit_def accept_record_def one_less_pending_def count_dropped_def count_delivery_def settle_delivery_def
      begin_close_def end_flush_def discard_one_def put_sentinel_def count_discarded_def count_join_timeout_def Let_def
      split: if_splits overflow_policy.splits list.splits slot.splits)

lemma max_pending_run: "run_of buffer_step d es d' \<Longrightarrow> bd_max_pending d' = bd_max_pending d"
  by (induction rule: run_of.induct) (auto dest: max_pending_kept)

text \<open>
  C20: A buffer accounts for every record, whatever the threads do: the queue never exceeds
  its bound, every submission that does not raise is counted as delivered, failed, dropped or
  pending (the worker may have counted a delivery whose record is still pending), and the
  records reach the sink in the order in which they were accepted, each at most once.
\<close>

theorem buffer_accounts:
  assumes "new_dispatcher n overflow = Inr d0" "run_of buffer_step d0 es d"
  shows "int (length (bd_queue d)) \<le> n
    \<and> submissions es + (if bd_consumer d = Counted then 1 else 0) = bd_delivered d + bd_failures d + bd_dropped d + bd_pending d
    \<and> bd_enqueued d = length (accepted es) \<and> subseq (handled es) (accepted es)"
proof -
  have "bd_max_pending d = nat n" using max_pending_run [OF assms(2)] assms(1) by (auto simp: new_dispatcher_def split: if_splits)
  moreover have "length (bd_queue d) \<le> bd_max_pending d" "0 < bd_max_pending d"
    using reachable_sound(1) [OF assms] by (simp_all add: buffer_ok_def)
  ultimately have "int (length (bd_queue d)) \<le> n" by arith
  moreover have "subseq (handled es) (accepted es)"
    using reachable_sound(2) [OF assms] list_emb_append2 subseq_order.order_trans unfolding accounted_def
    by (metis list_emb_append2 prefix_imp_subseq prefixI subseq_order.order_trans)
  ultimately show ?thesis using reachable_sound(2) [OF assms] by (simp add: accounted_def)
qed

text \<open>
  A worker that has stopped leaves nothing behind: the queue is empty, later submissions
  are refused, and every submission has been delivered, has failed, or was dropped, up to the
  records a closing thread has taken out and is about to count as dropped.
\<close>

lemma buffer_stop_complete:
  assumes "new_dispatcher n overflow = Inr d0" "run_of buffer_step d0 es d" "bd_consumer d = Stopped"
  shows "bd_queue d = [] \<and> (\<forall>x raced. dispatcher_submit x raced d = (Inl (RuntimeError ''buffered sink is closed''), d))
    \<and> submissions es = bd_delivered d + bd_failures d + bd_dropped d + length (bd_hand d)"
  using reachable_sound [OF assms(1,2)] assms(3) by (auto simp: buffer_defs dispatcher_submit_def split: if_splits)

subsection \<open>Sinks\<close>

text \<open>The records of the two sinks, and the call each makes on the sink behind the buffer.\<close>

datatype metric_number = MInt int | MFloat rat

datatype sink_record =
    EventRecord string "(string \<times> pyval) list"
  | MetricRecord string string metric_number "(string \<times> string) list"

datatype sink_call =
    CallEmit string "(string \<times> pyval) list"
  | CallIncrement string int "(string \<times> string) list"
  | CallObserve string rat "(string \<times> string) list"

fun buffered_record :: "sink_call \<Rightarrow> sink_record" where
  "buffered_record (CallEmit event payload) = EventRecord event payload"
| "buffered_record (CallIncrement metric n labels) = MetricRecord ''increment'' metric (MInt n) labels"
| "buffered_record (CallObserve metric x labels) = MetricRecord ''observe'' metric (MFloat x) labels"

definition metric_int :: "metric_number \<Rightarrow> int" where
  "metric_int n = (case n of MInt i \<Rightarrow> i | MFloat x \<Rightarrow> (if 0 \<le> x then \<lfloor>x\<rfloor> else \<lceil>x\<rceil>))"

definition metric_float :: "metric_number \<Rightarrow> rat" where
  "metric_float n = (case n of MInt i \<Rightarrow> of_int i | MFloat x \<Rightarrow> x)"

fun deliver_record :: "sink_record \<Rightarrow> sink_call" where
  "deliver_record (EventRecord event payload) = CallEmit event payload"
| "deliver_record (MetricRecord operation metric n labels) =
     (if operation = ''increment'' then CallIncrement metric (metric_int n) labels
      else CallObserve metric (metric_float n) labels)"

lemma deliver_buffered: "deliver_record (buffered_record c) = c"
  by (cases c) (simp_all add: metric_int_def metric_float_def)

text \<open>
  What reaches a sink through its buffer are the calls that were made on the buffer: the
  calls delivered so far are, in order and unchanged, among the calls that were accepted.
\<close>

lemma buffered_calls_unchanged:
  assumes "new_dispatcher n overflow = Inr d0" "run_of buffer_step d0 es d" "accepted es = map buffered_record calls"
  shows "subseq (map deliver_record (handled es)) calls"
proof -
  have "subseq (handled es) (map buffered_record calls)"
    using reachable_sound(2) [OF assms(1,2)] assms(3) unfolding accounted_def
    by (metis prefix_imp_subseq prefixI subseq_order.order_trans)
  then have "subseq (map deliver_record (handled es)) (map deliver_record (map buffered_record calls))" by (rule subseq_map)
  then show ?thesis by (simp add: deliver_buffered comp_def)
qed

subsection \<open>A buffer at work\<close>

definition fixture_dispatcher :: "sink_record dispatcher" where
  "fixture_dispatcher = \<lparr>bd_max_pending = 1, bd_overflow = DROP_OLDEST, bd_queue = [], bd_enqueued = 0, bd_delivered = 0,
     bd_dropped = 0, bd_failures = 0, bd_pending = 0, bd_peak_pending = 0, bd_closed = False,
     bd_shutdown_timeout_count = 0, bd_consumer = Idle, bd_closer = NotClosing, bd_hand = []\<rparr>"

definition fixture_record :: "string \<Rightarrow> sink_record" where
  "fixture_record e = buffered_record (CallEmit e [])"

text \<open>The second record evicts the first, and the buffer is drained and closed.\<close>

definition fixture_events :: "sink_record buffer_event list" where
  "fixture_events = [Submitted (fixture_record ''a'') (Inr True), Submitted (fixture_record ''b'') (Inr True), Took,
     HandlerEnded (fixture_record ''b'') False, DeliverySettled, CloseBegan, FlushEnded True, SentinelTried, Took]"

definition fixture_stopped :: "sink_record dispatcher" where
  "fixture_stopped = fixture_dispatcher\<lparr>bd_enqueued := 2, bd_delivered := 1, bd_dropped := 1, bd_peak_pending := 1,
     bd_closed := True, bd_consumer := Stopped, bd_closer := SentinelPut\<rparr>"

lemma fixture_new: "new_dispatcher 1 DROP_OLDEST = Inr fixture_dispatcher"
  by (simp add: new_dispatcher_def fixture_dispatcher_def)

lemma run_submit:
  "dispatcher_submit x False d = (r, d1) \<Longrightarrow> run_of buffer_step d1 es d2 \<Longrightarrow> run_of buffer_step d (Submitted x r # es) d2"
  by (rule run_cons) auto

lemma fixture_buffer_run: "run_of buffer_step fixture_dispatcher fixture_events fixture_stopped"
  by (auto simp: fixture_events_def fixture_dispatcher_def fixture_stopped_def dispatcher_submit_def accept_record_def Let_def
      count_dropped_def one_less_pending_def worker_take_def count_delivery_def settle_delivery_def begin_close_def
      end_flush_def put_sentinel_def numeral_2_eq_2 intro!: run_submit run_cons [of buffer_step] run_nil)

theorem buffer_accounts_witness:
  "bd_enqueued fixture_stopped = length (accepted fixture_events) \<and> subseq (handled fixture_events) (accepted fixture_events)"
  using buffer_accounts [OF fixture_new fixture_buffer_run] by simp

lemma buffer_stop_complete_witness:
  "bd_queue fixture_stopped = [] \<and> submissions fixture_events = bd_delivered fixture_stopped + bd_failures fixture_stopped
     + bd_dropped fixture_stopped + length (bd_hand fixture_stopped)"
  using buffer_stop_complete [OF fixture_new fixture_buffer_run] by (simp add: fixture_stopped_def)

lemma buffered_calls_unchanged_witness:
  "subseq (map deliver_record (handled fixture_events)) [CallEmit ''a'' [], CallEmit ''b'' []]"
  by (rule buffered_calls_unchanged [OF fixture_new fixture_buffer_run])
    (simp add: fixture_events_def fixture_record_def)

end
