(* ===== verification/Health.thy ===== *)
theory Health
  imports Health_Tracker Buffered Capacity Circuit_Breaker Memory_Cache Source_Timeout
begin

section \<open>Builder health: copy activity, assessment and serialization (core/health.py)\<close>

text \<open>
  The tracker of a payload-copy subsystem, the health snapshot of a builder, the assessment of
  a snapshot against thresholds, and the JSON form of both. Ratios are exact quotients.
\<close>

subsection \<open>Copy activity\<close>

record copy_health =
  ch_run_in_thread :: bool
  ch_max_concurrency :: int
  ch_active_copies :: nat
  ch_waiting_for_capacity :: nat
  ch_peak_active_copies :: nat
  ch_peak_waiting_for_capacity :: nat
  ch_started_count :: nat
  ch_completed_count :: nat
  ch_failure_count :: nat
  ch_timeout_count :: nat
  ch_capacity_timeout_count :: nat
  ch_capacity_wait_count :: nat
  ch_average_wait_ms :: rat
  ch_max_wait_ms :: rat
  ch_average_duration_ms :: rat
  ch_max_duration_ms :: rat
  ch_accepting_copies :: bool
  ch_shutdown_started :: bool
  ch_shutdown_complete :: bool
  ch_shutdown_incomplete :: bool
  ch_shutdown_timeout_count :: nat
  ch_active_at_last_shutdown_timeout :: nat

text \<open>The tracker keeps totals where the snapshot has averages.\<close>

record copy_tracker =
  pt_run_in_thread :: bool
  pt_max_concurrency :: int
  pt_active_copies :: nat
  pt_waiting_for_capacity :: nat
  pt_peak_active_copies :: nat
  pt_peak_waiting_for_capacity :: nat
  pt_started_count :: nat
  pt_completed_count :: nat
  pt_failure_count :: nat
  pt_timeout_count :: nat
  pt_capacity_timeout_count :: nat
  pt_capacity_wait_count :: nat
  pt_total_wait_ms :: rat
  pt_max_wait_ms :: rat
  pt_total_duration_ms :: rat
  pt_max_duration_ms :: rat
  pt_accepting_copies :: bool
  pt_shutdown_started :: bool
  pt_shutdown_complete :: bool
  pt_shutdown_incomplete :: bool
  pt_shutdown_timeout_count :: nat
  pt_active_at_last_shutdown_timeout :: nat

definition new_copy_tracker :: "bool \<Rightarrow> int \<Rightarrow> copy_tracker" where
  "new_copy_tracker in_thread limit =
     \<lparr>pt_run_in_thread = in_thread, pt_max_concurrency = limit, pt_active_copies = 0, pt_waiting_for_capacity = 0,
      pt_peak_active_copies = 0, pt_peak_waiting_for_capacity = 0, pt_started_count = 0, pt_completed_count = 0,
      pt_failure_count = 0, pt_timeout_count = 0, pt_capacity_timeout_count = 0, pt_capacity_wait_count = 0,
      pt_total_wait_ms = 0, pt_max_wait_ms = 0, pt_total_duration_ms = 0, pt_max_duration_ms = 0,
      pt_accepting_copies = True, pt_shutdown_started = False, pt_shutdown_complete = False,
      pt_shutdown_incomplete = False, pt_shutdown_timeout_count = 0, pt_active_at_last_shutdown_timeout = 0\<rparr>"

definition capacity_wait_started :: "copy_tracker \<Rightarrow> copy_tracker" where
  "capacity_wait_started t =
     (let t' = t\<lparr>pt_waiting_for_capacity := pt_waiting_for_capacity t + 1\<rparr>
      in t'\<lparr>pt_peak_waiting_for_capacity := max (pt_peak_waiting_for_capacity t') (pt_waiting_for_capacity t')\<rparr>)"

definition copy_ms :: "rat \<Rightarrow> rat" where
  "copy_ms seconds = max 0 (seconds * 1000)"

definition capacity_wait_finished :: "rat \<Rightarrow> copy_tracker \<Rightarrow> py_error + copy_tracker" where
  "capacity_wait_finished seconds t =
     (if pt_waiting_for_capacity t = 0
      then Inl (RuntimeError ''payload copy capacity waiter counter cannot become negative'')
      else Inr (t\<lparr>pt_waiting_for_capacity := pt_waiting_for_capacity t - 1, pt_capacity_wait_count := pt_capacity_wait_count t + 1,
                  pt_total_wait_ms := pt_total_wait_ms t + copy_ms seconds,
                  pt_max_wait_ms := max (pt_max_wait_ms t) (copy_ms seconds)\<rparr>))"

definition copy_started :: "copy_tracker \<Rightarrow> copy_tracker" where
  "copy_started t =
     (let t' = t\<lparr>pt_active_copies := pt_active_copies t + 1, pt_started_count := pt_started_count t + 1\<rparr>
      in t'\<lparr>pt_peak_active_copies := max (pt_peak_active_copies t') (pt_active_copies t')\<rparr>)"

definition copy_finished :: "rat \<Rightarrow> bool \<Rightarrow> copy_tracker \<Rightarrow> py_error + copy_tracker" where
  "copy_finished seconds failed t =
     (if pt_active_copies t = 0 then Inl (RuntimeError ''active payload copy counter cannot become negative'')
      else
        let t' = t\<lparr>pt_active_copies := pt_active_copies t - 1\<rparr>;
            t'' = (if failed then t'\<lparr>pt_failure_count := pt_failure_count t' + 1\<rparr>
                   else t'\<lparr>pt_completed_count := pt_completed_count t' + 1\<rparr>)
        in Inr (t''\<lparr>pt_total_duration_ms := pt_total_duration_ms t'' + copy_ms seconds,
                    pt_max_duration_ms := max (pt_max_duration_ms t'') (copy_ms seconds)\<rparr>))"

definition record_copy_timeout :: "bool \<Rightarrow> copy_tracker \<Rightarrow> copy_tracker" where
  "record_copy_timeout waiting t =
     (let t' = t\<lparr>pt_timeout_count := pt_timeout_count t + 1\<rparr>
      in if waiting then t'\<lparr>pt_capacity_timeout_count := pt_capacity_timeout_count t' + 1\<rparr> else t')"

definition copy_shutdown_started :: "copy_tracker \<Rightarrow> copy_tracker" where
  "copy_shutdown_started t = t\<lparr>pt_accepting_copies := False, pt_shutdown_started := True, pt_shutdown_complete := False\<rparr>"

definition copy_shutdown_timed_out :: "int \<Rightarrow> copy_tracker \<Rightarrow> copy_tracker" where
  "copy_shutdown_timed_out active t =
     t\<lparr>pt_shutdown_incomplete := True, pt_shutdown_timeout_count := pt_shutdown_timeout_count t + 1,
       pt_active_at_last_shutdown_timeout := nat active\<rparr>"

definition copy_shutdown_completed :: "copy_tracker \<Rightarrow> copy_tracker" where
  "copy_shutdown_completed t =
     t\<lparr>pt_accepting_copies := False, pt_shutdown_started := True, pt_shutdown_complete := True, pt_shutdown_incomplete := False\<rparr>"

definition average :: "rat \<Rightarrow> nat \<Rightarrow> rat" where
  "average whole n = (if n = 0 then 0 else whole / of_nat n)"

definition copy_tracker_snapshot :: "copy_tracker \<Rightarrow> copy_health" where
  "copy_tracker_snapshot t =
     \<lparr>ch_run_in_thread = pt_run_in_thread t, ch_max_concurrency = pt_max_concurrency t,
      ch_active_copies = pt_active_copies t, ch_waiting_for_capacity = pt_waiting_for_capacity t,
      ch_peak_active_copies = pt_peak_active_copies t, ch_peak_waiting_for_capacity = pt_peak_waiting_for_capacity t,
      ch_started_count = pt_started_count t, ch_completed_count = pt_completed_count t,
      ch_failure_count = pt_failure_count t, ch_timeout_count = pt_timeout_count t,
      ch_capacity_timeout_count = pt_capacity_timeout_count t, ch_capacity_wait_count = pt_capacity_wait_count t,
      ch_average_wait_ms = average (pt_total_wait_ms t) (pt_capacity_wait_count t), ch_max_wait_ms = pt_max_wait_ms t,
      ch_average_duration_ms = average (pt_total_duration_ms t) (pt_completed_count t + pt_failure_count t),
      ch_max_duration_ms = pt_max_duration_ms t,
      ch_accepting_copies = pt_accepting_copies t, ch_shutdown_started = pt_shutdown_started t,
      ch_shutdown_complete = pt_shutdown_complete t, ch_shutdown_incomplete = pt_shutdown_incomplete t,
      ch_shutdown_timeout_count = pt_shutdown_timeout_count t,
      ch_active_at_last_shutdown_timeout = pt_active_at_last_shutdown_timeout t\<rparr>"

subsection \<open>The health of a builder\<close>

record builder_health =
  bh_closed :: bool
  bh_background_refreshes :: int
  bh_singleflight_in_flight :: int
  bh_source_support_cache_entries :: int
  bh_capacity :: "(string, capacity_snapshot) odict"
  bh_cache :: "cache_stats option"
  bh_circuits :: "(circuit_identity, circuit) odict"
  bh_active_dispatch_workers :: int
  bh_waiting_for_capacity :: int
  bh_queue_timeout_count :: int
  bh_source_timeout_count :: int
  bh_deadline_exceeded_count :: int
  bh_revalidation_attempt_count :: int
  bh_revalidation_failure_count :: int
  bh_source_timeout_guarantees :: "(string, timeout_guarantee) odict"
  bh_blocking_source_count :: int
  bh_protected_blocking_source_count :: int
  bh_unsafe_blocking_source_count :: int
  bh_undeclared_source_timeout_count :: int
  bh_source_transport_timeout_violation_count :: int
  bh_source_transport_timeout_violations :: "(string, nat) odict"
  bh_pending_submissions :: int
  bh_max_pending_submissions :: "int option"
  bh_payload_copy_components :: "(string, copy_health) odict"
  bh_active_payload_copies :: int
  bh_waiting_for_copy_capacity :: int
  bh_payload_copy_started_count :: int
  bh_payload_copy_completed_count :: int
  bh_payload_copy_failure_count :: int
  bh_payload_copy_timeout_count :: int
  bh_payload_copy_capacity_timeout_count :: int
  bh_payload_copy_shutdown_incomplete :: bool
  bh_payload_copy_shutdown_timeout_count :: int
  bh_payload_copy_active_at_last_shutdown_timeout :: int
  bh_observability_buffers :: "(string, sink_stats) odict"
  bh_observability_pending :: int
  bh_observability_peak_pending :: int
  bh_observability_dropped_count :: int
  bh_observability_failure_count :: int
  bh_observability_shutdown_incomplete :: bool
  bh_observability_shutdown_timeout_count :: int

text \<open>\<^verbatim>\<open>_observability_buffer_stats\<close>: what a sink exposes.\<close>

datatype stats_attribute = NoStats | StatsOf sink_stats | OtherStats

fun buffer_stats :: "(string \<times> bool \<times> stats_attribute) list \<Rightarrow> arg_error + (string, sink_stats) odict" where
  "buffer_stats [] = Inr []"
| "buffer_stats ((nm, exposes, attribute) # rest) =
     (if \<not> exposes then buffer_stats rest
      else case attribute of
             NoStats \<Rightarrow> buffer_stats rest
           | OtherStats \<Rightarrow> Inl (TypeError ''buffered observability stats must return BufferedSinkStats'')
           | StatsOf s \<Rightarrow> res_bind (buffer_stats rest) (\<lambda>ss. Inr ((nm, s) # ss)))"

definition total_of :: "('a \<Rightarrow> nat) \<Rightarrow> (string, 'a) odict \<Rightarrow> int" where
  "total_of f d = int (sum_list (map (\<lambda>p. f (snd p)) d))"

definition number_of :: "('a \<Rightarrow> bool) \<Rightarrow> (string, 'a) odict \<Rightarrow> int" where
  "number_of P d = int (length (filter (\<lambda>p. P (snd p)) d))"

definition builder_health_of ::
  "bool \<Rightarrow> nat \<Rightarrow> nat \<Rightarrow> nat \<Rightarrow> (string, capacity_snapshot) odict \<Rightarrow> cache_stats option \<Rightarrow> (circuit_identity, circuit) odict
    \<Rightarrow> health_tracker \<Rightarrow> (string, timeout_guarantee) odict \<Rightarrow> (string, copy_health) odict \<Rightarrow> (string, sink_stats) odict
    \<Rightarrow> builder_health" where
  "builder_health_of is_closed refreshes in_flight support capacity cache circuits operational guarantees copies buffers =
     \<lparr>bh_closed = is_closed, bh_background_refreshes = int refreshes, bh_singleflight_in_flight = int in_flight,
      bh_source_support_cache_entries = int support, bh_capacity = capacity, bh_cache = cache, bh_circuits = circuits,
      bh_active_dispatch_workers = int (ht_active_dispatch_workers operational),
      bh_waiting_for_capacity = total_of ca_waiting capacity,
      bh_queue_timeout_count = int (ht_queue_timeout_count operational),
      bh_source_timeout_count = int (ht_source_timeout_count operational),
      bh_deadline_exceeded_count = int (ht_deadline_exceeded_count operational),
      bh_revalidation_attempt_count = int (ht_revalidation_attempt_count operational),
      bh_revalidation_failure_count = int (ht_revalidation_failure_count operational),
      bh_source_timeout_guarantees = guarantees,
      bh_blocking_source_count = number_of tg_blocking_io guarantees,
      bh_protected_blocking_source_count = number_of (\<lambda>g. tg_status g = PROTECTED) guarantees,
      bh_unsafe_blocking_source_count = number_of (\<lambda>g. tg_blocking_io g \<and> \<not> tg_protected g) guarantees,
      bh_undeclared_source_timeout_count = number_of (\<lambda>g. \<not> tg_declaration_present g) guarantees,
      bh_source_transport_timeout_violation_count = int (ht_transport_violation_count operational),
      bh_source_transport_timeout_violations = ht_transport_violations operational,
      bh_pending_submissions = 0, bh_max_pending_submissions = None,
      bh_payload_copy_components = copies, bh_active_payload_copies = total_of ch_active_copies copies,
      bh_waiting_for_copy_capacity = total_of ch_waiting_for_capacity copies,
      bh_payload_copy_started_count = total_of ch_started_count copies,
      bh_payload_copy_completed_count = total_of ch_completed_count copies,
      bh_payload_copy_failure_count = total_of ch_failure_count copies,
      bh_payload_copy_timeout_count = total_of ch_timeout_count copies,
      bh_payload_copy_capacity_timeout_count = total_of ch_capacity_timeout_count copies,
      bh_payload_copy_shutdown_incomplete = list_ex (\<lambda>p. ch_shutdown_incomplete (snd p)) copies,
      bh_payload_copy_shutdown_timeout_count = total_of ch_shutdown_timeout_count copies,
      bh_payload_copy_active_at_last_shutdown_timeout = total_of ch_active_at_last_shutdown_timeout copies,
      bh_observability_buffers = buffers, bh_observability_pending = total_of bs_pending buffers,
      bh_observability_peak_pending = total_of bs_peak_pending buffers,
      bh_observability_dropped_count = total_of bs_dropped buffers,
      bh_observability_failure_count = total_of bs_failures buffers,
      bh_observability_shutdown_incomplete = list_ex (\<lambda>p. bs_closed (snd p) \<and> bs_worker_alive (snd p)) buffers,
      bh_observability_shutdown_timeout_count = total_of bs_shutdown_timeout_count buffers\<rparr>"

text \<open>What the cache exposes of its payload copies, and the whole snapshot.\<close>

datatype copy_attribute = NoCopyHealth | SharedWithBuilder | CopyHealthOf copy_health | OtherCopyHealth

definition copy_components :: "copy_health \<Rightarrow> copy_attribute \<Rightarrow> arg_error + (string, copy_health) odict" where
  "copy_components builder attribute =
     (case attribute of
        CopyHealthOf c \<Rightarrow> Inr [(''builder'', builder), (''cache'', c)]
      | OtherCopyHealth \<Rightarrow> Inl (TypeError ''copy_health_snapshot must return PayloadCopyHealth'')
      | _ \<Rightarrow> Inr [(''builder'', builder)])"

definition builder_health_snapshot ::
  "bool \<Rightarrow> nat \<Rightarrow> nat \<Rightarrow> nat \<Rightarrow> (string, capacity_snapshot) odict \<Rightarrow> cache_stats option \<Rightarrow> (circuit_identity, circuit) odict
    \<Rightarrow> health_tracker \<Rightarrow> (string, timeout_guarantee) odict \<Rightarrow> copy_tracker \<Rightarrow> copy_attribute
    \<Rightarrow> (string \<times> bool \<times> stats_attribute) list \<Rightarrow> arg_error + builder_health" where
  "builder_health_snapshot is_closed refreshes in_flight support capacity cache circuits operational guarantees copies attribute sinks =
     res_bind (copy_components (copy_tracker_snapshot copies) attribute) (\<lambda>components.
     res_bind (buffer_stats sinks) (\<lambda>buffers.
       Inr (builder_health_of is_closed refreshes in_flight support capacity cache circuits operational guarantees components buffers)))"

subsection \<open>Assessment\<close>

datatype health_severity = HEALTHY | DEGRADED | CRITICAL

datatype health_reason =
    BUILDER_CLOSED | SOURCE_CAPACITY_WAITING | PAYLOAD_COPY_CAPACITY_WAITING | SUBMISSION_BACKLOG_HIGH
  | OBSERVABILITY_BACKLOG_HIGH | CIRCUIT_OPEN | CIRCUIT_HALF_OPEN | PAYLOAD_COPY_SHUTDOWN_INCOMPLETE
  | OBSERVABILITY_SHUTDOWN_INCOMPLETE | OBSERVABILITY_WORKER_STOPPED | QUEUE_TIMEOUTS_INCREASED
  | SOURCE_TIMEOUTS_INCREASED | SOURCE_TRANSPORT_TIMEOUT_VIOLATIONS_INCREASED | DEADLINES_EXCEEDED_INCREASED
  | REVALIDATION_FAILURES_INCREASED | PAYLOAD_COPY_FAILURES_INCREASED | PAYLOAD_COPY_TIMEOUTS_INCREASED
  | PAYLOAD_COPY_SHUTDOWN_TIMEOUTS_INCREASED | OBSERVABILITY_DROPS_INCREASED
  | OBSERVABILITY_SHUTDOWN_TIMEOUTS_INCREASED | OBSERVABILITY_FAILURES_INCREASED | UNSAFE_BLOCKING_SOURCE

fun severity_value :: "health_severity \<Rightarrow> string" where
  "severity_value HEALTHY = ''healthy''"
| "severity_value DEGRADED = ''degraded''"
| "severity_value CRITICAL = ''critical''"

fun health_reason_value :: "health_reason \<Rightarrow> string" where
  "health_reason_value BUILDER_CLOSED = ''builder_closed''"
| "health_reason_value SOURCE_CAPACITY_WAITING = ''source_capacity_waiting''"
| "health_reason_value PAYLOAD_COPY_CAPACITY_WAITING = ''payload_copy_capacity_waiting''"
| "health_reason_value SUBMISSION_BACKLOG_HIGH = ''submission_backlog_high''"
| "health_reason_value OBSERVABILITY_BACKLOG_HIGH = ''observability_backlog_high''"
| "health_reason_value CIRCUIT_OPEN = ''circuit_open''"
| "health_reason_value CIRCUIT_HALF_OPEN = ''circuit_half_open''"
| "health_reason_value PAYLOAD_COPY_SHUTDOWN_INCOMPLETE = ''payload_copy_shutdown_incomplete''"
| "health_reason_value OBSERVABILITY_SHUTDOWN_INCOMPLETE = ''observability_shutdown_incomplete''"
| "health_reason_value OBSERVABILITY_WORKER_STOPPED = ''observability_worker_stopped''"
| "health_reason_value QUEUE_TIMEOUTS_INCREASED = ''queue_timeouts_increased''"
| "health_reason_value SOURCE_TIMEOUTS_INCREASED = ''source_timeouts_increased''"
| "health_reason_value SOURCE_TRANSPORT_TIMEOUT_VIOLATIONS_INCREASED = ''source_transport_timeout_violations_increased''"
| "health_reason_value DEADLINES_EXCEEDED_INCREASED = ''deadlines_exceeded_increased''"
| "health_reason_value REVALIDATION_FAILURES_INCREASED = ''revalidation_failures_increased''"
| "health_reason_value PAYLOAD_COPY_FAILURES_INCREASED = ''payload_copy_failures_increased''"
| "health_reason_value PAYLOAD_COPY_TIMEOUTS_INCREASED = ''payload_copy_timeouts_increased''"
| "health_reason_value PAYLOAD_COPY_SHUTDOWN_TIMEOUTS_INCREASED = ''payload_copy_shutdown_timeouts_increased''"
| "health_reason_value OBSERVABILITY_DROPS_INCREASED = ''observability_drops_increased''"
| "health_reason_value OBSERVABILITY_SHUTDOWN_TIMEOUTS_INCREASED = ''observability_shutdown_timeouts_increased''"
| "health_reason_value OBSERVABILITY_FAILURES_INCREASED = ''observability_failures_increased''"
| "health_reason_value UNSAFE_BLOCKING_SOURCE = ''unsafe_blocking_source''"

record assessment_policy =
  hp_capacity_waiting_degraded :: int
  hp_capacity_waiting_critical_ratio :: pynum
  hp_copy_waiting_degraded :: int
  hp_copy_waiting_critical_ratio :: pynum
  hp_submission_backlog_degraded_ratio :: pynum
  hp_submission_backlog_critical_ratio :: pynum
  hp_observability_backlog_degraded_ratio :: pynum
  hp_observability_backlog_critical_ratio :: pynum
  hp_counter_delta_degraded :: int
  hp_counter_delta_critical :: int

definition default_assessment_policy :: assessment_policy where
  "default_assessment_policy =
     \<lparr>hp_capacity_waiting_degraded = 1, hp_capacity_waiting_critical_ratio = NFloat (Fin 1),
      hp_copy_waiting_degraded = 1, hp_copy_waiting_critical_ratio = NFloat (Fin 1),
      hp_submission_backlog_degraded_ratio = NFloat (Fin (1/2)), hp_submission_backlog_critical_ratio = NFloat (Fin (9/10)),
      hp_observability_backlog_degraded_ratio = NFloat (Fin (1/2)), hp_observability_backlog_critical_ratio = NFloat (Fin (9/10)),
      hp_counter_delta_degraded = 1, hp_counter_delta_critical = 5\<rparr>"

definition at_least_one :: "string \<Rightarrow> pyval \<Rightarrow> arg_error + int" where
  "at_least_one nm v =
     res_bind (require (as_int v) (TypeError (nm @ '' must be an integer''))) (\<lambda>i.
     res_bind (raise_if (i < 1) (ValueError (nm @ '' must be at least 1''))) (\<lambda>_. Inr i))"

definition positive_ratio :: "string \<Rightarrow> pyval \<Rightarrow> arg_error + pynum" where
  "positive_ratio nm v =
     res_bind (require (as_number v) (TypeError (nm @ '' must be a number''))) (\<lambda>x.
     res_bind (to_double x) (\<lambda>f.
     res_bind (raise_if (\<not> isfinite f \<or> fle f (Fin 0)) (ValueError (nm @ '' must be finite and positive''))) (\<lambda>_. Inr x)))"

definition unit_ratio :: "string \<Rightarrow> pyval \<Rightarrow> arg_error + pynum" where
  "unit_ratio nm v =
     res_bind (require (as_number v) (TypeError (nm @ '' must be a number''))) (\<lambda>x.
     res_bind (to_double x) (\<lambda>f.
     res_bind (raise_if (\<not> isfinite f \<or> \<not> (flt (Fin 0) f \<and> fle f (Fin 1)))
                 (ValueError (nm @ '' must be greater than 0 and at most 1''))) (\<lambda>_. Inr x)))"

definition ratio_pair :: "string \<Rightarrow> pyval \<Rightarrow> string \<Rightarrow> pyval \<Rightarrow> arg_error + pynum \<times> pynum" where
  "ratio_pair degraded_name degraded critical_name critical =
     res_bind (unit_ratio degraded_name degraded) (\<lambda>d.
     res_bind (unit_ratio critical_name critical) (\<lambda>c.
     res_bind (raise_if (num_value c < num_value d)
                 (ValueError (critical_name @ '' must be greater than or equal to '' @ degraded_name))) (\<lambda>_. Inr (d, c))))"

definition mk_assessment_policy ::
  "pyval \<Rightarrow> pyval \<Rightarrow> pyval \<Rightarrow> pyval \<Rightarrow> pyval \<Rightarrow> pyval \<Rightarrow> pyval \<Rightarrow> pyval \<Rightarrow> pyval \<Rightarrow> pyval \<Rightarrow> arg_error + assessment_policy" where
  "mk_assessment_policy cap_degraded cap_ratio copy_degraded copy_ratio sub_degraded sub_critical obs_degraded obs_critical
      delta_degraded delta_critical =
     res_bind (at_least_one ''capacity_waiting_degraded'' cap_degraded) (\<lambda>capd.
     res_bind (at_least_one ''copy_waiting_degraded'' copy_degraded) (\<lambda>copd.
     res_bind (at_least_one ''counter_delta_degraded'' delta_degraded) (\<lambda>dd.
     res_bind (at_least_one ''counter_delta_critical'' delta_critical) (\<lambda>dc.
     res_bind (raise_if (dc < dd)
       (ValueError ''counter_delta_critical must be greater than or equal to counter_delta_degraded'')) (\<lambda>_.
     res_bind (positive_ratio ''capacity_waiting_critical_ratio'' cap_ratio) (\<lambda>capr.
     res_bind (positive_ratio ''copy_waiting_critical_ratio'' copy_ratio) (\<lambda>copr.
     res_bind (ratio_pair ''submission_backlog_degraded_ratio'' sub_degraded ''submission_backlog_critical_ratio'' sub_critical) (\<lambda>(sd, sc).
     res_bind (ratio_pair ''observability_backlog_degraded_ratio'' obs_degraded ''observability_backlog_critical_ratio'' obs_critical) (\<lambda>(od, oc).
       Inr \<lparr>hp_capacity_waiting_degraded = capd, hp_capacity_waiting_critical_ratio = capr,
            hp_copy_waiting_degraded = copd, hp_copy_waiting_critical_ratio = copr,
            hp_submission_backlog_degraded_ratio = sd, hp_submission_backlog_critical_ratio = sc,
            hp_observability_backlog_degraded_ratio = od, hp_observability_backlog_critical_ratio = oc,
            hp_counter_delta_degraded = dd, hp_counter_delta_critical = dc\<rparr>)))))))))"

record health_finding =
  hf_reason :: health_reason
  hf_severity :: health_severity
  hf_metric :: string
  hf_observed :: pyval
  hf_threshold :: pyval
  hf_component :: string

definition number_val :: "pynum \<Rightarrow> pyval" where
  "number_val x = (case x of NInt i \<Rightarrow> PyInt i | NFloat f \<Rightarrow> PyFloat f)"

definition mk_finding :: "health_reason \<Rightarrow> health_severity \<Rightarrow> string \<Rightarrow> pyval \<Rightarrow> pyval \<Rightarrow> string \<Rightarrow> health_finding" where
  "mk_finding reason severity metric observed threshold component' =
     \<lparr>hf_reason = reason, hf_severity = severity, hf_metric = metric, hf_observed = observed, hf_threshold = threshold,
      hf_component = component'\<rparr>"

definition safe_ratio :: "int \<Rightarrow> int option \<Rightarrow> rat" where
  "safe_ratio n d = (case d of None \<Rightarrow> 0 | Some k \<Rightarrow> if k \<le> 0 then 0 else max 0 (of_int n / of_int k))"

definition max_ratio :: "(string \<times> rat) list \<Rightarrow> rat \<times> string" where
  "max_ratio rs = foldl (\<lambda>(m, c) (nm, r). if m < r then (r, nm) else (m, c)) (0, '''') rs"

definition maximum_wait_ratio :: "(string, capacity_snapshot) odict \<Rightarrow> rat \<times> string" where
  "maximum_wait_ratio d = max_ratio (map (\<lambda>(nm, s). (nm, safe_ratio (int (ca_waiting s)) (Some (int (ca_limit s))))) d)"

definition maximum_copy_wait_ratio :: "(string, copy_health) odict \<Rightarrow> rat \<times> string" where
  "maximum_copy_wait_ratio d =
     max_ratio (map (\<lambda>(nm, s). (nm, safe_ratio (int (ch_waiting_for_capacity s)) (Some (ch_max_concurrency s)))) d)"

definition maximum_observability_ratio :: "(string, sink_stats) odict \<Rightarrow> rat \<times> string" where
  "maximum_observability_ratio d =
     max_ratio (map (\<lambda>(nm, s). (nm, safe_ratio (int (bs_pending s)) (Some (int (bs_max_pending s))))) d)"

definition closed_findings :: "builder_health \<Rightarrow> health_finding list" where
  "closed_findings h =
     (if bh_closed h then [mk_finding BUILDER_CLOSED CRITICAL ''closed'' (PyBool True) (PyBool False) ''''] else [])"

definition unsafe_findings :: "builder_health \<Rightarrow> health_finding list" where
  "unsafe_findings h =
     (if 0 < bh_unsafe_blocking_source_count h
      then [mk_finding UNSAFE_BLOCKING_SOURCE CRITICAL ''unsafe_blocking_source_count''
              (PyInt (bh_unsafe_blocking_source_count h)) (PyInt 0)
              (str_join '','' (sort (od_keys (filter (\<lambda>p. tg_blocking_io (snd p) \<and> \<not> tg_protected (snd p))
                 (bh_source_timeout_guarantees h)))))]
      else [])"

text \<open>Waiting tasks: critical by the largest ratio of a component, degraded by their number.\<close>

definition waiting_findings ::
  "health_reason \<Rightarrow> string \<Rightarrow> int \<Rightarrow> int \<Rightarrow> pynum \<Rightarrow> rat \<times> string \<Rightarrow> health_finding list" where
  "waiting_findings reason metric n degraded critical_ratio worst =
     (let waiting = max 0 n
      in if waiting < degraded then []
         else if num_value critical_ratio \<le> fst worst
              then [mk_finding reason CRITICAL ''maximum_waiting_to_limit_ratio'' (PyFloat (Fin (fst worst)))
                      (number_val critical_ratio) (snd worst)]
              else [mk_finding reason DEGRADED metric (PyInt waiting) (PyInt degraded) (snd worst)])"

definition backlog_findings :: "health_reason \<Rightarrow> string \<Rightarrow> pynum \<Rightarrow> pynum \<Rightarrow> rat \<times> string \<Rightarrow> health_finding list" where
  "backlog_findings reason metric degraded critical worst =
     (if fst worst < num_value degraded then []
      else if num_value critical \<le> fst worst
           then [mk_finding reason CRITICAL metric (PyFloat (Fin (fst worst))) (number_val critical) (snd worst)]
           else [mk_finding reason DEGRADED metric (PyFloat (Fin (fst worst))) (number_val degraded) (snd worst)])"

definition count_findings :: "health_reason \<Rightarrow> health_severity \<Rightarrow> string \<Rightarrow> nat \<Rightarrow> health_finding list" where
  "count_findings reason severity metric n =
     (if n = 0 then [] else [mk_finding reason severity metric (PyInt (int n)) (PyInt 0) ''''])"

definition flag_findings :: "health_reason \<Rightarrow> string \<Rightarrow> bool \<Rightarrow> health_finding list" where
  "flag_findings reason metric flag =
     (if flag then [mk_finding reason CRITICAL metric (PyBool True) (PyBool False) ''''] else [])"

definition state_findings :: "assessment_policy \<Rightarrow> builder_health \<Rightarrow> health_finding list" where
  "state_findings p h =
     closed_findings h @ unsafe_findings h
     @ waiting_findings SOURCE_CAPACITY_WAITING ''waiting_for_capacity'' (bh_waiting_for_capacity h)
         (hp_capacity_waiting_degraded p) (hp_capacity_waiting_critical_ratio p) (maximum_wait_ratio (bh_capacity h))
     @ waiting_findings PAYLOAD_COPY_CAPACITY_WAITING ''waiting_for_copy_capacity'' (bh_waiting_for_copy_capacity h)
         (hp_copy_waiting_degraded p) (hp_copy_waiting_critical_ratio p) (maximum_copy_wait_ratio (bh_payload_copy_components h))
     @ backlog_findings SUBMISSION_BACKLOG_HIGH ''submission_backlog_ratio'' (hp_submission_backlog_degraded_ratio p)
         (hp_submission_backlog_critical_ratio p) (safe_ratio (bh_pending_submissions h) (bh_max_pending_submissions h), '''')
     @ backlog_findings OBSERVABILITY_BACKLOG_HIGH ''observability_backlog_ratio'' (hp_observability_backlog_degraded_ratio p)
         (hp_observability_backlog_critical_ratio p) (maximum_observability_ratio (bh_observability_buffers h))
     @ count_findings OBSERVABILITY_WORKER_STOPPED CRITICAL ''stopped_observability_workers''
         (length (filter (\<lambda>p. \<not> bs_worker_alive (snd p) \<and> \<not> bs_closed (snd p)) (bh_observability_buffers h)))
     @ count_findings CIRCUIT_OPEN DEGRADED ''open_circuits'' (length (filter (\<lambda>p. ct_state (snd p) = OPEN) (bh_circuits h)))
     @ count_findings CIRCUIT_HALF_OPEN DEGRADED ''half_open_circuits''
         (length (filter (\<lambda>p. ct_state (snd p) = HALF_OPEN) (bh_circuits h)))
     @ flag_findings PAYLOAD_COPY_SHUTDOWN_INCOMPLETE ''payload_copy_shutdown_incomplete'' (bh_payload_copy_shutdown_incomplete h)
     @ flag_findings OBSERVABILITY_SHUTDOWN_INCOMPLETE ''observability_shutdown_incomplete'' (bh_observability_shutdown_incomplete h)"

definition counter_specs :: "(string \<times> health_reason \<times> (builder_health \<Rightarrow> int)) list" where
  "counter_specs =
     [(''queue_timeout_count'', QUEUE_TIMEOUTS_INCREASED, bh_queue_timeout_count),
      (''source_timeout_count'', SOURCE_TIMEOUTS_INCREASED, bh_source_timeout_count),
      (''source_transport_timeout_violation_count'', SOURCE_TRANSPORT_TIMEOUT_VIOLATIONS_INCREASED,
        bh_source_transport_timeout_violation_count),
      (''deadline_exceeded_count'', DEADLINES_EXCEEDED_INCREASED, bh_deadline_exceeded_count),
      (''revalidation_failure_count'', REVALIDATION_FAILURES_INCREASED, bh_revalidation_failure_count),
      (''payload_copy_failure_count'', PAYLOAD_COPY_FAILURES_INCREASED, bh_payload_copy_failure_count),
      (''payload_copy_timeout_count'', PAYLOAD_COPY_TIMEOUTS_INCREASED, bh_payload_copy_timeout_count),
      (''payload_copy_shutdown_timeout_count'', PAYLOAD_COPY_SHUTDOWN_TIMEOUTS_INCREASED, bh_payload_copy_shutdown_timeout_count),
      (''observability_dropped_count'', OBSERVABILITY_DROPS_INCREASED, bh_observability_dropped_count),
      (''observability_shutdown_timeout_count'', OBSERVABILITY_SHUTDOWN_TIMEOUTS_INCREASED, bh_observability_shutdown_timeout_count),
      (''observability_failure_count'', OBSERVABILITY_FAILURES_INCREASED, bh_observability_failure_count)]"

definition counter_delta :: "(builder_health \<Rightarrow> int) \<Rightarrow> builder_health \<Rightarrow> builder_health \<Rightarrow> int" where
  "counter_delta f previous h = max 0 (max 0 (f h) - max 0 (f previous))"

definition counter_findings :: "assessment_policy \<Rightarrow> builder_health \<Rightarrow> builder_health \<Rightarrow> health_finding list" where
  "counter_findings p previous h =
     concat (map (\<lambda>(nm, reason, f).
       let delta = counter_delta f previous h
       in if delta < hp_counter_delta_degraded p then []
          else if hp_counter_delta_critical p \<le> delta
               then [mk_finding reason CRITICAL (''delta_'' @ nm) (PyInt delta) (PyInt (hp_counter_delta_critical p)) '''']
               else [mk_finding reason DEGRADED (''delta_'' @ nm) (PyInt delta) (PyInt (hp_counter_delta_degraded p)) '''']) counter_specs)"

record health_assessment =
  ha_severity :: health_severity
  ha_findings :: "health_finding list"
  ha_baseline_used :: bool

definition assess_builder_health ::
  "builder_health \<Rightarrow> builder_health option \<Rightarrow> assessment_policy option \<Rightarrow> health_assessment" where
  "assess_builder_health h previous policy =
     (let p = (case policy of None \<Rightarrow> default_assessment_policy | Some q \<Rightarrow> q);
          findings = state_findings p h @ (case previous of None \<Rightarrow> [] | Some b \<Rightarrow> counter_findings p b h)
      in \<lparr>ha_severity =
            (if list_ex (\<lambda>f. hf_severity f = CRITICAL) findings then CRITICAL
             else if findings \<noteq> [] then DEGRADED else HEALTHY),
          ha_findings = findings, ha_baseline_used = (previous \<noteq> None)\<rparr>)"

definition assessment_reasons :: "health_assessment \<Rightarrow> health_reason list" where
  "assessment_reasons a = fromkeys (map hf_reason (ha_findings a))"

subsection \<open>JSON\<close>

text \<open>
  Objects as the serializer sees them: containers with the name of their type and their
  identity, the keys of a mapping by their text. An object that contains itself is given as
  far as the serializer looks: down to the object whose identity is that of one around it.
\<close>

datatype pyobj =
    ObNone
  | ObBool bool
  | ObInt int
  | ObFloat pyfloat
  | ObStr string
  | ObEnum pyobj
  | ObMapping string nat "(string \<times> pyobj) list"
  | ObDataclass string nat "(string \<times> pyobj) list"
  | ObSequence string nat "pyobj list"
  | ObSet string nat "pyobj list"
  | ObOther string

definition json_float :: "pyfloat \<Rightarrow> pyval" where
  "json_float f = (case f of Fin r \<Rightarrow> PyFloat f | NaN \<Rightarrow> PyStr ''nan'' | PInf \<Rightarrow> PyStr ''infinity'' | NInf \<Rightarrow> PyStr ''-infinity'')"

definition json_cycle :: "string \<Rightarrow> pyval" where
  "json_cycle t = PyDict [(''type'', PyStr t), (''cycle'', PyBool True)]"

fun json_safe :: "(pyval \<Rightarrow> string) \<Rightarrow> nat set \<Rightarrow> pyobj \<Rightarrow> pyval" where
  "json_safe repr seen ObNone = PyNone"
| "json_safe repr seen (ObBool b) = PyBool b"
| "json_safe repr seen (ObInt i) = PyInt i"
| "json_safe repr seen (ObFloat f) = json_float f"
| "json_safe repr seen (ObStr s) = PyStr s"
| "json_safe repr seen (ObEnum v) = json_safe repr seen v"
| "json_safe repr seen (ObMapping t i items) =
     (if i \<in> seen then json_cycle t
      else PyDict (od_of (sort_key fst (map (\<lambda>(k, v). (k, json_safe repr (insert i seen) v)) items))))"
| "json_safe repr seen (ObDataclass t i items) =
     (if i \<in> seen then json_cycle t
      else PyDict (od_of (map (\<lambda>(k, v). (k, json_safe repr (insert i seen) v)) items)))"
| "json_safe repr seen (ObSequence t i items) =
     (if i \<in> seen then json_cycle t else PyList (map (json_safe repr (insert i seen)) items))"
| "json_safe repr seen (ObSet t i items) =
     (if i \<in> seen then json_cycle t else PyList (sort_key repr (map (json_safe repr (insert i seen)) items)))"
| "json_safe repr seen (ObOther t) = PyDict [(''type'', PyStr t)]"

text \<open>Values that every JSON encoder accepts: no object, no tuple, no NaN or infinity, no key twice.\<close>

fun json_ok :: "pyval \<Rightarrow> bool" where
  "json_ok (PyFloat f) = isfinite f"
| "json_ok (PyTuple xs) = False"
| "json_ok (PyList xs) = list_all json_ok xs"
| "json_ok (PyDict d) = (distinct (map fst d) \<and> list_all (\<lambda>p. json_ok (snd p)) d)"
| "json_ok (PyObject t i) = False"
| "json_ok _ = True"

definition ob_nat :: "nat \<Rightarrow> pyobj" where
  "ob_nat n = ObInt (int n)"

definition ob_rat :: "rat \<Rightarrow> pyobj" where
  "ob_rat r = ObFloat (Fin r)"

definition ob_option :: "('a \<Rightarrow> pyobj) \<Rightarrow> 'a option \<Rightarrow> pyobj" where
  "ob_option f x = (case x of None \<Rightarrow> ObNone | Some y \<Rightarrow> f y)"

text \<open>The objects of a health snapshot; the identities only have to differ along a path.\<close>

definition ob_mapping :: "('k \<Rightarrow> string) \<Rightarrow> ('v \<Rightarrow> pyobj) \<Rightarrow> ('k, 'v) odict \<Rightarrow> pyobj" where
  "ob_mapping key f d = ObMapping ''builtins.mappingproxy'' 0 (map (\<lambda>(k, v). (key k, f v)) d)"

definition ob_record :: "string \<Rightarrow> (string \<times> pyobj) list \<Rightarrow> pyobj" where
  "ob_record t fs = ObDataclass t 1 fs"

definition capacity_object :: "capacity_snapshot \<Rightarrow> pyobj" where
  "capacity_object s = ob_record ''coalestra.concurrency.capacity.CapacitySnapshot''
     [(''limit'', ob_nat (ca_limit s)), (''in_use'', ob_nat (ca_in_use s)), (''waiting'', ob_nat (ca_waiting s))]"

definition cache_stats_object :: "cache_stats \<Rightarrow> pyobj" where
  "cache_stats_object c = ob_record ''coalestra.cache.memory.CacheStats''
     [(''size'', ob_nat (cs_size c)), (''max_entries'', ob_option ObInt (cs_max_entries c)), (''hits'', ob_nat (cs_hits c)),
      (''misses'', ob_nat (cs_misses c)), (''fresh_hits'', ob_nat (cs_fresh_hits c)), (''stale_hits'', ob_nat (cs_stale_hits c)),
      (''sets'', ob_nat (cs_sets c)), (''invalidations'', ob_nat (cs_invalidations c)), (''evictions'', ob_nat (cs_evictions c)),
      (''expirations'', ob_nat (cs_expirations c))]"

fun circuit_state_value :: "circuit_state \<Rightarrow> string" where
  "circuit_state_value CLOSED = ''closed''"
| "circuit_state_value OPEN = ''open''"
| "circuit_state_value HALF_OPEN = ''half_open''"

definition circuit_object :: "circuit \<Rightarrow> pyobj" where
  "circuit_object c = ob_record ''coalestra.resilience.circuit_breaker.CircuitSnapshot''
     [(''state'', ObStr (circuit_state_value (ct_state c))), (''failures'', ObInt (ct_failures c)),
      (''opened_at'', ob_rat (ct_opened_at c)), (''half_open_probe_active'', ObBool (ct_half_open_probe_active c))]"

definition guarantee_object :: "timeout_guarantee \<Rightarrow> pyobj" where
  "guarantee_object g = ob_record ''coalestra.core.source_timeout.SourceTimeoutGuarantee''
     [(''source'', ObStr (tg_source g)), (''status'', ObStr (guarantee_status_value (tg_status g))),
      (''declaration_present'', ObBool (tg_declaration_present g)), (''blocking_io'', ObBool (tg_blocking_io g)),
      (''blocking_io_offloaded'', ObBool (tg_blocking_io_offloaded g)),
      (''transport_timeout_seconds'', ob_option ob_rat (tg_transport_timeout_seconds g)),
      (''source_timeout_seconds'', ob_option ob_rat (tg_source_timeout_seconds g))]"

definition copy_health_object :: "copy_health \<Rightarrow> pyobj" where
  "copy_health_object c = ob_record ''coalestra.core.health.PayloadCopyHealth''
     [(''run_in_thread'', ObBool (ch_run_in_thread c)), (''max_concurrency'', ObInt (ch_max_concurrency c)),
      (''active_copies'', ob_nat (ch_active_copies c)), (''waiting_for_capacity'', ob_nat (ch_waiting_for_capacity c)),
      (''peak_active_copies'', ob_nat (ch_peak_active_copies c)),
      (''peak_waiting_for_capacity'', ob_nat (ch_peak_waiting_for_capacity c)),
      (''started_count'', ob_nat (ch_started_count c)), (''completed_count'', ob_nat (ch_completed_count c)),
      (''failure_count'', ob_nat (ch_failure_count c)), (''timeout_count'', ob_nat (ch_timeout_count c)),
      (''capacity_timeout_count'', ob_nat (ch_capacity_timeout_count c)),
      (''capacity_wait_count'', ob_nat (ch_capacity_wait_count c)), (''average_wait_ms'', ob_rat (ch_average_wait_ms c)),
      (''max_wait_ms'', ob_rat (ch_max_wait_ms c)), (''average_duration_ms'', ob_rat (ch_average_duration_ms c)),
      (''max_duration_ms'', ob_rat (ch_max_duration_ms c)), (''accepting_copies'', ObBool (ch_accepting_copies c)),
      (''shutdown_started'', ObBool (ch_shutdown_started c)), (''shutdown_complete'', ObBool (ch_shutdown_complete c)),
      (''shutdown_incomplete'', ObBool (ch_shutdown_incomplete c)),
      (''shutdown_timeout_count'', ob_nat (ch_shutdown_timeout_count c)),
      (''active_at_last_shutdown_timeout'', ob_nat (ch_active_at_last_shutdown_timeout c))]"

definition sink_stats_object :: "sink_stats \<Rightarrow> pyobj" where
  "sink_stats_object s = ob_record ''coalestra.observability.buffered.BufferedSinkStats''
     [(''enqueued'', ob_nat (bs_enqueued s)), (''delivered'', ob_nat (bs_delivered s)), (''dropped'', ob_nat (bs_dropped s)),
      (''failures'', ob_nat (bs_failures s)), (''pending'', ob_nat (bs_pending s)), (''closed'', ObBool (bs_closed s)),
      (''max_pending'', ob_nat (bs_max_pending s)), (''peak_pending'', ob_nat (bs_peak_pending s)),
      (''worker_alive'', ObBool (bs_worker_alive s)), (''shutdown_timeout_count'', ob_nat (bs_shutdown_timeout_count s))]"

definition health_fields :: "builder_health \<Rightarrow> (string \<times> pyobj) list" where
  "health_fields h =
     [(''closed'', ObBool (bh_closed h)), (''background_refreshes'', ObInt (bh_background_refreshes h)),
      (''singleflight_in_flight'', ObInt (bh_singleflight_in_flight h)),
      (''source_support_cache_entries'', ObInt (bh_source_support_cache_entries h)),
      (''capacity'', ob_mapping id capacity_object (bh_capacity h)),
      (''cache'', ob_option cache_stats_object (bh_cache h)),
      (''circuits'', ob_mapping identity_str circuit_object (bh_circuits h)),
      (''active_dispatch_workers'', ObInt (bh_active_dispatch_workers h)),
      (''waiting_for_capacity'', ObInt (bh_waiting_for_capacity h)),
      (''queue_timeout_count'', ObInt (bh_queue_timeout_count h)),
      (''source_timeout_count'', ObInt (bh_source_timeout_count h)),
      (''deadline_exceeded_count'', ObInt (bh_deadline_exceeded_count h)),
      (''revalidation_attempt_count'', ObInt (bh_revalidation_attempt_count h)),
      (''revalidation_failure_count'', ObInt (bh_revalidation_failure_count h)),
      (''source_timeout_guarantees'', ob_mapping id guarantee_object (bh_source_timeout_guarantees h)),
      (''blocking_source_count'', ObInt (bh_blocking_source_count h)),
      (''protected_blocking_source_count'', ObInt (bh_protected_blocking_source_count h)),
      (''unsafe_blocking_source_count'', ObInt (bh_unsafe_blocking_source_count h)),
      (''undeclared_source_timeout_count'', ObInt (bh_undeclared_source_timeout_count h)),
      (''source_transport_timeout_violation_count'', ObInt (bh_source_transport_timeout_violation_count h)),
      (''source_transport_timeout_violations'', ob_mapping id ob_nat (bh_source_transport_timeout_violations h)),
      (''pending_submissions'', ObInt (bh_pending_submissions h)),
      (''max_pending_submissions'', ob_option ObInt (bh_max_pending_submissions h)),
      (''payload_copy_components'', ob_mapping id copy_health_object (bh_payload_copy_components h)),
      (''active_payload_copies'', ObInt (bh_active_payload_copies h)),
      (''waiting_for_copy_capacity'', ObInt (bh_waiting_for_copy_capacity h)),
      (''payload_copy_started_count'', ObInt (bh_payload_copy_started_count h)),
      (''payload_copy_completed_count'', ObInt (bh_payload_copy_completed_count h)),
      (''payload_copy_failure_count'', ObInt (bh_payload_copy_failure_count h)),
      (''payload_copy_timeout_count'', ObInt (bh_payload_copy_timeout_count h)),
      (''payload_copy_capacity_timeout_count'', ObInt (bh_payload_copy_capacity_timeout_count h)),
      (''payload_copy_shutdown_incomplete'', ObBool (bh_payload_copy_shutdown_incomplete h)),
      (''payload_copy_shutdown_timeout_count'', ObInt (bh_payload_copy_shutdown_timeout_count h)),
      (''payload_copy_active_at_last_shutdown_timeout'', ObInt (bh_payload_copy_active_at_last_shutdown_timeout h)),
      (''observability_buffers'', ob_mapping id sink_stats_object (bh_observability_buffers h)),
      (''observability_pending'', ObInt (bh_observability_pending h)),
      (''observability_peak_pending'', ObInt (bh_observability_peak_pending h)),
      (''observability_dropped_count'', ObInt (bh_observability_dropped_count h)),
      (''observability_failure_count'', ObInt (bh_observability_failure_count h)),
      (''observability_shutdown_incomplete'', ObBool (bh_observability_shutdown_incomplete h)),
      (''observability_shutdown_timeout_count'', ObInt (bh_observability_shutdown_timeout_count h))]"

definition finding_to_dict :: "health_finding \<Rightarrow> pyval" where
  "finding_to_dict f =
     PyDict [(''reason'', PyStr (health_reason_value (hf_reason f))), (''severity'', PyStr (severity_value (hf_severity f))),
             (''metric'', PyStr (hf_metric f)), (''observed'', hf_observed f), (''threshold'', hf_threshold f),
             (''component'', PyStr (hf_component f))]"

definition assessment_to_dict :: "health_assessment \<Rightarrow> pyval" where
  "assessment_to_dict a =
     PyDict [(''schema'', PyStr ''coalestra.builder-health-assessment''), (''schema_version'', PyInt 1),
             (''severity'', PyStr (severity_value (ha_severity a))), (''baseline_used'', PyBool (ha_baseline_used a)),
             (''reasons'', PyList (map (\<lambda>r. PyStr (health_reason_value r)) (assessment_reasons a))),
             (''findings'', PyList (map finding_to_dict (ha_findings a)))]"

definition builder_health_to_dict ::
  "(pyval \<Rightarrow> string) \<Rightarrow> builder_health \<Rightarrow> bool \<Rightarrow> builder_health option \<Rightarrow> assessment_policy option \<Rightarrow> pyval" where
  "builder_health_to_dict repr h with_assessment previous policy =
     PyDict (od_of ([(''schema'', PyStr ''coalestra.builder-health''), (''schema_version'', PyInt 1)]
       @ map (\<lambda>(nm, v). (nm, json_safe repr {} v)) (health_fields h)
       @ [(''assessment'', if with_assessment then assessment_to_dict (assess_builder_health h previous policy) else PyNone)]))"

subsection \<open>Lemmas on JSON\<close>

lemma set_od_update_subset: "set (od_update d xs) \<subseteq> set d \<union> set xs"
proof (induction xs arbitrary: d)
  case (Cons x xs)
  from Cons [of "od_set (fst x) (snd x) d"] set_od_set_subset [of "fst x" "snd x" d] show ?case
    by (auto simp: od_update_def)
qed (simp add: od_update_def)

lemma od_of_json: "(\<And>p. p \<in> set d \<Longrightarrow> json_ok (snd p)) \<Longrightarrow> json_ok (PyDict (od_of d))"
  using set_od_update_subset [of "[]" d] by (auto simp: od_of_def [symmetric] list_all_iff)

lemma json_float_ok: "json_ok (json_float f)"
  by (cases f) (simp_all add: json_float_def)

lemma json_cycle_ok: "json_ok (json_cycle t)"
  by (simp add: json_cycle_def)

lemma json_safe_ok: "json_ok (json_safe repr seen v)"
proof (induction repr seen v rule: json_safe.induct)
  case (7 repr seen t i items)
  have "json_ok (PyDict (od_of (sort_key fst (map (\<lambda>(k, v). (k, json_safe repr (insert i seen) v)) items))))" if "i \<notin> seen"
    by (rule od_of_json) (use 7 that in auto)
  then show ?case by (simp add: json_cycle_ok del: json_ok.simps)
next
  case (8 repr seen t i items)
  have "json_ok (PyDict (od_of (map (\<lambda>(k, v). (k, json_safe repr (insert i seen) v)) items)))" if "i \<notin> seen"
    by (rule od_of_json) (use 8 that in auto)
  then show ?case by (simp add: json_cycle_ok del: json_ok.simps)
next
  case (9 repr seen t i items)
  then show ?case by (auto simp: json_cycle_ok list_all_iff)
next
  case (10 repr seen t i items)
  then show ?case by (auto simp: json_cycle_ok list_all_iff)
qed (simp_all add: json_float_ok)

text \<open>The policies that the constructor accepts.\<close>

definition finite_num :: "pynum \<Rightarrow> bool" where
  "finite_num x \<longleftrightarrow> (case x of NInt i \<Rightarrow> True | NFloat f \<Rightarrow> isfinite f)"

definition policy_ok :: "assessment_policy \<Rightarrow> bool" where
  "policy_ok p \<longleftrightarrow> 1 \<le> hp_capacity_waiting_degraded p \<and> 1 \<le> hp_copy_waiting_degraded p \<and> 1 \<le> hp_counter_delta_degraded p
     \<and> hp_counter_delta_degraded p \<le> hp_counter_delta_critical p
     \<and> (\<forall>x \<in> {hp_capacity_waiting_critical_ratio p, hp_copy_waiting_critical_ratio p, hp_submission_backlog_degraded_ratio p,
           hp_submission_backlog_critical_ratio p, hp_observability_backlog_degraded_ratio p, hp_observability_backlog_critical_ratio p}.
         finite_num x \<and> 0 < num_value x)
     \<and> num_value (hp_submission_backlog_degraded_ratio p) \<le> num_value (hp_submission_backlog_critical_ratio p)
     \<and> num_value (hp_observability_backlog_degraded_ratio p) \<le> num_value (hp_observability_backlog_critical_ratio p)"

lemma default_policy_ok: "policy_ok default_assessment_policy"
  by (simp add: policy_ok_def default_assessment_policy_def finite_num_def)

lemma double_value:
  assumes "to_double x = Inr f" "isfinite f"
  shows "finite_num x \<and> f = Fin (num_value x)"
  using assms by (cases x; cases f) (auto simp: finite_num_def split: if_splits)

lemma positive_ratio_Inr: "positive_ratio nm v = Inr x \<Longrightarrow> finite_num x \<and> 0 < num_value x"
  by (auto simp: positive_ratio_def res_iff dest!: double_value)

lemma unit_ratio_Inr: "unit_ratio nm v = Inr x \<Longrightarrow> finite_num x \<and> 0 < num_value x"
  by (auto simp: unit_ratio_def res_iff dest!: double_value)

lemma ratio_pair_Inr:
  "ratio_pair dn d cn c = Inr (x, y) \<Longrightarrow> finite_num x \<and> 0 < num_value x \<and> finite_num y \<and> 0 < num_value y \<and> num_value x \<le> num_value y"
  by (auto simp: ratio_pair_def res_iff dest: unit_ratio_Inr)

lemma mk_assessment_policy_ok:
  assumes "mk_assessment_policy a b c d e f g h i j = Inr p"
  shows "policy_ok p"
  using assms
  by (auto simp: mk_assessment_policy_def res_iff at_least_one_def policy_ok_def dest!: positive_ratio_Inr ratio_pair_Inr
      split: prod.splits)

subsection \<open>The assessment is exact\<close>

lemma max_ratio_less: "fst (max_ratio rs) < x \<longleftrightarrow> 0 < x \<and> (\<forall>p \<in> set rs. snd p < x)"
proof -
  have "fst (foldl (\<lambda>(m, c) (nm, r). if m < r then (r, nm) else (m, c)) acc rs) < x \<longleftrightarrow> fst acc < x \<and> (\<forall>p \<in> set rs. snd p < x)" for acc
    by (induction rs arbitrary: acc) (auto simp: case_prod_unfold)
  then show ?thesis by (simp add: max_ratio_def)
qed

text \<open>Nothing in the current state is out of bounds.\<close>

definition quiet :: "assessment_policy \<Rightarrow> builder_health \<Rightarrow> bool" where
  "quiet p h \<longleftrightarrow> \<not> bh_closed h \<and> bh_unsafe_blocking_source_count h \<le> 0
     \<and> bh_waiting_for_capacity h < hp_capacity_waiting_degraded p \<and> bh_waiting_for_copy_capacity h < hp_copy_waiting_degraded p
     \<and> safe_ratio (bh_pending_submissions h) (bh_max_pending_submissions h) < num_value (hp_submission_backlog_degraded_ratio p)
     \<and> (\<forall>b \<in> snd ` set (bh_observability_buffers h).
          safe_ratio (int (bs_pending b)) (Some (int (bs_max_pending b))) < num_value (hp_observability_backlog_degraded_ratio p)
          \<and> (bs_worker_alive b \<or> bs_closed b))
     \<and> (\<forall>c \<in> snd ` set (bh_circuits h). ct_state c = CLOSED)
     \<and> \<not> bh_payload_copy_shutdown_incomplete h \<and> \<not> bh_observability_shutdown_incomplete h"

definition grew_little :: "assessment_policy \<Rightarrow> builder_health \<Rightarrow> builder_health \<Rightarrow> bool" where
  "grew_little p previous h \<longleftrightarrow>
     (\<forall>f \<in> set (map (\<lambda>s. snd (snd s)) counter_specs). max 0 (f h) - max 0 (f previous) < hp_counter_delta_degraded p)"

lemma finding_lists_empty:
  "waiting_findings reason metric n degraded critical worst = [] \<longleftrightarrow> max 0 n < degraded"
  "backlog_findings reason metric d c worst = [] \<longleftrightarrow> fst worst < num_value d"
  "count_findings reason severity metric m = [] \<longleftrightarrow> m = 0"
  "flag_findings reason metric flag = [] \<longleftrightarrow> \<not> flag"
  by (simp_all add: waiting_findings_def backlog_findings_def count_findings_def flag_findings_def Let_def)

lemma no_circuit_findings:
  "filter (\<lambda>p. ct_state (snd p) = OPEN) cs = [] \<and> filter (\<lambda>p. ct_state (snd p) = HALF_OPEN) cs = []
     \<longleftrightarrow> (\<forall>c \<in> snd ` set cs. ct_state c = CLOSED)"
proof (induction cs)
  case (Cons x cs)
  then show ?case by (cases "ct_state (snd x)") simp_all
qed simp

lemma observability_findings_empty:
  assumes "policy_ok p"
  shows "fst (maximum_observability_ratio bs) < num_value (hp_observability_backlog_degraded_ratio p)
      \<and> filter (\<lambda>p. \<not> bs_worker_alive (snd p) \<and> \<not> bs_closed (snd p)) bs = []
    \<longleftrightarrow> (\<forall>b \<in> snd ` set bs.
          safe_ratio (int (bs_pending b)) (Some (int (bs_max_pending b))) < num_value (hp_observability_backlog_degraded_ratio p)
          \<and> (bs_worker_alive b \<or> bs_closed b))"
proof -
  have positive: "0 < num_value (hp_observability_backlog_degraded_ratio p)" using assms by (simp add: policy_ok_def)
  show ?thesis
    unfolding maximum_observability_ratio_def max_ratio_less using positive
    by (induction bs) auto
qed

lemma state_findings_empty:
  assumes "policy_ok p"
  shows "state_findings p h = [] \<longleftrightarrow> quiet p h"
proof -
  have positive: "1 \<le> hp_capacity_waiting_degraded p" "1 \<le> hp_copy_waiting_degraded p" using assms by (simp_all add: policy_ok_def)
  then have waiting: "max 0 (bh_waiting_for_capacity h) < hp_capacity_waiting_degraded p
        \<longleftrightarrow> bh_waiting_for_capacity h < hp_capacity_waiting_degraded p"
      "max 0 (bh_waiting_for_copy_capacity h) < hp_copy_waiting_degraded p
        \<longleftrightarrow> bh_waiting_for_copy_capacity h < hp_copy_waiting_degraded p"
    by auto
  have shown: "closed_findings h = [] \<longleftrightarrow> \<not> bh_closed h" "unsafe_findings h = [] \<longleftrightarrow> bh_unsafe_blocking_source_count h \<le> 0"
    by (simp_all add: closed_findings_def unsafe_findings_def)
  show ?thesis
    unfolding quiet_def state_findings_def append_is_Nil_conv finding_lists_empty shown waiting length_0_conv
      observability_findings_empty [OF assms, symmetric] no_circuit_findings [symmetric] fst_conv
    by blast
qed

lemma counter_findings_empty:
  assumes "policy_ok p"
  shows "counter_findings p previous h = [] \<longleftrightarrow> grew_little p previous h"
proof -
  have little: "counter_delta f previous h < hp_counter_delta_degraded p
      \<longleftrightarrow> max 0 (f h) - max 0 (f previous) < hp_counter_delta_degraded p" for f
    using assms by (auto simp: policy_ok_def counter_delta_def)
  have single: "(let delta = counter_delta f previous h
       in if delta < hp_counter_delta_degraded p then []
          else if hp_counter_delta_critical p \<le> delta then [x delta] else [y delta]) = []
      \<longleftrightarrow> max 0 (f h) - max 0 (f previous) < hp_counter_delta_degraded p" for f and x y :: "int \<Rightarrow> health_finding"
    by (simp add: Let_def little)
  show ?thesis
    unfolding counter_findings_def grew_little_def concat_eq_Nil_conv set_map ball_simps case_prod_unfold single by simp
qed



subsection \<open>The health report is JSON\<close>

lemma od_update_distinct: "distinct (map fst (d @ xs)) \<Longrightarrow> od_update d xs = d @ xs"
proof (induction xs arbitrary: d)
  case (Cons x xs)
  have "od_set (fst x) (snd x) d = d @ [x]"
    using Cons.prems by (induction d) (auto simp: rev_image_eqI)
  then show ?case using Cons by (simp add: od_update_def)
qed (simp add: od_update_def)

lemma od_of_distinct: "distinct (map fst xs) \<Longrightarrow> od_of xs = xs"
  by (simp add: od_of_def od_update_distinct)

definition json_finding :: "health_finding \<Rightarrow> bool" where
  "json_finding f \<longleftrightarrow> json_ok (hf_observed f) \<and> json_ok (hf_threshold f)"

lemma number_val_ok: "finite_num x \<Longrightarrow> json_ok (number_val x)"
  by (simp add: finite_num_def number_val_def split: pynum.splits)

lemma list_all_if: "list_all P (if b then xs else ys) \<longleftrightarrow> (if b then list_all P xs else list_all P ys)"
  by simp

lemma json_finding_mk: "json_finding (mk_finding r s m x y c) \<longleftrightarrow> json_ok x \<and> json_ok y"
  by (simp add: json_finding_def mk_finding_def)

lemma findings_json:
  "list_all json_finding (closed_findings h)"
  "list_all json_finding (unsafe_findings h)"
  "finite_num q \<Longrightarrow> list_all json_finding (waiting_findings reason metric n degraded q worst)"
  "finite_num d \<Longrightarrow> finite_num q \<Longrightarrow> list_all json_finding (backlog_findings reason metric d q worst)"
  "list_all json_finding (count_findings reason severity metric m)"
  "list_all json_finding (flag_findings reason metric flag)"
  by (simp_all add: closed_findings_def unsafe_findings_def waiting_findings_def backlog_findings_def count_findings_def
      flag_findings_def Let_def json_finding_mk number_val_ok)

lemma state_findings_json: "policy_ok p \<Longrightarrow> list_all json_finding (state_findings p h)"
  unfolding state_findings_def list_all_append by (simp add: findings_json policy_ok_def)

lemma counter_findings_json: "list_all json_finding (counter_findings p previous h)"
proof -
  have single: "\<forall>x \<in> set (let delta = counter_delta f previous h
       in if delta < hp_counter_delta_degraded p then []
          else if hp_counter_delta_critical p \<le> delta
               then [mk_finding reason CRITICAL nm (PyInt delta) (PyInt (hp_counter_delta_critical p)) '''']
               else [mk_finding reason DEGRADED nm (PyInt delta) (PyInt (hp_counter_delta_degraded p)) '''']). json_finding x"
    for f reason nm
    by (simp add: Let_def json_finding_mk)
  show ?thesis
    unfolding list_all_iff counter_findings_def set_concat set_map ball_UN ball_simps case_prod_unfold
    using single by blast
qed

lemma assessment_json:
  assumes "policy_ok (case policy of None \<Rightarrow> default_assessment_policy | Some p \<Rightarrow> p)"
  shows "json_ok (assessment_to_dict (assess_builder_health h previous policy))"
proof -
  have "list_all json_finding (ha_findings (assess_builder_health h previous policy))"
    using state_findings_json [OF assms] counter_findings_json
    by (simp add: assess_builder_health_def Let_def split: option.splits)
  then have "list_all json_ok (map finding_to_dict (ha_findings (assess_builder_health h previous policy)))"
    by (auto simp: list_all_iff finding_to_dict_def json_finding_def)
  then show ?thesis
    by (simp add: assessment_to_dict_def list_all_iff)
qed



end
