(* ===== verification/Operational.thy ===== *)
theory Operational
  imports Builder
begin

section \<open>Requests that degrade instead of raising (operational.py)\<close>

text \<open>
  The operational entry points resolve a request without strictness and classify what came
  out: accepted, degraded or rejected, each with the actions that the caller may still take.
  An error of the library becomes a rejected result; any other exception is raised.
\<close>

datatype result_state = ACCEPTED | DEGRADED_RESULT | REJECTED

fun result_state_value :: "result_state \<Rightarrow> string" where
  "result_state_value ACCEPTED = ''accepted''"
| "result_state_value DEGRADED_RESULT = ''degraded''"
| "result_state_value REJECTED = ''rejected''"

definition normalize_actions :: "string \<Rightarrow> string list \<Rightarrow> arg_error + string list" where
  "normalize_actions nm actions =
     (let normalized = fromkeys (map strip actions)
      in if '''' \<in> set normalized then Inl (ValueError (nm @ '' cannot contain empty action names'')) else Inr normalized)"

subsection \<open>Degradation policies\<close>

record degradation_policy =
  dp_minimum_resolved_resources :: int
  dp_minimum_resolved_required_resources :: int
  dp_fail_closed :: bool
  dp_reject_on_required_error :: bool
  dp_reject_on_acceptance_violation :: bool
  dp_reject_on_consistency_violation :: bool
  dp_accepted_actions :: "string list"
  dp_degraded_actions :: "string list"
  dp_rejected_actions :: "string list"
  dp_metadata :: metadata

definition not_negative :: "string \<Rightarrow> pyval \<Rightarrow> arg_error + int" where
  "not_negative nm v =
     res_bind (require (as_int v) (TypeError (nm @ '' must be an integer''))) (\<lambda>i.
     res_bind (raise_if (i < 0) (ValueError (nm @ '' cannot be negative''))) (\<lambda>_. Inr i))"

fun boolean_flag :: "string \<Rightarrow> pyval \<Rightarrow> arg_error + bool" where
  "boolean_flag nm (PyBool b) = Inr b"
| "boolean_flag nm v = Inl (TypeError (nm @ '' must be a boolean''))"

definition mk_degradation_policy ::
  "pyval \<Rightarrow> pyval \<Rightarrow> pyval \<Rightarrow> pyval \<Rightarrow> pyval \<Rightarrow> pyval \<Rightarrow> string list \<Rightarrow> string list \<Rightarrow> string list \<Rightarrow> metadata
    \<Rightarrow> arg_error + degradation_policy" where
  "mk_degradation_policy minimum minimum_required closed_flag on_required on_acceptance on_consistency accepted degraded rejected md =
     res_bind (not_negative ''minimum_resolved_resources'' minimum) (\<lambda>n.
     res_bind (not_negative ''minimum_resolved_required_resources'' minimum_required) (\<lambda>nr.
     res_bind (boolean_flag ''fail_closed'' closed_flag) (\<lambda>fc.
     res_bind (boolean_flag ''reject_on_required_error'' on_required) (\<lambda>rr.
     res_bind (boolean_flag ''reject_on_acceptance_violation'' on_acceptance) (\<lambda>ra.
     res_bind (boolean_flag ''reject_on_consistency_violation'' on_consistency) (\<lambda>rc.
     res_bind (normalize_actions ''accepted_actions'' accepted) (\<lambda>acc.
     res_bind (normalize_actions ''degraded_actions'' degraded) (\<lambda>deg.
     res_bind (normalize_actions ''rejected_actions'' rejected) (\<lambda>rej.
       Inr \<lparr>dp_minimum_resolved_resources = n, dp_minimum_resolved_required_resources = nr, dp_fail_closed = fc,
            dp_reject_on_required_error = rr, dp_reject_on_acceptance_violation = ra, dp_reject_on_consistency_violation = rc,
            dp_accepted_actions = acc, dp_degraded_actions = deg, dp_rejected_actions = rej, dp_metadata = md\<rparr>)))))))))"

definition default_degradation_policy :: degradation_policy where
  "default_degradation_policy =
     \<lparr>dp_minimum_resolved_resources = 1, dp_minimum_resolved_required_resources = 0, dp_fail_closed = False,
      dp_reject_on_required_error = False, dp_reject_on_acceptance_violation = False,
      dp_reject_on_consistency_violation = False, dp_accepted_actions = [''read'', ''evaluate'', ''act''],
      dp_degraded_actions = [''read'', ''evaluate''], dp_rejected_actions = [], dp_metadata = []\<rparr>"

definition fail_closed_policy :: "string list \<Rightarrow> arg_error + degradation_policy" where
  "fail_closed_policy accepted =
     mk_degradation_policy (PyInt 1) (PyInt 0) (PyBool True) (PyBool True) (PyBool True) (PyBool True) accepted [] [] []"

definition read_only_degraded :: "pyval \<Rightarrow> string list \<Rightarrow> string list \<Rightarrow> arg_error + degradation_policy" where
  "read_only_degraded minimum accepted degraded =
     mk_degradation_policy minimum (PyInt 0) (PyBool False) (PyBool False) (PyBool False) (PyBool False) accepted degraded [] []"

definition risk_reduction :: "pyval \<Rightarrow> arg_error + degradation_policy" where
  "risk_reduction minimum =
     mk_degradation_policy minimum (PyInt 0) (PyBool False) (PyBool False) (PyBool False) (PyBool False)
       [''read'', ''evaluate'', ''cancel_orders'', ''reduce_only_exit''] [''read'', ''cancel_orders'', ''reduce_only_exit''] [] []"

subsection \<open>Results\<close>

record snapshot_result =
  or_state :: result_state
  or_snapshot :: "py_error snapshot"
  or_request :: snapshot_request
  or_allowed_actions :: "string list"
  or_reason :: string
  or_required_errors :: "(resource_key, py_error) odict"
  or_optional_errors :: "(resource_key, py_error) odict"
  or_acceptance_violations :: "acceptance_violation list"
  or_consistency_violation :: "skew_violation option"
  or_error :: "(build_error + py_error) option"
  or_metadata :: metadata

text \<open>The constructor normalizes the allowed actions again.\<close>

definition checked_result :: "snapshot_result \<Rightarrow> arg_error + snapshot_result" where
  "checked_result r =
     res_bind (normalize_actions ''allowed_actions'' (or_allowed_actions r)) (\<lambda>actions. Inr (r\<lparr>or_allowed_actions := actions\<rparr>))"

definition result_complete :: "snapshot_result \<Rightarrow> bool" where
  "result_complete r \<longleftrightarrow> or_state r = ACCEPTED \<and> snapshot_complete (or_snapshot r)"

text \<open>What the result stands for as an exception; the constructor of the acceptance error may raise itself.\<close>

definition result_as_error :: "snapshot_result \<Rightarrow> arg_error + (build_error + py_error)" where
  "result_as_error r =
     (case or_error r of
        Some e \<Rightarrow> Inr e
      | None \<Rightarrow>
          case or_consistency_violation r of
            Some v \<Rightarrow> Inr (Inl (mk_snapshot_consistency_error v (Some (or_snapshot r))))
          | None \<Rightarrow>
              if or_acceptance_violations r \<noteq> []
              then res_bind (mk_snapshot_acceptance_error (or_acceptance_violations r) (Some (or_snapshot r))) (\<lambda>e. Inr (Inl e))
              else
                let errors = od_update (od_of (or_required_errors r)) (or_optional_errors r)
                in Inr (Inl (mk_snapshot_build_error (if errors = [] then sn_errors (or_snapshot r) else errors) (Some (or_snapshot r)))))"

text \<open>The left side of a result is what the caller sees raised.\<close>

definition require_accepted :: "snapshot_result \<Rightarrow> arg_error + ((build_error + py_error) + py_error snapshot)" where
  "require_accepted r =
     (if or_state r \<noteq> ACCEPTED then res_bind (result_as_error r) (\<lambda>e. Inr (Inl e)) else Inr (Inr (or_snapshot r)))"

definition raise_for_rejected :: "snapshot_result \<Rightarrow> arg_error + ((build_error + py_error) + unit)" where
  "raise_for_rejected r =
     (if or_state r = REJECTED then res_bind (result_as_error r) (\<lambda>e. Inr (Inl e)) else Inr (Inr ()))"

definition float_or_none :: "rat option \<Rightarrow> pyval" where
  "float_or_none x = (case x of None \<Rightarrow> PyNone | Some r \<Rightarrow> PyFloat (Fin r))"

definition int_or_none :: "int option \<Rightarrow> pyval" where
  "int_or_none x = (case x of None \<Rightarrow> PyNone | Some i \<Rightarrow> PyInt i)"

definition acceptance_violation_dict :: "acceptance_violation \<Rightarrow> pyval" where
  "acceptance_violation_dict v =
     PyDict [(''reason'', PyStr (reason_value (av_reason v))), (''keys'', PyList (map (\<lambda>k. PyStr (key_str k)) (av_keys v))),
             (''message'', PyStr (av_message v)), (''current_age_seconds'', float_or_none (av_current_age_seconds v)),
             (''max_age_seconds'', float_or_none (av_max_age_seconds v)), (''authority_rank'', int_or_none (av_authority_rank v)),
             (''minimum_authority_rank'', int_or_none (av_minimum_authority_rank v)),
             (''accepted_count'', int_or_none (av_accepted_count v)), (''required_count'', int_or_none (av_required_count v))]"

definition consistency_violation_dict :: "skew_violation option \<Rightarrow> pyval" where
  "consistency_violation_dict violation =
     (case violation of
        None \<Rightarrow> PyNone
      | Some v \<Rightarrow>
          PyDict [(''keys'', PyList (map (\<lambda>k. PyStr (key_str k)) (kv_keys v))),
                  (''oldest_key'', PyStr (key_str (kv_oldest_key v))), (''oldest_observed_at'', PyFloat (Fin (kv_oldest_observed_at v))),
                  (''newest_key'', PyStr (key_str (kv_newest_key v))), (''newest_observed_at'', PyFloat (Fin (kv_newest_observed_at v))),
                  (''observation_skew_seconds'', PyFloat (Fin (kv_observation_skew_seconds v))),
                  (''max_observation_skew_seconds'', PyFloat (Fin (kv_max_observation_skew_seconds v)))])"

definition error_names :: "(resource_key, py_error) odict \<Rightarrow> pyval" where
  "error_names errors = PyDict (od_of (map (\<lambda>(k, e). (key_str k, PyStr (error_type e))) errors))"

definition result_to_dict :: "snapshot_result \<Rightarrow> pyval" where
  "result_to_dict r =
     PyDict [(''state'', PyStr (result_state_value (or_state r))), (''snapshot_id'', PyStr (sn_snapshot_id (or_snapshot r))),
             (''resources'', PyInt (int (length (sn_resources (or_snapshot r))))),
             (''errors'', PyInt (int (length (sn_errors (or_snapshot r))))),
             (''allowed_actions'', PyList (map PyStr (or_allowed_actions r))), (''reason'', PyStr (or_reason r)),
             (''required_errors'', error_names (or_required_errors r)), (''optional_errors'', error_names (or_optional_errors r)),
             (''acceptance_violations'', PyList (map acceptance_violation_dict (or_acceptance_violations r))),
             (''consistency_violation'', consistency_violation_dict (or_consistency_violation r)),
             (''metadata'', PyDict (or_metadata r))]"

subsection \<open>Classification\<close>

definition consistency_found :: "snapshot_request \<Rightarrow> py_error snapshot \<Rightarrow> skew_violation option" where
  "consistency_found request snapshot =
     (case sr_consistency_policy request of
        None \<Rightarrow> None
      | Some policy \<Rightarrow>
          find_observation_skew_violation (sn_resources snapshot)
            (if cp_include_optional_resources policy then sr_keys request else sr_required request) policy)"

definition acceptance_found ::
  "'s builder \<Rightarrow> rat \<Rightarrow> snapshot_request \<Rightarrow> py_error snapshot \<Rightarrow> py_error + acceptance_violation list" where
  "acceptance_found bl now request snapshot =
     (case sr_acceptance_policy request of
        None \<Rightarrow> Inr []
      | Some policy \<Rightarrow> acceptance_violations bl (sn_resources snapshot) (sr_required request) (sr_optional request) policy now)"

definition reason_parts ::
  "(resource_key, py_error) odict \<Rightarrow> (resource_key, py_error) odict \<Rightarrow> skew_violation option \<Rightarrow> acceptance_violation list
    \<Rightarrow> string list" where
  "reason_parts required_errors optional_errors skew violations =
     (if required_errors \<noteq> [] then [''required_errors''] else []) @ (if optional_errors \<noteq> [] then [''optional_errors''] else [])
     @ (if skew \<noteq> None then [''consistency_violation''] else []) @ (if violations \<noteq> [] then [''acceptance_violation''] else [])"

definition rejects ::
  "degradation_policy \<Rightarrow> snapshot_request \<Rightarrow> py_error snapshot \<Rightarrow> (resource_key, py_error) odict \<Rightarrow> skew_violation option
    \<Rightarrow> acceptance_violation list \<Rightarrow> bool" where
  "rejects p request snapshot required_errors skew violations \<longleftrightarrow>
     dp_fail_closed p
     \<or> int (length (sn_resources snapshot)) < dp_minimum_resolved_resources p
     \<or> int (length (filter (\<lambda>k. map_of (sn_resources snapshot) k \<noteq> None) (sr_required request)))
         < dp_minimum_resolved_required_resources p
     \<or> required_errors \<noteq> [] \<and> dp_reject_on_required_error p
     \<or> violations \<noteq> [] \<and> dp_reject_on_acceptance_violation p
     \<or> skew \<noteq> None \<and> dp_reject_on_consistency_violation p"

definition accepted_result :: "degradation_policy \<Rightarrow> snapshot_request \<Rightarrow> py_error snapshot \<Rightarrow> snapshot_result" where
  "accepted_result p request snapshot =
     \<lparr>or_state = ACCEPTED, or_snapshot = snapshot, or_request = request, or_allowed_actions = dp_accepted_actions p,
      or_reason = ''accepted'', or_required_errors = [], or_optional_errors = [], or_acceptance_violations = [],
      or_consistency_violation = None, or_error = None, or_metadata = dp_metadata p\<rparr>"

definition troubled_result ::
  "degradation_policy \<Rightarrow> snapshot_request \<Rightarrow> py_error snapshot \<Rightarrow> build_error option \<Rightarrow> (resource_key, py_error) odict
    \<Rightarrow> (resource_key, py_error) odict \<Rightarrow> skew_violation option \<Rightarrow> acceptance_violation list \<Rightarrow> snapshot_result" where
  "troubled_result p request snapshot base_error required_errors optional_errors skew violations =
     (let reject = rejects p request snapshot required_errors skew violations
      in \<lparr>or_state = (if reject then REJECTED else DEGRADED_RESULT), or_snapshot = snapshot, or_request = request,
          or_allowed_actions = (if reject then dp_rejected_actions p else dp_degraded_actions p),
          or_reason = str_join '','' (reason_parts required_errors optional_errors skew violations),
          or_required_errors = required_errors, or_optional_errors = optional_errors,
          or_acceptance_violations = violations, or_consistency_violation = skew,
          or_error = (if reject then map_option Inl base_error else None), or_metadata = dp_metadata p\<rparr>)"

definition classify_result ::
  "'s builder \<Rightarrow> rat \<Rightarrow> degradation_policy \<Rightarrow> snapshot_request \<Rightarrow> py_error snapshot \<Rightarrow> build_error option
    \<Rightarrow> py_error + snapshot_result" where
  "classify_result bl now p request snapshot base_error =
     (let required_errors = errors_of (sn_errors snapshot) (sr_required request);
          optional_errors = errors_of (sn_errors snapshot) (sr_optional request);
          skew = consistency_found request snapshot
      in res_bind (acceptance_found bl now request snapshot) (\<lambda>violations.
           lift_arg (checked_result
             (if reason_parts required_errors optional_errors skew violations = [] then accepted_result p request snapshot
              else troubled_result p request snapshot base_error required_errors optional_errors skew violations))))"

subsection \<open>Entry points\<close>

fun coalestra_error :: "py_error \<Rightarrow> bool" where
  "coalestra_error (ArgError e) = False"
| "coalestra_error (KeyError m) = False"
| "coalestra_error (RuntimeError m) = False"
| "coalestra_error (TimeoutError m) = False"
| "coalestra_error (ConnectionError m) = False"
| "coalestra_error (OSError m) = False"
| "coalestra_error (OtherError t m) = False"
| "coalestra_error CancelledError = False"
| "coalestra_error _ = True"

definition no_diagnostics :: snapshot_diagnostics where
  "no_diagnostics = \<lparr>sd_duration_ms = 0, sd_requested_resources = 0, sd_resolved_resources = 0, sd_failed_resources = 0,
     sd_counters = new_collector 0, sd_observation_skew_ms = 0\<rparr>"

definition empty_snapshot :: "session \<Rightarrow> (resource_key, py_error) odict \<Rightarrow> py_error snapshot" where
  "empty_snapshot ss errors =
     \<lparr>sn_snapshot_id = fc_snapshot_id (ss_context ss), sn_created_at = fc_requested_at (ss_context ss), sn_resources = [],
      sn_errors = errors, sn_diagnostics = no_diagnostics\<rparr>"

definition rejected_by_error :: "session \<Rightarrow> degradation_policy \<Rightarrow> snapshot_request \<Rightarrow> py_error \<Rightarrow> py_error + snapshot_result" where
  "rejected_by_error ss p request e =
     lift_arg (checked_result \<lparr>or_state = REJECTED, or_snapshot = empty_snapshot ss [], or_request = request,
       or_allowed_actions = dp_rejected_actions p, or_reason = error_type e, or_required_errors = [], or_optional_errors = [],
       or_acceptance_violations = [], or_consistency_violation = None, or_error = Some (Inr e), or_metadata = dp_metadata p\<rparr>)"

definition record_try_result :: "snapshot_result \<Rightarrow> 's world \<Rightarrow> 's world" where
  "record_try_result r =
     emit [MetricIncrement ''snapshot_try_request_total'' [(''status'', result_state_value (or_state r))],
           EventEmit ''snapshot_try_request_resolved''
             [(''snapshot_id'', PyStr (sn_snapshot_id (or_snapshot r))), (''state'', PyStr (result_state_value (or_state r))),
              (''resources'', PyInt (int (length (sn_resources (or_snapshot r))))),
              (''errors'', PyInt (int (length (sn_errors (or_snapshot r))))),
              (''required_errors'', PyInt (int (length (or_required_errors r)))),
              (''optional_errors'', PyInt (int (length (or_optional_errors r)))),
              (''acceptance_violations'', PyInt (int (length (or_acceptance_violations r)))),
              (''consistency_failed'', PyBool (or_consistency_violation r \<noteq> None)),
              (''allowed_actions'', PyStr (str_join '','' (or_allowed_actions r))), (''reason'', PyStr (or_reason r))]]"

text \<open>
  The \<^verbatim>\<open>try\<close> with its two handlers. A snapshot error is the left side of a delivery; the
  exceptions of the classification itself are outside the first handler but inside the second.
\<close>

definition try_resolve_request ::
  "app \<Rightarrow> 's builder \<Rightarrow> 's resolver \<Rightarrow> snapshot_request \<Rightarrow> bool \<Rightarrow> degradation_policy
    \<Rightarrow> ('s session_state, snapshot_result) act" where
  "try_resolve_request ap bl resolve request retry_errors p =
     bind_act (reads fst) (\<lambda>ss.
     bind_act
       (handle (session_resolve ap bl resolve (sr_keys request) False retry_errors)
          (\<lambda>d. bind_act (reads (\<lambda>st. w_now (snd st))) (\<lambda>now.
             case d of
               Inl e \<Rightarrow>
                 lift_res (classify_result bl now p request
                   (case be_snapshot e of Some s \<Rightarrow> s | None \<Rightarrow> empty_snapshot ss (be_errors e)) (Some e))
             | Inr snapshot \<Rightarrow>
                 handle (lift_res (classify_result bl now p request snapshot None)) ret
                   (\<lambda>e. if coalestra_error e then lift_res (rejected_by_error ss p request e) else throw e)))
          (\<lambda>e. if coalestra_error e then lift_res (rejected_by_error ss p request e) else throw e)) (\<lambda>r.
     bind_act (note_world (record_try_result r)) (\<lambda>_. ret r)))"

definition try_build_request ::
  "app \<Rightarrow> 's builder \<Rightarrow> (fetch_context \<Rightarrow> 's resolver) \<Rightarrow> snapshot_request \<Rightarrow> pynum option \<Rightarrow> metadata
    \<Rightarrow> string option \<Rightarrow> degradation_policy \<Rightarrow> ('s world, snapshot_result) act" where
  "try_build_request ap bl resolve request deadline md sid p =
     bind_act (open_session ap deadline md sid) (\<lambda>ss.
     bind_act (in_session ss (try_resolve_request ap bl (resolve (ss_context ss)) request False p)) (\<lambda>r.
     bind_act (updates (record_snapshot_built (or_snapshot r) False (Some (or_state r \<noteq> ACCEPTED)))) (\<lambda>_. ret r)))"

text \<open>\<^verbatim>\<open>asyncio.gather\<close> of tasks that run one after the other: all run, and the first exception is raised.\<close>

fun gather_all :: "('s, 'a) act list \<Rightarrow> ('s, 'a list) act" where
  "gather_all [] = ret []"
| "gather_all (m # ms) =
     handle m (\<lambda>x. bind_act (gather_all ms) (\<lambda>xs. ret (x # xs))) (\<lambda>e. handle (gather_all ms) (\<lambda>_. throw e) (\<lambda>_. throw e))"

definition checked_concurrency :: "pyval option \<Rightarrow> arg_error + unit" where
  "checked_concurrency max_concurrent =
     (case max_concurrent of
        None \<Rightarrow> Inr ()
      | Some v \<Rightarrow>
          res_bind (require (as_int v) (TypeError ''max_concurrent must be an integer or None'')) (\<lambda>i.
            raise_if (i < 1) (ValueError ''max_concurrent must be at least 1'')))"

definition try_build_requests ::
  "app \<Rightarrow> 's builder \<Rightarrow> (fetch_context \<Rightarrow> 's resolver) \<Rightarrow> snapshot_request list \<Rightarrow> pynum option \<Rightarrow> metadata
    \<Rightarrow> string option \<Rightarrow> degradation_policy \<Rightarrow> pyval option \<Rightarrow> ('s world, snapshot_result list) act" where
  "try_build_requests ap bl resolve requests deadline md prefix_id p max_concurrent =
     (if requests = [] then ret []
      else bind_act (lift_res (lift_arg (checked_concurrency max_concurrent))) (\<lambda>_.
             gather_all (map (\<lambda>(i, request).
               try_build_request ap bl resolve request deadline md
                 (map_option (\<lambda>s. s @ '':'' @ int_str (int i)) prefix_id) p) (enumerate 0 requests))))"

subsection \<open>Lenient stages return\<close>

definition identified :: "fetch_context \<Rightarrow> delivery \<Rightarrow> bool" where
  "identified ctx d \<longleftrightarrow> (case d of Inl e \<Rightarrow> False | Inr s \<Rightarrow> sn_snapshot_id s = fc_snapshot_id ctx)"

lemma ensures_identified_snapshot:
  "ensures (\<lambda>st. True) (in_world (snapshot_state ap bl ctx resources errors enforce)) (\<lambda>s. sn_snapshot_id s = fc_snapshot_id ctx)"
  by (rule ensures_in_world) (auto dest: snapshot_state_contents)

lemma ensures_lenient_stage:
  "ensures (\<lambda>st. True) (resolve_stage ap bl resolve ss requested False retry_errors) (identified (ss_context ss))"
proof -
  have late: "ensures (\<lambda>st. True) (resolve_late ap bl ss requested pending False retry_errors resources errors e) (identified (ss_context ss))"
    for pending resources errors e
    unfolding resolve_late_def Let_def set_session_def
    by (auto intro!: ensures_throw ensures_ret ensures_bind [OF ensures_note_world] ensures_bind [OF ensures_updates]
        ensures_bind [OF ensures_identified_snapshot] simp: identified_def)
  have committed: "ensures (\<lambda>st. True) (commit_stage ss requested False retry_errors resources errors s) (identified (ss_context ss))"
    if "sn_snapshot_id s = fc_snapshot_id (ss_context ss)" for resources errors s
    unfolding commit_stage_def Let_def set_session_def
    by (auto intro!: ensures_ret ensures_bind [OF ensures_updates] ensures_bind [OF ensures_note_world] simp: identified_def that)
  show ?thesis unfolding resolve_stage_def Let_def
    by (rule ensures_handle [OF ensures_in_world [where Q = "\<lambda>_. True"] ensures_handle [OF ensures_identified_snapshot committed late] late])
      simp_all
qed

lemma lenient_resolve:
  assumes "session_resolve ap bl resolve keys False retry_errors st = (Inr d, st1)"
  obtains snapshot where "d = Inr snapshot" "sn_snapshot_id snapshot = fc_snapshot_id (ss_context (fst st))"
  using assms
proof (cases rule: stage_of_resolve)
  case (stage st1)
  from ensuresD [OF ensures_lenient_stage _ stage(2)] have "identified (ss_context (fst st)) d" by simp
  then show ?thesis using that by (cases d) (simp_all add: identified_def)
qed simp

subsection \<open>Normalized actions\<close>

lemma strip_strip: "strip (strip s) = strip s"
proof -
  have ends: "dropWhile P (dropWhile P xs) = dropWhile P xs" for P and xs :: string by simp
  have keeps_head: "dropWhile P (rev (dropWhile Q (rev (dropWhile P xs)))) = rev (dropWhile Q (rev (dropWhile P xs)))"
    if "P = Q" for P Q and xs :: string
  proof (cases "dropWhile P xs")
    case (Cons c cs)
    then have "\<not> P c" by (metis dropWhile_eq_Cons_conv)
    then show ?thesis using Cons that by (simp add: dropWhile_append)
  next
    case Nil
    then show ?thesis by (simp only: Nil rev.simps dropWhile.simps)
  qed
  show ?thesis by (simp add: strip_def keeps_head)
qed

definition actions_ok :: "string list \<Rightarrow> bool" where
  "actions_ok xs \<longleftrightarrow> (\<forall>nm. normalize_actions nm xs = Inr xs)"

lemma normalize_actions_ok: "normalize_actions nm xs = Inr ys \<Longrightarrow> actions_ok ys"
proof -
  assume run: "normalize_actions nm xs = Inr ys"
  then have ys: "ys = fromkeys (map strip xs)" "'''' \<notin> set ys" by (auto simp: normalize_actions_def Let_def split: if_splits)
  then have "map strip ys = ys" by (auto simp: strip_strip intro!: map_idI)
  moreover have "fromkeys ys = ys" by (simp add: ys(1))
  ultimately show ?thesis using ys(2) by (simp add: actions_ok_def normalize_actions_def)
qed

definition degradation_ok :: "degradation_policy \<Rightarrow> bool" where
  "degradation_ok p \<longleftrightarrow> actions_ok (dp_accepted_actions p) \<and> actions_ok (dp_degraded_actions p) \<and> actions_ok (dp_rejected_actions p)"

lemma mk_degradation_policy_ok: "mk_degradation_policy a b c d e f g h i j = Inr p \<Longrightarrow> degradation_ok p"
  by (auto simp: mk_degradation_policy_def res_iff degradation_ok_def intro: normalize_actions_ok)

lemma checked_result_ok: "actions_ok (or_allowed_actions r) \<Longrightarrow> checked_result r = Inr r"
  by (simp add: checked_result_def actions_ok_def)

lemma checked_result_fields:
  assumes "checked_result r = Inr r'"
  shows "or_state r' = or_state r" "or_snapshot r' = or_snapshot r" "or_request r' = or_request r" "or_error r' = or_error r"
  using assms by (auto simp: checked_result_def res_iff)

subsection \<open>Lenient and strict requests agree\<close>

lemma classify_result_state:
  assumes "classify_result bl now p request snapshot None = Inr r"
  obtains violations where "acceptance_found bl now request snapshot = Inr violations" "or_snapshot r = snapshot"
    "or_request r = request"
    "or_state r = ACCEPTED \<longleftrightarrow> errors_of (sn_errors snapshot) (sr_required request) = []
       \<and> errors_of (sn_errors snapshot) (sr_optional request) = [] \<and> consistency_found request snapshot = None \<and> violations = []"
proof -
  from assms obtain violations r0 where found: "acceptance_found bl now request snapshot = Inr violations"
    and r0: "r0 = (if reason_parts (errors_of (sn_errors snapshot) (sr_required request))
        (errors_of (sn_errors snapshot) (sr_optional request)) (consistency_found request snapshot) violations = []
      then accepted_result p request snapshot
      else troubled_result p request snapshot None (errors_of (sn_errors snapshot) (sr_required request))
        (errors_of (sn_errors snapshot) (sr_optional request)) (consistency_found request snapshot) violations)"
    and checked: "checked_result r0 = Inr r"
    by (auto simp: classify_result_def Let_def res_bind_Inr_iff lift_arg_Inr_iff)
  have "or_snapshot r0 = snapshot" "or_request r0 = request"
    "or_state r0 = ACCEPTED \<longleftrightarrow> errors_of (sn_errors snapshot) (sr_required request) = []
       \<and> errors_of (sn_errors snapshot) (sr_optional request) = [] \<and> consistency_found request snapshot = None \<and> violations = []"
    by (auto simp: r0 accepted_result_def troubled_result_def reason_parts_def Let_def)
  with found checked_result_fields [OF checked] show ?thesis by (intro that [of violations]) simp_all
qed

lemma rejected_by_error_fields:
  assumes "rejected_by_error ss p request e = Inr r"
  shows "or_state r = REJECTED" "or_request r = request" "sn_snapshot_id (or_snapshot r) = fc_snapshot_id (ss_context ss)"
  using assms by (auto simp: rejected_by_error_def lift_arg_Inr_iff empty_snapshot_def dest: checked_result_fields)

text \<open>The two ways in which a lenient request ends with a result.\<close>

lemma try_resolve_cases:
  assumes "try_resolve_request ap bl resolve request retry_errors p st = (Inr r, st')"
  obtains (classified) snapshot st1 where "session_resolve ap bl resolve (sr_keys request) False retry_errors st = (Inr (Inr snapshot), st1)"
      "sn_snapshot_id snapshot = fc_snapshot_id (ss_context (fst st))"
      "classify_result bl (w_now (snd st1)) p request snapshot None = Inr r"
  | (unclassified) snapshot st1 e where "session_resolve ap bl resolve (sr_keys request) False retry_errors st = (Inr (Inr snapshot), st1)"
      "classify_result bl (w_now (snd st1)) p request snapshot None = Inl e" "coalestra_error e"
      "rejected_by_error (fst st) p request e = Inr r"
  | (raised) e st1 where "session_resolve ap bl resolve (sr_keys request) False retry_errors st = (Inl e, st1)" "coalestra_error e"
      "rejected_by_error (fst st) p request e = Inr r"
proof -
  obtain o1 st1 where run: "session_resolve ap bl resolve (sr_keys request) False retry_errors st = (o1, st1)" by (rule prod.exhaust)
  show ?thesis
  proof (cases o1)
    case (Inl e)
    with run assms show ?thesis
      by (intro raised [of e st1]) (auto simp: try_resolve_request_def bind_act_Inr handle_def split: if_splits)
  next
    case (Inr d)
    with run obtain snapshot where d: "d = Inr snapshot" "sn_snapshot_id snapshot = fc_snapshot_id (ss_context (fst st))"
      by (auto elim: lenient_resolve)
    note run = run [unfolded Inr d(1)]
    show ?thesis
    proof (cases "classify_result bl (w_now (snd st1)) p request snapshot None")
      case (Inl e)
      with run d assms show ?thesis
        by (intro unclassified [of snapshot st1 e]) (auto simp: try_resolve_request_def bind_act_Inr handle_def split: if_splits)
    next
      case (Inr r')
      with run d assms have "r' = r" by (auto simp: try_resolve_request_def bind_act_Inr handle_def)
      with Inr run d(2) show ?thesis by (intro classified [of snapshot st1]) simp_all
    qed
  qed
qed

lemma consistency_found_check:
  "check_request bl ss request snapshot =
     (if errors_of (sn_errors snapshot) (sr_required request) \<noteq> []
      then ret (Inl (mk_snapshot_build_error (errors_of (sn_errors snapshot) (sr_required request)) (Some snapshot)))
      else case consistency_found request snapshot of
             Some v \<Rightarrow> consistency_error ss v snapshot
           | None \<Rightarrow> check_acceptance bl ss request snapshot)"
  by (simp add: check_request_def consistency_found_def Let_def)

text \<open>When the check of a strict request lets a snapshot through.\<close>

lemma acceptance_error_never_delivers: "acceptance_error ss violations snapshot st \<noteq> (Inr (Inr s), st')"
  by (auto simp: acceptance_error_def bind_act_Inr Let_def note_world_def)

lemma check_request_delivers:
  "(\<exists>s st'. check_request bl ss request snapshot st = (Inr (Inr s), st'))
    \<longleftrightarrow> errors_of (sn_errors snapshot) (sr_required request) = [] \<and> consistency_found request snapshot = None
        \<and> acceptance_found bl (w_now (snd st)) request snapshot = Inr []"
  by (auto simp: consistency_found_check check_acceptance_def acceptance_found_def consistency_error_def note_world_def
      bind_act_Inr acceptance_error_never_delivers split: option.splits if_splits)

lemma check_request_same: "check_request bl ss request snapshot st = (Inr (Inr s), st') \<Longrightarrow> s = snapshot"
  by (auto simp: consistency_found_check check_acceptance_def consistency_error_def note_world_def bind_act_Inr
      acceptance_error_never_delivers split: option.splits if_splits)

text \<open>
  C23: A lenient request is accepted exactly when the strict request would have returned a snapshot
  from the same state and no optional resource has failed; the snapshot is then the same one.
\<close>

theorem lenient_accepts_what_strict_returns:
  assumes "try_resolve_request ap bl resolve request retry_errors p st = (Inr r, st')"
  shows "or_state r = ACCEPTED
    \<longleftrightarrow> (\<exists>snapshot st2. session_resolve_request ap bl resolve request retry_errors st = (Inr (Inr snapshot), st2)
          \<and> or_snapshot r = snapshot \<and> errors_of (sn_errors snapshot) (sr_optional request) = [])"
  using assms
proof (cases rule: try_resolve_cases)
  case (classified snapshot st1)
  from classified(3) obtain violations where v: "acceptance_found bl (w_now (snd st1)) request snapshot = Inr violations"
      "or_snapshot r = snapshot" "or_request r = request"
    and accepted: "or_state r = ACCEPTED \<longleftrightarrow> errors_of (sn_errors snapshot) (sr_required request) = []
       \<and> errors_of (sn_errors snapshot) (sr_optional request) = [] \<and> consistency_found request snapshot = None \<and> violations = []"
    by (rule classify_result_state)
  have strict: "session_resolve_request ap bl resolve request retry_errors st = check_request bl (fst st1) request snapshot st1"
    using classified(1) by (simp add: session_resolve_request_def bind_act_def)
  have delivers: "(\<exists>s st2. check_request bl (fst st1) request snapshot st1 = (Inr (Inr s), st2))
      \<longleftrightarrow> errors_of (sn_errors snapshot) (sr_required request) = [] \<and> consistency_found request snapshot = None \<and> violations = []"
    unfolding check_request_delivers v(1) by simp
  show ?thesis
    unfolding strict accepted v(2) using delivers by (blast dest: check_request_same)
next
  case (unclassified snapshot st1 e)
  have "acceptance_found bl (w_now (snd st1)) request snapshot \<noteq> Inr []"
  proof
    assume "acceptance_found bl (w_now (snd st1)) request snapshot = Inr []"
    with unclassified(2) obtain r0 where "lift_arg (checked_result r0) = Inl e"
      by (auto simp: classify_result_def Let_def)
    with unclassified(3) show False by (cases "checked_result r0") auto
  qed
  then have "\<nexists>s st2. check_request bl (fst st1) request snapshot st1 = (Inr (Inr s), st2)"
    unfolding check_request_delivers by simp
  moreover have "session_resolve_request ap bl resolve request retry_errors st = check_request bl (fst st1) request snapshot st1"
    using unclassified(1) by (simp add: session_resolve_request_def bind_act_def)
  ultimately show ?thesis using rejected_by_error_fields(1) [OF unclassified(4)] by auto
next
  case (raised e st1)
  then have "session_resolve_request ap bl resolve request retry_errors st = (Inl e, st1)"
    by (simp add: session_resolve_request_def bind_act_def)
  with rejected_by_error_fields(1) [OF raised(3)] show ?thesis by auto
qed

subsection \<open>Library errors become results\<close>

lemma rejected_by_error_ok: "degradation_ok p \<Longrightarrow> \<exists>r. rejected_by_error ss p request e = Inr r"
  by (simp add: rejected_by_error_def degradation_ok_def checked_result_ok)

lemma try_resolve_raises:
  assumes "degradation_ok p"
  shows "raises_only (\<lambda>e. \<not> coalestra_error e) (try_resolve_request ap bl resolve request retry_errors p)"
proof (rule raises_onlyI)
  fix st e st'
  assume run: "try_resolve_request ap bl resolve request retry_errors p st = (Inl e, st')"
  obtain o1 st1 where stage: "session_resolve ap bl resolve (sr_keys request) False retry_errors st = (o1, st1)" by (rule prod.exhaust)
  note unrejected = rejected_by_error_ok [OF assms, of "fst st" request]
  show "\<not> coalestra_error e"
  proof (cases o1)
    case (Inl e1)
    with stage run unrejected [of e1] show ?thesis
      by (auto simp: try_resolve_request_def bind_act_def handle_def note_world_def split: if_splits)
  next
    case (Inr d)
    with stage obtain snapshot where d: "d = Inr snapshot" by (auto elim: lenient_resolve)
    note stage = stage [unfolded Inr d]
    show ?thesis
    proof (cases "classify_result bl (w_now (snd st1)) p request snapshot None")
      case (Inl e1)
      with stage run unrejected [of e1] show ?thesis
        by (auto simp: try_resolve_request_def bind_act_def handle_def note_world_def split: if_splits)
    next
      case (Inr r)
      with stage run show ?thesis by (simp add: try_resolve_request_def bind_act_def handle_def note_world_def)
    qed
  qed
qed

lemma open_session_raises: "raises_only (\<lambda>e. \<not> coalestra_error e) (open_session ap deadline md sid)"
  unfolding open_session_def
  by (intro raises_only_bind raises_only_ret raises_only_lift)
    (auto simp: raises_only_def ensure_builder_open_def lift_arg_def split: sum.splits)

lemma in_session_run: "in_session ss m w = (r, w') \<Longrightarrow> \<exists>ss'. m (ss, w) = (r, ss', w')"
  by (auto simp: in_session_def Let_def split: prod.splits)

lemma raises_in_session:
  assumes "raises_only P m"
  shows "raises_only P (in_session ss m)"
proof (rule raises_onlyI)
  fix w e w'
  assume "in_session ss m w = (Inl e, w')"
  from in_session_run [OF this] show "P e" by (auto dest: raises_onlyD [OF assms])
qed

lemma try_build_raises: "degradation_ok p \<Longrightarrow> raises_only (\<lambda>e. \<not> coalestra_error e) (try_build_request ap bl resolve request deadline md sid p)"
  unfolding try_build_request_def
  by (intro raises_only_bind raises_only_ret open_session_raises raises_in_session try_resolve_raises)

lemma raises_gather:
  assumes "\<And>m. m \<in> set ms \<Longrightarrow> raises_only P m"
  shows "raises_only P (gather_all ms)"
  using assms
proof (induction ms)
  case (Cons m ms)
  then have "raises_only P m" "raises_only P (gather_all ms)" by simp_all
  then show ?case
    by (intro raises_onlyI) (auto simp: handle_def bind_act_def split: prod.splits sum.splits dest: raises_onlyD)
qed auto

text \<open>
  C24: No error of the library leaves the lenient entry points: whatever sources, policies and the
  cache do, and however many requests are built together, with a policy that the constructor
  accepts only exceptions from outside the library's hierarchy are raised.
\<close>

theorem lenient_contains_library_errors:
  assumes "mk_degradation_policy minimum minimum_required closed_flag on_required on_acceptance on_consistency accepted degraded rejected md0 = Inr p"
    and "try_build_requests ap bl resolve requests deadline md prefix_id p max_concurrent w = (Inl e, w')"
  shows "\<not> coalestra_error e"
proof -
  have "raises_only (\<lambda>e. \<not> coalestra_error e) (try_build_requests ap bl resolve requests deadline md prefix_id p max_concurrent)"
    unfolding try_build_requests_def using try_build_raises [OF mk_degradation_policy_ok [OF assms(1)]]
    by (auto intro!: raises_only_bind raises_only_lift raises_gather simp: lift_arg_def split: sum.splits)
  from raises_onlyD [OF this assms(2)] show ?thesis .
qed

subsection \<open>Many requests\<close>

lemma gather_results:
  assumes "gather_all ms s = (Inr xs, s')"
  shows "length xs = length ms \<and> (\<forall>i < length ms. \<exists>s1 s2. (ms ! i) s1 = (Inr (xs ! i), s2))"
  using assms
proof (induction ms arbitrary: s xs)
  case (Cons m ms)
  from Cons.prems obtain x s1 ys where first: "m s = (Inr x, s1)" and rest: "gather_all ms s1 = (Inr ys, s')" and xs: "xs = x # ys"
    by (auto simp: handle_def bind_act_Inr split: prod.splits sum.splits)
  from Cons.IH [OF rest] first xs show ?case by (auto simp: nth_Cons split: nat.splits)
qed simp

lemma try_resolve_identity:
  assumes "try_resolve_request ap bl resolve request retry_errors p st = (Inr r, st')"
  shows "or_request r = request" "sn_snapshot_id (or_snapshot r) = fc_snapshot_id (ss_context (fst st))"
proof -
  have "or_request r = request \<and> sn_snapshot_id (or_snapshot r) = fc_snapshot_id (ss_context (fst st))"
    using assms
  proof (cases rule: try_resolve_cases)
    case (classified snapshot st1)
    from classified(3) classified(2) show ?thesis by (cases rule: classify_result_state) simp
  qed (auto dest: rejected_by_error_fields)
  then show "or_request r = request" "sn_snapshot_id (or_snapshot r) = fc_snapshot_id (ss_context (fst st))" by simp_all
qed

lemma try_build_identity:
  assumes "try_build_request ap bl resolve request deadline md (Some sid) p w = (Inr r, w')" "sid \<noteq> ''''"
  shows "or_request r = request" "sn_snapshot_id (or_snapshot r) = sid"
proof -
  obtain ss w1 w2 where opened: "open_session ap deadline md (Some sid) w = (Inr ss, w1)"
    and ran: "in_session ss (try_resolve_request ap bl (resolve (ss_context ss)) request False p) w1 = (Inr r, w2)"
    using assms(1) by (auto simp: try_build_request_def bind_act_Inr)
  obtain ctx where ctx: "session_context ap deadline md (Some sid) w = Inr ctx" "ss = new_session ctx"
    using opened by (rule open_session_Inr)
  have "fc_snapshot_id (ss_context ss) = sid" using session_context_fields(2) [OF ctx(1)] assms(2) ctx(2) by simp
  moreover obtain ss2 where "try_resolve_request ap bl (resolve (ss_context ss)) request False p (ss, w1) = (Inr r, ss2, w2)"
    using in_session_run [OF ran] by blast
  ultimately show "or_request r = request" "sn_snapshot_id (or_snapshot r) = sid"
    using try_resolve_identity by fastforce+
qed

text \<open>
  Building many requests returns one result per request, in the order of the requests, each
  for its own request and, under a prefix, with a snapshot of its own numbered identity.
\<close>

lemma many_requests_in_order:
  assumes "try_build_requests ap bl resolve requests deadline md (Some prefix_id) p max_concurrent w = (Inr rs, w')"
  shows "map or_request rs = requests
    \<and> map (\<lambda>r. sn_snapshot_id (or_snapshot r)) rs = map (\<lambda>i. prefix_id @ '':'' @ int_str (int i)) [0..<length requests]"
proof (cases "requests = []")
  case True
  with assms show ?thesis by (simp add: try_build_requests_def)
next
  case False
  let ?one = "\<lambda>(i, request). try_build_request ap bl resolve request deadline md
                 (map_option (\<lambda>s. s @ '':'' @ int_str (int i)) (Some prefix_id)) p"
  obtain w1 where "gather_all (map ?one (enumerate 0 requests)) w1 = (Inr rs, w')"
    using assms False by (auto simp: try_build_requests_def bind_act_Inr)
  from gather_results [OF this]
  have size: "length rs = length requests"
    and runs: "\<And>i. i < length requests \<Longrightarrow> \<exists>s1 s2. try_build_request ap bl resolve (requests ! i) deadline md
        (Some (prefix_id @ '':'' @ int_str (int i))) p s1 = (Inr (rs ! i), s2)"
    by (auto simp: nth_enumerate_eq)
  have "or_request (rs ! i) = requests ! i \<and> sn_snapshot_id (or_snapshot (rs ! i)) = prefix_id @ '':'' @ int_str (int i)"
    if "i < length requests" for i
    using runs [OF that] by (auto dest: try_build_identity)
  then show ?thesis using size by (auto intro!: nth_equalityI)
qed

subsection \<open>Requests carried out\<close>

definition fixture_request :: snapshot_request where
  "fixture_request = \<lparr>sr_required = [fixture_key ''quote''], sr_optional = [fixture_key ''news''],
     sr_consistency_policy = None, sr_acceptance_policy = None\<rparr>"

text \<open>Only the required resource has a source.\<close>

definition picky_app :: app where
  "picky_app = (fixture_app 1)\<lparr>ap_supports := (\<lambda>src k. Inr (k = fixture_key ''quote''))\<rparr>"

definition fixture_try :: "degradation_policy \<Rightarrow> (py_error + snapshot_result) \<times> memory_cache world" where
  "fixture_try p = try_build_request picky_app fixture_builder (resolve_many 2 unreached picky_app fixture_builder)
     fixture_request (Some (NInt 30)) [] (Some ''s'') p fixture_world"

definition fixture_strict :: "(py_error + delivery) \<times> memory_cache world" where
  "fixture_strict = build_request picky_app fixture_builder (resolve_many 2 unreached picky_app fixture_builder)
     fixture_request (Some (NInt 30)) [] (Some ''s'') fixture_world"

definition closed_policy :: degradation_policy where
  "closed_policy = default_degradation_policy\<lparr>dp_fail_closed := True, dp_reject_on_required_error := True,
     dp_reject_on_acceptance_violation := True, dp_reject_on_consistency_violation := True, dp_degraded_actions := []\<rparr>"

lemma closed_policy_made: "fail_closed_policy [''read'', ''evaluate'', ''act''] = Inr closed_policy"
  by code_simp

lemma strict_request_returns: "(case fst fixture_strict of Inr (Inr s) \<Rightarrow> od_keys (sn_resources s) = [fixture_key ''quote''] | _ \<Rightarrow> False) = True"
  by code_simp

lemma closed_request_rejected:
  "(case fst (fixture_try closed_policy) of
      Inr r \<Rightarrow> or_state r = REJECTED \<and> or_reason r = ''optional_errors'' \<and> or_allowed_actions r = []
        \<and> (case require_accepted r of Inr (Inl e) \<Rightarrow> True | _ \<Rightarrow> False) | _ \<Rightarrow> False) = True"
  by code_simp


definition fixture_lenient :: "(py_error + snapshot_result) \<times> memory_cache session_state" where
  "fixture_lenient = try_resolve_request (fixture_app 1) fixture_builder fixture_resolve (fixture_request\<lparr>sr_optional := []\<rparr>) False
     default_degradation_policy fixture_state"

lemma fixture_lenient_accepted: "(case fst fixture_lenient of Inr r \<Rightarrow> or_state r = ACCEPTED | _ \<Rightarrow> False) = True"
  by code_simp

theorem lenient_accepts_what_strict_returns_witness:
  "\<exists>snapshot st2. session_resolve_request (fixture_app 1) fixture_builder fixture_resolve (fixture_request\<lparr>sr_optional := []\<rparr>) False
     fixture_state = (Inr (Inr snapshot), st2)"
proof -
  obtain r where lenient: "fst fixture_lenient = Inr r" and state: "or_state r = ACCEPTED"
    using fixture_lenient_accepted by (cases "fst fixture_lenient") auto
  from lenient obtain st' where run: "fixture_lenient = (Inr r, st')" by (metis prod.collapse)
  show ?thesis using lenient_accepts_what_strict_returns [OF run [unfolded fixture_lenient_def]] state by blast
qed

text \<open>An application whose sessions cannot be opened: the deadline is not positive.\<close>

theorem lenient_contains_library_errors_witness:
  "\<not> coalestra_error (ArgError (ValueError ''deadline_seconds must be positive''))"
proof -
  have policy: "mk_degradation_policy (PyInt 1) (PyInt 0) (PyBool False) (PyBool False) (PyBool False) (PyBool False)
      [''read'', ''evaluate'', ''act''] [''read'', ''evaluate''] [] [] = Inr default_degradation_policy"
    by code_simp
  have "fst (try_build_requests (fixture_app 1) fixture_builder (resolve_many 2 unreached (fixture_app 1) fixture_builder)
      [fixture_request] (Some (NInt 0)) [] None default_degradation_policy None fixture_world)
      = Inl (ArgError (ValueError ''deadline_seconds must be positive''))"
    by code_simp
  then obtain w' where "try_build_requests (fixture_app 1) fixture_builder (resolve_many 2 unreached (fixture_app 1) fixture_builder)
      [fixture_request] (Some (NInt 0)) [] None default_degradation_policy None fixture_world
      = (Inl (ArgError (ValueError ''deadline_seconds must be positive'')), w')"
    by (metis prod.collapse)
  from lenient_contains_library_errors [OF policy this] show ?thesis .
qed

definition fixture_many :: "(py_error + snapshot_result list) \<times> memory_cache world" where
  "fixture_many = try_build_requests picky_app fixture_builder (resolve_many 2 unreached picky_app fixture_builder)
     [fixture_request, fixture_request] (Some (NInt 30)) [] (Some ''s'') default_degradation_policy (Some (PyInt 2)) fixture_world"

lemma fixture_many_returns: "(case fst fixture_many of Inr rs \<Rightarrow> map or_state rs = [DEGRADED_RESULT, DEGRADED_RESULT] | _ \<Rightarrow> False) = True"
  by code_simp

lemma many_requests_in_order_witness:
  "\<exists>rs. fst fixture_many = Inr rs \<and> map (\<lambda>r. sn_snapshot_id (or_snapshot r)) rs = [''s:0'', ''s:1'']"
proof -
  obtain rs where returned: "fst fixture_many = Inr rs" using fixture_many_returns by (cases "fst fixture_many") auto
  then obtain w' where run: "fixture_many = (Inr rs, w')" by (metis prod.collapse)
  have "int_str 0 = ''0''" "int_str 1 = ''1''" by code_simp+
  then have "map (\<lambda>r. sn_snapshot_id (or_snapshot r)) rs = [''s:0'', ''s:1'']"
    using many_requests_in_order [OF run [unfolded fixture_many_def]] by simp
  with returned show ?thesis by (intro exI conjI)
qed

end
