(* ===== verification/Copy_Workers.thy ===== *)
theory Copy_Workers
  imports Health
begin

section \<open>Copying in worker threads (core/isolation.py, AsyncPayloadIsolator)\<close>

text \<open>
  An asynchronous isolator bounds the copies that run in threads by a semaphore, keeps a slot
  until its thread has really ended, and closes once every thread has. A call is a number; its
  phase says where it is. The steps are what happens between two awaits. \<open>CopyEnded\<close> is a thread
  that has finished while its slot has not been given back.
\<close>

datatype copy_phase =
    WaitingSlot | GrantedSlot | CancelledSlot | CopyRunning | CopyAbandoned | CopyEnded bool | CallOver

record isolator =
  ai_component :: string
  ai_run_in_thread :: bool
  ai_max_concurrency :: nat
  ai_free :: nat
  ai_calls :: "copy_phase list"
  ai_closing :: bool
  ai_closed :: bool
  ai_tracker :: copy_tracker

fun optional_bool :: "string \<Rightarrow> pyval \<Rightarrow> arg_error + bool option" where
  "optional_bool nm PyNone = Inr None"
| "optional_bool nm (PyBool b) = Inr (Some b)"
| "optional_bool nm v = Inl (TypeError (nm @ '' must be a boolean or None''))"

definition mk_async_isolator :: "bool \<Rightarrow> pyval \<Rightarrow> pyval \<Rightarrow> string \<Rightarrow> arg_error + isolator" where
  "mk_async_isolator uses_default_copier run_in_thread max_concurrency component_name =
     res_bind (optional_bool ''run_in_thread'' run_in_thread) (\<lambda>choice.
     res_bind (require (as_int max_concurrency) (TypeError ''max_concurrency must be an integer'')) (\<lambda>limit.
     res_bind (raise_if (limit < 1) (ValueError ''max_concurrency must be at least 1'')) (\<lambda>_.
     res_bind (raise_if (strip component_name = '''') (ValueError ''component_name cannot be empty'')) (\<lambda>_.
       let in_thread = (case choice of None \<Rightarrow> uses_default_copier | Some b \<Rightarrow> b)
       in Inr \<lparr>ai_component = strip component_name, ai_run_in_thread = in_thread, ai_max_concurrency = nat limit,
               ai_free = nat limit, ai_calls = [], ai_closing = False, ai_closed = False,
               ai_tracker = new_copy_tracker in_thread limit\<rparr>))))"

fun running :: "copy_phase \<Rightarrow> bool" where
  "running CopyRunning = True"
| "running CopyAbandoned = True"
| "running _ = False"

fun is_worker :: "copy_phase \<Rightarrow> bool" where
  "is_worker CopyRunning = True"
| "is_worker CopyAbandoned = True"
| "is_worker (CopyEnded failed) = True"
| "is_worker _ = False"

definition calls_in :: "(copy_phase \<Rightarrow> bool) \<Rightarrow> isolator \<Rightarrow> nat" where
  "calls_in P s = length (filter P (ai_calls s))"

definition ensure_accepting :: "isolator \<Rightarrow> py_error + unit" where
  "ensure_accepting s =
     (if ai_closing s \<or> ai_closed s then Inl (PayloadCopySubsystemClosedError (ai_component s)) else Inr ())"

definition mark_closed_if_drained :: "isolator \<Rightarrow> isolator" where
  "mark_closed_if_drained s =
     (if \<not> ai_closing s \<or> 0 < calls_in is_worker s \<or> ai_closed s then s
      else s\<lparr>ai_closed := True, ai_tracker := copy_shutdown_completed (ai_tracker s)\<rparr>)"

subsection \<open>Waiting for a slot\<close>

definition set_phase :: "nat \<Rightarrow> copy_phase \<Rightarrow> isolator \<Rightarrow> isolator" where
  "set_phase t p s = s\<lparr>ai_calls := (ai_calls s)[t := p]\<rparr>"

definition begin_wait :: "isolator \<Rightarrow> isolator" where
  "begin_wait s = s\<lparr>ai_calls := ai_calls s @ [WaitingSlot], ai_tracker := capacity_wait_started (ai_tracker s)\<rparr>"

text \<open>The \<^verbatim>\<open>finally\<close> of \<^verbatim>\<open>_acquire_slot\<close>; the counter may refuse.\<close>

definition end_wait :: "rat \<Rightarrow> nat \<Rightarrow> copy_phase \<Rightarrow> isolator \<Rightarrow> py_error + isolator" where
  "end_wait elapsed t p s =
     res_bind (capacity_wait_finished elapsed (ai_tracker s)) (\<lambda>tracker. Inr (set_phase t p (s\<lparr>ai_tracker := tracker\<rparr>)))"

definition grant_slot :: "nat \<Rightarrow> isolator \<Rightarrow> isolator" where
  "grant_slot t s = set_phase t GrantedSlot (s\<lparr>ai_free := ai_free s - 1\<rparr>)"

definition time_out_wait :: "rat \<Rightarrow> nat \<Rightarrow> isolator \<Rightarrow> py_error + isolator" where
  "time_out_wait elapsed t s = end_wait elapsed t CallOver (s\<lparr>ai_tracker := record_copy_timeout True (ai_tracker s)\<rparr>)"

text \<open>A slot that was granted is given back: to a call that is cancelled, or when the isolator is closing.\<close>

definition give_back :: "rat \<Rightarrow> nat \<Rightarrow> isolator \<Rightarrow> py_error + isolator" where
  "give_back elapsed t s = end_wait elapsed t CallOver (s\<lparr>ai_free := ai_free s + 1\<rparr>)"

subsection \<open>Copying\<close>

definition start_copy :: "rat \<Rightarrow> nat \<Rightarrow> isolator \<Rightarrow> py_error + isolator" where
  "start_copy elapsed t s =
     res_bind (end_wait elapsed t CopyRunning s) (\<lambda>s'. Inr (s'\<lparr>ai_tracker := copy_started (ai_tracker s')\<rparr>))"

definition release_slot :: "rat \<Rightarrow> bool \<Rightarrow> nat \<Rightarrow> isolator \<Rightarrow> py_error + isolator" where
  "release_slot elapsed failed t s =
     res_bind (copy_finished elapsed failed (ai_tracker s)) (\<lambda>tracker.
       Inr (mark_closed_if_drained (set_phase t CallOver (s\<lparr>ai_tracker := tracker, ai_free := ai_free s + 1\<rparr>))))"

text \<open>The thread could not be started.\<close>

definition start_failed :: "rat \<Rightarrow> rat \<Rightarrow> nat \<Rightarrow> isolator \<Rightarrow> py_error + isolator" where
  "start_failed waited elapsed t s = res_bind (start_copy waited t s) (release_slot elapsed True t)"

text \<open>The caller leaves while the thread runs, because of its deadline or because it is cancelled.\<close>

definition leave_copy :: "bool \<Rightarrow> nat \<Rightarrow> isolator \<Rightarrow> isolator" where
  "leave_copy late t s =
     set_phase t CopyAbandoned (if late then s\<lparr>ai_tracker := record_copy_timeout False (ai_tracker s)\<rparr> else s)"

definition note_late :: "isolator \<Rightarrow> isolator" where
  "note_late s = s\<lparr>ai_tracker := record_copy_timeout False (ai_tracker s)\<rparr>"

text \<open>Without threads a copy is one step.\<close>

definition inline_copy :: "rat \<Rightarrow> bool \<Rightarrow> isolator \<Rightarrow> py_error + isolator" where
  "inline_copy elapsed failed s =
     res_bind (copy_finished elapsed failed (copy_started (ai_tracker s))) (\<lambda>tracker. Inr (s\<lparr>ai_tracker := tracker\<rparr>))"

subsection \<open>Shutdown\<close>

definition shutdown_timeout :: "pyval \<Rightarrow> arg_error + pyfloat option" where
  "shutdown_timeout v =
     (if v = PyNone then Inr None
      else res_bind (require (as_number v) (TypeError ''timeout_seconds must be a number or None'')) (\<lambda>x.
           res_bind (raise_if (case x of NInt i \<Rightarrow> i \<le> 0 | NFloat f \<Rightarrow> fle f (Fin 0)) (ValueError ''timeout_seconds must be positive or None'')) (\<lambda>_.
           res_bind (to_double x) (\<lambda>f. Inr (Some f)))))"

definition begin_shutdown :: "isolator \<Rightarrow> isolator" where
  "begin_shutdown s =
     (if ai_closed s \<or> ai_closing s then s
      else mark_closed_if_drained
        (s\<lparr>ai_closing := True, ai_tracker := copy_shutdown_started (ai_tracker s),
           ai_calls := map (\<lambda>p. if p = WaitingSlot then CancelledSlot else p) (ai_calls s)\<rparr>))"

text \<open>What \<^verbatim>\<open>aclose\<close> does when its wait is over: all threads have ended, or its time has.\<close>

definition end_shutdown_wait :: "pyfloat option \<Rightarrow> isolator \<Rightarrow> (py_error + unit) \<times> isolator" where
  "end_shutdown_wait timeout s =
     (case timeout of
        Some seconds \<Rightarrow>
          if 0 < calls_in running s
          then (Inl (PayloadCopyShutdownTimeoutError seconds [(ai_component s, int (calls_in running s))]),
                s\<lparr>ai_tracker := copy_shutdown_timed_out (int (calls_in running s)) (ai_tracker s)\<rparr>)
          else (Inr (), mark_closed_if_drained s)
      | None \<Rightarrow> (Inr (), mark_closed_if_drained s))"

definition isolator_closing :: "isolator \<Rightarrow> bool" where
  "isolator_closing s \<longleftrightarrow> ai_closing s \<and> \<not> ai_closed s"

subsection \<open>The machine\<close>

datatype copy_event =
    WaitBegan
  | SlotGranted nat
  | WaitTimedOut nat rat
  | WaitAbandoned nat rat
  | CopyStarted nat rat
  | CopyStartFailed nat rat rat
  | GrantRefused nat rat
  | WaitCancelled nat rat
  | CallerLeft nat bool
  | ThreadEnded nat bool
  | SlotReleased nat rat
  | LateNoticed
  | CopiedInline rat bool
  | ShutdownBegan
  | ShutdownWaitEnded "pyfloat option"

fun copy_enabled :: "isolator \<Rightarrow> copy_event \<Rightarrow> bool" where
  "copy_enabled s WaitBegan \<longleftrightarrow> ai_run_in_thread s \<and> ensure_accepting s = Inr ()"
| "copy_enabled s (SlotGranted t) \<longleftrightarrow> t < length (ai_calls s) \<and> ai_calls s ! t = WaitingSlot \<and> 0 < ai_free s"
| "copy_enabled s (WaitTimedOut t x) \<longleftrightarrow> t < length (ai_calls s) \<and> ai_calls s ! t = WaitingSlot"
| "copy_enabled s (WaitAbandoned t x) \<longleftrightarrow> t < length (ai_calls s) \<and> ai_calls s ! t \<in> {WaitingSlot, GrantedSlot}"
| "copy_enabled s (CopyStarted t x) \<longleftrightarrow> t < length (ai_calls s) \<and> ai_calls s ! t = GrantedSlot \<and> \<not> ai_closing s"
| "copy_enabled s (CopyStartFailed t x y) \<longleftrightarrow> t < length (ai_calls s) \<and> ai_calls s ! t = GrantedSlot \<and> \<not> ai_closing s"
| "copy_enabled s (GrantRefused t x) \<longleftrightarrow> t < length (ai_calls s) \<and> ai_calls s ! t = GrantedSlot \<and> ai_closing s"
| "copy_enabled s (WaitCancelled t x) \<longleftrightarrow> t < length (ai_calls s) \<and> ai_calls s ! t = CancelledSlot"
| "copy_enabled s (CallerLeft t late) \<longleftrightarrow> t < length (ai_calls s) \<and> ai_calls s ! t = CopyRunning"
| "copy_enabled s (ThreadEnded t failed) \<longleftrightarrow> t < length (ai_calls s) \<and> running (ai_calls s ! t)"
| "copy_enabled s (SlotReleased t x) \<longleftrightarrow> t < length (ai_calls s) \<and> (\<exists>failed. ai_calls s ! t = CopyEnded failed)"
| "copy_enabled s LateNoticed \<longleftrightarrow> True"
| "copy_enabled s (CopiedInline x failed) \<longleftrightarrow> \<not> ai_run_in_thread s \<and> ensure_accepting s = Inr ()"
| "copy_enabled s ShutdownBegan \<longleftrightarrow> True"
| "copy_enabled s (ShutdownWaitEnded timeout) \<longleftrightarrow> ai_closing s \<and> (timeout = None \<longrightarrow> calls_in running s = 0)"

fun copy_result :: "isolator \<Rightarrow> copy_event \<Rightarrow> py_error + isolator" where
  "copy_result s WaitBegan = Inr (begin_wait s)"
| "copy_result s (SlotGranted t) = Inr (grant_slot t s)"
| "copy_result s (WaitTimedOut t x) = time_out_wait x t s"
| "copy_result s (WaitAbandoned t x) = (if ai_calls s ! t = GrantedSlot then give_back x t s else end_wait x t CallOver s)"
| "copy_result s (CopyStarted t x) = start_copy x t s"
| "copy_result s (CopyStartFailed t x y) = start_failed x y t s"
| "copy_result s (GrantRefused t x) = give_back x t s"
| "copy_result s (WaitCancelled t x) = end_wait x t CallOver s"
| "copy_result s (CallerLeft t late) = Inr (leave_copy late t s)"
| "copy_result s (ThreadEnded t failed) = Inr (set_phase t (CopyEnded failed) s)"
| "copy_result s (SlotReleased t x) = release_slot x (ai_calls s ! t = CopyEnded True) t s"
| "copy_result s LateNoticed = Inr (note_late s)"
| "copy_result s (CopiedInline x failed) = inline_copy x failed s"
| "copy_result s ShutdownBegan = Inr (begin_shutdown s)"
| "copy_result s (ShutdownWaitEnded timeout) = Inr (snd (end_shutdown_wait timeout s))"

definition copy_step :: "isolator \<Rightarrow> copy_event \<Rightarrow> isolator \<Rightarrow> bool" where
  "copy_step s e s' \<longleftrightarrow> copy_enabled s e \<and> copy_result s e = Inr s'"

subsection \<open>The invariant\<close>

fun holds_slot :: "copy_phase \<Rightarrow> bool" where
  "holds_slot GrantedSlot = True"
| "holds_slot p = is_worker p"

fun awaits_slot :: "copy_phase \<Rightarrow> bool" where
  "awaits_slot WaitingSlot = True"
| "awaits_slot GrantedSlot = True"
| "awaits_slot CancelledSlot = True"
| "awaits_slot _ = False"

definition slots_ok :: "isolator \<Rightarrow> bool" where
  "slots_ok s \<longleftrightarrow> ai_free s + calls_in holds_slot s = ai_max_concurrency s \<and> 0 < ai_max_concurrency s
     \<and> (\<not> ai_run_in_thread s \<longrightarrow> ai_calls s = [])"

definition counters_ok :: "isolator \<Rightarrow> bool" where
  "counters_ok s \<longleftrightarrow> (let t = ai_tracker s
     in pt_active_copies t = calls_in is_worker s \<and> pt_waiting_for_capacity t = calls_in awaits_slot s
        \<and> pt_started_count t = pt_completed_count t + pt_failure_count t + pt_active_copies t
        \<and> pt_peak_active_copies t \<le> ai_max_concurrency s)"

fun is_waiting :: "copy_phase \<Rightarrow> bool" where
  "is_waiting WaitingSlot = True"
| "is_waiting _ = False"

definition shutdown_ok :: "isolator \<Rightarrow> bool" where
  "shutdown_ok s \<longleftrightarrow> (ai_closed s \<longleftrightarrow> ai_closing s \<and> calls_in is_worker s = 0)
     \<and> (ai_closing s \<longrightarrow> calls_in is_waiting s = 0)
     \<and> pt_accepting_copies (ai_tracker s) = (\<not> ai_closing s) \<and> pt_shutdown_complete (ai_tracker s) = ai_closed s"

definition copies_ok :: "isolator \<Rightarrow> bool" where
  "copies_ok s \<longleftrightarrow> slots_ok s \<and> counters_ok s \<and> shutdown_ok s"

lemmas copies_defs = slots_ok_def counters_ok_def shutdown_ok_def Let_def

lemma calls_in_updates [simp]:
  "calls_in P (s\<lparr>ai_tracker := tr\<rparr>) = calls_in P s" "calls_in P (s\<lparr>ai_free := n\<rparr>) = calls_in P s"
  "calls_in P (s\<lparr>ai_closed := b\<rparr>) = calls_in P s" "calls_in P (s\<lparr>ai_closing := b\<rparr>) = calls_in P s"
  by (simp_all add: calls_in_def)

lemma set_phase_fields [simp]:
  "ai_tracker (set_phase t p s) = ai_tracker s" "ai_free (set_phase t p s) = ai_free s" "ai_closing (set_phase t p s) = ai_closing s"
  "ai_closed (set_phase t p s) = ai_closed s" "ai_max_concurrency (set_phase t p s) = ai_max_concurrency s"
  "ai_run_in_thread (set_phase t p s) = ai_run_in_thread s" "length (ai_calls (set_phase t p s)) = length (ai_calls s)"
  "ai_component (set_phase t p s) = ai_component s"
  by (simp_all add: set_phase_def)

lemma calls_in_set_phase:
  assumes "t < length (ai_calls s)"
  shows "calls_in P (set_phase t p s) + (if P (ai_calls s ! t) then 1 else 0) = calls_in P s + (if P p then 1 else 0)"
proof -
  from id_take_nth_drop [OF assms] obtain pre q post where calls: "ai_calls s = pre @ q # post" "length pre = t"
    using assms by (metis length_take min.absorb4)
  then show ?thesis by (auto simp: calls_in_def set_phase_def)
qed

lemma workers_bounded: "slots_ok s \<Longrightarrow> calls_in is_worker s \<le> ai_max_concurrency s"
proof -
  have "length (filter is_worker xs) \<le> length (filter holds_slot xs)" for xs
  proof (induction xs)
    case (Cons p xs)
    then show ?case by (cases p) auto
  qed simp
  from this [of "ai_calls s"] show "slots_ok s \<Longrightarrow> calls_in is_worker s \<le> ai_max_concurrency s"
    by (simp add: slots_ok_def calls_in_def)
qed

lemma granted_leaves_room:
  assumes "slots_ok s" "t < length (ai_calls s)" "ai_calls s ! t = GrantedSlot"
  shows "calls_in is_worker s < ai_max_concurrency s"
proof -
  have "slots_ok (set_phase t CopyRunning s)"
    using assms calls_in_set_phase [OF assms(2), of holds_slot CopyRunning] by (auto simp: slots_ok_def)
  from workers_bounded [OF this] calls_in_set_phase [OF assms(2), of is_worker CopyRunning] assms(3)
  show ?thesis by simp
qed

lemma new_isolator_ok: "mk_async_isolator d v c nm = Inr s \<Longrightarrow> copies_ok s"
  by (auto simp: mk_async_isolator_def res_iff Let_def copies_ok_def copies_defs new_copy_tracker_def calls_in_def)

text \<open>What the invariant says of the tracker.\<close>

definition same_counts :: "copy_tracker \<Rightarrow> copy_tracker \<Rightarrow> bool" where
  "same_counts t t' \<longleftrightarrow> pt_active_copies t = pt_active_copies t' \<and> pt_waiting_for_capacity t = pt_waiting_for_capacity t'
     \<and> pt_started_count t = pt_started_count t' \<and> pt_completed_count t = pt_completed_count t'
     \<and> pt_failure_count t = pt_failure_count t' \<and> pt_peak_active_copies t = pt_peak_active_copies t'"

definition same_flags :: "copy_tracker \<Rightarrow> copy_tracker \<Rightarrow> bool" where
  "same_flags t t' \<longleftrightarrow> pt_accepting_copies t = pt_accepting_copies t' \<and> pt_shutdown_complete t = pt_shutdown_complete t'"

lemma slots_ok_updates [simp]:
  "slots_ok (s\<lparr>ai_tracker := tr\<rparr>) = slots_ok s" "slots_ok (s\<lparr>ai_closed := b\<rparr>) = slots_ok s"
  "slots_ok (s\<lparr>ai_closing := b\<rparr>) = slots_ok s"
  by (simp_all add: slots_ok_def)

lemma counters_ok_updates [simp]:
  "counters_ok (s\<lparr>ai_closed := b\<rparr>) = counters_ok s" "counters_ok (s\<lparr>ai_closing := b\<rparr>) = counters_ok s"
  "counters_ok (s\<lparr>ai_free := n\<rparr>) = counters_ok s"
  by (simp_all add: counters_ok_def)

lemma counters_ok_same: "same_counts tr (ai_tracker s) \<Longrightarrow> counters_ok (s\<lparr>ai_tracker := tr\<rparr>) = counters_ok s"
  by (simp add: counters_ok_def same_counts_def Let_def)

lemma shutdown_ok_same: "same_flags tr (ai_tracker s) \<Longrightarrow> shutdown_ok (s\<lparr>ai_tracker := tr\<rparr>) = shutdown_ok s"
  by (simp add: shutdown_ok_def same_flags_def)

lemma copies_ok_same:
  "copies_ok s \<Longrightarrow> same_counts tr (ai_tracker s) \<Longrightarrow> same_flags tr (ai_tracker s) \<Longrightarrow> copies_ok (s\<lparr>ai_tracker := tr\<rparr>)"
  by (simp add: copies_ok_def counters_ok_same shutdown_ok_same)

lemma tracker_notes:
  "same_counts (record_copy_timeout w tr) tr" "same_flags (record_copy_timeout w tr) tr"
  "same_counts (copy_shutdown_started tr) tr" "same_counts (copy_shutdown_completed tr) tr"
  "same_counts (copy_shutdown_timed_out n tr) tr" "same_flags (copy_shutdown_timed_out n tr) tr"
  "same_flags (copy_started tr) tr"
  by (simp_all add: same_counts_def same_flags_def record_copy_timeout_def copy_shutdown_started_def copy_shutdown_completed_def
      copy_shutdown_timed_out_def copy_started_def Let_def)

text \<open>Closing when nothing is left.\<close>

lemma marked_ok:
  assumes "slots_ok s" "counters_ok s" "ai_closing s \<longrightarrow> calls_in is_waiting s = 0"
    "pt_accepting_copies (ai_tracker s) = (\<not> ai_closing s)" "pt_shutdown_complete (ai_tracker s) = ai_closed s"
    "ai_closed s \<longrightarrow> ai_closing s \<and> calls_in is_worker s = 0"
  shows "copies_ok (mark_closed_if_drained s)"
proof (cases "\<not> ai_closing s \<or> 0 < calls_in is_worker s \<or> ai_closed s")
  case True
  then have "ai_closed s \<longleftrightarrow> ai_closing s \<and> calls_in is_worker s = 0" using assms(6) by linarith
  with assms(3-5) have "shutdown_ok s" unfolding shutdown_ok_def by blast
  with True assms(1,2) show ?thesis by (simp add: copies_ok_def mark_closed_if_drained_def)
next
  case False
  let ?s = "s\<lparr>ai_closed := True, ai_tracker := copy_shutdown_completed (ai_tracker s)\<rparr>"
  have "counters_ok (s\<lparr>ai_closed := True\<rparr>)" using assms(2) by simp
  then have "counters_ok ?s" using counters_ok_same [of "copy_shutdown_completed (ai_tracker s)" "s\<lparr>ai_closed := True\<rparr>"] tracker_notes(4)
    by simp
  moreover have "shutdown_ok ?s" using False assms(3) by (simp add: shutdown_ok_def copy_shutdown_completed_def)
  ultimately show ?thesis using False assms(1) by (simp add: copies_ok_def mark_closed_if_drained_def)
qed

lemma marked_same: "copies_ok s \<Longrightarrow> mark_closed_if_drained s = s"
  unfolding copies_ok_def shutdown_ok_def mark_closed_if_drained_def by (metis gr_zeroI)

text \<open>The end of a wait.\<close>

definition one_less_waiting :: "copy_tracker \<Rightarrow> copy_tracker \<Rightarrow> bool" where
  "one_less_waiting t' t \<longleftrightarrow> pt_waiting_for_capacity t = pt_waiting_for_capacity t' + 1
     \<and> pt_active_copies t' = pt_active_copies t \<and> pt_started_count t' = pt_started_count t
     \<and> pt_completed_count t' = pt_completed_count t \<and> pt_failure_count t' = pt_failure_count t
     \<and> pt_peak_active_copies t' = pt_peak_active_copies t \<and> same_flags t' t"

lemma wait_counter:
  assumes "counters_ok s" "t < length (ai_calls s)" "awaits_slot (ai_calls s ! t)"
  obtains tr where "capacity_wait_finished x (ai_tracker s) = Inr tr" "one_less_waiting tr (ai_tracker s)"
proof -
  have "pt_waiting_for_capacity (ai_tracker s) \<noteq> 0"
    using assms calls_in_set_phase [OF assms(2), of awaits_slot CallOver] by (simp add: counters_ok_def Let_def)
  then have "\<exists>tr. capacity_wait_finished x (ai_tracker s) = Inr tr \<and> one_less_waiting tr (ai_tracker s)"
    by (simp add: capacity_wait_finished_def one_less_waiting_def same_flags_def)
  then show ?thesis using that by blast
qed

lemma wait_over:
  assumes ok: "copies_ok s" and t: "t < length (ai_calls s)" "awaits_slot (ai_calls s ! t)"
  shows "\<exists>s'. end_wait x t CallOver (s\<lparr>ai_free := ai_free s + (if holds_slot (ai_calls s ! t) then 1 else 0)\<rparr>) = Inr s' \<and> copies_ok s'"
proof -
  have slots: "slots_ok s" and counters: "counters_ok s" and shutdown: "shutdown_ok s" using ok by (simp_all add: copies_ok_def)
  obtain tr where tr: "capacity_wait_finished x (ai_tracker s) = Inr tr" and less: "one_less_waiting tr (ai_tracker s)"
    by (rule wait_counter [OF counters t])
  define n :: nat where "n = (if holds_slot (ai_calls s ! t) then 1 else 0)"
  define s1 where "s1 = set_phase t CallOver (s\<lparr>ai_free := ai_free s + n, ai_tracker := tr\<rparr>)"
  have fields: "ai_free s1 = ai_free s + n" "ai_tracker s1 = tr" "ai_closing s1 = ai_closing s" "ai_closed s1 = ai_closed s"
    "ai_max_concurrency s1 = ai_max_concurrency s" "ai_run_in_thread s1 = ai_run_in_thread s"
    by (simp_all add: s1_def)
  have number: "calls_in P s1 + (if P (ai_calls s ! t) then 1 else 0) = calls_in P s + (if P CallOver then 1 else 0)" for P
    using calls_in_set_phase [of t "s\<lparr>ai_free := ai_free s + n, ai_tracker := tr\<rparr>" P CallOver] t(1) by (simp add: s1_def)
  have same: "calls_in is_worker s1 = calls_in is_worker s" "calls_in is_waiting s1 \<le> calls_in is_waiting s"
    "calls_in awaits_slot s1 + 1 = calls_in awaits_slot s"
    using number [of is_worker] number [of is_waiting] number [of awaits_slot] t(2) by (cases "ai_calls s ! t"; simp)+
  have "calls_in holds_slot s1 + n = calls_in holds_slot s" using number [of holds_slot] by (simp add: n_def)
  moreover have "ai_calls s \<noteq> []" using t(1) by auto
  ultimately have "slots_ok s1" using slots by (simp add: slots_ok_def fields)
  moreover have "counters_ok s1"
    using counters less same by (simp add: counters_ok_def Let_def one_less_waiting_def fields)
  moreover have "shutdown_ok s1"
    using shutdown less same by (auto simp: shutdown_ok_def one_less_waiting_def same_flags_def fields)
  ultimately show ?thesis unfolding n_def [symmetric] by (simp add: end_wait_def tr copies_ok_def s1_def)
qed

lemma copy_started_ok:
  assumes ok: "copies_ok s" and t: "t < length (ai_calls s)" "ai_calls s ! t = GrantedSlot" and "\<not> ai_closing s"
  shows "\<exists>s'. start_copy x t s = Inr s' \<and> copies_ok s' \<and> t < length (ai_calls s') \<and> ai_calls s' ! t = CopyRunning"
proof -
  have slots: "slots_ok s" and counters: "counters_ok s" and shutdown: "shutdown_ok s" using ok by (simp_all add: copies_ok_def)
  obtain tr where tr: "capacity_wait_finished x (ai_tracker s) = Inr tr" and less: "one_less_waiting tr (ai_tracker s)"
    by (rule wait_counter [OF counters t(1)]) (simp add: t(2))
  let ?s = "(set_phase t CopyRunning (s\<lparr>ai_tracker := tr\<rparr>))\<lparr>ai_tracker := copy_started tr\<rparr>"
  have number: "calls_in P ?s + (if P GrantedSlot then 1 else 0) = calls_in P s + (if P CopyRunning then 1 else 0)" for P
    using calls_in_set_phase [of t "s\<lparr>ai_tracker := tr\<rparr>" P CopyRunning] t by simp
  have same: "calls_in is_worker ?s = calls_in is_worker s + 1" "calls_in is_waiting ?s = calls_in is_waiting s"
    "calls_in awaits_slot ?s + 1 = calls_in awaits_slot s" "calls_in holds_slot ?s = calls_in holds_slot s"
    using number [of is_worker] number [of is_waiting] number [of awaits_slot] number [of holds_slot] by simp_all
  have "ai_calls s \<noteq> []" using t(1) by auto
  then have "slots_ok ?s" using slots same by (simp add: slots_ok_def)
  moreover have "counters_ok ?s"
    using counters less same granted_leaves_room [OF slots t]
    by (simp add: counters_ok_def Let_def one_less_waiting_def copy_started_def)
  moreover have "shutdown_ok ?s"
    using shutdown less same assms(4) by (simp add: shutdown_ok_def one_less_waiting_def same_flags_def copy_started_def Let_def)
  moreover have "ai_calls ?s ! t = CopyRunning" "t < length (ai_calls ?s)" using t(1) by (simp_all add: set_phase_def)
  ultimately show ?thesis by (simp add: start_copy_def end_wait_def tr copies_ok_def)
qed

definition one_less_active :: "copy_tracker \<Rightarrow> copy_tracker \<Rightarrow> bool" where
  "one_less_active t' t \<longleftrightarrow> pt_active_copies t = pt_active_copies t' + 1
     \<and> pt_waiting_for_capacity t' = pt_waiting_for_capacity t \<and> pt_started_count t' = pt_started_count t
     \<and> pt_completed_count t' + pt_failure_count t' = pt_completed_count t + pt_failure_count t + 1
     \<and> pt_peak_active_copies t' = pt_peak_active_copies t \<and> same_flags t' t"

lemma copy_finished_counts:
  assumes "pt_active_copies t \<noteq> 0"
  obtains tr where "copy_finished x failed t = Inr tr" "one_less_active tr t"
proof -
  have "\<exists>tr. copy_finished x failed t = Inr tr \<and> one_less_active tr t"
    using assms by (cases failed) (simp_all add: copy_finished_def Let_def one_less_active_def same_flags_def)
  then show ?thesis using that by blast
qed

lemma slot_released_ok:
  assumes ok: "copies_ok s" and t: "t < length (ai_calls s)" "is_worker (ai_calls s ! t)"
  shows "\<exists>s'. release_slot x failed t s = Inr s' \<and> copies_ok s' \<and> ai_closing s' = ai_closing s
    \<and> ai_calls s' = (ai_calls s)[t := CallOver]"
proof -
  have slots: "slots_ok s" and counters: "counters_ok s" and shutdown: "shutdown_ok s" using ok by (simp_all add: copies_ok_def)
  have worker: "0 < calls_in is_worker s" using calls_in_set_phase [OF t(1), of is_worker CallOver] t(2) by simp
  then have "pt_active_copies (ai_tracker s) \<noteq> 0" using counters by (simp add: counters_ok_def Let_def)
  then obtain tr where tr: "copy_finished x failed (ai_tracker s) = Inr tr" and less: "one_less_active tr (ai_tracker s)"
    by (rule copy_finished_counts)
  let ?s = "set_phase t CallOver (s\<lparr>ai_tracker := tr, ai_free := ai_free s + 1\<rparr>)"
  have number: "calls_in P ?s + (if P (ai_calls s ! t) then 1 else 0) = calls_in P s + (if P CallOver then 1 else 0)" for P
    using calls_in_set_phase [of t "s\<lparr>ai_tracker := tr, ai_free := ai_free s + 1\<rparr>" P CallOver] t(1) by simp
  have same: "calls_in is_worker ?s + 1 = calls_in is_worker s" "calls_in is_waiting ?s = calls_in is_waiting s"
    "calls_in awaits_slot ?s = calls_in awaits_slot s" "calls_in holds_slot ?s + 1 = calls_in holds_slot s"
    using number [of is_worker] number [of is_waiting] number [of awaits_slot] number [of holds_slot] t(2)
    by (cases "ai_calls s ! t"; simp)+
  have "ai_calls s \<noteq> []" using t(1) by auto
  then have "slots_ok ?s" using slots same by (simp add: slots_ok_def)
  moreover have "counters_ok ?s" using counters less same by (simp add: counters_ok_def Let_def one_less_active_def)
  moreover have "\<not> ai_closed s" using shutdown worker by (simp add: shutdown_ok_def)
  ultimately have "copies_ok (mark_closed_if_drained ?s)"
    using shutdown less same by (intro marked_ok) (simp_all add: shutdown_ok_def one_less_active_def same_flags_def)
  moreover have "ai_closing (mark_closed_if_drained ?s) = ai_closing s" "ai_calls (mark_closed_if_drained ?s) = (ai_calls s)[t := CallOver]"
    by (simp_all add: mark_closed_if_drained_def set_phase_def)
  ultimately show ?thesis by (simp add: release_slot_def tr)
qed

lemma set_phase_ok:
  assumes "copies_ok s" "t < length (ai_calls s)" "is_worker (ai_calls s ! t)" "is_worker p"
  shows "copies_ok (set_phase t p s)"
proof -
  have "calls_in P (set_phase t p s) = calls_in P s" if "P \<in> {is_worker, is_waiting, awaits_slot, holds_slot}" for P
    using calls_in_set_phase [OF assms(2), of P p] assms(3,4) that by (cases "ai_calls s ! t"; cases p) auto
  moreover have "ai_calls s \<noteq> []" using assms(2) by auto
  ultimately show ?thesis using assms(1) by (simp add: copies_ok_def copies_defs)
qed

lemma grant_ok:
  assumes ok: "copies_ok s" and t: "t < length (ai_calls s)" "ai_calls s ! t = WaitingSlot" and free: "0 < ai_free s"
  shows "copies_ok (grant_slot t s)"
proof -
  have number: "calls_in P (grant_slot t s) + (if P WaitingSlot then 1 else 0) = calls_in P s + (if P GrantedSlot then 1 else 0)" for P
    using calls_in_set_phase [of t "s\<lparr>ai_free := ai_free s - 1\<rparr>" P GrantedSlot] t by (simp add: grant_slot_def)
  have "ai_calls s \<noteq> []" using t(1) by auto
  then show ?thesis
    using number [of is_worker] number [of is_waiting] number [of awaits_slot] number [of holds_slot] ok free
    by (simp add: copies_ok_def copies_defs grant_slot_def)
qed

lemma begin_wait_ok:
  assumes ok: "copies_ok s" and accepting: "ai_run_in_thread s" "ensure_accepting s = Inr ()"
  shows "copies_ok (begin_wait s)"
proof -
  have number: "calls_in P (begin_wait s) = calls_in P s + (if P WaitingSlot then 1 else 0)" for P
    by (simp add: calls_in_def begin_wait_def)
  have "\<not> ai_closing s" "\<not> ai_closed s" using accepting by (auto simp: ensure_accepting_def split: if_splits)
  then show ?thesis
    using number [of is_worker] number [of is_waiting] number [of awaits_slot] number [of holds_slot] ok accepting(1)
    by (simp add: copies_ok_def copies_defs begin_wait_def capacity_wait_started_def)
qed

lemma begin_shutdown_ok:
  assumes ok: "copies_ok s"
  shows "copies_ok (begin_shutdown s)"
proof (cases "ai_closed s \<or> ai_closing s")
  case True
  then show ?thesis using ok by (simp add: begin_shutdown_def)
next
  case False
  let ?f = "\<lambda>p. if p = WaitingSlot then CancelledSlot else p"
  let ?s = "s\<lparr>ai_closing := True, ai_tracker := copy_shutdown_started (ai_tracker s), ai_calls := map ?f (ai_calls s)\<rparr>"
  have "length (filter P (map ?f xs)) = length (filter P xs)" if "P WaitingSlot = P CancelledSlot" for P xs
    using that by (induction xs) auto
  then have same: "calls_in is_worker ?s = calls_in is_worker s" "calls_in holds_slot ?s = calls_in holds_slot s"
    "calls_in awaits_slot ?s = calls_in awaits_slot s"
    by (simp_all add: calls_in_def)
  have "\<not> is_waiting (?f p)" for p by (cases p) simp_all
  then have "length (filter is_waiting (map ?f xs)) = 0" for xs by (auto simp: filter_empty_conv simp del: filter_map)
  then have none: "calls_in is_waiting ?s = 0" by (simp add: calls_in_def)
  have "copies_ok (mark_closed_if_drained ?s)"
    using ok False same none
    by (intro marked_ok) (simp_all add: copies_ok_def copies_defs copy_shutdown_started_def)
  then show ?thesis using False by (simp add: begin_shutdown_def)
qed

lemma inline_ok:
  assumes ok: "copies_ok s" and inline: "\<not> ai_run_in_thread s"
  shows "\<exists>s'. inline_copy x failed s = Inr s' \<and> copies_ok s'"
proof -
  have none: "calls_in P s = 0" for P using ok inline by (simp add: copies_ok_def slots_ok_def calls_in_def)
  let ?t = "copy_started (ai_tracker s)"
  obtain tr where tr: "copy_finished x failed ?t = Inr tr" and less: "one_less_active tr ?t"
    by (rule copy_finished_counts [of ?t]) (simp_all add: copy_started_def Let_def)
  have "copies_ok (s\<lparr>ai_tracker := tr\<rparr>)"
    using ok less none inline
    by (simp add: copies_ok_def copies_defs one_less_active_def copy_started_def same_flags_def)
  then show ?thesis by (simp add: inline_copy_def tr)
qed

text \<open>Every enabled step succeeds and keeps the invariant.\<close>

lemma start_failed_ok:
  assumes "copies_ok s" "t < length (ai_calls s)" "ai_calls s ! t = GrantedSlot" "\<not> ai_closing s"
  shows "\<exists>s'. start_failed x y t s = Inr s' \<and> copies_ok s'"
proof -
  obtain s1 where started: "start_copy x t s = Inr s1" and ok: "copies_ok s1" "t < length (ai_calls s1)" "ai_calls s1 ! t = CopyRunning"
    using copy_started_ok [OF assms] by blast
  then have "is_worker (ai_calls s1 ! t)" by simp
  from slot_released_ok [OF ok(1,2) this, of y True] show ?thesis by (auto simp: start_failed_def started)
qed

lemma end_shutdown_wait_ok: "copies_ok s \<Longrightarrow> copies_ok (snd (end_shutdown_wait timeout s))"
  by (simp add: end_shutdown_wait_def marked_same copies_ok_same tracker_notes split: option.split)

lemma note_late_ok: "copies_ok s \<Longrightarrow> copies_ok (note_late s)"
  by (simp add: note_late_def copies_ok_same tracker_notes)

lemma leave_copy_ok:
  assumes "copies_ok s" "t < length (ai_calls s)" "ai_calls s ! t = CopyRunning"
  shows "copies_ok (leave_copy late t s)"
proof -
  let ?s = "if late then s\<lparr>ai_tracker := record_copy_timeout False (ai_tracker s)\<rparr> else s"
  have "copies_ok ?s" using assms(1) by (simp add: copies_ok_same tracker_notes)
  then show ?thesis unfolding leave_copy_def by (rule set_phase_ok) (use assms in simp_all)
qed

lemma time_out_wait_ok:
  assumes "copies_ok s" "t < length (ai_calls s)" "ai_calls s ! t = WaitingSlot"
  shows "\<exists>s'. time_out_wait x t s = Inr s' \<and> copies_ok s'"
proof -
  let ?s = "s\<lparr>ai_tracker := record_copy_timeout True (ai_tracker s)\<rparr>"
  have "copies_ok ?s" using assms(1) by (simp add: copies_ok_same tracker_notes)
  from wait_over [OF this, of t x] assms(2,3) show ?thesis by (simp add: time_out_wait_def)
qed

lemma wait_abandoned_ok:
  assumes "copies_ok s" "t < length (ai_calls s)" "ai_calls s ! t \<in> {WaitingSlot, CancelledSlot}"
  shows "\<exists>s'. end_wait x t CallOver s = Inr s' \<and> copies_ok s'"
  using wait_over [OF assms(1,2), of x] assms(3) by auto

lemma give_back_ok:
  assumes "copies_ok s" "t < length (ai_calls s)" "ai_calls s ! t = GrantedSlot"
  shows "\<exists>s'. give_back x t s = Inr s' \<and> copies_ok s'"
  using wait_over [OF assms(1,2), of x] assms(3) by (simp add: give_back_def)

lemma enabled_succeeds:
  assumes "copies_ok s" "copy_enabled s e"
  shows "\<exists>s'. copy_result s e = Inr s' \<and> copies_ok s'"
proof (cases e)
  case WaitBegan
  with assms begin_wait_ok show ?thesis by simp
next
  case (SlotGranted t)
  with assms grant_ok show ?thesis by simp
next
  case (WaitTimedOut t x)
  with assms time_out_wait_ok show ?thesis by simp
next
  case (WaitAbandoned t x)
  with assms give_back_ok [of s t x] wait_abandoned_ok [of s t x] show ?thesis by auto
next
  case (CopyStarted t x)
  with assms copy_started_ok [of s t x] show ?thesis by auto
next
  case (CopyStartFailed t x y)
  with assms start_failed_ok show ?thesis by simp
next
  case (GrantRefused t x)
  with assms give_back_ok show ?thesis by simp
next
  case (WaitCancelled t x)
  with assms wait_abandoned_ok [of s t x] show ?thesis by simp
next
  case (CallerLeft t late)
  with assms leave_copy_ok show ?thesis by simp
next
  case (ThreadEnded t failed)
  then have "is_worker (ai_calls s ! t)" using assms(2) by (cases "ai_calls s ! t") simp_all
  with ThreadEnded assms set_phase_ok [of s t "CopyEnded failed"] show ?thesis by simp
next
  case (SlotReleased t x)
  then have "is_worker (ai_calls s ! t)" using assms(2) by auto
  with SlotReleased assms slot_released_ok [of s t x] show ?thesis by auto
next
  case LateNoticed
  with assms note_late_ok show ?thesis by simp
next
  case (CopiedInline x failed)
  with assms inline_ok show ?thesis by simp
next
  case ShutdownBegan
  with assms begin_shutdown_ok show ?thesis by simp
next
  case (ShutdownWaitEnded timeout)
  with assms end_shutdown_wait_ok show ?thesis by simp
qed

interpretation copying: machine copy_step copies_ok
  by unfold_locales (use enabled_succeeds in \<open>fastforce simp: copy_step_def\<close>)

lemma reachable_copies:
  assumes "mk_async_isolator d v c nm = Inr s0" "run_of copy_step s0 es s"
  shows "copies_ok s"
  by (rule copying.run_inv [OF assms(2) new_isolator_ok [OF assms(1)]])

text \<open>
  C26: However calls, threads, deadlines, cancellations and the shutdown interleave, no slot is lost
  or handed out twice: the free slots and the calls that hold one are together the configured
  concurrency, a slot stays taken until its thread has really ended even when the caller has left,
  and the health counters are the numbers of threads and of waiting calls; so no step ever raises
  the error of a counter that would become negative.
\<close>

theorem copy_slots_conserved:
  assumes "mk_async_isolator d v c nm = Inr s0" "run_of copy_step s0 es s"
  shows "ai_free s + calls_in holds_slot s = ai_max_concurrency s \<and> calls_in is_worker s \<le> ai_max_concurrency s
    \<and> ch_active_copies (copy_tracker_snapshot (ai_tracker s)) = calls_in is_worker s
    \<and> ch_waiting_for_capacity (copy_tracker_snapshot (ai_tracker s)) = calls_in awaits_slot s
    \<and> ch_peak_active_copies (copy_tracker_snapshot (ai_tracker s)) \<le> ai_max_concurrency s
    \<and> (\<forall>e. copy_enabled s e \<longrightarrow> (\<exists>s'. copy_result s e = Inr s'))"
proof -
  note ok = reachable_copies [OF assms]
  then have "\<exists>s'. copy_result s e = Inr s'" if "copy_enabled s e" for e using enabled_succeeds [OF ok that] by blast
  moreover have "calls_in is_worker s \<le> ai_max_concurrency s" using ok workers_bounded by (simp add: copies_ok_def)
  ultimately show ?thesis using ok by (simp add: copies_ok_def slots_ok_def counters_ok_def copy_tracker_snapshot_def Let_def)
qed

subsection \<open>Shutdown\<close>

text \<open>What the threads still have to do: end, and have their slots given back.\<close>

fun phase_work :: "copy_phase \<Rightarrow> nat" where
  "phase_work CopyRunning = 2"
| "phase_work CopyAbandoned = 2"
| "phase_work (CopyEnded failed) = 1"
| "phase_work _ = 0"

definition shutdown_work :: "isolator \<Rightarrow> nat" where
  "shutdown_work s = sum_list (map phase_work (ai_calls s))"

lemma work_less:
  assumes "t < length xs" "phase_work p < phase_work (xs ! t)"
  shows "sum_list (map phase_work (xs[t := p])) < sum_list (map phase_work xs)"
  using assms by (induction xs arbitrary: t) (auto simp: nth_Cons' gr0_conv_Suc split: nat.splits)

lemma worker_at: "0 < calls_in is_worker s \<Longrightarrow> \<exists>t < length (ai_calls s). is_worker (ai_calls s ! t)"
  unfolding calls_in_def by (metis filter_False in_set_conv_nth length_0_conv less_numeral_extra(3))

fun finishing :: "copy_event \<Rightarrow> bool" where
  "finishing (ThreadEnded t failed) = True"
| "finishing (SlotReleased t x) = True"
| "finishing _ = False"

lemma shutdown_progress:
  assumes ok: "copies_ok s" and open': "ai_closing s" "\<not> ai_closed s"
  obtains e s' where "copy_step s e s'" "finishing e" "shutdown_work s' < shutdown_work s" "ai_closing s'"
proof -
  have "0 < calls_in is_worker s" using ok open' by (auto simp: copies_ok_def shutdown_ok_def)
  from worker_at [OF this] obtain t where t: "t < length (ai_calls s)" "is_worker (ai_calls s ! t)" by blast
  show ?thesis
  proof (cases "running (ai_calls s ! t)")
    case True
    let ?s = "set_phase t (CopyEnded False) s"
    have "phase_work (CopyEnded False) < phase_work (ai_calls s ! t)" using True by (cases "ai_calls s ! t") simp_all
    then have "shutdown_work ?s < shutdown_work s" using work_less [OF t(1)] by (simp add: shutdown_work_def set_phase_def)
    moreover have "copy_step s (ThreadEnded t False) ?s" using t(1) True by (simp add: copy_step_def)
    ultimately show ?thesis using open'(1) by (intro that [of "ThreadEnded t False" ?s]) simp_all
  next
    case False
    with t(2) obtain failed where ended: "ai_calls s ! t = CopyEnded failed" by (cases "ai_calls s ! t") simp_all
    obtain s' where s': "release_slot 0 (ai_calls s ! t = CopyEnded True) t s = Inr s'" "ai_closing s' = ai_closing s"
      "ai_calls s' = (ai_calls s)[t := CallOver]"
      using slot_released_ok [OF ok t] by blast
    have "shutdown_work s' < shutdown_work s" using work_less [OF t(1), of CallOver] ended by (simp add: shutdown_work_def s'(3))
    moreover have "copy_step s (SlotReleased t 0) s'" using t(1) ended s'(1) by (simp add: copy_step_def)
    ultimately show ?thesis using open'(1) s'(2) by (intro that [of "SlotReleased t 0" s']) simp_all
  qed
qed

lemma shutdown_reaches_closed:
  "copies_ok s \<Longrightarrow> ai_closing s \<Longrightarrow> \<exists>es s'. run_of copy_step s es s' \<and> list_all finishing es \<and> ai_closed s'"
proof (induction "shutdown_work s" arbitrary: s rule: less_induct)
  case less
  show ?case
  proof (cases "ai_closed s")
    case True
    then show ?thesis by (intro exI [of _ "[]"] exI [of _ s]) (simp add: run_nil)
  next
    case False
    obtain e s1 where step: "copy_step s e s1" "finishing e" "shutdown_work s1 < shutdown_work s" "ai_closing s1"
      by (rule shutdown_progress [OF less.prems False])
    have "copies_ok s1" by (rule copying.step_inv [OF less.prems(1) step(1)])
    from less.hyps [OF step(3) this step(4)] obtain es s' where
      "run_of copy_step s1 es s'" "list_all finishing es" "ai_closed s'" by blast
    with run_cons [of copy_step s e s1 es s'] step(1,2) show ?thesis by (intro exI [of _ "e # es"] exI [of _ s']) simp
  qed
qed

text \<open>
  C27: Shutdown is exact. Once it has begun, no call waits for a slot and none is accepted; the
  isolator counts as closed exactly when no thread is left, and so does its health report; and
  however late, it closes by nothing but the threads ending and giving back their slots. While
  it is not closed there are threads to wait for.
\<close>

theorem copy_shutdown_exact:
  assumes "mk_async_isolator d v c nm = Inr s0" "run_of copy_step s0 es s" "ai_closing s"
  shows "(ai_closed s \<longleftrightarrow> calls_in is_worker s = 0) \<and> ch_shutdown_complete (copy_tracker_snapshot (ai_tracker s)) = ai_closed s
    \<and> ensure_accepting s = Inl (PayloadCopySubsystemClosedError (ai_component s)) \<and> calls_in is_waiting s = 0
    \<and> (\<exists>es' s'. run_of copy_step s es' s' \<and> list_all finishing es' \<and> ai_closed s')"
proof -
  note ok = reachable_copies [OF assms(1,2)]
  then have "shutdown_ok s" by (simp add: copies_ok_def)
  moreover have "ch_shutdown_complete (copy_tracker_snapshot (ai_tracker s)) = pt_shutdown_complete (ai_tracker s)"
    by (simp add: copy_tracker_snapshot_def)
  moreover have "ensure_accepting s = Inl (PayloadCopySubsystemClosedError (ai_component s))"
    using assms(3) by (simp add: ensure_accepting_def)
  ultimately show ?thesis
    using shutdown_reaches_closed [OF ok assms(3)] assms(3) unfolding shutdown_ok_def by blast
qed

subsection \<open>Two copies and a shutdown\<close>

text \<open>One slot: the second call waits, is cancelled by the shutdown, and the thread ends after its caller has left.\<close>

definition fixture_copier :: isolator where
  "fixture_copier = \<lparr>ai_component = ''builder'', ai_run_in_thread = True, ai_max_concurrency = 1, ai_free = 1, ai_calls = [],
     ai_closing = False, ai_closed = False, ai_tracker = new_copy_tracker True 1\<rparr>"

definition fixture_copy_events :: "copy_event list" where
  "fixture_copy_events = [WaitBegan, SlotGranted 0, CopyStarted 0 1, WaitBegan, CallerLeft 0 True, ShutdownBegan, WaitCancelled 1 1]"

fun copy_states :: "isolator \<Rightarrow> copy_event list \<Rightarrow> py_error + isolator" where
  "copy_states s [] = Inr s"
| "copy_states s (e # es) = res_bind (copy_result s e) (\<lambda>s'. copy_states s' es)"

fun copy_guards :: "isolator \<Rightarrow> copy_event list \<Rightarrow> bool" where
  "copy_guards s [] = True"
| "copy_guards s (e # es) = (copy_enabled s e \<and> (case copy_result s e of Inl x \<Rightarrow> False | Inr s' \<Rightarrow> copy_guards s' es))"

lemma run_of_guards: "copy_guards s es \<Longrightarrow> \<exists>s'. copy_states s es = Inr s' \<and> run_of copy_step s es s'"
proof (induction es arbitrary: s)
  case (Cons e es)
  then obtain s1 where s1: "copy_result s e = Inr s1" "copy_guards s1 es" "copy_enabled s e" by (auto split: sum.splits)
  from Cons.IH [OF s1(2)] obtain s' where "copy_states s1 es = Inr s'" "run_of copy_step s1 es s'" by blast
  moreover from s1 have "copy_step s e s1" by (simp add: copy_step_def)
  ultimately show ?case using s1(1) by (intro exI [of _ s'] conjI run_cons [of copy_step s e s1]) simp_all
qed (simp add: run_nil)

lemma fixture_copier_made: "mk_async_isolator True PyNone (PyInt 1) ''builder'' = Inr fixture_copier"
  by code_simp

lemma fixture_copy_runs:
  "copy_guards fixture_copier fixture_copy_events"
  "(case copy_states fixture_copier fixture_copy_events of
      Inr s \<Rightarrow> ai_closing s \<and> \<not> ai_closed s \<and> ai_free s = 0 \<and> ai_calls s = [CopyAbandoned, CallOver] | Inl e \<Rightarrow> False) = True"
  by code_simp+

lemma fixture_copy_state:
  obtains s where "run_of copy_step fixture_copier fixture_copy_events s" "ai_closing s" "\<not> ai_closed s" "ai_free s = 0"
proof -
  obtain s where "copy_states fixture_copier fixture_copy_events = Inr s" "run_of copy_step fixture_copier fixture_copy_events s"
    using run_of_guards [OF fixture_copy_runs(1)] by blast
  with fixture_copy_runs(2) show ?thesis by (intro that [of s]) simp_all
qed

theorem copy_slots_conserved_witness:
  "\<exists>s. run_of copy_step fixture_copier fixture_copy_events s \<and> ai_free s = 0 \<and> calls_in holds_slot s = ai_max_concurrency s"
proof -
  obtain s where s: "run_of copy_step fixture_copier fixture_copy_events s" "ai_free s = 0" by (rule fixture_copy_state)
  from copy_slots_conserved [OF fixture_copier_made s(1)] have "ai_free s + calls_in holds_slot s = ai_max_concurrency s" by (rule conjunct1)
  with s show ?thesis by (intro exI [of _ s]) simp
qed

theorem copy_shutdown_exact_witness:
  "\<exists>s es' s'. run_of copy_step fixture_copier fixture_copy_events s \<and> \<not> ai_closed s \<and> calls_in is_worker s \<noteq> 0
     \<and> run_of copy_step s es' s' \<and> ai_closed s'"
proof -
  obtain s where s: "run_of copy_step fixture_copier fixture_copy_events s" "ai_closing s" "\<not> ai_closed s" by (rule fixture_copy_state)
  from copy_shutdown_exact [OF fixture_copier_made s(1,2)] s show ?thesis by blast
qed

end
