(* ===== verification/Sync_Facade.thy ===== *)
theory Sync_Facade
  imports Operational Publisher Health
begin

section \<open>The synchronous facade (sync.py)\<close>

text \<open>
  The facade runs the asynchronous builder on an event loop of its own thread. A blocking call
  schedules one operation and waits for it; a submission is scheduled and counted until its
  future is done and the callback of the future has run, and is refused when too many are
  counted. The counters change under one condition, so each operation on them is a step. A
  future is a number; \<open>SubDone\<close> is a future with a result, or cancelled, whose callback has not run.
\<close>

datatype submission = SubActive | SubDone | SubGone

datatype close_phase = NotClosed | Draining "nat list" | ClosingBuilder | CloseOver

record facade =
  fa_close_builder :: bool
  fa_shutdown_timeout :: pynum
  fa_limit :: nat
  fa_submissions :: "submission list"
  fa_accepting :: bool
  fa_closing :: bool
  fa_closed :: bool
  fa_phase :: close_phase

definition mk_facade :: "bool \<Rightarrow> pynum \<Rightarrow> int \<Rightarrow> arg_error + facade" where
  "mk_facade close_builder shutdown_timeout limit =
     (if not_positive shutdown_timeout then Inl (ValueError ''shutdown_timeout_seconds must be positive'')
      else if limit < 1 then Inl (ValueError ''max_pending_submissions must be at least 1'')
      else res_bind (to_double shutdown_timeout) (\<lambda>t.
        Inr \<lparr>fa_close_builder = close_builder, fa_shutdown_timeout = NFloat t, fa_limit = nat limit, fa_submissions = [],
             fa_accepting = True, fa_closing = False, fa_closed = False, fa_phase = NotClosed\<rparr>))"

definition pending_submissions :: "facade \<Rightarrow> nat" where
  "pending_submissions fa = length (filter (\<lambda>x. x \<noteq> SubGone) (fa_submissions fa))"

definition facade_shut :: "facade \<Rightarrow> bool" where
  "facade_shut fa \<longleftrightarrow> fa_closed fa \<or> fa_closing fa"

definition facade_closed_error :: py_error where
  "facade_closed_error = RuntimeError ''SyncSnapshotBuilder is closed''"

subsection \<open>Blocking calls\<close>

definition submit_blocking :: "facade \<Rightarrow> ('s, 'a) act \<Rightarrow> ('s, 'a) act" where
  "submit_blocking fa m = (if facade_shut fa then throw facade_closed_error else m)"

definition sync_build ::
  "facade \<Rightarrow> app \<Rightarrow> 's builder \<Rightarrow> (fetch_context \<Rightarrow> 's resolver) \<Rightarrow> resource_key list \<Rightarrow> bool \<Rightarrow> pynum option \<Rightarrow> metadata
    \<Rightarrow> string option \<Rightarrow> ('s world, delivery) act" where
  "sync_build fa ap bl resolve keys strict deadline md sid =
     submit_blocking fa (builder_build ap bl resolve keys strict deadline md sid)"

definition sync_build_request ::
  "facade \<Rightarrow> app \<Rightarrow> 's builder \<Rightarrow> (fetch_context \<Rightarrow> 's resolver) \<Rightarrow> snapshot_request \<Rightarrow> pynum option \<Rightarrow> metadata
    \<Rightarrow> string option \<Rightarrow> ('s world, delivery) act" where
  "sync_build_request fa ap bl resolve request deadline md sid =
     submit_blocking fa (build_request ap bl resolve request deadline md sid)"

definition sync_try_build_request ::
  "facade \<Rightarrow> app \<Rightarrow> 's builder \<Rightarrow> (fetch_context \<Rightarrow> 's resolver) \<Rightarrow> snapshot_request \<Rightarrow> pynum option \<Rightarrow> metadata
    \<Rightarrow> string option \<Rightarrow> degradation_policy \<Rightarrow> ('s world, snapshot_result) act" where
  "sync_try_build_request fa ap bl resolve request deadline md sid p =
     submit_blocking fa (try_build_request ap bl resolve request deadline md sid p)"

definition sync_try_build_requests ::
  "facade \<Rightarrow> app \<Rightarrow> 's builder \<Rightarrow> (fetch_context \<Rightarrow> 's resolver) \<Rightarrow> snapshot_request list \<Rightarrow> pynum option \<Rightarrow> metadata
    \<Rightarrow> string option \<Rightarrow> degradation_policy \<Rightarrow> pyval option \<Rightarrow> ('s world, snapshot_result list) act" where
  "sync_try_build_requests fa ap bl resolve requests deadline md prefix_id p max_concurrent =
     submit_blocking fa (try_build_requests ap bl resolve requests deadline md prefix_id p max_concurrent)"

definition sync_health :: "facade \<Rightarrow> builder_health \<Rightarrow> py_error + builder_health" where
  "sync_health fa health =
     (if facade_shut fa then Inl facade_closed_error
      else Inr (health\<lparr>bh_pending_submissions := int (pending_submissions fa), bh_max_pending_submissions := Some (int (fa_limit fa))\<rparr>))"

definition sync_publish ::
  "facade \<Rightarrow> ('s \<Rightarrow> 's) \<Rightarrow> 's publisher \<Rightarrow> (resource_key \<Rightarrow> string) \<Rightarrow> pyfloat \<Rightarrow> resource_key \<Rightarrow> pyval \<Rightarrow> string
    \<Rightarrow> pynum option \<Rightarrow> metadata \<Rightarrow> bool \<Rightarrow> bool \<Rightarrow> ('s pub_state, publish_result) act" where
  "sync_publish fa env pb fresh now k v source observed md force replace_equal =
     submit_blocking fa (publish env pb fresh now k v source observed md force replace_equal)"

definition sync_publish_update ::
  "facade \<Rightarrow> ('s \<Rightarrow> 's) \<Rightarrow> 's publisher \<Rightarrow> (resource_key \<Rightarrow> string) \<Rightarrow> pyfloat \<Rightarrow> resource_update \<Rightarrow> bool \<Rightarrow> bool
    \<Rightarrow> ('s pub_state, publish_result) act" where
  "sync_publish_update fa env pb fresh now u force replace_equal =
     submit_blocking fa (publish_update env pb fresh now u force replace_equal)"

definition sync_publish_many ::
  "facade \<Rightarrow> ('s \<Rightarrow> 's) \<Rightarrow> 's publisher \<Rightarrow> (resource_key \<Rightarrow> string) \<Rightarrow> pyfloat \<Rightarrow> resource_update list \<Rightarrow> bool \<Rightarrow> bool
    \<Rightarrow> ('s pub_state, (resource_key, publish_result) odict) act" where
  "sync_publish_many fa env pb fresh now items force replace_equal =
     submit_blocking fa (publish_many env pb fresh now items force replace_equal)"

definition sync_invalidate :: "facade \<Rightarrow> 's publisher \<Rightarrow> resource_key \<Rightarrow> string \<Rightarrow> ('s pub_state, unit) act" where
  "sync_invalidate fa pb k reason = submit_blocking fa (pub_invalidate pb k reason)"

definition sync_invalidate_many :: "facade \<Rightarrow> 's publisher \<Rightarrow> resource_key list \<Rightarrow> string \<Rightarrow> ('s pub_state, unit) act" where
  "sync_invalidate_many fa pb keys reason = submit_blocking fa (pub_invalidate_many pb keys reason)"

text \<open>A session of the facade has a flag of its own beside that of the session.\<close>

record sync_session =
  sy_session :: session
  sy_closed :: bool

definition sync_open_session ::
  "facade \<Rightarrow> app \<Rightarrow> pynum option \<Rightarrow> metadata \<Rightarrow> string option \<Rightarrow> ('s world, sync_session) act" where
  "sync_open_session fa ap deadline md sid =
     bind_act (submit_blocking fa (open_session ap deadline md sid)) (\<lambda>ss. ret \<lparr>sy_session = ss, sy_closed = False\<rparr>)"

definition sync_session_closed :: "sync_session \<Rightarrow> bool" where
  "sync_session_closed sy \<longleftrightarrow> sy_closed sy \<or> ss_closed (sy_session sy)"

definition sync_session_call :: "facade \<Rightarrow> ('s session_state, 'a) act \<Rightarrow> (sync_session \<times> 's world, 'a) act" where
  "sync_session_call fa m =
     (\<lambda>(sy, w).
        if sync_session_closed sy then (Inl (RuntimeError ''SyncSnapshotSession is closed''), (sy, w))
        else case submit_blocking fa m (sy_session sy, w) of (r, ss, w') \<Rightarrow> (r, (sy\<lparr>sy_session := ss\<rparr>, w')))"

definition sync_resolve ::
  "facade \<Rightarrow> app \<Rightarrow> 's builder \<Rightarrow> 's resolver \<Rightarrow> resource_key list \<Rightarrow> bool \<Rightarrow> bool \<Rightarrow> (sync_session \<times> 's world, delivery) act" where
  "sync_resolve fa ap bl resolve keys strict retry_errors =
     sync_session_call fa (session_resolve ap bl resolve keys strict retry_errors)"

definition sync_resolve_request ::
  "facade \<Rightarrow> app \<Rightarrow> 's builder \<Rightarrow> 's resolver \<Rightarrow> snapshot_request \<Rightarrow> bool \<Rightarrow> (sync_session \<times> 's world, delivery) act" where
  "sync_resolve_request fa ap bl resolve request retry_errors =
     sync_session_call fa (session_resolve_request ap bl resolve request retry_errors)"

definition sync_try_resolve_request ::
  "facade \<Rightarrow> app \<Rightarrow> 's builder \<Rightarrow> 's resolver \<Rightarrow> snapshot_request \<Rightarrow> bool \<Rightarrow> degradation_policy
    \<Rightarrow> (sync_session \<times> 's world, snapshot_result) act" where
  "sync_try_resolve_request fa ap bl resolve request retry_errors p =
     sync_session_call fa (try_resolve_request ap bl resolve request retry_errors p)"

definition sync_revalidate ::
  "facade \<Rightarrow> nat \<Rightarrow> app \<Rightarrow> 's builder \<Rightarrow> 's resolver \<Rightarrow> resource_key list \<Rightarrow> bool \<Rightarrow> bool \<Rightarrow> consistency_policy option
    \<Rightarrow> acceptance_policy option \<Rightarrow> (sync_session \<times> 's world, delivery) act" where
  "sync_revalidate fa n ap bl resolve keys strict force consistency acceptance =
     sync_session_call fa (session_revalidate n ap bl resolve keys strict force consistency acceptance)"

definition sync_snapshot :: "facade \<Rightarrow> app \<Rightarrow> 's builder \<Rightarrow> (sync_session \<times> 's world, py_error snapshot) act" where
  "sync_snapshot fa ap bl = sync_session_call fa (session_snapshot_async ap bl)"

text \<open>Closing marks the facade's session first; a closed builder then refuses the rest.\<close>

definition sync_session_close :: "facade \<Rightarrow> sync_session \<Rightarrow> (py_error + unit) \<times> sync_session" where
  "sync_session_close fa sy =
     (if sy_closed sy then (Inr (), sy)
      else if facade_shut fa then (Inl facade_closed_error, sy\<lparr>sy_closed := True\<rparr>)
      else (Inr (), sy\<lparr>sy_closed := True, sy_session := session_close (sy_session sy)\<rparr>))"

subsection \<open>Submissions\<close>

definition schedule_submission :: "facade \<Rightarrow> (py_error + nat) \<times> facade" where
  "schedule_submission fa =
     (if facade_shut fa \<or> \<not> fa_accepting fa then (Inl facade_closed_error, fa)
      else if fa_limit fa \<le> pending_submissions fa
      then (Inl (SubmissionBacklogFullError (int (fa_limit fa)) (int (pending_submissions fa))), fa)
      else (Inr (length (fa_submissions fa)), fa\<lparr>fa_submissions := fa_submissions fa @ [SubActive]\<rparr>))"

text \<open>A submission of an operation: the number of its future and what the loop will run.\<close>

definition submit_operation :: "'op \<Rightarrow> facade \<Rightarrow> (py_error + nat \<times> 'op) \<times> facade" where
  "submit_operation m fa = (case schedule_submission fa of (Inl e, fa') \<Rightarrow> (Inl e, fa') | (Inr i, fa') \<Rightarrow> (Inr (i, m), fa'))"

text \<open>Publications are validated and copied in the thread of the caller, before they are accepted.\<close>

type_synonym ('s, 'a) publication = "('s \<Rightarrow> 's) \<Rightarrow> (resource_key \<Rightarrow> string) \<Rightarrow> pyfloat \<Rightarrow> ('s pub_state, 'a) act"

definition submit_publish_update ::
  "'s publisher \<Rightarrow> resource_update \<Rightarrow> bool \<Rightarrow> bool \<Rightarrow> facade \<Rightarrow> (py_error + nat \<times> ('s, publish_result) publication) \<times> facade" where
  "submit_publish_update pb u force replace_equal fa =
     (case prepare_update_for_submission pb u of
        Inl e \<Rightarrow> (Inl e, fa)
      | Inr prepared \<Rightarrow> submit_operation (\<lambda>env fresh now. publish_update env pb fresh now prepared force replace_equal) fa)"

definition submit_publish ::
  "'s publisher \<Rightarrow> resource_key \<Rightarrow> pyval \<Rightarrow> string \<Rightarrow> pynum option \<Rightarrow> metadata \<Rightarrow> bool \<Rightarrow> bool \<Rightarrow> facade
    \<Rightarrow> (py_error + nat \<times> ('s, publish_result) publication) \<times> facade" where
  "submit_publish pb k v source observed md force replace_equal fa =
     (case lift_arg (mk_resource_update k v source observed md) of
        Inl e \<Rightarrow> (Inl e, fa)
      | Inr u \<Rightarrow> submit_publish_update pb u force replace_equal fa)"

definition submit_publish_many ::
  "'s publisher \<Rightarrow> resource_update list \<Rightarrow> bool \<Rightarrow> bool \<Rightarrow> facade
    \<Rightarrow> (py_error + nat \<times> ('s, (resource_key, publish_result) odict) publication) \<times> facade" where
  "submit_publish_many pb items force replace_equal fa =
     (case res_map (prepare_update_for_submission pb) items of
        Inl e \<Rightarrow> (Inl e, fa)
      | Inr prepared \<Rightarrow> submit_operation (\<lambda>env fresh now. publish_many env pb fresh now prepared force replace_equal) fa)"

definition submit_invalidate_many ::
  "'s publisher \<Rightarrow> resource_key list \<Rightarrow> string \<Rightarrow> facade \<Rightarrow> (py_error + nat \<times> ('s pub_state, unit) act) \<times> facade" where
  "submit_invalidate_many pb keys reason fa = submit_operation (pub_invalidate_many pb keys reason) fa"

definition submit_invalidate ::
  "'s publisher \<Rightarrow> resource_key \<Rightarrow> string \<Rightarrow> facade \<Rightarrow> (py_error + nat \<times> ('s pub_state, unit) act) \<times> facade" where
  "submit_invalidate pb k reason fa = submit_operation (pub_invalidate pb k reason) fa"

definition set_submission :: "nat \<Rightarrow> submission \<Rightarrow> facade \<Rightarrow> facade" where
  "set_submission i x fa = fa\<lparr>fa_submissions := (fa_submissions fa)[i := x]\<rparr>"

text \<open>What a flush reports about the futures it has waited for.\<close>

definition flush_result :: "pynum option \<Rightarrow> nat \<Rightarrow> py_error + unit" where
  "flush_result timeout remaining =
     (if 0 < remaining \<and> timeout \<noteq> None
      then Inl (TimeoutError (''Timed out waiting for '' @ int_str (int remaining) @ '' non-blocking submission(s)''))
      else Inr ())"

definition flush_submissions :: "facade \<Rightarrow> pynum option \<Rightarrow> nat \<Rightarrow> py_error + unit" where
  "flush_submissions fa timeout remaining =
     (if (case timeout of None \<Rightarrow> False | Some t \<Rightarrow> not_positive t) then Inl (ArgError (ValueError ''timeout_seconds must be positive''))
      else if facade_shut fa then Inl facade_closed_error
      else flush_result timeout remaining)"

subsection \<open>Closing\<close>

definition begin_facade_close :: "facade \<Rightarrow> facade" where
  "begin_facade_close fa =
     (if fa_closed fa then fa
      else fa\<lparr>fa_closing := True, fa_accepting := False,
              fa_phase := Draining (filter (\<lambda>i. fa_submissions fa ! i \<noteq> SubGone) [0..<length (fa_submissions fa)])\<rparr>)"

text \<open>The futures that are not done when the wait is over are cancelled, which makes them done.\<close>

definition cancel_submission :: "submission \<Rightarrow> submission" where
  "cancel_submission x = (if x = SubActive then SubDone else x)"

definition end_drain :: "nat list \<Rightarrow> facade \<Rightarrow> facade" where
  "end_drain waited fa =
     fa\<lparr>fa_submissions := foldl (\<lambda>xs i. xs[i := cancel_submission (xs ! i)]) (fa_submissions fa) waited,
        fa_phase := ClosingBuilder\<rparr>"

definition end_facade_close :: "facade \<Rightarrow> facade" where
  "end_facade_close fa = fa\<lparr>fa_closed := True, fa_closing := False, fa_phase := CloseOver\<rparr>"

fun background_timeout :: "py_error \<Rightarrow> bool" where
  "background_timeout (PayloadCopyShutdownTimeoutError t active) = True"
| "background_timeout (ObservabilityShutdownTimeoutError t pending) = True"
| "background_timeout _ = False"

text \<open>What \<^verbatim>\<open>close\<close> raises, and whether the loop is left running for the workers behind it.\<close>

definition facade_close_result :: "bool \<Rightarrow> py_error option \<Rightarrow> bool \<Rightarrow> py_error option \<times> bool" where
  "facade_close_result close_builder close_error thread_alive =
     (let deferred = close_builder \<and> (case close_error of None \<Rightarrow> False | Some e \<Rightarrow> background_timeout e)
      in (if \<not> deferred \<and> thread_alive then Some (RuntimeError ''Coalestra synchronous event-loop thread did not stop'')
          else close_error, deferred))"

subsection \<open>The machine\<close>

datatype facade_event =
    SubmissionAsked "py_error + nat"
  | FutureDone nat
  | CallbackRan nat
  | FacadeCloseBegan
  | DrainEnded
  | FacadeCloseEnded

fun facade_step :: "facade \<Rightarrow> facade_event \<Rightarrow> facade \<Rightarrow> bool" where
  "facade_step fa (SubmissionAsked r) fa' \<longleftrightarrow> schedule_submission fa = (r, fa')"
| "facade_step fa (FutureDone i) fa' \<longleftrightarrow>
     i < length (fa_submissions fa) \<and> fa_submissions fa ! i = SubActive \<and> fa' = set_submission i SubDone fa"
| "facade_step fa (CallbackRan i) fa' \<longleftrightarrow>
     i < length (fa_submissions fa) \<and> fa_submissions fa ! i = SubDone \<and> fa' = set_submission i SubGone fa"
| "facade_step fa FacadeCloseBegan fa' \<longleftrightarrow> fa_phase fa \<in> {NotClosed, CloseOver} \<and> fa' = begin_facade_close fa"
| "facade_step fa DrainEnded fa' \<longleftrightarrow> (\<exists>waited. fa_phase fa = Draining waited \<and> fa' = end_drain waited fa)"
| "facade_step fa FacadeCloseEnded fa' \<longleftrightarrow> fa_phase fa = ClosingBuilder \<and> fa' = end_facade_close fa"

subsection \<open>The invariant\<close>

definition settled :: "facade \<Rightarrow> bool" where
  "settled fa \<longleftrightarrow> SubActive \<notin> set (fa_submissions fa)"

fun phase_ok :: "close_phase \<Rightarrow> facade \<Rightarrow> bool" where
  "phase_ok NotClosed fa \<longleftrightarrow> \<not> fa_closing fa \<and> \<not> fa_closed fa \<and> fa_accepting fa"
| "phase_ok (Draining waited) fa \<longleftrightarrow> fa_closing fa \<and> \<not> fa_closed fa \<and> \<not> fa_accepting fa
     \<and> (\<forall>i < length (fa_submissions fa). fa_submissions fa ! i \<noteq> SubGone \<longrightarrow> i \<in> set waited)"
| "phase_ok ClosingBuilder fa \<longleftrightarrow> fa_closing fa \<and> \<not> fa_closed fa \<and> \<not> fa_accepting fa \<and> settled fa"
| "phase_ok CloseOver fa \<longleftrightarrow> \<not> fa_closing fa \<and> fa_closed fa \<and> \<not> fa_accepting fa \<and> settled fa"

definition facade_ok :: "facade \<Rightarrow> bool" where
  "facade_ok fa \<longleftrightarrow> 0 < fa_limit fa \<and> pending_submissions fa \<le> fa_limit fa \<and> phase_ok (fa_phase fa) fa"

lemma new_facade_ok: "mk_facade c t n = Inr fa \<Longrightarrow> facade_ok fa"
  by (auto simp: mk_facade_def res_iff facade_ok_def pending_submissions_def split: if_splits)

lemma counted_update:
  assumes "x = SubGone \<or> xs ! i \<noteq> SubGone"
  shows "length (filter (\<lambda>x. x \<noteq> SubGone) (xs[i := x])) \<le> length (filter (\<lambda>x. x \<noteq> SubGone) xs)"
  using assms by (induction xs arbitrary: i) (auto split: nat.splits)

lemma set_submission_ok:
  assumes "facade_ok fa" "i < length (fa_submissions fa)" "fa_submissions fa ! i \<noteq> SubGone" "x \<noteq> SubActive"
  shows "facade_ok (set_submission i x fa)"
proof -
  have "pending_submissions (set_submission i x fa) \<le> pending_submissions fa"
    using counted_update [of x "fa_submissions fa" i] assms(3) by (simp add: pending_submissions_def set_submission_def)
  moreover have "settled (set_submission i x fa)" if "settled fa"
    using that assms(4) set_update_subset_insert [of "fa_submissions fa" i x] by (auto simp: settled_def set_submission_def)
  moreover have "phase_ok (fa_phase fa) (set_submission i x fa)"
  proof (cases "fa_phase fa")
    case (Draining waited)
    with assms show ?thesis by (auto simp: facade_ok_def set_submission_def nth_list_update)
  qed (use assms(1) calculation(2) in \<open>auto simp: facade_ok_def set_submission_def\<close>)
  ultimately show ?thesis using assms(1) by (simp add: facade_ok_def set_submission_def)
qed

lemma schedule_ok:
  assumes "facade_ok fa" "schedule_submission fa = (r, fa')"
  shows "facade_ok fa'"
proof (cases "facade_shut fa \<or> \<not> fa_accepting fa \<or> fa_limit fa \<le> pending_submissions fa")
  case True
  with assms show ?thesis by (auto simp: schedule_submission_def split: if_splits)
next
  case False
  then have phase: "fa_phase fa = NotClosed" using assms(1) by (cases "fa_phase fa") (auto simp: facade_ok_def facade_shut_def)
  have "fa' = fa\<lparr>fa_submissions := fa_submissions fa @ [SubActive]\<rparr>" using False assms(2) by (auto simp: schedule_submission_def)
  with False assms(1) phase show ?thesis by (simp add: facade_ok_def pending_submissions_def)
qed

lemma cancel_idem: "cancel_submission (cancel_submission x) = cancel_submission x"
  by (cases x) (simp_all add: cancel_submission_def)

lemma cancelled_list:
  "length (foldl (\<lambda>xs i. xs[i := cancel_submission (xs ! i)]) xs waited) = length xs"
  "i < length xs \<Longrightarrow> foldl (\<lambda>xs i. xs[i := cancel_submission (xs ! i)]) xs waited ! i
      = (if i \<in> set waited then cancel_submission (xs ! i) else xs ! i)"
proof (induction waited arbitrary: xs)
  case (Cons a waited)
  {
    case 1
    show ?case by (simp add: Cons)
  next
    case 2
    then show ?case by (cases "a = i") (simp_all add: Cons cancel_idem)
  }
qed simp_all

lemma end_drain_ok:
  assumes "facade_ok fa" "fa_phase fa = Draining waited"
  shows "facade_ok (end_drain waited fa)"
proof -
  let ?xs = "fa_submissions fa" and ?ys = "fa_submissions (end_drain waited fa)"
  have ys: "length ?ys = length ?xs" "\<And>i. i < length ?xs \<Longrightarrow> ?ys ! i = (if i \<in> set waited then cancel_submission (?xs ! i) else ?xs ! i)"
    by (simp_all add: end_drain_def cancelled_list)
  have waited: "\<And>i. i < length ?xs \<Longrightarrow> ?xs ! i \<noteq> SubGone \<Longrightarrow> i \<in> set waited"
    and flags: "fa_closing fa" "\<not> fa_closed fa" "\<not> fa_accepting fa"
    using assms by (simp_all add: facade_ok_def)
  have "?ys ! i \<noteq> SubActive" if "i < length ?xs" for i
    using ys(2) [OF that] waited [OF that] by (cases "?xs ! i") (auto simp: cancel_submission_def)
  then have "settled (end_drain waited fa)" using ys(1) by (auto simp: settled_def in_set_conv_nth)
  moreover have "?ys = map cancel_submission ?xs"
    using ys waited by (intro nth_equalityI) (auto simp: cancel_submission_def)
  then have "pending_submissions (end_drain waited fa) = pending_submissions fa"
    by (simp add: pending_submissions_def filter_map o_def cancel_submission_def)
      (metis (no_types, lifting) submission.distinct(3) submission.distinct(5))
  ultimately show ?thesis using assms(1) flags by (simp add: facade_ok_def end_drain_def)
qed

lemma begin_close_ok: "facade_ok fa \<Longrightarrow> fa_phase fa \<in> {NotClosed, CloseOver} \<Longrightarrow> facade_ok (begin_facade_close fa)"
  by (auto simp: facade_ok_def begin_facade_close_def pending_submissions_def)

lemma end_close_ok: "facade_ok fa \<Longrightarrow> fa_phase fa = ClosingBuilder \<Longrightarrow> facade_ok (end_facade_close fa)"
  by (simp add: facade_ok_def end_facade_close_def pending_submissions_def settled_def)

lemma facade_step_ok: "facade_ok fa \<Longrightarrow> facade_step fa e fa' \<Longrightarrow> facade_ok fa'"
  by (cases e) (auto intro: schedule_ok set_submission_ok begin_close_ok end_drain_ok end_close_ok)

interpretation facade: machine facade_step facade_ok
  by unfold_locales (rule facade_step_ok)

text \<open>
  The backlog of the facade is exact: at no time are more submissions counted than configured,
  a submission is accepted exactly when the facade is open and there is room, a refusal for want
  of room names the limit and exactly that many pending submissions, and the health report shows
  the same numbers.
\<close>

lemma facade_backlog_exact:
  assumes "mk_facade c t n = Inr fa0" "run_of facade_step fa0 es fa"
  shows "pending_submissions fa \<le> fa_limit fa
    \<and> (fst (schedule_submission fa) = Inr (length (fa_submissions fa)) \<longleftrightarrow> \<not> facade_shut fa \<and> pending_submissions fa < fa_limit fa)
    \<and> (\<forall>limit pending. fst (schedule_submission fa) = Inl (SubmissionBacklogFullError limit pending)
          \<longrightarrow> limit = int (fa_limit fa) \<and> pending = limit)
    \<and> (\<forall>h h'. sync_health fa h = Inr h' \<longrightarrow> bh_pending_submissions h' = int (pending_submissions fa)
          \<and> bh_max_pending_submissions h' = Some (int (fa_limit fa)))"
proof -
  have ok: "facade_ok fa" by (rule facade.run_inv [OF assms(2) new_facade_ok [OF assms(1)]])
  have "fa_accepting fa \<longleftrightarrow> \<not> facade_shut fa"
    using ok by (cases "fa_phase fa") (auto simp: facade_ok_def facade_shut_def)
  then show ?thesis
    using ok by (auto simp: schedule_submission_def facade_ok_def facade_closed_error_def sync_health_def split: if_splits)
qed

text \<open>
  C28: Closing the facade settles every submission: when it is closed, each submission it has ever
  accepted has completed or has been cancelled, and every later submission or blocking call is
  refused without touching the builder.
\<close>

theorem facade_close_settles:
  assumes "mk_facade c t n = Inr fa0" "run_of facade_step fa0 es fa" "fa_closed fa"
  shows "(\<forall>x \<in> set (fa_submissions fa). x \<noteq> SubActive) \<and> schedule_submission fa = (Inl facade_closed_error, fa)
    \<and> submit_blocking fa m w = (Inl facade_closed_error, w)"
proof -
  have "facade_ok fa" by (rule facade.run_inv [OF assms(2) new_facade_ok [OF assms(1)]])
  then have "settled fa" using assms(3) by (cases "fa_phase fa") (auto simp: facade_ok_def)
  then show ?thesis using assms(3) by (auto simp: settled_def schedule_submission_def facade_shut_def submit_blocking_def)
qed

subsection \<open>A submission, a refusal and a shutdown\<close>

definition fixture_facade :: facade where
  "fixture_facade = \<lparr>fa_close_builder = True, fa_shutdown_timeout = NFloat (Fin 5), fa_limit = 1, fa_submissions = [],
     fa_accepting = True, fa_closing = False, fa_closed = False, fa_phase = NotClosed\<rparr>"

definition fixture_facade_events :: "facade_event list" where
  "fixture_facade_events = [SubmissionAsked (Inr 0), SubmissionAsked (Inl (SubmissionBacklogFullError 1 1)), FacadeCloseBegan,
     DrainEnded, FacadeCloseEnded]"

definition fixture_facade_closed :: facade where
  "fixture_facade_closed = fixture_facade\<lparr>fa_submissions := [SubDone], fa_accepting := False, fa_closed := True, fa_phase := CloseOver\<rparr>"

lemma fixture_facade_made: "mk_facade True (NFloat (Fin 5)) 1 = Inr fixture_facade"
  by (simp add: mk_facade_def fixture_facade_def)

lemma fixture_facade_runs: "run_of facade_step fixture_facade fixture_facade_events fixture_facade_closed"
  unfolding fixture_facade_events_def
proof (intro run_cons)
  let ?one = "fixture_facade\<lparr>fa_submissions := [SubActive]\<rparr>"
  let ?closing = "?one\<lparr>fa_closing := True, fa_accepting := False, fa_phase := Draining [0]\<rparr>"
  let ?drained = "?closing\<lparr>fa_submissions := [SubDone], fa_phase := ClosingBuilder\<rparr>"
  show "facade_step fixture_facade (SubmissionAsked (Inr 0)) ?one"
    by (simp add: schedule_submission_def fixture_facade_def facade_shut_def pending_submissions_def)
  show "facade_step ?one (SubmissionAsked (Inl (SubmissionBacklogFullError 1 1))) ?one"
    by (simp add: schedule_submission_def fixture_facade_def facade_shut_def pending_submissions_def)
  show "facade_step ?one FacadeCloseBegan ?closing"
    by (simp add: begin_facade_close_def fixture_facade_def)
  show "facade_step ?closing DrainEnded ?drained"
    by (simp add: end_drain_def cancel_submission_def)
  show "facade_step ?drained FacadeCloseEnded fixture_facade_closed"
    by (simp add: end_facade_close_def fixture_facade_closed_def fixture_facade_def)
qed (rule run_nil)

lemma facade_backlog_exact_witness:
  "pending_submissions fixture_facade_closed \<le> fa_limit fixture_facade_closed"
  using facade_backlog_exact [OF fixture_facade_made fixture_facade_runs] by (rule conjunct1)

theorem facade_close_settles_witness:
  "schedule_submission fixture_facade_closed = (Inl facade_closed_error, fixture_facade_closed)"
  using facade_close_settles [OF fixture_facade_made fixture_facade_runs, of "ret ()" "0::nat"]
  by (simp add: fixture_facade_closed_def)

end
