(* ===== verification/Adapters.thy ===== *)
theory Adapters
  imports Source_Calls
begin

section \<open>Adapters of application functions (adapters/*.py)\<close>

text \<open>
  The three adapters turn a function of the application into a source: \<open>CallableSource\<close> a
  function of one key, \<open>CallableBatchSource\<close> one of several keys, \<open>CallableDerivedSource\<close> a
  derivation with its declared dependencies. The functions are parameters. What a call of one
  gives is a value, or an awaitable whose outcome the adapter awaits.
\<close>

subsection \<open>Construction\<close>

text \<open>
  The arguments the three constructors share, and whether the function is a coroutine function.
  \<open>aa_max_batch_size\<close> is an argument of the batch adapter only.
\<close>

record adapter_args =
  aa_name :: string
  aa_priority :: int
  aa_timeout_seconds :: pyval
  aa_queue_timeout_seconds :: pyval
  aa_max_concurrency :: "int option"
  aa_max_batch_size :: "int option"
  aa_resilience_policy :: declared_resilience
  aa_cache_supports :: bool
  aa_run_sync_in_thread :: pyval
  aa_blocking_io :: pyval
  aa_transport_timeout_seconds :: pyval
  aa_coroutine :: bool

text \<open>An adapter: the attributes it shows to the library, and how it calls its function.\<close>

record adapter =
  ad_source :: source
  ad_run_sync_in_thread :: bool
  ad_coroutine :: bool

definition seconds_attr :: "rat option \<Rightarrow> pyval" where
  "seconds_attr t = (case t of None \<Rightarrow> PyNone | Some s \<Rightarrow> PyFloat (Fin s))"

text \<open>
  The attributes a constructor sets once its arguments are checked; \<open>kind\<close> says which methods
  the class defines.
\<close>

definition adapter_attributes ::
  "source_kind \<Rightarrow> adapter_args \<Rightarrow> string \<Rightarrow> rat option \<Rightarrow> rat option \<Rightarrow> bool \<Rightarrow> bool \<Rightarrow> rat option \<Rightarrow> adapter" where
  "adapter_attributes kind a nm timeout queue_timeout run_sync blocking transport =
     \<lparr>ad_source = \<lparr>so_name = nm, so_priority = aa_priority a, so_timeout_seconds = seconds_attr timeout,
        so_queue_timeout_seconds = Some (seconds_attr (case queue_timeout of None \<Rightarrow> timeout | Some q \<Rightarrow> Some q)),
        so_max_concurrency = aa_max_concurrency a,
        so_max_batch_size = (if kind = BatchKind then aa_max_batch_size a else None),
        so_resilience_policy = aa_resilience_policy a, so_blocking_io = Some (PyBool blocking),
        so_blocking_io_offloaded = Some (PyBool (run_sync \<and> \<not> aa_coroutine a)),
        so_transport_timeout_seconds = Some (seconds_attr transport), so_cache_supports = aa_cache_supports a,
        so_has_supports = True, so_has_fetch = (kind = SingleKind), so_has_fetch_many = (kind = BatchKind),
        so_has_derive = (kind = DerivedKind)\<rparr>,
      ad_run_sync_in_thread = run_sync, ad_coroutine = aa_coroutine a\<rparr>"

text \<open>The checks in the order of the constructors; only the batch adapter checks a batch size.\<close>

definition mk_adapter :: "source_kind \<Rightarrow> adapter_args \<Rightarrow> arg_error + adapter" where
  "mk_adapter kind a =
     (let nm = strip (aa_name a)
      in res_bind (raise_if (nm = '''') (ValueError ''source name cannot be empty'')) (\<lambda>_.
         res_bind (optional_positive_seconds (aa_timeout_seconds a) ''timeout_seconds'') (\<lambda>timeout.
         res_bind (optional_positive_seconds (aa_queue_timeout_seconds a) ''queue_timeout_seconds'') (\<lambda>queue_timeout.
         res_bind (raise_if (case aa_max_concurrency a of None \<Rightarrow> False | Some n \<Rightarrow> n < 1)
                     (ValueError ''max_concurrency must be at least 1 or None'')) (\<lambda>_.
         res_bind (raise_if (kind = BatchKind \<and> (case aa_max_batch_size a of None \<Rightarrow> False | Some n \<Rightarrow> n < 1))
                     (ValueError ''max_batch_size must be at least 1 or None'')) (\<lambda>_.
         res_bind (require (as_bool (aa_run_sync_in_thread a)) (TypeError ''run_sync_in_thread must be a boolean'')) (\<lambda>run_sync.
         res_bind (require (as_bool (aa_blocking_io a)) (TypeError ''blocking_io must be a boolean'')) (\<lambda>blocking.
         res_bind (optional_positive_seconds (aa_transport_timeout_seconds a) ''transport_timeout_seconds'') (\<lambda>transport.
         res_bind (raise_if (\<not> blocking \<and> transport \<noteq> None)
                     (ValueError ''transport_timeout_seconds requires blocking_io=True'')) (\<lambda>_.
           Inr (adapter_attributes kind a nm timeout queue_timeout run_sync blocking transport)))))))))))"

definition mk_callable_source :: "adapter_args \<Rightarrow> arg_error + adapter" where
  "mk_callable_source a = mk_adapter SingleKind a"

definition mk_callable_batch_source :: "adapter_args \<Rightarrow> arg_error + adapter" where
  "mk_callable_batch_source a = mk_adapter BatchKind a"

definition mk_callable_derived_source :: "adapter_args \<Rightarrow> arg_error + adapter" where
  "mk_callable_derived_source a = mk_adapter DerivedKind a"

subsection \<open>Calls\<close>

text \<open>
  Where the function runs: a coroutine function on the event loop as a task that suspends, any
  other one in a worker thread or, inline, on the event loop itself.
\<close>

datatype call_mode = CoroutineCall | ThreadCall | InlineCall

definition call_mode_of :: "adapter \<Rightarrow> call_mode" where
  "call_mode_of a = (if ad_coroutine a then CoroutineCall else if ad_run_sync_in_thread a then ThreadCall else InlineCall)"

text \<open>
  What calling the function gives, once a coroutine or a thread has been awaited: a plain result,
  or an awaitable with the outcome of awaiting it.
\<close>

datatype 'r called = Returned 'r | Awaitable "py_error + 'r"

definition awaited :: "py_error + 'r called \<Rightarrow> py_error + 'r" where
  "awaited c = res_bind c (\<lambda>r. case r of Returned x \<Rightarrow> Inr x | Awaitable q \<Rightarrow> q)"

text \<open>\<^verbatim>\<open>result if isinstance(result, SourcePayload) else SourcePayload(value=result)\<close>\<close>

definition as_payload :: "raw_result \<Rightarrow> py_error + raw_result" where
  "as_payload r =
     (case r of
        RawPayload p \<Rightarrow> Inr (RawPayload p)
      | RawValue v \<Rightarrow> res_bind (lift_arg (mk_source_payload v None [])) (\<lambda>p. Inr (RawPayload p)))"

definition adapter_supports :: "(resource_key \<Rightarrow> py_error + bool) \<Rightarrow> resource_key \<Rightarrow> py_error + bool" where
  "adapter_supports f k = f k"

definition adapter_fetch ::
  "(resource_key \<Rightarrow> nat \<Rightarrow> py_error + raw_result called) \<Rightarrow> resource_key \<Rightarrow> nat \<Rightarrow> py_error + raw_result" where
  "adapter_fetch f k n = res_bind (awaited (f k n)) as_payload"

text \<open>What a batch function returned has to be a mapping over the requested keys.\<close>

definition checked_batch :: "string \<Rightarrow> resource_key list \<Rightarrow> raw_batch \<Rightarrow> py_error + raw_batch" where
  "checked_batch nm requested r =
     (case r of
        RawOther t \<Rightarrow> Inl (SourceProtocolError (''batch source '' @ nm @ '' must return a mapping, got '' @ t))
      | RawMapping m \<Rightarrow>
          (let unexpected = filter (\<lambda>k. k \<notin> set requested) (od_keys m)
           in if unexpected \<noteq> []
              then Inl (SourceProtocolError (''batch source '' @ nm @ '' returned unrequested resources: ''
                     @ str_join '', '' (map key_str unexpected)))
              else res_bind (res_map (\<lambda>(k, v). res_bind (as_payload v) (\<lambda>p. Inr (k, p))) m)
                     (\<lambda>m'. Inr (RawMapping m'))))"

definition adapter_fetch_many ::
  "adapter \<Rightarrow> (resource_key list \<Rightarrow> nat \<Rightarrow> py_error + raw_batch called) \<Rightarrow> resource_key list \<Rightarrow> nat \<Rightarrow> py_error + raw_batch" where
  "adapter_fetch_many a f keys n =
     (let requested = fromkeys keys
      in if requested = [] then Inr (RawMapping [])
         else res_bind (awaited (f requested n)) (checked_batch (so_name (ad_source a)) requested))"

definition adapter_dependencies ::
  "(resource_key \<Rightarrow> py_error + resource_key list) \<Rightarrow> resource_key \<Rightarrow> py_error + dependency list" where
  "adapter_dependencies f k = res_bind (f k) (\<lambda>ks. Inr (map DepKey (fromkeys ks)))"

definition adapter_derive ::
  "(resource_key \<Rightarrow> (resource_key, snapshot_value) odict \<Rightarrow> nat \<Rightarrow> py_error + raw_result called)
    \<Rightarrow> resource_key \<Rightarrow> (resource_key, snapshot_value) odict \<Rightarrow> nat \<Rightarrow> py_error + raw_result" where
  "adapter_derive f k deps n = res_bind (awaited (f k deps n)) as_payload"

subsection \<open>Lemmas\<close>

lemma optional_positive_again: "optional_positive_seconds v nm = Inr t \<Longrightarrow> optional_positive_seconds (seconds_attr t) nm' = Inr t"
proof (cases t)
  case (Some s)
  moreover assume "optional_positive_seconds v nm = Inr t"
  ultimately have "0 < s" using optional_positive_Inr by simp
  with Some show ?thesis by (simp add: optional_positive_seconds_def seconds_attr_def)
qed (simp add: optional_positive_seconds_def seconds_attr_def)

lemma optional_positive_none [simp]: "optional_positive_seconds (seconds_attr None) nm = Inr None"
  by (simp add: optional_positive_seconds_def seconds_attr_def)

lemma mk_adapterE:
  assumes "mk_adapter kind a = Inr ad"
  obtains timeout queue_timeout run_sync blocking transport where
    "strip (aa_name a) \<noteq> ''''" "optional_positive_seconds (aa_timeout_seconds a) ''timeout_seconds'' = Inr timeout"
    "optional_positive_seconds (aa_queue_timeout_seconds a) ''queue_timeout_seconds'' = Inr queue_timeout"
    "\<And>n. aa_max_concurrency a = Some n \<Longrightarrow> 1 \<le> n" "\<And>n. kind = BatchKind \<Longrightarrow> aa_max_batch_size a = Some n \<Longrightarrow> 1 \<le> n"
    "aa_run_sync_in_thread a = PyBool run_sync" "aa_blocking_io a = PyBool blocking"
    "optional_positive_seconds (aa_transport_timeout_seconds a) ''transport_timeout_seconds'' = Inr transport"
    "\<not> blocking \<Longrightarrow> transport = None"
    "ad = adapter_attributes kind a (strip (aa_name a)) timeout queue_timeout run_sync blocking transport"
proof -
  have pb: "x = PyBool b" if "as_bool x = Some b" for x b using that by (cases x) auto
  from assms show thesis
    by (auto simp: mk_adapter_def Let_def res_iff split: option.splits dest!: pb intro: that)
qed

lemma seconds_of_attr: "optional_positive_seconds v nm = Inr t \<Longrightarrow> seconds_of v = t"
proof -
  assume ok: "optional_positive_seconds v nm = Inr t"
  show ?thesis
  proof (cases "v = PyNone")
    case False
    with ok obtain n f where n: "as_number v = Some n" "to_double n = Inr f"
      and f: "(case f of Fin r \<Rightarrow> if r \<le> 0 then Inl (ValueError (nm @ '' must be finite and positive'')) else Inr (Some r)
        | _ \<Rightarrow> Inl (ValueError (nm @ '' must be finite and positive''))) = Inr t"
      by (auto simp: optional_positive_seconds_def res_iff)
    from f have "t = Some (case f of Fin r \<Rightarrow> r)" "\<exists>r. f = Fin r" by (auto split: pyfloat.splits if_splits)
    with n show ?thesis by (cases n) (auto simp: seconds_of_def split: if_splits)
  qed (use ok in \<open>simp add: optional_positive_seconds_def seconds_of_def\<close>)
qed

text \<open>The attributes of an adapter pass the checks of a source that the adapter has made itself.\<close>

lemma adapter_validates:
  assumes "mk_adapter kind a = Inr ad"
  shows "validate_source (ad_source ad) = Inr () \<longleftrightarrow> aa_resilience_policy a \<noteq> WrongType"
    and "kind_of_source (ad_source ad) = kind" "so_name (ad_source ad) = strip (aa_name a)"
  using assms
proof (atomize (full), cases rule: mk_adapterE, goal_cases)
  case (1 timeout queue_timeout run_sync blocking transport)
  have q: "optional_positive_seconds (seconds_attr (case queue_timeout of None \<Rightarrow> timeout | Some q \<Rightarrow> Some q)) nm
      = Inr (case queue_timeout of None \<Rightarrow> timeout | Some q \<Rightarrow> Some q)" for nm
    using optional_positive_again [OF 1(2)] optional_positive_again [OF 1(3)] by (cases queue_timeout) auto
  have "kind_of_source (ad_source ad) = kind" by (cases kind) (simp_all add: 1 adapter_attributes_def kind_of_source_def)
  with 1 q show ?case
    by (auto simp: adapter_attributes_def validate_source_def Let_def queue_timeout_attr_def attr_or_def
      optional_positive_again [OF 1(2)] res_iff not_less raise_if_def kind_of_source_def split: option.splits)
qed

lemma adapter_guarantee:
  assumes "mk_adapter kind a = Inr ad"
  shows "\<exists>g b. inspect_source_timeout_guarantee (ad_source ad) = Inr g \<and> tg_declaration_present g
    \<and> aa_blocking_io a = PyBool b \<and> tg_blocking_io g = b
    \<and> (b \<longrightarrow> tg_status g = blocking_status (call_mode_of ad = ThreadCall)
         (seconds_of (aa_transport_timeout_seconds a)) (seconds_of (aa_timeout_seconds a)))"
  using assms
proof (cases rule: mk_adapterE)
  case (1 timeout queue_timeout run_sync blocking transport)
  have at: "seconds_of (aa_transport_timeout_seconds a) = transport" "seconds_of (aa_timeout_seconds a) = timeout"
    using seconds_of_attr [OF 1(8)] seconds_of_attr [OF 1(2)] by simp_all
  have md: "(call_mode_of ad = ThreadCall) = (run_sync \<and> \<not> aa_coroutine a)"
    by (simp add: 1(10) adapter_attributes_def call_mode_of_def)
  show ?thesis unfolding at md using 1(7,9)
    by (cases blocking) (simp_all add: 1(10) adapter_attributes_def inspect_source_timeout_guarantee_def Let_def attr_or_def
      optional_positive_again [OF 1(2)] optional_positive_again [OF 1(8)])
qed

text \<open>
  A function whose result is processed before it leaves the source takes the same time and ends the
  same way as the function with the processing done by the caller.
\<close>

lemma violation_outcome:
  "fst (record_transport_timeout_violation bl s el r outcome force w)
   = fst (record_transport_timeout_violation bl s el r outcome' force w)"
  by (auto simp: record_transport_timeout_violation_def split: option.splits sum.splits)

lemma violation_raised:
  "record_transport_timeout_violation bl s el r outcome force w = (Inl e, w') \<Longrightarrow> w' = w"
  by (auto simp: record_transport_timeout_violation_def split: option.splits sum.splits if_splits)

lemma with_timeout_bind:
  assumes g: "\<And>n. g n = res_bind (f n) h"
  shows "fst (with_timeout ap bl s ctx g r w) = res_bind (fst (with_timeout ap bl s ctx f r w)) h
    \<and> ((\<forall>x. fst (with_timeout ap bl s ctx f r w) = Inr x \<longrightarrow> (\<exists>y. h x = Inr y))
        \<longrightarrow> snd (with_timeout ap bl s ctx g r w) = snd (with_timeout ap bl s ctx f r w))"
proof (cases "timeout_budget_for (seconds_of (so_timeout_seconds s)) ctx s ''calling the source'' r (w_mono w)")
  case (Inr budget)
  obtain q w1 where e: "ensure_transport_timeout_fits_budget bl s budget r w = (q, w1)" by fastforce
  obtain x w2 where a: "await_with_timeout (ap_delay ap) f (tb_seconds budget) w1 = (x, w2)" by fastforce
  then have b: "await_with_timeout (ap_delay ap) g (tb_seconds budget) w1 = (map_option (\<lambda>y. res_bind y h) x, w2)"
    by (auto simp: await_with_timeout_def Let_def g split: option.splits if_splits)
  let ?late = "\<lambda>outcome. record_transport_timeout_violation bl s (max 0 (w_mono w2 - w_mono w1)) r outcome False w2"
  have late: "fst (?late ''failed_late'') = fst (?late ''completed_late'')" by (rule violation_outcome)
  show ?thesis
  proof (cases x)
    case None
    obtain l w3 where "record_transport_timeout_violation bl s (max 0 (w_mono w2 - w_mono w1)) r ''coalestra_timeout'' True w2 = (l, w3)"
      by fastforce
    with None Inr e a b show ?thesis by (cases q; cases l) (simp_all add: with_timeout_def Let_def)
  next
    case (Some y)
    show ?thesis
    proof (cases y)
      case (Inl er)
      obtain l w3 where "?late ''failed_late'' = (l, w3)" by fastforce
      with Inl \<open>x = Some y\<close> Inr e a b show ?thesis by (cases q; cases l) (simp_all add: with_timeout_def Let_def)
    next
      case (Inr v)
      show ?thesis
      proof (cases "h v")
        case (Inl er)
        obtain l w3 w4 where l: "?late ''failed_late'' = (l, w3)" "?late ''completed_late'' = (l, w4)"
          using late by (metis prod.collapse)
        then have "w3 = w2 \<and> w4 = w2" if "l = Inl e" for e using that by (auto dest: violation_raised)
        with Inl l \<open>x = Some y\<close> \<open>y = Inr v\<close> \<open>timeout_budget_for _ _ _ _ _ _ = _\<close> e a b show ?thesis
          by (cases q; cases l) (simp_all add: with_timeout_def Let_def)
      next
        case (Inr v')
        obtain l w3 where "?late ''completed_late'' = (l, w3)" by fastforce
        with Inr \<open>x = Some y\<close> \<open>y = Inr v\<close> \<open>timeout_budget_for _ _ _ _ _ _ = _\<close> e a b show ?thesis
          by (cases q; cases l) (simp_all add: with_timeout_def Let_def)
      qed
    qed
  qed
qed (simp add: with_timeout_def)

lemma leased_call_bind:
  assumes g: "\<And>n. g n = res_bind (f n) h"
  shows "fst (leased_call ap bl s ctx kind g r w) = res_bind (fst (leased_call ap bl s ctx kind f r w)) h"
    and "\<forall>x. fst (leased_call ap bl s ctx kind f r w) = Inr x \<longrightarrow> (\<exists>y. h x = Inr y)
      \<Longrightarrow> snd (leased_call ap bl s ctx kind g r w) = snd (leased_call ap bl s ctx kind f r w)"
proof -
  obtain q w1 where acq: "acquire_capacity ap s ctx r w = (q, w1)" by fastforce
  note bind = with_timeout_bind [of g f h ap bl s ctx r "count_diag (record_source_call (so_name s) kind) w1", OF g]
  show "fst (leased_call ap bl s ctx kind g r w) = res_bind (fst (leased_call ap bl s ctx kind f r w)) h"
    using conjunct1 [OF bind] acq by (cases q) (simp_all add: leased_call_def case_prod_unfold Let_def)
  assume "\<forall>x. fst (leased_call ap bl s ctx kind f r w) = Inr x \<longrightarrow> (\<exists>y. h x = Inr y)"
  with conjunct2 [OF bind] acq show "snd (leased_call ap bl s ctx kind g r w) = snd (leased_call ap bl s ctx kind f r w)"
    by (cases q) (simp_all add: leased_call_def case_prod_unfold Let_def)
qed

lemma leased_call_delay:
  fixes w :: "'s world"
  assumes "ap_delay ap = ap_delay ap'"
  shows "leased_call ap bl s ctx kind f r w = leased_call ap' bl s ctx kind f r w"
proof -
  have acq: "acquire_capacity ap = (acquire_capacity ap' :: _ \<Rightarrow> _ \<Rightarrow> _ \<Rightarrow> 's world \<Rightarrow> _)"
    by (intro ext, unfold acquire_capacity_def assms) (rule refl)
  have call: "with_timeout ap bl s ctx f r = with_timeout ap' bl s ctx f r"
    by (intro ext, unfold with_timeout_def assms) (rule refl)
  show ?thesis unfolding leased_call_def acq call ..
qed

lemma leased_call_from: "leased_call ap bl s ctx kind f r w = (Inr x, w') \<Longrightarrow> \<exists>n. f n = Inr x"
proof -
  assume "leased_call ap bl s ctx kind f r w = (Inr x, w')"
  then obtain w1 w2 where "with_timeout ap bl s ctx f r w1 = (Inr x, w2)"
    by (auto simp: leased_call_def Let_def split: prod.splits sum.splits)
  then show ?thesis
  proof (cases rule: with_timeout_cases)
    case (called budget w1 q w2 elapsed outcome force v)
    then show ?thesis by (auto simp: await_with_timeout_def Let_def split: option.splits if_splits sum.splits)
  qed auto
qed

text \<open>The builder treats the payload an adapter makes of a value as it treats the value.\<close>

lemma as_payload_coerced:
  "\<exists>p. as_payload r = Inr p \<and> (\<forall>copier c. coerce_payload_sync copier p c = coerce_payload_sync copier r c)"
  by (cases r) (simp_all add: as_payload_def mk_source_payload_def optional_timestamp_def coerce_payload_sync_def od_of_def od_update_def lift_arg_def)

lemma copy_items_alike:
  "list_all2 (\<lambda>x y. f x = g y) xs ys \<Longrightarrow> copy_items delay cf f deadline c xs w = copy_items delay cf g deadline c ys w"
proof (induction arbitrary: w rule: list_all2_induct)
  case (Cons x xs y ys)
  then show ?case by (simp split: prod.splits sum.splits)
qed simp

lemma copy_map_alike:
  "list_all2 (\<lambda>x y. f x = g y) xs ys \<Longrightarrow> copy_map delay cf f deadline c xs w = copy_map delay cf g deadline c ys w"
  by (simp add: copy_map_def copy_items_alike [of f g xs ys])

text \<open>A conforming mapping is passed on with its keys, each value as the builder would coerce it.\<close>

definition coerced_alike :: "resource_key \<times> raw_result \<Rightarrow> resource_key \<times> raw_result \<Rightarrow> bool" where
  "coerced_alike x y \<longleftrightarrow> fst y = fst x \<and> (\<forall>copier c. coerce_payload_sync copier (snd y) c = coerce_payload_sync copier (snd x) c)"

lemma batch_payloads:
  "\<exists>m'. res_map (\<lambda>(k, v). res_bind (as_payload v) (\<lambda>p. Inr (k, p))) m = Inr m' \<and> list_all2 coerced_alike m m'"
proof (induction m)
  case (Cons x m)
  then obtain m' where m: "res_map (\<lambda>(k, v). res_bind (as_payload v) (\<lambda>p. Inr (k, p))) m = Inr m'" "list_all2 coerced_alike m m'"
    by blast
  obtain p where "as_payload (snd x) = Inr p" "\<forall>copier c. coerce_payload_sync copier p c = coerce_payload_sync copier (snd x) c"
    using as_payload_coerced by blast
  moreover from this have "coerced_alike x (fst x, p)" by (simp add: coerced_alike_def)
  ultimately show ?case using m by (intro exI [of _ "(fst x, p) # m'"]) (simp add: case_prod_unfold)
qed simp

lemma coerced_alike_keys: "list_all2 coerced_alike m m' \<Longrightarrow> od_keys m' = od_keys m"
  by (induction rule: list_all2_induct) (simp_all add: coerced_alike_def)

text \<open>What the builder makes of a batch that was checked by the adapter, and of the same batch unchecked.\<close>

definition batch_result ::
  "app \<Rightarrow> 's builder \<Rightarrow> source \<Rightarrow> resource_key list \<Rightarrow> fetch_context \<Rightarrow> py_error + raw_batch \<Rightarrow> 's world
    \<Rightarrow> (py_error + (resource_key, source_payload) odict) \<times> 's world" where
  "batch_result ap bl s keys ctx r w1 =
     (case (r, w1) of
        (Inl e, w1) \<Rightarrow> (Inl e, w1)
      | (Inr (RawOther t), w1) \<Rightarrow>
          (Inl (SourceProtocolError (''batch source '' @ so_name s @ '' must return a mapping, got '' @ t)), w1)
      | (Inr (RawMapping m), w1) \<Rightarrow>
          (let unexpected = filter (\<lambda>k. k \<notin> set keys) (od_keys m)
           in if unexpected \<noteq> []
              then (Inl (SourceProtocolError (''batch source '' @ so_name s @ '' returned unrequested resources: ''
                       @ str_join '', '' (map key_str unexpected))), w1)
              else copy_map (ap_delay ap) (bl_copy bl)
                     (\<lambda>item. res_bind (coerce_payload_sync (bl_copier bl) (snd item)
                                (''batch source '' @ so_name s @ '' payload for '' @ key_str (fst item)))
                                (\<lambda>p. Inr (fst item, p)))
                     (fc_deadline_monotonic ctx) (''isolating batch source '' @ so_name s @ '' payloads'') m w1))"

lemma fetch_many_result:
  "fetch_many_once ap bl s keys ctx w =
     (let c = leased_call ap bl s ctx BatchKind (ap_fetch_many ap (so_name s) keys) None w
      in batch_result ap bl s keys ctx (fst c) (snd c))"
  unfolding fetch_many_once_def batch_result_def Let_def prod.collapse ..

lemma batch_result_delay:
  "ap_delay ap' = ap_delay ap \<Longrightarrow> batch_result ap' bl s keys ctx r w = batch_result ap bl s keys ctx r w"
  by (simp only: batch_result_def)

lemma batch_result_checked:
  assumes "\<And>m. r = Inr (RawMapping m) \<Longrightarrow> set (od_keys m) \<subseteq> set keys \<Longrightarrow> w1 = w2"
  shows "fst (batch_result ap bl s keys ctx (res_bind r (checked_batch (so_name s) keys)) w1)
    = fst (batch_result ap bl s keys ctx r w2)"
    and "w1 = w2 \<Longrightarrow> batch_result ap bl s keys ctx (res_bind r (checked_batch (so_name s) keys)) w1
      = batch_result ap bl s keys ctx r w2"
proof -
  let ?t = "\<lambda>w. batch_result ap bl s keys ctx (res_bind r (checked_batch (so_name s) keys)) w"
  have "fst (?t w1) = fst (batch_result ap bl s keys ctx r w2) \<and> (w1 = w2 \<longrightarrow> ?t w1 = batch_result ap bl s keys ctx r w2)"
  proof (cases r)
    case (Inr b)
    show ?thesis
    proof (cases b)
      case (RawMapping m)
      show ?thesis
      proof (cases "filter (\<lambda>k. k \<notin> set keys) (od_keys m) = []")
        case True
        then have sub: "set (od_keys m) \<subseteq> set keys" by (auto simp: filter_empty_conv)
        obtain m' where m': "res_map (\<lambda>(k, v). res_bind (as_payload v) (\<lambda>p. Inr (k, p))) m = Inr m'"
          "list_all2 coerced_alike m m'" using batch_payloads by blast
        have ks: "filter (\<lambda>k. k \<notin> set keys) (od_keys m') = []" using True coerced_alike_keys [OF m'(2)] by simp
        have alike: "list_all2 (\<lambda>x y. f x = g y) m m'" if "\<And>x y. coerced_alike x y \<Longrightarrow> f x = g y"
          for f g :: "resource_key \<times> raw_result \<Rightarrow> py_error + resource_key \<times> source_payload"
          using m'(2) by (rule list_all2_mono) (rule that)
        have "?t w2 = batch_result ap bl s keys ctx r w2"
          unfolding Inr RawMapping batch_result_def
          using True ks by (simp add: checked_batch_def m'(1))
            (intro copy_map_alike [symmetric] alike, simp add: coerced_alike_def)
        then show ?thesis using assms [OF _ sub] Inr RawMapping by simp
      next
        case False
        with Inr RawMapping show ?thesis by (simp add: batch_result_def checked_batch_def)
      qed
    next
      case (RawOther t)
      with Inr show ?thesis by (simp add: batch_result_def checked_batch_def)
    qed
  qed (simp add: batch_result_def)
  then show "fst (?t w1) = fst (batch_result ap bl s keys ctx r w2)"
    and "w1 = w2 \<Longrightarrow> ?t w1 = batch_result ap bl s keys ctx r w2" by simp_all
qed

subsection \<open>Properties\<close>

text \<open>The application with one function of a source behind an adapter, or without it.\<close>

abbreviation with_fetch :: "app \<Rightarrow> string \<Rightarrow> (resource_key \<Rightarrow> nat \<Rightarrow> py_error + raw_result) \<Rightarrow> app" where
  "with_fetch ap nm f \<equiv> ap\<lparr>ap_fetch := (ap_fetch ap)(nm := f)\<rparr>"

abbreviation with_fetch_many :: "app \<Rightarrow> string \<Rightarrow> (resource_key list \<Rightarrow> nat \<Rightarrow> py_error + raw_batch) \<Rightarrow> app" where
  "with_fetch_many ap nm f \<equiv> ap\<lparr>ap_fetch_many := (ap_fetch_many ap)(nm := f)\<rparr>"

abbreviation with_derive ::
  "app \<Rightarrow> string \<Rightarrow> (resource_key \<Rightarrow> (resource_key, snapshot_value) odict \<Rightarrow> nat \<Rightarrow> py_error + raw_result) \<Rightarrow> app" where
  "with_derive ap nm f \<equiv> ap\<lparr>ap_derive := (ap_derive ap)(nm := f)\<rparr>"

lemma coerced_call:
  fixes w :: "'s world"
  assumes g: "\<And>n. g n = res_bind (f n) as_payload"
  shows "(case leased_call ap bl s ctx kind g r w of
        (Inl e, w1) \<Rightarrow> (Inl e, w1) | (Inr raw, w1) \<Rightarrow> coerce_payload ap bl raw nm ctx w1)
    = (case leased_call ap bl s ctx kind f r w of
        (Inl e, w1) \<Rightarrow> (Inl e, w1) | (Inr raw, w1) \<Rightarrow> coerce_payload ap bl raw nm ctx w1)"
proof -
  let ?raw = "leased_call ap bl s ctx kind f r w" and ?cooked = "leased_call ap bl s ctx kind g r w"
  have "\<exists>y. as_payload x = Inr y" for x using as_payload_coerced by blast
  then have c: "fst ?cooked = res_bind (fst ?raw) as_payload" "snd ?cooked = snd ?raw"
    using leased_call_bind [of g f as_payload, OF g] by blast+
  obtain q w1 where raw: "?raw = (q, w1)" by fastforce
  show ?thesis
  proof (cases q)
    case (Inr v)
    obtain p where "as_payload v = Inr p" "\<And>copier c. coerce_payload_sync copier p c = coerce_payload_sync copier v c"
      using as_payload_coerced by blast
    moreover from this have "?cooked = (Inr p, w1)" using c raw Inr by (simp add: prod_eq_iff)
    ultimately show ?thesis using raw Inr by (simp add: coerce_payload_def)
  next
    case (Inl e)
    then have "?cooked = (Inl e, w1)" using c raw by (simp add: prod_eq_iff)
    then show ?thesis using raw Inl by simp
  qed
qed

lemma coerced_call_delay:
  fixes w :: "'s world"
  assumes "ap_delay ap' = ap_delay ap"
  shows "(case leased_call ap' bl s ctx kind f r w of
        (Inl e, w1) \<Rightarrow> (Inl e, w1) | (Inr raw, w1) \<Rightarrow> coerce_payload ap' bl raw nm ctx w1)
    = (case leased_call ap bl s ctx kind f r w of
        (Inl e, w1) \<Rightarrow> (Inl e, w1) | (Inr raw, w1) \<Rightarrow> coerce_payload ap bl raw nm ctx w1)"
  unfolding leased_call_delay [OF assms] coerce_payload_def assms ..

lemma fetch_adapted:
  fixes w :: "'s world"
  shows "fetch_once (with_fetch ap (so_name s) (adapter_fetch f)) bl s k ctx w
    = fetch_once (with_fetch ap (so_name s) (\<lambda>k n. awaited (f k n))) bl s k ctx w"
  unfolding fetch_once_def
  by (subst (1 2) coerced_call_delay [where ap = ap]) (simp_all add: coerced_call adapter_fetch_def)

lemma derive_adapted:
  fixes w :: "'s world"
  shows "derive_once (with_derive ap (so_name s) (adapter_derive f)) bl s k deps ctx w
    = derive_once (with_derive ap (so_name s) (\<lambda>k deps n. awaited (f k deps n))) bl s k deps ctx w"
  unfolding derive_once_def
  by (subst (1 2) coerced_call_delay [where ap = ap]) (simp_all add: coerced_call adapter_derive_def)

lemma batch_adapted:
  fixes w :: "'s world" and ap bl ctx f
  assumes nm: "so_name (ad_source a) = so_name s" and keys: "distinct keys" "keys \<noteq> []"
  defines "adapted \<equiv> fetch_many_once (with_fetch_many ap (so_name s) (adapter_fetch_many a f)) bl s keys ctx w"
    and "plain \<equiv> fetch_many_once (with_fetch_many ap (so_name s) (\<lambda>ks n. awaited (f ks n))) bl s keys ctx w"
  shows "fst adapted = fst plain"
    and "(\<And>n r. awaited (f keys n) = Inr r \<Longrightarrow> \<exists>m. r = RawMapping m \<and> set (od_keys m) \<subseteq> set keys) \<Longrightarrow> adapted = plain"
proof -
  let ?h = "checked_batch (so_name s) keys"
  let ?raw = "leased_call ap bl s ctx BatchKind (\<lambda>n. awaited (f keys n)) None w"
  let ?cooked = "leased_call ap bl s ctx BatchKind (adapter_fetch_many a f keys) None w"
  have g: "adapter_fetch_many a f keys n = res_bind (awaited (f keys n)) ?h" for n
    using keys by (simp add: adapter_fetch_many_def fromkeys_distinct nm)
  note bind = leased_call_bind [of "adapter_fetch_many a f keys" "\<lambda>n. awaited (f keys n)" ?h, OF g]
  have d: "leased_call (with_fetch_many ap nm' g') bl s ctx BatchKind h' None w = leased_call ap bl s ctx BatchKind h' None w"
    for nm' g' and h' :: "nat \<Rightarrow> py_error + raw_batch"
    by (rule leased_call_delay) simp
  have e: "batch_result (with_fetch_many ap nm' g') bl s keys ctx = (batch_result ap bl s keys ctx :: _ \<Rightarrow> 's world \<Rightarrow> _)"
    for nm' g' by (intro ext, rule batch_result_delay) simp
  have ad: "adapted = batch_result ap bl s keys ctx (res_bind (fst ?raw) ?h) (snd ?cooked)"
    unfolding adapted_def fetch_many_result d e Let_def by (simp add: d bind(1))
  have pl: "plain = batch_result ap bl s keys ctx (fst ?raw) (snd ?raw)"
    unfolding plain_def fetch_many_result d e Let_def by (simp add: d)
  have ok: "\<exists>y. ?h (RawMapping m) = Inr y" if "set (od_keys m) \<subseteq> set keys" for m
  proof -
    have "filter (\<lambda>k. k \<notin> set keys) (od_keys m) = []" using that by (auto simp: filter_empty_conv)
    moreover obtain m' where "res_map (\<lambda>(k, v). res_bind (as_payload v) (\<lambda>p. Inr (k, p))) m = Inr m'" using batch_payloads by blast
    ultimately show ?thesis by (simp add: checked_batch_def)
  qed
  show "fst adapted = fst plain" unfolding ad pl
  proof (rule batch_result_checked(1))
    fix m assume "fst ?raw = Inr (RawMapping m)" "set (od_keys m) \<subseteq> set keys"
    with ok show "snd ?cooked = snd ?raw" by (intro bind(2)) auto
  qed
  assume conform: "\<And>n r. awaited (f keys n) = Inr r \<Longrightarrow> \<exists>m. r = RawMapping m \<and> set (od_keys m) \<subseteq> set keys"
  have "snd ?cooked = snd ?raw"
  proof (rule bind(2), intro allI impI)
    fix x assume "fst ?raw = Inr x"
    then obtain n where "awaited (f keys n) = Inr x" using leased_call_from by (metis prod.collapse)
    from conform [OF this] ok show "\<exists>y. ?h x = Inr y" by blast
  qed
  then show "adapted = plain" unfolding ad pl by (intro batch_result_checked(2)) simp_all
qed

text \<open>
  C36: An adapter changes nothing of what its function gives: a fetch, a derivation and, on keys
  without repetition, a batch through an adapter end with the result, and the error, that the
  builder itself makes of what the awaited function returns. The world it leaves is the same as
  well, for a batch when the function keeps to the requested keys.
\<close>

theorem adapters_transparent:
  fixes w :: "'s world"
  assumes "so_name (ad_source a) = so_name s" "distinct keys" "keys \<noteq> []"
  shows "fetch_once (with_fetch ap (so_name s) (adapter_fetch f)) bl s k ctx w
      = fetch_once (with_fetch ap (so_name s) (\<lambda>k n. awaited (f k n))) bl s k ctx w
    \<and> derive_once (with_derive ap (so_name s) (adapter_derive g)) bl s k deps ctx w
      = derive_once (with_derive ap (so_name s) (\<lambda>k deps n. awaited (g k deps n))) bl s k deps ctx w
    \<and> fst (fetch_many_once (with_fetch_many ap (so_name s) (adapter_fetch_many a h)) bl s keys ctx w)
      = fst (fetch_many_once (with_fetch_many ap (so_name s) (\<lambda>ks n. awaited (h ks n))) bl s keys ctx w)
    \<and> ((\<forall>n r. awaited (h keys n) = Inr r \<longrightarrow> (\<exists>m. r = RawMapping m \<and> set (od_keys m) \<subseteq> set keys)) \<longrightarrow>
        fetch_many_once (with_fetch_many ap (so_name s) (adapter_fetch_many a h)) bl s keys ctx w
      = fetch_many_once (with_fetch_many ap (so_name s) (\<lambda>ks n. awaited (h ks n))) bl s keys ctx w)"
  by (intro conjI impI fetch_adapted derive_adapted batch_adapted [OF assms]) blast

text \<open>
  C37: The catalog accepts the source of an adapter exactly when its resilience policy is one and,
  unless unsafe sources are allowed, it declares no blocking calls or runs its function in a worker
  thread under a transport timeout shorter than its own. So an accepted adapter that blocks never
  runs on the event loop.
\<close>

theorem adapter_accepted_iff_bounded:
  assumes made: "mk_adapter kind a = Inr ad"
  shows "(\<exists>g. check_source rd au (ad_source ad) = Inr (strip (aa_name a), g)) \<longleftrightarrow>
      aa_resilience_policy a \<noteq> WrongType
      \<and> (au \<or> aa_blocking_io a = PyBool False
        \<or> call_mode_of ad = ThreadCall
          \<and> (\<exists>t. seconds_of (aa_transport_timeout_seconds a) = Some t
               \<and> (\<forall>s. seconds_of (aa_timeout_seconds a) = Some s \<longrightarrow> t < s)))"
proof -
  obtain g b where g: "inspect_source_timeout_guarantee (ad_source ad) = Inr g" "tg_declaration_present g"
    "aa_blocking_io a = PyBool b" "tg_blocking_io g = b"
    "b \<longrightarrow> tg_status g = blocking_status (call_mode_of ad = ThreadCall)
         (seconds_of (aa_transport_timeout_seconds a)) (seconds_of (aa_timeout_seconds a))"
    using adapter_guarantee [OF made] by blast
  have v: "validate_source (ad_source ad) = Inr () \<longleftrightarrow> aa_resilience_policy a \<noteq> WrongType"
    "so_name (ad_source ad) = strip (aa_name a)" using adapter_validates [OF made] by simp_all
  have "(\<exists>g. check_source rd au (ad_source ad) = Inr (strip (aa_name a), g)) \<longleftrightarrow>
      validate_source (ad_source ad) = Inr () \<and> \<not> (b \<and> tg_status g \<noteq> PROTECTED \<and> \<not> au)"
    using g(1,2,4) v(2) by (auto simp: check_source_def res_iff)
  then show ?thesis unfolding v(1) using g(3,5) by (auto simp: blocking_status_protected)
qed

definition fixture_adapter_args :: adapter_args where
  "fixture_adapter_args = \<lparr>aa_name = '' feed'', aa_priority = 1, aa_timeout_seconds = PyInt 5,
     aa_queue_timeout_seconds = PyNone, aa_max_concurrency = Some 2, aa_max_batch_size = None,
     aa_resilience_policy = NotDeclared, aa_cache_supports = True, aa_run_sync_in_thread = PyBool True,
     aa_blocking_io = PyBool True, aa_transport_timeout_seconds = PyInt 2, aa_coroutine = False\<rparr>"

definition fixture_adapter :: adapter where
  "fixture_adapter = adapter_attributes BatchKind fixture_adapter_args ''feed'' (Some 5) None True True (Some 2)"

lemma fixture_adapter_made: "mk_callable_batch_source fixture_adapter_args = Inr fixture_adapter"
proof -
  have "strip '' feed'' = ''feed''" by code_simp
  then show ?thesis
    by (simp add: mk_callable_batch_source_def mk_adapter_def fixture_adapter_def fixture_adapter_args_def Let_def
      optional_positive_seconds_def double_overflow_def)
qed

theorem adapter_accepted_iff_bounded_witness:
  "\<exists>g. check_source True False (ad_source fixture_adapter) = Inr (strip (aa_name fixture_adapter_args), g)"
  using adapter_accepted_iff_bounded [OF fixture_adapter_made [unfolded mk_callable_batch_source_def], of True False]
  by (simp add: fixture_adapter_def fixture_adapter_args_def adapter_attributes_def call_mode_of_def seconds_of_def)

theorem adapters_transparent_witness:
  "fst (fetch_many_once (with_fetch_many (fixture_app 1) ''feed''
        (adapter_fetch_many fixture_adapter (\<lambda>ks n. Inr (Returned (RawOther ''list''))))) fixture_builder
        (ad_source fixture_adapter) [ResourceKey ''market'' ''quote'' '''' []] (fixture_context None) fixture_world)
   = fst (fetch_many_once (with_fetch_many (fixture_app 1) ''feed'' (\<lambda>ks n. Inr (RawOther ''list''))) fixture_builder
        (ad_source fixture_adapter) [ResourceKey ''market'' ''quote'' '''' []] (fixture_context None) fixture_world)"
  using adapters_transparent [of fixture_adapter "ad_source fixture_adapter" "[ResourceKey ''market'' ''quote'' '''' []]"
      "fixture_app 1" _ fixture_builder _ "fixture_context None" fixture_world _ _ "\<lambda>ks n. Inr (Returned (RawOther ''list''))"]
  by (simp add: fixture_adapter_def adapter_attributes_def awaited_def)

end
