(* ===== verification/Capabilities.thy ===== *)
theory Capabilities
  imports Errors
begin

section \<open>The runtime contract of the package (core/capabilities.py, __init__.py)\<close>

text \<open>
  What an integration may rely on: the stable features, the versions of the serialized schemas and
  the defaults, with the check that raises \<open>CapabilityRequirementError\<close> when a requirement is not
  met. Schema versions are integers once a contract is made; the arguments of the constructor and
  of a requirement are Python values.
\<close>

definition BUILDER_HEALTH_SCHEMA_VERSION :: int where
  "BUILDER_HEALTH_SCHEMA_VERSION = 1"

definition BUILDER_HEALTH_ASSESSMENT_SCHEMA_VERSION :: int where
  "BUILDER_HEALTH_ASSESSMENT_SCHEMA_VERSION = 1"

definition COALESTRA_CAPABILITIES_SCHEMA :: string where
  "COALESTRA_CAPABILITIES_SCHEMA = ''coalestra.capabilities''"

definition COALESTRA_CAPABILITIES_SCHEMA_VERSION :: int where
  "COALESTRA_CAPABILITIES_SCHEMA_VERSION = 1"

definition COALESTRA_API_STABILITY :: string where
  "COALESTRA_API_STABILITY = ''0.6''"

definition STABLE_FEATURES :: "string list" where
  "STABLE_FEATURES =
     [''automatic_observability_buffering'', ''blocking_source_timeout_guarantees'', ''builder_health_assessment'',
      ''builder_health_serialization'', ''controlled_payload_copy_shutdown'', ''degraded_snapshot_results'',
      ''partitioned_request_builds'', ''payload_copy_health'', ''payload_copy_offload'', ''snapshot_acceptance'',
      ''snapshot_consistency'', ''snapshot_requests'', ''source_authority'', ''sync_submission_backlog'',
      ''transactional_revalidation'', ''versioned_error_diagnostics'']"

definition STABLE_SCHEMAS :: "(string, pyval) odict" where
  "STABLE_SCHEMAS =
     [(''builder_health'', PyInt BUILDER_HEALTH_SCHEMA_VERSION),
      (''builder_health_assessment'', PyInt BUILDER_HEALTH_ASSESSMENT_SCHEMA_VERSION),
      (''capabilities'', PyInt COALESTRA_CAPABILITIES_SCHEMA_VERSION),
      (''error_diagnostics'', PyInt ERROR_DIAGNOSTICS_SCHEMA_VERSION)]"

definition DEFAULT_SETTINGS :: "(string, pyval) odict" where
  "DEFAULT_SETTINGS =
     [(''allow_unsafe_blocking_sources'', PyBool False), (''buffer_observability'', PyStr ''auto''),
      (''require_source_timeout_declarations'', PyBool True)]"

record capabilities =
  cp_package_version :: string
  cp_api_stability :: string
  cp_python_requires :: string
  cp_stability :: string
  cp_features :: "string list"
  cp_schemas :: "(string, int) odict"
  cp_defaults :: "(string, pyval) odict"

definition check_schema :: "string \<times> pyval \<Rightarrow> arg_error + (string \<times> int)" where
  "check_schema s =
     res_bind (raise_if (strip (fst s) = '''') (ValueError ''capability schema names cannot be empty'')) (\<lambda>_.
     res_bind (require (as_int (snd s)) (TypeError ''capability schema versions must be integers'')) (\<lambda>version.
     res_bind (raise_if (version < 1) (ValueError ''capability schema versions must be at least 1'')) (\<lambda>_.
       Inr (fst s, version))))"

definition mk_capabilities ::
  "string \<Rightarrow> string \<Rightarrow> string \<Rightarrow> string \<Rightarrow> string list \<Rightarrow> (string, pyval) odict \<Rightarrow> (string, pyval) odict
    \<Rightarrow> arg_error + capabilities" where
  "mk_capabilities version api_stability python_requires stability features schemas defaults =
     (let normalized = fromkeys features
      in res_bind (raise_if (normalized \<noteq> sort normalized) (ValueError ''capability features must be unique and sorted'')) (\<lambda>_.
         res_bind (raise_if (\<exists>f \<in> set normalized. strip f = '''') (ValueError ''capability feature names cannot be empty'')) (\<lambda>_.
         res_bind (res_map check_schema schemas) (\<lambda>schema_values.
           Inr \<lparr>cp_package_version = version, cp_api_stability = api_stability, cp_python_requires = python_requires,
                cp_stability = stability, cp_features = normalized, cp_schemas = schema_values,
                cp_defaults = defaults\<rparr>))))"

definition supports_feature :: "capabilities \<Rightarrow> string \<Rightarrow> bool" where
  "supports_feature cp f \<longleftrightarrow> f \<in> set (cp_features cp)"

text \<open>The schemas a requirement finds missing or too old, with the minimum and the version installed.\<close>

fun schema_mismatches ::
  "capabilities \<Rightarrow> (string, pyval) odict \<Rightarrow> (string, int \<times> int option) odict
    \<Rightarrow> arg_error + (string, int \<times> int option) odict" where
  "schema_mismatches cp [] acc = Inr acc"
| "schema_mismatches cp ((nm, minimum) # rest) acc =
     res_bind (require (as_int minimum) (TypeError ''minimum schema versions must be integers'')) (\<lambda>m.
     res_bind (raise_if (m < 1) (ValueError ''minimum schema versions must be at least 1'')) (\<lambda>_.
       let current = map_of (cp_schemas cp) nm
       in schema_mismatches cp rest
            (if (case current of None \<Rightarrow> True | Some c \<Rightarrow> c < m) then od_set nm (m, current) acc else acc)))"

definition require_features ::
  "capabilities \<Rightarrow> string list \<Rightarrow> (string, pyval) odict \<Rightarrow> py_error + unit" where
  "require_features cp features schemas =
     (let missing = sort (fromkeys (filter (\<lambda>f. \<not> supports_feature cp f) features))
      in res_bind (lift_arg (schema_mismatches cp schemas [])) (\<lambda>mismatches.
           raise_if (missing \<noteq> [] \<or> mismatches \<noteq> []) (CapabilityRequirementError missing mismatches)))"

definition capabilities_to_dict :: "capabilities \<Rightarrow> pyval" where
  "capabilities_to_dict cp =
     PyDict [(''schema'', PyStr COALESTRA_CAPABILITIES_SCHEMA),
             (''schema_version'', PyInt COALESTRA_CAPABILITIES_SCHEMA_VERSION),
             (''package_version'', PyStr (cp_package_version cp)), (''api_stability'', PyStr (cp_api_stability cp)),
             (''python_requires'', PyStr (cp_python_requires cp)), (''stability'', PyStr (cp_stability cp)),
             (''features'', PyList (map PyStr (cp_features cp))),
             (''schemas'', PyDict (map (\<lambda>s. (fst s, PyInt (snd s))) (cp_schemas cp))),
             (''defaults'', PyDict (cp_defaults cp))]"

definition build_capabilities :: "string \<Rightarrow> arg_error + capabilities" where
  "build_capabilities package_version =
     (let normalized = strip package_version
      in res_bind (raise_if (normalized = '''') (ValueError ''package_version cannot be empty'')) (\<lambda>_.
           mk_capabilities normalized COALESTRA_API_STABILITY ''>=3.10'' ''beta'' STABLE_FEATURES STABLE_SCHEMAS
             DEFAULT_SETTINGS))"

definition package_version :: string where
  "package_version = ''0.6.4''"

definition installed_capabilities :: "arg_error + capabilities" where
  "installed_capabilities = build_capabilities package_version"

definition require_capabilities :: "string list \<Rightarrow> (string, pyval) odict \<Rightarrow> py_error + capabilities" where
  "require_capabilities features schemas =
     res_bind (lift_arg installed_capabilities) (\<lambda>installed.
     res_bind (require_features installed features schemas) (\<lambda>_. Inr installed))"

subsection \<open>Lemmas\<close>

text \<open>What is wrong with a required schema, once its minimum is known to be a positive integer.\<close>

definition unmet :: "capabilities \<Rightarrow> string \<Rightarrow> int \<Rightarrow> bool" where
  "unmet cp nm m \<longleftrightarrow> (case map_of (cp_schemas cp) nm of None \<Rightarrow> True | Some c \<Rightarrow> c < m)"

definition positive_version :: "pyval \<Rightarrow> bool" where
  "positive_version v \<longleftrightarrow> (\<exists>m. v = PyInt m \<and> 1 \<le> m)"

definition version_of :: "pyval \<Rightarrow> int" where
  "version_of v = (case as_int v of None \<Rightarrow> 0 | Some m \<Rightarrow> m)"

lemma positive_versionE:
  assumes "positive_version v" obtains m where "v = PyInt m" "version_of v = m" "1 \<le> m"
  using assms by (auto simp: positive_version_def version_of_def)

lemma schema_mismatches_fails:
  "schema_mismatches cp schemas acc = Inl e \<Longrightarrow> \<exists>p \<in> set schemas. \<not> positive_version (snd p)"
proof (induction cp schemas acc rule: schema_mismatches.induct)
  case (2 cp nm minimum rest acc)
  then show ?case by (cases minimum) (auto simp: Let_def positive_version_def raise_if_def split: if_splits)
qed simp

lemma schema_mismatches_succeeds:
  "schema_mismatches cp schemas acc = Inr r \<Longrightarrow> \<forall>p \<in> set schemas. positive_version (snd p)"
proof (induction cp schemas acc rule: schema_mismatches.induct)
  case (2 cp nm minimum rest acc)
  then show ?case by (cases minimum) (auto simp: Let_def positive_version_def raise_if_def split: if_splits)
qed simp

lemma schema_mismatches_at:
  "schema_mismatches cp schemas acc = Inr r \<Longrightarrow> od_ok schemas \<Longrightarrow> \<forall>p \<in> set schemas. fst p \<notin> set (od_keys acc)
   \<Longrightarrow> map_of r nm = (case map_of schemas nm of
        Some v \<Rightarrow> if unmet cp nm (version_of v) then Some (version_of v, map_of (cp_schemas cp) nm) else None
      | None \<Rightarrow> map_of acc nm)"
proof (induction schemas arbitrary: acc)
  case (Cons p rest)
  obtain k v where p: "p = (k, v)" by (cases p)
  from Cons.prems(1) p obtain m where m: "v = PyInt m" by (cases v) auto
  let ?acc = "if unmet cp k m then od_set k (m, map_of (cp_schemas cp) k) acc else acc"
  have r: "schema_mismatches cp rest ?acc = Inr r"
    using Cons.prems(1) unfolding p m by (simp add: res_iff Let_def unmet_def)
  have "set (od_keys ?acc) \<subseteq> insert k (set (od_keys acc))" 
    using od_keys_od_set [of k "(m, map_of (cp_schemas cp) k)" acc] by (cases "unmet cp k m") (simp_all split: if_splits del: list.set_map, auto)
  moreover have "k \<notin> set (od_keys rest)" "\<forall>q \<in> set rest. fst q \<notin> set (od_keys acc)" using Cons.prems(2,3) p by simp_all
  ultimately have fresh: "\<forall>q \<in> set rest. fst q \<notin> set (od_keys ?acc)" by (metis image_eqI insertE list.set_map subsetD)
  have vm: "version_of v = m" using m by (simp add: version_of_def)
  have "od_ok rest" using Cons.prems(2) by simp
  note IH = Cons.IH [OF r this fresh]
  show ?case
  proof (cases "nm = k")
    case True
    then have "map_of rest nm = None" "map_of acc nm = None" using Cons.prems(2,3) p by (auto simp: map_of_None_keys)
    with IH True vm p show ?thesis by simp
  next
    case False
    then have "map_of ?acc nm = map_of acc nm" by simp
    then have "map_of r nm = (case map_of rest nm of
        Some v \<Rightarrow> if unmet cp nm (version_of v) then Some (version_of v, map_of (cp_schemas cp) nm) else None
      | None \<Rightarrow> map_of acc nm)" using IH by (simp only:)
    with False p show ?thesis by simp
  qed
qed simp

lemma sorted_missing:
  "set (sort (fromkeys (filter P xs))) = {x \<in> set xs. P x}" "sorted (sort (fromkeys (filter P xs)))"
  "distinct (sort (fromkeys (filter P xs)))"
  by simp_all

lemma res_map_check_schema:
  "res_map check_schema schemas = Inr ss \<Longrightarrow> od_keys ss = od_keys schemas \<and> (\<forall>p \<in> set ss. strip (fst p) \<noteq> '''' \<and> 1 \<le> snd p)"
proof (induction schemas arbitrary: ss)
  case (Cons s schemas)
  then obtain q qs where q: "check_schema s = Inr q" "res_map check_schema schemas = Inr qs" "ss = q # qs"
    by (auto simp: res_iff)
  then have "fst q = fst s" "strip (fst q) \<noteq> ''''" "1 \<le> snd q" by (auto simp: check_schema_def res_iff)
  with Cons.IH [OF q(2)] q(3) show ?case by simp
qed simp

text \<open>
  a contract is accepted exactly when its features, without repetitions, are sorted and not blank
  and its schemas have names and positive integer versions; it then lists them as given.
\<close>

lemma capabilities_accepted_iff:
  "(\<exists>cp. mk_capabilities v a p s fs schemas defaults = Inr cp) \<longleftrightarrow>
     sorted (fromkeys fs) \<and> (\<forall>f \<in> set fs. strip f \<noteq> '''') \<and> (\<forall>q \<in> set schemas. strip (fst q) \<noteq> '''' \<and> positive_version (snd q))"
proof -
  have one: "(\<exists>r. check_schema q = Inr r) \<longleftrightarrow> strip (fst q) \<noteq> '''' \<and> positive_version (snd q)" for q
    by (cases "snd q") (auto simp: check_schema_def positive_version_def raise_if_def)
  have all: "(\<exists>ss. res_map check_schema qs = Inr ss) \<longleftrightarrow> (\<forall>q \<in> set qs. \<exists>r. check_schema q = Inr r)" for qs
  proof (induction qs)
    case (Cons q qs)
    then show ?case by (auto simp: res_iff)
  qed simp
  have "(fromkeys fs = sort (fromkeys fs)) = sorted (fromkeys fs)"
    by (metis sorted_sort sort_key_id_if_sorted map_ident sorted_sort_id)
  then show ?thesis using all [of schemas] one by (auto simp: mk_capabilities_def Let_def res_iff)
qed

lemma installed_capabilities_made:
  "installed_capabilities = Inr \<lparr>cp_package_version = ''0.6.4'', cp_api_stability = ''0.6'', cp_python_requires = ''>=3.10'',
     cp_stability = ''beta'', cp_features = STABLE_FEATURES,
     cp_schemas = [(''builder_health'', 1), (''builder_health_assessment'', 1), (''capabilities'', 1), (''error_diagnostics'', 1)],
     cp_defaults = DEFAULT_SETTINGS\<rparr>"
  by code_simp

subsection \<open>Properties\<close>

text \<open>
  A requirement with positive integer minimums returns exactly when every feature it names is
  supported and every schema it names is installed in the minimum version or a later one.
  Otherwise it raises an error that lists exactly the missing features, sorted and once each, and
  for exactly the insufficient schemas the minimum and the installed version.
\<close>

lemma capability_requirements_exact:
  assumes ok: "od_ok schemas" "\<forall>p \<in> set schemas. positive_version (snd p)"
  shows "(require_features cp features schemas = Inr () \<longleftrightarrow>
        set features \<subseteq> set (cp_features cp) \<and> (\<forall>(nm, v) \<in> set schemas. \<not> unmet cp nm (version_of v)))
    \<and> (require_features cp features schemas \<noteq> Inr () \<longrightarrow>
        (\<exists>missing mismatches. require_features cp features schemas = Inl (CapabilityRequirementError missing mismatches)
          \<and> sorted missing \<and> distinct missing \<and> set missing = set features - set (cp_features cp)
          \<and> map_of mismatches = (\<lambda>nm. case map_of schemas nm of
              Some v \<Rightarrow> if unmet cp nm (version_of v) then Some (version_of v, map_of (cp_schemas cp) nm) else None
            | None \<Rightarrow> None)))"
proof -
  let ?missing = "sort (fromkeys (filter (\<lambda>f. \<not> supports_feature cp f) features))"
  obtain mm where mm: "schema_mismatches cp schemas [] = Inr mm"
    using ok(2) schema_mismatches_fails [of cp schemas "[]"] by (cases "schema_mismatches cp schemas []") blast+
  have at: "map_of mm = (\<lambda>nm. case map_of schemas nm of
       Some v \<Rightarrow> if unmet cp nm (version_of v) then Some (version_of v, map_of (cp_schemas cp) nm) else None
     | None \<Rightarrow> None)"
    using schema_mismatches_at [OF mm ok(1)] by (auto simp: fun_eq_iff split: option.splits)
  have r: "require_features cp features schemas = raise_if (?missing \<noteq> [] \<or> mm \<noteq> []) (CapabilityRequirementError ?missing mm)"
    by (simp add: require_features_def mm lift_arg_def Let_def)
  have missing: "set ?missing = set features - set (cp_features cp)" by (auto simp: supports_feature_def)
  have "?missing = [] \<longleftrightarrow> set features \<subseteq> set (cp_features cp)" using missing by (metis Diff_eq_empty_iff set_empty)
  moreover have "mm = [] \<longleftrightarrow> (\<forall>(nm, v) \<in> set schemas. \<not> unmet cp nm (version_of v))"
  proof -
    have "mm = [] \<longleftrightarrow> (\<forall>nm. map_of mm nm = None)" by (cases mm) auto
    also have "\<dots> \<longleftrightarrow> (\<forall>nm v. map_of schemas nm = Some v \<longrightarrow> \<not> unmet cp nm (version_of v))"
      unfolding at by (auto split: option.splits)
    also have "\<dots> \<longleftrightarrow> (\<forall>(nm, v) \<in> set schemas. \<not> unmet cp nm (version_of v))"
      using ok(1) by (auto simp: split_beta dest: map_of_SomeD)
    finally show ?thesis .
  qed
  ultimately show ?thesis using r missing at sorted_missing(2,3) [of _ features]
    by (auto simp: raise_if_def)
qed

lemma capability_requirements_exact_witness:
  "\<exists>cp. installed_capabilities = Inr cp
     \<and> require_features cp [''source_authority'', ''time_travel'', ''time_travel''] [(''capabilities'', PyInt 2)]
       = Inl (CapabilityRequirementError [''time_travel''] [(''capabilities'', 2, Some 1)])"
proof -
  obtain cp where cp: "installed_capabilities = Inr cp" "cp_features cp = STABLE_FEATURES"
    "cp_schemas cp = [(''builder_health'', 1), (''builder_health_assessment'', 1), (''capabilities'', 1), (''error_diagnostics'', 1)]"
    using installed_capabilities_made by simp
  let ?r = "require_features cp [''source_authority'', ''time_travel'', ''time_travel''] [(''capabilities'', PyInt 2)]"
  have "?r \<noteq> Inr ()"
    using capability_requirements_exact [of "[(''capabilities'', PyInt 2)]" cp "[''source_authority'', ''time_travel'', ''time_travel'']"]
    by (simp add: positive_version_def unmet_def version_of_def cp)
  moreover have "?r = Inr () \<or> ?r = Inl (CapabilityRequirementError [''time_travel''] [(''capabilities'', 2, Some 1)])"
    by (simp add: require_features_def supports_feature_def cp STABLE_FEATURES_def lift_arg_def)
  ultimately show ?thesis using cp(1) by blast
qed

end
