(* ===== verification/Calm_Resolution.thy ===== *)
theory Calm_Resolution
  imports Resolver
begin

section \<open>What a resolution raises (composition of the resolver, the cache and the executor)\<close>

text \<open>
  The executor turns whatever a source raises, short of a cancellation, into an outcome of the
  key. The dependencies of a derived source are resolved by the resolver itself, so that this
  rests on what a whole resolution raises: here the cache, the copies, the policies, the sources
  and the joined flights are composed, and no step of a resolution makes a cancellation of its own.
\<close>

subsection \<open>Calm parts\<close>

abbreviation calm_act :: "('s, 'a) act \<Rightarrow> bool" where
  "calm_act \<equiv> raises_only is_exception"

definition calm_batch_ops :: "'s batch_ops \<Rightarrow> bool" where
  "calm_batch_ops b \<longleftrightarrow> (\<forall>ks now policies. calm_act (bo_get_many b ks now policies))
     \<and> (\<forall>vs. calm_act (bo_set_many b vs)) \<and> (\<forall>ks. calm_act (bo_invalidate_many b ks))"

definition calm_cache_ops :: "'s cache_ops \<Rightarrow> bool" where
  "calm_cache_ops c \<longleftrightarrow> (\<forall>k now policy. calm_act (co_get c k now policy)) \<and> (\<forall>v. calm_act (co_set c v))
     \<and> (\<forall>k. calm_act (co_invalidate c k)) \<and> (\<forall>b. co_batch c = Some b \<longrightarrow> calm_batch_ops b)
     \<and> (\<forall>f v force equal. co_set_if_newer c = Some f \<longrightarrow> calm_act (f v force equal))
     \<and> (\<forall>f vs force equal. co_set_many_if_newer c = Some f \<longrightarrow> calm_act (f vs force equal))"

text \<open>What the application gives a resolution beyond the sources: supports, ranks and flights to join.\<close>

definition calm_surroundings :: "app \<Rightarrow> 's builder \<Rightarrow> bool" where
  "calm_surroundings ap bl \<longleftrightarrow> (\<forall>src k. ap_supports ap src k \<noteq> Inl CancelledError)
     \<and> (\<forall>k. authority_resolve (bl_authority bl) k \<noteq> Inl CancelledError)
     \<and> (\<forall>k n. ap_joined ap k n \<noteq> Some (Inl CancelledError))"

text \<open>What the construction of a builder checks of its sources and of its bound on tasks.\<close>

definition checked_builder :: "'s builder \<Rightarrow> bool" where
  "checked_builder bl \<longleftrightarrow> 1 \<le> bl_max_pending_tasks bl
     \<and> (\<forall>s \<in> set (sg_sources (bl_catalog bl)). strip (so_name s) \<noteq> '''' \<and> (\<exists>r. resilience_for (bl_catalog bl) s = Inr r))"

subsection \<open>Rules\<close>

lemma is_exception_iff: "is_exception e \<longleftrightarrow> e \<noteq> CancelledError"
  by (simp add: is_exception_def)

lemma calm_key_error [simp]: "is_exception (key_error k)" "is_exception (KeyError m)" "is_exception (OtherError t m)"
  "is_exception (PayloadCopySubsystemClosedError c)"
  by (simp_all add: key_error_def is_exception_def)

lemma calm_require: "is_exception e \<Longrightarrow> calm_act (lift_res (require x e))"
  by (cases x) (auto intro!: raises_only_lift)

lemma calm_handle:
  assumes "calm_act m" "\<And>x. calm_act (f x)" "\<And>e. is_exception e \<Longrightarrow> calm_act (h e)"
  shows "calm_act (handle m f h)"
  by (rule raises_onlyI, erule handle_cases) (auto dest: raises_onlyD [OF assms(1)] raises_onlyD [OF assms(2)] raises_onlyD [OF assms(3)])

lemma calm_on_cache: "calm_act f \<Longrightarrow> calm_act (on_cache f)"
  by (rule raises_onlyI) (auto simp: on_cache_def Let_def split: prod.splits dest: raises_onlyD)

lemma calm_within_deadline:
  assumes "calm_act operation" shows "calm_act (within_deadline ap ctx nm operation)"
  by (rule raises_onlyI)
    (auto simp: within_deadline_def await_with_deadline_def dest: raises_onlyD [OF assms] remaining_calm
      split: sum.splits option.splits if_splits prod.splits)

lemma calm_run_bounded: "(\<And>x. x \<in> set xs \<Longrightarrow> calm_act (f x)) \<Longrightarrow> calm_act (run_bounded m f xs)"
  by (auto simp: run_bounded_def intro!: raises_only_each raises_only_throw)

lemmas calm_rules = raises_only_bind raises_only_ret raises_only_throw raises_only_fold calm_require calm_handle

lemma res_map_calm: "(\<And>x e. x \<in> set xs \<Longrightarrow> f x = Inl e \<Longrightarrow> is_exception e) \<Longrightarrow> res_map f xs = Inl e \<Longrightarrow> is_exception e"
  by (induction xs) (auto simp: res_iff)

lemma policy_calm: "calm ap bl \<Longrightarrow> policy_resolve (bl_policies bl) k = Inl e \<Longrightarrow> is_exception e"
  by (auto simp: calm_def is_exception_iff)

lemma calm_policy: "calm ap bl \<Longrightarrow> calm_act (lift_res (policy_resolve (bl_policies bl) k))"
  by (rule raises_only_lift) (rule policy_calm)

subsection \<open>The cache of a resolution\<close>

lemma cached_copy_calm:
  assumes "calm ap bl" shows "calm_act (cached_copy ap bl ctx v stale extra)"
proof -
  have c: "calm_copier (bl_copier bl)" using assms by (simp add: calm_def)
  show ?thesis unfolding cached_copy_def async_clone_def
    by (rule raises_onlyI, erule copy_run_calm) (rule clone_calm [OF c])
qed

lemma read_unfiltered_calm:
  assumes "calm_cache_ops (bl_ops bl)" shows "calm_act (read_unfiltered ap bl ctx now k memo)"
  using assms
  by (auto simp: read_unfiltered_def calm_cache_ops_def split: option.splits
      intro!: calm_rules calm_within_deadline calm_on_cache)

lemma dependencies_loop_calm:
  assumes "\<And>k memo. calm_act (read k memo)" "\<And>d path st. calm_act (below d path st)"
  shows "calm_act (dependencies_loop read below path ds st)"
proof (induction ds arbitrary: st)
  case (Cons d ds)
  obtain k expected where "d = (k, expected)" by fastforce
  then show ?case
    by (cases st) (auto intro!: calm_rules assms Cons.IH split: option.splits)
qed (auto intro!: calm_rules simp: split_paired_all)

lemma access_dependencies_current_calm:
  assumes "calm_cache_ops (bl_ops bl)"
  shows "calm_act (access_dependencies_current n ap bl ctx now v visiting st)"
proof (induction n arbitrary: v visiting st)
  case (Suc n)
  then show ?case
    by (auto intro!: calm_rules dependencies_loop_calm read_unfiltered_calm [OF assms])
qed (auto intro!: calm_rules)

lemma access_invalidate_many_calm:
  assumes "calm_cache_ops (bl_ops bl)" shows "calm_act (access_invalidate_many ap bl ctx keys)"
  using assms
  by (auto simp: access_invalidate_many_def calm_cache_ops_def calm_batch_ops_def split: option.splits
      intro!: calm_rules calm_within_deadline calm_on_cache calm_run_bounded)

lemma filter_invalid_dependencies_calm:
  assumes "calm_cache_ops (bl_ops bl)" shows "calm_act (filter_invalid_dependencies ap bl ctx now lookups)"
proof -
  have "calm_act (filter_lookup ap bl ctx now item st)" for item st
    by (cases item; cases st)
      (auto simp: filter_lookup_def split: option.splits intro!: calm_rules access_dependencies_current_calm [OF assms])
  then show ?thesis
    by (auto simp: filter_invalid_dependencies_def intro!: calm_rules access_invalidate_many_calm [OF assms])
qed

lemma read_cache_calm:
  assumes "calm_cache_ops (bl_ops bl)" shows "calm_act (read_cache ap bl ctx unique now policies)"
  using assms
  by (auto simp: read_cache_def calm_cache_ops_def calm_batch_ops_def split: option.splits
      intro!: calm_rules calm_within_deadline calm_on_cache calm_run_bounded)

lemma access_get_many_calm:
  assumes "calm ap bl" "calm_cache_ops (bl_ops bl)"
  shows "calm_act (access_get_many ap bl ctx keys now policies)"
proof -
  have c: "calm_copier (bl_copier bl)" using assms(1) by (simp add: calm_def)
  have items: "is_exception e"
    if "res_map (\<lambda>k. res_bind (require (map_of ls k) (key_error k)) (\<lambda>l. Inr (k, l))) ks = Inl e" for ls ks e
    by (rule res_map_calm [OF _ that]) (auto simp: res_iff)
  have lookup: "is_exception e"
    if "res_bind (isolated_lookup (bl_copier bl) (fst item) (snd item)) (\<lambda>l. Inr (fst item, l)) = Inl e" for item e
    using that by (auto simp: isolated_lookup_def res_iff split: option.splits dest: clone_calm [OF c])
  have copies: "calm_act (copy_map (ap_delay ap) (bl_copy bl)
      (\<lambda>item. res_bind (isolated_lookup (bl_copier bl) (fst item) (snd item)) (\<lambda>l. Inr (fst item, l))) d nm xs)" for d nm xs
    by (rule raises_onlyI, erule copy_map_calm) (rule lookup)
  show ?thesis
    by (auto simp: access_get_many_def Let_def intro!: calm_rules read_cache_calm [OF assms(2)] copies raises_only_lift
        filter_invalid_dependencies_calm [OF assms(2)] dest: items)
qed

lemma write_cache_calm:
  assumes "calm_cache_ops (bl_ops bl)" shows "calm_act (write_cache ap bl ctx vs)"
  using assms
  by (auto simp: write_cache_def calm_cache_ops_def calm_batch_ops_def split: option.splits
      intro!: calm_rules calm_within_deadline calm_on_cache calm_run_bounded)

lemma access_set_many_calm:
  assumes "calm ap bl" "calm_cache_ops (bl_ops bl)" shows "calm_act (access_set_many ap bl ctx vs)"
proof -
  have c: "calm_copier (bl_copier bl)" using assms(1) by (simp add: calm_def)
  have copies: "calm_act (copy_map (ap_delay ap) (bl_copy bl)
      (\<lambda>v. clone_snapshot_value (bl_copier bl) v (''cache write for '' @ key_str (sv_key v)) no_changes) d nm xs)" for d nm xs
    by (rule raises_onlyI, erule copy_map_calm) (rule clone_calm [OF c])
  show ?thesis unfolding access_set_many_def Let_def
    by (cases "od_of (map (\<lambda>v. (sv_key v, v)) vs) = []")
      (simp_all only: list.map map_is_Nil_conv if_True if_False simp_thms
        raises_only_ret raises_only_bind [OF copies write_cache_calm [OF assms(2)]])
qed

lemmas cache_access_calm = cached_copy_calm access_get_many_calm access_set_many_calm

subsection \<open>The sources of a resolution\<close>

lemma supports_raises: "supports cat s k answer sc d = (Inl e, sc', d') \<Longrightarrow> answer = Inl e"
  by (auto simp: supports_def Let_def split: option.splits sum.splits if_splits)

lemma consider_source_calm:
  assumes "calm_surroundings ap bl" shows "calm_act (consider_source ap bl s k st)"
  using assms
  by (intro raises_onlyI)
    (auto simp: consider_source_def Let_def is_exception_iff calm_surroundings_def dest: supports_raises
      split: prod.splits if_splits sum.splits)

lemma build_snapshot_value_calm:
  assumes "calm ap bl" "calm_surroundings ap bl"
  shows "calm_act (build_snapshot_value ap bl k s p attempts latency deps)"
proof (rule raises_onlyI)
  fix w e w'
  assume run: "build_snapshot_value ap bl k s p attempts latency deps w = (Inl e, w')"
  have rank: "is_exception x" if "authority_rank_for (bl_authority bl) k nm = Inl x" for nm x
    using that assms(2) by (auto simp: authority_rank_for_def calm_surroundings_def is_exception_iff res_iff dest!: lift_arg_Inl)
  have future: "is_exception x" if "validate_payload_timestamp bl k p now = Inl x" for now x
    using that by (auto simp: validate_payload_timestamp_def Let_def split: option.splits if_splits)
  show "is_exception e" using run
    by (auto simp: build_snapshot_value_def Let_def res_iff dest: rank future policy_calm [OF assms(1)] dest!: lift_arg_Inl)
qed

lemma accept_value_calm:
  assumes "calm ap bl" shows "calm_act (accept_value bl s a k st v)"
  by (auto simp: accept_value_def intro!: calm_rules calm_policy [OF assms])

lemma judge_attempt_calm:
  assumes "calm ap bl" "calm_surroundings ap bl" shows "calm_act (judge_attempt ap bl s attempts k st)"
  unfolding judge_attempt_def
  by (rule raises_only_bind)
    (auto intro!: calm_rules accept_value_calm [OF assms(1)] build_snapshot_value_calm [OF assms] split: sum.splits)

lemma adopt_winner_calm:
  assumes "calm ap bl" shows "calm_act (adopt_winner ap bl ctx rs written ow)"
  by (auto simp: adopt_winner_def intro!: calm_rules cached_copy_calm [OF assms] split: option.splits)

lemma cache_fresh_calm:
  assumes "calm ap bl" "calm_cache_ops (bl_ops bl)" shows "calm_act (cache_fresh ap bl ctx fresh ow)"
  by (auto simp: cache_fresh_def intro!: calm_rules access_set_many_calm [OF assms] adopt_winner_calm [OF assms(1)]
      split: option.splits)

text \<open>A resolver whose own resolutions are calm, which are the dependencies of derived sources.\<close>

definition calm_resolver :: "'s resolver \<Rightarrow> bool" where
  "calm_resolver resolve \<longleftrightarrow> (\<forall>ks anc lo. calm_act (resolve ks anc lo))"

lemma checked_attempt_total:
  assumes "calm ap bl" "checked_builder bl" "s \<in> set (sg_sources (bl_catalog bl))" "calm_resolver resolve"
  shows "raises_only P (attempt ap bl resolve s keys ctx anc lo)"
proof -
  from assms(2,3) obtain r where r: "strip (so_name s) \<noteq> ''''" "resilience_for (bl_catalog bl) s = Inr r" "1 \<le> bl_max_pending_tasks bl"
    by (auto simp: checked_builder_def)
  show ?thesis by (rule attempt_total [OF assms(1) r]) (use assms(4) in \<open>simp add: calm_resolver_def\<close>)
qed

text \<open>A program in which no step of a resolution makes a cancellation.\<close>

definition calm_program :: "app \<Rightarrow> 's builder \<Rightarrow> bool" where
  "calm_program ap bl \<longleftrightarrow> calm ap bl \<and> calm_surroundings ap bl \<and> calm_cache_ops (bl_ops bl) \<and> checked_builder bl"

lemma calm_programD:
  assumes "calm_program ap bl"
  shows "calm ap bl" "calm_surroundings ap bl" "calm_cache_ops (bl_ops bl)" "checked_builder bl"
  using assms by (simp_all add: calm_program_def)

lemma calm_program_access:
  assumes "calm_program ap bl"
  shows "calm_act (cached_copy ap bl ctx v stale extra)" "calm_act (access_get_many ap bl ctx keys now policies)"
    "calm_act (access_set_many ap bl ctx vs)" "calm_act (lift_res (policy_resolve (bl_policies bl) k))"
  using calm_programD [OF assms] by (auto intro: cache_access_calm calm_policy)

lemma try_source_calm:
  assumes "calm_program ap bl" "s \<in> set (sg_sources (bl_catalog bl))" "calm_resolver resolve"
  shows "calm_act (try_source ap bl resolve ctx anc lo s ow)"
proof -
  note c = calm_programD [OF assms(1)]
  show ?thesis unfolding try_source_def
    by (auto intro!: calm_rules consider_source_calm [OF c(2)] checked_attempt_total [OF c(1,4) assms(2,3)]
        judge_attempt_calm [OF c(1,2)] cache_fresh_calm [OF c(1,3)])
qed

lemma try_sources_calm:
  assumes "calm_program ap bl" "calm_resolver resolve"
  shows "set ss \<subseteq> set (sg_sources (bl_catalog bl)) \<Longrightarrow> calm_act (try_sources ap bl resolve ctx anc lo ss ow)"
proof (induction ss arbitrary: ow)
  case (Cons s ss)
  then have "s \<in> set (sg_sources (bl_catalog bl))" by simp
  from try_source_calm [OF assms(1) this assms(2)] Cons show ?case by (auto intro!: calm_rules)
qed (auto intro!: calm_rules)

lemma conclude_key_calm: "calm_program ap bl \<Longrightarrow> calm_act (conclude_key bl k st)"
  by (cases st) (auto simp: conclude_key_def Let_def intro!: calm_rules calm_program_access(4) split: option.splits)

lemma resolve_owned_keys_calm:
  assumes "calm_program ap bl" "calm_resolver resolve"
  shows "calm_act (resolve_owned_keys ap bl resolve ctx anc lo keys)"
  unfolding resolve_owned_keys_def
  by (auto intro!: calm_rules try_sources_calm [OF assms] conclude_key_calm [OF assms(1)] calm_program_access [OF assms(1)])

subsection \<open>The requested keys\<close>

lemma sort_key_calm: "calm_act (sort_key_in k sk)"
  by (rule raises_onlyI) (auto simp: sort_key_in_def split: if_splits option.splits)

lemma schedule_refresh_calm: "calm_act (schedule_refresh ctx reason k)"
  by (rule raises_onlyI) (auto simp: schedule_refresh_def split: if_splits)

lemma judge_lookup_calm:
  assumes "calm_program ap bl" shows "calm_act (judge_lookup ap bl ctx policies lookups k sk)"
  unfolding judge_lookup_def handle_miss_def fresh_hit_def stale_hit_def deliver_cached_def
  by (auto intro!: calm_rules schedule_refresh_calm calm_program_access [OF assms] split: option.splits)

lemma await_joined_calm:
  "(\<And>k r. (k, r) \<in> set joined \<Longrightarrow> r \<noteq> Inl CancelledError) \<Longrightarrow> calm_act (await_joined ap joined)"
  by (induction joined) (force intro!: calm_rules raises_only_lift simp: is_exception_iff)+

lemma run_flight_calm:
  assumes "calm_surroundings ap bl" "\<And>own. calm_act (factory own)"
  shows "calm_act (run_flight ap factory keys)"
proof -
  have joined: "calm_act (await_joined ap (List.map_filter (\<lambda>k. map_option (\<lambda>r. (k, r)) (ap_joined ap k n)) ks))" for ks n
    by (rule await_joined_calm) (use assms(1) in \<open>auto simp: List.map_filter_def calm_surroundings_def split: option.splits\<close>)
  show ?thesis unfolding run_flight_def Let_def
    by (intro raises_only_bind joined) (auto intro!: calm_rules assms(2))
qed

lemma mark_coalesced_calm: "calm_act (lift_res (mark_coalesced v))"
  unfolding mark_coalesced_def by (rule raises_only_lift) (auto dest: lift_arg_Inl)

lemma settle_key_calm:
  assumes "calm_program ap bl" shows "calm_act (settle_key ap bl ctx stale results k st)"
  unfolding settle_key_def settle_value_def settle_error_def settle_fallback_def join_value_def
  by (auto intro!: calm_rules mark_coalesced_calm calm_program_access [OF assms]
      split: option.splits sum.splits)

lemma resolve_unanswered_calm:
  assumes "calm_program ap bl" "calm_resolver resolve"
  shows "calm_act (resolve_unanswered ap bl resolve ctx anc lo sk)"
  unfolding resolve_unanswered_def resolve_pending_def Let_def
  by (auto intro!: calm_rules resolve_owned_keys_calm [OF assms] run_flight_calm [OF calm_programD(2) [OF assms(1)]]
      settle_key_calm [OF assms(1)])

lemma policies_for_calm: "calm_program ap bl \<Longrightarrow> policies_for bl keys = Inl e \<Longrightarrow> is_exception e"
  unfolding policies_for_def
  by (erule res_map_calm [rotated]) (auto simp: res_iff dest: policy_calm [OF calm_programD(1)])

lemma resolve_step_calm:
  assumes "calm_program ap bl" "calm_resolver resolve" shows "calm_resolver (resolve_step ap bl ctx resolve)"
  unfolding calm_resolver_def resolve_step_def
  by (intro allI raises_only_bind raises_only_fold sort_key_calm raises_only_lift raises_only_ret
      calm_program_access [OF assms(1)] judge_lookup_calm [OF assms(1)] resolve_unanswered_calm [OF assms])
    (rule policies_for_calm [OF assms(1)])

text \<open>A cancellation enters a resolution only from outside, however far the recursion is unrolled.\<close>

lemma resolve_many_calm:
  assumes "calm_program ap bl" shows "calm_resolver (resolve_many n unreached ap bl ctx)"
proof (induction n)
  case 0
  then show ?case by (simp add: calm_resolver_def unreached_def raises_only_def)
next
  case (Suc n)
  then show ?case using resolve_step_calm [OF assms] by simp
qed

subsection \<open>The in-memory cache\<close>

lemma isolator_map_calm:
  assumes "\<And>x e. operation x = Inl e \<Longrightarrow> is_exception e" "isolator_map nm closing operation xs = Inl e"
  shows "is_exception e"
  using assms by (auto simp: isolator_map_def split: if_splits intro: res_map_calm)

lemma get_many_calm:
  assumes "calm_copier copier" shows "calm_act (get_many copier ks now policies)"
proof -
  have "is_exception e" if "clone_lookup copier item = Inl e" for item e
    using that by (auto simp: clone_lookup_def res_iff split: option.splits dest: clone_calm [OF assms])
  then show ?thesis
    by (intro raises_onlyI) (auto simp: get_many_def Let_def split: if_splits prod.splits dest: isolator_map_calm [rotated])
qed

lemma write_rounds_calm:
  assumes "calm_copier copier"
  shows "fst (write_rounds copier env force equal cands n prepared c) = Inl e \<Longrightarrow> is_exception e"
  using assms
proof (induction copier env force equal cands n prepared c rule: write_rounds.induct)
  case (1 copier env force equal cands n prepared c)
  let ?missing = "unprepared cands force equal prepared c"
  let ?copies = "isolator_map ''cache'' (mc_copies_closing c) (prepare_candidate copier) ?missing"
  have copy: "is_exception x" if "prepare_candidate copier v = Inl x" for v x
    using that by (auto simp: prepare_candidate_def res_iff dest: clone_calm [OF 1(3)])
  show ?case
  proof (cases "?missing = []")
    case True
    with 1(2) show ?thesis by (simp add: write_rounds_commit)
  next
    case False
    show ?thesis
    proof (cases ?copies)
      case (Inl x)
      with False 1(2) copy show ?thesis by (auto simp: write_rounds_fail dest: isolator_map_calm [rotated])
    next
      case (Inr copies)
      with False 1 show ?thesis by (auto simp: write_rounds_next)
    qed
  qed
qed

lemma set_many_if_newer_calm:
  assumes "calm_copier copier" shows "calm_act (set_many_if_newer copier env vs force equal)"
proof -
  have result: "is_exception e" if "clone_result copier item = Inl e" for item e
    using that by (auto simp: clone_result_def res_iff dest: clone_calm [OF assms] dest!: lift_arg_Inl split: option.splits)
  show ?thesis
  proof (rule raises_onlyI)
    fix c e c'
    assume run: "set_many_if_newer copier env vs force equal c = (Inl e, c')"
    obtain r c1 where rounds: "write_rounds copier env force equal (map snd (select_candidates vs)) 0 [] c = (r, c1)" by fastforce
    have "is_exception x" if "r = Inl x" for x using write_rounds_calm [OF assms] rounds that by (metis fst_conv)
    with run rounds result show "is_exception e"
      by (auto simp: set_many_if_newer_def Let_def res_iff split: if_splits dest: isolator_map_calm [rotated])
  qed
qed

lemma set_if_newer_calm:
  assumes "calm_copier copier" shows "calm_act (set_if_newer copier env v force equal)"
  by (intro raises_onlyI)
    (auto simp: set_if_newer_def res_iff split: prod.splits dest: raises_onlyD [OF set_many_if_newer_calm [OF assms]])

text \<open>The builder's own cache raises no cancellation.\<close>

lemma memory_cache_calm:
  assumes "calm_copier copier" shows "calm_cache_ops (memory_cache_ops copier)"
proof -
  note many = get_many_calm [OF assms] set_many_if_newer_calm [OF assms] set_if_newer_calm [OF assms]
  have "calm_act (get_one copier k now policy)" for k now policy
    by (intro raises_onlyI) (auto simp: get_one_def res_iff split: prod.splits dest: raises_onlyD [OF many(1)])
  moreover have "calm_act (set_one copier idle v)" for v
    by (intro raises_onlyI) (auto simp: set_one_def res_iff split: prod.splits dest: raises_onlyD [OF many(3)])
  moreover have "calm_act (set_many copier idle vs)" for vs
    by (intro raises_onlyI) (auto simp: set_many_def res_iff split: prod.splits dest: raises_onlyD [OF many(2)])
  moreover have "calm_act (\<lambda>c. (Inr (), f c))" for f :: "memory_cache \<Rightarrow> memory_cache" by (simp add: raises_only_def)
  ultimately show ?thesis using many
    by (simp add: calm_cache_ops_def calm_batch_ops_def memory_cache_ops_def)
qed

end
