(* ===== verification/Construction.thy ===== *)
theory Construction
  imports Builder Calm_Resolution Shutdown Copy_Workers Buffered
begin

section \<open>Construction of a builder (orchestration/builder.py)\<close>

text \<open>
  \<open>SnapshotBuilder.__init__\<close>: the checks of its arguments in their order, the defaults for what is
  not given, and the components it makes and connects. What the theory adds to the components is
  that a builder that was constructed satisfies what they assume of it.
\<close>

subsection \<open>Arguments\<close>

text \<open>
  A cache given by the application: its state and operations, and its truth value, which \<^verbatim>\<open>or\<close>
  asks for and a class with \<^verbatim>\<open>__len__\<close> makes false while the cache is empty.
\<close>

record 'c given_cache =
  gc_state :: 'c
  gc_ops :: "'c cache_ops"
  gc_truth :: bool

text \<open>
  What the constructor asks of a sink: whether it buffers itself, and whether it declares not to
  block. Sinks are taken to have no truth value of their own.
\<close>

record sink_attributes =
  si_buffered :: bool
  si_non_blocking :: bool

text \<open>
  The arguments, in their order. An argument that the constructor checks at run time is a Python
  value; \<open>ba_observability_overflow\<close> is \<open>None\<close> when it is not a \<open>BufferOverflowPolicy\<close>.
\<close>

record 'c builder_args =
  ba_sources :: "source list"
  ba_default_policy :: "freshness_policy option"
  ba_policy_resolver :: "policy_resolver option"
  ba_authority_policy :: "authority_policy option"
  ba_authority_resolver :: "authority_resolver option"
  ba_cache :: "'c given_cache option"
  ba_retry_policy :: "retry_policy option"
  ba_circuit_breaker :: "circuit_breaker option"
  ba_default_resilience :: "resilience_policy option"
  ba_source_resilience :: "(string \<times> resilience_policy) list"
  ba_resilience_resolver :: "resilience_resolver option"
  ba_metrics :: "sink_attributes option"
  ba_events :: "sink_attributes option"
  ba_max_concurrency :: int
  ba_max_pending_tasks :: "int option"
  ba_source_concurrency :: "(string \<times> int) list"
  ba_observation_policy :: "observation_policy option"
  ba_cache_source_support :: bool
  ba_source_support_cache_max_entries :: "int option"
  ba_manage_lifecycle :: bool
  ba_payload_copier :: "payload_copier option"
  ba_run_payload_copies_in_thread :: pyval
  ba_max_copy_concurrency :: pyval
  ba_cache_run_payload_copies_in_thread :: pyval
  ba_cache_max_copy_concurrency :: pyval
  ba_copy_shutdown_timeout_seconds :: pyval
  ba_buffer_observability :: pyval
  ba_observability_max_pending :: pyval
  ba_observability_overflow :: "overflow_policy option"
  ba_observability_shutdown_timeout_seconds :: pyval
  ba_observability_drain_on_shutdown :: pyval
  ba_require_source_timeout_declarations :: pyval
  ba_allow_unsafe_blocking_sources :: pyval
  ba_source_transport_timeout_grace_seconds :: pyval
  ba_source_deadline_dispatch_grace_seconds :: pyval

subsection \<open>Checks\<close>

definition below_one :: "int option \<Rightarrow> bool" where
  "below_one n = (case n of None \<Rightarrow> False | Some m \<Rightarrow> m < 1)"

text \<open>\<^verbatim>\<open>x <= 0\<close> on a number; NaN is not at most zero.\<close>

fun not_above_zero :: "pynum \<Rightarrow> bool" where
  "not_above_zero (NInt i) = (i \<le> 0)"
| "not_above_zero (NFloat f) = fle f (Fin 0)"

definition flag_arg :: "string \<Rightarrow> pyval \<Rightarrow> arg_error + bool" where
  "flag_arg nm v = require (as_bool v) (TypeError (nm @ '' must be a boolean''))"

definition positive_int_arg :: "string \<Rightarrow> pyval \<Rightarrow> arg_error + int" where
  "positive_int_arg nm v =
     res_bind (require (as_int v) (TypeError (nm @ '' must be an integer''))) (\<lambda>n.
     res_bind (raise_if (n < 1) (ValueError (nm @ '' must be at least 1''))) (\<lambda>_. Inr n))"

definition positive_number_arg :: "string \<Rightarrow> pyval \<Rightarrow> arg_error + pynum" where
  "positive_number_arg nm v =
     res_bind (require (as_number v) (TypeError (nm @ '' must be a number''))) (\<lambda>n.
     res_bind (raise_if (not_above_zero n) (ValueError (nm @ '' must be positive''))) (\<lambda>_. Inr n))"

definition grace_arg :: "string \<Rightarrow> pyval \<Rightarrow> arg_error + rat" where
  "grace_arg nm v =
     res_bind (require (as_number v) (TypeError (nm @ '' must be a number''))) (\<lambda>n.
     res_bind (to_double n) (\<lambda>f.
       case f of
         Fin t \<Rightarrow> if t < 0 then Inl (ValueError (nm @ '' cannot be negative'')) else Inr t
       | _ \<Rightarrow> Inl (ValueError (nm @ '' must be finite''))))"

text \<open>The arguments that have been checked, as the rest of the constructor uses them.\<close>

record checked_args =
  ck_copy_timeout :: pynum
  ck_buffer_observability :: "bool option"
  ck_observability_max_pending :: int
  ck_observability_overflow :: overflow_policy
  ck_observability_timeout :: pynum
  ck_drain :: bool
  ck_transport_grace :: rat
  ck_dispatch_grace :: rat

definition check_builder_args :: "'c builder_args \<Rightarrow> arg_error + checked_args" where
  "check_builder_args a =
     res_bind (raise_if (ba_authority_policy a \<noteq> None \<and> ba_authority_resolver a \<noteq> None)
       (ValueError ''authority_policy and authority_resolver cannot be provided together'')) (\<lambda>_.
     res_bind (raise_if (ba_sources a = []) (ValueError ''at least one source is required'')) (\<lambda>_.
     res_bind (raise_if (ba_max_concurrency a < 1) (ValueError ''max_concurrency must be at least 1'')) (\<lambda>_.
     res_bind (raise_if (below_one (ba_max_pending_tasks a)) (ValueError ''max_pending_tasks must be at least 1 or None'')) (\<lambda>_.
     res_bind (raise_if (below_one (ba_source_support_cache_max_entries a))
       (ValueError ''source_support_cache_max_entries must be at least 1 or None'')) (\<lambda>_.
     res_bind (optional_bool ''run_payload_copies_in_thread'' (ba_run_payload_copies_in_thread a)) (\<lambda>_.
     res_bind (positive_int_arg ''max_copy_concurrency'' (ba_max_copy_concurrency a)) (\<lambda>_.
     res_bind (optional_bool ''cache_run_payload_copies_in_thread'' (ba_cache_run_payload_copies_in_thread a)) (\<lambda>_.
     res_bind (positive_int_arg ''cache_max_copy_concurrency'' (ba_cache_max_copy_concurrency a)) (\<lambda>cache_copies.
     res_bind (positive_number_arg ''copy_shutdown_timeout_seconds'' (ba_copy_shutdown_timeout_seconds a)) (\<lambda>copy_timeout.
     res_bind (optional_bool ''buffer_observability'' (ba_buffer_observability a)) (\<lambda>buffer.
     res_bind (positive_int_arg ''observability_max_pending'' (ba_observability_max_pending a)) (\<lambda>max_pending.
     res_bind (require (ba_observability_overflow a) (TypeError ''observability_overflow must be a BufferOverflowPolicy'')) (\<lambda>overflow.
     res_bind (positive_number_arg ''observability_shutdown_timeout_seconds'' (ba_observability_shutdown_timeout_seconds a)) (\<lambda>timeout.
     res_bind (flag_arg ''observability_drain_on_shutdown'' (ba_observability_drain_on_shutdown a)) (\<lambda>drain.
     res_bind (flag_arg ''require_source_timeout_declarations'' (ba_require_source_timeout_declarations a)) (\<lambda>_.
     res_bind (flag_arg ''allow_unsafe_blocking_sources'' (ba_allow_unsafe_blocking_sources a)) (\<lambda>_.
     res_bind (grace_arg ''source_transport_timeout_grace_seconds'' (ba_source_transport_timeout_grace_seconds a)) (\<lambda>transport_grace.
     res_bind (grace_arg ''source_deadline_dispatch_grace_seconds'' (ba_source_deadline_dispatch_grace_seconds a)) (\<lambda>dispatch_grace.
     res_bind (raise_if (ba_cache a \<noteq> None \<and> (ba_cache_run_payload_copies_in_thread a \<noteq> PyNone \<or> cache_copies \<noteq> 4))
       (ValueError ''cache payload copy settings apply only to the default AsyncMemoryCache'')) (\<lambda>_.
       Inr \<lparr>ck_copy_timeout = copy_timeout, ck_buffer_observability = buffer, ck_observability_max_pending = max_pending,
            ck_observability_overflow = overflow, ck_observability_timeout = timeout, ck_drain = drain,
            ck_transport_grace = transport_grace, ck_dispatch_grace = dispatch_grace\<rparr>))))))))))))))))))))"

subsection \<open>Components\<close>

text \<open>\<^verbatim>\<open>x or default\<close> where \<open>x\<close> is an object without a truth value of its own.\<close>

definition or_made :: "'a option \<Rightarrow> arg_error + 'a \<Rightarrow> arg_error + 'a" where
  "or_made x made = (case x of None \<Rightarrow> made | Some v \<Rightarrow> Inr v)"

definition default_freshness :: "arg_error + freshness_policy" where
  "default_freshness = mk_freshness_policy (PyFloat (Fin 1)) (PyFloat (Fin 10)) True BLOCKING (PyFloat (Fin 0))"

definition default_retry :: "arg_error + retry_policy" where
  "default_retry = mk_retry_policy (PyInt 2) (PyFloat (Fin (1 / 20))) (PyFloat (Fin 1)) (PyFloat (Fin (1 / 10)))"

definition default_breaker :: "arg_error + circuit_breaker" where
  "default_breaker = mk_circuit_breaker (PyInt 3) (PyFloat (Fin 10)) None"

definition default_observation :: "arg_error + observation_policy" where
  "default_observation = mk_observation_policy (NFloat (Fin 1)) True"

datatype 'c built_cache = OwnCache memory_cache | GivenCache "'c given_cache"

definition choose_cache :: "'c builder_args \<Rightarrow> arg_error + 'c built_cache" where
  "choose_cache a =
     (case ba_cache a of
        Some g \<Rightarrow> if gc_truth g then Inr (GivenCache g)
                  else res_bind (mk_memory_cache None (ba_cache_run_payload_copies_in_thread a) (ba_cache_max_copy_concurrency a))
                         (\<lambda>c. Inr (OwnCache c))
      | None \<Rightarrow> res_bind (mk_memory_cache None (ba_cache_run_payload_copies_in_thread a) (ba_cache_max_copy_concurrency a))
                   (\<lambda>c. Inr (OwnCache c)))"

definition chosen_copier :: "'c builder_args \<Rightarrow> payload_copier" where
  "chosen_copier a = (case ba_payload_copier a of None \<Rightarrow> deepcopy_payload | Some f \<Rightarrow> f)"

definition validates_authority :: "'c built_cache \<Rightarrow> payload_copier \<Rightarrow> bool" where
  "validates_authority c copier =
     (case c of OwnCache m \<Rightarrow> co_validates_source_authority (memory_cache_ops copier)
              | GivenCache g \<Rightarrow> co_validates_source_authority (gc_ops g))"

definition null_sink :: sink_attributes where
  "null_sink = \<lparr>si_buffered = False, si_non_blocking = True\<rparr>"

definition should_buffer :: "bool option \<Rightarrow> sink_attributes \<Rightarrow> bool" where
  "should_buffer choice sink =
     (if si_buffered sink then False else case choice of Some b \<Rightarrow> b | None \<Rightarrow> \<not> si_non_blocking sink)"

definition configure_sink :: "checked_args \<Rightarrow> sink_attributes option \<Rightarrow> arg_error + sink_record dispatcher option" where
  "configure_sink ck sink =
     (if should_buffer (ck_buffer_observability ck) (case sink of None \<Rightarrow> null_sink | Some s \<Rightarrow> s)
      then res_bind (new_dispatcher (ck_observability_max_pending ck) (ck_observability_overflow ck)) (\<lambda>d. Inr (Some d))
      else Inr None)"

text \<open>A declared limit counts unless \<open>source_concurrency\<close> names the source.\<close>

fun register_declared :: "source list \<Rightarrow> capacity_controller \<Rightarrow> arg_error + capacity_controller" where
  "register_declared [] cc = Inr cc"
| "register_declared (s # ss) cc =
     res_bind (limit_for cc (so_name s)) (\<lambda>limit.
       if limit = None
       then res_bind (register_source (so_name s) (so_max_concurrency s) cc) (register_declared ss)
       else register_declared ss cc)"

record 'c built =
  bu_catalog :: source_catalog
  bu_policies :: policy_resolver
  bu_authority :: authority_resolver
  bu_observation :: observation_policy
  bu_copier :: payload_copier
  bu_isolator :: isolator
  bu_cache :: "'c built_cache"
  bu_owns_cache :: bool
  bu_breaker :: circuit_breaker
  bu_capacity :: capacity_controller
  bu_max_concurrency :: int
  bu_max_pending_tasks :: int
  bu_metrics_buffer :: "sink_record dispatcher option"
  bu_events_buffer :: "sink_record dispatcher option"
  bu_manage_lifecycle :: bool
  bu_copy_timeout :: pyfloat
  bu_observability_timeout :: pyfloat
  bu_drain :: bool
  bu_transport_grace :: rat
  bu_dispatch_grace :: rat

text \<open>The resilience that a source without a policy of its own gets.\<close>

definition chosen_resilience :: "'c builder_args \<Rightarrow> circuit_breaker \<Rightarrow> arg_error + resilience_resolver" where
  "chosen_resilience a breaker =
     res_bind (or_made (ba_retry_policy a) default_retry) (\<lambda>retry.
     or_made (ba_resilience_resolver a)
       (mk_resilience_resolver
          (case ba_default_resilience a of
             None \<Rightarrow> \<lparr>rs_retry = retry, rs_circuit = cb_default_policy breaker\<rparr>
           | Some r \<Rightarrow> r)
          (ba_source_resilience a) None))"

definition chosen_authority :: "'c builder_args \<Rightarrow> authority_resolver" where
  "chosen_authority a =
     (case ba_authority_resolver a of
        Some r \<Rightarrow> r
      | None \<Rightarrow> \<lparr>au_default = (case ba_authority_policy a of None \<Rightarrow> default_authority | Some p \<Rightarrow> p),
                au_overrides = [], au_dynamic = None\<rparr>)"

definition chosen_policies :: "'c builder_args \<Rightarrow> arg_error + policy_resolver" where
  "chosen_policies a =
     res_bind (or_made (ba_default_policy a) default_freshness) (\<lambda>dflt.
       Inr (case ba_policy_resolver a of
              Some r \<Rightarrow> r | None \<Rightarrow> \<lparr>pr_default = dflt, pr_overrides = [], pr_dynamic = None\<rparr>))"

definition construct_builder :: "'c builder_args \<Rightarrow> arg_error + 'c built" where
  "construct_builder a =
     res_bind (check_builder_args a) (\<lambda>ck.
     res_bind (chosen_policies a) (\<lambda>policies.
     res_bind (mk_async_isolator (ba_payload_copier a = None) (ba_run_payload_copies_in_thread a)
                 (ba_max_copy_concurrency a) ''builder'') (\<lambda>isolator.
     res_bind (to_double (ck_copy_timeout ck)) (\<lambda>copy_timeout.
     res_bind (choose_cache a) (\<lambda>cache.
     res_bind (or_made (ba_circuit_breaker a) default_breaker) (\<lambda>breaker.
     res_bind (chosen_resilience a breaker) (\<lambda>resilience.
     res_bind (to_double (ck_observability_timeout ck)) (\<lambda>observability_timeout.
     res_bind (or_made (ba_observation_policy a) default_observation) (\<lambda>observation.
     res_bind (mk_source_catalog (ba_sources a) resilience (ba_cache_source_support a)
                 (ba_source_support_cache_max_entries a) (ba_require_source_timeout_declarations a)
                 (ba_allow_unsafe_blocking_sources a)) (\<lambda>catalog.
     res_bind (raise_if (authority_has_rules (chosen_authority a) \<and> \<not> validates_authority cache (chosen_copier a))
       (ValueError ''authority policies require a cache that declares validates_source_authority = True'')) (\<lambda>_.
     res_bind (mk_capacity_controller (ba_max_concurrency a) (ba_source_concurrency a)) (\<lambda>capacity.
     res_bind (register_declared (sg_sources catalog) capacity) (\<lambda>registered.
     res_bind (configure_sink ck (ba_metrics a)) (\<lambda>metrics.
     res_bind (configure_sink ck (ba_events a)) (\<lambda>events.
       Inr \<lparr>bu_catalog = catalog, bu_policies = policies, bu_authority = chosen_authority a,
            bu_observation = observation, bu_copier = chosen_copier a, bu_isolator = isolator,
            bu_cache = cache, bu_owns_cache = (ba_cache a = None), bu_breaker = breaker, bu_capacity = registered,
            bu_max_concurrency = ba_max_concurrency a,
            bu_max_pending_tasks = (case ba_max_pending_tasks a of None \<Rightarrow> ba_max_concurrency a | Some n \<Rightarrow> n),
            bu_metrics_buffer = metrics, bu_events_buffer = events, bu_manage_lifecycle = ba_manage_lifecycle a,
            bu_copy_timeout = copy_timeout, bu_observability_timeout = observability_timeout, bu_drain = ck_drain ck,
            bu_transport_grace = ck_transport_grace ck, bu_dispatch_grace = ck_dispatch_grace ck\<rparr>)))))))))))))))"

text \<open>
  What a resolution sees of a builder over its own cache; the limit of nested awaits is that of
  the interpreter.
\<close>

definition own_builder :: "nat \<Rightarrow> 'c built \<Rightarrow> memory_cache builder" where
  "own_builder recursion_limit b =
     \<lparr>bl_ops = memory_cache_ops (bu_copier b), bl_catalog = bu_catalog b, bl_policies = bu_policies b,
      bl_authority = bu_authority b, bl_observation = bu_observation b, bl_copier = bu_copier b,
      bl_copy = \<lparr>cf_component = ai_component (bu_isolator b), cf_closing = (ai_closing (bu_isolator b) \<or> ai_closed (bu_isolator b)),
                 cf_run_in_thread = ai_run_in_thread (bu_isolator b)\<rparr>,
      bl_capacity = bu_capacity b, bl_max_concurrency = bu_max_concurrency b,
      bl_max_pending_tasks = bu_max_pending_tasks b, bl_transport_timeout_grace_seconds = bu_transport_grace b,
      bl_deadline_dispatch_grace_seconds = bu_dispatch_grace b, bl_recursion_limit = recursion_limit\<rparr>"

text \<open>The buffers the builder owns, by name, in the order in which they were made.\<close>

definition owned_buffers :: "'c built \<Rightarrow> string list" where
  "owned_buffers b = (if bu_metrics_buffer b = None then [] else [''metrics''])
     @ (if bu_events_buffer b = None then [] else [''events''])"

subsection \<open>Lemmas\<close>

lemma positive_int_arg_Inr [res_iff]: "positive_int_arg nm v = Inr n \<longleftrightarrow> v = PyInt n \<and> 1 \<le> n"
  by (cases v) (auto simp: positive_int_arg_def raise_if_def)

lemma grace_arg_Inr: "grace_arg nm v = Inr t \<Longrightarrow> 0 \<le> t"
proof -
  assume "grace_arg nm v = Inr t"
  then obtain f where "(case f of
      Fin t \<Rightarrow> if t < 0 then Inl (ValueError (nm @ '' cannot be negative'')) else Inr t
    | _ \<Rightarrow> Inl (ValueError (nm @ '' must be finite''))) = Inr t"
    by (auto simp: grace_arg_def res_iff)
  then show ?thesis by (cases f) (auto split: if_splits)
qed

lemma checked_grace:
  assumes "check_builder_args a = Inr ck" shows "0 \<le> ck_transport_grace ck" "0 \<le> ck_dispatch_grace ck"
  using assms by (auto simp: check_builder_args_def res_iff dest: grace_arg_Inr)

lemma checked_counts:
  assumes "check_builder_args a = Inr ck"
  shows "1 \<le> ba_max_concurrency a" "\<And>n. ba_max_pending_tasks a = Some n \<Longrightarrow> 1 \<le> n" "ba_sources a \<noteq> []"
    "1 \<le> ck_observability_max_pending ck"
  using assms by (auto simp: check_builder_args_def res_iff below_one_def)

text \<open>The limit of a source: an explicit one, or that of the first source of its name to declare one.\<close>

definition declared_limit :: "source list \<Rightarrow> string \<Rightarrow> int option" where
  "declared_limit ss nm =
     (case filter (\<lambda>s. strip (so_name s) = nm \<and> so_max_concurrency s \<noteq> None) ss of
        [] \<Rightarrow> None | s # _ \<Rightarrow> so_max_concurrency s)"

lemma register_source_limits:
  assumes "register_source nm limit cc = Inr cc'" "map_of (cc_source_limits cc) (strip nm) = None"
  shows "map_of (cc_source_limits cc') = (map_of (cc_source_limits cc))(strip nm := limit)" "cc_global cc' = cc_global cc"
  using assms by (auto simp: register_source_def normalize_source_def validate_limit_def res_iff Let_def fun_upd_idem
    split: option.splits if_splits)

lemma register_declared_limits:
  "register_declared ss cc = Inr cc' \<Longrightarrow> cc_global cc' = cc_global cc
   \<and> map_of (cc_source_limits cc') nm = (case map_of (cc_source_limits cc) nm of Some n \<Rightarrow> Some n | None \<Rightarrow> declared_limit ss nm)"
proof (induction ss arbitrary: cc)
  case Nil
  then show ?case by (simp add: declared_limit_def split: option.splits)
next
  case (Cons s ss)
  from Cons.prems obtain l where l: "limit_for cc (so_name s) = Inr l" by (auto simp: res_iff)
  then have l': "l = map_of (cc_source_limits cc) (strip (so_name s))"
    by (auto simp: limit_for_def normalize_source_def Let_def res_iff split: if_splits)
  show ?case
  proof (cases l)
    case None
    with Cons.prems l obtain cc1 where cc1: "register_source (so_name s) (so_max_concurrency s) cc = Inr cc1"
      "register_declared ss cc1 = Inr cc'" by (auto simp: res_iff)
    note at = register_source_limits [OF cc1(1) l' [unfolded None, symmetric]]
    show ?thesis
    proof (cases "nm = strip (so_name s)")
      case True
      with Cons.IH [OF cc1(2)] at l' None show ?thesis by (cases "so_max_concurrency s") (simp_all add: declared_limit_def)
    next
      case False
      then have "declared_limit (s # ss) nm = declared_limit ss nm" by (auto simp: declared_limit_def)
      with Cons.IH [OF cc1(2)] at False show ?thesis
        by (cases "map_of (cc_source_limits cc) nm") simp_all
    qed
  next
    case (Some n)
    with Cons.prems l have "register_declared ss cc = Inr cc'" by simp
    from Cons.IH [OF this] Some l' show ?thesis
      by (cases "nm = strip (so_name s)"; cases "map_of (cc_source_limits cc) nm")
        (simp_all add: declared_limit_def eq_commute [of nm])
  qed
qed

lemma register_declared_inv:
  "register_declared ss cc = Inr cc' \<Longrightarrow> cap_inv (cc, Map.empty) \<Longrightarrow> cap_inv (cc', Map.empty)"
proof (induction ss arbitrary: cc)
  case (Cons s ss)
  from Cons.prems(1) obtain l where l: "limit_for cc (so_name s) = Inr l" by (auto simp: res_iff)
  show ?case
  proof (cases l)
    case None
    with Cons.prems l obtain cc1 where "register_source (so_name s) (so_max_concurrency s) cc = Inr cc1"
      "register_declared ss cc1 = Inr cc'" by (auto simp: res_iff)
    with Cons.IH register_source_inv [OF Cons.prems(2)] show ?thesis by blast
  next
    case (Some n)
    with Cons l show ?thesis by simp
  qed
qed simp

lemma catalog_source_checked:
  assumes "mk_source_catalog srcs resolver c n rd au = Inr cat" "s \<in> set (sg_sources cat)"
  shows "s \<in> set srcs" "strip (so_name s) \<noteq> ''''" "so_resilience_policy s \<noteq> WrongType"
    "\<And>m. so_max_batch_size s = Some m \<Longrightarrow> 1 \<le> m" "sg_resilience_resolver cat = resolver"
proof -
  from assms(1) obtain rd' au' gs where gs: "res_map (check_source rd' au') srcs = Inr gs"
    and cat: "sg_sources cat = sort_key (\<lambda>s. - so_priority s) srcs" "sg_resilience_resolver cat = resolver"
    by (auto simp: mk_source_catalog_def res_iff Let_def)
  show s: "s \<in> set srcs" using assms(2) cat by simp
  with gs have "\<exists>q. check_source rd' au' s = Inr q" by (auto simp: res_map_Inr_conv list_all2_conv_all_nth in_set_conv_nth)
  then have "validate_source s = Inr ()" by (auto simp: check_source_def res_iff)
  then show "strip (so_name s) \<noteq> ''''" "so_resilience_policy s \<noteq> WrongType" "\<And>m. so_max_batch_size s = Some m \<Longrightarrow> 1 \<le> m"
    by (auto simp: validate_source_def Let_def res_iff)
  show "sg_resilience_resolver cat = resolver" by (rule cat(2))
qed

text \<open>Without a resolver of the application, every source of the catalog has a resilience policy.\<close>

lemma resilience_chosen:
  assumes "chosen_resilience a breaker = Inr r" "ba_resilience_resolver a = None"
  shows "rr_dynamic r = None"
  using assms by (auto simp: chosen_resilience_def or_made_def mk_resilience_resolver_def res_iff)

lemma resilience_known:
  assumes "rr_dynamic (sg_resilience_resolver cat) = None" "strip (so_name s) \<noteq> ''''" "so_resilience_policy s \<noteq> WrongType"
  shows "\<exists>r. resilience_for cat s = Inr r"
  using assms by (cases "so_resilience_policy s")
    (auto simp: resilience_for_def resilience_resolve_def normalize_source_def lift_arg_def Let_def split: option.splits)

lemma construct_builderE:
  assumes "construct_builder a = Inr b"
  obtains ck breaker resilience capacity where
    "check_builder_args a = Inr ck" "chosen_policies a = Inr (bu_policies b)"
    "mk_async_isolator (ba_payload_copier a = None) (ba_run_payload_copies_in_thread a) (ba_max_copy_concurrency a) ''builder'' = Inr (bu_isolator b)"
    "choose_cache a = Inr (bu_cache b)" "or_made (ba_circuit_breaker a) default_breaker = Inr breaker"
    "chosen_resilience a breaker = Inr resilience"
    "mk_source_catalog (ba_sources a) resilience (ba_cache_source_support a) (ba_source_support_cache_max_entries a)
       (ba_require_source_timeout_declarations a) (ba_allow_unsafe_blocking_sources a) = Inr (bu_catalog b)"
    "\<not> (authority_has_rules (bu_authority b) \<and> \<not> validates_authority (bu_cache b) (bu_copier b))"
    "mk_capacity_controller (ba_max_concurrency a) (ba_source_concurrency a) = Inr capacity"
    "register_declared (sg_sources (bu_catalog b)) capacity = Inr (bu_capacity b)"
    "configure_sink ck (ba_metrics a) = Inr (bu_metrics_buffer b)" "configure_sink ck (ba_events a) = Inr (bu_events_buffer b)"
    "bu_max_concurrency b = ba_max_concurrency a"
    "bu_max_pending_tasks b = (case ba_max_pending_tasks a of None \<Rightarrow> ba_max_concurrency a | Some n \<Rightarrow> n)"
    "bu_transport_grace b = ck_transport_grace ck" "bu_dispatch_grace b = ck_dispatch_grace ck"
    "bu_owns_cache b = (ba_cache a = None)"
  using assms by (auto simp: construct_builder_def res_iff)

lemma new_buffer_sound:
  "configure_sink ck sink = Inr (Some d) \<Longrightarrow> sound ([], d)"
  by (auto simp: configure_sink_def res_iff dest: new_dispatcher_sound split: if_splits)

lemma constructed_cache:
  "choose_cache a = Inr c \<Longrightarrow> (case c of OwnCache m \<Rightarrow> cache_inv m \<and> mc_entries m = [] | GivenCache g \<Rightarrow> ba_cache a = Some g \<and> gc_truth g)"
  by (auto simp: choose_cache_def res_iff dest: mk_memory_cache_inv split: option.splits if_splits)

lemma own_cache_iff:
  "choose_cache a = Inr c \<Longrightarrow> (\<exists>m. c = OwnCache m) \<longleftrightarrow> (case ba_cache a of None \<Rightarrow> True | Some g \<Rightarrow> \<not> gc_truth g)"
  by (auto simp: choose_cache_def res_iff split: option.splits if_splits)

lemma controller_limits:
  "mk_capacity_controller n limits = Inr cc \<Longrightarrow> li_limit (cc_global cc) = nat n
   \<and> map_of (cc_source_limits cc) = map_of (od_of (map (\<lambda>p. (strip (fst p), snd p)) limits))"
proof -
  assume "mk_capacity_controller n limits = Inr cc"
  then obtain g ls lims where g: "mk_limiter n = Inr g"
    and ls: "res_map (\<lambda>p. res_bind (normalize_source (fst p)) (\<lambda>nm. res_bind (validate_limit (snd p)) (\<lambda>n. Inr (nm, n)))) limits = Inr ls"
    and cc: "cc = \<lparr>cc_global = g, cc_source_limits = od_of ls, cc_source_limiters = lims\<rparr>"
    by (auto simp: mk_capacity_controller_def res_iff)
  have "ls = map (\<lambda>p. (strip (fst p), snd p)) limits" using ls
    by (induction limits arbitrary: ls)
      (auto simp: res_iff normalize_source_def validate_limit_def Let_def split: if_splits)
  moreover have "li_limit g = nat n" using g by (auto simp: mk_limiter_def split: if_splits)
  ultimately show ?thesis by (simp add: cc)
qed

subsection \<open>Properties\<close>

text \<open>The state in which a constructed builder starts, and what the parts of a resolution assume of it.\<close>

definition ready_source :: "'c built \<Rightarrow> source \<Rightarrow> bool" where
  "ready_source b s \<longleftrightarrow> strip (so_name s) \<noteq> '''' \<and> (\<forall>m. so_max_batch_size s = Some m \<longrightarrow> 1 \<le> m)
     \<and> (rr_dynamic (sg_resilience_resolver (bu_catalog b)) = None \<longrightarrow> (\<exists>r. resilience_for (bu_catalog b) s = Inr r))"

definition idle_buffer :: "'a dispatcher option \<Rightarrow> bool" where
  "idle_buffer d \<longleftrightarrow> (case d of None \<Rightarrow> True | Some q \<Rightarrow> sound ([], q))"

lemma constructed_counts:
  "construct_builder a = Inr b \<Longrightarrow> 1 \<le> bu_max_concurrency b \<and> 1 \<le> bu_max_pending_tasks b
     \<and> 0 \<le> bu_transport_grace b \<and> 0 \<le> bu_dispatch_grace b"
proof (erule construct_builderE, goal_cases)
  case (1 ck breaker resilience capacity)
  from checked_counts [OF 1(1)] checked_grace [OF 1(1)] show ?case by (simp add: 1(13-16) split: option.splits)
qed

lemma constructed_source:
  assumes "construct_builder a = Inr b" "s \<in> set (sg_sources (bu_catalog b))"
  shows "ready_source b s \<and> (ba_resilience_resolver a = None \<longrightarrow> rr_dynamic (sg_resilience_resolver (bu_catalog b)) = None)"
  using assms(1)
proof (cases rule: construct_builderE)
  case (1 ck breaker resilience capacity)
  note cat = catalog_source_checked [OF 1(7) assms(2)]
  then show ?thesis
    using resilience_known [of "bu_catalog b" s] resilience_chosen [OF 1(6)] by (simp add: ready_source_def)
qed


text \<open>The construction provides what a calm resolution assumes of the builder, its sources and its cache.\<close>

lemma constructed_program:
  assumes made: "construct_builder a = Inr b" "ba_resilience_resolver a = None"
    and calm: "calm ap (own_builder limit b)" "calm_surroundings ap (own_builder limit b)"
  shows "calm_program ap (own_builder limit b)"
proof -
  have "checked_builder (own_builder limit b)"
    using constructed_source [OF made(1)] made(2) constructed_counts [OF made(1)]
    by (fastforce simp: checked_builder_def own_builder_def ready_source_def)
  moreover have "calm_cache_ops (bl_ops (own_builder limit b))"
    using calm(1) by (simp add: own_builder_def calm_def memory_cache_calm)
  ultimately show ?thesis using calm by (simp add: calm_program_def)
qed

text \<open>
  C35: Over its own cache, and without a resilience resolver of the application, an attempt of a
  constructed builder at any of its sources gives each key one outcome, whatever the sources, the
  copier, the policies, the ranks and the joined flights raise short of a cancellation: the
  construction provides what an attempt assumes of the builder and of the source, and the resolver
  itself, which an attempt at a derived source calls for the dependencies, never raises a
  cancellation, however far its recursion is unrolled.
\<close>

theorem constructed_attempts_total:
  assumes made: "construct_builder a = Inr b" "ba_resilience_resolver a = None"
    and s: "s \<in> set (sg_sources (bu_catalog b))"
    and calm: "calm ap (own_builder limit b)" "calm_surroundings ap (own_builder limit b)"
    and resolver: "resolve = resolve_many n unreached ap (own_builder limit b) ctx"
  shows "(\<exists>results w'. attempt ap (own_builder limit b) resolve s keys ctx ancestry local_owned w = (Inr results, w')
      \<and> od_ok results \<and> set (od_keys results) = set keys)
    \<and> fst (resolve keys ancestry local_owned w) \<noteq> Inl CancelledError"
proof -
  let ?bl = "own_builder limit b"
  have pr: "calm_program ap ?bl" by (rule constructed_program [OF made calm])
  have resolve: "calm_resolver resolve" unfolding resolver by (rule resolve_many_calm [OF pr])
  have src: "s \<in> set (sg_sources (bl_catalog ?bl))" "\<And>m. so_max_batch_size s = Some m \<Longrightarrow> 1 \<le> m"
    using s constructed_source [OF made(1) s] by (auto simp: own_builder_def ready_source_def)
  have "raises_only (\<lambda>e. False) (attempt ap ?bl resolve s keys ctx ancestry local_owned)"
    by (rule checked_attempt_total [OF calm_programD(1,4) [OF pr] src(1) resolve])
  from raises_nothing [OF this, of w] obtain results w' where
    run: "attempt ap ?bl resolve s keys ctx ancestry local_owned w = (Inr results, w')" by (elim exE)
  have "attempts_exactly keys results" by (rule attempt_keys [OF run]) (rule src(2))
  moreover have "fst (resolve keys ancestry local_owned w) \<noteq> Inl CancelledError"
    using resolve unfolding calm_resolver_def raises_only_def is_exception_iff by blast
  ultimately show ?thesis using run by (auto simp: attempts_exactly_def)
qed

subsection \<open>A constructed builder\<close>

definition fixture_builder_args :: "memory_cache builder_args" where
  "fixture_builder_args = \<lparr>ba_sources = [fixture_source ''feed''], ba_default_policy = None, ba_policy_resolver = None,
     ba_authority_policy = None, ba_authority_resolver = None, ba_cache = None, ba_retry_policy = None,
     ba_circuit_breaker = None, ba_default_resilience = None, ba_source_resilience = [], ba_resilience_resolver = None,
     ba_metrics = None, ba_events = Some \<lparr>si_buffered = False, si_non_blocking = False\<rparr>, ba_max_concurrency = 8,
     ba_max_pending_tasks = None, ba_source_concurrency = [('' feed'', 3)], ba_observation_policy = None,
     ba_cache_source_support = True, ba_source_support_cache_max_entries = Some 16, ba_manage_lifecycle = False,
     ba_payload_copier = None, ba_run_payload_copies_in_thread = PyNone, ba_max_copy_concurrency = PyInt 4,
     ba_cache_run_payload_copies_in_thread = PyNone, ba_cache_max_copy_concurrency = PyInt 4,
     ba_copy_shutdown_timeout_seconds = PyFloat (Fin 5), ba_buffer_observability = PyNone,
     ba_observability_max_pending = PyInt 16, ba_observability_overflow = Some DROP_OLDEST,
     ba_observability_shutdown_timeout_seconds = PyFloat (Fin 5), ba_observability_drain_on_shutdown = PyBool True,
     ba_require_source_timeout_declarations = PyBool True, ba_allow_unsafe_blocking_sources = PyBool False,
     ba_source_transport_timeout_grace_seconds = PyFloat (Fin (1 / 20)),
     ba_source_deadline_dispatch_grace_seconds = PyFloat (Fin 0)\<rparr>"

lemma fixture_constructed:
  obtains b where "construct_builder fixture_builder_args = Inr b"
    "sg_sources (bu_catalog b) = [fixture_source ''feed'']"
    "owned_buffers b = [''events'']" "limit_for (bu_capacity b) ''feed'' = Inr (Some 3)"
proof -
  have "(case construct_builder fixture_builder_args of Inl e \<Rightarrow> False
      | Inr b \<Rightarrow> sg_sources (bu_catalog b) = [fixture_source ''feed'']
          \<and> owned_buffers b = [''events''] \<and> limit_for (bu_capacity b) ''feed'' = Inr (Some 3)) = True"
    by code_simp
  then show thesis by (auto split: sum.splits intro: that)
qed


theorem constructed_attempts_total_witness:
  "\<exists>b results w'. construct_builder fixture_builder_args = Inr b
     \<and> attempt (fixture_app 1) (own_builder 100 b)
         (resolve_many 2 unreached (fixture_app 1) (own_builder 100 b) (fixture_context None))
         (fixture_source ''feed'') [fixture_key ''quote''] (fixture_context None) [] {} fixture_world = (Inr results, w')
     \<and> set (od_keys results) = {fixture_key ''quote''}"
proof -
  obtain b where b: "construct_builder fixture_builder_args = Inr b" "sg_sources (bu_catalog b) = [fixture_source ''feed'']"
    by (rule fixture_constructed)
  have "chosen_policies fixture_builder_args = Inr (bu_policies b)" using b(1) by (rule construct_builderE)
  then have "\<exists>p. policy_resolve (bu_policies b) k = Inr p" for k
    by (auto simp: chosen_policies_def fixture_builder_args_def policy_resolve_def res_iff dest!: sym [of _ "bu_policies b"])
  moreover have copier: "bu_copier b = deepcopy_payload" and authority: "bu_authority b = chosen_authority fixture_builder_args"
    using b(1) by (auto simp: construct_builder_def res_iff chosen_copier_def fixture_builder_args_def)
  ultimately have calm: "calm (fixture_app 1) (own_builder 100 b)"
    by (simp add: calm_def calm_call_def calm_copier_def fixture_app_def own_builder_def deepcopy_payload_def)
      (metis Inr_not_Inl)
  have "calm_surroundings (fixture_app 1) (own_builder 100 b)"
    by (simp add: calm_surroundings_def fixture_app_def own_builder_def authority authority_resolve_def
        chosen_authority_def fixture_builder_args_def)
  from constructed_attempts_total [OF b(1) _ _ calm this refl, of "fixture_source ''feed''" 2 "fixture_context None"
      "[fixture_key ''quote'']" "[]" "{}" fixture_world] b
  show ?thesis by (simp add: fixture_builder_args_def) blast
qed

text \<open>
  Two arguments that the checks let pass: NaN as a shutdown timeout, since it is not at most zero,
  and a cache that is false, for which an own cache is made that the builder does not own.
\<close>

lemma nan_timeout_accepted: "positive_number_arg nm (PyFloat NaN) = Inr (NFloat NaN)"
  by (simp add: positive_number_arg_def)

lemma false_cache_replaced:
  assumes "construct_builder a = Inr b" "ba_cache a = Some g" "\<not> gc_truth g"
  shows "\<exists>m. bu_cache b = OwnCache m" "\<not> bu_owns_cache b"
proof -
  from assms(1) have "choose_cache a = Inr (bu_cache b) \<and> bu_owns_cache b = (ba_cache a = None)"
    by (cases rule: construct_builderE) simp
  then show "\<exists>m. bu_cache b = OwnCache m" "\<not> bu_owns_cache b" using own_cache_iff [of a] assms(2,3) by auto
qed

end
