(* ===== verification/Sinks.thy ===== *)
theory Sinks
  imports Prelude
begin

section \<open>Metrics kept in memory (observability/metrics.py)\<close>

text \<open>
  \<open>InMemoryMetrics\<close> keeps a counter and a list of observations for every metric with its labels.
  Its lock makes each method one step. Labels are keyword arguments, so that their names are
  distinct, and two calls with the same labels in different orders share a series.
\<close>

record observation_summary =
  os_count :: int
  os_total :: rat
  os_minimum :: rat
  os_maximum :: rat
  os_average :: rat

type_synonym series = "string \<times> (string \<times> string) list"

record memory_metrics =
  mm_counters :: "(series, int) odict"
  mm_observations :: "(series, rat list) odict"

definition new_memory_metrics :: memory_metrics where
  "new_memory_metrics = \<lparr>mm_counters = [], mm_observations = []\<rparr>"

definition series_key :: "string \<Rightarrow> (string \<times> string) list \<Rightarrow> series" where
  "series_key metric labels = (metric, sort labels)"

text \<open>A \<^verbatim>\<open>defaultdict\<close> starts a missing series with its default.\<close>

definition or_default :: "'v \<Rightarrow> 'v option \<Rightarrow> 'v" where
  "or_default d x = (case x of None \<Rightarrow> d | Some v \<Rightarrow> v)"

definition metrics_increment :: "string \<Rightarrow> int \<Rightarrow> (string \<times> string) list \<Rightarrow> memory_metrics \<Rightarrow> memory_metrics" where
  "metrics_increment metric value labels m =
     (let k = series_key metric labels
      in m\<lparr>mm_counters := od_set k (or_default 0 (map_of (mm_counters m) k) + value) (mm_counters m)\<rparr>)"

definition metrics_observe :: "string \<Rightarrow> rat \<Rightarrow> (string \<times> string) list \<Rightarrow> memory_metrics \<Rightarrow> memory_metrics" where
  "metrics_observe metric value labels m =
     (let k = series_key metric labels
      in m\<lparr>mm_observations := od_set k (or_default [] (map_of (mm_observations m) k) @ [value]) (mm_observations m)\<rparr>)"

definition metrics_counter :: "memory_metrics \<Rightarrow> string \<Rightarrow> (string \<times> string) list \<Rightarrow> int" where
  "metrics_counter m metric labels = or_default 0 (map_of (mm_counters m) (series_key metric labels))"

definition metrics_summary :: "memory_metrics \<Rightarrow> string \<Rightarrow> (string \<times> string) list \<Rightarrow> observation_summary option" where
  "metrics_summary m metric labels =
     (let vs = or_default [] (map_of (mm_observations m) (series_key metric labels))
      in if vs = [] then None
         else let total = sum_list vs
              in Some \<lparr>os_count = int (length vs), os_total = total, os_minimum = Min (set vs), os_maximum = Max (set vs),
                       os_average = total / of_nat (length vs)\<rparr>)"

text \<open>A sink that is given the log of a component, call by call.\<close>

fun metrics_receive :: "obs \<Rightarrow> memory_metrics \<Rightarrow> memory_metrics" where
  "metrics_receive (MetricIncrement metric labels) m = metrics_increment metric 1 labels m"
| "metrics_receive (MetricObserve metric value labels) m = metrics_observe metric value labels m"
| "metrics_receive (EventEmit _ _) m = m"

subsection \<open>Lemmas\<close>

fun increments_of :: "series \<Rightarrow> obs \<Rightarrow> bool" where
  "increments_of k (MetricIncrement metric labels) = (series_key metric labels = k)"
| "increments_of k _ = False"

fun observed_of :: "series \<Rightarrow> obs \<Rightarrow> rat list" where
  "observed_of k (MetricObserve metric value labels) = (if series_key metric labels = k then [value] else [])"
| "observed_of k _ = []"

lemma or_default_simps [simp]: "or_default d None = d" "or_default d (Some v) = v"
  by (simp_all add: or_default_def)

lemma receive_counter:
  "or_default 0 (map_of (mm_counters (metrics_receive e m)) k)
   = or_default 0 (map_of (mm_counters m) k) + (if increments_of k e then 1 else 0)"
  by (cases e) (auto simp: metrics_increment_def metrics_observe_def Let_def)

lemma receive_observations:
  "or_default [] (map_of (mm_observations (metrics_receive e m)) k)
   = or_default [] (map_of (mm_observations m) k) @ observed_of k e"
  by (cases e) (auto simp: metrics_increment_def metrics_observe_def Let_def)

lemma receive_all:
  "or_default 0 (map_of (mm_counters (fold metrics_receive es m)) k)
     = or_default 0 (map_of (mm_counters m) k) + int (length (filter (increments_of k) es))"
  "or_default [] (map_of (mm_observations (fold metrics_receive es m)) k)
     = or_default [] (map_of (mm_observations m) k) @ concat (map (observed_of k) es)"
  by (induction es arbitrary: m) (simp_all add: receive_counter receive_observations)

lemma sum_list_between:
  fixes vs :: "rat list"
  shows "\<forall>v \<in> set vs. a \<le> v \<and> v \<le> b \<Longrightarrow> of_nat (length vs) * a \<le> sum_list vs \<and> sum_list vs \<le> of_nat (length vs) * b"
  by (induction vs) (auto simp: algebra_simps intro: add_mono)

subsection \<open>Properties\<close>

text \<open>
  The sink reports exactly the log it was given: the counter of a metric with some labels is the
  number of its increments with these labels in whatever order, and there is a summary exactly when
  the series was observed, over exactly its observations, with the average between the extremes.
\<close>

lemma sink_reports_log:
  fixes log :: "obs list" and metric :: string and labels :: "(string \<times> string) list"
  defines "m \<equiv> fold metrics_receive log new_memory_metrics"
    and "vs \<equiv> concat (map (observed_of (series_key metric labels)) log)"
  shows "metrics_counter m metric labels = int (length (filter (increments_of (series_key metric labels)) log))
    \<and> (case metrics_summary m metric labels of
         None \<Rightarrow> vs = []
       | Some s \<Rightarrow> vs \<noteq> [] \<and> os_count s = int (length vs) \<and> os_total s = sum_list vs
           \<and> os_minimum s \<in> set vs \<and> os_maximum s \<in> set vs \<and> (\<forall>v \<in> set vs. os_minimum s \<le> v \<and> v \<le> os_maximum s)
           \<and> os_minimum s \<le> os_average s \<and> os_average s \<le> os_maximum s)"
proof -
  have n: "mm_counters new_memory_metrics = []" "mm_observations new_memory_metrics = []"
    by (simp_all add: new_memory_metrics_def)
  have c: "metrics_counter m metric labels = int (length (filter (increments_of (series_key metric labels)) log))"
    by (simp add: metrics_counter_def m_def receive_all(1) n)
  have s: "metrics_summary m metric labels = (if vs = [] then None
      else Some \<lparr>os_count = int (length vs), os_total = sum_list vs, os_minimum = Min (set vs), os_maximum = Max (set vs),
                 os_average = sum_list vs / of_nat (length vs)\<rparr>)"
    by (simp add: metrics_summary_def m_def receive_all(2) n vs_def Let_def)
  have "Min (set vs) \<le> sum_list vs / of_nat (length vs) \<and> sum_list vs / of_nat (length vs) \<le> Max (set vs)" if "vs \<noteq> []"
  proof -
    have "0 < (of_nat (length vs) :: rat)" using that by simp
    then show ?thesis using sum_list_between [of vs "Min (set vs)" "Max (set vs)"] that
      by (simp add: field_simps)
  qed
  with c s show ?thesis by simp
qed

lemma sink_reports_log_witness:
  "\<exists>s. metrics_summary (fold metrics_receive
        [MetricObserve ''latency_ms'' 1 [(''a'', ''x''), (''b'', ''y'')], MetricIncrement ''calls'' [],
         MetricObserve ''latency_ms'' 4 [(''b'', ''y''), (''a'', ''x'')]] new_memory_metrics)
       ''latency_ms'' [(''a'', ''x''), (''b'', ''y'')] = Some s
     \<and> os_count s = 2 \<and> os_minimum s \<le> 1 \<and> 4 \<le> os_maximum s"
proof -
  let ?log = "[MetricObserve ''latency_ms'' 1 [(''a'', ''x''), (''b'', ''y'')], MetricIncrement ''calls'' [],
      MetricObserve ''latency_ms'' 4 [(''b'', ''y''), (''a'', ''x'')]]"
  have k: "series_key ''latency_ms'' [(''b'', ''y''), (''a'', ''x'')] = series_key ''latency_ms'' [(''a'', ''x''), (''b'', ''y'')]"
    by code_simp
  show ?thesis
    using sink_reports_log [of ?log "''latency_ms''" "[(''a'', ''x''), (''b'', ''y'')]"]
    by (cases "metrics_summary (fold metrics_receive ?log new_memory_metrics) ''latency_ms'' [(''a'', ''x''), (''b'', ''y'')]")
      (auto simp: k simp del: fold_simps)
qed

end
